(* ===== verification/Prelude.thy ===== *)
theory Prelude
  imports Main "HOL-Library.Word" "HOL-Library.Sublist"
begin

text \<open>
  Shared vocabulary of the development: names for the machine types of the C++ sources, the
  conversions between \<open>std::string\<close> and byte vectors, the collections of rewrite rules the
  component theories contribute to, and the generic facts about words, lists and saturating
  bounds that several components use.
\<close>

section \<open>Machine types\<close>

type_synonym byte = "8 word"
type_synonym u16 = "16 word"
type_synonym u32 = "32 word"
type_synonym u64 = "64 word"

unbundle bit_operations_syntax

section \<open>Strings as bytes\<close>

text \<open>
  A \<open>std::string\<close> is a sequence of \<open>char\<close>; the wire code reinterprets it as a sequence of
  \<open>uint8_t\<close> and back (\<open>reinterpret_cast\<close>, \<open>insert\<close>, \<open>assign\<close>).
\<close>

definition byte_of_char :: "char \<Rightarrow> byte" where
  "byte_of_char c = of_nat (of_char c)"

definition char_of_byte :: "byte \<Rightarrow> char" where
  "char_of_byte b = char_of (unat b)"

definition bytes_of_string :: "string \<Rightarrow> byte list" where
  "bytes_of_string s = map byte_of_char s"

definition string_of_bytes :: "byte list \<Rightarrow> string" where
  "string_of_bytes bs = map char_of_byte bs"

section \<open>Collections\<close>

named_theorems codec_simps \<open>round trips of the byte-order helpers\<close>
named_theorems frame_simps \<open>what the frame constructors put into each field\<close>

section \<open>Generic facts\<close>

lemma of_char_less_256: "(of_char c :: nat) < 256"
  by (rule nat_of_char_less_256)

lemma char_of_byte_of_char [simp]: "char_of_byte (byte_of_char c) = c"
  by (simp add: char_of_byte_def byte_of_char_def unat_of_nat take_bit_eq_mod)

lemma byte_of_char_of_byte [simp]: "byte_of_char (char_of_byte b) = b"
proof -
  have "unat b < 2 ^ LENGTH(8)"
    by (rule unsigned_less)
  then show ?thesis
    by (simp add: char_of_byte_def byte_of_char_def)
qed

lemma string_of_bytes_of_string [simp]: "string_of_bytes (bytes_of_string s) = s"
  by (simp add: string_of_bytes_def bytes_of_string_def comp_def)

lemma bytes_of_string_of_bytes [simp]: "bytes_of_string (string_of_bytes bs) = bs"
  by (simp add: string_of_bytes_def bytes_of_string_def comp_def)

lemma length_bytes_of_string [simp]: "length (bytes_of_string s) = length s"
  by (simp add: bytes_of_string_def)

lemma length_string_of_bytes [simp]: "length (string_of_bytes bs) = length bs"
  by (simp add: string_of_bytes_def)

lemma take_bytes_of_string: "take n (bytes_of_string s) = bytes_of_string (take n s)"
  by (simp add: bytes_of_string_def take_map)

lemma bytes_of_string_Nil_iff [simp]: "bytes_of_string s = [] \<longleftrightarrow> s = []"
  by (simp add: bytes_of_string_def)

lemma mask8_eq: "(0xFF :: 'a::len word) = mask 8"
  by (simp add: mask_eq_exp_minus_1)

lemma upt_0_8: "[0..<8] = [0, 1, 2, 3, 4, 5, 6, 7 :: nat]"
  by (simp add: upt_rec)

lemma push_drop_low_byte:
  "push_bit 8 (drop_bit 8 x) OR ucast (ucast (x AND 0xFF) :: byte) = (x :: 'a::len word)"
proof (rule bit_word_eqI)
  fix n
  assume "n < LENGTH('a)"
  then show "bit (push_bit 8 (drop_bit 8 x) OR ucast (ucast (x AND 0xFF) :: byte)) n \<longleftrightarrow> bit x n"
    by (cases "n < 8") (auto simp: mask8_eq bit_simps)
qed

lemma unat_of_nat_min_u16: "unat (of_nat (min n 65535) :: u16) = min n 65535"
  by (simp add: unat_of_nat take_bit_eq_mod)

lemma unat_of_nat_u16: "n \<le> 65535 \<Longrightarrow> unat (of_nat n :: u16) = n"
  using unat_of_nat_min_u16 [of n] by simp

lemma unat_of_nat_min_byte: "unat (of_nat (min n 255) :: byte) = min n 255"
  by (simp add: unat_of_nat take_bit_eq_mod)

lemma unat_u16_le: "unat (w :: u16) \<le> 65535"
proof -
  have "unat w < 2 ^ LENGTH(16)"
    by (rule unsigned_less)
  then show ?thesis by simp
qed

lemma unat_byte_le: "unat (b :: byte) \<le> 255"
proof -
  have "unat b < 2 ^ LENGTH(8)"
    by (rule unsigned_less)
  then show ?thesis by simp
qed

end
