(* ===== verification/Text_Util.thy ===== *)
theory Text_Util
  imports Prelude
begin

text \<open>
  The parts of the C++ standard library the text-handling components rely on: \<open>std::toupper\<close> and
  \<open>std::tolower\<close> in the C locale, \<open>std::to_string\<close> and \<open>std::from_chars\<close> for decimal numbers, and
  \<open>find\<close> on a string, with the facts about them that the components share.
\<close>

section \<open>Case conversion\<close>

definition toupper :: "char \<Rightarrow> char" where
  "toupper c = (let n = of_char c :: nat in if 97 \<le> n \<and> n \<le> 122 then char_of (n - 32) else c)"

definition tolower :: "char \<Rightarrow> char" where
  "tolower c = (let n = of_char c :: nat in if 65 \<le> n \<and> n \<le> 90 then char_of (n + 32) else c)"

abbreviation str_upper :: "string \<Rightarrow> string" where "str_upper \<equiv> map toupper"
abbreviation str_lower :: "string \<Rightarrow> string" where "str_lower \<equiv> map tolower"

lemma of_char_eqI: "(of_char c :: nat) = of_char d \<Longrightarrow> c = d"
  by simp

lemma char_eval:
  "char_of (n :: nat) = c \<longleftrightarrow> n mod 256 = of_char c" "c = char_of (n :: nat) \<longleftrightarrow> n mod 256 = of_char c"
proof -
  show one: "char_of n = c \<longleftrightarrow> n mod 256 = of_char c"
    by (simp add: char_of_eq_iff take_bit_eq_mod)
  show "c = char_of n \<longleftrightarrow> n mod 256 = of_char c"
    using one by (metis)
qed

lemma of_char_toupper:
  "(of_char (toupper c) :: nat) = (if 97 \<le> (of_char c :: nat) \<and> (of_char c :: nat) \<le> 122 then of_char c - 32 else of_char c)"
  using of_char_less_256 [of c] by (auto simp: toupper_def Let_def)

lemma of_char_tolower:
  "(of_char (tolower c) :: nat) = (if 65 \<le> (of_char c :: nat) \<and> (of_char c :: nat) \<le> 90 then of_char c + 32 else of_char c)"
  using of_char_less_256 [of c] by (auto simp: tolower_def Let_def)

lemma toupper_idem [simp]: "toupper (toupper c) = toupper c"
  by (rule of_char_eqI) (auto simp: of_char_toupper)

lemma tolower_idem [simp]: "tolower (tolower c) = tolower c"
  by (rule of_char_eqI) (auto simp: of_char_tolower)

lemma tolower_toupper [simp]: "tolower (toupper c) = tolower c"
  by (rule of_char_eqI) (auto simp: of_char_tolower of_char_toupper)

lemma toupper_tolower [simp]: "toupper (tolower c) = toupper c"
  by (rule of_char_eqI) (auto simp: of_char_tolower of_char_toupper)

lemma str_upper_idem [simp]: "str_upper (str_upper s) = str_upper s"
  by (simp add: comp_def)

lemma str_lower_idem [simp]: "str_lower (str_lower s) = str_lower s"
  by (simp add: comp_def)

section \<open>Decimal numbers\<close>

definition is_digit :: "char \<Rightarrow> bool" where
  "is_digit c \<longleftrightarrow> 48 \<le> (of_char c :: nat) \<and> (of_char c :: nat) \<le> 57"

definition digit_char :: "nat \<Rightarrow> char" where "digit_char d = char_of (48 + d)"
definition digit_value :: "char \<Rightarrow> nat" where "digit_value c = of_char c - 48"

fun to_string_nat :: "nat \<Rightarrow> string" where
  "to_string_nat n = (if n < 10 then [digit_char n] else to_string_nat (n div 10) @ [digit_char (n mod 10)])"

declare to_string_nat.simps [simp del]

definition decimal_value :: "string \<Rightarrow> nat" where
  "decimal_value s = foldl (\<lambda>acc c. 10 * acc + digit_value c) 0 s"

text \<open>\<open>std::from_chars\<close> into an unsigned integer of at most \<open>max_v\<close>, when the whole text must be
  consumed: at least one digit, digits only, in range.\<close>

definition from_chars_nat :: "nat \<Rightarrow> string \<Rightarrow> nat option" where
  "from_chars_nat max_v s =
     (if s = [] \<or> \<not> list_all is_digit s then None
      else if decimal_value s > max_v then None else Some (decimal_value s))"

lemma digit_char_props:
  assumes "d < 10"
  shows "is_digit (digit_char d)" "digit_value (digit_char d) = d"
  using assms by (simp_all add: is_digit_def digit_char_def digit_value_def)

lemma to_string_nat_digits: "to_string_nat n \<noteq> [] \<and> list_all is_digit (to_string_nat n)"
proof (induction n rule: to_string_nat.induct)
  case (1 n)
  then show ?case
    by (subst to_string_nat.simps, subst (2) to_string_nat.simps) (auto simp: digit_char_props)
qed

lemma decimal_value_to_string [simp]: "decimal_value (to_string_nat n) = n"
proof (induction n rule: to_string_nat.induct)
  case (1 n)
  then show ?case
    by (subst to_string_nat.simps) (auto simp: decimal_value_def digit_char_props)
qed

lemma from_chars_to_string: "n \<le> max_v \<Longrightarrow> from_chars_nat max_v (to_string_nat n) = Some n"
  using to_string_nat_digits [of n] by (simp add: from_chars_nat_def)

lemma to_string_nat_set: "c \<in> set (to_string_nat n) \<Longrightarrow> is_digit c"
  using to_string_nat_digits [of n] by (auto simp: list_all_iff)

section \<open>Searching\<close>

text \<open>\<open>find(c)\<close> followed by the two \<open>substr\<close> calls around the position it returned.\<close>

fun split_at :: "char \<Rightarrow> string \<Rightarrow> (string \<times> string) option" where
  "split_at c [] = None"
| "split_at c (x # xs) =
     (if x = c then Some ([], xs)
      else case split_at c xs of None \<Rightarrow> None | Some (a, b) \<Rightarrow> Some (x # a, b))"

lemma split_at_append [simp]: "c \<notin> set a \<Longrightarrow> split_at c (a @ c # b) = Some (a, b)"
  by (induction a) auto

lemma split_at_None_iff: "split_at c s = None \<longleftrightarrow> c \<notin> set s"
  by (induction s) (auto split: option.splits)

lemma split_at_SomeD: "split_at c s = Some (a, b) \<Longrightarrow> s = a @ c # b \<and> c \<notin> set a"
  by (induction s arbitrary: a) (auto split: if_splits option.splits)

end
