(* ===== verification/Tox_Types.thy ===== *)
theory Tox_Types
  imports Text_Util
begin

text \<open>
  Tox identifiers: \<open>include/toxtunnel/tox/types.hpp\<close> and \<open>src/tox/types.cpp\<close>. Hexadecimal text and
  bytes, public keys, the 38-byte Tox ID with its checksum, and the textual form of bootstrap nodes.
  Fixed-size arrays are byte lists; the length is a hypothesis where the C++ type fixes it. A
  \<open>util::Expected<T, std::string>\<close> is a sum with the message on the left.
\<close>

section \<open>Constants and data\<close>

definition kPublicKeyBytes :: nat where "kPublicKeyBytes = 32"
definition kNospamBytes :: nat where "kNospamBytes = 4"
definition kChecksumBytes :: nat where "kChecksumBytes = 2"
definition kToxIdBytes :: nat where "kToxIdBytes = kPublicKeyBytes + kNospamBytes + kChecksumBytes"
definition kPublicKeyHexLen :: nat where "kPublicKeyHexLen = kPublicKeyBytes * 2"
definition kToxIdHexLen :: nat where "kToxIdHexLen = kToxIdBytes * 2"

lemmas tox_sizes = kPublicKeyBytes_def kNospamBytes_def kChecksumBytes_def kToxIdBytes_def
  kPublicKeyHexLen_def kToxIdHexLen_def

record ToxId =
  ti_bytes :: "byte list"

record BootstrapNode =
  bn_ip :: string
  bn_port :: u16
  bn_public_key :: "byte list"

section \<open>Hexadecimal text\<close>

definition hex_char_value :: "char \<Rightarrow> int" where
  "hex_char_value c =
     (let n = of_char c :: nat
      in if 48 \<le> n \<and> n \<le> 57 then int (n - 48)
         else if 97 \<le> n \<and> n \<le> 102 then 10 + int (n - 97)
         else if 65 \<le> n \<and> n \<le> 70 then 10 + int (n - 65)
         else -1)"

definition kHexDigits :: string where "kHexDigits = ''0123456789ABCDEF''"

definition hex_pair :: "byte \<Rightarrow> string" where
  "hex_pair b = [kHexDigits ! unat (drop_bit 4 b AND 0x0F), kHexDigits ! unat (b AND 0x0F)]"

definition bytes_to_hex :: "byte list \<Rightarrow> string" where
  "bytes_to_hex data = concat (map hex_pair data)"

fun hex_to_bytes_loop :: "string \<Rightarrow> byte list option" where
  "hex_to_bytes_loop (a # b # r) =
     (let hi = hex_char_value a; lo = hex_char_value b
      in if hi < 0 \<or> lo < 0 then None
         else case hex_to_bytes_loop r of None \<Rightarrow> None
              | Some bs \<Rightarrow> Some (of_int (push_bit 4 hi OR lo) # bs))"
| "hex_to_bytes_loop _ = Some []"

definition hex_to_bytes :: "string \<Rightarrow> nat \<Rightarrow> byte list option" where
  "hex_to_bytes hex out_len = (if length hex \<noteq> out_len * 2 then None else hex_to_bytes_loop hex)"

definition parse_public_key :: "string \<Rightarrow> string + byte list" where
  "parse_public_key hex =
     (if length hex \<noteq> kPublicKeyHexLen
      then Inl (''public key hex must be exactly '' @ to_string_nat kPublicKeyHexLen
                @ '' characters, got '' @ to_string_nat (length hex))
      else case hex_to_bytes hex kPublicKeyBytes of
             None \<Rightarrow> Inl ''public key contains invalid hex characters''
           | Some pk \<Rightarrow> Inr pk)"

section \<open>Tox IDs\<close>

definition compute_checksum :: "byte list \<Rightarrow> nat \<Rightarrow> byte list" where
  "compute_checksum data len =
     foldl (\<lambda>cs i. cs[i mod kChecksumBytes := (cs ! (i mod kChecksumBytes)) XOR data ! i])
       (replicate kChecksumBytes 0) [0..<len]"

definition id_checksum :: "ToxId \<Rightarrow> byte list" where
  "id_checksum i = take kChecksumBytes (drop (kPublicKeyBytes + kNospamBytes) (ti_bytes i))"

definition is_checksum_valid :: "ToxId \<Rightarrow> bool" where
  "is_checksum_valid i \<longleftrightarrow> compute_checksum (ti_bytes i) (kPublicKeyBytes + kNospamBytes) = id_checksum i"

definition id_from_hex :: "string \<Rightarrow> string + ToxId" where
  "id_from_hex hex =
     (if length hex \<noteq> kToxIdHexLen
      then Inl (''Tox ID hex must be exactly '' @ to_string_nat kToxIdHexLen
                @ '' characters, got '' @ to_string_nat (length hex))
      else case hex_to_bytes hex kToxIdBytes of
             None \<Rightarrow> Inl ''Tox ID contains invalid hex characters''
           | Some bytes \<Rightarrow>
               if \<not> is_checksum_valid \<lparr>ti_bytes = bytes\<rparr> then Inl ''Tox ID checksum is invalid''
               else Inr \<lparr>ti_bytes = bytes\<rparr>)"

definition id_from_bytes :: "byte list \<Rightarrow> string + ToxId" where
  "id_from_bytes bytes =
     (if \<not> is_checksum_valid \<lparr>ti_bytes = bytes\<rparr> then Inl ''Tox ID checksum is invalid''
      else Inr \<lparr>ti_bytes = bytes\<rparr>)"

definition id_from_bytes_unchecked :: "byte list \<Rightarrow> ToxId" where
  "id_from_bytes_unchecked bytes = \<lparr>ti_bytes = bytes\<rparr>"

definition id_public_key :: "ToxId \<Rightarrow> byte list" where
  "id_public_key i = take kPublicKeyBytes (ti_bytes i)"

definition id_nospam :: "ToxId \<Rightarrow> u32" where
  "id_nospam i =
     (let b = (\<lambda>k. ucast (ti_bytes i ! (kPublicKeyBytes + k)) :: u32)
      in push_bit 24 (b 0) OR push_bit 16 (b 1) OR push_bit 8 (b 2) OR b 3)"

definition id_to_hex :: "ToxId \<Rightarrow> string" where
  "id_to_hex i = bytes_to_hex (ti_bytes i)"

definition id_public_key_hex :: "ToxId \<Rightarrow> string" where
  "id_public_key_hex i = bytes_to_hex (take kPublicKeyBytes (ti_bytes i))"

section \<open>Bootstrap nodes\<close>

definition node_format_error :: string where
  "node_format_error = ''expected format '' @ [char_of (39 :: nat)] @ ''ip:port:public_key'' @ [char_of (39 :: nat)]"

text \<open>The first field of the text, up to the colon behind it.\<close>

definition split_ip :: "string \<Rightarrow> string + string \<times> string" where
  "split_ip str =
     (if hd str = CHR ''[''
      then case split_at (CHR '']'') str of
             None \<Rightarrow> Inl ''unterminated '[' in IPv6 address''
           | Some (before, remaining) \<Rightarrow>
               if remaining = [] \<or> hd remaining \<noteq> CHR '':''
               then Inl ''expected ':' after IPv6 address bracket''
               else Inr (tl before, tl remaining)
      else case split_at (CHR '':'') str of
             None \<Rightarrow> Inl node_format_error
           | Some (ip_part, remaining) \<Rightarrow> Inr (ip_part, remaining))"

definition node_parse :: "string \<Rightarrow> string + BootstrapNode" where
  "node_parse str =
     (if str = [] then Inl ''bootstrap node string is empty''
      else case split_ip str of
             Inl e \<Rightarrow> Inl e
           | Inr (ip_part, remaining) \<Rightarrow>
               (case split_at (CHR '':'') remaining of
                  None \<Rightarrow> Inl node_format_error
                | Some (port_part, key_part) \<Rightarrow>
                    if ip_part = [] then Inl ''IP address is empty''
                    else case from_chars_nat 65535 port_part of
                           None \<Rightarrow> Inl (''invalid port number: '' @ port_part)
                         | Some port \<Rightarrow>
                             if port = 0 then Inl ''port must be non-zero''
                             else case parse_public_key key_part of
                                    Inl e \<Rightarrow> Inl (''invalid bootstrap public key: '' @ e)
                                  | Inr pk \<Rightarrow> Inr \<lparr>bn_ip = ip_part, bn_port = of_nat port, bn_public_key = pk\<rparr>))"

definition node_public_key_hex :: "BootstrapNode \<Rightarrow> string" where
  "node_public_key_hex n = bytes_to_hex (bn_public_key n)"

definition node_to_string :: "BootstrapNode \<Rightarrow> string" where
  "node_to_string n =
     (if CHR '':'' \<in> set (bn_ip n) then ''['' @ bn_ip n @ '']'' else bn_ip n)
       @ '':'' @ to_string_nat (unat (bn_port n)) @ '':'' @ node_public_key_hex n"

section \<open>Hexadecimal round trips\<close>

lemma nibble_split:
  "of_int (push_bit 4 (uint (drop_bit 4 b AND 0x0F)) OR uint (b AND 0x0F)) = (b :: byte)"
proof (rule bit_word_eqI)
  fix n
  assume "n < LENGTH(8)"
  then have n: "n < 8" by simp
  have m: "(0x0F :: byte) = mask 4" by (simp add: mask_eq_exp_minus_1)
  show "bit (of_int (push_bit 4 (uint (drop_bit 4 b AND 0x0F)) OR uint (b AND 0x0F)) :: byte) n \<longleftrightarrow> bit b n"
    using n by (cases "n < 4") (auto simp: m bit_simps bit_uint_iff)
qed

lemma nibble_less: "unat (b AND 0x0F :: byte) < 16"
proof -
  have "b AND 0x0F = take_bit 4 b" by (simp add: take_bit_eq_mask mask_eq_exp_minus_1)
  then have "unat (b AND 0x0F) = take_bit 4 (unat b)" by (simp add: unsigned_take_bit_eq)
  then show ?thesis by (simp add: take_bit_eq_mod)
qed

lemma hex_digit_value: "n < 16 \<Longrightarrow> hex_char_value (kHexDigits ! n) = int n"
proof -
  have "\<forall>n \<in> set [0..<16]. hex_char_value (kHexDigits ! n) = int n"
    by (simp add: upt_rec hex_char_value_def kHexDigits_def)
  then show "n < 16 \<Longrightarrow> ?thesis" by simp
qed

lemma hex_loop_pair [simp]:
  "hex_to_bytes_loop (hex_pair b @ r) =
     (case hex_to_bytes_loop r of None \<Rightarrow> None | Some bs \<Rightarrow> Some (b # bs))"
proof -
  have "hex_char_value (kHexDigits ! unat (drop_bit 4 b AND 0x0F)) = uint (drop_bit 4 b AND 0x0F)"
    "hex_char_value (kHexDigits ! unat (b AND 0x0F)) = uint (b AND 0x0F)"
    using hex_digit_value [OF nibble_less] by (simp_all only: of_nat_unat)
  then show ?thesis
    unfolding hex_pair_def append_Cons append_Nil hex_to_bytes_loop.simps Let_def
    by (simp only: nibble_split) simp
qed

lemma hex_loop_bytes_to_hex: "hex_to_bytes_loop (bytes_to_hex bs) = Some bs"
proof (induction bs)
  case (Cons b bs)
  then show ?case by (simp add: bytes_to_hex_def)
qed (simp add: bytes_to_hex_def)

lemma length_bytes_to_hex [simp]: "length (bytes_to_hex bs) = length bs * 2"
  by (induction bs) (auto simp: bytes_to_hex_def hex_pair_def)

lemma hex_to_bytes_inverse [simp]: "hex_to_bytes (bytes_to_hex bs) (length bs) = Some bs"
  by (simp add: hex_to_bytes_def hex_loop_bytes_to_hex)

text \<open>What a hexadecimal text denotes is its upper-case form.\<close>

lemma hex_digit_upper:
  assumes "0 \<le> hex_char_value c"
  shows "hex_char_value c < 16 \<and> kHexDigits ! nat (hex_char_value c) = toupper c"
proof -
  let ?ns = "[48..<58] @ [65..<71] @ [97..<103 :: nat]"
  have all: "\<forall>n \<in> set ?ns. hex_char_value (char_of n) < 16
      \<and> kHexDigits ! nat (hex_char_value (char_of n)) = toupper (char_of n)"
    by (simp add: upt_rec hex_char_value_def kHexDigits_def toupper_def)
      (intro conjI; rule of_char_eqI; simp)
  have "of_char c \<in> set ?ns"
    using assms unfolding hex_char_value_def Let_def set_append set_upt Un_iff atLeastLessThan_iff
    by (simp split: if_splits)
  then show ?thesis
    using all [rule_format, of "of_char c"] by simp
qed

lemma small_bits: "0 \<le> i \<Longrightarrow> i < 16 \<Longrightarrow> bit (i :: int) n \<Longrightarrow> n < 4"
proof -
  assume "0 \<le> i" "i < 16" "bit i n"
  then have "bit (take_bit 4 i) n" by (simp add: take_bit_int_eq_self)
  then show "n < 4" by (simp add: bit_take_bit_iff)
qed

lemma nibbles_of_pair:
  assumes "0 \<le> hi" "hi < 16" "0 \<le> lo" "lo < 16"
  shows "drop_bit 4 (of_int (push_bit 4 hi OR lo) :: byte) AND 0x0F = of_int hi"
    and "(of_int (push_bit 4 hi OR lo) :: byte) AND 0x0F = of_int lo"
proof -
  have m: "(0x0F :: byte) = mask 4" by (simp add: mask_eq_exp_minus_1)
  show "drop_bit 4 (of_int (push_bit 4 hi OR lo) :: byte) AND 0x0F = of_int hi"
    using small_bits [OF assms(1,2)] small_bits [OF assms(3,4)]
    by (intro bit_word_eqI) (auto simp: m bit_simps)
  show "(of_int (push_bit 4 hi OR lo) :: byte) AND 0x0F = of_int lo"
    using small_bits [OF assms(1,2)] small_bits [OF assms(3,4)]
    by (intro bit_word_eqI) (auto simp: m bit_simps)
qed

lemma unat_of_int_small: "0 \<le> i \<Longrightarrow> i < 16 \<Longrightarrow> unat (of_int i :: byte) = nat i"
  by (simp add: unat_eq_nat_uint uint_word_of_int_eq take_bit_int_eq_self)

lemma hex_loop_upper:
  "hex_to_bytes_loop h = Some bs \<Longrightarrow> even (length h) \<Longrightarrow> bytes_to_hex bs = str_upper h"
proof (induction h arbitrary: bs rule: hex_to_bytes_loop.induct)
  case (1 a b r)
  let ?hi = "hex_char_value a" and ?lo = "hex_char_value b"
  from "1.prems"(1) obtain bs' where ok: "0 \<le> ?hi" "0 \<le> ?lo" "hex_to_bytes_loop r = Some bs'"
    and bs: "bs = of_int (push_bit 4 ?hi OR ?lo) # bs'"
    by (auto simp: Let_def not_less split: if_splits option.splits)
  note u = hex_digit_upper [OF ok(1)] hex_digit_upper [OF ok(2)]
  have "hex_pair (of_int (push_bit 4 ?hi OR ?lo)) = [toupper a, toupper b]"
    using u ok by (simp add: hex_pair_def nibbles_of_pair unat_of_int_small)
  moreover have "bytes_to_hex bs' = str_upper r"
    using "1.IH" ok "1.prems"(2) by (simp add: not_less)
  ultimately show ?case by (simp add: bs bytes_to_hex_def)
qed (auto simp: bytes_to_hex_def)

lemma hex_loop_length: "hex_to_bytes_loop h = Some bs \<Longrightarrow> length bs = length h div 2"
  by (induction h arbitrary: bs rule: hex_to_bytes_loop.induct)
    (auto simp: Let_def split: if_splits option.splits)

lemma hex_to_bytes_SomeD:
  assumes "hex_to_bytes h n = Some bs"
  shows "length bs = n" "bytes_to_hex bs = str_upper h"
  using assms hex_loop_length [of h bs] hex_loop_upper [of h bs]
  by (auto simp: hex_to_bytes_def split: if_splits)

lemma parse_public_key_SomeD:
  assumes "parse_public_key h = Inr pk"
  shows "length h = 64" "length pk = 32" "bytes_to_hex pk = str_upper h"
  using assms hex_to_bytes_SomeD [of h 32 pk]
  by (auto simp: parse_public_key_def tox_sizes split: if_splits option.splits)

lemma parse_public_key_hex: "length pk = 32 \<Longrightarrow> parse_public_key (bytes_to_hex pk) = Inr pk"
  using hex_to_bytes_inverse [of pk] by (simp add: parse_public_key_def tox_sizes)

section \<open>The checksum\<close>

text \<open>Byte \<open>k\<close> of the checksum is the exclusive or of the payload bytes at positions of the parity of \<open>k\<close>.\<close>

definition xor_all :: "byte list \<Rightarrow> byte" where
  "xor_all bs = foldr (XOR) bs 0"

definition parity_bytes :: "byte list \<Rightarrow> nat \<Rightarrow> nat \<Rightarrow> byte list" where
  "parity_bytes data len k = map (\<lambda>i. data ! i) (filter (\<lambda>i. i mod 2 = k) [0..<len])"

lemma xor_all_append: "xor_all (xs @ ys) = xor_all xs XOR xor_all ys"
  by (induction xs) (simp_all add: xor_all_def ac_simps)

lemma xor_all_simps [simp]: "xor_all [] = 0" "xor_all (x # xs) = x XOR xor_all xs"
  by (simp_all add: xor_all_def)

lemma parity_bytes_Suc:
  "parity_bytes data (Suc len) k = parity_bytes data len k @ (if len mod 2 = k then [data ! len] else [])"
  by (simp add: parity_bytes_def)

lemma compute_checksum_eq:
  "compute_checksum data len = [xor_all (parity_bytes data len 0), xor_all (parity_bytes data len 1)]"
proof (induction len)
  case 0
  then show ?case by (simp add: compute_checksum_def kChecksumBytes_def parity_bytes_def numeral_2_eq_2)
next
  case (Suc len)
  have "compute_checksum data (Suc len) =
      (let cs = compute_checksum data len in cs[len mod 2 := (cs ! (len mod 2)) XOR data ! len])"
    by (simp add: compute_checksum_def kChecksumBytes_def Let_def)
  then show ?case
    using Suc by (cases "len mod 2 = 0") (auto simp: parity_bytes_Suc xor_all_append mod_2_eq_odd)
qed

lemma parity_bytes_update:
  assumes "j < length data" and "len \<le> length data"
  shows "xor_all (parity_bytes (data[j := v]) len k) =
           xor_all (parity_bytes data len k) XOR (if j < len \<and> j mod 2 = k then data ! j XOR v else 0)"
  using assms(2)
proof (induction len)
  case (Suc len)
  have "a XOR b XOR c = c XOR (a XOR b)" for a b c :: byte by (simp add: ac_simps)
  moreover have "xor_all ps XOR v = xor_all ps XOR data ! j XOR (data ! j XOR v)" for ps
    by (metis xor.assoc xor.right_neutral xor_self_eq)
  ultimately show ?case
    using Suc assms(1)
    by (cases "len = j") (auto simp: parity_bytes_Suc xor_all_append less_Suc_eq ac_simps)
qed (simp add: parity_bytes_def)

lemma xor_zero_iff: "a XOR b = 0 \<longleftrightarrow> a = (b :: byte)"
proof
  assume "a XOR b = 0"
  then have "(a XOR b) XOR b = b" by simp
  then show "a = b" by (simp add: xor.assoc)
qed simp

lemma xor_eq_self_iff: "a XOR b = (a :: byte) \<longleftrightarrow> b = 0"
proof
  assume "a XOR b = a"
  then have "a XOR (a XOR b) = 0" by simp
  then show "b = 0" by (simp add: xor.assoc [symmetric])
qed simp

lemma xor_all_zero: "\<forall>x \<in> set xs. x = 0 \<Longrightarrow> xor_all xs = 0"
  by (induction xs) auto

section \<open>Properties\<close>

lemma hex_char_value_toupper [simp]: "hex_char_value (toupper c) = hex_char_value c"
  by (auto simp: hex_char_value_def of_char_toupper Let_def)

lemma hex_loop_str_upper: "hex_to_bytes_loop (str_upper h) = hex_to_bytes_loop h"
  by (induction h rule: hex_to_bytes_loop.induct) (auto simp: Let_def split: option.splits)

text \<open>What \<open>ToxId::from_hex\<close> accepts and returns. A text parses to an identifier exactly when
  the identifier has 38 bytes and a valid checksum and the text, in upper case, is its \<open>to_hex\<close>; so
  parsing is case-insensitive, loses nothing and inverts printing.\<close>

theorem id_from_hex_iff:
  "id_from_hex h = Inr i \<longleftrightarrow>
     length (ti_bytes i) = kToxIdBytes \<and> is_checksum_valid i \<and> str_upper h = id_to_hex i"
proof
  assume "id_from_hex h = Inr i"
  then have "hex_to_bytes h kToxIdBytes = Some (ti_bytes i)" "is_checksum_valid i"
    by (auto simp: id_from_hex_def split: if_splits option.splits)
  then show "length (ti_bytes i) = kToxIdBytes \<and> is_checksum_valid i \<and> str_upper h = id_to_hex i"
    using hex_to_bytes_SomeD [of h kToxIdBytes "ti_bytes i"] by (simp add: id_to_hex_def)
next
  assume r: "length (ti_bytes i) = kToxIdBytes \<and> is_checksum_valid i \<and> str_upper h = id_to_hex i"
  then have "length h = kToxIdHexLen"
    by (metis id_to_hex_def kToxIdHexLen_def length_bytes_to_hex length_map)
  moreover have "hex_to_bytes_loop h = Some (ti_bytes i)"
    using r hex_loop_str_upper [of h] hex_loop_bytes_to_hex by (simp add: id_to_hex_def)
  moreover have "is_checksum_valid \<lparr>ti_bytes = ti_bytes i\<rparr>"
    using r by (simp add: is_checksum_valid_def id_checksum_def)
  ultimately show "id_from_hex h = Inr i"
    using r by (auto simp: id_from_hex_def hex_to_bytes_def tox_sizes)
qed

text \<open>The checksum detects every single-byte error. Changing one byte of a valid 38-byte
  identifier, in the key, the nospam or the checksum itself, makes \<open>from_bytes\<close> reject it.\<close>

theorem checksum_detects_byte_error:
  assumes "length bs = kToxIdBytes" and "id_from_bytes bs = Inr i" and "j < kToxIdBytes" and "v \<noteq> bs ! j"
  shows "id_from_bytes (bs[j := v]) = Inl ''Tox ID checksum is invalid''"
proof -
  have valid: "compute_checksum bs 36 = take 2 (drop 36 bs)"
    using assms(2) by (auto simp: id_from_bytes_def is_checksum_valid_def id_checksum_def tox_sizes split: if_splits)
  have len: "length bs = 38" "j < 38" using assms(1,3) by (simp_all add: tox_sizes)
  have up: "xor_all (parity_bytes (bs[j := v]) 36 k) = xor_all (parity_bytes bs 36 k)
      XOR (if j < 36 \<and> j mod 2 = k then bs ! j XOR v else 0)" for k
    using parity_bytes_update [of j bs 36 v k] len by simp
  have "compute_checksum (bs[j := v]) 36 \<noteq> take 2 (drop 36 (bs[j := v]))"
  proof (cases "j < 36")
    case True
    then have "take 2 (drop 36 (bs[j := v])) = compute_checksum bs 36"
      using valid by (simp add: drop_update_cancel)
    moreover have "bs ! j XOR v \<noteq> 0" using assms(4) by (simp add: xor_zero_iff)
    ultimately show ?thesis
      using True up [of 0] up [of 1] by (cases "j mod 2 = 0") (auto simp: compute_checksum_eq xor_eq_self_iff mod_2_eq_odd)
  next
    case False
    then have "compute_checksum (bs[j := v]) 36 = take 2 (drop 36 bs)"
      using valid up [of 0] up [of 1] by (simp add: compute_checksum_eq)
    moreover have "take 2 (drop 36 (bs[j := v])) ! (j - 36) = v" "take 2 (drop 36 bs) ! (j - 36) = bs ! j"
      using False len by simp_all
    ultimately show ?thesis using assms(4) by metis
  qed
  then show ?thesis
    by (simp add: id_from_bytes_def is_checksum_valid_def id_checksum_def tox_sizes)
qed

text \<open>Bootstrap nodes round-trip. A node with a non-empty address without a closing bracket
  (and, if it has no colon, not starting with an opening one), a non-zero port and a 32-byte key
  comes back from its own textual form, bracketed or not.\<close>

theorem node_text_roundtrip:
  assumes "bn_ip n \<noteq> []" and "CHR '']'' \<notin> set (bn_ip n)" and "CHR '':'' \<notin> set (bn_ip n) \<Longrightarrow> hd (bn_ip n) \<noteq> CHR ''[''"
    and "bn_port n \<noteq> 0" and "length (bn_public_key n) = kPublicKeyBytes"
  shows "node_parse (node_to_string n) = Inr n"
proof -
  let ?port = "to_string_nat (unat (bn_port n))" and ?key = "bytes_to_hex (bn_public_key n)"
  have nd: "CHR '':'' \<notin> set ?port"
    using to_string_nat_set [of "CHR '':''"] by (auto simp: is_digit_def)
  have ip: "split_ip (node_to_string n) = Inr (bn_ip n, ?port @ CHR '':'' # ?key)"
  proof (cases "CHR '':'' \<in> set (bn_ip n)")
    case True
    then have "node_to_string n = (CHR ''['' # bn_ip n) @ CHR '']'' # CHR '':'' # ?port @ CHR '':'' # ?key"
      by (simp add: node_to_string_def node_public_key_hex_def)
    moreover have "CHR '']'' \<notin> set (CHR ''['' # bn_ip n)" using assms(2) by simp
    ultimately show ?thesis
      by (simp only: split_ip_def split_at_append) simp
  next
    case False
    then have "node_to_string n = bn_ip n @ CHR '':'' # ?port @ CHR '':'' # ?key"
      by (simp add: node_to_string_def node_public_key_hex_def)
    then show ?thesis
      using False assms(1,3) by (simp add: split_ip_def)
  qed
  have "node_to_string n \<noteq> []" by (simp add: node_to_string_def)
  moreover have "from_chars_nat 65535 ?port = Some (unat (bn_port n))"
    by (rule from_chars_to_string [OF unat_u16_le])
  moreover have "unat (bn_port n) \<noteq> 0" using assms(4) by (simp add: unat_eq_0)
  moreover have "parse_public_key ?key = Inr (bn_public_key n)"
    using assms(5) parse_public_key_hex by (simp add: tox_sizes)
  ultimately show ?thesis
    using ip nd assms(1) by (simp add: node_parse_def)
qed

end
