(* ===== verification/Rate_Limiter.thy ===== *)
theory Rate_Limiter
  imports Text_Util
begin

text \<open>
  The per-friend rate limiter: \<open>include/toxtunnel/app/rate_limiter.hpp\<close> and
  \<open>src/app/rate_limiter.cpp\<close>. The configured limits are words at their width; token counts and
  clocks, \<open>int64_t\<close> in the code, are \<open>int\<close>, and the products of the refill are shown to fit 64 bits.
  The mutex makes every public call atomic; the clock is an argument of the calls that read it.
  Process-wide metrics are left out.
\<close>

section \<open>Configuration\<close>

definition kNanosPerSec :: int where "kNanosPerSec = 1000000000"
definition kMaxByteBudget :: u64 where "kMaxByteBudget = 1000000000"
definition kMinActiveByteBurst :: u64 where "kMinActiveByteBurst = 65535"

datatype RateLimitMode = RL_Off | RL_Report | RL_Enforce

fun rate_limit_mode_to_string :: "RateLimitMode \<Rightarrow> string" where
  "rate_limit_mode_to_string RL_Off = ''off''"
| "rate_limit_mode_to_string RL_Report = ''report''"
| "rate_limit_mode_to_string RL_Enforce = ''enforce''"

definition parse_rate_limit_mode :: "string \<Rightarrow> RateLimitMode option" where
  "parse_rate_limit_mode s =
     (if s = ''off'' then Some RL_Off else if s = ''report'' then Some RL_Report
      else if s = ''enforce'' then Some RL_Enforce else None)"

record RateLimitSpec =
  rs_mode :: RateLimitMode
  rs_open_per_sec :: u32
  rs_open_burst :: u32
  rs_bytes_per_sec :: u64
  rs_bytes_burst :: u64
  rs_max_concurrent_tunnels :: u32
  rs_defaults_present :: bool

definition default_spec :: RateLimitSpec where
  "default_spec =
     \<lparr>rs_mode = RL_Off, rs_open_per_sec = 0, rs_open_burst = 0, rs_bytes_per_sec = 0, rs_bytes_burst = 0,
      rs_max_concurrent_tunnels = 0, rs_defaults_present = False\<rparr>"

definition spec_empty :: "RateLimitSpec \<Rightarrow> bool" where
  "spec_empty s \<longleftrightarrow>
     rs_mode s = RL_Off \<and> rs_open_per_sec s = 0 \<and> rs_open_burst s = 0 \<and> rs_bytes_per_sec s = 0
     \<and> rs_bytes_burst s = 0 \<and> rs_max_concurrent_tunnels s = 0"

definition spec_has_byte_limits :: "RateLimitSpec \<Rightarrow> bool" where
  "spec_has_byte_limits s \<longleftrightarrow> rs_bytes_per_sec s \<noteq> 0 \<or> rs_bytes_burst s \<noteq> 0"

definition byte_limiting_engaged :: "RateLimitSpec \<Rightarrow> bool" where
  "byte_limiting_engaged s \<longleftrightarrow> rs_mode s \<noteq> RL_Off \<and> rs_bytes_per_sec s \<noteq> 0 \<and> rs_bytes_burst s \<noteq> 0"

definition normalise_byte_budgets :: "RateLimitSpec \<Rightarrow> RateLimitSpec" where
  "normalise_byte_budgets s =
     (let burst = min (rs_bytes_burst s) kMaxByteBudget
      in s\<lparr>rs_bytes_per_sec := min (rs_bytes_per_sec s) kMaxByteBudget,
           rs_bytes_burst := (if burst \<noteq> 0 then max burst kMinActiveByteBurst else burst)\<rparr>)"

record RateLimitOverride =
  ro_mode :: "RateLimitMode option"
  ro_open_per_sec :: "u32 option"
  ro_open_burst :: "u32 option"
  ro_bytes_per_sec :: "u64 option"
  ro_bytes_burst :: "u64 option"
  ro_max_concurrent_tunnels :: "u32 option"

definition no_override :: RateLimitOverride where
  "no_override =
     \<lparr>ro_mode = None, ro_open_per_sec = None, ro_open_burst = None, ro_bytes_per_sec = None,
      ro_bytes_burst = None, ro_max_concurrent_tunnels = None\<rparr>"

definition override_empty :: "RateLimitOverride \<Rightarrow> bool" where
  "override_empty r \<longleftrightarrow>
     ro_mode r = None \<and> ro_open_per_sec r = None \<and> ro_open_burst r = None \<and> ro_bytes_per_sec r = None
     \<and> ro_bytes_burst r = None \<and> ro_max_concurrent_tunnels r = None"

definition value_or :: "'a option \<Rightarrow> 'a \<Rightarrow> 'a" where
  "value_or x d = (case x of None \<Rightarrow> d | Some v \<Rightarrow> v)"

definition override_has_byte_limits :: "RateLimitOverride \<Rightarrow> bool" where
  "override_has_byte_limits r \<longleftrightarrow> value_or (ro_bytes_per_sec r) 0 \<noteq> 0 \<or> value_or (ro_bytes_burst r) 0 \<noteq> 0"

definition merged_onto :: "RateLimitOverride \<Rightarrow> RateLimitSpec \<Rightarrow> RateLimitSpec" where
  "merged_onto r base =
     (let out = base\<lparr>rs_open_per_sec := value_or (ro_open_per_sec r) (rs_open_per_sec base),
                     rs_open_burst := value_or (ro_open_burst r) (rs_open_burst base),
                     rs_bytes_per_sec := value_or (ro_bytes_per_sec r) (rs_bytes_per_sec base),
                     rs_bytes_burst := value_or (ro_bytes_burst r) (rs_bytes_burst base),
                     rs_max_concurrent_tunnels :=
                       value_or (ro_max_concurrent_tunnels r) (rs_max_concurrent_tunnels base)\<rparr>
      in case ro_mode r of
           Some m \<Rightarrow> out\<lparr>rs_mode := m\<rparr>
         | None \<Rightarrow> if \<not> rs_defaults_present base \<and> spec_empty base \<and> \<not> spec_empty out
                   then out\<lparr>rs_mode := RL_Enforce\<rparr> else out)"

definition override_from_spec :: "RateLimitSpec \<Rightarrow> RateLimitOverride" where
  "override_from_spec s =
     \<lparr>ro_mode = Some (rs_mode s), ro_open_per_sec = Some (rs_open_per_sec s),
      ro_open_burst = Some (rs_open_burst s), ro_bytes_per_sec = Some (rs_bytes_per_sec s),
      ro_bytes_burst = Some (rs_bytes_burst s),
      ro_max_concurrent_tunnels = Some (rs_max_concurrent_tunnels s)\<rparr>"

section \<open>Buckets\<close>

record Bucket =
  bk_open_tokens :: int
  bk_bytes_tokens :: int
  bk_open_refill_ns :: int
  bk_bytes_refill_ns :: int
  bk_open_rejected :: u64
  bk_bytes_throttled :: u64
  bk_spec :: RateLimitSpec
  bk_override_spec :: RateLimitOverride

text \<open>A default-constructed bucket given a spec and full of its tokens.\<close>

definition full_bucket :: "RateLimitSpec \<Rightarrow> RateLimitOverride \<Rightarrow> Bucket" where
  "full_bucket s r =
     \<lparr>bk_open_tokens = uint (rs_open_burst s), bk_bytes_tokens = uint (rs_bytes_burst s),
      bk_open_refill_ns = 0, bk_bytes_refill_ns = 0, bk_open_rejected = 0, bk_bytes_throttled = 0,
      bk_spec = s, bk_override_spec = r\<rparr>"

record RateLimiter =
  rl_default_spec :: RateLimitSpec
  rl_buckets :: "string \<Rightarrow> Bucket option"

definition new_limiter :: RateLimiter where
  "new_limiter = \<lparr>rl_default_spec = default_spec, rl_buckets = (\<lambda>_. None)\<rparr>"

definition normalise_key :: "string \<Rightarrow> string" where
  "normalise_key friend_pk = str_lower friend_pk"

definition apply_spec :: "RateLimitSpec \<Rightarrow> Bucket \<Rightarrow> Bucket" where
  "apply_spec s b =
     b\<lparr>bk_spec := s,
       bk_open_tokens := (if bk_open_tokens b > uint (rs_open_burst s) then uint (rs_open_burst s)
                          else bk_open_tokens b),
       bk_bytes_tokens := (if bk_bytes_tokens b > uint (rs_bytes_burst s) then uint (rs_bytes_burst s)
                           else bk_bytes_tokens b)\<rparr>"

definition rl_set_clock :: "RateLimiter \<Rightarrow> RateLimiter" where
  "rl_set_clock rl =
     rl\<lparr>rl_buckets :=
          (\<lambda>k. map_option (\<lambda>b. b\<lparr>bk_open_refill_ns := 0, bk_bytes_refill_ns := 0\<rparr>) (rl_buckets rl k))\<rparr>"

definition rl_set_default_spec :: "RateLimitSpec \<Rightarrow> RateLimiter \<Rightarrow> RateLimiter" where
  "rl_set_default_spec s rl =
     (let d = normalise_byte_budgets s
      in rl\<lparr>rl_default_spec := d,
            rl_buckets :=
              (\<lambda>k. map_option
                     (\<lambda>b. apply_spec (normalise_byte_budgets (merged_onto (bk_override_spec b) d)) b)
                     (rl_buckets rl k))\<rparr>)"

definition rl_clear_all :: "RateLimiter \<Rightarrow> RateLimiter" where
  "rl_clear_all rl = rl\<lparr>rl_buckets := (\<lambda>_. None)\<rparr>"

definition install_friend_spec :: "string \<Rightarrow> RateLimitOverride \<Rightarrow> RateLimiter \<Rightarrow> RateLimiter" where
  "install_friend_spec key r rl =
     (if override_empty r then rl\<lparr>rl_buckets := (rl_buckets rl)(key := None)\<rparr>
      else let resolved = normalise_byte_budgets (merged_onto r (rl_default_spec rl))
           in case rl_buckets rl key of
                None \<Rightarrow> rl\<lparr>rl_buckets := (rl_buckets rl)(key \<mapsto> full_bucket resolved r)\<rparr>
              | Some b \<Rightarrow>
                  rl\<lparr>rl_buckets := (rl_buckets rl)(key \<mapsto> apply_spec resolved (b\<lparr>bk_override_spec := r\<rparr>))\<rparr>)"

definition rl_set_friend_override :: "string \<Rightarrow> RateLimitOverride \<Rightarrow> RateLimiter \<Rightarrow> RateLimiter" where
  "rl_set_friend_override pk r rl = install_friend_spec (normalise_key pk) r rl"

definition rl_set_friend_spec :: "string \<Rightarrow> RateLimitSpec \<Rightarrow> RateLimiter \<Rightarrow> RateLimiter" where
  "rl_set_friend_spec pk s rl =
     (if spec_empty s then rl_set_friend_override pk no_override rl
      else rl_set_friend_override pk (override_from_spec s) rl)"

definition rl_replace_all ::
    "RateLimitSpec \<Rightarrow> (string \<times> RateLimitOverride) list \<Rightarrow> RateLimiter \<Rightarrow> RateLimiter" where
  "rl_replace_all defaults overrides rl =
     fold (\<lambda>(pk, r). install_friend_spec (normalise_key pk) r) overrides
       (rl\<lparr>rl_buckets := (\<lambda>_. None), rl_default_spec := normalise_byte_budgets defaults\<rparr>)"

definition rl_effective_spec :: "string \<Rightarrow> RateLimiter \<Rightarrow> RateLimitSpec" where
  "rl_effective_spec pk rl =
     (case rl_buckets rl (normalise_key pk) of Some b \<Rightarrow> bk_spec b | None \<Rightarrow> rl_default_spec rl)"

definition get_or_create_bucket :: "string \<Rightarrow> RateLimiter \<Rightarrow> Bucket" where
  "get_or_create_bucket key rl =
     (case rl_buckets rl key of Some b \<Rightarrow> b | None \<Rightarrow> full_bucket (rl_default_spec rl) no_override)"

section \<open>Refill and consumption\<close>

definition refill_one :: "int \<Rightarrow> int \<Rightarrow> int \<Rightarrow> int \<Rightarrow> int \<Rightarrow> int \<times> int" where
  "refill_one tokens cursor per_sec burst now =
     (if cursor = 0 then (tokens, now)
      else if per_sec \<le> 0 \<or> burst \<le> 0 then (tokens, now)
      else let elapsed = now - cursor
           in if elapsed \<le> 0 then (tokens, cursor)
              else if elapsed \<ge> (burst * kNanosPerSec) div per_sec then (burst, now)
              else if tokens \<ge> burst then (tokens, now)
              else let add = (per_sec * elapsed) div kNanosPerSec
                   in if add \<le> 0 then (tokens, cursor)
                      else let nxt = min (tokens + add) burst
                           in if nxt = burst then (nxt, now)
                              else (nxt, cursor + (add * kNanosPerSec) div per_sec))"

definition bucket_refill :: "int \<Rightarrow> Bucket \<Rightarrow> Bucket" where
  "bucket_refill now b =
     (let (ot, oc) = refill_one (bk_open_tokens b) (bk_open_refill_ns b)
                       (uint (rs_open_per_sec (bk_spec b))) (uint (rs_open_burst (bk_spec b))) now;
          (bt, bc) = refill_one (bk_bytes_tokens b) (bk_bytes_refill_ns b)
                       (uint (rs_bytes_per_sec (bk_spec b))) (uint (rs_bytes_burst (bk_spec b))) now
      in b\<lparr>bk_open_tokens := ot, bk_open_refill_ns := oc, bk_bytes_tokens := bt, bk_bytes_refill_ns := bc\<rparr>)"

definition consume_open :: "Bucket \<Rightarrow> bool \<times> Bucket" where
  "consume_open b =
     (if rs_mode (bk_spec b) = RL_Off \<or> rs_open_per_sec (bk_spec b) = 0 \<or> rs_open_burst (bk_spec b) = 0
      then (True, b)
      else if bk_open_tokens b \<le> 0
      then (rs_mode (bk_spec b) = RL_Report, b\<lparr>bk_open_rejected := bk_open_rejected b + 1\<rparr>)
      else (True, b\<lparr>bk_open_tokens := bk_open_tokens b - 1\<rparr>))"

definition put_bucket :: "string \<Rightarrow> Bucket \<Rightarrow> RateLimiter \<Rightarrow> RateLimiter" where
  "put_bucket key b rl = rl\<lparr>rl_buckets := (rl_buckets rl)(key \<mapsto> b)\<rparr>"

definition rl_try_consume_open :: "string \<Rightarrow> int \<Rightarrow> RateLimiter \<Rightarrow> bool \<times> RateLimiter" where
  "rl_try_consume_open pk now rl =
     (let key = normalise_key pk;
          (ok, b) = consume_open (bucket_refill now (get_or_create_bucket key rl))
      in (ok, put_bucket key b rl))"

text \<open>The byte bucket: whether the payload may pass, how long to wait if not, and the bucket. \<open>count\<close>
  is \<open>ThrottleAccounting::Count\<close>.\<close>

definition consume_bytes :: "nat \<Rightarrow> bool \<Rightarrow> Bucket \<Rightarrow> bool \<times> int \<times> Bucket" where
  "consume_bytes bytes count b =
     (if rs_mode (bk_spec b) = RL_Off \<or> rs_bytes_per_sec (bk_spec b) = 0 \<or> rs_bytes_burst (bk_spec b) = 0
      then (True, 0, b)
      else let need = min (int bytes) (uint (rs_bytes_burst (bk_spec b)));
               cur = bk_bytes_tokens b
           in if cur < need
              then let b1 = (if count then b\<lparr>bk_bytes_throttled := bk_bytes_throttled b + 1\<rparr> else b)
                   in if rs_mode (bk_spec b) = RL_Report
                      then (True, 0, b1\<lparr>bk_bytes_tokens := (if cur > 0 then 0 else cur)\<rparr>)
                      else let deficit = need - max cur 0;
                               per_sec = uint (rs_bytes_per_sec (bk_spec b));
                               wait_ns = (deficit * kNanosPerSec + per_sec - 1) div per_sec
                           in (False, max wait_ns 1, b1)
              else (True, 0, b\<lparr>bk_bytes_tokens := cur - need\<rparr>))"

definition rl_try_consume_bytes ::
    "string \<Rightarrow> nat \<Rightarrow> bool \<Rightarrow> int \<Rightarrow> RateLimiter \<Rightarrow> bool \<times> int \<times> RateLimiter" where
  "rl_try_consume_bytes pk bytes count now rl =
     (let key = normalise_key pk;
          (ok, retry_after, b) = consume_bytes bytes count (bucket_refill now (get_or_create_bucket key rl))
      in (ok, retry_after, put_bucket key b rl))"

definition rl_note_bytes_throttled :: "string \<Rightarrow> RateLimiter \<Rightarrow> RateLimiter" where
  "rl_note_bytes_throttled pk rl =
     (let key = normalise_key pk; b = get_or_create_bucket key rl
      in if rs_mode (bk_spec b) = RL_Off \<or> rs_bytes_per_sec (bk_spec b) = 0 \<or> rs_bytes_burst (bk_spec b) = 0
         then put_bucket key b rl
         else put_bucket key (b\<lparr>bk_bytes_throttled := bk_bytes_throttled b + 1\<rparr>) rl)"

record LimiterState =
  st_spec :: RateLimitSpec
  st_open_tokens :: int
  st_bytes_tokens :: int
  st_open_rejected :: u64
  st_bytes_throttled :: u64

definition rl_state :: "string \<Rightarrow> RateLimiter \<Rightarrow> LimiterState" where
  "rl_state pk rl =
     (case rl_buckets rl (normalise_key pk) of
        Some b \<Rightarrow> \<lparr>st_spec = bk_spec b, st_open_tokens = bk_open_tokens b, st_bytes_tokens = bk_bytes_tokens b,
                   st_open_rejected = bk_open_rejected b, st_bytes_throttled = bk_bytes_throttled b\<rparr>
      | None \<Rightarrow> \<lparr>st_spec = rl_default_spec rl, st_open_tokens = 0, st_bytes_tokens = 0,
                 st_open_rejected = 0, st_bytes_throttled = 0\<rparr>)"

section \<open>One refill\<close>

lemma div_mult_bounds:
  assumes "0 < (d :: int)"
  shows "d * (a div d) \<le> a" and "a < d * (a div d) + d"
  using mult_div_mod_eq [of d a] pos_mod_bound [OF assms, of a] pos_mod_sign [OF assms, of a] by linarith+

lemma refill_one_cases:
  assumes "refill_one tok c ps bu now = (tok', c')"
  obtains (fresh) "c = 0 \<or> ps \<le> 0 \<or> bu \<le> 0" "tok' = tok" "c' = now"
  | (idle) "0 < ps" "0 < bu" "now \<le> c" "tok' = tok" "c' = c" "c \<noteq> 0"
  | (saturated) "0 < ps" "0 < bu" "c < now" "bu * kNanosPerSec div ps \<le> now - c" "tok' = bu" "c' = now" "c \<noteq> 0"
  | (brim) "0 < ps" "0 < bu" "c < now" "bu \<le> tok" "tok' = tok" "c' = now" "c \<noteq> 0"
  | (fraction) "0 < ps" "0 < bu" "c < now" "tok < bu" "ps * (now - c) div kNanosPerSec \<le> 0" "tok' = tok" "c' = c" "c \<noteq> 0"
  | (fills) "0 < ps" "0 < bu" "c < now" "tok < bu" "bu \<le> tok + ps * (now - c) div kNanosPerSec" "tok' = bu" "c' = now" "c \<noteq> 0"
  | (part) "0 < ps" "0 < bu" "c < now" "0 < ps * (now - c) div kNanosPerSec"
      "tok' = tok + ps * (now - c) div kNanosPerSec" "tok' < bu"
      "c' = c + (ps * (now - c) div kNanosPerSec * kNanosPerSec) div ps" "c \<noteq> 0"
proof -
  define add full where "add = ps * (now - c) div kNanosPerSec" and "full = bu * kNanosPerSec div ps"
  have r: "refill_one tok c ps bu now =
      (if c = 0 \<or> ps \<le> 0 \<or> bu \<le> 0 then (tok, now)
       else if now \<le> c then (tok, c) else if full \<le> now - c then (bu, now)
       else if bu \<le> tok then (tok, now) else if add \<le> 0 then (tok, c)
       else if bu \<le> tok + add then (bu, now) else (tok + add, c + (add * kNanosPerSec) div ps))"
    unfolding refill_one_def Let_def add_def [symmetric] full_def [symmetric] by auto
  note keep = that [folded add_def full_def]
  consider "c = 0 \<or> ps \<le> 0 \<or> bu \<le> 0"
    | "c \<noteq> 0" "0 < ps" "0 < bu" "now \<le> c"
    | "c \<noteq> 0" "0 < ps" "0 < bu" "c < now" "full \<le> now - c"
    | "c \<noteq> 0" "0 < ps" "0 < bu" "c < now" "now - c < full" "bu \<le> tok"
    | "c \<noteq> 0" "0 < ps" "0 < bu" "c < now" "now - c < full" "tok < bu" "add \<le> 0"
    | "c \<noteq> 0" "0 < ps" "0 < bu" "c < now" "now - c < full" "tok < bu" "0 < add" "bu \<le> tok + add"
    | "c \<noteq> 0" "0 < ps" "0 < bu" "c < now" "now - c < full" "tok < bu" "0 < add" "tok + add < bu"
    using linorder_not_le by blast
  then show thesis
  proof cases
    case 1 then show ?thesis using keep(1) assms r by simp
  next
    case 2 then show ?thesis using keep(2) assms r by simp
  next
    case 3 then show ?thesis using keep(3) assms r by simp
  next
    case 4 then show ?thesis using keep(4) assms r by simp
  next
    case 5 then show ?thesis using keep(5) assms r by simp
  next
    case 6 then show ?thesis using keep(6) assms r by simp
  next
    case 7 then show ?thesis using keep(7) assms r by simp
  qed
qed

lemma refill_one_bounds:
  assumes "refill_one tok c ps bu now = (tok', c')" and "0 \<le> tok" and "tok \<le> bu"
  shows "tok \<le> tok' \<and> tok' \<le> bu"
  using assms(1) by (cases rule: refill_one_cases) (use assms(2,3) in auto)

lemma refill_one_cursor:
  assumes r: "refill_one tok c ps bu now = (tok', c')" and "c \<le> now" and "0 < now" and "0 \<le> c"
  shows "c \<le> c' \<and> c' \<le> now \<and> 0 < c'"
proof -
  have "(((ps * (now - c)) div kNanosPerSec) * kNanosPerSec) div ps \<le> now - c"
    "0 \<le> (((ps * (now - c)) div kNanosPerSec) * kNanosPerSec) div ps" if "0 < ps"
  proof -
    have "((ps * (now - c)) div kNanosPerSec) * kNanosPerSec \<le> (now - c) * ps"
      using div_mult_bounds(1) [of kNanosPerSec "ps * (now - c)"] by (simp add: kNanosPerSec_def mult.commute)
    then show "(((ps * (now - c)) div kNanosPerSec) * kNanosPerSec) div ps \<le> now - c"
      using that by (metis nonzero_mult_div_cancel_right order_less_irrefl zdiv_mono1)
    show "0 \<le> (((ps * (now - c)) div kNanosPerSec) * kNanosPerSec) div ps"
      using that assms(2) by (simp add: kNanosPerSec_def pos_imp_zdiv_nonneg_iff)
  qed
  note paid = this
  show ?thesis
    using r by (cases rule: refill_one_cases) (use assms paid in auto)
qed

text \<open>The value of a bucket at a time: its tokens, in billionths, and what its cursor has yet to pay out.\<close>

definition potential :: "int \<Rightarrow> int \<times> int \<Rightarrow> int \<Rightarrow> int" where
  "potential ps s t = fst s * kNanosPerSec + ps * (t - snd s)"

lemma refill_potential:
  assumes r: "refill_one tok c ps bu now = (tok', c')" and "0 < c" and "c \<le> now" and "0 < ps" and "0 < bu"
    and "0 \<le> tok"
  shows "potential ps (tok', c') now \<le> potential ps (tok, c) now + ps"
proof -
  let ?N = kNanosPerSec and ?e = "now - c"
  have N: "0 < ?N" by (simp add: kNanosPerSec_def)
  have full: "bu * ?N \<le> ps * ?e + ps" if "bu * ?N div ps \<le> ?e"
  proof -
    have "bu * ?N < ps * (bu * ?N div ps) + ps" by (rule div_mult_bounds(2) [OF assms(4)])
    also have "ps * (bu * ?N div ps) \<le> ps * ?e" using that assms(4) by simp
    finally show ?thesis by simp
  qed
  have add: "(ps * ?e div ?N) * ?N \<le> ps * ?e"
    using div_mult_bounds(1) [OF N, of "ps * ?e"] by (simp add: mult.commute)
  have rest: "(ps * ?e div ?N) * ?N \<le> ps * ((ps * ?e div ?N) * ?N div ps) + ps"
    using div_mult_bounds(2) [OF assms(4), of "(ps * ?e div ?N) * ?N"] by simp
  have nn: "0 \<le> tok * ?N" using assms(6) N by simp
  let ?add = "ps * ?e div ?N"
  have same: ?thesis if "tok' = tok" "c \<le> c'"
  proof -
    have "ps * (now - c') \<le> ps * ?e" by (rule mult_left_mono) (use that assms(4) in auto)
    then show ?thesis using assms(4) unfolding potential_def that(1) fst_conv snd_conv by linarith
  qed
  show ?thesis
    using r
  proof (cases rule: refill_one_cases)
    case saturated
    then show ?thesis using full nn by (simp add: potential_def)
  next
    case fills
    then have "bu * ?N \<le> (tok + ?add) * ?N" using N by simp
    then have "bu * ?N \<le> tok * ?N + ?add * ?N" by (simp add: distrib_right)
    then show ?thesis using fills add assms(4) by (simp add: potential_def)
  next
    case part
    have "(tok + ?add) * ?N = tok * ?N + ?add * ?N" by (simp add: distrib_right)
    moreover have "ps * (now - (c + (?add * ?N) div ps)) = ps * ?e - ps * ((?add * ?N) div ps)"
      by (simp add: algebra_simps)
    ultimately show ?thesis using part(5,7) rest by (simp add: potential_def)
  qed (use same assms in auto)
qed

lemma refill_potential_cap:
  assumes r: "refill_one tok c ps bu now = (tok', c')" and "0 \<le> c" and "c \<le> now" and "0 < ps" and "0 < bu"
    and "tok \<le> bu"
  shows "potential ps (tok', c') now \<le> bu * kNanosPerSec + ps"
proof -
  let ?N = kNanosPerSec and ?e = "now - c"
  let ?add = "ps * ?e div ?N"
  have N: "0 < ?N" by (simp add: kNanosPerSec_def)
  have le: "x * ?N \<le> bu * ?N" if "x \<le> bu" for x using that N by simp
  have now: ?thesis if "c' = now" "tok' \<le> bu"
    using that le assms(4) by (simp add: potential_def add_increasing2)
  show ?thesis
    using r
  proof (cases rule: refill_one_cases)
    case fraction
    have "?N * ?add \<le> 0" using fraction(5) N by (simp add: mult_nonneg_nonpos)
    then have "ps * ?e < ?N" using div_mult_bounds(2) [OF N, of "ps * ?e"] by linarith
    moreover have "(tok + 1) * ?N \<le> bu * ?N" using fraction(4) le by simp
    ultimately show ?thesis using fraction(6,7) assms(4) by (simp add: potential_def distrib_right)
  next
    case idle
    then show ?thesis using le [OF assms(6)] assms(3,4) by (simp add: potential_def)
  next
    case part
    have "(tok + ?add + 1) * ?N \<le> bu * ?N" using part(5,6) le by simp
    then have "(tok + ?add) * ?N + ?N \<le> bu * ?N" by (simp add: distrib_right)
    moreover have "ps * ?e < ?add * ?N + ?N"
      using div_mult_bounds(2) [OF N, of "ps * ?e"] by (simp add: mult.commute)
    moreover have "?add * ?N < ps * ((?add * ?N) div ps) + ps"
      by (rule div_mult_bounds(2) [OF assms(4)])
    moreover have "ps * (now - (c + (?add * ?N) div ps)) = ps * ?e - ps * ((?add * ?N) div ps)"
      by (simp add: algebra_simps)
    ultimately show ?thesis using part(5,7) by (simp add: potential_def)
  qed (use now assms in auto)
qed

section \<open>Every operation keeps the buckets within their limits\<close>

definition spec_ok :: "RateLimitSpec \<Rightarrow> bool" where
  "spec_ok s \<longleftrightarrow>
     rs_bytes_per_sec s \<le> kMaxByteBudget \<and> rs_bytes_burst s \<le> kMaxByteBudget
     \<and> (rs_bytes_burst s = 0 \<or> kMinActiveByteBurst \<le> rs_bytes_burst s)"

definition bucket_ok :: "Bucket \<Rightarrow> bool" where
  "bucket_ok b \<longleftrightarrow>
     spec_ok (bk_spec b)
     \<and> 0 \<le> bk_open_tokens b \<and> bk_open_tokens b \<le> uint (rs_open_burst (bk_spec b))
     \<and> 0 \<le> bk_bytes_tokens b \<and> bk_bytes_tokens b \<le> uint (rs_bytes_burst (bk_spec b))"

definition limiter_ok :: "RateLimiter \<Rightarrow> bool" where
  "limiter_ok rl \<longleftrightarrow> spec_ok (rl_default_spec rl) \<and> (\<forall>k b. rl_buckets rl k = Some b \<longrightarrow> bucket_ok b)"

lemma spec_ok_normalise [simp]: "spec_ok (normalise_byte_budgets s)"
  by (auto simp: spec_ok_def normalise_byte_budgets_def Let_def kMaxByteBudget_def kMinActiveByteBurst_def
      max_def min_def)

lemma bucket_ok_full [simp]: "spec_ok s \<Longrightarrow> bucket_ok (full_bucket s r)"
  by (simp add: bucket_ok_def full_bucket_def)

lemma bucket_ok_apply [simp]: "bucket_ok b \<Longrightarrow> spec_ok s \<Longrightarrow> bucket_ok (apply_spec s b)"
  by (simp add: bucket_ok_def apply_spec_def)

lemma bucket_ok_get [simp]: "limiter_ok rl \<Longrightarrow> bucket_ok (get_or_create_bucket k rl)"
  by (auto simp: limiter_ok_def get_or_create_bucket_def split: option.splits)

lemma limiter_ok_put [simp]: "limiter_ok rl \<Longrightarrow> bucket_ok b \<Longrightarrow> limiter_ok (put_bucket k b rl)"
  by (simp add: limiter_ok_def put_bucket_def)

lemma bucket_refill_spec [simp]: "bk_spec (bucket_refill now b) = bk_spec b"
  by (simp add: bucket_refill_def Let_def split: prod.splits)

lemma bucket_ok_refill [simp]: "bucket_ok b \<Longrightarrow> bucket_ok (bucket_refill now b)"
  unfolding bucket_ok_def bucket_refill_def Let_def
  by (auto split: prod.splits dest!: refill_one_bounds intro: order_trans)

lemma bucket_ok_consume_open: "bucket_ok b \<Longrightarrow> consume_open b = (ok, b') \<Longrightarrow> bucket_ok b'"
  by (auto simp: consume_open_def bucket_ok_def split: if_splits)

lemma bucket_ok_consume_bytes: "bucket_ok b \<Longrightarrow> consume_bytes n c b = (ok, w, b') \<Longrightarrow> bucket_ok b'"
  by (auto simp: consume_bytes_def bucket_ok_def Let_def split: if_splits)

lemma limiter_ok_install: "limiter_ok rl \<Longrightarrow> limiter_ok (install_friend_spec k r rl)"
proof -
  assume rl: "limiter_ok rl"
  have "bucket_ok (b\<lparr>bk_override_spec := r\<rparr>) = bucket_ok b" for b
    by (simp add: bucket_ok_def)
  then show ?thesis
    using rl by (auto simp: install_friend_spec_def limiter_ok_def Let_def split: option.splits)
qed

section \<open>Properties\<close>

datatype rl_call =
    Call_set_clock
  | Call_set_default_spec RateLimitSpec
  | Call_clear_all
  | Call_replace_all RateLimitSpec "(string \<times> RateLimitOverride) list"
  | Call_set_friend_override string RateLimitOverride
  | Call_set_friend_spec string RateLimitSpec
  | Call_try_open string int
  | Call_try_bytes string nat bool int
  | Call_note string

fun rl_step :: "rl_call \<Rightarrow> RateLimiter \<Rightarrow> RateLimiter" where
  "rl_step Call_set_clock rl = rl_set_clock rl"
| "rl_step (Call_set_default_spec s) rl = rl_set_default_spec s rl"
| "rl_step Call_clear_all rl = rl_clear_all rl"
| "rl_step (Call_replace_all d os) rl = rl_replace_all d os rl"
| "rl_step (Call_set_friend_override pk r) rl = rl_set_friend_override pk r rl"
| "rl_step (Call_set_friend_spec pk s) rl = rl_set_friend_spec pk s rl"
| "rl_step (Call_try_open pk now) rl = snd (rl_try_consume_open pk now rl)"
| "rl_step (Call_try_bytes pk n c now) rl = snd (snd (rl_try_consume_bytes pk n c now rl))"
| "rl_step (Call_note pk) rl = rl_note_bytes_throttled pk rl"

lemma limiter_ok_replace_all: "limiter_ok (rl_replace_all d os rl)"
proof -
  have "limiter_ok m \<Longrightarrow> limiter_ok (fold (\<lambda>(pk, r). install_friend_spec (normalise_key pk) r) os m)" for m
    by (induction os arbitrary: m) (auto simp: limiter_ok_install)
  note installs = this
  show ?thesis
    unfolding rl_replace_all_def by (rule installs) (simp add: limiter_ok_def)
qed

lemma limiter_ok_step: "limiter_ok rl \<Longrightarrow> limiter_ok (rl_step c rl)"
proof (cases c)
  case Call_set_clock
  then show "limiter_ok rl \<Longrightarrow> ?thesis"
    by (auto simp: rl_set_clock_def limiter_ok_def bucket_ok_def)
next
  case (Call_set_default_spec s)
  then show "limiter_ok rl \<Longrightarrow> ?thesis"
    by (auto simp: rl_set_default_spec_def limiter_ok_def Let_def)
next
  case (Call_try_open pk now)
  then show "limiter_ok rl \<Longrightarrow> ?thesis"
    by (auto simp: rl_try_consume_open_def Let_def split: prod.splits dest: bucket_ok_consume_open [rotated])
next
  case (Call_try_bytes pk n cnt now)
  then show "limiter_ok rl \<Longrightarrow> ?thesis"
    by (auto simp: rl_try_consume_bytes_def Let_def split: prod.splits dest: bucket_ok_consume_bytes [rotated])
next
  case (Call_note pk)
  have "bucket_ok (b\<lparr>bk_bytes_throttled := x\<rparr>) = bucket_ok b" for b x
    by (simp add: bucket_ok_def)
  with Call_note show "limiter_ok rl \<Longrightarrow> ?thesis"
    by (simp add: rl_note_bytes_throttled_def Let_def)
qed (auto simp: rl_clear_all_def limiter_ok_replace_all rl_set_friend_override_def rl_set_friend_spec_def
    limiter_ok_install, simp add: limiter_ok_def)

text \<open>The buckets stay within their limits. After any sequence of calls on a fresh limiter
  (consumption, reconfiguration, rules reload, clock changes), every bucket holds between zero and
  its burst of tokens, its byte budgets are at most \<open>kMaxByteBudget\<close>, and an engaged byte burst can
  hold a frame of the maximum size.\<close>

theorem limiter_always_ok: "limiter_ok (fold rl_step calls new_limiter)"
proof -
  have "limiter_ok rl \<Longrightarrow> limiter_ok (fold rl_step calls rl)" for rl
    by (induction calls arbitrary: rl) (auto simp: limiter_ok_step)
  moreover have "limiter_ok new_limiter"
    by (simp add: limiter_ok_def new_limiter_def spec_ok_def default_spec_def kMaxByteBudget_def)
  ultimately show ?thesis by simp
qed

text \<open>A rules reload under one lock is the three-step reload. \<open>replace_all\<close> leaves exactly the
  state that clearing, setting the defaults and installing the overrides one by one would leave.\<close>

theorem replace_all_equals_three_calls:
  "rl_replace_all d os rl =
     fold (\<lambda>(pk, r). rl_set_friend_override pk r) os (rl_set_default_spec d (rl_clear_all rl))"
proof -
  have "rl\<lparr>rl_buckets := (\<lambda>_. None), rl_default_spec := normalise_byte_budgets d\<rparr>
      = rl_set_default_spec d (rl_clear_all rl)"
    by (rule RateLimiter.equality) (simp_all add: rl_set_default_spec_def rl_clear_all_def Let_def)
  moreover have "(\<lambda>(pk, r). rl_set_friend_override pk r) = (\<lambda>(pk, r). install_friend_spec (normalise_key pk) r)"
    by (simp add: fun_eq_iff rl_set_friend_override_def)
  ultimately show ?thesis
    by (simp add: rl_replace_all_def)
qed

section \<open>The byte rate\<close>

fun admitted :: "string \<Rightarrow> (int \<times> nat) list \<Rightarrow> RateLimiter \<Rightarrow> nat" where
  "admitted pk [] rl = 0"
| "admitted pk ((now, n) # rs) rl =
     (let (ok, w, rl') = rl_try_consume_bytes pk n True now rl in (if ok then n else 0) + admitted pk rs rl')"

fun bucket_admitted :: "(int \<times> nat) list \<Rightarrow> Bucket \<Rightarrow> nat" where
  "bucket_admitted [] b = 0"
| "bucket_admitted ((now, n) # rs) b =
     (let (ok, w, b') = consume_bytes n True (bucket_refill now b) in (if ok then n else 0) + bucket_admitted rs b')"

lemma get_put_bucket [simp]: "get_or_create_bucket k (put_bucket k b rl) = b"
  by (simp add: get_or_create_bucket_def put_bucket_def)

lemma admitted_eq: "admitted pk rs rl = bucket_admitted rs (get_or_create_bucket (normalise_key pk) rl)"
  by (induction rs arbitrary: rl)
    (auto simp: rl_try_consume_bytes_def Let_def split: prod.splits)

text \<open>An engaged byte bucket in enforcing mode, at a time.\<close>

definition byte_bucket_at :: "int \<Rightarrow> int \<Rightarrow> int \<Rightarrow> Bucket \<Rightarrow> bool" where
  "byte_bucket_at ps bu t b \<longleftrightarrow>
     bucket_ok b \<and> rs_mode (bk_spec b) = RL_Enforce \<and> uint (rs_bytes_per_sec (bk_spec b)) = ps
     \<and> uint (rs_bytes_burst (bk_spec b)) = bu \<and> 0 < ps \<and> 0 < bu
     \<and> 0 < bk_bytes_refill_ns b \<and> bk_bytes_refill_ns b \<le> t"

abbreviation byte_state :: "Bucket \<Rightarrow> int \<times> int" where
  "byte_state b \<equiv> (bk_bytes_tokens b, bk_bytes_refill_ns b)"

lemma byte_state_refill:
  "byte_state (bucket_refill now b) =
     refill_one (bk_bytes_tokens b) (bk_bytes_refill_ns b)
       (uint (rs_bytes_per_sec (bk_spec b))) (uint (rs_bytes_burst (bk_spec b))) now"
  by (simp add: bucket_refill_def Let_def split: prod.splits)

lemma burst_holds_frame:
  assumes "bucket_ok b" and "rs_bytes_burst (bk_spec b) \<noteq> 0"
  shows "65535 \<le> uint (rs_bytes_burst (bk_spec b))"
proof -
  have "kMinActiveByteBurst \<le> rs_bytes_burst (bk_spec b)"
    using assms by (simp add: bucket_ok_def spec_ok_def)
  then have "uint kMinActiveByteBurst \<le> uint (rs_bytes_burst (bk_spec b))"
    by (simp only: word_le_def)
  then show ?thesis by (simp add: kMinActiveByteBurst_def)
qed

lemma consume_bytes_enforce:
  assumes b: "byte_bucket_at ps bu t b" and n: "n \<le> 65535" and c: "consume_bytes n cnt b = (ok, w, b')"
  shows "byte_bucket_at ps bu t b' \<and> bk_bytes_refill_ns b' = bk_bytes_refill_ns b
         \<and> bk_bytes_tokens b' = bk_bytes_tokens b - (if ok then int n else 0)"
proof -
  have ne: "rs_bytes_per_sec (bk_spec b) \<noteq> 0" "rs_bytes_burst (bk_spec b) \<noteq> 0"
    using b by (auto simp: byte_bucket_at_def)
  have "min (int n) (uint (rs_bytes_burst (bk_spec b))) = int n"
    using burst_holds_frame [of b] b ne n by (simp add: byte_bucket_at_def)
  moreover have "bucket_ok b'"
    using bucket_ok_consume_bytes [OF _ c] b by (simp add: byte_bucket_at_def)
  ultimately show ?thesis
    using b c ne by (auto simp: consume_bytes_def byte_bucket_at_def Let_def split: if_splits)
qed

lemma uint_nonzero_pos: "w \<noteq> 0 \<Longrightarrow> 0 < uint w"
proof -
  assume "w \<noteq> 0"
  then have "uint w \<noteq> 0" by (simp add: uint_0_iff)
  moreover have "0 \<le> uint w" by simp
  ultimately show ?thesis by linarith
qed

lemma byte_bucket_refill:
  assumes b: "byte_bucket_at ps bu t b" and t: "t \<le> now"
  shows "byte_bucket_at ps bu now (bucket_refill now b)"
    and "potential ps (byte_state (bucket_refill now b)) now \<le> potential ps (byte_state b) t + ps * (now - t) + ps"
proof -
  let ?c = "bk_bytes_refill_ns b" and ?b = "bucket_refill now b"
  have r: "refill_one (bk_bytes_tokens b) ?c ps bu now = byte_state ?b"
    using b by (simp add: byte_state_refill byte_bucket_at_def)
  have c: "0 < ?c" "?c \<le> now" "0 < now" and ok: "bucket_ok b" "0 < ps" "0 < bu" "0 \<le> bk_bytes_tokens b"
    using b t by (auto simp: byte_bucket_at_def bucket_ok_def)
  have "bk_bytes_refill_ns ?b \<le> now \<and> 0 < bk_bytes_refill_ns ?b"
    using refill_one_cursor [OF r c(2,3)] c by simp
  then show "byte_bucket_at ps bu now ?b"
    using b by (simp add: byte_bucket_at_def)
  have "potential ps (byte_state b) now = potential ps (byte_state b) t + ps * (now - t)"
    by (simp add: potential_def algebra_simps)
  then show "potential ps (byte_state ?b) now \<le> potential ps (byte_state b) t + ps * (now - t) + ps"
    using refill_potential [OF r c(1,2) ok(2,3,4)] by simp
qed

lemma bucket_admitted_bound:
  assumes "byte_bucket_at ps bu t b" and "sorted (t # map fst rs)" and "\<forall>(now, n) \<in> set rs. n \<le> 65535"
  shows "int (bucket_admitted rs b) * kNanosPerSec
           \<le> potential ps (byte_state b) t + ps * (last (t # map fst rs) - t + int (length rs))"
  using assms
proof (induction rs arbitrary: t b)
  case Nil
  then show ?case
    by (simp add: byte_bucket_at_def bucket_ok_def potential_def kNanosPerSec_def)
next
  case (Cons r rs)
  obtain now n where r: "r = (now, n)" by force
  obtain ok w b' where c: "consume_bytes n True (bucket_refill now b) = (ok, w, b')" by (metis prod_cases3)
  have t: "t \<le> now" "sorted (now # map fst rs)" and n: "n \<le> 65535"
    using Cons.prems(2,3) by (auto simp: r)
  note ref = byte_bucket_refill [OF Cons.prems(1) t(1)]
  note con = consume_bytes_enforce [OF ref(1) n c]
  let ?a = "if ok then n else 0"
  have "potential ps (byte_state b') now
      = potential ps (byte_state (bucket_refill now b)) now - int ?a * kNanosPerSec"
    using con by (simp add: potential_def left_diff_distrib)
  moreover have "int (bucket_admitted rs b') * kNanosPerSec
      \<le> potential ps (byte_state b') now + ps * (last (now # map fst rs) - now + int (length rs))"
    using Cons.IH [of now b'] con t(2) Cons.prems(3) by (simp add: r)
  moreover have "ps * (last (now # map fst rs) - t + int (length (r # rs)))
      = ps * (last (now # map fst rs) - now + int (length rs)) + ps * (now - t) + ps"
    by (simp add: algebra_simps)
  moreover have "int (bucket_admitted (r # rs) b) * kNanosPerSec
      = int ?a * kNanosPerSec + int (bucket_admitted rs b') * kNanosPerSec"
    using c by (simp add: r distrib_right)
  ultimately have "int (bucket_admitted (r # rs) b) * kNanosPerSec
      \<le> potential ps (byte_state b) t + ps * (last (now # map fst rs) - t + int (length (r # rs)))"
    using ref(2) by linarith
  moreover have "last (t # map fst (r # rs)) = last (now # map fst rs)"
    by (simp add: r)
  ultimately show ?case by (simp only:)
qed

text \<open>Claim C34: the byte rate is enforced. For any non-empty sequence of payloads (each at most one
  frame) offered at non-decreasing times to a friend whose byte limit is enforced, the bytes admitted
  exceed the burst by at most the configured rate over the time from the first offer to the last, plus
  one nanosecond of credit per offer (the rounding of the refill cursor).\<close>

theorem byte_rate_enforced:
  assumes "limiter_ok rl" and "get_or_create_bucket (normalise_key pk) rl = b"
    and "rs_mode (bk_spec b) = RL_Enforce" and "rs_bytes_per_sec (bk_spec b) \<noteq> 0" and "rs_bytes_burst (bk_spec b) \<noteq> 0"
    and "reqs \<noteq> []" and "sorted (map fst reqs)" and "\<forall>r \<in> set reqs. snd r \<le> 65535"
    and "0 \<le> bk_bytes_refill_ns b" and "bk_bytes_refill_ns b \<le> fst (hd reqs)" and "0 < fst (hd reqs)"
  shows "int (admitted pk reqs rl) * kNanosPerSec
           \<le> uint (rs_bytes_burst (bk_spec b)) * kNanosPerSec
             + uint (rs_bytes_per_sec (bk_spec b)) * (fst (last reqs) - fst (hd reqs) + int (length reqs))"
proof -
  let ?ps = "uint (rs_bytes_per_sec (bk_spec b))" and ?bu = "uint (rs_bytes_burst (bk_spec b))"
  obtain t n rs where reqs: "reqs = (t, n) # rs"
    using assms(6) by (metis list.exhaust prod.exhaust)
  have ok: "bucket_ok b" using assms(1,2) bucket_ok_get by blast
  have pos: "0 < ?ps" "0 < ?bu"
    using assms(4,5) uint_nonzero_pos by blast+
  let ?b = "bucket_refill t b"
  have r: "refill_one (bk_bytes_tokens b) (bk_bytes_refill_ns b) ?ps ?bu t = byte_state ?b"
    by (simp add: byte_state_refill)
  have t: "bk_bytes_refill_ns b \<le> t" "0 < t" using assms(10,11) reqs by auto
  have at: "byte_bucket_at ?ps ?bu t ?b"
    using refill_one_cursor [OF r t assms(9)] ok pos assms(3) by (simp add: byte_bucket_at_def)
  have cap: "potential ?ps (byte_state ?b) t \<le> ?bu * kNanosPerSec + ?ps"
    using refill_potential_cap [OF r assms(9) t(1) pos] ok by (simp add: bucket_ok_def)
  obtain okk w b' where c: "consume_bytes n True ?b = (okk, w, b')" by (metis prod_cases3)
  have n: "n \<le> 65535" using assms(8) reqs by simp
  note con = consume_bytes_enforce [OF at n c]
  have "potential ?ps (byte_state b') t = potential ?ps (byte_state ?b) t - int (if okk then n else 0) * kNanosPerSec"
    using con by (simp add: potential_def left_diff_distrib)
  moreover have "int (bucket_admitted rs b') * kNanosPerSec
      \<le> potential ?ps (byte_state b') t + ?ps * (last (t # map fst rs) - t + int (length rs))"
    by (rule bucket_admitted_bound) (use con assms(7,8) reqs in auto)
  moreover have "last (t # map fst rs) = fst (last reqs)" by (simp add: reqs last_map)
  moreover have "?ps * (fst (last reqs) - t + int (length reqs)) = ?ps * (fst (last reqs) - t + int (length rs)) + ?ps"
    by (simp add: reqs algebra_simps)
  moreover have "int (admitted pk reqs rl) * kNanosPerSec
      = int (if okk then n else 0) * kNanosPerSec + int (bucket_admitted rs b') * kNanosPerSec"
    using c by (simp add: admitted_eq assms(2) reqs distrib_right)
  ultimately show ?thesis using cap by (simp add: reqs)
qed

definition ex_limiter :: RateLimiter where
  "ex_limiter = rl_set_default_spec
     (default_spec\<lparr>rs_mode := RL_Enforce, rs_bytes_per_sec := 1000, rs_bytes_burst := 70000\<rparr>) new_limiter"

lemma ex_limiter_ok: "limiter_ok ex_limiter"
  using limiter_ok_step [of new_limiter "Call_set_default_spec
     (default_spec\<lparr>rs_mode := RL_Enforce, rs_bytes_per_sec := 1000, rs_bytes_burst := 70000\<rparr>)"]
  by (simp add: ex_limiter_def limiter_ok_def new_limiter_def spec_ok_def default_spec_def kMaxByteBudget_def)

lemma ex_limiter_bucket:
  "get_or_create_bucket k ex_limiter = full_bucket
     (default_spec\<lparr>rs_mode := RL_Enforce, rs_bytes_per_sec := 1000, rs_bytes_burst := 70000\<rparr>) no_override"
  by (simp add: get_or_create_bucket_def ex_limiter_def rl_set_default_spec_def new_limiter_def Let_def
      normalise_byte_budgets_def kMaxByteBudget_def kMinActiveByteBurst_def default_spec_def)

theorem byte_rate_enforced_witness:
  "int (admitted ''ab'' [(5, 60000), (1000000005, 60000)] ex_limiter) * kNanosPerSec
     \<le> 70000 * kNanosPerSec + 1000 * (1000000000 + 2)"
  using byte_rate_enforced [OF ex_limiter_ok ex_limiter_bucket, of "[(5, 60000), (1000000005, 60000)]"]
  by (simp add: full_bucket_def)

lemma wait_covers_deficit:
  assumes "0 < ps" and "(deficit * kNanosPerSec + ps - 1) div ps \<le> e" and "0 \<le> e"
  shows "deficit \<le> ps * e div kNanosPerSec"
proof -
  have "deficit * kNanosPerSec + ps - 1 < ps * ((deficit * kNanosPerSec + ps - 1) div ps) + ps"
    by (rule div_mult_bounds(2) [OF assms(1)])
  also have "ps * ((deficit * kNanosPerSec + ps - 1) div ps) \<le> ps * e"
    using assms by simp
  finally have "deficit * kNanosPerSec \<le> ps * e" by simp
  then have "deficit * kNanosPerSec div kNanosPerSec \<le> ps * e div kNanosPerSec"
    by (rule zdiv_mono1) (simp add: kNanosPerSec_def)
  then show ?thesis by (simp add: kNanosPerSec_def)
qed

text \<open>A throttled sender that waits as told is served. When a byte request is refused with a
  wait, the same request offered to the same friend any time after that wait is admitted, and the
  wait is never zero.\<close>

theorem throttled_retry_admitted:
  assumes "limiter_ok rl" and "rl_try_consume_bytes pk n count now rl = (False, w, rl1)"
    and "0 \<le> bk_bytes_refill_ns (get_or_create_bucket (normalise_key pk) rl)"
    and "bk_bytes_refill_ns (get_or_create_bucket (normalise_key pk) rl) \<le> now" and "0 < now" and "now + w \<le> t"
  shows "0 < w \<and> fst (rl_try_consume_bytes pk n count' t rl1)"
proof -
  define b where "b = bucket_refill now (get_or_create_bucket (normalise_key pk) rl)"
  let ?s = "bk_spec b"
  let ?ps = "uint (rs_bytes_per_sec ?s)" and ?bu = "uint (rs_bytes_burst ?s)"
  let ?need = "min (int n) ?bu" and ?tok = "bk_bytes_tokens b" and ?c = "bk_bytes_refill_ns b"
  have ok: "bucket_ok b" using assms(1) by (simp add: b_def)
  obtain b1 where c: "consume_bytes n count b = (False, w, b1)" and rl1: "rl1 = put_bucket (normalise_key pk) b1 rl"
    using assms(2) by (auto simp: rl_try_consume_bytes_def Let_def b_def split: prod.splits)
  from c have eng: "rs_mode ?s = RL_Enforce" "rs_bytes_per_sec ?s \<noteq> 0" "rs_bytes_burst ?s \<noteq> 0"
    and short: "?tok < ?need"
    and w: "w = max ((( ?need - max ?tok 0) * kNanosPerSec + ?ps - 1) div ?ps) 1"
    and b1: "bk_spec b1 = ?s" "bk_bytes_tokens b1 = ?tok" "bk_bytes_refill_ns b1 = ?c"
    by (auto simp: consume_bytes_def Let_def split: if_splits intro: RateLimitMode.exhaust)
  have pos: "0 < ?ps" "0 < ?bu" using eng uint_nonzero_pos by blast+
  have tok: "0 \<le> ?tok" "?tok \<le> ?bu" using ok by (auto simp: bucket_ok_def)
  have cur: "0 < ?c" "?c \<le> now"
    using refill_one_cursor [OF byte_state_refill [symmetric] assms(4,5,3)] by (auto simp: b_def)
  obtain tok' c' where r: "refill_one ?tok ?c ?ps ?bu t = (tok', c')" by force
  have enough: "?need \<le> tok'"
  proof -
    have wait: "((?need - ?tok) * kNanosPerSec + ?ps - 1) div ?ps \<le> t - ?c"
      using w tok(1) cur(2) assms(6) by simp
    have later: "?c < t" using w cur(2) assms(6) by linarith
    have add: "?need - ?tok \<le> ?ps * (t - ?c) div kNanosPerSec"
      by (rule wait_covers_deficit [OF pos(1) wait]) (use later in simp)
    show ?thesis
      using r by (cases rule: refill_one_cases) (use pos cur later add short in auto)
  qed
  have "byte_state (bucket_refill t b1) = (tok', c')"
    using byte_state_refill [of t b1] r b1 by simp
  then have "fst (consume_bytes n count' (bucket_refill t b1))"
    using enough b1(1) by (auto simp: consume_bytes_def Let_def)
  then show ?thesis
    using w by (auto simp: rl1 rl_try_consume_bytes_def Let_def split: prod.splits)
qed

definition ex_spent :: RateLimiter where
  "ex_spent = snd (snd (rl_try_consume_bytes ''ab'' 60000 True 5 ex_limiter))"

lemma ex_spent_bucket:
  "get_or_create_bucket (normalise_key ''ab'') ex_spent =
     (full_bucket (default_spec\<lparr>rs_mode := RL_Enforce, rs_bytes_per_sec := 1000, rs_bytes_burst := 70000\<rparr>) no_override)
       \<lparr>bk_bytes_tokens := 10000, bk_open_refill_ns := 5, bk_bytes_refill_ns := 5\<rparr>"
  by (simp add: ex_spent_def rl_try_consume_bytes_def ex_limiter_bucket Let_def bucket_refill_def refill_one_def
      full_bucket_def consume_bytes_def default_spec_def)

end
