(* ===== verification/Rules_Engine.thy ===== *)
theory Rules_Engine
  imports Tox_Types Rate_Limiter
begin

text \<open>
  Access rules: \<open>include/toxtunnel/app/rules_engine.hpp\<close> and \<open>src/app/rules_engine.cpp\<close>. The YAML
  library is a parameter: a record \<open>yaml_api\<close> of the node observers the decoders call, over an
  arbitrary type of nodes; a conversion that throws is \<open>None\<close>. The emitter's output is the list of
  tokens written to it. Log messages and source positions in diagnostics are left out.
\<close>

section \<open>Data\<close>

record TargetSpec =
  ts_host :: string
  ts_ports :: "u16 list"

record SourceSpec =
  ss_ip :: "string option"
  ss_port :: "u16 option"

record FriendRule =
  fr_friend_pk :: string
  fr_allow :: "TargetSpec list"
  fr_deny :: "TargetSpec list"
  fr_rate_limit :: RateLimitOverride

record AccessRequest =
  ar_friend_pk :: string
  ar_target_host :: string
  ar_target_port :: u16
  ar_source_ip :: "string option"
  ar_source_port :: "u16 option"

datatype AccessResult = Allowed | Denied | Default_policy

record RulesEngine =
  re_rules :: "FriendRule list"
  re_rate_limit_defaults :: RateLimitSpec

definition new_engine :: "FriendRule list \<Rightarrow> RulesEngine" where
  "new_engine rules = \<lparr>re_rules = rules, re_rate_limit_defaults = default_spec\<rparr>"

section \<open>Pattern matching\<close>

definition host_matches :: "string \<Rightarrow> string \<Rightarrow> bool" where
  "host_matches host pattern =
     (if pattern = [] then False
      else if pattern = ''*'' then True
      else let host_lower = str_lower host; pattern_lower = str_lower pattern
           in if pattern_lower = host_lower then True
              else case split_at (CHR ''*'') pattern_lower of
                     None \<Rightarrow> False
                   | Some (pre, suf) \<Rightarrow>
                       if pre \<noteq> [] \<and> (length host_lower < length pre \<or> take (length pre) host_lower \<noteq> pre)
                       then False
                       else if suf \<noteq> [] \<and> (length host_lower < length suf
                                \<or> drop (length host_lower - length suf) host_lower \<noteq> suf)
                       then False else True)"

text \<open>\<open>std::getline\<close> on a string stream, until it fails: the parts between the separators, without an
  empty part behind a trailing separator.\<close>

fun getline_parts :: "char \<Rightarrow> string \<Rightarrow> string list" where
  "getline_parts c [] = []"
| "getline_parts c (x # xs) =
     (if x = c then [] # getline_parts c xs
      else case getline_parts c xs of
             [] \<Rightarrow> [[x]]
           | p # ps \<Rightarrow> (x # p) # ps)"

definition ip_matches :: "string \<Rightarrow> string \<Rightarrow> bool" where
  "ip_matches ip pattern =
     (if pattern = [] then False
      else if pattern = ''*'' then True
      else if pattern = ip then True
      else if CHR ''*'' \<in> set pattern
      then let ip_parts = getline_parts (CHR ''.'') ip; pattern_parts = getline_parts (CHR ''.'') pattern
           in length ip_parts = length pattern_parts
              \<and> list_all2 (\<lambda>p i. p = ''*'' \<or> p = i) pattern_parts ip_parts
      else False)"

definition port_allowed :: "u16 \<Rightarrow> u16 list \<Rightarrow> bool" where
  "port_allowed port allowed_ports = (if allowed_ports = [] then True else port \<in> set allowed_ports)"

definition target_matches :: "AccessRequest \<Rightarrow> TargetSpec \<Rightarrow> bool" where
  "target_matches request spec =
     (if \<not> host_matches (ar_target_host request) (ts_host spec) then False
      else if \<not> port_allowed (ar_target_port request) (ts_ports spec) then False else True)"

definition source_matches :: "AccessRequest \<Rightarrow> SourceSpec \<Rightarrow> bool" where
  "source_matches request spec =
     ((case ss_ip spec of None \<Rightarrow> True
       | Some pat \<Rightarrow> (case ar_source_ip request of None \<Rightarrow> False | Some ip \<Rightarrow> ip_matches ip pat))
      \<and> (case ss_port spec of None \<Rightarrow> True
         | Some p \<Rightarrow> (case ar_source_port request of None \<Rightarrow> False | Some q \<Rightarrow> p = q)))"

section \<open>Evaluation\<close>

definition find_friend_rule :: "string \<Rightarrow> RulesEngine \<Rightarrow> FriendRule option" where
  "find_friend_rule pk e = (let canonical = str_upper pk in find (\<lambda>r. fr_friend_pk r = canonical) (re_rules e))"

definition evaluate :: "AccessRequest \<Rightarrow> RulesEngine \<Rightarrow> AccessResult" where
  "evaluate request e =
     (case find_friend_rule (ar_friend_pk request) e of
        None \<Rightarrow> Default_policy
      | Some rule \<Rightarrow>
          if list_ex (target_matches request) (fr_deny rule) then Denied
          else if list_ex (target_matches request) (fr_allow rule) then Allowed
          else Default_policy)"

definition has_rules_for_friend :: "string \<Rightarrow> RulesEngine \<Rightarrow> bool" where
  "has_rules_for_friend pk e \<longleftrightarrow> find_friend_rule pk e \<noteq> None"

definition add_rule :: "FriendRule \<Rightarrow> RulesEngine \<Rightarrow> RulesEngine" where
  "add_rule r e = e\<lparr>re_rules := re_rules e @ [r\<lparr>fr_friend_pk := str_upper (fr_friend_pk r)\<rparr>]\<rparr>"

definition set_rate_limit_defaults :: "RateLimitSpec \<Rightarrow> RulesEngine \<Rightarrow> RulesEngine" where
  "set_rate_limit_defaults s e = e\<lparr>re_rate_limit_defaults := s\<lparr>rs_defaults_present := True\<rparr>\<rparr>"

section \<open>Loading\<close>

record 'n yaml_api =
  y_is_map :: "'n \<Rightarrow> bool"
  y_is_seq :: "'n \<Rightarrow> bool"
  y_get :: "'n \<Rightarrow> string \<Rightarrow> 'n option"
  y_elems :: "'n \<Rightarrow> 'n list"
  y_string :: "'n \<Rightarrow> string option"
  y_u16 :: "'n \<Rightarrow> u16 option"
  y_u32 :: "'n \<Rightarrow> u32 option"
  y_u64 :: "'n \<Rightarrow> u64 option"

text \<open>\<open>node.as<std::vector<T>>()\<close>: a sequence, every element converted.\<close>

definition as_vector :: "'n yaml_api \<Rightarrow> ('n \<Rightarrow> 'a option) \<Rightarrow> 'n \<Rightarrow> 'a list option" where
  "as_vector y conv n =
     (if \<not> y_is_seq y n then None
      else if list_all (\<lambda>m. conv m \<noteq> None) (y_elems y n) then Some (map (\<lambda>m. the (conv m)) (y_elems y n))
      else None)"

text \<open>\<open>if (node[key]) field = node[key].as<T>();\<close>: absent keys keep the default.\<close>

definition opt_field :: "'n yaml_api \<Rightarrow> 'n \<Rightarrow> string \<Rightarrow> ('n \<Rightarrow> 'a option) \<Rightarrow> 'a \<Rightarrow> 'a option" where
  "opt_field y n key conv d = (case y_get y n key of None \<Rightarrow> Some d | Some m \<Rightarrow> conv m)"

definition decode_target :: "'n yaml_api \<Rightarrow> 'n \<Rightarrow> TargetSpec option" where
  "decode_target y n =
     (if \<not> y_is_map y n then None
      else case y_get y n ''host'' of
             None \<Rightarrow> None
           | Some h \<Rightarrow>
               (case (y_string y h, opt_field y n ''ports'' (as_vector y (y_u16 y)) []) of
                  (Some host, Some ports) \<Rightarrow> Some \<lparr>ts_host = host, ts_ports = ports\<rparr>
                | _ \<Rightarrow> None))"

definition decode_source :: "'n yaml_api \<Rightarrow> 'n \<Rightarrow> SourceSpec option" where
  "decode_source y n =
     (if \<not> y_is_map y n then None
      else case (opt_field y n ''ip'' (\<lambda>m. map_option Some (y_string y m)) None,
                 opt_field y n ''port'' (\<lambda>m. map_option Some (y_u16 y m)) None) of
             (Some ip, Some port) \<Rightarrow> Some \<lparr>ss_ip = ip, ss_port = port\<rparr>
           | _ \<Rightarrow> None)"

definition decode_mode :: "'n yaml_api \<Rightarrow> 'n \<Rightarrow> RateLimitMode option" where
  "decode_mode y m = (case y_string y m of None \<Rightarrow> None | Some s \<Rightarrow> parse_rate_limit_mode s)"

definition decode_override :: "'n yaml_api \<Rightarrow> 'n \<Rightarrow> RateLimitOverride option" where
  "decode_override y n =
     (if \<not> y_is_map y n then None
      else case (opt_field y n ''mode'' (\<lambda>m. map_option Some (decode_mode y m)) None,
                 opt_field y n ''open_per_sec'' (\<lambda>m. map_option Some (y_u32 y m)) None,
                 opt_field y n ''open_burst'' (\<lambda>m. map_option Some (y_u32 y m)) None,
                 opt_field y n ''bytes_per_sec'' (\<lambda>m. map_option Some (y_u64 y m)) None,
                 opt_field y n ''bytes_burst'' (\<lambda>m. map_option Some (y_u64 y m)) None,
                 opt_field y n ''max_concurrent_tunnels'' (\<lambda>m. map_option Some (y_u32 y m)) None) of
             (Some mode, Some ops, Some ob, Some bps, Some bb, Some mct) \<Rightarrow>
               Some \<lparr>ro_mode = mode, ro_open_per_sec = ops, ro_open_burst = ob, ro_bytes_per_sec = bps,
                     ro_bytes_burst = bb, ro_max_concurrent_tunnels = mct\<rparr>
           | _ \<Rightarrow> None)"

definition decode_spec :: "'n yaml_api \<Rightarrow> 'n \<Rightarrow> RateLimitSpec option" where
  "decode_spec y n =
     (if \<not> y_is_map y n then None
      else case (opt_field y n ''mode'' (decode_mode y) RL_Enforce,
                 opt_field y n ''open_per_sec'' (y_u32 y) 0,
                 opt_field y n ''open_burst'' (y_u32 y) 0,
                 opt_field y n ''bytes_per_sec'' (y_u64 y) 0,
                 opt_field y n ''bytes_burst'' (y_u64 y) 0,
                 opt_field y n ''max_concurrent_tunnels'' (y_u32 y) 0) of
             (Some mode, Some ops, Some ob, Some bps, Some bb, Some mct) \<Rightarrow>
               Some \<lparr>rs_mode = mode, rs_open_per_sec = ops, rs_open_burst = ob, rs_bytes_per_sec = bps,
                     rs_bytes_burst = bb, rs_max_concurrent_tunnels = mct, rs_defaults_present = True\<rparr>
           | _ \<Rightarrow> None)"

definition decode_friend_rule :: "'n yaml_api \<Rightarrow> 'n \<Rightarrow> FriendRule option" where
  "decode_friend_rule y n =
     (if \<not> y_is_map y n then None
      else case (case y_get y n ''friend'' of Some m \<Rightarrow> Some m | None \<Rightarrow> y_get y n ''friend_pk'') of
             None \<Rightarrow> None
           | Some m \<Rightarrow>
               (case (y_string y m, opt_field y n ''allow'' (as_vector y (decode_target y)) [],
                      opt_field y n ''deny'' (as_vector y (decode_target y)) [],
                      opt_field y n ''rate_limit'' (decode_override y) no_override) of
                  (Some pk, Some allow, Some deny, Some rl) \<Rightarrow>
                    Some \<lparr>fr_friend_pk = pk, fr_allow = allow, fr_deny = deny, fr_rate_limit = rl\<rparr>
                | _ \<Rightarrow> None))"

datatype rules_error =
    RE_parse_rules
  | RE_parse_rule
  | RE_public_key_length nat
  | RE_public_key string
  | RE_port_zero_allow
  | RE_port_zero_deny

text \<open>The checks \<open>from_node\<close> makes on a decoded rule, and the key in canonical form.\<close>

definition validate_rule :: "FriendRule \<Rightarrow> rules_error + FriendRule" where
  "validate_rule r =
     (if length (fr_friend_pk r) \<noteq> kPublicKeyHexLen then Inl (RE_public_key_length (length (fr_friend_pk r)))
      else case parse_public_key (fr_friend_pk r) of
             Inl e \<Rightarrow> Inl (RE_public_key e)
           | Inr pk \<Rightarrow>
               if list_ex (\<lambda>t. 0 \<in> set (ts_ports t)) (fr_allow r) then Inl RE_port_zero_allow
               else if list_ex (\<lambda>t. 0 \<in> set (ts_ports t)) (fr_deny r) then Inl RE_port_zero_deny
               else Inr (r\<lparr>fr_friend_pk := bytes_to_hex pk\<rparr>))"

fun load_rules :: "'n yaml_api \<Rightarrow> 'n list \<Rightarrow> RulesEngine \<Rightarrow> rules_error + RulesEngine" where
  "load_rules y [] e = Inr e"
| "load_rules y (n # ns) e =
     (case decode_friend_rule y n of
        None \<Rightarrow> Inl RE_parse_rule
      | Some r \<Rightarrow>
          (case validate_rule r of
             Inl err \<Rightarrow> Inl err
           | Inr r' \<Rightarrow> load_rules y ns (e\<lparr>re_rules := re_rules e @ [r']\<rparr>)))"

definition from_node :: "'n yaml_api \<Rightarrow> 'n \<Rightarrow> rules_error + RulesEngine" where
  "from_node y n =
     (let rules_nodes =
            (if y_is_seq y n then Some (y_elems y n)
             else if y_is_map y n \<and> y_get y n ''rules'' \<noteq> None then Some (y_elems y (the (y_get y n ''rules'')))
             else if y_is_map y n \<and> y_get y n ''friend'' \<noteq> None then Some [n]
             else None);
          defaults =
            (if y_is_map y n
             then opt_field y n ''rate_limit_defaults'' (decode_spec y) default_spec
             else Some default_spec)
      in case defaults of
           None \<Rightarrow> Inl RE_parse_rules
         | Some d \<Rightarrow> load_rules y (case rules_nodes of None \<Rightarrow> [] | Some ns \<Rightarrow> ns)
                      \<lparr>re_rules = [], re_rate_limit_defaults = d\<rparr>)"

section \<open>Saving\<close>

datatype yaml_token = BeginSeq | EndSeq | BeginMap | EndMap | YKey string | YValue string | YPorts "u16 list"

definition emit_target :: "TargetSpec \<Rightarrow> yaml_token list" where
  "emit_target t =
     [BeginMap, YKey ''host'', YValue (ts_host t)]
       @ (if ts_ports t \<noteq> [] then [YKey ''ports'', YPorts (ts_ports t)] else []) @ [EndMap]"

definition emit_targets :: "string \<Rightarrow> TargetSpec list \<Rightarrow> yaml_token list" where
  "emit_targets key ts =
     (if ts \<noteq> [] then [YKey key, BeginSeq] @ concat (map emit_target ts) @ [EndSeq] else [])"

definition emit_rule :: "FriendRule \<Rightarrow> yaml_token list" where
  "emit_rule r =
     [BeginMap, YKey ''friend'', YValue (fr_friend_pk r)]
       @ emit_targets ''allow'' (fr_allow r) @ emit_targets ''deny'' (fr_deny r) @ [EndMap]"

definition to_yaml :: "RulesEngine \<Rightarrow> yaml_token list" where
  "to_yaml e = [BeginSeq] @ concat (map emit_rule (re_rules e)) @ [EndSeq]"

section \<open>Host patterns\<close>

lemma tolower_star [simp]: "tolower c = CHR ''*'' \<longleftrightarrow> c = CHR ''*''"
proof -
  have n: "(of_char (CHR ''*'') :: nat) = 42" by simp
  show ?thesis
    using of_char_eqI [of "tolower c" "CHR ''*''"] of_char_eqI [of c "CHR ''*''"] of_char_tolower [of c] n
    by (auto split: if_splits)
qed

lemma star_in_lower [simp]: "CHR ''*'' \<in> tolower ` A \<longleftrightarrow> CHR ''*'' \<in> A"
  using tolower_star by (metis imageE imageI)

lemma take_prefix_iff: "(length h \<ge> length p \<and> take (length p) h = p) \<longleftrightarrow> prefix p h"
  by (metis append_eq_conv_conj prefix_def prefix_length_le take_is_prefix)

lemma drop_suffix_iff: "(length h \<ge> length s \<and> drop (length h - length s) h = s) \<longleftrightarrow> suffix s h"
  by (metis append_take_drop_id length_append length_drop diff_diff_cancel suffix_def suffix_length_le
      add_diff_cancel_right' append_eq_conv_conj)

text \<open>What a wildcard pattern matches. A pattern with a star matches exactly the hosts that,
  ignoring case, start with the text before the first star and end with the text behind it.\<close>

theorem host_wildcard_spec:
  assumes "CHR ''*'' \<notin> set pre"
  shows "host_matches h (pre @ ''*'' @ suf) \<longleftrightarrow>
           prefix (str_lower pre) (str_lower h) \<and> suffix (str_lower suf) (str_lower h)"
proof (cases "pre = [] \<and> suf = []")
  case True
  then show ?thesis by (simp add: host_matches_def)
next
  case False
  let ?h = "str_lower h" and ?p = "str_lower pre" and ?s = "str_lower suf"
  have low: "str_lower (pre @ ''*'' @ suf) = ?p @ CHR ''*'' # ?s"
    by (simp add: tolower_def)
  have split: "split_at (CHR ''*'') (?p @ CHR ''*'' # ?s) = Some (?p, ?s)"
    using assms by (intro split_at_append) simp
  have self: "prefix ?p ?h \<and> suffix ?s ?h" if "?p @ CHR ''*'' # ?s = ?h"
    using that [symmetric] by (auto simp: suffix_def intro: exI [of _ "?p @ ''*''"])
  have "pre @ ''*'' @ suf \<noteq> ''*''"
    using False by (cases pre) auto
  then show ?thesis
    using self take_prefix_iff [of ?p ?h] drop_suffix_iff [of ?s ?h] False
    unfolding host_matches_def low Let_def split
    by (auto simp: not_less)
qed

text \<open>Only the first star is a wildcard. A pattern with two stars, such as the documented
  \<open>192.168.*.*\<close>, matches no host that does not itself contain a star, so a rule written that way
  never applies to an address.\<close>

theorem second_star_is_literal:
  assumes "CHR ''*'' \<notin> set h"
  shows "\<not> host_matches h (pre @ ''*'' @ mid @ ''*'' @ suf)"
proof
  assume m: "host_matches h (pre @ ''*'' @ mid @ ''*'' @ suf)"
  obtain a b where ab: "pre @ ''*'' @ mid @ ''*'' @ suf = a @ ''*'' @ b" "CHR ''*'' \<notin> set a" "CHR ''*'' \<in> set b"
  proof (cases "CHR ''*'' \<in> set pre")
    case True
    then obtain a b where "pre = a @ CHR ''*'' # b" "CHR ''*'' \<notin> set a"
      by (meson split_list_first)
    then show ?thesis using that [of a "b @ ''*'' @ mid @ ''*'' @ suf"] by simp
  next
    case False
    then show ?thesis using that [of pre "mid @ ''*'' @ suf"] by simp
  qed
  have "suffix (str_lower b) (str_lower h)"
    using m host_wildcard_spec [OF ab(2), of h b] ab(1) by simp
  then have "set (str_lower b) \<subseteq> set (str_lower h)"
    by (metis set_append suffix_def sup_ge2)
  then show False using assms ab(3) star_in_lower by (metis list.set_map subsetD)
qed

section \<open>Evaluation\<close>

lemma host_matches_lower: "str_lower h = str_lower h' \<Longrightarrow> host_matches h p = host_matches h' p"
  by (simp add: host_matches_def)

text \<open>Decisions do not depend on letter case. Two requests for the same port whose friend keys
  and target hosts differ only in case get the same decision from every rule set.\<close>

theorem evaluate_case_insensitive:
  assumes "str_upper (ar_friend_pk q) = str_upper (ar_friend_pk q')"
    and "str_lower (ar_target_host q) = str_lower (ar_target_host q')" and "ar_target_port q = ar_target_port q'"
  shows "evaluate q e = evaluate q' e"
proof -
  have "host_matches (ar_target_host q) p = host_matches (ar_target_host q') p" for p
    by (rule host_matches_lower [OF assms(2)])
  then have "target_matches q = target_matches q'"
    by (simp add: fun_eq_iff target_matches_def assms(3))
  then show ?thesis
    by (simp only: evaluate_def find_friend_rule_def Let_def assms(1))
qed

definition ex_request :: "string \<Rightarrow> string \<Rightarrow> AccessRequest" where
  "ex_request pk host =
     \<lparr>ar_friend_pk = pk, ar_target_host = host, ar_target_port = 22, ar_source_ip = None, ar_source_port = None\<rparr>"

definition ex_engine :: RulesEngine where
  "ex_engine = new_engine [\<lparr>fr_friend_pk = ''AB'', fr_allow = [\<lparr>ts_host = ''*'', ts_ports = []\<rparr>],
     fr_deny = [\<lparr>ts_host = ''*.corp'', ts_ports = [22]\<rparr>], fr_rate_limit = no_override\<rparr>]"

text \<open>
  The policy the rules describe, with no reference to the code that evaluates it: which hosts a pattern
  covers, which requests a target covers, and which rule of an engine governs a request.
\<close>

definition pattern_covers :: "string \<Rightarrow> string \<Rightarrow> bool" where
  "pattern_covers pattern host \<longleftrightarrow>
     pattern \<noteq> [] \<and> str_lower pattern = str_lower host
     \<or> (\<exists>pre suf. pattern = pre @ ''*'' @ suf \<and> CHR ''*'' \<notin> set pre
          \<and> prefix (str_lower pre) (str_lower host) \<and> suffix (str_lower suf) (str_lower host))"

definition target_covers :: "TargetSpec \<Rightarrow> AccessRequest \<Rightarrow> bool" where
  "target_covers t q \<longleftrightarrow>
     pattern_covers (ts_host t) (ar_target_host q)
     \<and> (ts_ports t = [] \<or> (\<exists>i<length (ts_ports t). ts_ports t ! i = ar_target_port q))"

definition governs :: "FriendRule \<Rightarrow> AccessRequest \<Rightarrow> RulesEngine \<Rightarrow> bool" where
  "governs r q e \<longleftrightarrow>
     (\<exists>xs ys. re_rules e = xs @ r # ys \<and> fr_friend_pk r = str_upper (ar_friend_pk q)
        \<and> str_upper (ar_friend_pk q) \<notin> fr_friend_pk ` set xs)"

lemma host_matches_covers: "host_matches host pattern \<longleftrightarrow> pattern_covers pattern host"
proof (cases "CHR ''*'' \<in> set pattern")
  case True
  then obtain pre suf where p: "pattern = pre @ CHR ''*'' # suf" and pre: "CHR ''*'' \<notin> set pre"
    by (meson split_list_first)
  have uniq: "pre = a \<and> suf = b" if "pattern = a @ ''*'' @ b" "CHR ''*'' \<notin> set a" for a b
  proof -
    have "split_at (CHR ''*'') pattern = Some (pre, suf)" unfolding p by (rule split_at_append [OF pre])
    moreover have "split_at (CHR ''*'') pattern = Some (a, b)" using split_at_append [OF that(2)] that(1) by simp
    ultimately show ?thesis by simp
  qed
  have self: "prefix (str_lower pre) (str_lower host) \<and> suffix (str_lower suf) (str_lower host)"
    if "str_lower pattern = str_lower host"
  proof -
    have "str_lower host = str_lower pre @ tolower (CHR ''*'') # str_lower suf" using that p by simp
    then have "str_lower host = str_lower pre @ (tolower (CHR ''*'') # str_lower suf)"
      and "str_lower host = (str_lower pre @ [tolower (CHR ''*'')]) @ str_lower suf" by simp_all
    then show ?thesis unfolding prefix_def suffix_def by blast
  qed
  have "host_matches host (pre @ ''*'' @ suf) \<longleftrightarrow>
      prefix (str_lower pre) (str_lower host) \<and> suffix (str_lower suf) (str_lower host)"
    by (rule host_wildcard_spec [OF pre])
  moreover have "pattern_covers pattern host \<longleftrightarrow>
      prefix (str_lower pre) (str_lower host) \<and> suffix (str_lower suf) (str_lower host)"
  proof
    assume "pattern_covers pattern host"
    then consider "str_lower pattern = str_lower host"
      | a b where "pattern = a @ ''*'' @ b" "CHR ''*'' \<notin> set a" "prefix (str_lower a) (str_lower host)"
          "suffix (str_lower b) (str_lower host)"
      unfolding pattern_covers_def by blast
    then show "prefix (str_lower pre) (str_lower host) \<and> suffix (str_lower suf) (str_lower host)"
    proof cases
      case 1
      then show ?thesis by (rule self)
    next
      case (2 a b)
      then show ?thesis using uniq [OF 2(1,2)] by blast
    qed
  next
    assume "prefix (str_lower pre) (str_lower host) \<and> suffix (str_lower suf) (str_lower host)"
    then show "pattern_covers pattern host"
      unfolding pattern_covers_def using p pre
      by (intro disjI2 exI [of _ pre] exI [of _ suf]) simp
  qed
  ultimately show ?thesis using p by simp
next
  case False
  have none: "split_at (CHR ''*'') (str_lower pattern) = None" using False by (induction pattern) auto
  have "pattern \<noteq> ''*''" using False by auto
  then have "host_matches host pattern \<longleftrightarrow> pattern \<noteq> [] \<and> str_lower pattern = str_lower host"
    using none by (simp add: host_matches_def Let_def)
  moreover have "pattern \<noteq> pre @ ''*'' @ suf" for pre suf using False by auto
  ultimately show ?thesis unfolding pattern_covers_def by blast
qed

lemma target_matches_covers: "target_matches q t \<longleftrightarrow> target_covers t q"
  by (auto simp: target_matches_def target_covers_def host_matches_covers port_allowed_def in_set_conv_nth)

lemma find_governs: "find_friend_rule (ar_friend_pk q) e = Some r \<longleftrightarrow> governs r q e"
proof
  assume "find_friend_rule (ar_friend_pk q) e = Some r"
  then obtain i where i: "i < length (re_rules e)" "fr_friend_pk (re_rules e ! i) = str_upper (ar_friend_pk q)"
      "r = re_rules e ! i" "\<forall>j<i. fr_friend_pk (re_rules e ! j) \<noteq> str_upper (ar_friend_pk q)"
    by (auto simp: find_friend_rule_def find_Some_iff Let_def)
  have "re_rules e = take i (re_rules e) @ r # drop (Suc i) (re_rules e)"
    using i(1,3) by (simp add: id_take_nth_drop)
  moreover have "str_upper (ar_friend_pk q) \<notin> fr_friend_pk ` set (take i (re_rules e))"
    using i(4) by (fastforce simp: in_set_conv_nth)
  ultimately show "governs r q e" unfolding governs_def using i(2,3) by blast
next
  assume "governs r q e"
  then obtain xs ys where "re_rules e = xs @ r # ys" "fr_friend_pk r = str_upper (ar_friend_pk q)"
      "str_upper (ar_friend_pk q) \<notin> fr_friend_pk ` set xs"
    unfolding governs_def by blast
  moreover from this have "fr_friend_pk (xs ! j) \<noteq> str_upper (ar_friend_pk q)" if "j < length xs" for j
    using that nth_mem by (metis image_eqI)
  ultimately show "find_friend_rule (ar_friend_pk q) e = Some r"
    unfolding find_friend_rule_def Let_def find_Some_iff
    by (intro exI [of _ "length xs"]) (simp add: nth_append)
qed

text \<open>
  Claim C35: the decision is the one the rules describe. The first rule in the list whose key is the
  friend's key, ignoring case, governs a request. The request is denied exactly if a deny target of that
  rule covers it, allowed exactly if an allow target covers it and no deny target does, and left to the
  default policy exactly if no target of a governing rule covers it. A target covers a request if its
  host pattern does, being the host itself ignoring case or a prefix and a suffix of it around the
  first star, and its list of ports is empty or names the port.
\<close>

theorem evaluate_decision:
  "(evaluate q e = Denied \<longleftrightarrow> (\<exists>r. governs r q e \<and> (\<exists>t \<in> set (fr_deny r). target_covers t q)))
   \<and> (evaluate q e = Allowed \<longleftrightarrow>
        (\<exists>r. governs r q e \<and> (\<exists>t \<in> set (fr_allow r). target_covers t q)
           \<and> (\<forall>t \<in> set (fr_deny r). \<not> target_covers t q)))
   \<and> (evaluate q e = Default_policy \<longleftrightarrow>
        (\<forall>r. governs r q e \<longrightarrow> (\<forall>t \<in> set (fr_allow r) \<union> set (fr_deny r). \<not> target_covers t q)))"
  unfolding find_governs [symmetric] target_matches_covers [symmetric]
  by (auto simp: evaluate_def list_ex_iff split: option.splits)

lemma ex_governs: "governs (hd (re_rules ex_engine)) (ex_request ''ab'' ''db.CORP'') ex_engine"
  unfolding find_governs [symmetric]
proof -
  have "str_upper ''ab'' = ''AB''" by code_simp
  then show "find_friend_rule (ar_friend_pk (ex_request ''ab'' ''db.CORP'')) ex_engine = Some (hd (re_rules ex_engine))"
    by (simp add: find_friend_rule_def ex_engine_def new_engine_def ex_request_def)
qed

theorem evaluate_decision_witness: "evaluate (ex_request ''ab'' ''db.CORP'') ex_engine = Denied"
proof -
  have "str_lower ''db.CORP'' = ''db'' @ str_lower ''.corp''" by code_simp
  then have "suffix (str_lower ''.corp'') (str_lower ''db.CORP'')" by (metis suffixI)
  then have "pattern_covers (''*.corp'') (''db.CORP'')"
    unfolding pattern_covers_def by (intro disjI2 exI [of _ "[]"] exI [of _ "''.corp''"]) simp
  then have "\<exists>t \<in> set (fr_deny (hd (re_rules ex_engine))). target_covers t (ex_request ''ab'' ''db.CORP'')"
    by (simp add: ex_engine_def new_engine_def ex_request_def target_covers_def)
  then show ?thesis using evaluate_decision [of "ex_request ''ab'' ''db.CORP''" ex_engine] ex_governs by blast
qed

section \<open>Loading\<close>

definition canonical_rule :: "FriendRule \<Rightarrow> bool" where
  "canonical_rule r \<longleftrightarrow>
     length (fr_friend_pk r) = kPublicKeyHexLen \<and> str_upper (fr_friend_pk r) = fr_friend_pk r
     \<and> (\<exists>pk. parse_public_key (fr_friend_pk r) = Inr pk \<and> fr_friend_pk r = bytes_to_hex pk)
     \<and> (\<forall>t \<in> set (fr_allow r) \<union> set (fr_deny r). 0 \<notin> set (ts_ports t))"

lemma validate_rule_canonical: "validate_rule r = Inr r' \<Longrightarrow> canonical_rule r'"
proof -
  assume v: "validate_rule r = Inr r'"
  then obtain pk where pk: "parse_public_key (fr_friend_pk r) = Inr pk" and r': "r' = r\<lparr>fr_friend_pk := bytes_to_hex pk\<rparr>"
    and ports: "\<forall>t \<in> set (fr_allow r) \<union> set (fr_deny r). 0 \<notin> set (ts_ports t)"
    by (auto simp: validate_rule_def list_ex_iff split: if_splits sum.splits)
  note p = parse_public_key_SomeD [OF pk]
  have "parse_public_key (bytes_to_hex pk) = Inr pk" by (rule parse_public_key_hex [OF p(2)])
  moreover have "str_upper (bytes_to_hex pk) = bytes_to_hex pk" using p(3) by (simp add: comp_def)
  ultimately show ?thesis
    using ports p(2) by (auto simp: canonical_rule_def r' tox_sizes)
qed

lemma load_rules_canonical:
  "load_rules y ns e = Inr e' \<Longrightarrow> \<forall>r \<in> set (re_rules e). canonical_rule r \<Longrightarrow> \<forall>r \<in> set (re_rules e'). canonical_rule r"
  by (induction y ns e rule: load_rules.induct)
    (auto split: option.splits sum.splits dest: validate_rule_canonical)

text \<open>What a rules file that loads contains. Every rule of a loaded engine has a valid
  64-digit public key in the upper-case form the runtime produces and names no port 0, and its friend
  is found under that key written in any letter case.\<close>

theorem loaded_rules_canonical:
  assumes "from_node y n = Inr e" and "r \<in> set (re_rules e)" and "str_upper pk = fr_friend_pk r"
  shows "canonical_rule r \<and> has_rules_for_friend pk e"
proof -
  have "canonical_rule r"
    using assms(1,2) load_rules_canonical by (fastforce simp: from_node_def Let_def split: option.splits)
  moreover have "find (\<lambda>r. fr_friend_pk r = str_upper pk) (re_rules e) \<noteq> None"
    using assms(2,3) by (auto simp: find_None_iff)
  ultimately show ?thesis
    by (simp add: has_rules_for_friend_def find_friend_rule_def)
qed

definition ex_yaml :: "nat yaml_api" where
  "ex_yaml =
     \<lparr>y_is_map = (\<lambda>n. n = 1), y_is_seq = (\<lambda>n. n = 0),
      y_get = (\<lambda>n k. if n = 1 \<and> k = ''friend'' then Some 2 else None),
      y_elems = (\<lambda>n. if n = 0 then [1] else []),
      y_string = (\<lambda>n. if n = 2 then Some (bytes_to_hex (replicate 32 7)) else None),
      y_u16 = (\<lambda>_. None), y_u32 = (\<lambda>_. None), y_u64 = (\<lambda>_. None)\<rparr>"

definition ex_loaded :: RulesEngine where
  "ex_loaded = \<lparr>re_rules = [\<lparr>fr_friend_pk = bytes_to_hex (replicate 32 7), fr_allow = [], fr_deny = [],
                            fr_rate_limit = no_override\<rparr>], re_rate_limit_defaults = default_spec\<rparr>"

section \<open>Saving\<close>

text \<open>Saving forgets the rate limits. The emitted document depends only on the keys and the
  allow and deny targets: two rule sets that differ in their per-friend rate limits or in the
  defaults are saved as the same text.\<close>

theorem saving_forgets_rate_limits:
  assumes "map (\<lambda>r. (fr_friend_pk r, fr_allow r, fr_deny r)) (re_rules e)
           = map (\<lambda>r. (fr_friend_pk r, fr_allow r, fr_deny r)) (re_rules e')"
  shows "to_yaml e = to_yaml e'"
proof -
  define f where "f = (\<lambda>(pk, allow, deny). emit_rule \<lparr>fr_friend_pk = pk, fr_allow = allow, fr_deny = deny,
      fr_rate_limit = no_override\<rparr>)"
  have "emit_rule r = f (fr_friend_pk r, fr_allow r, fr_deny r)" for r
    by (simp add: f_def emit_rule_def)
  then have m: "map emit_rule (re_rules m) = map f (map (\<lambda>r. (fr_friend_pk r, fr_allow r, fr_deny r)) (re_rules m))" for m
    by simp
  show ?thesis
    by (simp only: to_yaml_def m assms)
qed

end
