(* ===== verification/Circular_Buffer.thy ===== *)
theory Circular_Buffer
  imports Prelude
begin

text \<open>
  The fixed-capacity ring buffer of \<open>include/toxtunnel/util/circular_buffer.hpp\<close>. Every public
  method runs under the object's mutex, so a sequence of calls is a sequence of these operations.
  The concrete state (storage vector, head, tail, count) is related to an abstract bounded queue by
  \<open>cb_list\<close>; the interface is the locale \<open>bounded_queue\<close>, interpreted on the ring buffer, and its
  client lemma says what a run of writes leaves in the buffer.
\<close>

section \<open>Model\<close>

record 'a CircularBuffer =
  cb_buffer :: "'a list"
  cb_capacity :: nat
  cb_head :: nat
  cb_tail :: nat
  cb_count :: nat

text \<open>\<open>dflt\<close> is the value-initialised element \<open>std::vector<T>(cap)\<close> is filled with.\<close>

definition cb_new :: "'a \<Rightarrow> nat \<Rightarrow> 'a CircularBuffer" where
  "cb_new dflt cap =
     \<lparr>cb_buffer = replicate cap dflt, cb_capacity = cap, cb_head = 0, cb_tail = 0, cb_count = 0\<rparr>"

definition cb_next :: "'a CircularBuffer \<Rightarrow> nat \<Rightarrow> nat" where
  "cb_next b idx = (idx + 1) mod cb_capacity b"

definition cb_write :: "'a \<Rightarrow> 'a CircularBuffer \<Rightarrow> 'a CircularBuffer" where
  "cb_write value b =
     (let b1 = b\<lparr>cb_buffer := (cb_buffer b)[cb_tail b := value]\<rparr>;
          b2 = b1\<lparr>cb_tail := cb_next b1 (cb_tail b1)\<rparr>
      in if cb_count b2 = cb_capacity b2 then b2\<lparr>cb_head := cb_tail b2\<rparr>
         else b2\<lparr>cb_count := cb_count b2 + 1\<rparr>)"

definition cb_read :: "'a CircularBuffer \<Rightarrow> 'a option \<times> 'a CircularBuffer" where
  "cb_read b =
     (if cb_count b = 0 then (None, b)
      else (Some (cb_buffer b ! cb_head b),
            b\<lparr>cb_head := cb_next b (cb_head b), cb_count := cb_count b - 1\<rparr>))"

definition cb_peek :: "'a CircularBuffer \<Rightarrow> 'a option" where
  "cb_peek b = (if cb_count b = 0 then None else Some (cb_buffer b ! cb_head b))"

definition cb_peek_at :: "nat \<Rightarrow> 'a CircularBuffer \<Rightarrow> 'a option" where
  "cb_peek_at index b =
     (if index \<ge> cb_count b then None
      else Some (cb_buffer b ! ((cb_head b + index) mod cb_capacity b)))"

definition cb_size :: "'a CircularBuffer \<Rightarrow> nat" where "cb_size b = cb_count b"
definition cb_empty :: "'a CircularBuffer \<Rightarrow> bool" where "cb_empty b \<longleftrightarrow> cb_count b = 0"
definition cb_full :: "'a CircularBuffer \<Rightarrow> bool" where "cb_full b \<longleftrightarrow> cb_count b = cb_capacity b"

definition cb_clear :: "'a CircularBuffer \<Rightarrow> 'a CircularBuffer" where
  "cb_clear b = b\<lparr>cb_head := 0, cb_tail := 0, cb_count := 0\<rparr>"

section \<open>Invariant and abstraction\<close>

definition cb_inv :: "'a CircularBuffer \<Rightarrow> bool" where
  "cb_inv b \<longleftrightarrow>
     0 < cb_capacity b \<and> length (cb_buffer b) = cb_capacity b \<and> cb_head b < cb_capacity b
     \<and> cb_count b \<le> cb_capacity b \<and> cb_tail b = (cb_head b + cb_count b) mod cb_capacity b"

definition cb_list :: "'a CircularBuffer \<Rightarrow> 'a list" where
  "cb_list b = map (\<lambda>i. cb_buffer b ! ((cb_head b + i) mod cb_capacity b)) [0..<cb_count b]"

definition last_n :: "nat \<Rightarrow> 'a list \<Rightarrow> 'a list" where
  "last_n n xs = drop (length xs - n) xs"

section \<open>The interface\<close>

locale bounded_queue =
  fixes put :: "'a \<Rightarrow> 'q \<Rightarrow> 'q"
    and get :: "'q \<Rightarrow> 'a option \<times> 'q"
    and contents :: "'q \<Rightarrow> 'a list"
    and cap :: "'q \<Rightarrow> nat"
    and inv :: "'q \<Rightarrow> bool"
  assumes put_contents: "inv q \<Longrightarrow> contents (put x q) = last_n (cap q) (contents q @ [x])"
    and put_cap: "cap (put x q) = cap q"
    and put_inv: "inv q \<Longrightarrow> inv (put x q)"
    and get_contents:
      "inv q \<Longrightarrow> get q = (r, q') \<Longrightarrow>
         (case contents q of [] \<Rightarrow> r = None \<and> q' = q
          | y # ys \<Rightarrow> r = Some y \<and> contents q' = ys)"
    and get_inv: "inv q \<Longrightarrow> get q = (r, q') \<Longrightarrow> inv q' \<and> cap q' = cap q"
    and bound: "inv q \<Longrightarrow> length (contents q) \<le> cap q"
    and cap_pos: "inv q \<Longrightarrow> 0 < cap q"
begin

definition put_all :: "'a list \<Rightarrow> 'q \<Rightarrow> 'q" where
  "put_all xs q = fold put xs q"

lemma put_all_contents:
  "inv q \<Longrightarrow> inv (put_all xs q) \<and> cap (put_all xs q) = cap q
      \<and> contents (put_all xs q) = last_n (cap q) (contents q @ xs)"
proof (induction xs arbitrary: q)
  case Nil
  then show ?case
    using bound by (simp add: put_all_def last_n_def)
next
  case (Cons x xs)
  have "last_n (cap q) (last_n (cap q) (contents q @ [x]) @ xs) = last_n (cap q) (contents q @ x # xs)"
    using bound [OF Cons.prems] cap_pos [OF Cons.prems]
    by (cases "length (contents q) < cap q") (auto simp: last_n_def drop_append)
  with Cons.IH [OF put_inv [OF Cons.prems]] show ?case
    by (simp add: put_all_def put_contents [OF Cons.prems] put_cap)
qed

fun drain :: "nat \<Rightarrow> 'q \<Rightarrow> 'a list \<times> 'q" where
  "drain 0 q = ([], q)"
| "drain (Suc n) q =
     (case get q of (None, q') \<Rightarrow> ([], q')
      | (Some x, q') \<Rightarrow> (case drain n q' of (xs, q'') \<Rightarrow> (x # xs, q'')))"

lemma drain_contents:
  "inv q \<Longrightarrow> fst (drain n q) = take n (contents q)"
proof (induction n arbitrary: q)
  case 0
  then show ?case by simp
next
  case (Suc n)
  obtain r q' where rd: "get q = (r, q')"
    by fastforce
  have "inv q'"
    using get_inv [OF Suc.prems rd] by simp
  then show ?case
    using get_contents [OF Suc.prems rd] Suc.IH [of q'] rd
    by (auto split: list.splits prod.splits)
qed

end

section \<open>The ring buffer implements it\<close>

lemma cb_inv_new: "0 < cap \<Longrightarrow> cb_inv (cb_new d cap)"
  by (simp add: cb_inv_def cb_new_def)

lemma cb_list_new: "cb_list (cb_new d cap) = []"
  by (simp add: cb_list_def cb_new_def)

lemma length_cb_list [simp]: "length (cb_list b) = cb_count b"
  by (simp add: cb_list_def)

lemma cb_inv_clear: "cb_inv b \<Longrightarrow> cb_inv (cb_clear b)"
  by (simp add: cb_inv_def cb_clear_def)

lemma cb_list_clear: "cb_list (cb_clear b) = []"
  by (simp add: cb_list_def cb_clear_def)

lemma ring_mod:
  fixes h i c :: nat
  assumes "h < c" "i \<le> c"
  shows "(h + i) mod c = (if h + i < c then h + i else h + i - c)"
  using assms by (auto simp: le_mod_geq)

lemma ring_index_eq_iff:
  fixes h i j c :: nat
  assumes "h < c" "i < c" "j < c"
  shows "(h + i) mod c = (h + j) mod c \<longleftrightarrow> i = j"
  using assms by (auto simp: ring_mod)

lemma cb_write_simps:
  "cb_capacity (cb_write x b) = cb_capacity b"
  "cb_buffer (cb_write x b) = (cb_buffer b)[cb_tail b := x]"
  "cb_tail (cb_write x b) = (cb_tail b + 1) mod cb_capacity b"
  "cb_count (cb_write x b) = (if cb_count b = cb_capacity b then cb_count b else cb_count b + 1)"
  "cb_head (cb_write x b) =
     (if cb_count b = cb_capacity b then (cb_tail b + 1) mod cb_capacity b else cb_head b)"
  by (simp_all add: cb_write_def Let_def cb_next_def)

lemma ring_wrap [simp]: "Suc (h + c) mod c = Suc h mod c"
  by (metis add_Suc mod_add_self2)

lemma cb_inv_write: "cb_inv b \<Longrightarrow> cb_inv (cb_write x b)"
  by (auto simp: cb_inv_def cb_write_simps mod_Suc_eq)

lemma cb_list_write:
  assumes inv: "cb_inv b"
  shows "cb_list (cb_write x b) = last_n (cb_capacity b) (cb_list b @ [x])"
proof -
  let ?c = "cb_capacity b" and ?h = "cb_head b" and ?n = "cb_count b"
  have h: "?h < ?c" and n: "?n \<le> ?c" and t: "cb_tail b = (?h + ?n) mod ?c"
    and len: "length (cb_buffer b) = ?c"
    using inv by (auto simp: cb_inv_def)
  have tail: "cb_tail b < ?c" using h t by simp
  show ?thesis
  proof (cases "?n = ?c")
    case True
    have tl: "cb_tail b = ?h" using True t h by simp
    have "((?h + 1) mod ?c + i) mod ?c = (?h + Suc i) mod ?c" for i
      by (simp add: mod_add_left_eq)
    then have "cb_list (cb_write x b) =
        map (\<lambda>i. (cb_buffer b)[?h := x] ! ((?h + Suc i) mod ?c)) [0..<?c]"
      using True tl by (simp add: cb_list_def cb_write_simps)
    also have "\<dots> = map (\<lambda>i. cb_buffer b ! ((?h + Suc i) mod ?c)) [0..<?c - 1] @ [x]"
    proof -
      have "[0..<?c] = [0..<?c - 1] @ [?c - 1]"
        using h by (metis Suc_pred' upt_Suc_append gr_zeroI less_nat_zero_code zero_le)
      moreover have "?h \<noteq> Suc (?h + i) mod ?c" if "i < ?c - 1" for i
        using that h ring_index_eq_iff [of ?h ?c "Suc i" 0] by force
      moreover have "(?h + Suc (?c - 1)) mod ?c = ?h"
        using h by simp
      ultimately show ?thesis
        using len h by auto
    qed
    also have "\<dots> = last_n ?c (cb_list b @ [x])"
      using True h by (auto simp: last_n_def cb_list_def drop_map drop_upt intro!: nth_equalityI)
    finally show ?thesis .
  next
    case False
    then have lt: "?n < ?c" using n by simp
    have "cb_tail b \<noteq> (?h + i) mod ?c" if "i < ?n" for i
      using that lt h t ring_index_eq_iff [of ?h ?c i ?n] by force
    then have "cb_list (cb_write x b) = cb_list b @ [x]"
      using False t tail len by (auto simp: cb_list_def cb_write_simps)
    then show ?thesis
      using lt by (simp add: last_n_def)
  qed
qed

lemma cb_inv_read: "cb_inv b \<Longrightarrow> cb_read b = (r, b') \<Longrightarrow> cb_inv b' \<and> cb_capacity b' = cb_capacity b"
  by (cases "cb_count b") (auto simp: cb_inv_def cb_read_def cb_next_def mod_simps)

lemma cb_list_read:
  assumes "cb_inv b" and rd: "cb_read b = (r, b')"
  shows "case cb_list b of [] \<Rightarrow> r = None \<and> b' = b | y # ys \<Rightarrow> r = Some y \<and> cb_list b' = ys"
proof (cases "cb_count b")
  case 0
  then show ?thesis using rd by (simp add: cb_list_def cb_read_def)
next
  case (Suc n)
  have "cb_list b = cb_buffer b ! (cb_head b mod cb_capacity b)
      # map (\<lambda>i. cb_buffer b ! ((cb_head b + Suc i) mod cb_capacity b)) [0..<n]"
    by (simp add: cb_list_def Suc upt_conv_Cons map_Suc_upt [symmetric] comp_def
        del: upt_Suc map_Suc_upt)
  moreover have "cb_list b' = map (\<lambda>i. cb_buffer b ! ((cb_head b + Suc i) mod cb_capacity b)) [0..<n]"
    using rd Suc by (auto simp: cb_read_def cb_list_def cb_next_def mod_simps)
  ultimately show ?thesis
    using rd Suc assms(1) by (auto simp: cb_read_def cb_inv_def)
qed

interpretation ring: bounded_queue cb_write cb_read cb_list cb_capacity cb_inv
proof unfold_locales
  fix q r q'
  assume inv: "cb_inv q" and rd: "cb_read q = (r, q')"
  show "case cb_list q of [] \<Rightarrow> r = None \<and> q' = q | y # ys \<Rightarrow> r = Some y \<and> cb_list q' = ys"
    by (rule cb_list_read [OF inv rd])
  show "cb_inv q' \<and> cb_capacity q' = cb_capacity q"
    by (rule cb_inv_read [OF inv rd])
qed (simp_all add: cb_list_write cb_write_simps cb_inv_write, simp_all add: cb_inv_def)

section \<open>Properties\<close>

text \<open>
  A ring buffer of capacity \<open>cap\<close> behaves as a bounded first-in first-out queue that
  forgets its oldest elements. After any sequence of writes, reading the buffer out yields the
  last \<open>cap\<close> values written, oldest first, and nothing else.
\<close>

theorem cb_write_then_drain:
  assumes "0 < cap"
  shows "fst (ring.drain cap (ring.put_all xs (cb_new d cap))) = drop (length xs - cap) xs
         \<and> cb_size (ring.put_all xs (cb_new d cap)) = min (length xs) cap"
proof -
  let ?b = "ring.put_all xs (cb_new d cap)"
  have c: "cb_capacity (cb_new d cap) = cap"
    by (simp add: cb_new_def)
  have b: "cb_inv ?b" "cb_list ?b = last_n cap xs"
    using ring.put_all_contents [OF cb_inv_new [OF assms, of d], of xs]
    by (simp_all add: cb_list_new c)
  have "cb_size ?b = length (cb_list ?b)"
    by (simp add: cb_size_def)
  then show ?thesis
    using ring.drain_contents [OF b(1), of cap] b(2) by (auto simp: last_n_def)
qed

text \<open>
  \<open>peek(index)\<close> returns the element \<open>index\<close> places behind the oldest and nothing when there
  are not that many; \<open>peek()\<close> is \<open>peek(0)\<close> and agrees with the next \<open>read()\<close>.
\<close>

theorem cb_peek_spec:
  assumes "cb_inv b"
  shows "cb_peek_at i b = (if i < length (cb_list b) then Some (cb_list b ! i) else None)
         \<and> cb_peek b = cb_peek_at 0 b \<and> cb_peek b = fst (cb_read b)"
  using assms by (auto simp: cb_peek_at_def cb_peek_def cb_read_def cb_list_def cb_inv_def)

end
