(* ===== verification/Tunnel_Id_Allocator.thy ===== *)
theory Tunnel_Id_Allocator
  imports Prelude
begin

text \<open>
  The per-friend allocator of 16-bit tunnel identifiers,
  \<open>include/toxtunnel/tunnel/tunnel_id_allocator.hpp\<close>: a 65536-bit set of used identifiers, a roving
  cursor and a counter. The lemmas show the class invariant, that \<open>allocate\<close> finds a free identifier
  whenever there is one (its loop visits all 65535 candidates), never hands out an identifier in
  use or the reserved identifier 0, and what \<open>release\<close> and \<open>reserve\<close> do to the pool.
\<close>

section \<open>Model\<close>

record TunnelIdAllocator =
  al_used :: "u16 \<Rightarrow> bool"
  al_cursor :: u16
  al_in_use :: nat

definition kMaxId :: u16 where "kMaxId = 65535"
definition kReserved :: u16 where "kReserved = 0"

definition al_new :: TunnelIdAllocator where
  "al_new = \<lparr>al_used = (\<lambda>_. False)(kReserved := True), al_cursor = 1, al_in_use = 0\<rparr>"

definition cursor_next :: "u16 \<Rightarrow> u16" where
  "cursor_next c = (if c = kMaxId then 1 else c + 1)"

text \<open>The loop of \<open>allocate\<close>, by the number of iterations left.\<close>

fun allocate_loop :: "nat \<Rightarrow> TunnelIdAllocator \<Rightarrow> u16 \<times> TunnelIdAllocator" where
  "allocate_loop 0 a = (0, a)"
| "allocate_loop (Suc n) a =
     (let candidate = al_cursor a;
          a1 = a\<lparr>al_cursor := cursor_next (al_cursor a)\<rparr>
      in if candidate = kReserved then allocate_loop n a1
         else if \<not> al_used a1 candidate
         then (candidate, a1\<lparr>al_used := (al_used a1)(candidate := True), al_in_use := al_in_use a1 + 1\<rparr>)
         else allocate_loop n a1)"

definition allocate :: "TunnelIdAllocator \<Rightarrow> u16 \<times> TunnelIdAllocator" where
  "allocate a = allocate_loop (unat kMaxId) a"

definition release :: "u16 \<Rightarrow> TunnelIdAllocator \<Rightarrow> TunnelIdAllocator" where
  "release i a =
     (if i = kReserved then a
      else if al_used a i
      then a\<lparr>al_used := (al_used a)(i := False), al_in_use := al_in_use a - 1\<rparr> else a)"

definition reserve :: "u16 \<Rightarrow> TunnelIdAllocator \<Rightarrow> bool \<times> TunnelIdAllocator" where
  "reserve i a =
     (if i = kReserved then (False, a)
      else if al_used a i then (False, a)
      else (True, a\<lparr>al_used := (al_used a)(i := True), al_in_use := al_in_use a + 1\<rparr>))"

definition in_use :: "u16 \<Rightarrow> TunnelIdAllocator \<Rightarrow> bool" where
  "in_use i a = al_used a i"

definition in_use_count :: "TunnelIdAllocator \<Rightarrow> nat" where
  "in_use_count a = al_in_use a"

section \<open>Invariant\<close>

definition allocated :: "TunnelIdAllocator \<Rightarrow> u16 set" where
  "allocated a = {i. i \<noteq> 0 \<and> al_used a i}"

definition al_inv :: "TunnelIdAllocator \<Rightarrow> bool" where
  "al_inv a \<longleftrightarrow> al_used a 0 \<and> al_cursor a \<noteq> 0 \<and> al_in_use a = card (allocated a)"

text \<open>The contract of an identifier pool, as the tunnel layer uses it.\<close>

locale id_pool =
  fixes ids :: "'p \<Rightarrow> 'i set"
    and inv :: "'p \<Rightarrow> bool"
    and valid :: "'i \<Rightarrow> bool"
    and take_fresh :: "'p \<Rightarrow> 'i \<times> 'p"
    and take_this :: "'i \<Rightarrow> 'p \<Rightarrow> bool \<times> 'p"
    and give_back :: "'i \<Rightarrow> 'p \<Rightarrow> 'p"
  assumes fresh: "inv p \<Longrightarrow> take_fresh p = (i, p') \<Longrightarrow> valid i \<Longrightarrow>
      i \<notin> ids p \<and> ids p' = insert i (ids p)"
    and fresh_fails: "inv p \<Longrightarrow> take_fresh p = (i, p') \<Longrightarrow> \<not> valid i \<Longrightarrow> ids p' = ids p"
    and fresh_inv: "inv p \<Longrightarrow> take_fresh p = (i, p') \<Longrightarrow> inv p'"
    and this_ids: "inv p \<Longrightarrow> take_this i p = (ok, p') \<Longrightarrow>
      (ok \<longleftrightarrow> valid i \<and> i \<notin> ids p) \<and> ids p' = (if ok then insert i (ids p) else ids p)"
    and this_inv: "inv p \<Longrightarrow> take_this i p = (ok, p') \<Longrightarrow> inv p'"
    and back_ids: "inv p \<Longrightarrow> ids (give_back i p) = ids p - {i}"
    and back_inv: "inv p \<Longrightarrow> inv (give_back i p)"
begin

text \<open>Taking \<open>n\<close> fresh identifiers in a row.\<close>

fun take_many :: "nat \<Rightarrow> 'p \<Rightarrow> 'i list \<times> 'p" where
  "take_many 0 p = ([], p)"
| "take_many (Suc n) p =
     (case take_fresh p of (i, p1) \<Rightarrow> (case take_many n p1 of (is, p2) \<Rightarrow> (i # is, p2)))"

lemma take_many_ids:
  "inv p \<Longrightarrow> take_many n p = (is, p') \<Longrightarrow> \<forall>i \<in> set is. valid i \<Longrightarrow>
     inv p' \<and> distinct is \<and> set is \<inter> ids p = {} \<and> ids p' = set is \<union> ids p"
proof (induction n arbitrary: p "is")
  case 0
  then show ?case by simp
next
  case (Suc n)
  obtain i p1 where f: "take_fresh p = (i, p1)"
    by fastforce
  obtain js where m: "take_many n p1 = (js, p')" and is_eq: "is = i # js"
    using Suc.prems(2) f by (auto split: prod.splits)
  have v: "valid i" "\<forall>j \<in> set js. valid j"
    using Suc.prems(3) is_eq by auto
  have i: "i \<notin> ids p" "ids p1 = insert i (ids p)"
    using fresh [OF Suc.prems(1) f v(1)] by auto
  have "inv p' \<and> distinct js \<and> set js \<inter> ids p1 = {} \<and> ids p' = set js \<union> ids p1"
    by (rule Suc.IH [OF fresh_inv [OF Suc.prems(1) f] m v(2)])
  then show ?case
    using i is_eq by auto
qed

end

section \<open>The cursor visits every identifier\<close>

lemma unat_cursor_next:
  assumes "c \<noteq> 0"
  shows "unat (cursor_next c) = unat c mod 65535 + 1 \<and> cursor_next c \<noteq> 0"
proof (cases "c = kMaxId")
  case True
  then show ?thesis by (simp add: cursor_next_def kMaxId_def)
next
  case False
  then have ne: "c \<noteq> 65535" by (simp add: kMaxId_def)
  then have lt: "unat c < 65535"
    using unat_u16_le [of c] by (auto simp: word_unat_eq_iff intro: le_neq_implies_less)
  then have "unat (c + 1) = unat c + 1"
    by (simp add: unat_word_ariths)
  with lt False show ?thesis
    by (auto simp: cursor_next_def unat_eq_zero)
qed

lemma unat_cursor_iterate:
  assumes "c \<noteq> 0"
  shows "unat ((cursor_next ^^ k) c) = (unat c - 1 + k) mod 65535 + 1 \<and> (cursor_next ^^ k) c \<noteq> 0"
proof (induction k)
  case 0
  have "0 < unat c" "unat c \<le> 65535"
    using assms unat_u16_le by (auto simp: unat_gt_0)
  then show ?case using assms by simp
next
  case (Suc k)
  then show ?case
    using unat_cursor_next [of "(cursor_next ^^ k) c"] by (simp add: mod_simps)
qed

lemma cursor_reaches:
  assumes "c \<noteq> 0" "t \<noteq> 0"
  shows "\<exists>k < 65535. (cursor_next ^^ k) c = t"
proof -
  let ?k = "(unat t + 65535 - unat c) mod 65535"
  have bounds: "0 < unat c" "unat c \<le> 65535" "0 < unat t" "unat t \<le> 65535"
    using assms unat_u16_le by (auto simp: unat_gt_0)
  have "(unat c - 1 + ?k) mod 65535 = (unat c - 1 + (unat t + 65535 - unat c)) mod 65535"
    by (simp add: mod_simps)
  also have "unat c - 1 + (unat t + 65535 - unat c) = 65535 + (unat t - 1)"
    using bounds by linarith
  also have "(65535 + (unat t - 1)) mod 65535 = unat t - 1"
    using bounds by (subst mod_add_self1) simp
  finally have "(unat c - 1 + ?k) mod 65535 = unat t - 1" .
  then have "unat ((cursor_next ^^ ?k) c) = unat t"
    using unat_cursor_iterate [OF assms(1), of ?k] bounds by simp
  then have "(cursor_next ^^ ?k) c = t"
    by (simp add: word_unat_eq_iff)
  moreover have "?k < 65535" by simp
  ultimately show ?thesis by blast
qed

section \<open>Allocation\<close>

lemma allocate_loop_spec:
  assumes "al_cursor a \<noteq> 0" and "allocate_loop n a = (i, a')"
  shows "al_cursor a' \<noteq> 0
         \<and> (if i = 0 then al_used a' = al_used a \<and> al_in_use a' = al_in_use a
                         \<and> (\<forall>k < n. al_used a ((cursor_next ^^ k) (al_cursor a)))
            else \<not> al_used a i \<and> al_used a' = (al_used a)(i := True)
                 \<and> al_in_use a' = al_in_use a + 1)"
  using assms
proof (induction n arbitrary: a)
  case 0
  then show ?case by simp
next
  case (Suc n)
  let ?a1 = "a\<lparr>al_cursor := cursor_next (al_cursor a)\<rparr>"
  have c1: "al_cursor ?a1 \<noteq> 0"
    using unat_cursor_next [OF Suc.prems(1)] by simp
  show ?case
  proof (cases "al_used a (al_cursor a)")
    case False
    then show ?thesis
      using Suc.prems c1 by (auto simp: Let_def kReserved_def)
  next
    case True
    have "allocate_loop n ?a1 = (i, a')"
      using True Suc.prems by (simp add: Let_def kReserved_def)
    from Suc.IH [OF c1 this] show ?thesis
      using True by (auto simp: less_Suc_eq_0_disj funpow_swap1)
  qed
qed

lemma allocated_upd:
  "i \<noteq> 0 \<Longrightarrow> al_used a' = (al_used a)(i := True) \<Longrightarrow> allocated a' = insert i (allocated a)"
  "i \<noteq> 0 \<Longrightarrow> al_used a' = (al_used a)(i := False) \<Longrightarrow> allocated a' = allocated a - {i}"
  by (auto simp: allocated_def)

lemma al_inv_new: "al_inv al_new"
  by (simp add: al_inv_def al_new_def allocated_def kReserved_def)

lemma allocate_spec:
  assumes inv: "al_inv a" and al: "allocate a = (i, a')"
  shows "al_inv a'
         \<and> (i \<noteq> 0 \<longrightarrow> i \<notin> allocated a \<and> allocated a' = insert i (allocated a))
         \<and> (i = 0 \<longrightarrow> allocated a' = allocated a \<and> allocated a = {j. j \<noteq> 0})"
proof -
  have cur: "al_cursor a \<noteq> 0" and u0: "al_used a 0" and cnt: "al_in_use a = card (allocated a)"
    using inv by (auto simp: al_inv_def)
  have spec: "al_cursor a' \<noteq> 0
      \<and> (if i = 0 then al_used a' = al_used a \<and> al_in_use a' = al_in_use a
                      \<and> (\<forall>k < 65535. al_used a ((cursor_next ^^ k) (al_cursor a)))
         else \<not> al_used a i \<and> al_used a' = (al_used a)(i := True) \<and> al_in_use a' = al_in_use a + 1)"
    using allocate_loop_spec [OF cur, of "unat kMaxId" i a'] al
    by (simp add: allocate_def kMaxId_def)
  show ?thesis
  proof (cases "i = 0")
    case True
    then have "allocated a = {j. j \<noteq> 0}"
      using spec cursor_reaches [OF cur] by (fastforce simp: allocated_def)
    then show ?thesis
      using True spec u0 cnt by (auto simp: al_inv_def allocated_def)
  next
    case False
    then have new: "allocated a' = insert i (allocated a)" "i \<notin> allocated a"
      using spec allocated_upd(1) [of i a' a] by (auto simp: allocated_def)
    moreover have "finite (allocated a)"
      by simp
    ultimately show ?thesis
      using False spec u0 cnt by (auto simp: al_inv_def)
  qed
qed

lemma reserve_spec:
  assumes inv: "al_inv a" and r: "reserve i a = (ok, a')"
  shows "al_inv a' \<and> (ok \<longleftrightarrow> i \<noteq> 0 \<and> i \<notin> allocated a)
         \<and> allocated a' = (if ok then insert i (allocated a) else allocated a)"
proof (cases "ok")
  case True
  then have i: "i \<noteq> 0" "\<not> al_used a i" and a': "a' = a\<lparr>al_used := (al_used a)(i := True), al_in_use := al_in_use a + 1\<rparr>"
    using r by (auto simp: reserve_def kReserved_def split: if_splits)
  have "allocated a' = insert i (allocated a)" "i \<notin> allocated a"
    using i a' allocated_upd(1) [of i a' a] by (auto simp: allocated_def)
  then show ?thesis
    using True i a' inv by (auto simp: al_inv_def)
next
  case False
  then show ?thesis
    using r inv by (auto simp: reserve_def kReserved_def allocated_def split: if_splits)
qed

lemma release_spec:
  assumes inv: "al_inv a"
  shows "al_inv (release i a) \<and> allocated (release i a) = allocated a - {i}"
proof (cases "i \<noteq> 0 \<and> al_used a i")
  case True
  then have "allocated (release i a) = allocated a - {i}" "i \<in> allocated a"
    using allocated_upd(2) [of i "release i a" a] by (auto simp: allocated_def release_def kReserved_def)
  then show ?thesis
    using True inv by (auto simp: al_inv_def release_def kReserved_def)
next
  case False
  then show ?thesis
    using inv by (auto simp: release_def kReserved_def allocated_def)
qed

interpretation tunnel_ids: id_pool allocated al_inv "\<lambda>i. i \<noteq> 0" allocate reserve release
proof unfold_locales
  fix p i p' ok
  assume inv: "al_inv p"
  show "allocated (release i p) = allocated p - {i}" "al_inv (release i p)"
    using release_spec [OF inv] by auto
  {
    assume al: "allocate p = (i, p')"
    show "al_inv p'"
      using allocate_spec [OF inv al] by simp
    show "i \<notin> allocated p \<and> allocated p' = insert i (allocated p)" if "i \<noteq> 0"
      using allocate_spec [OF inv al] that by simp
    show "allocated p' = allocated p" if "\<not> i \<noteq> 0"
      using allocate_spec [OF inv al] that by simp
  }
  {
    assume r: "reserve i p = (ok, p')"
    show "al_inv p'"
      using reserve_spec [OF inv r] by simp
    show "(ok \<longleftrightarrow> i \<noteq> 0 \<and> i \<notin> allocated p) \<and> allocated p' = (if ok then insert i (allocated p) else allocated p)"
      using reserve_spec [OF inv r] by simp
  }
qed

section \<open>Properties\<close>

text \<open>
  \<open>allocate\<close> is complete and safe. On a well-formed allocator it returns 0 only when all
  65535 usable identifiers are taken, and then changes nothing; otherwise it returns a non-zero
  identifier that was free, marks exactly that one as used and counts it.
\<close>

theorem allocate_complete_and_fresh:
  assumes "al_inv a" and "allocate a = (i, a')"
  shows "(i = 0 \<longleftrightarrow> allocated a = {j. j \<noteq> 0})
         \<and> (i = 0 \<longrightarrow> allocated a' = allocated a)
         \<and> (i \<noteq> 0 \<longrightarrow> \<not> in_use i a \<and> allocated a' = insert i (allocated a)
                      \<and> in_use_count a' = in_use_count a + 1)
         \<and> al_inv a'"
proof -
  note spec = allocate_spec [OF assms]
  have "allocated a \<noteq> {j. j \<noteq> 0}" if "i \<noteq> 0"
    using spec that by auto
  moreover have "in_use_count a' = in_use_count a + 1" if "i \<noteq> 0"
  proof -
    have "card (allocated a') = Suc (card (allocated a))"
      using spec that by simp
    then show ?thesis
      using spec assms(1) by (simp add: al_inv_def in_use_count_def)
  qed
  ultimately show ?thesis
    using spec by (auto simp: in_use_def allocated_def)
qed

lemma allocate_new: "allocate al_new = (1, snd (allocate al_new))"
proof -
  have m: "unat kMaxId = Suc 65534"
    by (simp add: kMaxId_def)
  show ?thesis
    unfolding allocate_def m allocate_loop.simps by (simp add: al_new_def Let_def kReserved_def)
qed

text \<open>
  Identifiers handed out in a row are pairwise different and different from every
  identifier already in use; \<open>reserve\<close> succeeds exactly on a free non-zero identifier, and \<open>release\<close>
  makes exactly its argument free again.
\<close>

theorem id_pool_contract:
  assumes "al_inv a" and "tunnel_ids.take_many n a = (is, a')" and "\<forall>i \<in> set is. i \<noteq> 0"
  shows "distinct is \<and> set is \<inter> allocated a = {} \<and> allocated a' = set is \<union> allocated a
         \<and> fst (reserve j a') = (j \<noteq> 0 \<and> j \<notin> set is \<union> allocated a)
         \<and> allocated (release j a') = (set is \<union> allocated a) - {j}"
proof -
  have many: "al_inv a' \<and> distinct is \<and> set is \<inter> allocated a = {} \<and> allocated a' = set is \<union> allocated a"
    by (rule tunnel_ids.take_many_ids [OF assms])
  then show ?thesis
    using reserve_spec [of a' j "fst (reserve j a')" "snd (reserve j a')"] release_spec [of a' j] by simp
qed

end
