(* ===== verification/Protocol.thy ===== *)
theory Protocol
  imports Prelude
begin

text \<open>
  The binary wire protocol of \<open>src/tunnel/protocol.cpp\<close> and
  \<open>include/toxtunnel/tunnel/protocol.hpp\<close>: byte-order helpers, the frame record, the factory
  methods, \<open>serialize\<close> / \<open>deserialize\<close> and the typed payload accessors, with the single-allocation
  outbound buffer \<open>OwnedFrameBuffer\<close> of \<open>owned_frame_buffer.hpp\<close>.
  The lemmas show that every frame survives the wire (up to the 65535-byte length field), that
  \<open>deserialize\<close> fails exactly on truncated input, that every typed payload is recovered by its
  accessor, and that the in-place serialisation of DATA produces the same bytes as the generic one.
\<close>

section \<open>Constants and enums\<close>

definition kFrameHeaderSize :: nat where "kFrameHeaderSize = 5"
definition kMaxPayloadSize :: nat where "kMaxPayloadSize = 65535"
definition kLosslessPacketByte :: byte where "kLosslessPacketByte = 0xA0"
definition kFrameHeaderReserved :: nat where "kFrameHeaderReserved = 6"

datatype FrameType =
    FT_Unknown | TUNNEL_OPEN | TUNNEL_DATA | TUNNEL_CLOSE | TUNNEL_ACK | TUNNEL_ERROR
  | INFO_REQUEST | INFO_REPLY | TUNNEL_RESUME_REQUEST | TUNNEL_RESUME_ACK | PING | PONG

text \<open>The underlying value of the enumerator, \<open>static_cast<uint8_t>(type)\<close>.\<close>

fun frame_type_code :: "FrameType \<Rightarrow> byte" where
  "frame_type_code FT_Unknown = 0x00"
| "frame_type_code TUNNEL_OPEN = 0x01"
| "frame_type_code TUNNEL_DATA = 0x02"
| "frame_type_code TUNNEL_CLOSE = 0x03"
| "frame_type_code TUNNEL_ACK = 0x04"
| "frame_type_code TUNNEL_ERROR = 0x05"
| "frame_type_code INFO_REQUEST = 0x06"
| "frame_type_code INFO_REPLY = 0x07"
| "frame_type_code TUNNEL_RESUME_REQUEST = 0x08"
| "frame_type_code TUNNEL_RESUME_ACK = 0x09"
| "frame_type_code PING = 0x10"
| "frame_type_code PONG = 0x11"

datatype TunnelResumeStatus =
  RS_Ok | RS_TargetUnreachable | RS_RulesDenied | RS_TooOld | RS_Unknown

fun resume_status_code :: "TunnelResumeStatus \<Rightarrow> byte" where
  "resume_status_code RS_Ok = 0"
| "resume_status_code RS_TargetUnreachable = 1"
| "resume_status_code RS_RulesDenied = 2"
| "resume_status_code RS_TooOld = 3"
| "resume_status_code RS_Unknown = 4"

section \<open>Payload structs and the frame\<close>

record TunnelResumeRequestPayload =
  rr_prior_tunnel_id :: u16
  rr_last_local_recv_offset :: u64
  rr_last_local_send_offset :: u64
  rr_host :: string
  rr_target_port :: u16

record TunnelResumeAckPayload =
  ra_new_tunnel_id :: u16
  ra_server_recv_offset :: u64
  ra_server_send_offset :: u64
  ra_status :: TunnelResumeStatus

record TunnelOpenPayload =
  op_host :: string
  op_port :: u16

record TunnelAckPayload =
  ack_bytes_acked :: u32

record TunnelErrorPayload =
  err_code :: byte
  err_description :: string

text \<open>
  \<open>payload_shared_\<close> is the optional shared buffer that \<open>deserialize\<close> fills for DATA frames;
  a \<open>None\<close> is the null pointer.
\<close>

record ProtocolFrame =
  fr_type :: FrameType
  fr_tunnel_id :: u16
  fr_payload :: "byte list"
  fr_payload_shared :: "byte list option"

datatype errc = message_size

definition new_frame :: "FrameType \<Rightarrow> u16 \<Rightarrow> ProtocolFrame" where
  "new_frame t i = \<lparr>fr_type = t, fr_tunnel_id = i, fr_payload = [], fr_payload_shared = None\<rparr>"

definition payload_view :: "ProtocolFrame \<Rightarrow> byte list" where
  "payload_view f = (case fr_payload_shared f of Some p \<Rightarrow> p | None \<Rightarrow> fr_payload f)"

definition payload_size :: "ProtocolFrame \<Rightarrow> nat" where
  "payload_size f = (case fr_payload_shared f of Some p \<Rightarrow> length p | None \<Rightarrow> length (fr_payload f))"

definition serialized_size :: "ProtocolFrame \<Rightarrow> nat" where
  "serialized_size f = kFrameHeaderSize + payload_size f"

section \<open>Byte-order helpers\<close>

definition write_u16_be :: "u16 \<Rightarrow> byte list" where
  "write_u16_be value = [ucast (drop_bit 8 value AND 0xFF), ucast (value AND 0xFF)]"

definition read_u16_be :: "byte list \<Rightarrow> u16" where
  "read_u16_be src = push_bit 8 (ucast (src ! 0)) OR ucast (src ! 1)"

definition write_u32_be :: "u32 \<Rightarrow> byte list" where
  "write_u32_be value =
     [ucast (drop_bit 24 value AND 0xFF), ucast (drop_bit 16 value AND 0xFF),
      ucast (drop_bit 8 value AND 0xFF), ucast (value AND 0xFF)]"

definition read_u32_be :: "byte list \<Rightarrow> u32" where
  "read_u32_be src =
     push_bit 24 (ucast (src ! 0)) OR push_bit 16 (ucast (src ! 1)) OR
     push_bit 8 (ucast (src ! 2)) OR ucast (src ! 3)"

definition write_u64_be :: "u64 \<Rightarrow> byte list" where
  "write_u64_be value = map (\<lambda>i. ucast (drop_bit (56 - 8 * i) value AND 0xFF)) [0..<8]"

definition read_u64_be :: "byte list \<Rightarrow> u64" where
  "read_u64_be src = foldl (\<lambda>value i. push_bit 8 value OR ucast (src ! i)) 0 [0..<8]"

text \<open>
  \<open>is_valid_frame_type\<close> is a switch over \<open>static_cast<FrameType>(raw)\<close>; \<open>frame_type_of_byte\<close> is
  that cast where the value names an enumerator.
\<close>

definition is_valid_frame_type :: "byte \<Rightarrow> bool" where
  "is_valid_frame_type raw \<longleftrightarrow>
     raw \<in> {0x01, 0x02, 0x03, 0x04, 0x05, 0x06, 0x07, 0x08, 0x09, 0x10, 0x11}"

definition frame_type_of_byte :: "byte \<Rightarrow> FrameType" where
  "frame_type_of_byte raw =
     (if raw = 0x01 then TUNNEL_OPEN else if raw = 0x02 then TUNNEL_DATA
      else if raw = 0x03 then TUNNEL_CLOSE else if raw = 0x04 then TUNNEL_ACK
      else if raw = 0x05 then TUNNEL_ERROR else if raw = 0x06 then INFO_REQUEST
      else if raw = 0x07 then INFO_REPLY else if raw = 0x08 then TUNNEL_RESUME_REQUEST
      else if raw = 0x09 then TUNNEL_RESUME_ACK else if raw = 0x10 then PING
      else if raw = 0x11 then PONG else FT_Unknown)"

fun frame_type_to_string :: "FrameType \<Rightarrow> string" where
  "frame_type_to_string TUNNEL_OPEN = ''TUNNEL_OPEN''"
| "frame_type_to_string TUNNEL_DATA = ''TUNNEL_DATA''"
| "frame_type_to_string TUNNEL_CLOSE = ''TUNNEL_CLOSE''"
| "frame_type_to_string TUNNEL_ACK = ''TUNNEL_ACK''"
| "frame_type_to_string TUNNEL_ERROR = ''TUNNEL_ERROR''"
| "frame_type_to_string INFO_REQUEST = ''INFO_REQUEST''"
| "frame_type_to_string INFO_REPLY = ''INFO_REPLY''"
| "frame_type_to_string TUNNEL_RESUME_REQUEST = ''TUNNEL_RESUME_REQUEST''"
| "frame_type_to_string TUNNEL_RESUME_ACK = ''TUNNEL_RESUME_ACK''"
| "frame_type_to_string PING = ''PING''"
| "frame_type_to_string PONG = ''PONG''"
| "frame_type_to_string FT_Unknown = ''UNKNOWN''"

section \<open>Factory methods\<close>

definition make_tunnel_open :: "u16 \<Rightarrow> string \<Rightarrow> u16 \<Rightarrow> ProtocolFrame" where
  "make_tunnel_open tunnel_id host port =
     (let host_len = (of_nat (min (length host) 255) :: byte)
      in (new_frame TUNNEL_OPEN tunnel_id)
           \<lparr>fr_payload := host_len # bytes_of_string (take (unat host_len) host) @ write_u16_be port\<rparr>)"

definition make_tunnel_data :: "u16 \<Rightarrow> byte list \<Rightarrow> ProtocolFrame" where
  "make_tunnel_data tunnel_id data = (new_frame TUNNEL_DATA tunnel_id)\<lparr>fr_payload := data\<rparr>"

definition make_tunnel_close :: "u16 \<Rightarrow> ProtocolFrame" where
  "make_tunnel_close tunnel_id = new_frame TUNNEL_CLOSE tunnel_id"

definition make_tunnel_ack :: "u16 \<Rightarrow> u32 \<Rightarrow> ProtocolFrame" where
  "make_tunnel_ack tunnel_id bytes_acked =
     (new_frame TUNNEL_ACK tunnel_id)\<lparr>fr_payload := write_u32_be bytes_acked\<rparr>"

definition make_tunnel_error :: "u16 \<Rightarrow> byte \<Rightarrow> string \<Rightarrow> ProtocolFrame" where
  "make_tunnel_error tunnel_id error_code description =
     (new_frame TUNNEL_ERROR tunnel_id)\<lparr>fr_payload := error_code # bytes_of_string description\<rparr>"

definition make_ping :: ProtocolFrame where
  "make_ping = new_frame PING 0"

definition make_pong :: ProtocolFrame where
  "make_pong = new_frame PONG 0"

definition make_pong_for :: "ProtocolFrame \<Rightarrow> ProtocolFrame" where
  "make_pong_for ping =
     (let frame = new_frame PONG 0; payload = payload_view ping
      in if payload \<noteq> [] \<and> length payload \<le> 32 then frame\<lparr>fr_payload := payload\<rparr> else frame)"

definition make_info_request :: ProtocolFrame where
  "make_info_request = new_frame INFO_REQUEST 0"

definition make_info_reply :: "string \<Rightarrow> ProtocolFrame" where
  "make_info_reply yaml = (new_frame INFO_REPLY 0)\<lparr>fr_payload := bytes_of_string yaml\<rparr>"

definition make_tunnel_resume_request :: "TunnelResumeRequestPayload \<Rightarrow> ProtocolFrame" where
  "make_tunnel_resume_request payload =
     (let host_len = (of_nat (min (length (rr_host payload)) 255) :: byte)
      in (new_frame TUNNEL_RESUME_REQUEST (rr_prior_tunnel_id payload))
           \<lparr>fr_payload := 0x01 # write_u16_be (rr_prior_tunnel_id payload)
              @ write_u64_be (rr_last_local_recv_offset payload)
              @ write_u64_be (rr_last_local_send_offset payload)
              @ host_len # bytes_of_string (take (unat host_len) (rr_host payload))
              @ write_u16_be (rr_target_port payload)\<rparr>)"

definition make_tunnel_resume_ack :: "TunnelResumeAckPayload \<Rightarrow> ProtocolFrame" where
  "make_tunnel_resume_ack payload =
     (new_frame TUNNEL_RESUME_ACK (ra_new_tunnel_id payload))
       \<lparr>fr_payload := 0x01 # write_u16_be (ra_new_tunnel_id payload)
          @ write_u64_be (ra_server_recv_offset payload)
          @ write_u64_be (ra_server_send_offset payload)
          @ [resume_status_code (ra_status payload)]\<rparr>"

section \<open>Serialization\<close>

definition serialize :: "ProtocolFrame \<Rightarrow> byte list" where
  "serialize f =
     (let payload = (case fr_payload_shared f of Some p \<Rightarrow> p | None \<Rightarrow> fr_payload f);
          payload_len = (of_nat (min (length payload) kMaxPayloadSize) :: u16)
      in frame_type_code (fr_type f) # write_u16_be (fr_tunnel_id f) @ write_u16_be payload_len
           @ take (unat payload_len) payload)"

definition deserialize :: "byte list \<Rightarrow> errc + ProtocolFrame" where
  "deserialize data =
     (if length data < kFrameHeaderSize then Inl message_size
      else let raw_type = data ! 0;
               type = (if is_valid_frame_type raw_type then frame_type_of_byte raw_type else FT_Unknown);
               tunnel_id = read_u16_be (drop 1 data);
               payload_len = read_u16_be (drop 3 data)
           in if length data < kFrameHeaderSize + unat payload_len then Inl message_size
              else let frame = new_frame type tunnel_id;
                       body = take (unat payload_len) (drop kFrameHeaderSize data)
                   in if 0 < payload_len
                      then if type = TUNNEL_DATA then Inr (frame\<lparr>fr_payload_shared := Some body\<rparr>)
                           else Inr (frame\<lparr>fr_payload := body\<rparr>)
                      else Inr frame)"

section \<open>Typed payload extraction\<close>

definition as_tunnel_open :: "ProtocolFrame \<Rightarrow> TunnelOpenPayload option" where
  "as_tunnel_open f =
     (if fr_type f \<noteq> TUNNEL_OPEN \<or> fr_payload f = [] then None
      else let p = fr_payload f; host_len = unat (p ! 0)
           in if length p < 1 + host_len + 2 then None
              else Some \<lparr>op_host = string_of_bytes (take host_len (drop 1 p)),
                         op_port = read_u16_be (drop (1 + host_len) p)\<rparr>)"

definition as_tunnel_data :: "ProtocolFrame \<Rightarrow> byte list" where
  "as_tunnel_data f =
     (if fr_type f \<noteq> TUNNEL_DATA then []
      else case fr_payload_shared f of Some p \<Rightarrow> p | None \<Rightarrow> fr_payload f)"

definition as_tunnel_ack :: "ProtocolFrame \<Rightarrow> TunnelAckPayload option" where
  "as_tunnel_ack f =
     (if fr_type f \<noteq> TUNNEL_ACK \<or> length (fr_payload f) < 4 then None
      else Some \<lparr>ack_bytes_acked = read_u32_be (fr_payload f)\<rparr>)"

definition as_tunnel_error :: "ProtocolFrame \<Rightarrow> TunnelErrorPayload option" where
  "as_tunnel_error f =
     (if fr_type f \<noteq> TUNNEL_ERROR \<or> fr_payload f = [] then None
      else Some \<lparr>err_code = fr_payload f ! 0,
                 err_description =
                   (if length (fr_payload f) > 1 then string_of_bytes (drop 1 (fr_payload f)) else [])\<rparr>)"

definition as_info_reply_yaml :: "ProtocolFrame \<Rightarrow> string" where
  "as_info_reply_yaml f = (if fr_type f \<noteq> INFO_REPLY then [] else string_of_bytes (fr_payload f))"

definition as_tunnel_resume_request :: "ProtocolFrame \<Rightarrow> TunnelResumeRequestPayload option" where
  "as_tunnel_resume_request f =
     (if fr_type f \<noteq> TUNNEL_RESUME_REQUEST then None
      else let p = fr_payload f in
        if length p < 22 then None
        else if p ! 0 \<noteq> 0x01 then None
        else let host_len = unat (p ! 19) in
          if length p < 20 + host_len + 2 then None
          else Some \<lparr>rr_prior_tunnel_id = read_u16_be (drop 1 p),
                     rr_last_local_recv_offset = read_u64_be (drop 3 p),
                     rr_last_local_send_offset = read_u64_be (drop 11 p),
                     rr_host = string_of_bytes (take host_len (drop 20 p)),
                     rr_target_port = read_u16_be (drop (20 + host_len) p)\<rparr>)"

definition resume_status_of_byte :: "byte \<Rightarrow> TunnelResumeStatus" where
  "resume_status_of_byte raw =
     (if raw > 4 then RS_Unknown
      else if raw = 0 then RS_Ok else if raw = 1 then RS_TargetUnreachable
      else if raw = 2 then RS_RulesDenied else if raw = 3 then RS_TooOld else RS_Unknown)"

definition as_tunnel_resume_ack :: "ProtocolFrame \<Rightarrow> TunnelResumeAckPayload option" where
  "as_tunnel_resume_ack f =
     (let p = fr_payload f in
      if fr_type f \<noteq> TUNNEL_RESUME_ACK \<or> length p < 20 then None
      else if p ! 0 \<noteq> 0x01 then None
      else Some \<lparr>ra_new_tunnel_id = read_u16_be (drop 1 p),
                 ra_server_recv_offset = read_u64_be (drop 3 p),
                 ra_server_send_offset = read_u64_be (drop 11 p),
                 ra_status = resume_status_of_byte (p ! 19)\<rparr>)"

section \<open>The outbound buffer\<close>

text \<open>
  \<open>OwnedFrameBuffer\<close>: \<open>fb_storage\<close> is the shared allocation (\<open>None\<close> for the default-constructed,
  empty buffer); the payload region starts after the reserved prefix.
\<close>

record OwnedFrameBuffer =
  fb_storage :: "byte list option"
  fb_payload_capacity :: nat
  fb_payload_used :: nat

definition fb_allocate :: "nat \<Rightarrow> OwnedFrameBuffer" where
  "fb_allocate payload_capacity =
     \<lparr>fb_storage = Some (replicate (kFrameHeaderReserved + payload_capacity) 0),
      fb_payload_capacity = payload_capacity, fb_payload_used = 0\<rparr>"

definition fb_payload_remaining :: "OwnedFrameBuffer \<Rightarrow> nat" where
  "fb_payload_remaining b = fb_payload_capacity b - fb_payload_used b"

text \<open>\<open>memcpy\<close> of \<open>src\<close> over the bytes of \<open>dst\<close> that start at \<open>off\<close>.\<close>

definition mem_copy :: "nat \<Rightarrow> byte list \<Rightarrow> byte list \<Rightarrow> byte list" where
  "mem_copy off src dst = take off dst @ src @ drop (off + length src) dst"

definition fb_with_payload :: "byte list \<Rightarrow> OwnedFrameBuffer" where
  "fb_with_payload payload =
     (let buf = fb_allocate (length payload)
      in if payload \<noteq> []
         then buf\<lparr>fb_storage := map_option (mem_copy kFrameHeaderReserved payload) (fb_storage buf),
                  fb_payload_used := length payload\<rparr>
         else buf)"

definition fb_advance_payload :: "nat \<Rightarrow> OwnedFrameBuffer \<Rightarrow> nat \<times> OwnedFrameBuffer" where
  "fb_advance_payload n b =
     (let n' = min n (fb_payload_remaining b); used = fb_payload_used b + n'
      in (used, b\<lparr>fb_payload_used := used\<rparr>))"

definition fb_set_payload_used :: "nat \<Rightarrow> OwnedFrameBuffer \<Rightarrow> OwnedFrameBuffer" where
  "fb_set_payload_used used b = b\<lparr>fb_payload_used := min used (fb_payload_capacity b)\<rparr>"

definition fb_append_payload :: "byte list \<Rightarrow> OwnedFrameBuffer \<Rightarrow> nat \<times> OwnedFrameBuffer" where
  "fb_append_payload bytes b =
     (let n = min (length bytes) (fb_payload_remaining b)
      in if n = 0 then (0, b)
         else (n, b\<lparr>fb_storage :=
                      map_option (mem_copy (kFrameHeaderReserved + fb_payload_used b) (take n bytes))
                        (fb_storage b),
                    fb_payload_used := fb_payload_used b + n\<rparr>))"

definition fb_payload :: "OwnedFrameBuffer \<Rightarrow> byte list" where
  "fb_payload b =
     (case fb_storage b of None \<Rightarrow> []
      | Some s \<Rightarrow> take (fb_payload_used b) (drop kFrameHeaderReserved s))"

definition fb_wire_view :: "OwnedFrameBuffer \<Rightarrow> byte list" where
  "fb_wire_view b =
     (case fb_storage b of None \<Rightarrow> []
      | Some s \<Rightarrow> take (kFrameHeaderReserved + fb_payload_used b) s)"

definition serialize_tunnel_data_in_place :: "OwnedFrameBuffer \<Rightarrow> u16 \<Rightarrow> OwnedFrameBuffer" where
  "serialize_tunnel_data_in_place buf tunnel_id =
     (case fb_storage buf of None \<Rightarrow> buf
      | Some s \<Rightarrow>
          let payload_len = (of_nat (min (fb_payload_used buf) kMaxPayloadSize) :: u16);
              hdr = [0xA0, frame_type_code TUNNEL_DATA] @ write_u16_be tunnel_id
                      @ write_u16_be payload_len
          in buf\<lparr>fb_storage := Some (mem_copy 0 hdr s)\<rparr>)"

text \<open>The buffer's class invariant: the allocation covers prefix and capacity, and no more is used
  than the capacity.\<close>

definition fb_wf :: "OwnedFrameBuffer \<Rightarrow> bool" where
  "fb_wf b \<longleftrightarrow>
     (case fb_storage b of None \<Rightarrow> fb_payload_capacity b = 0 \<and> fb_payload_used b = 0
      | Some s \<Rightarrow> length s = kFrameHeaderReserved + fb_payload_capacity b
                  \<and> fb_payload_used b \<le> fb_payload_capacity b)"

section \<open>Byte-order round trips\<close>

lemma length_write_be [simp]:
  "length (write_u16_be a) = 2" "length (write_u32_be b) = 4" "length (write_u64_be c) = 8"
  by (simp_all add: write_u16_be_def write_u32_be_def write_u64_be_def)

lemma read_write_u16 [codec_simps]: "read_u16_be (write_u16_be v @ r) = v"
proof (rule bit_word_eqI)
  fix n
  assume "n < LENGTH(16)"
  then show "bit (read_u16_be (write_u16_be v @ r)) n \<longleftrightarrow> bit v n"
    by (cases "n < 8") (auto simp: read_u16_be_def write_u16_be_def mask8_eq bit_simps)
qed

lemma read_write_u16_exact [codec_simps]: "read_u16_be (write_u16_be v) = v"
  using read_write_u16 [of v "[]"] by simp

lemma read_write_u32 [codec_simps]: "read_u32_be (write_u32_be v @ r) = v"
proof (rule bit_word_eqI)
  fix n
  assume "n < LENGTH(32)"
  then consider "n < 8" | "8 \<le> n" "n < 16" | "16 \<le> n" "n < 24" | "24 \<le> n" "n < 32"
    by fastforce
  then show "bit (read_u32_be (write_u32_be v @ r)) n \<longleftrightarrow> bit v n"
    by cases (auto simp: read_u32_be_def write_u32_be_def mask8_eq bit_simps)
qed

lemma read_write_u32_exact [codec_simps]: "read_u32_be (write_u32_be v) = v"
  using read_write_u32 [of v "[]"] by simp

lemma u64_step:
  "push_bit 8 (drop_bit (8 + k) v) OR ucast (ucast (drop_bit k v AND 0xFF) :: byte) = drop_bit k (v :: u64)"
  using push_drop_low_byte [of "drop_bit k v"] by (simp add: drop_bit_drop_bit)

lemma read_write_u64 [codec_simps]: "read_u64_be (write_u64_be v @ r) = v"
proof -
  have top: "drop_bit 64 v = 0"
    by (rule bit_word_eqI) (auto simp: bit_simps)
  have "read_u64_be (write_u64_be v @ r) =
      foldl (\<lambda>value i. push_bit 8 value OR ucast (ucast (drop_bit (56 - 8 * i) v AND 0xFF) :: byte))
        (drop_bit 64 v) [0, 1, 2, 3, 4, 5, 6, 7]"
    by (simp add: read_u64_be_def write_u64_be_def upt_0_8 top)
  also have "\<dots> = v"
    using u64_step [of 56 v] u64_step [of 48 v] u64_step [of 40 v] u64_step [of 32 v]
      u64_step [of 24 v] u64_step [of 16 v] u64_step [of 8 v] u64_step [of 0 v]
    by (simp only: foldl.simps) simp
  finally show ?thesis .
qed

lemma read_write_u64_exact [codec_simps]: "read_u64_be (write_u64_be v) = v"
  using read_write_u64 [of v "[]"] by simp

lemma write_read_u16:
  assumes "2 \<le> length src"
  shows "write_u16_be (read_u16_be src) = take 2 src"
proof -
  obtain a b r where src: "src = a # b # r"
    using assms by (cases src; cases "tl src") auto
  have "ucast (drop_bit 8 (read_u16_be src) AND 0xFF) = a"
    by (rule bit_word_eqI) (auto simp: src read_u16_be_def mask8_eq bit_simps dest: bit_imp_le_length)
  moreover have "ucast (read_u16_be src AND 0xFF) = b"
    by (rule bit_word_eqI) (auto simp: src read_u16_be_def mask8_eq bit_simps dest: bit_imp_le_length)
  ultimately show ?thesis
    by (simp add: write_u16_be_def src)
qed

lemma read_u16_be_append:
  "2 \<le> length a \<Longrightarrow> read_u16_be (a @ b) = read_u16_be a"
  by (auto simp: read_u16_be_def nth_append)

lemma unat_read_u16_be:
  assumes "2 \<le> length src"
  shows "unat (read_u16_be src) = 256 * unat (src ! 0) + unat (src ! 1)"
proof -
  have disj: "(push_bit 8 (ucast (src ! 0)) :: u16) AND ucast (src ! 1) = 0"
    by (rule bit_word_eqI) (auto simp: bit_simps dest: bit_imp_le_length)
  then have "read_u16_be src = push_bit 8 (ucast (src ! 0)) + ucast (src ! 1)"
    by (simp add: read_u16_be_def disjunctive_add_eq_or)
  then have "read_u16_be src = of_nat (256 * unat (src ! 0) + unat (src ! 1))"
    by (simp add: push_bit_eq_mult)
  then have "unat (read_u16_be src) = (256 * unat (src ! 0) + unat (src ! 1)) mod 2 ^ LENGTH(16)"
    by (simp only: unat_of_nat take_bit_eq_mod)
  moreover have "256 * unat (src ! 0) + unat (src ! 1) < 2 ^ LENGTH(16)"
    using unat_byte_le [of "src ! 0"] unat_byte_le [of "src ! 1"] by simp
  ultimately show ?thesis
    by simp
qed

section \<open>Frame types\<close>

lemma frame_type_of_code [simp]: "frame_type_of_byte (frame_type_code t) = t"
  by (cases t) (simp_all add: frame_type_of_byte_def)

lemma is_valid_frame_type_code [simp]: "is_valid_frame_type (frame_type_code t) \<longleftrightarrow> t \<noteq> FT_Unknown"
  by (cases t) (simp_all add: is_valid_frame_type_def)

lemma code_frame_type_of_byte:
  "is_valid_frame_type raw \<Longrightarrow> frame_type_code (frame_type_of_byte raw) = raw"
  by (auto simp: is_valid_frame_type_def frame_type_of_byte_def)

lemma frame_type_of_byte_not_Unknown:
  "is_valid_frame_type raw \<Longrightarrow> frame_type_of_byte raw \<noteq> FT_Unknown"
  by (auto simp: is_valid_frame_type_def frame_type_of_byte_def)

section \<open>Frames on the wire\<close>

lemma payload_view_eq:
  "(case fr_payload_shared f of Some p \<Rightarrow> p | None \<Rightarrow> fr_payload f) = payload_view f"
  by (simp add: payload_view_def)

lemma payload_size_eq: "payload_size f = length (payload_view f)"
  by (simp add: payload_size_def payload_view_def split: option.split)

lemma serialize_eq:
  "serialize f =
     frame_type_code (fr_type f) # write_u16_be (fr_tunnel_id f)
       @ write_u16_be (of_nat (min (length (payload_view f)) 65535))
       @ take 65535 (payload_view f)"
proof -
  have "take (min (length p) 65535) p = take 65535 p" for p :: "byte list"
    by (simp add: min_def)
  then show ?thesis
    by (simp add: serialize_def payload_view_eq Let_def kMaxPayloadSize_def unat_of_nat_min_u16)
qed

lemma length_serialize: "length (serialize f) = 5 + min (length (payload_view f)) 65535"
  by (simp add: serialize_eq min.commute)

text \<open>
  The frame \<open>deserialize\<close> builds from type, identifier and body: the shared slot holds the body of a
  non-empty DATA frame, the plain vector every other.
\<close>

definition wire_frame :: "FrameType \<Rightarrow> u16 \<Rightarrow> byte list \<Rightarrow> ProtocolFrame" where
  "wire_frame t i body =
     (if body = [] then new_frame t i
      else if t = TUNNEL_DATA then (new_frame t i)\<lparr>fr_payload_shared := Some body\<rparr>
      else (new_frame t i)\<lparr>fr_payload := body\<rparr>)"

lemma wire_frame_simps [simp]:
  "fr_type (wire_frame t i body) = t"
  "fr_tunnel_id (wire_frame t i body) = i"
  "payload_view (wire_frame t i body) = body"
  "t \<noteq> TUNNEL_DATA \<Longrightarrow> fr_payload (wire_frame t i body) = body"
  by (simp_all add: wire_frame_def new_frame_def payload_view_def)

lemma deserialize_eq:
  assumes "2 \<le> length hdr" and "length (x # hdr) = 5"
    and "length body = unat (read_u16_be (drop 2 hdr))"
  shows "deserialize (x # hdr @ body @ rest) =
           Inr (wire_frame (if is_valid_frame_type x then frame_type_of_byte x else FT_Unknown)
                  (read_u16_be hdr) body)"
proof -
  have "read_u16_be (hdr @ body @ rest) = read_u16_be hdr"
    using assms(1) by (rule read_u16_be_append)
  moreover have "drop 3 (x # hdr @ body @ rest) = drop 2 hdr @ body @ rest"
    using assms(2) by simp
  moreover have "read_u16_be (drop 2 hdr @ body @ rest) = read_u16_be (drop 2 hdr)"
    using assms(2) by (intro read_u16_be_append) simp
  moreover have "drop 5 (x # hdr @ body @ rest) = body @ rest"
    using assms(2) by simp
  moreover have "0 < read_u16_be (drop 2 hdr) \<longleftrightarrow> body \<noteq> []"
    using assms(3) by (metis length_greater_0_conv unat_gt_0 word_greater_zero_iff)
  ultimately show ?thesis
    using assms(2,3)
    by (simp add: deserialize_def Let_def kFrameHeaderSize_def wire_frame_def)
qed

lemma deserialize_serialize:
  "deserialize (serialize f @ rest) =
     Inr (wire_frame (fr_type f) (fr_tunnel_id f) (take 65535 (payload_view f)))"
proof -
  let ?len = "of_nat (min (length (payload_view f)) 65535) :: u16"
  let ?hdr = "write_u16_be (fr_tunnel_id f) @ write_u16_be ?len"
  have len: "read_u16_be (drop 2 ?hdr) = ?len"
    by (simp add: codec_simps)
  have "deserialize (serialize f @ rest) =
      deserialize (frame_type_code (fr_type f) # ?hdr @ take 65535 (payload_view f) @ rest)"
    by (simp add: serialize_eq)
  also have "\<dots> = Inr (wire_frame (if is_valid_frame_type (frame_type_code (fr_type f))
        then frame_type_of_byte (frame_type_code (fr_type f)) else FT_Unknown)
      (read_u16_be ?hdr) (take 65535 (payload_view f)))"
    by (rule deserialize_eq) (simp_all add: len unat_of_nat_min_u16 min.commute del: drop_append)
  finally show ?thesis
    by (simp add: codec_simps)
qed

section \<open>Typed payloads: the codec interface\<close>

text \<open>
  Every typed payload has a factory that fills the frame and an accessor that reads it back. The
  laws a codec promises are local (the accessor inverts the factory on one frame); that the payload
  survives a trip over the wire follows once for all of them. \<open>norm\<close> is what the factory keeps of
  the payload (host names are cut at 255 bytes) and \<open>fits\<close> the payloads whose encoding fits the
  16-bit length field.
\<close>

locale payload_codec =
  fixes make :: "'p \<Rightarrow> ProtocolFrame"
    and parse :: "ProtocolFrame \<Rightarrow> 'p option"
    and norm :: "'p \<Rightarrow> 'p"
    and fits :: "'p \<Rightarrow> bool"
    and ftype :: FrameType
  assumes make_type: "fr_type (make p) = ftype"
    and make_plain: "fr_payload_shared (make p) = None"
    and make_fits: "fits p \<Longrightarrow> length (fr_payload (make p)) \<le> 65535"
    and parse_make: "parse (make p) = Some (norm p)"
    and parse_cong: "fr_type f = fr_type g \<Longrightarrow> fr_payload f = fr_payload g \<Longrightarrow> parse f = parse g"
    and parse_type: "parse f = Some p \<Longrightarrow> fr_type f = ftype"
    and not_data: "ftype \<noteq> TUNNEL_DATA"
begin

lemma wire_payload:
  assumes "fits p"
  shows "deserialize (serialize (make p) @ rest) =
           Inr (wire_frame ftype (fr_tunnel_id (make p)) (fr_payload (make p)))"
proof -
  have "payload_view (make p) = fr_payload (make p)"
    by (simp add: payload_view_def make_plain)
  then show ?thesis
    using make_fits [OF assms] by (simp add: deserialize_serialize make_type)
qed

lemma over_wire:
  assumes "fits p"
  shows "\<exists>f. deserialize (serialize (make p) @ rest) = Inr f \<and> parse f = Some (norm p)"
proof -
  let ?f = "wire_frame ftype (fr_tunnel_id (make p)) (fr_payload (make p))"
  have "parse ?f = parse (make p)"
    by (rule parse_cong) (simp_all add: make_type not_data)
  then show ?thesis
    using wire_payload [OF assms] parse_make by simp
qed

lemma make_inj: "make p = make q \<Longrightarrow> norm p = norm q"
  using parse_make [of p] parse_make [of q] by simp

end

lemma new_frame_simps [simp, frame_simps]:
  "fr_type (new_frame t i) = t" "fr_tunnel_id (new_frame t i) = i"
  "fr_payload (new_frame t i) = []" "fr_payload_shared (new_frame t i) = None"
  by (simp_all add: new_frame_def)

definition open_norm :: "TunnelOpenPayload \<Rightarrow> TunnelOpenPayload" where
  "open_norm p = p\<lparr>op_host := take 255 (op_host p)\<rparr>"

definition resume_request_norm :: "TunnelResumeRequestPayload \<Rightarrow> TunnelResumeRequestPayload" where
  "resume_request_norm p = p\<lparr>rr_host := take 255 (rr_host p)\<rparr>"

lemma take_min_length [simp]: "take (min (length xs) n) xs = take n xs"
  by (simp add: min_def)

lemma make_tunnel_open_payload:
  "fr_payload (make_tunnel_open i h p) =
     of_nat (min (length h) 255) # bytes_of_string (take 255 h) @ write_u16_be p"
  by (simp add: make_tunnel_open_def Let_def unat_of_nat_min_byte)

lemma as_tunnel_open_make:
  "as_tunnel_open (make_tunnel_open i h p) = Some \<lparr>op_host = take 255 h, op_port = p\<rparr>"
  using make_tunnel_open_payload [of i h p]
  by (simp add: as_tunnel_open_def make_tunnel_open_def Let_def unat_of_nat_min_byte codec_simps
      min.commute)

interpretation open_codec: payload_codec
  "\<lambda>p. make_tunnel_open i (op_host p) (op_port p)" as_tunnel_open open_norm "\<lambda>p. True" TUNNEL_OPEN
  for i
proof unfold_locales
  fix p
  show "as_tunnel_open (make_tunnel_open i (op_host p) (op_port p)) = Some (open_norm p)"
    by (simp add: as_tunnel_open_make open_norm_def)
qed (auto simp: make_tunnel_open_def as_tunnel_open_def Let_def unat_of_nat_min_byte split: if_splits)

interpretation ack_codec: payload_codec
  "\<lambda>p. make_tunnel_ack i (ack_bytes_acked p)" as_tunnel_ack "\<lambda>p. p" "\<lambda>p. True" TUNNEL_ACK
  for i
  by unfold_locales
    (auto simp: make_tunnel_ack_def as_tunnel_ack_def codec_simps split: if_splits)

interpretation error_codec: payload_codec
  "\<lambda>p. make_tunnel_error i (err_code p) (err_description p)" as_tunnel_error "\<lambda>p. p"
  "\<lambda>p. length (err_description p) \<le> 65534" TUNNEL_ERROR
  for i
  by unfold_locales
    (auto simp: make_tunnel_error_def as_tunnel_error_def split: if_splits)

lemma resume_status_of_code [simp]: "resume_status_of_byte (resume_status_code s) = s"
  by (cases s) (simp_all add: resume_status_of_byte_def)

lemma resume_head_nth:
  "length a = 2 \<Longrightarrow> length b = 8 \<Longrightarrow> length c = 8 \<Longrightarrow> (a @ b @ c @ h # t) ! 18 = h"
  by (simp add: nth_append)

lemma as_tunnel_resume_ack_make:
  "as_tunnel_resume_ack (make_tunnel_resume_ack p) = Some p"
  by (simp add: as_tunnel_resume_ack_def make_tunnel_resume_ack_def Let_def codec_simps
      resume_head_nth)

interpretation resume_ack_codec: payload_codec
  make_tunnel_resume_ack as_tunnel_resume_ack "\<lambda>p. p" "\<lambda>p. True" TUNNEL_RESUME_ACK
proof unfold_locales
  fix p
  show "as_tunnel_resume_ack (make_tunnel_resume_ack p) = Some p"
    by (rule as_tunnel_resume_ack_make)
qed (auto simp: make_tunnel_resume_ack_def as_tunnel_resume_ack_def Let_def split: if_splits)

lemma resume_tail_drop:
  assumes "length a = 2" "length b = 8" "length c = 8" "length hs = n"
  shows "drop (20 + n) (v # a @ b @ c @ h # hs @ t) = t"
proof -
  have "v # a @ b @ c @ h # hs @ t = (v # a @ b @ c @ h # hs) @ t"
    by simp
  moreover have "length (v # a @ b @ c @ h # hs) = 20 + n"
    using assms by simp
  ultimately show ?thesis
    by (metis append_eq_conv_conj)
qed

lemma as_tunnel_resume_request_make:
  "as_tunnel_resume_request (make_tunnel_resume_request p) = Some (resume_request_norm p)"
  by (simp add: as_tunnel_resume_request_def make_tunnel_resume_request_def Let_def codec_simps
      resume_head_nth resume_tail_drop unat_of_nat_min_byte resume_request_norm_def min.commute)

interpretation resume_request_codec: payload_codec
  make_tunnel_resume_request as_tunnel_resume_request resume_request_norm "\<lambda>p. True"
  TUNNEL_RESUME_REQUEST
proof unfold_locales
  fix p
  show "as_tunnel_resume_request (make_tunnel_resume_request p) = Some (resume_request_norm p)"
    by (rule as_tunnel_resume_request_make)
qed (auto simp: make_tunnel_resume_request_def as_tunnel_resume_request_def Let_def
      unat_of_nat_min_byte split: if_splits)

section \<open>Properties\<close>

text \<open>
  Claim C17: every frame survives the wire. Deserialising the serialisation of any frame, with any
  bytes after it, succeeds and yields the same type and tunnel identifier and the first 65535
  bytes of the payload (all of it, when the payload fits the length field).
\<close>

theorem frame_wire_roundtrip:
  "\<exists>g. deserialize (serialize f @ rest) = Inr g \<and> fr_type g = fr_type f
       \<and> fr_tunnel_id g = fr_tunnel_id f
       \<and> payload_view g = take kMaxPayloadSize (payload_view f)"
  by (simp add: deserialize_serialize kMaxPayloadSize_def)

text \<open>
  \<open>deserialize\<close> rejects exactly the truncated packets. It reports \<open>message_size\<close> if and
  only if the header is incomplete or the buffer is shorter than the payload length the header
  announces; an unknown type byte is not an error.
\<close>

theorem deserialize_error_iff:
  "deserialize data = Inl message_size \<longleftrightarrow>
     length data < 5 \<or> length data < 5 + 256 * unat (data ! 3) + unat (data ! 4)"
proof (cases "length data < 5")
  case True
  then show ?thesis by (simp add: deserialize_def kFrameHeaderSize_def)
next
  case False
  then have "unat (read_u16_be (drop 3 data)) = 256 * unat (data ! 3) + unat (data ! 4)"
    by (simp add: unat_read_u16_be)
  with False show ?thesis
    by (auto simp: deserialize_def kFrameHeaderSize_def Let_def)
qed

lemma deserialize_InrD:
  assumes "deserialize data = Inr f"
  shows "\<exists>hdr body rest. data = data ! 0 # hdr @ body @ rest \<and> length hdr = 4
           \<and> length body = unat (read_u16_be (drop 2 hdr))
           \<and> f = wire_frame (if is_valid_frame_type (data ! 0) then frame_type_of_byte (data ! 0)
                             else FT_Unknown) (read_u16_be hdr) body"
proof -
  have "5 \<le> length data"
    using assms by (auto simp: deserialize_def kFrameHeaderSize_def split: if_splits)
  then obtain a b c d e r where data: "data = a # b # c # d # e # r"
    by (auto simp: numeral_eq_Suc Suc_le_length_iff)
  let ?hdr = "[b, c, d, e]" and ?n = "unat (read_u16_be [d, e])"
  have rd: "read_u16_be (d # e # r) = read_u16_be [d, e]"
    using read_u16_be_append [of "[d, e]" r] by simp
  have len: "?n \<le> length r"
    using assms rd by (auto simp: data deserialize_def kFrameHeaderSize_def Let_def split: if_splits)
  then have "deserialize (a # ?hdr @ take ?n r @ drop ?n r) = Inr (wire_frame
      (if is_valid_frame_type a then frame_type_of_byte a else FT_Unknown) (read_u16_be ?hdr) (take ?n r))"
    by (intro deserialize_eq) auto
  then have "f = wire_frame (if is_valid_frame_type a then frame_type_of_byte a else FT_Unknown)
      (read_u16_be ?hdr) (take ?n r)"
    using assms data by simp
  with data len show ?thesis
    by (intro exI [of _ ?hdr] exI [of _ "take ?n r"] exI [of _ "drop ?n r"]) simp
qed

text \<open>
  Decoding is canonical. A packet that decodes to a frame of a known type starts with
  exactly the serialisation of that frame, so two packets that decode to the same frame agree on
  every byte that was consumed.
\<close>

theorem deserialize_canonical:
  assumes "deserialize data = Inr f" and "fr_type f \<noteq> FT_Unknown"
  shows "prefix (serialize f) data \<and> length (serialize f) = serialized_size f"
proof -
  from deserialize_InrD [OF assms(1)] obtain hdr body rest where
    data: "data = data ! 0 # hdr @ body @ rest" and hdr: "length hdr = 4"
    and body: "length body = unat (read_u16_be (drop 2 hdr))"
    and f: "f = wire_frame (if is_valid_frame_type (data ! 0) then frame_type_of_byte (data ! 0)
                            else FT_Unknown) (read_u16_be hdr) body"
    by blast
  have valid: "is_valid_frame_type (data ! 0)"
    using assms(2) f by (auto split: if_splits)
  have le: "length body \<le> 65535"
    by (simp add: body unat_u16_le)
  have "write_u16_be (read_u16_be hdr) @ write_u16_be (of_nat (length body)) = hdr"
    using hdr by (simp add: body write_read_u16)
  then have "serialize f = data ! 0 # hdr @ body"
    using valid le by (simp add: serialize_eq f code_frame_type_of_byte)
  then have "data = serialize f @ rest" and "length (serialize f) = serialized_size f"
    using data hdr by (auto simp: serialized_size_def payload_size_eq kFrameHeaderSize_def f)
  then show ?thesis
    by (auto intro: prefixI)
qed

text \<open>
  A TUNNEL_OPEN request reaches the peer intact. Whatever the tunnel identifier and the
  bytes that follow, the peer decodes the target port and the first 255 bytes of the host name.
\<close>

theorem tunnel_open_over_wire:
  "\<exists>f. deserialize (serialize (make_tunnel_open i host port) @ rest) = Inr f
       \<and> as_tunnel_open f = Some \<lparr>op_host = take 255 host, op_port = port\<rparr>"
  using open_codec.over_wire [of i "\<lparr>op_host = host, op_port = port\<rparr>" rest]
  by (simp add: open_norm_def)

text \<open>
  Acknowledgements, errors and resume replies reach the peer unchanged: the accessor
  applied to the deserialised packet returns exactly the payload the factory was given (an error
  text up to 65534 bytes).
\<close>

theorem control_payloads_over_wire:
  assumes "length (err_description e) \<le> 65534"
  shows "(\<exists>f. deserialize (serialize (make_tunnel_ack i (ack_bytes_acked a)) @ rest) = Inr f
              \<and> as_tunnel_ack f = Some a)
       \<and> (\<exists>f. deserialize (serialize (make_tunnel_error i (err_code e) (err_description e)) @ rest) = Inr f
              \<and> as_tunnel_error f = Some e)
       \<and> (\<exists>f. deserialize (serialize (make_tunnel_resume_ack r) @ rest) = Inr f
              \<and> as_tunnel_resume_ack f = Some r)
       \<and> (\<exists>f. deserialize (serialize (make_tunnel_resume_request q) @ rest) = Inr f
              \<and> as_tunnel_resume_request f = Some (resume_request_norm q))"
  using ack_codec.over_wire [of i a rest] error_codec.over_wire [of e i rest]
    resume_ack_codec.over_wire [of r rest] resume_request_codec.over_wire [of q rest] assms
  by simp

section \<open>The outbound buffer\<close>

lemma length_mem_copy: "off + length src \<le> length dst \<Longrightarrow> length (mem_copy off src dst) = length dst"
  by (simp add: mem_copy_def)

lemma fb_wf_allocate: "fb_wf (fb_allocate n)"
  by (simp add: fb_wf_def fb_allocate_def)

lemma fb_wf_set_payload_used: "fb_wf b \<Longrightarrow> fb_wf (fb_set_payload_used n b)"
  by (simp add: fb_wf_def fb_set_payload_used_def split: option.splits)

lemma fb_wf_advance_payload: "fb_wf b \<Longrightarrow> fb_wf (snd (fb_advance_payload n b))"
  by (auto simp: fb_wf_def fb_advance_payload_def fb_payload_remaining_def Let_def split: option.splits)

lemma fb_wf_append_payload: "fb_wf b \<Longrightarrow> fb_wf (snd (fb_append_payload bs b))"
  by (auto simp: fb_wf_def fb_append_payload_def fb_payload_remaining_def Let_def length_mem_copy
      split: option.splits)

lemma fb_wf_with_payload: "fb_wf (fb_with_payload bs)"
  by (simp add: fb_wf_def fb_with_payload_def fb_allocate_def Let_def length_mem_copy)

lemma fb_payload_with_payload: "fb_payload (fb_with_payload bs) = bs"
  by (simp add: fb_payload_def fb_with_payload_def fb_allocate_def Let_def mem_copy_def)

lemma mem_copy_window:
  assumes "off + k \<le> length s" and "k + length src \<le> length s - off"
  shows "take (k + length src) (drop off (mem_copy (off + k) src s)) = take k (drop off s) @ src"
  using assms by (simp add: mem_copy_def drop_take)

text \<open>
  Appending to an outbound buffer adds exactly the bytes that fit behind the bytes
  already there, keeps the class invariant and reports how many bytes it took; no byte already
  in the payload changes.
\<close>

theorem fb_append_payload_spec:
  assumes "fb_wf b" and "fb_append_payload bs b = (n, b')"
  shows "fb_wf b' \<and> n = min (length bs) (fb_payload_remaining b)
         \<and> fb_payload b' = fb_payload b @ take n bs"
proof -
  have "fb_wf b'"
    using fb_wf_append_payload [OF assms(1), of bs] assms(2) by simp
  moreover have "n = min (length bs) (fb_payload_remaining b)"
    using assms(2) by (auto simp: fb_append_payload_def Let_def split: if_splits)
  moreover have "fb_payload b' = fb_payload b @ take n bs"
  proof (cases "n = 0 \<or> fb_storage b = None")
    case True
    then have "n = 0" and "b' = b"
      using assms by (auto simp: fb_append_payload_def Let_def fb_wf_def fb_payload_remaining_def
          min_def split: if_splits option.splits)
    then show ?thesis by simp
  next
    case False
    then obtain s where s: "fb_storage b = Some s" and "n \<noteq> 0" by auto
    then have b': "b' = b\<lparr>fb_storage := Some (mem_copy (kFrameHeaderReserved + fb_payload_used b) (take n bs) s),
                          fb_payload_used := fb_payload_used b + n\<rparr>"
      and n: "n = min (length bs) (fb_payload_remaining b)"
      using assms(2) by (auto simp: fb_append_payload_def Let_def split: if_splits)
    have "length (take n bs) = n" and "kFrameHeaderReserved + fb_payload_used b + n \<le> length s"
      using n s assms(1) by (auto simp: fb_wf_def fb_payload_remaining_def)
    then show ?thesis
      using mem_copy_window [of kFrameHeaderReserved "fb_payload_used b" s "take n bs"]
      by (simp add: b' s fb_payload_def)
  qed
  ultimately show ?thesis by blast
qed

text \<open>
  The zero-copy path puts the same bytes on the wire as the generic one. After
  \<open>serialize_tunnel_data_in_place\<close> the wire view of a buffer is the lossless prefix byte followed by
  the serialisation of the DATA frame that carries the buffer's payload.
\<close>

theorem in_place_equals_serialize:
  assumes "fb_wf b" and "fb_storage b \<noteq> None" and "fb_payload_used b \<le> kMaxPayloadSize"
  shows "fb_wire_view (serialize_tunnel_data_in_place b i)
           = kLosslessPacketByte # serialize (make_tunnel_data i (fb_payload b))"
proof -
  from assms(2) obtain s where s: "fb_storage b = Some s" by blast
  with assms(1) have len: "length s = 6 + fb_payload_capacity b" "fb_payload_used b \<le> fb_payload_capacity b"
    by (auto simp: fb_wf_def kFrameHeaderReserved_def)
  let ?len = "of_nat (min (fb_payload_used b) 65535) :: u16"
  let ?hdr = "[0xA0, frame_type_code TUNNEL_DATA] @ write_u16_be i @ write_u16_be ?len"
  have hdr: "length ?hdr = 6" by simp
  have "take (6 + k) (?hdr @ t) = ?hdr @ take k t" for k and t :: "byte list"
    using hdr by (simp only: take_append) simp
  then have "fb_wire_view (serialize_tunnel_data_in_place b i) = ?hdr @ take (fb_payload_used b) (drop 6 s)"
    by (simp add: fb_wire_view_def serialize_tunnel_data_in_place_def s Let_def
        kMaxPayloadSize_def kFrameHeaderReserved_def mem_copy_def)
  moreover have "length (fb_payload b) = fb_payload_used b"
    using len by (simp add: fb_payload_def s kFrameHeaderReserved_def)
  ultimately show ?thesis
    using assms(3) by (simp add: serialize_eq make_tunnel_data_def payload_view_def kMaxPayloadSize_def
        kLosslessPacketByte_def fb_payload_def s kFrameHeaderReserved_def)
qed

end
