(* ===== verification/Friend_Send_Gate.thy ===== *)
theory Friend_Send_Gate
  imports Protocol Complex_Main
begin

text \<open>
  The per-friend DATA gate in front of toxcore: \<open>include/toxtunnel/tunnel/friend_send_gate.hpp\<close>,
  \<open>src/tunnel/friend_send_gate.cpp\<close> and its interface \<open>include/toxtunnel/tox/lossless_send_gate.hpp\<close>.
  What the gate asks of toxcore (\<open>Io::public_key\<close>, \<open>Io::send\<close>) is a parameter of every operation.
  64-bit byte and sequence counters are \<open>nat\<close> (they agree below \<open>2 ^ 64\<close>; the fence packet takes the
  sequence number modulo \<open>2 ^ 64\<close>), nanosecond clocks are \<open>int\<close>, epochs are 64-bit words, and the
  \<open>double\<close> rate estimate is a rational, without rounding. Logging and metrics counters are left out.
\<close>

section \<open>Data\<close>

type_synonym PublicKey = "byte list"

record Io =
  io_public_key :: "(nat \<Rightarrow> PublicKey option) option"
  io_send :: "(nat \<Rightarrow> byte list \<Rightarrow> bool) option"

definition kFencePingKind :: byte where "kFencePingKind = 0x46"
definition kFencePayloadSize :: nat where "kFencePayloadSize = 17"
definition kGateMinRttBucketNs :: int where "kGateMinRttBucketNs = 10000000000"
definition kBlockedWindowNs :: int where "kBlockedWindowNs = 1000000000"
definition kRearmedTimeoutFactor :: int where "kRearmedTimeoutFactor = 6"
definition kMinFenceIntervalBytes :: nat where "kMinFenceIntervalBytes = 2 * 1372"
definition kFencesPerBudget :: nat where "kFencesPerBudget = 4"
definition kHintSlots :: nat where "kHintSlots = 4096"
definition kOpen :: int where "kOpen = 2 ^ 63 - 1"

record GateConfig =
  gc_floor_bytes :: nat
  gc_max_bytes :: nat
  gc_queue_budget_us :: int
  gc_safety_factor_x100 :: int
  gc_trusted_backlog_bytes :: nat
  gc_max_ledger_entries :: nat
  gc_legacy_timeout_ns :: int
  gc_probe_after_ns :: int
  gc_recovery_base_ns :: int
  gc_recovery_max_ns :: int

definition default_gate_config :: GateConfig where
  "default_gate_config =
     \<lparr>gc_floor_bytes = 8 * 1372, gc_max_bytes = 4 * 1024 * 1024, gc_queue_budget_us = 50000,
      gc_safety_factor_x100 = 200, gc_trusted_backlog_bytes = 3 * 1372, gc_max_ledger_entries = 64,
      gc_legacy_timeout_ns = 10000000000, gc_probe_after_ns = 10000000000,
      gc_recovery_base_ns = 500000000, gc_recovery_max_ns = 60000000000\<rparr>"

datatype Phase = Ph_Bootstrap | Ph_Active | Ph_Legacy

record Range =
  rg_lo :: nat
  rg_hi :: nat
  rg_snapshot :: nat
  rg_lo_sent_ns :: int
  rg_lo_backlog :: nat
  rg_delivered_at_send :: nat
  rg_credit_ns_at_send :: int
  rg_credit_sent_ns_at_send :: int

record Ledger =
  lg_friend_number :: nat
  lg_epoch :: u64
  lg_next_seq :: nat
  lg_emitted :: nat
  lg_delivered :: nat
  lg_last_fenced :: nat
  lg_entries :: "Range list"
  lg_phase :: Phase
  lg_first_fence_ns :: int
  lg_rearmed_active :: bool
  lg_empty_pings_sent :: nat
  lg_empty_pongs_received :: nat
  lg_last_refused_ns :: int
  lg_last_credit_ns :: int
  lg_last_credit_sent_ns :: int
  lg_rate_bps :: rat
  lg_rate_cur_max :: rat
  lg_rate_prev_max :: rat
  lg_rate_bucket_start_ns :: int
  lg_srtt_us :: int
  lg_bucket_start_ns :: int
  lg_cur_bucket_min_us :: int
  lg_prev_bucket_min_us :: int
  lg_last_trusted_ns :: int
  lg_activated_ns :: int
  lg_recovery_interval_ns :: int
  lg_next_recovery_ns :: int
  lg_probing :: bool
  lg_probe_released :: bool
  lg_last_probe_done_ns :: int

definition new_ledger :: Ledger where
  "new_ledger =
     \<lparr>lg_friend_number = 0, lg_epoch = 0, lg_next_seq = 1, lg_emitted = 0, lg_delivered = 0,
      lg_last_fenced = 0, lg_entries = [], lg_phase = Ph_Bootstrap, lg_first_fence_ns = 0,
      lg_rearmed_active = False, lg_empty_pings_sent = 0, lg_empty_pongs_received = 0,
      lg_last_refused_ns = 0, lg_last_credit_ns = 0, lg_last_credit_sent_ns = 0, lg_rate_bps = 0,
      lg_rate_cur_max = 0, lg_rate_prev_max = 0, lg_rate_bucket_start_ns = 0, lg_srtt_us = 0,
      lg_bucket_start_ns = 0, lg_cur_bucket_min_us = 0, lg_prev_bucket_min_us = 0,
      lg_last_trusted_ns = 0, lg_activated_ns = 0, lg_recovery_interval_ns = 0,
      lg_next_recovery_ns = 0, lg_probing = False, lg_probe_released = False,
      lg_last_probe_done_ns = 0\<rparr>"

text \<open>
  The gate: \<open>fg_ledgers\<close> is the ordered map by public key (an association list in key order),
  \<open>fg_hint_room\<close> and \<open>fg_hint_refused\<close> the two arrays of \<open>fast_reject\<close>, indexed by friend number.
\<close>

record FriendSendGate =
  fg_cfg :: GateConfig
  fg_epoch :: u64
  fg_ledgers_created :: u64
  fg_ledgers :: "(PublicKey \<times> Ledger) list"
  fg_number_to_key :: "nat \<Rightarrow> PublicKey option"
  fg_hint_room :: "nat \<Rightarrow> int"
  fg_hint_refused :: "nat \<Rightarrow> bool"

definition new_gate :: "GateConfig \<Rightarrow> u64 \<Rightarrow> FriendSendGate" where
  "new_gate cfg epoch =
     \<lparr>fg_cfg = cfg, fg_epoch = epoch, fg_ledgers_created = 0, fg_ledgers = [],
      fg_number_to_key = (\<lambda>_. None), fg_hint_room = (\<lambda>_. kOpen), fg_hint_refused = (\<lambda>_. False)\<rparr>"

section \<open>Packets\<close>

record Peek =
  pk_type :: FrameType
  pk_tunnel_id :: u16
  pk_payload :: "byte list"

definition peek_packet :: "byte list \<Rightarrow> Peek option" where
  "peek_packet packet =
     (if length packet < 1 + kFrameHeaderSize \<or> packet ! 0 \<noteq> kLosslessPacketByte then None
      else let tunnel_id = read_u16_be (drop 2 packet);
               len = unat (read_u16_be (drop 4 packet))
           in if length packet < 1 + kFrameHeaderSize + len then None
              else Some \<lparr>pk_type = frame_type_of_byte (packet ! 1), pk_tunnel_id = tunnel_id,
                         pk_payload = take len (drop (1 + kFrameHeaderSize) packet)\<rparr>)"

definition make_fence_packet :: "u64 \<Rightarrow> nat \<Rightarrow> byte list" where
  "make_fence_packet epoch seq =
     [kLosslessPacketByte, frame_type_code PING, 0, 0, 0, of_nat kFencePayloadSize, kFencePingKind]
       @ write_u64_be epoch @ write_u64_be (of_nat seq)"

section \<open>Ledger arithmetic\<close>

definition base_rtt_us :: "Ledger \<Rightarrow> int" where
  "base_rtt_us l =
     (let m = lg_cur_bucket_min_us l
      in if lg_prev_bucket_min_us l \<noteq> 0 \<and> (m = 0 \<or> lg_prev_bucket_min_us l < m)
         then lg_prev_bucket_min_us l else m)"

definition budget :: "GateConfig \<Rightarrow> Ledger \<Rightarrow> nat" where
  "budget cfg l =
     (if lg_phase l \<noteq> Ph_Active then gc_floor_bytes cfg
      else let rtt = base_rtt_us l
           in if rtt \<le> 0 \<or> lg_rate_bps l \<le> 0 then gc_floor_bytes cfg
              else let bytes = lg_rate_bps l * of_int (rtt + gc_queue_budget_us cfg) / 1000000
                                 * of_int (gc_safety_factor_x100 cfg) / 100
                   in if bytes \<ge> of_nat (gc_max_bytes cfg) then gc_max_bytes cfg
                      else max (gc_floor_bytes cfg) (nat \<lfloor>bytes\<rfloor>))"

definition fence_interval :: "GateConfig \<Rightarrow> Ledger \<Rightarrow> nat" where
  "fence_interval cfg l = max kMinFenceIntervalBytes (budget cfg l div kFencesPerBudget)"

definition observe_rate :: "rat \<Rightarrow> int \<Rightarrow> Ledger \<Rightarrow> Ledger" where
  "observe_rate bps now_ns l =
     (let l1 = (if lg_rate_bucket_start_ns l = 0
                   \<or> now_ns - lg_rate_bucket_start_ns l \<ge> kGateMinRttBucketNs
                then let adjacent = (lg_rate_bucket_start_ns l \<noteq> 0
                                     \<and> now_ns - lg_rate_bucket_start_ns l < 2 * kGateMinRttBucketNs)
                     in l\<lparr>lg_rate_prev_max := (if adjacent then lg_rate_cur_max l else 0),
                          lg_rate_cur_max := 0, lg_rate_bucket_start_ns := now_ns\<rparr>
                else l);
          l2 = l1\<lparr>lg_rate_cur_max := max (lg_rate_cur_max l1) bps\<rparr>
      in l2\<lparr>lg_rate_bps := max (lg_rate_cur_max l2) (lg_rate_prev_max l2)\<rparr>)"

definition age_rate :: "int \<Rightarrow> Ledger \<Rightarrow> Ledger" where
  "age_rate now_ns l =
     (if lg_rate_bucket_start_ns l \<noteq> 0 \<and> now_ns - lg_rate_bucket_start_ns l \<ge> 2 * kGateMinRttBucketNs
      then l\<lparr>lg_rate_cur_max := 0, lg_rate_prev_max := 0, lg_rate_bps := 0, lg_rate_bucket_start_ns := 0\<rparr>
      else l)"

text \<open>Integer division of the C++ \<open>int64_t\<close> operands here is on non-negative values.\<close>

definition observe_rtt :: "int \<Rightarrow> bool \<Rightarrow> int \<Rightarrow> Ledger \<Rightarrow> Ledger" where
  "observe_rtt rtt_us0 trusted now_ns l =
     (let rtt_us = (if rtt_us0 \<le> 0 then 1 else rtt_us0);
          l1 = l\<lparr>lg_srtt_us := (if lg_srtt_us l > 0 then (7 * lg_srtt_us l + rtt_us) div 8 else rtt_us)\<rparr>
      in if \<not> trusted then l1
         else
           let l2 = (if lg_bucket_start_ns l1 = 0 \<or> now_ns - lg_bucket_start_ns l1 \<ge> kGateMinRttBucketNs
                     then let adjacent = (lg_bucket_start_ns l1 \<noteq> 0
                                          \<and> now_ns - lg_bucket_start_ns l1 < 2 * kGateMinRttBucketNs)
                          in l1\<lparr>lg_prev_bucket_min_us := (if adjacent then lg_cur_bucket_min_us l1 else 0),
                                lg_cur_bucket_min_us := 0, lg_bucket_start_ns := now_ns\<rparr>
                     else l1);
               l3 = (if lg_cur_bucket_min_us l2 = 0 \<or> rtt_us < lg_cur_bucket_min_us l2
                     then l2\<lparr>lg_cur_bucket_min_us := rtt_us\<rparr> else l2);
               l4 = l3\<lparr>lg_last_trusted_ns := now_ns\<rparr>
           in if lg_probing l4 then l4\<lparr>lg_probe_released := True\<rparr> else l4)"

text \<open>The delivery-rate sample of \<open>credit\<close>.\<close>

definition credit_rate :: "nat \<Rightarrow> Range \<Rightarrow> int \<Rightarrow> Ledger \<Rightarrow> Ledger" where
  "credit_rate delivered matched now_ns l =
     (if rg_credit_ns_at_send matched > 0 \<and> delivered > rg_delivered_at_send matched
      then let ack_elapsed = now_ns - rg_credit_ns_at_send matched;
               send_elapsed = rg_lo_sent_ns matched - rg_credit_sent_ns_at_send matched;
               elapsed = max ack_elapsed send_elapsed
           in if elapsed > 0
              then observe_rate
                     (of_nat (delivered - rg_delivered_at_send matched) * 1000000000 / of_int elapsed)
                     now_ns l
              else l
      else l)"

definition credit :: "GateConfig \<Rightarrow> Range \<Rightarrow> nat \<Rightarrow> int \<Rightarrow> Ledger \<Rightarrow> Ledger" where
  "credit cfg matched seq now_ns l =
     (let delivered = max (lg_delivered l) (rg_snapshot matched);
          l1 = credit_rate delivered matched now_ns l;
          l2 = (if delivered > lg_delivered l1 \<or> lg_last_credit_ns l1 = 0
                then l1\<lparr>lg_last_credit_ns := now_ns, lg_last_credit_sent_ns := rg_lo_sent_ns matched\<rparr>
                else l1);
          l3 = l2\<lparr>lg_delivered := delivered\<rparr>;
          l4 = (if seq = rg_lo matched
                then observe_rtt ((now_ns - rg_lo_sent_ns matched) div 1000)
                       (rg_lo_backlog matched \<le> gc_trusted_backlog_bytes cfg) now_ns l3
                else l3);
          l5 = (if lg_probing l4 \<and> rg_lo_backlog matched = 0
                then l4\<lparr>lg_probe_released := True\<rparr> else l4);
          l6 = (if lg_phase l5 = Ph_Bootstrap
                then l5\<lparr>lg_phase := Ph_Active, lg_rearmed_active := False, lg_activated_ns := now_ns\<rparr>
                else l5)
      in l6\<lparr>lg_recovery_interval_ns := 0, lg_next_recovery_ns := 0\<rparr>)"

text \<open>Thinning the middle of the fence list: the ends stay, every other entry between goes.\<close>

definition thin_entries :: "Range list \<Rightarrow> Range list" where
  "thin_entries es =
     hd es # map (\<lambda>i. es ! i) (filter (\<lambda>i. i mod 2 = 0) [1..<length es - 1]) @ [last es]"

definition record_fence :: "GateConfig \<Rightarrow> nat \<Rightarrow> int \<Rightarrow> Ledger \<Rightarrow> Ledger" where
  "record_fence cfg seq now_ns l =
     (let l1 = (if lg_entries l \<noteq> [] \<and> rg_snapshot (last (lg_entries l)) = lg_emitted l
                then l\<lparr>lg_entries := butlast (lg_entries l) @ [(last (lg_entries l))\<lparr>rg_hi := seq\<rparr>]\<rparr>
                else l\<lparr>lg_entries := lg_entries l
                         @ [\<lparr>rg_lo = seq, rg_hi = seq, rg_snapshot = lg_emitted l, rg_lo_sent_ns = now_ns,
                             rg_lo_backlog = lg_emitted l - lg_delivered l,
                             rg_delivered_at_send = lg_delivered l,
                             rg_credit_ns_at_send = lg_last_credit_ns l,
                             rg_credit_sent_ns_at_send = lg_last_credit_sent_ns l\<rparr>]\<rparr>);
          l2 = (if length (lg_entries l1) > gc_max_ledger_entries cfg
                then l1\<lparr>lg_entries := thin_entries (lg_entries l1)\<rparr> else l1);
          l3 = l2\<lparr>lg_last_fenced := lg_emitted l2\<rparr>
      in if lg_first_fence_ns l3 = 0 then l3\<lparr>lg_first_fence_ns := now_ns\<rparr> else l3)"

text \<open>\<open>send_fence\<close>: the packets toxcore accepted, whether it did, and the ledger.\<close>

definition send_fence ::
    "GateConfig \<Rightarrow> Io \<Rightarrow> int \<Rightarrow> Ledger \<Rightarrow> (nat \<times> byte list) list \<times> bool \<times> Ledger" where
  "send_fence cfg io now_ns l =
     (case io_send io of None \<Rightarrow> ([], False, l)
      | Some send \<Rightarrow>
          let seq = lg_next_seq l; packet = make_fence_packet (lg_epoch l) seq
          in if \<not> send (lg_friend_number l) packet then ([], False, l)
             else ([(lg_friend_number l, packet)], True,
                   record_fence cfg seq now_ns (l\<lparr>lg_next_seq := lg_next_seq l + 1\<rparr>)))"

section \<open>Gate state\<close>

definition publish_hint :: "Ledger \<Rightarrow> FriendSendGate \<Rightarrow> FriendSendGate" where
  "publish_hint l g =
     (if lg_friend_number l \<ge> kHintSlots then g
      else let backlog = lg_emitted l - lg_delivered l;
               b = budget (fg_cfg g) l;
               room = (if lg_phase l \<noteq> Ph_Legacy
                       then if lg_probing l then -1
                            else if backlog > 0 then (if backlog \<ge> b then 0 else int (b - backlog))
                            else kOpen
                       else kOpen)
           in g\<lparr>fg_hint_room := (fg_hint_room g)(lg_friend_number l := room)\<rparr>)"

fun key_less :: "PublicKey \<Rightarrow> PublicKey \<Rightarrow> bool" where
  "key_less _ [] = False"
| "key_less [] (_ # _) = True"
| "key_less (a # as) (b # bs) = (if a < b then True else if b < a then False else key_less as bs)"

fun ledger_put :: "PublicKey \<Rightarrow> Ledger \<Rightarrow> (PublicKey \<times> Ledger) list \<Rightarrow> (PublicKey \<times> Ledger) list" where
  "ledger_put k l [] = [(k, l)]"
| "ledger_put k l ((k', l') # r) =
     (if k = k' then (k, l) # r
      else if key_less k k' then (k, l) # (k', l') # r
      else (k', l') # ledger_put k l r)"

definition put_ledger :: "PublicKey \<Rightarrow> Ledger \<Rightarrow> FriendSendGate \<Rightarrow> FriendSendGate" where
  "put_ledger k l g = g\<lparr>fg_ledgers := ledger_put k l (fg_ledgers g)\<rparr>"

definition next_ledger_epoch :: "FriendSendGate \<Rightarrow> u64 \<times> FriendSendGate" where
  "next_ledger_epoch g =
     (let c = fg_ledgers_created g + 1;
          z0 = fg_epoch g + 0x9E3779B97F4A7C15 * c;
          z1 = (z0 XOR drop_bit 30 z0) * 0xBF58476D1CE4E5B9;
          z2 = (z1 XOR drop_bit 27 z1) * 0x94D049BB133111EB
      in (z2 XOR drop_bit 31 z2, g\<lparr>fg_ledgers_created := c\<rparr>))"

text \<open>
  \<open>ledger_for\<close> resolves the friend number to its key (asking toxcore once and caching the answer),
  creates the ledger on first use and returns it; \<open>None\<close> is the null pointer.
\<close>

definition ledger_for ::
    "Io \<Rightarrow> nat \<Rightarrow> FriendSendGate \<Rightarrow> (PublicKey \<times> Ledger) option \<times> FriendSendGate" where
  "ledger_for io friend_number g =
     (let resolved =
            (case fg_number_to_key g friend_number of
               Some k \<Rightarrow> Some (k, g)
             | None \<Rightarrow>
                 (case io_public_key io of None \<Rightarrow> None
                  | Some pk \<Rightarrow>
                      (case pk friend_number of None \<Rightarrow> None
                       | Some k \<Rightarrow> Some (k, g\<lparr>fg_number_to_key := (fg_number_to_key g)(friend_number \<mapsto> k)\<rparr>))))
      in case resolved of
           None \<Rightarrow> (None, g)
         | Some (k, g1) \<Rightarrow>
             (let (l, g2) =
                (case map_of (fg_ledgers g1) k of
                   Some l \<Rightarrow> (l, g1)
                 | None \<Rightarrow> (let (e, g') = next_ledger_epoch g1 in (new_ledger\<lparr>lg_epoch := e\<rparr>, g')));
                  l' = l\<lparr>lg_friend_number := friend_number\<rparr>
              in (Some (k, l'), put_ledger k l' g2)))"

section \<open>The hooks\<close>

definition gate_admit ::
    "Io \<Rightarrow> nat \<Rightarrow> byte list \<Rightarrow> int \<Rightarrow> FriendSendGate \<Rightarrow> bool \<times> FriendSendGate" where
  "gate_admit io friend_number packet now_ns g =
     (case peek_packet packet of
        None \<Rightarrow> (True, g)
      | Some pk \<Rightarrow>
          if pk_type pk \<noteq> TUNNEL_DATA then (True, g)
          else case ledger_for io friend_number g of
                 (None, g1) \<Rightarrow> (True, g1)
               | (Some (k, l), g1) \<Rightarrow>
                   if lg_phase l = Ph_Legacy then (True, g1)
                   else let size = length packet;
                            backlog = lg_emitted l - lg_delivered l;
                            ok = (\<not> lg_probing l \<and> (backlog = 0 \<or> backlog + size \<le> budget (fg_cfg g1) l))
                        in if \<not> ok
                           then let l' = l\<lparr>lg_last_refused_ns := now_ns\<rparr>
                                in (False, publish_hint l' (put_ledger k l' g1))
                           else (True, g1))"

definition gate_on_accepted ::
    "Io \<Rightarrow> nat \<Rightarrow> byte list \<Rightarrow> int \<Rightarrow> FriendSendGate \<Rightarrow> (nat \<times> byte list) list \<times> FriendSendGate" where
  "gate_on_accepted io friend_number packet now_ns g =
     (case peek_packet packet of
        None \<Rightarrow> ([], g)
      | Some pk \<Rightarrow>
          if pk_type pk = TUNNEL_DATA
          then (case ledger_for io friend_number g of
                  (None, g1) \<Rightarrow> ([], g1)
                | (Some (k, l), g1) \<Rightarrow>
                    let l1 = l\<lparr>lg_emitted := lg_emitted l + length packet\<rparr>
                    in if lg_phase l1 \<noteq> Ph_Legacy
                          \<and> lg_emitted l1 - lg_last_fenced l1 \<ge> fence_interval (fg_cfg g1) l1
                       then let (sent, _, l2) = send_fence (fg_cfg g1) io now_ns l1
                            in (sent, put_ledger k l2 g1)
                       else ([], put_ledger k l1 g1))
          else if pk_type pk = PING \<and> pk_tunnel_id pk = 0 \<and> pk_payload pk = []
          then (case ledger_for io friend_number g of
                  (None, g1) \<Rightarrow> ([], g1)
                | (Some (k, l), g1) \<Rightarrow>
                    ([], put_ledger k (l\<lparr>lg_empty_pings_sent := lg_empty_pings_sent l + 1\<rparr>) g1))
          else ([], g))"

definition enter_legacy :: "PublicKey \<Rightarrow> Ledger \<Rightarrow> FriendSendGate \<Rightarrow> FriendSendGate" where
  "enter_legacy k l g =
     (let l' = l\<lparr>lg_phase := Ph_Legacy, lg_entries := [], lg_probing := False\<rparr>
      in publish_hint l' (put_ledger k l' g))"

text \<open>The search loop of \<open>on_received\<close>: the first entry whose range holds \<open>seq\<close>, and what follows it.\<close>

fun match_range :: "nat \<Rightarrow> Range list \<Rightarrow> (Range \<times> Range list) option" where
  "match_range seq [] = None"
| "match_range seq (r # rs) =
     (if rg_lo r \<le> seq \<and> seq \<le> rg_hi r then Some (r, rs) else match_range seq rs)"

definition gate_on_received ::
    "Io \<Rightarrow> nat \<Rightarrow> byte list \<Rightarrow> int \<Rightarrow> FriendSendGate \<Rightarrow> FriendSendGate" where
  "gate_on_received io friend_number packet now_ns g =
     (case peek_packet packet of
        None \<Rightarrow> g
      | Some pk \<Rightarrow>
          if pk_type pk \<noteq> PONG \<or> pk_tunnel_id pk \<noteq> 0 then g
          else case ledger_for io friend_number g of
                 (None, g1) \<Rightarrow> g1
               | (Some (k, l), g1) \<Rightarrow>
                   if pk_payload pk = []
                   then let l1 = l\<lparr>lg_empty_pongs_received := lg_empty_pongs_received l + 1\<rparr>
                        in if lg_phase l1 = Ph_Bootstrap \<and> lg_entries l1 \<noteq> []
                              \<and> lg_empty_pongs_received l1 > lg_empty_pings_sent l1
                           then enter_legacy k l1 g1
                           else put_ledger k l1 g1
                   else if length (pk_payload pk) \<noteq> kFencePayloadSize \<or> pk_payload pk ! 0 \<noteq> kFencePingKind
                           \<or> read_u64_be (drop 1 (pk_payload pk)) \<noteq> lg_epoch l
                   then g1
                   else let seq = unat (read_u64_be (drop 9 (pk_payload pk)))
                        in case match_range seq (lg_entries l) of
                             None \<Rightarrow> g1
                           | Some (r, rest) \<Rightarrow>
                               let l' = credit (fg_cfg g1) r seq now_ns (l\<lparr>lg_entries := rest\<rparr>)
                               in publish_hint l' (put_ledger k l' g1))"

definition gate_on_connection_status ::
    "Io \<Rightarrow> nat \<Rightarrow> bool \<Rightarrow> int \<Rightarrow> FriendSendGate \<Rightarrow> FriendSendGate" where
  "gate_on_connection_status io friend_number is_connected now_ns g =
     (if \<not> is_connected then g
      else case ledger_for io friend_number g of
             (None, g1) \<Rightarrow> g1
           | (Some (k, l), g1) \<Rightarrow>
               if lg_phase l \<noteq> Ph_Bootstrap
               then put_ledger k
                      (l\<lparr>lg_rearmed_active := (lg_phase l = Ph_Active), lg_phase := Ph_Bootstrap,
                         lg_recovery_interval_ns := 0, lg_next_recovery_ns := 0, lg_first_fence_ns := 0,
                         lg_empty_pongs_received := min (lg_empty_pongs_received l) (lg_empty_pings_sent l)\<rparr>) g1
               else g1)"

definition gate_fast_reject :: "nat \<Rightarrow> byte list \<Rightarrow> FriendSendGate \<Rightarrow> bool \<times> FriendSendGate" where
  "gate_fast_reject friend_number packet g =
     (if friend_number \<ge> kHintSlots \<or> length packet < 2 \<or> packet ! 0 \<noteq> kLosslessPacketByte
         \<or> packet ! 1 \<noteq> frame_type_code TUNNEL_DATA then (False, g)
      else let room = fg_hint_room g friend_number
           in if int (length packet) \<le> room then (False, g)
              else (True, g\<lparr>fg_hint_refused := (fg_hint_refused g)(friend_number := True)\<rparr>))"

definition gate_forget_friend_number :: "nat \<Rightarrow> FriendSendGate \<Rightarrow> FriendSendGate" where
  "gate_forget_friend_number friend_number g =
     (let g1 = g\<lparr>fg_number_to_key := (fg_number_to_key g)(friend_number := None)\<rparr>
      in if friend_number < kHintSlots
         then g1\<lparr>fg_hint_room := (fg_hint_room g1)(friend_number := kOpen),
                 fg_hint_refused := (fg_hint_refused g1)(friend_number := False)\<rparr>
         else g1)"

section \<open>The tick\<close>

text \<open>
  The body of \<open>on_tick\<close>'s loop up to \<open>publish_hint\<close>: probe bookkeeping. \<open>refused_hint\<close> is the flag
  \<open>fast_reject\<close> raised since the last tick.
\<close>

definition tick_probe :: "GateConfig \<Rightarrow> int \<Rightarrow> bool \<Rightarrow> bool \<Rightarrow> Ledger \<Rightarrow> Ledger" where
  "tick_probe cfg now_ns blocked refused_hint l =
     (let l1 = age_rate now_ns l;
          l2 = (if refused_hint then l1\<lparr>lg_last_refused_ns := now_ns\<rparr> else l1);
          trusted_ref = max (if lg_last_trusted_ns l2 > 0 then lg_last_trusted_ns l2 else lg_activated_ns l2)
                          (lg_last_probe_done_ns l2);
          l3 = (if lg_phase l2 = Ph_Active \<and> \<not> lg_probing l2 \<and> blocked \<and> trusted_ref > 0
                   \<and> now_ns - trusted_ref > gc_probe_after_ns cfg
                then l2\<lparr>lg_probing := True, lg_probe_released := False\<rparr> else l2)
      in if lg_probing l3 \<and> lg_probe_released l3 \<and> lg_delivered l3 = lg_emitted l3
         then l3\<lparr>lg_probing := False, lg_last_probe_done_ns := now_ns\<rparr> else l3)"

text \<open>Whether a fence is wanted, and whether it is a recovery fence.\<close>

definition tick_want :: "GateConfig \<Rightarrow> int \<Rightarrow> bool \<Rightarrow> Ledger \<Rightarrow> bool \<times> bool" where
  "tick_want cfg now_ns blocked l =
     (let covered = (lg_entries l \<noteq> [] \<and> rg_snapshot (last (lg_entries l)) = lg_emitted l)
      in if lg_probing l \<and> lg_delivered l = lg_emitted l
            \<and> \<not> (covered \<and> rg_lo_backlog (last (lg_entries l)) = 0) then (True, False)
         else if lg_emitted l - lg_last_fenced l \<ge> fence_interval cfg l then (True, False)
         else if (blocked \<or> lg_probing l) \<and> \<not> covered \<and> lg_emitted l > lg_delivered l then (True, False)
         else if (blocked \<or> lg_probing l) \<and> lg_entries l \<noteq> [] \<and> now_ns \<ge> lg_next_recovery_ns l
         then (True, True)
         else (False, False))"

definition tick_recovery :: "GateConfig \<Rightarrow> int \<Rightarrow> bool \<Rightarrow> Ledger \<Rightarrow> Ledger" where
  "tick_recovery cfg now_ns recovery l =
     (let l1 = (if recovery \<or> lg_recovery_interval_ns l = 0
                then l\<lparr>lg_recovery_interval_ns :=
                         (if lg_recovery_interval_ns l = 0 then gc_recovery_base_ns cfg
                          else min (lg_recovery_interval_ns l * 2) (gc_recovery_max_ns cfg))\<rparr>
                else l)
      in l1\<lparr>lg_next_recovery_ns := now_ns + lg_recovery_interval_ns l1\<rparr>)"

definition tick_ledger ::
    "Io \<Rightarrow> int \<Rightarrow> PublicKey \<Rightarrow> FriendSendGate \<Rightarrow> (nat \<times> byte list) list \<times> FriendSendGate" where
  "tick_ledger io now_ns k g =
     (case map_of (fg_ledgers g) k of
        None \<Rightarrow> ([], g)
      | Some l \<Rightarrow>
          if lg_phase l = Ph_Legacy then ([], g)
          else if fg_number_to_key g (lg_friend_number l) \<noteq> Some k then ([], g)
          else
            let cfg = fg_cfg g;
                legacy_after = (if lg_rearmed_active l then kRearmedTimeoutFactor * gc_legacy_timeout_ns cfg
                                else gc_legacy_timeout_ns cfg)
            in if lg_phase l = Ph_Bootstrap \<and> lg_first_fence_ns l > 0
                  \<and> now_ns - lg_first_fence_ns l > legacy_after
               then ([], enter_legacy k l g)
               else
                 let blocked = (lg_last_refused_ns l > 0 \<and> now_ns - lg_last_refused_ns l < kBlockedWindowNs);
                     f = lg_friend_number l;
                     refused_hint = (f < kHintSlots \<and> fg_hint_refused g f);
                     g1 = (if f < kHintSlots
                           then g\<lparr>fg_hint_refused := (fg_hint_refused g)(f := False)\<rparr> else g);
                     l1 = tick_probe cfg now_ns blocked refused_hint l;
                     g2 = publish_hint l1 (put_ledger k l1 g1);
                     (want, recovery) = tick_want cfg now_ns blocked l1
                 in if \<not> want then ([], g2)
                    else let (sent, ok, l2) = send_fence cfg io now_ns l1
                         in if \<not> ok then ([], g2)
                            else (sent, put_ledger k (tick_recovery cfg now_ns recovery l2) g2))"

fun tick_all ::
    "Io \<Rightarrow> int \<Rightarrow> PublicKey list \<Rightarrow> FriendSendGate \<Rightarrow> (nat \<times> byte list) list \<times> FriendSendGate" where
  "tick_all io now_ns [] g = ([], g)"
| "tick_all io now_ns (k # ks) g =
     (let (s1, g1) = tick_ledger io now_ns k g; (s2, g2) = tick_all io now_ns ks g1 in (s1 @ s2, g2))"

definition gate_on_tick :: "Io \<Rightarrow> int \<Rightarrow> FriendSendGate \<Rightarrow> (nat \<times> byte list) list \<times> FriendSendGate" where
  "gate_on_tick io now_ns g = tick_all io now_ns (map fst (fg_ledgers g)) g"

section \<open>The gate, the ordered stream and the peer\<close>

text \<open>
  The environment of one friend \<open>f\<close>, whose key is \<open>pk f\<close>: \<open>sy_stream\<close> is every packet toxcore accepted
  for the friend, in order; \<open>sy_got\<close> says how many of them the peer application has received (the
  stream is lossless and ordered, across reconnects too, as the header of the gate documents it, so it
  is a prefix). Any friend number may be forgotten at any time. The peer runs this program: it decodes a packet without its prefix
  byte and answers a PING with \<open>make_pong_for\<close>.
\<close>

record gate_sys =
  sy_gate :: FriendSendGate
  sy_stream :: "byte list list"
  sy_got :: nat

definition echo_of :: "byte list \<Rightarrow> byte list option" where
  "echo_of packet =
     (case deserialize (drop 1 packet) of
        Inl _ \<Rightarrow> None
      | Inr f \<Rightarrow> if fr_type f = PING then Some (kLosslessPacketByte # serialize (make_pong_for f)) else None)"

definition data_size :: "byte list \<Rightarrow> nat" where
  "data_size p =
     (case peek_packet p of Some pk \<Rightarrow> if pk_type pk = TUNNEL_DATA then length p else 0 | None \<Rightarrow> 0)"

definition data_bytes :: "byte list list \<Rightarrow> nat" where
  "data_bytes ps = sum_list (map data_size ps)"

text \<open>What the tunnel layer hands to toxcore: prefixed, complete frames, never a PING with a payload
  (only the gate sends those).\<close>

definition tunnel_packet :: "byte list \<Rightarrow> bool" where
  "tunnel_packet p =
     (case peek_packet p of Some pk \<Rightarrow> pk_type pk \<noteq> PING \<or> pk_payload pk = [] | None \<Rightarrow> False)"

text \<open>A packet that carries a complete fence payload of the epoch of one of the gate's ledgers.\<close>

definition claims_fence :: "FriendSendGate \<Rightarrow> byte list \<Rightarrow> bool" where
  "claims_fence g p =
     (case peek_packet p of None \<Rightarrow> False
      | Some pk \<Rightarrow>
          length (pk_payload pk) = kFencePayloadSize \<and> pk_payload pk ! 0 = kFencePingKind
          \<and> (\<exists>l \<in> snd ` set (fg_ledgers g). read_u64_be (drop 1 (pk_payload pk)) = lg_epoch l))"

inductive gate_step :: "(nat \<Rightarrow> PublicKey option) \<Rightarrow> nat \<Rightarrow> gate_sys \<Rightarrow> gate_sys \<Rightarrow> bool"
  for pk :: "nat \<Rightarrow> PublicKey option" and f :: nat where
  gs_accept:
    "tunnel_packet p \<Longrightarrow> io_public_key io = Some pk \<Longrightarrow> gate_on_accepted io f p now (sy_gate s) = (sent, g) \<Longrightarrow>
     gate_step pk f s (s\<lparr>sy_gate := g, sy_stream := sy_stream s @ p # map snd sent\<rparr>)"
| gs_admit:
    "io_public_key io = Some pk \<Longrightarrow> gate_admit io f p now (sy_gate s) = (ok, g) \<Longrightarrow>
     gate_step pk f s (s\<lparr>sy_gate := g\<rparr>)"
| gs_fast_reject:
    "gate_fast_reject f p (sy_gate s) = (ok, g) \<Longrightarrow> gate_step pk f s (s\<lparr>sy_gate := g\<rparr>)"
| gs_tick:
    "io_public_key io = Some pk \<Longrightarrow> gate_on_tick io now (sy_gate s) = (sent, g) \<Longrightarrow>
     gate_step pk f s (s\<lparr>sy_gate := g, sy_stream := sy_stream s @ map snd sent\<rparr>)"
| gs_status:
    "io_public_key io = Some pk \<Longrightarrow>
     gate_step pk f s (s\<lparr>sy_gate := gate_on_connection_status io f c now (sy_gate s)\<rparr>)"
| gs_deliver:
    "sy_got s < length (sy_stream s) \<Longrightarrow> gate_step pk f s (s\<lparr>sy_got := sy_got s + 1\<rparr>)"
| gs_echo:
    "io_public_key io = Some pk \<Longrightarrow> i < sy_got s \<Longrightarrow> echo_of (sy_stream s ! i) = Some p \<Longrightarrow>
     gate_step pk f s (s\<lparr>sy_gate := gate_on_received io f p now (sy_gate s)\<rparr>)"
| gs_stray:
    "io_public_key io = Some pk \<Longrightarrow> \<not> claims_fence (sy_gate s) p \<Longrightarrow>
     gate_step pk f s (s\<lparr>sy_gate := gate_on_received io f p now (sy_gate s)\<rparr>)"
| gs_forget:
    "gate_step pk f s (s\<lparr>sy_gate := gate_forget_friend_number n (sy_gate s)\<rparr>)"

inductive gate_reachable :: "(nat \<Rightarrow> PublicKey option) \<Rightarrow> nat \<Rightarrow> GateConfig \<Rightarrow> gate_sys \<Rightarrow> bool"
  for pk :: "nat \<Rightarrow> PublicKey option" and f :: nat and cfg :: GateConfig where
  gr_init: "gate_reachable pk f cfg \<lparr>sy_gate = new_gate cfg e, sy_stream = [], sy_got = 0\<rparr>"
| gr_step: "gate_reachable pk f cfg s \<Longrightarrow> gate_step pk f s t \<Longrightarrow> gate_reachable pk f cfg t"

section \<open>Fence packets\<close>

lemma data_bytes_simps [simp]:
  "data_bytes [] = 0" "data_bytes (p # ps) = data_size p + data_bytes ps"
  "data_bytes (ps @ qs) = data_bytes ps + data_bytes qs"
  by (simp_all add: data_bytes_def)

lemma data_bytes_take_mono: "i \<le> j \<Longrightarrow> data_bytes (take i ps) \<le> data_bytes (take j ps)"
  by (metis data_bytes_simps(3) le_add1 le_add_diff_inverse take_add)

lemma data_bytes_take_le: "data_bytes (take i ps) \<le> data_bytes ps"
  by (metis append_take_drop_id data_bytes_simps(3) le_add1)

definition fence_payload :: "u64 \<Rightarrow> nat \<Rightarrow> byte list" where
  "fence_payload e s = kFencePingKind # write_u64_be e @ write_u64_be (of_nat s)"

lemma length_fence_payload [simp]: "length (fence_payload e s) = 17"
  by (simp add: fence_payload_def)

lemma make_fence_packet_eq:
  "make_fence_packet e s = kLosslessPacketByte # serialize ((new_frame PING 0)\<lparr>fr_payload := fence_payload e s\<rparr>)"
proof -
  have h: "write_u16_be 0 = [0, 0]" "write_u16_be 17 = [0, 17]"
    by (simp_all add: write_u16_be_def)
  have "payload_view ((new_frame PING 0)\<lparr>fr_payload := fence_payload e s\<rparr>) = fence_payload e s"
    by (simp add: payload_view_def)
  then show ?thesis
    by (simp add: make_fence_packet_def serialize_eq h) (simp add: fence_payload_def kFencePayloadSize_def)
qed

lemma peek_serialize:
  assumes "length (payload_view f) \<le> 65535"
  shows "peek_packet (kLosslessPacketByte # serialize f) =
           Some \<lparr>pk_type = fr_type f, pk_tunnel_id = fr_tunnel_id f, pk_payload = payload_view f\<rparr>"
  using assms
  by (simp add: peek_packet_def serialize_eq kFrameHeaderSize_def codec_simps Let_def
      unat_of_nat_u16 nth_append drop_Cons')

lemma peek_fence:
  "peek_packet (make_fence_packet e s) =
     Some \<lparr>pk_type = PING, pk_tunnel_id = 0, pk_payload = fence_payload e s\<rparr>"
  unfolding make_fence_packet_eq
  by (subst peek_serialize) (simp_all add: payload_view_def)

lemma data_size_fence [simp]: "data_size (make_fence_packet e s) = 0"
  by (simp add: data_size_def peek_fence)

lemma tunnel_packet_not_fence: "tunnel_packet p \<Longrightarrow> p \<noteq> make_fence_packet e s"
  by (auto simp: tunnel_packet_def peek_fence fence_payload_def)

lemma fence_payload_fields:
  "read_u64_be (drop 1 (fence_payload e s)) = e"
  "unat (read_u64_be (drop 9 (fence_payload e s))) = s mod 2 ^ 64"
proof -
  show "read_u64_be (drop 1 (fence_payload e s)) = e"
    by (simp add: fence_payload_def codec_simps)
  have "drop 9 (fence_payload e s) = write_u64_be (of_nat s)"
    by (simp add: fence_payload_def)
  then have "unat (read_u64_be (drop 9 (fence_payload e s))) = unat (of_nat s :: u64)"
    by (simp only: codec_simps)
  also have "\<dots> = s mod 2 ^ LENGTH(64)"
    by (simp only: unat_of_nat take_bit_eq_mod)
  finally show "unat (read_u64_be (drop 9 (fence_payload e s))) = s mod 2 ^ 64"
    by simp
qed

lemma make_fence_packet_inj:
  assumes "make_fence_packet e s = make_fence_packet e t" and "s < 2 ^ 64" and "t < 2 ^ 64"
  shows "s = t"
proof -
  have "fence_payload e s = fence_payload e t"
    using peek_fence [of e s] peek_fence [of e t] assms(1) by simp
  then have "s mod 2 ^ 64 = t mod 2 ^ 64"
    by (metis fence_payload_fields(2))
  then show ?thesis
    using assms(2,3) by (simp only: mod_less)
qed

text \<open>The peer's answer to a fence: the PONG carries the fence's payload.\<close>

lemma echo_of_fence:
  "echo_of (make_fence_packet e s) =
     Some (kLosslessPacketByte # serialize ((new_frame PONG 0)\<lparr>fr_payload := fence_payload e s\<rparr>))"
proof -
  let ?f = "(new_frame PING 0)\<lparr>fr_payload := fence_payload e s\<rparr>"
  have v: "payload_view ?f = fence_payload e s"
    by (simp add: payload_view_def)
  have "deserialize (serialize ?f) = Inr (wire_frame PING 0 (fence_payload e s))"
    using deserialize_serialize [of ?f "[]"] v by simp
  then show ?thesis
    by (simp add: echo_of_def make_fence_packet_eq make_pong_for_def Let_def fence_payload_def)
qed

lemma peek_echo_fence:
  "echo_of (make_fence_packet e s) = Some p \<Longrightarrow>
     peek_packet p = Some \<lparr>pk_type = PONG, pk_tunnel_id = 0, pk_payload = fence_payload e s\<rparr>"
  unfolding echo_of_fence by (auto simp: peek_serialize payload_view_def)

end
