(* ===== verification/Gate_Credit.thy ===== *)
theory Gate_Credit
  imports Friend_Send_Gate
begin

text \<open>
  Soundness of the gate's credit: along every run of the gate, the ordered stream and the peer
  (\<^const>\<open>gate_step\<close>), the ledger's \<open>delivered\<close> counter never runs ahead of the DATA bytes the peer
  application has received. \<open>ledger_inv\<close> is the invariant of one ledger against the stream, every
  hook is shown to keep it, and the properties of the gate follow.
\<close>

section \<open>Ledger invariant\<close>

text \<open>The fence ranges are disjoint and in sequence order.\<close>

definition ranges_ok :: "Range list \<Rightarrow> bool" where
  "ranges_ok es \<longleftrightarrow> sorted_wrt (\<lambda>a b. rg_hi a < rg_lo b) es \<and> (\<forall>r \<in> set es. rg_lo r \<le> rg_hi r)"

definition ledger_inv :: "Ledger \<Rightarrow> byte list list \<Rightarrow> nat \<Rightarrow> bool" where
  "ledger_inv l st n \<longleftrightarrow>
     lg_emitted l = data_bytes st \<and> lg_delivered l \<le> data_bytes (take n st)
     \<and> (\<forall>r \<in> set (lg_entries l). rg_snapshot r \<le> lg_emitted l \<and> rg_hi r < lg_next_seq l)
     \<and> (lg_entries l \<noteq> [] \<longrightarrow> Suc (rg_hi (last (lg_entries l))) = lg_next_seq l)
     \<and> ranges_ok (lg_entries l)
     \<and> (\<forall>i < length st. \<forall>s < 2 ^ 64. st ! i = make_fence_packet (lg_epoch l) s \<longrightarrow>
           s < lg_next_seq l
           \<and> (\<forall>r \<in> set (lg_entries l). rg_lo r \<le> s \<longrightarrow> s \<le> rg_hi r \<longrightarrow>
                 rg_snapshot r \<le> data_bytes (take i st)))"

text \<open>The fields the invariant speaks of.\<close>

definition ledger_core :: "Ledger \<Rightarrow> nat \<times> nat \<times> Range list \<times> nat \<times> u64" where
  "ledger_core l = (lg_emitted l, lg_delivered l, lg_entries l, lg_next_seq l, lg_epoch l)"

lemma ledger_inv_cong: "ledger_core l = ledger_core l' \<Longrightarrow> ledger_inv l st n = ledger_inv l' st n"
  by (simp add: ledger_core_def ledger_inv_def)

lemma ledger_inv_fence:
  assumes "ledger_inv l st n" and "i < length st" and "s < 2 ^ 64" and "st ! i = make_fence_packet (lg_epoch l) s"
  shows "s < lg_next_seq l"
    and "r \<in> set (lg_entries l) \<Longrightarrow> rg_lo r \<le> s \<Longrightarrow> s \<le> rg_hi r \<Longrightarrow> rg_snapshot r \<le> data_bytes (take i st)"
  using assms unfolding ledger_inv_def by blast+

lemma ledger_inv_got: "ledger_inv l st n \<Longrightarrow> n \<le> m \<Longrightarrow> ledger_inv l st m"
  using data_bytes_take_mono [of n m st] by (auto simp: ledger_inv_def)

lemma ledger_inv_append_other:
  assumes "ledger_inv l st n" and "n \<le> length st" and "\<And>s. p \<noteq> make_fence_packet (lg_epoch l) s"
  shows "ledger_inv (l\<lparr>lg_emitted := lg_emitted l + data_size p\<rparr>) (st @ [p]) n"
  using assms by (auto simp: ledger_inv_def nth_append less_Suc_eq)

lemma ledger_inv_fewer:
  assumes "ledger_inv l st n" and "set es \<subseteq> set (lg_entries l)"
    and "es \<noteq> [] \<Longrightarrow> last es = last (lg_entries l)" and "ranges_ok (lg_entries l) \<Longrightarrow> ranges_ok es"
  shows "ledger_inv (l\<lparr>lg_entries := es\<rparr>) st n"
  using assms by (cases "lg_entries l = []") (auto simp: ledger_inv_def subset_iff)

lemma thin_entries_nth:
  assumes "2 \<le> length es"
  shows "thin_entries es = map (\<lambda>i. es ! i) (0 # filter (\<lambda>i. i mod 2 = 0) [1..<length es - 1] @ [length es - 1])"
proof -
  have "es \<noteq> []" using assms by auto
  then show ?thesis by (simp add: thin_entries_def hd_conv_nth last_conv_nth)
qed

lemma sorted_wrt_filter_upt: "sorted_wrt (<) (filter P [i..<j])"
  by (simp add: sorted_wrt_filter)

lemma thin_entries_ranges_ok:
  assumes len: "2 \<le> length es" and ok: "ranges_ok es"
  shows "ranges_ok (thin_entries es)"
proof -
  let ?ix = "0 # filter (\<lambda>i. i mod 2 = 0) [1..<length es - 1] @ [length es - 1]"
  have ix: "sorted_wrt (<) ?ix" "\<forall>i \<in> set ?ix. i < length es"
    using len sorted_wrt_filter_upt [of "\<lambda>i. i mod 2 = 0" 1 "length es - 1"] by (auto simp: sorted_wrt_append)
  have "sorted_wrt (\<lambda>i j. rg_hi (es ! i) < rg_lo (es ! j)) ?ix"
    using ix ok by (intro sorted_wrt_mono_rel [OF _ ix(1)])
      (auto simp: ranges_ok_def intro: sorted_wrt_nth_less [of "\<lambda>a b. rg_hi a < rg_lo b"])
  then have "sorted_wrt (\<lambda>a b. rg_hi a < rg_lo b) (thin_entries es)"
    unfolding thin_entries_nth [OF len] sorted_wrt_map .
  then show ?thesis
    using ok ix(2) unfolding thin_entries_nth [OF len] ranges_ok_def by auto
qed

lemma thin_entries_subset: "2 \<le> length es \<Longrightarrow> set (thin_entries es) \<subseteq> set es"
  by (auto simp: thin_entries_def intro: hd_in_set last_in_set)

lemma last_thin_entries [simp]: "last (thin_entries es) = last es"
  by (simp add: thin_entries_def)

lemma peek_deserialize:
  assumes "peek_packet p = Some pk"
  shows "\<exists>f. deserialize (drop 1 p) = Inr f \<and> fr_type f = pk_type pk \<and> payload_view f = pk_payload pk"
proof -
  have "6 \<le> length p"
    using assms by (auto simp: peek_packet_def kFrameHeaderSize_def split: if_splits)
  then obtain a b c d e g r where p: "p = a # b # c # d # e # g # r"
    by (auto simp: numeral_eq_Suc Suc_le_length_iff)
  let ?n = "unat (read_u16_be [e, g])"
  have rd: "read_u16_be (e # g # r) = read_u16_be [e, g]"
    using read_u16_be_append [of "[e, g]" r] by simp
  have pk: "pk_type pk = frame_type_of_byte b" "pk_payload pk = take ?n r" "?n \<le> length r"
    using assms rd by (auto simp: p peek_packet_def kFrameHeaderSize_def Let_def split: if_splits)
  have "deserialize (b # [c, d, e, g] @ take ?n r @ drop ?n r) = Inr (wire_frame
      (if is_valid_frame_type b then frame_type_of_byte b else FT_Unknown) (read_u16_be [c, d, e, g]) (take ?n r))"
    by (rule deserialize_eq) (use pk(3) in auto)
  moreover have "(if is_valid_frame_type b then frame_type_of_byte b else FT_Unknown) = frame_type_of_byte b"
    by (auto simp: is_valid_frame_type_def frame_type_of_byte_def)
  ultimately show ?thesis
    using pk by (simp add: p)
qed

lemma peek_echo_tunnel:
  assumes "tunnel_packet p" and "echo_of p = Some q"
  shows "peek_packet q = Some \<lparr>pk_type = PONG, pk_tunnel_id = 0, pk_payload = []\<rparr>"
proof -
  from assms(1) obtain pk where pk: "peek_packet p = Some pk" "pk_type pk \<noteq> PING \<or> pk_payload pk = []"
    by (auto simp: tunnel_packet_def split: option.splits)
  obtain f where f: "deserialize (drop 1 p) = Inr f" "fr_type f = pk_type pk" "payload_view f = pk_payload pk"
    using peek_deserialize [OF pk(1)] by blast
  then have "q = kLosslessPacketByte # serialize (new_frame PONG 0)"
    using assms(2) pk(2) by (auto simp: echo_of_def make_pong_for_def split: if_splits)
  then show ?thesis
    by (simp add: peek_serialize payload_view_def)
qed

section \<open>Every hook keeps the invariant\<close>

definition stream_ok :: "Ledger \<Rightarrow> byte list list \<Rightarrow> bool" where
  "stream_ok l st \<longleftrightarrow>
     (\<forall>p \<in> set st. tunnel_packet p \<or> (\<exists>s < 2 ^ 64. p = make_fence_packet (lg_epoch l) s))"

definition ledger_ok :: "Ledger \<Rightarrow> byte list list \<Rightarrow> nat \<Rightarrow> bool" where
  "ledger_ok l st n \<longleftrightarrow> (lg_next_seq l \<le> 2 ^ 64 \<longrightarrow> ledger_inv l st n \<and> stream_ok l st)"

lemma ledger_ok_cong: "ledger_core l = ledger_core l' \<Longrightarrow> ledger_ok l st n = ledger_ok l' st n"
  using ledger_inv_cong [of l l' st n] by (simp add: ledger_ok_def stream_ok_def ledger_core_def)

lemma ledger_ok_append_tunnel:
  assumes "ledger_ok l st n" and "n \<le> length st" and "tunnel_packet p"
  shows "ledger_ok (l\<lparr>lg_emitted := lg_emitted l + data_size p\<rparr>) (st @ [p]) n"
  using assms ledger_inv_append_other [of l st n p] tunnel_packet_not_fence [of p]
  by (auto simp: ledger_ok_def stream_ok_def)

lemma ledger_ok_fewer:
  assumes "ledger_ok l st n" and "set es \<subseteq> set (lg_entries l)"
    and "es \<noteq> [] \<Longrightarrow> last es = last (lg_entries l)" and "ranges_ok (lg_entries l) \<Longrightarrow> ranges_ok es"
  shows "ledger_ok (l\<lparr>lg_entries := es\<rparr>) st n"
  using assms ledger_inv_fewer [of l st n es] by (auto simp: ledger_ok_def stream_ok_def)

text \<open>Recording a fence that toxcore accepted.\<close>

definition fence_entries :: "Ledger \<Rightarrow> int \<Rightarrow> Range list" where
  "fence_entries l now_ns =
     (if lg_entries l \<noteq> [] \<and> rg_snapshot (last (lg_entries l)) = lg_emitted l
      then butlast (lg_entries l) @ [(last (lg_entries l))\<lparr>rg_hi := lg_next_seq l\<rparr>]
      else lg_entries l
             @ [\<lparr>rg_lo = lg_next_seq l, rg_hi = lg_next_seq l, rg_snapshot = lg_emitted l, rg_lo_sent_ns = now_ns,
                 rg_lo_backlog = lg_emitted l - lg_delivered l, rg_delivered_at_send = lg_delivered l,
                 rg_credit_ns_at_send = lg_last_credit_ns l,
                 rg_credit_sent_ns_at_send = lg_last_credit_sent_ns l\<rparr>])"

lemma record_fence_core:
  "ledger_core (record_fence cfg (lg_next_seq l) now (l\<lparr>lg_next_seq := lg_next_seq l + 1\<rparr>)) =
     (lg_emitted l, lg_delivered l,
      (if length (fence_entries l now) > gc_max_ledger_entries cfg
       then thin_entries (fence_entries l now) else fence_entries l now),
      lg_next_seq l + 1, lg_epoch l)"
  by (simp add: record_fence_def fence_entries_def ledger_core_def Let_def)

lemma fence_entries_cases:
  assumes "r \<in> set (fence_entries l now)"
  shows "r \<in> set (lg_entries l)
         \<or> (rg_hi r = lg_next_seq l \<and> rg_snapshot r = lg_emitted l
             \<and> (rg_lo r = lg_next_seq l \<or> (lg_entries l \<noteq> [] \<and> rg_lo r = rg_lo (last (lg_entries l))
                                            \<and> rg_snapshot (last (lg_entries l)) = lg_emitted l)))"
  using assms by (auto simp: fence_entries_def split: if_splits dest: in_set_butlastD)

lemma last_fence_entries:
  "fence_entries l now \<noteq> []" "rg_hi (last (fence_entries l now)) = lg_next_seq l"
  by (auto simp: fence_entries_def)

lemma fence_entries_ranges_ok:
  assumes "ledger_inv l st n"
  shows "ranges_ok (fence_entries l now)"
proof (cases "lg_entries l" rule: rev_cases)
  case Nil
  then show ?thesis by (simp add: fence_entries_def ranges_ok_def)
next
  case (snoc es r)
  then show ?thesis
    using assms by (auto simp: fence_entries_def ranges_ok_def ledger_inv_def sorted_wrt_append less_imp_le)
qed

text \<open>A fence sent earlier that falls into a recorded range falls into one of the old ranges with the
  same snapshot.\<close>

lemma fence_entries_covered:
  assumes inv: "ledger_inv l st n" and r: "r \<in> set (fence_entries l now)"
    and s: "rg_lo r \<le> s" "s \<le> rg_hi r" "s < lg_next_seq l"
  shows "\<exists>r' \<in> set (lg_entries l). rg_lo r' \<le> s \<and> s \<le> rg_hi r' \<and> rg_snapshot r' = rg_snapshot r"
  using fence_entries_cases [OF r]
proof
  assume "r \<in> set (lg_entries l)"
  then show ?thesis using s by blast
next
  assume "rg_hi r = lg_next_seq l \<and> rg_snapshot r = lg_emitted l
             \<and> (rg_lo r = lg_next_seq l \<or> (lg_entries l \<noteq> [] \<and> rg_lo r = rg_lo (last (lg_entries l))
                                            \<and> rg_snapshot (last (lg_entries l)) = lg_emitted l))"
  then have "lg_entries l \<noteq> []" "rg_lo r = rg_lo (last (lg_entries l))"
      "rg_snapshot (last (lg_entries l)) = rg_snapshot r"
    using s by auto
  moreover from this(1) have "s \<le> rg_hi (last (lg_entries l))"
    using inv s(3) by (auto simp: ledger_inv_def)
  ultimately show ?thesis
    using s by (intro bexI [of _ "last (lg_entries l)"]) auto
qed

lemma ledger_inv_fence_entries:
  assumes inv: "ledger_inv l st n" and n: "n \<le> length st" and seq: "lg_next_seq l < 2 ^ 64"
  shows "ledger_inv (l\<lparr>lg_next_seq := Suc (lg_next_seq l), lg_entries := fence_entries l now\<rparr>)
           (st @ [make_fence_packet (lg_epoch l) (lg_next_seq l)]) n"
proof -
  let ?st = "st @ [make_fence_packet (lg_epoch l) (lg_next_seq l)]"
  have bounds: "rg_snapshot r \<le> lg_emitted l" "rg_hi r < Suc (lg_next_seq l)"
    if "r \<in> set (fence_entries l now)" for r
    using fence_entries_cases [OF that] inv by (auto simp: ledger_inv_def)
  have "s < Suc (lg_next_seq l) \<and> (\<forall>r \<in> set (fence_entries l now). rg_lo r \<le> s \<longrightarrow> s \<le> rg_hi r \<longrightarrow>
          rg_snapshot r \<le> data_bytes (take i ?st))"
    if i: "i < length ?st" and s: "s < 2 ^ 64" and p: "?st ! i = make_fence_packet (lg_epoch l) s" for i s
  proof (cases "i < length st")
    case True
    then have p': "st ! i = make_fence_packet (lg_epoch l) s"
      using p by (simp add: nth_append)
    then have lt: "s < lg_next_seq l"
      using ledger_inv_fence(1) [OF inv True s] by blast
    have "rg_snapshot r \<le> data_bytes (take i st)"
      if "r \<in> set (fence_entries l now)" "rg_lo r \<le> s" "s \<le> rg_hi r" for r
      using fence_entries_covered [OF inv that lt] ledger_inv_fence(2) [OF inv True s p'] by metis
    then show ?thesis
      using lt True by simp
  next
    case False
    then have "i = length st" "make_fence_packet (lg_epoch l) (lg_next_seq l) = make_fence_packet (lg_epoch l) s"
      using i p by (auto simp: nth_append split: if_splits)
    moreover from this(2) have "s = lg_next_seq l"
      using make_fence_packet_inj seq s by blast
    ultimately show ?thesis
      using inv bounds(1) by (auto simp: ledger_inv_def)
  qed
  then show ?thesis
    unfolding ledger_inv_def
    using inv n bounds fence_entries_ranges_ok [OF inv]
    by (intro conjI allI ballI impI) (auto simp: ledger_inv_def last_fence_entries)
qed

lemma ledger_ok_record_fence:
  assumes ok: "ledger_ok l st n" and n: "n \<le> length st" and cfg: "1 \<le> gc_max_ledger_entries cfg"
  shows "ledger_ok (record_fence cfg (lg_next_seq l) now (l\<lparr>lg_next_seq := lg_next_seq l + 1\<rparr>))
           (st @ [make_fence_packet (lg_epoch l) (lg_next_seq l)]) n"
proof -
  let ?es = "fence_entries l now"
  let ?es' = "if length ?es > gc_max_ledger_entries cfg then thin_entries ?es else ?es"
  let ?m = "l\<lparr>lg_next_seq := Suc (lg_next_seq l), lg_entries := ?es\<rparr>"
  let ?st = "st @ [make_fence_packet (lg_epoch l) (lg_next_seq l)]"
  have "ledger_ok ?m ?st n"
    using ok n ledger_inv_fence_entries [of l st n now]
    by (auto simp: ledger_ok_def stream_ok_def Suc_le_eq simp del: One_nat_def)
  then have "ledger_ok (?m\<lparr>lg_entries := ?es'\<rparr>) ?st n"
    by (rule ledger_ok_fewer) (use thin_entries_subset [of ?es] thin_entries_ranges_ok [of ?es] cfg in auto)
  moreover have "ledger_core (record_fence cfg (lg_next_seq l) now (l\<lparr>lg_next_seq := lg_next_seq l + 1\<rparr>))
      = ledger_core (?m\<lparr>lg_entries := ?es'\<rparr>)"
    unfolding record_fence_core by (simp add: ledger_core_def)
  ultimately show ?thesis
    using ledger_ok_cong by blast
qed

text \<open>Settling a fence.\<close>

lemma ledger_core_fields:
  "lg_emitted l = fst (ledger_core l)" "lg_delivered l = fst (snd (ledger_core l))"
  "lg_entries l = fst (snd (snd (ledger_core l)))" "lg_next_seq l = fst (snd (snd (snd (ledger_core l))))"
  "lg_epoch l = snd (snd (snd (snd (ledger_core l))))"
  by (simp_all add: ledger_core_def)

lemma ledger_core_updates [simp]:
  "ledger_core (lg_last_credit_ns_update f l) = ledger_core l"
  "ledger_core (lg_last_credit_sent_ns_update f l) = ledger_core l"
  "ledger_core (lg_probe_released_update g l) = ledger_core l"
  "ledger_core (lg_probing_update g l) = ledger_core l"
  "ledger_core (lg_phase_update h l) = ledger_core l"
  "ledger_core (lg_rearmed_active_update g l) = ledger_core l"
  "ledger_core (lg_activated_ns_update f l) = ledger_core l"
  "ledger_core (lg_recovery_interval_ns_update f l) = ledger_core l"
  "ledger_core (lg_next_recovery_ns_update f l) = ledger_core l"
  "ledger_core (lg_last_refused_ns_update f l) = ledger_core l"
  "ledger_core (lg_first_fence_ns_update f l) = ledger_core l"
  "ledger_core (lg_empty_pings_sent_update k l) = ledger_core l"
  "ledger_core (lg_empty_pongs_received_update k l) = ledger_core l"
  "ledger_core (lg_friend_number_update k l) = ledger_core l"
  by (simp_all add: ledger_core_def)

lemma ledger_core_if [simp]: "ledger_core (if b then l else m) = (if b then ledger_core l else ledger_core m)"
  by simp

lemma ledger_core_rate_updates [simp]:
  "ledger_core (lg_rate_cur_max_update f l) = ledger_core l"
  "ledger_core (lg_rate_prev_max_update f l) = ledger_core l"
  "ledger_core (lg_rate_bps_update f l) = ledger_core l"
  "ledger_core (lg_rate_bucket_start_ns_update g l) = ledger_core l"
  "ledger_core (lg_srtt_us_update g l) = ledger_core l"
  "ledger_core (lg_bucket_start_ns_update g l) = ledger_core l"
  "ledger_core (lg_cur_bucket_min_us_update g l) = ledger_core l"
  "ledger_core (lg_prev_bucket_min_us_update g l) = ledger_core l"
  "ledger_core (lg_last_trusted_ns_update g l) = ledger_core l"
  "ledger_core (lg_last_probe_done_ns_update g l) = ledger_core l"
  by (simp_all add: ledger_core_def)

lemmas core_simps = ledger_core_updates ledger_core_if ledger_core_rate_updates if_cancel

lemma ledger_core_observers [simp]:
  "ledger_core (observe_rate b now l) = ledger_core l"
  "ledger_core (age_rate now l) = ledger_core l"
  "ledger_core (observe_rtt rtt t now l) = ledger_core l"
  unfolding observe_rate_def age_rate_def observe_rtt_def Let_def by (simp_all only: core_simps)

lemma ledger_core_credit_rate [simp]: "ledger_core (credit_rate d r now l) = ledger_core l"
  unfolding credit_rate_def Let_def by (simp only: core_simps ledger_core_observers)

lemma ledger_core_tick [simp]:
  "ledger_core (tick_probe cfg now bl h l) = ledger_core l"
  "ledger_core (tick_recovery cfg now rv l) = ledger_core l"
  unfolding tick_probe_def tick_recovery_def Let_def by (simp_all only: core_simps ledger_core_observers)

lemma ledger_core_delivered:
  "ledger_core (l\<lparr>lg_delivered := d\<rparr>) =
     (let (e, _, r) = ledger_core l in (e, d, r))"
  by (simp add: ledger_core_def)

lemma credit_core:
  "ledger_core (credit cfg r seq now l) = ledger_core (l\<lparr>lg_delivered := max (lg_delivered l) (rg_snapshot r)\<rparr>)"
  unfolding credit_def Let_def
  by (simp only: core_simps ledger_core_observers ledger_core_credit_rate ledger_core_delivered)

lemma match_range_SomeD:
  "match_range seq es = Some (r, rest) \<Longrightarrow>
     r \<in> set es \<and> rg_lo r \<le> seq \<and> seq \<le> rg_hi r \<and> (\<exists>pre. es = pre @ r # rest)"
proof (induction es)
  case (Cons a es)
  show ?case
  proof (cases "rg_lo a \<le> seq \<and> seq \<le> rg_hi a")
    case True
    with Cons.prems show ?thesis by auto
  next
    case False
    with Cons obtain pre where "es = pre @ r # rest" by auto
    with False Cons show ?thesis by (auto intro: exI [of _ "a # pre"])
  qed
qed simp

section \<open>The gate with its ledger\<close>

definition gate_ok ::
    "(nat \<Rightarrow> PublicKey option) \<Rightarrow> nat \<Rightarrow> GateConfig \<Rightarrow> byte list list \<Rightarrow> nat \<Rightarrow> FriendSendGate \<Rightarrow> bool" where
  "gate_ok pk f cfg st n g \<longleftrightarrow>
     fg_cfg g = cfg \<and> (fg_number_to_key g f = None \<or> fg_number_to_key g f = pk f)
     \<and> ((fg_ledgers g = [] \<and> (\<forall>p \<in> set st. tunnel_packet p) \<and> (pk f = None \<or> data_bytes st = 0))
         \<or> (\<exists>k l. fg_ledgers g = [(k, l)] \<and> pk f = Some k \<and> ledger_ok l st n))"

lemma gate_ok_cases:
  assumes "gate_ok pk f cfg st n g"
  obtains (none) "fg_ledgers g = []" "\<forall>p \<in> set st. tunnel_packet p" "pk f = None \<or> data_bytes st = 0"
  | (one) k l where "fg_ledgers g = [(k, l)]" "pk f = Some k" "ledger_ok l st n"
  using assms unfolding gate_ok_def by metis

lemma gate_ok_put:
  assumes "fg_ledgers g = [(k, l)]" and "fg_cfg g = cfg" and "pk f = Some k"
    and "fg_number_to_key g f = None \<or> fg_number_to_key g f = pk f" and "ledger_ok l' st n"
  shows "gate_ok pk f cfg st n (put_ledger k l' g)"
  using assms by (simp add: gate_ok_def put_ledger_def)

lemma gate_ok_publish [simp]: "gate_ok pk f cfg st n (publish_hint l g) = gate_ok pk f cfg st n g"
  by (simp add: gate_ok_def publish_hint_def Let_def)

lemma new_ledger_ok:
  "\<forall>p \<in> set st. tunnel_packet p \<Longrightarrow> data_bytes st = 0 \<Longrightarrow>
     ledger_ok (new_ledger\<lparr>lg_epoch := e, lg_friend_number := f\<rparr>) st n"
  using data_bytes_take_le [of n st] tunnel_packet_not_fence
  by (auto simp: ledger_ok_def ledger_inv_def stream_ok_def new_ledger_def ranges_ok_def dest: nth_mem)

lemma new_ledger_entries [simp]: "lg_entries new_ledger = []"
  by (simp add: new_ledger_def)

text \<open>\<open>ledger_for\<close> on the friend of the environment.\<close>

lemma cached_number:
  "fg_number_to_key g f = Some k \<Longrightarrow> g\<lparr>fg_number_to_key := (fg_number_to_key g)(f \<mapsto> k)\<rparr> = g"
  by (simp add: fun_upd_idem)

lemma ledger_for_none:
  assumes "gate_ok pk f cfg st n g" and "io_public_key io = Some pk" and "pk f = None"
  shows "ledger_for io f g = (None, g)"
  using assms by (auto simp: ledger_for_def Let_def gate_ok_def)

lemma ledger_for_old:
  assumes "gate_ok pk f cfg st n g" and "io_public_key io = Some pk" and "pk f = Some k"
    and "fg_ledgers g = [(k, l)]"
  shows "ledger_for io f g =
           (Some (k, l\<lparr>lg_friend_number := f\<rparr>),
            g\<lparr>fg_number_to_key := (fg_number_to_key g)(f \<mapsto> k), fg_ledgers := [(k, l\<lparr>lg_friend_number := f\<rparr>)]\<rparr>)"
proof (cases "fg_number_to_key g f")
  case None
  then show ?thesis
    using assms by (auto simp: ledger_for_def Let_def put_ledger_def gate_ok_def)
next
  case (Some k')
  then have "k' = k" using assms by (auto simp: gate_ok_def)
  then show ?thesis
    using Some assms by (simp add: ledger_for_def Let_def put_ledger_def cached_number)
qed

lemma ledger_for_new:
  assumes "gate_ok pk f cfg st n g" and "io_public_key io = Some pk" and "pk f = Some k"
    and "fg_ledgers g = []"
  shows "\<exists>e c. ledger_for io f g =
           (Some (k, new_ledger\<lparr>lg_epoch := e, lg_friend_number := f\<rparr>),
            g\<lparr>fg_number_to_key := (fg_number_to_key g)(f \<mapsto> k), fg_ledgers_created := c,
              fg_ledgers := [(k, new_ledger\<lparr>lg_epoch := e, lg_friend_number := f\<rparr>)]\<rparr>)"
proof -
  obtain e g' where e: "next_ledger_epoch (g\<lparr>fg_number_to_key := (fg_number_to_key g)(f \<mapsto> k)\<rparr>) = (e, g')"
    by force
  then have g': "g' = g\<lparr>fg_number_to_key := (fg_number_to_key g)(f \<mapsto> k), fg_ledgers_created := fg_ledgers_created g + 1\<rparr>"
    by (simp add: next_ledger_epoch_def Let_def)
  have "ledger_for io f g = (Some (k, new_ledger\<lparr>lg_epoch := e, lg_friend_number := f\<rparr>),
      put_ledger k (new_ledger\<lparr>lg_epoch := e, lg_friend_number := f\<rparr>) g')"
    using assms e cached_number [of g f k] by (cases "fg_number_to_key g f") (auto simp: ledger_for_def Let_def gate_ok_def)
  then show ?thesis
    using assms(4) by (auto simp: g' put_ledger_def)
qed

lemma ledger_for_ok:
  assumes ok: "gate_ok pk f cfg st n g" and io: "io_public_key io = Some pk"
    and r: "ledger_for io f g = (res, g1)"
  shows "gate_ok pk f cfg st n g1
         \<and> (case res of None \<Rightarrow> pk f = None
            | Some (k, l) \<Rightarrow> pk f = Some k \<and> fg_ledgers g1 = [(k, l)] \<and> ledger_ok l st n
                            \<and> (lg_entries l = [] \<or> (\<exists>m. fg_ledgers g = [(k, m)] \<and> ledger_core m = ledger_core l)))"
proof (cases "pk f")
  case None
  then show ?thesis using ledger_for_none [OF ok io] r ok by simp
next
  case (Some k)
  show ?thesis
    using ok
  proof (cases rule: gate_ok_cases)
    case none
    then show ?thesis
      using ledger_for_new [OF ok io Some] r ok Some new_ledger_ok [of st] by (auto simp: gate_ok_def)
  next
    case (one k' l)
    then have "ledger_ok (l\<lparr>lg_friend_number := f\<rparr>) st n"
      using ledger_ok_cong [of "l\<lparr>lg_friend_number := f\<rparr>" l] by simp
    then show ?thesis
      using ledger_for_old [OF ok io Some] r ok Some one by (auto simp: gate_ok_def)
  qed
qed

lemma gate_ok_ledger:
  assumes "gate_ok pk f cfg st n g" and "fg_ledgers g = [(k, l)]" and "ledger_ok l' st' n'"
  shows "gate_ok pk f cfg st' n' (put_ledger k l' g)"
  using assms by (auto simp: gate_ok_def put_ledger_def)

lemma gate_ok_ledger_core:
  assumes "gate_ok pk f cfg st n g" and "fg_ledgers g = [(k, l)]" and "ledger_core l' = ledger_core l"
  shows "gate_ok pk f cfg st n (put_ledger k l' g)"
  using assms ledger_ok_cong [of l' l st n] by (auto simp: gate_ok_def put_ledger_def)

lemma gate_admit_ok:
  assumes "gate_ok pk f cfg st n g" and "io_public_key io = Some pk" and "gate_admit io f p now g = (ok, g')"
  shows "gate_ok pk f cfg st n g'"
  using assms ledger_for_ok [OF assms(1,2)]
  by (auto simp: gate_admit_def Let_def split: option.splits if_splits prod.splits
      intro!: gate_ok_ledger_core)

lemma gate_fast_reject_ok:
  "gate_ok pk f cfg st n g \<Longrightarrow> gate_fast_reject f p g = (ok, g') \<Longrightarrow> gate_ok pk f cfg st n g'"
  by (auto simp: gate_fast_reject_def Let_def gate_ok_def split: if_splits)

lemma gate_status_ok:
  assumes "gate_ok pk f cfg st n g" and "io_public_key io = Some pk"
  shows "gate_ok pk f cfg st n (gate_on_connection_status io f c now g)"
  using assms ledger_for_ok [OF assms]
  by (auto simp: gate_on_connection_status_def split: option.splits prod.splits intro!: gate_ok_ledger_core)

lemma ledger_ok_got: "ledger_ok l st n \<Longrightarrow> n \<le> m \<Longrightarrow> ledger_ok l st m"
  using ledger_inv_got by (auto simp: ledger_ok_def)

lemma gate_ok_got: "gate_ok pk f cfg st n g \<Longrightarrow> n \<le> m \<Longrightarrow> gate_ok pk f cfg st m g"
  using ledger_ok_got by (auto simp: gate_ok_def)


text \<open>Packets toxcore accepted.\<close>

lemma send_fence_ok:
  assumes "ledger_ok l st n" and "n \<le> length st" and "1 \<le> gc_max_ledger_entries cfg"
    and "send_fence cfg io now l = (sent, ok, l')"
  shows "ledger_ok l' (st @ map snd sent) n"
  using assms ledger_ok_record_fence [of l st n cfg now]
  by (auto simp: send_fence_def Let_def split: option.splits if_splits)

lemma send_fence_not_sent: "send_fence cfg io now l = (sent, False, l') \<Longrightarrow> sent = [] \<and> l' = l"
  by (auto simp: send_fence_def Let_def split: option.splits if_splits)

lemma gate_ok_append_silent:
  assumes "gate_ok pk f cfg st n g" and "n \<le> length st" and "tunnel_packet p" and "data_size p = 0 \<or> pk f = None"
  shows "gate_ok pk f cfg (st @ [p]) n g"
  using assms(1)
proof (cases rule: gate_ok_cases)
  case none
  then show ?thesis using assms by (auto simp: gate_ok_def)
next
  case (one k l)
  then have "ledger_ok l (st @ [p]) n"
    using ledger_ok_append_tunnel [of l st n p] assms by simp
  then show ?thesis using assms(1) one by (auto simp: gate_ok_def)
qed

lemma gate_on_accepted_ok:
  assumes ok: "gate_ok pk f cfg st n g" and io: "io_public_key io = Some pk" and n: "n \<le> length st"
    and p: "tunnel_packet p" and cfg: "1 \<le> gc_max_ledger_entries cfg"
    and acc: "gate_on_accepted io f p now g = (sent, g')"
  shows "gate_ok pk f cfg (st @ p # map snd sent) n g'"
proof -
  from p obtain pp where pp: "peek_packet p = Some pp"
    by (auto simp: tunnel_packet_def split: option.splits)
  obtain res g1 where lf: "ledger_for io f g = (res, g1)"
    by force
  note lfo = ledger_for_ok [OF ok io lf]
  have cfg1: "fg_cfg g1 = cfg" using lfo by (simp add: gate_ok_def)
  show ?thesis
  proof (cases "pk_type pp = TUNNEL_DATA")
    case True
    then have d: "data_size p = length p" by (simp add: data_size_def pp)
    show ?thesis
    proof (cases res)
      case None
      then show ?thesis
        using lfo acc lf True pp gate_ok_append_silent [of pk f cfg st n g1 p] n p
        by (auto simp: gate_on_accepted_def)
    next
      case (Some kl)
      obtain k l where kl: "res = Some (k, l)" using Some by (cases kl) auto
      let ?l1 = "l\<lparr>lg_emitted := lg_emitted l + length p\<rparr>"
      have l1: "ledger_ok ?l1 (st @ [p]) n"
        using ledger_ok_append_tunnel [of l st n p] lfo kl n p d by simp
      have put: "gate_ok pk f cfg st' n (put_ledger k l' g1)" if "ledger_ok l' st' n" for l' st'
        using gate_ok_ledger lfo kl that by fastforce
      show ?thesis
        using acc lf True pp kl l1 put send_fence_ok [OF l1 _ cfg] n cfg1
        by (auto simp: gate_on_accepted_def Let_def split: if_splits prod.splits)
    qed
  next
    case False
    then have d: "data_size p = 0" by (simp add: data_size_def pp)
    have ap: "gate_ok pk f cfg (st @ [p]) n h" if "gate_ok pk f cfg st n h" for h
      using gate_ok_append_silent [OF that n p] d by simp
    show ?thesis
      using acc lf False pp lfo ap ok
      by (auto simp: gate_on_accepted_def split: if_splits option.splits intro!: ap gate_ok_ledger_core)
  qed
qed


text \<open>Packets from the friend.\<close>

lemma ledger_ok_credit:
  assumes ok: "ledger_ok l st n" and m: "match_range seq (lg_entries l) = Some (r, rest)"
    and snap: "lg_next_seq l \<le> 2 ^ 64 \<Longrightarrow> rg_snapshot r \<le> data_bytes (take n st)"
  shows "ledger_ok (credit cfg r seq now (l\<lparr>lg_entries := rest\<rparr>)) st n"
proof -
  obtain pre where es: "lg_entries l = pre @ r # rest"
    using match_range_SomeD [OF m] by blast
  then have ok1: "ledger_ok (l\<lparr>lg_entries := rest\<rparr>) st n"
    by (intro ledger_ok_fewer [OF ok]) (auto simp: ranges_ok_def sorted_wrt_append)
  have "ledger_ok (l\<lparr>lg_entries := rest, lg_delivered := max (lg_delivered l) (rg_snapshot r)\<rparr>) st n"
    using ok1 snap by (auto simp: ledger_ok_def ledger_inv_def stream_ok_def)
  then show ?thesis
    using ledger_ok_cong [OF credit_core [of cfg r seq now "l\<lparr>lg_entries := rest\<rparr>"]] by simp
qed

lemma ledger_core_legacy: "ledger_core (l\<lparr>lg_phase := ph, lg_entries := [], lg_probing := b\<rparr>)
    = ledger_core (l\<lparr>lg_entries := []\<rparr>)"
  by (simp add: ledger_core_def)

lemma enter_legacy_ok:
  assumes "gate_ok pk f cfg st n g" and "fg_ledgers g = [(k, l)]" and "ledger_core l' = ledger_core l"
  shows "gate_ok pk f cfg st n (enter_legacy k l' g)"
proof -
  have "ledger_ok l st n" using assms(1,2) by (auto simp: gate_ok_def)
  then have "ledger_ok (l\<lparr>lg_entries := []\<rparr>) st n"
    by (rule ledger_ok_fewer) (auto simp: ranges_ok_def)
  moreover have "ledger_core (l'\<lparr>lg_phase := Ph_Legacy, lg_entries := [], lg_probing := False\<rparr>)
      = ledger_core (l\<lparr>lg_entries := []\<rparr>)"
    using assms(3) by (simp add: ledger_core_def)
  ultimately have "ledger_ok (l'\<lparr>lg_phase := Ph_Legacy, lg_entries := [], lg_probing := False\<rparr>) st n"
    using ledger_ok_cong by blast
  then show ?thesis
    using gate_ok_ledger [OF assms(1,2)] by (simp add: enter_legacy_def Let_def)
qed

text \<open>A received packet keeps the invariant as soon as whatever it credits was delivered.\<close>

lemma gate_on_received_ok:
  assumes ok: "gate_ok pk f cfg st n g" and io: "io_public_key io = Some pk"
    and honest: "\<And>pp k l r rest. peek_packet p = Some pp \<Longrightarrow> fg_ledgers g = [(k, l)] \<Longrightarrow>
      ledger_ok l st n \<Longrightarrow> lg_next_seq l \<le> 2 ^ 64 \<Longrightarrow>
      length (pk_payload pp) = kFencePayloadSize \<Longrightarrow> pk_payload pp ! 0 = kFencePingKind \<Longrightarrow>
      read_u64_be (drop 1 (pk_payload pp)) = lg_epoch l \<Longrightarrow>
      match_range (unat (read_u64_be (drop 9 (pk_payload pp)))) (lg_entries l) = Some (r, rest) \<Longrightarrow>
      rg_snapshot r \<le> data_bytes (take n st)"
  shows "gate_ok pk f cfg st n (gate_on_received io f p now g)"
proof -
  obtain res g1 where lf: "ledger_for io f g = (res, g1)"
    by force
  note lfo = ledger_for_ok [OF ok io lf]
  show ?thesis
  proof (cases "\<exists>pp k l. peek_packet p = Some pp \<and> res = Some (k, l) \<and> pk_type pp = PONG \<and> pk_tunnel_id pp = 0")
    case False
    then show ?thesis
      using ok lfo lf by (auto simp: gate_on_received_def split: option.splits)
  next
    case True
    then obtain pp k l where pp: "peek_packet p = Some pp" "pk_type pp = PONG" "pk_tunnel_id pp = 0"
      and kl: "res = Some (k, l)" by blast
    have one: "fg_ledgers g1 = [(k, l)]" "gate_ok pk f cfg st n g1" "ledger_ok l st n"
      using lfo kl by auto
    have cred: "gate_ok pk f cfg st n (put_ledger k (credit (fg_cfg g1) r seq now (l\<lparr>lg_entries := rest\<rparr>)) g1)"
      if "length (pk_payload pp) = kFencePayloadSize" "pk_payload pp ! 0 = kFencePingKind"
        "read_u64_be (drop 1 (pk_payload pp)) = lg_epoch l" "seq = unat (read_u64_be (drop 9 (pk_payload pp)))"
        "match_range seq (lg_entries l) = Some (r, rest)" for r rest seq
    proof -
      have ne: "lg_entries l \<noteq> []" using that(5) by auto
      then obtain m where m: "fg_ledgers g = [(k, m)]" "ledger_core m = ledger_core l"
        using lfo kl by auto
      then have "ledger_ok m st n" using one(3) ledger_ok_cong by blast
      then have "lg_next_seq l \<le> 2 ^ 64 \<Longrightarrow> rg_snapshot r \<le> data_bytes (take n st)"
        using honest [OF pp(1) m(1)] m(2) that by (auto simp: ledger_core_fields)
      then show ?thesis
        using ledger_ok_credit [OF one(3) that(5)] gate_ok_ledger [OF one(2,1)] by blast
    qed
    show ?thesis
      using pp kl lf one cred
      by (auto simp: gate_on_received_def Let_def intro!: enter_legacy_ok gate_ok_ledger_core split: option.splits)
  qed
qed

lemma gate_echo_ok:
  assumes ok: "gate_ok pk f cfg st n g" and io: "io_public_key io = Some pk" and i: "i < n" "n \<le> length st"
    and e: "echo_of (st ! i) = Some p"
  shows "gate_ok pk f cfg st n (gate_on_received io f p now g)"
proof (rule gate_on_received_ok [OF ok io])
  fix pp k l r rest
  assume a: "peek_packet p = Some pp" "ledger_ok l st n" "lg_next_seq l \<le> 2 ^ 64"
    "length (pk_payload pp) = kFencePayloadSize" "read_u64_be (drop 1 (pk_payload pp)) = lg_epoch l"
    "match_range (unat (read_u64_be (drop 9 (pk_payload pp)))) (lg_entries l) = Some (r, rest)"
  have inv: "ledger_inv l st n" "stream_ok l st" using a(2,3) by (auto simp: ledger_ok_def)
  have "\<not> tunnel_packet (st ! i)"
    using peek_echo_tunnel [OF _ e] a(1,4) by (auto simp: kFencePayloadSize_def)
  then obtain s where s: "s < 2 ^ 64" "st ! i = make_fence_packet (lg_epoch l) s"
    using inv(2) i unfolding stream_ok_def by (meson less_le_trans nth_mem)
  then have "pk_payload pp = fence_payload (lg_epoch l) s"
    using e a(1) peek_echo_fence by fastforce
  then have "unat (read_u64_be (drop 9 (pk_payload pp))) = s"
    using s(1) fence_payload_fields(2) [of "lg_epoch l" s] by (metis mod_less)
  then have m: "r \<in> set (lg_entries l)" "rg_lo r \<le> s" "s \<le> rg_hi r"
    using match_range_SomeD a(6) by auto
  have "rg_snapshot r \<le> data_bytes (take i st)"
    using ledger_inv_fence(2) [OF inv(1) _ s m] i by simp
  then show "rg_snapshot r \<le> data_bytes (take n st)"
    using data_bytes_take_mono [of i n st] i(1) by linarith
qed

lemma gate_stray_ok:
  assumes "gate_ok pk f cfg st n g" and "io_public_key io = Some pk" and "\<not> claims_fence g p"
  shows "gate_ok pk f cfg st n (gate_on_received io f p now g)"
  by (rule gate_on_received_ok [OF assms(1,2)]) (use assms(3) in \<open>auto simp: claims_fence_def\<close>)

text \<open>The tick.\<close>

lemma gate_ok_refused [simp]: "gate_ok pk f cfg st n (g\<lparr>fg_hint_refused := h\<rparr>) = gate_ok pk f cfg st n g"
  by (simp add: gate_ok_def)

lemma fg_ledgers_publish [simp]: "fg_ledgers (publish_hint l g) = fg_ledgers g"
  by (simp add: publish_hint_def Let_def)

lemma tick_ledger_ok:
  assumes ok: "gate_ok pk f cfg st n g" and n: "n \<le> length st" and cfg: "1 \<le> gc_max_ledger_entries cfg"
    and t: "tick_ledger io now k g = (sent, g')"
  shows "gate_ok pk f cfg (st @ map snd sent) n g'"
proof (cases "map_of (fg_ledgers g) k")
  case None
  then show ?thesis using t ok by (simp add: tick_ledger_def)
next
  case (Some l)
  then have one: "fg_ledgers g = [(k, l)]" and lok: "ledger_ok l st n"
    using ok by (auto simp: gate_ok_def split: if_splits)
  define bl where "bl = (lg_last_refused_ns l > 0 \<and> now - lg_last_refused_ns l < kBlockedWindowNs)"
  define fr where "fr = lg_friend_number l"
  define g1 where "g1 = (if fr < kHintSlots then g\<lparr>fg_hint_refused := (fg_hint_refused g)(fr := False)\<rparr> else g)"
  define l1 where "l1 = tick_probe (fg_cfg g) now bl (fr < kHintSlots \<and> fg_hint_refused g fr) l"
  define g2 where "g2 = publish_hint l1 (put_ledger k l1 g1)"
  have core: "ledger_core l1 = ledger_core l" by (simp add: l1_def)
  have g1: "fg_ledgers g1 = [(k, l)]" "gate_ok pk f cfg st n g1"
    using one ok by (simp_all add: g1_def)
  then have g2: "fg_ledgers g2 = [(k, l1)]" "gate_ok pk f cfg st n g2" "fg_cfg g = cfg"
    using gate_ok_ledger_core [OF g1(2,1) core] by (simp add: g2_def put_ledger_def, simp add: g2_def)
      (use ok in \<open>simp add: gate_ok_def\<close>)
  have l1: "ledger_ok l1 st n" using lok ledger_ok_cong [OF core] by simp
  have put: "gate_ok pk f cfg (st @ map snd sd) n (put_ledger k (tick_recovery cfg now rv l2) g2)"
    if "send_fence cfg io now l1 = (sd, okk, l2)" for sd okk l2 rv
    using send_fence_ok [OF l1 n cfg that] ledger_ok_cong [of "tick_recovery cfg now rv l2" l2]
    by (intro gate_ok_ledger [OF g2(2,1)]) simp
  have legacy: "gate_ok pk f cfg st n (enter_legacy k l g)"
    by (rule enter_legacy_ok [OF ok one refl])
  have "tick_ledger io now k g = ([], g) \<or> tick_ledger io now k g = ([], enter_legacy k l g)
      \<or> tick_ledger io now k g =
           (case tick_want (fg_cfg g) now bl l1 of (want, rv) \<Rightarrow>
              if \<not> want then ([], g2)
              else case send_fence (fg_cfg g) io now l1 of (sd, okk, l2) \<Rightarrow>
                     if \<not> okk then ([], g2) else (sd, put_ledger k (tick_recovery (fg_cfg g) now rv l2) g2))"
    unfolding tick_ledger_def Some option.case Let_def bl_def fr_def g1_def l1_def g2_def by argo
  then show ?thesis
    using t ok legacy g2(2,3) put by (auto split: if_splits prod.splits)
qed

lemma tick_all_ok:
  assumes "gate_ok pk f cfg st n g" and "n \<le> length st" and "1 \<le> gc_max_ledger_entries cfg"
    and "tick_all io now ks g = (sent, g')"
  shows "gate_ok pk f cfg (st @ map snd sent) n g'"
  using assms
proof (induction ks arbitrary: st g sent)
  case (Cons k ks)
  obtain s1 g1 s2 where "tick_ledger io now k g = (s1, g1)" "tick_all io now ks g1 = (s2, g')" "sent = s1 @ s2"
    using Cons.prems(4) by (auto split: prod.splits)
  then show ?case
    using Cons.IH [of "st @ map snd s1" g1 s2] tick_ledger_ok [OF Cons.prems(1-3)] Cons.prems(2,3) by simp
qed simp

section \<open>Reachable states\<close>

definition sys_ok :: "(nat \<Rightarrow> PublicKey option) \<Rightarrow> nat \<Rightarrow> GateConfig \<Rightarrow> gate_sys \<Rightarrow> bool" where
  "sys_ok pk f cfg s \<longleftrightarrow> sy_got s \<le> length (sy_stream s) \<and> gate_ok pk f cfg (sy_stream s) (sy_got s) (sy_gate s)"

lemma gate_forget_ok: "gate_ok pk f cfg st n g \<Longrightarrow> gate_ok pk f cfg st n (gate_forget_friend_number m g)"
  by (auto simp: gate_forget_friend_number_def Let_def gate_ok_def)

lemma gate_step_ok:
  assumes "gate_step pk f s t" and "sys_ok pk f cfg s" and "1 \<le> gc_max_ledger_entries cfg"
  shows "sys_ok pk f cfg t"
  using assms
proof (cases rule: gate_step.cases)
  case (gs_accept p io now sent g)
  then show ?thesis
    using assms gate_on_accepted_ok [of pk f cfg "sy_stream s" "sy_got s" "sy_gate s" io p now sent g]
    by (simp add: sys_ok_def)
next
  case (gs_tick io now sent g)
  then show ?thesis
    using assms tick_all_ok [of pk f cfg "sy_stream s" "sy_got s" "sy_gate s" io now _ sent g]
    by (simp add: sys_ok_def gate_on_tick_def)
next
  case gs_deliver
  then show ?thesis
    using assms gate_ok_got [of pk f cfg "sy_stream s" "sy_got s" "sy_gate s" "sy_got s + 1"]
    by (simp add: sys_ok_def)
qed (auto simp: sys_ok_def intro: gate_admit_ok gate_fast_reject_ok gate_status_ok gate_echo_ok gate_stray_ok gate_forget_ok)

lemma gate_reachable_ok:
  "gate_reachable pk f cfg s \<Longrightarrow> 1 \<le> gc_max_ledger_entries cfg \<Longrightarrow> sys_ok pk f cfg s"
proof (induction rule: gate_reachable.induct)
  case (gr_init e)
  then show ?case by (simp add: sys_ok_def gate_ok_def new_gate_def)
qed (rule gate_step_ok)

section \<open>Properties\<close>

text \<open>Claim C1: credit soundness. In every state the gate reaches, through any interleaving of sends,
  admission checks, ticks, connection changes, forgotten friend
  numbers, deliveries, fence echoes (late, repeated or out of
  order) and stray packets, a ledger's \<open>delivered\<close> counter is at most the DATA bytes the peer has
  received, \<open>emitted\<close> is exactly the DATA bytes toxcore accepted, and so their difference never
  under-counts the bytes in flight (as long as fewer than \<open>2 ^ 64\<close> fences were sent).\<close>

theorem gate_credit_sound:
  assumes "gate_reachable pk f cfg s" and "1 \<le> gc_max_ledger_entries cfg"
    and "(k, l) \<in> set (fg_ledgers (sy_gate s))" and "lg_next_seq l \<le> 2 ^ 64"
  shows "lg_delivered l \<le> data_bytes (take (sy_got s) (sy_stream s))
         \<and> lg_emitted l = data_bytes (sy_stream s)
         \<and> data_bytes (drop (sy_got s) (sy_stream s)) \<le> lg_emitted l - lg_delivered l"
proof -
  have "gate_ok pk f cfg (sy_stream s) (sy_got s) (sy_gate s)"
    using gate_reachable_ok [OF assms(1,2)] by (simp add: sys_ok_def)
  then have "ledger_inv l (sy_stream s) (sy_got s)"
    using assms(3,4) by (auto simp: gate_ok_def ledger_ok_def)
  moreover have "data_bytes (sy_stream s) =
      data_bytes (take (sy_got s) (sy_stream s)) + data_bytes (drop (sy_got s) (sy_stream s))"
    by (metis append_take_drop_id data_bytes_simps(3))
  ultimately show ?thesis
    by (simp add: ledger_inv_def) linarith
qed


text \<open>The echo of the newest fence.\<close>

lemma match_range_last:
  assumes "ranges_ok es" and "es \<noteq> []"
  shows "match_range (rg_hi (last es)) es = Some (last es, [])"
  using assms
proof (induction es)
  case (Cons a es)
  show ?case
  proof (cases "es = []")
    case True
    then show ?thesis using Cons.prems by (simp add: ranges_ok_def)
  next
    case False
    then have "rg_hi a < rg_lo (last es)" "rg_lo (last es) \<le> rg_hi (last es)" "ranges_ok es"
      using Cons.prems by (auto simp: ranges_ok_def)
    then show ?thesis using Cons.IH False by simp
  qed
qed simp

text \<open>A fence round trip gives back the whole window. In every reachable state with an
  outstanding fence, the peer's answer to the newest fence settles every outstanding fence and raises
  \<open>delivered\<close> to at least what had been emitted when that fence range was recorded, and changes
  \<open>emitted\<close> not at all.\<close>

theorem gate_echo_credits:
  assumes "gate_reachable pk f cfg s" and "1 \<le> gc_max_ledger_entries cfg"
    and "fg_ledgers (sy_gate s) = [(k, l)]" and "lg_next_seq l \<le> 2 ^ 64" and "lg_entries l \<noteq> []"
    and "io_public_key io = Some pk"
    and "echo_of (make_fence_packet (lg_epoch l) (lg_next_seq l - 1)) = Some p"
  shows "\<exists>l'. fg_ledgers (gate_on_received io f p now (sy_gate s)) = [(k, l')]
              \<and> lg_delivered l' = max (lg_delivered l) (rg_snapshot (last (lg_entries l)))
              \<and> lg_entries l' = [] \<and> lg_emitted l' = lg_emitted l"
proof -
  let ?g = "sy_gate s" and ?seq = "lg_next_seq l - 1"
  have ok: "gate_ok pk f cfg (sy_stream s) (sy_got s) ?g"
    using gate_reachable_ok [OF assms(1,2)] by (simp add: sys_ok_def)
  then have k: "pk f = Some k" and inv: "ledger_inv l (sy_stream s) (sy_got s)"
    using assms(3,4) by (auto simp: gate_ok_def ledger_ok_def)
  have seq: "rg_hi (last (lg_entries l)) = ?seq" and ran: "ranges_ok (lg_entries l)"
    using inv assms(5) by (auto simp: ledger_inv_def)
  have m: "match_range ?seq (lg_entries l) = Some (last (lg_entries l), [])"
    using match_range_last [OF ran assms(5)] seq by simp
  let ?pp = "\<lparr>pk_type = PONG, pk_tunnel_id = 0, pk_payload = fence_payload (lg_epoch l) ?seq\<rparr>"
  have pp: "peek_packet p = Some ?pp"
    by (rule peek_echo_fence [OF assms(7)])
  have "?seq < 2 ^ 64" using assms(4) by (metis One_nat_def Suc_pred diff_le_self le_neq_implies_less
        le_zero_eq lessI less_le_trans zero_less_numeral zero_less_power)
  then have "unat (read_u64_be (drop 9 (fence_payload (lg_epoch l) ?seq))) = ?seq"
    using fence_payload_fields(2) [of "lg_epoch l" ?seq] by (metis mod_less)
  moreover have "fence_payload (lg_epoch l) ?seq \<noteq> []" "fence_payload (lg_epoch l) ?seq ! 0 = kFencePingKind"
    by (simp_all add: fence_payload_def)
  moreover obtain m' where
    m': "m' = credit cfg (last (lg_entries l)) ?seq now (l\<lparr>lg_friend_number := f, lg_entries := []\<rparr>)"
    by blast
  ultimately have g': "fg_ledgers (gate_on_received io f p now ?g) = [(k, m')]"
    using m pp ok ledger_for_old [OF ok assms(6) k assms(3)] fence_payload_fields(1)
    by (simp add: gate_on_received_def kFencePayloadSize_def put_ledger_def gate_ok_def Let_def)
  have "ledger_core m' = ledger_core (l\<lparr>lg_entries := [], lg_delivered := max (lg_delivered l) (rg_snapshot (last (lg_entries l)))\<rparr>)"
    unfolding m' credit_core by (simp add: ledger_core_def)
  then show ?thesis
    using g' by (simp add: ledger_core_def)
qed

text \<open>A concrete run: a DATA packet is accepted, the next one refused, and the tick sends a fence.\<close>

definition ex_io :: Io where
  "ex_io = \<lparr>io_public_key = Some (\<lambda>n. if n = 3 then Some [1] else None), io_send = Some (\<lambda>_ _. True)\<rparr>"

definition ex_cfg :: GateConfig where "ex_cfg = default_gate_config\<lparr>gc_floor_bytes := 1\<rparr>"

definition ex_packet :: "byte list" where "ex_packet = kLosslessPacketByte # serialize (make_tunnel_data 1 [9])"

definition ex_accepted where "ex_accepted = gate_on_accepted ex_io 3 ex_packet 5 (new_gate ex_cfg 7)"
definition ex_refused where "ex_refused = gate_admit ex_io 3 ex_packet 6 (snd ex_accepted)"
definition ex_ticked where "ex_ticked = gate_on_tick ex_io 7 (snd ex_refused)"

definition ex_state :: gate_sys where
  "ex_state = \<lparr>sy_gate = snd ex_ticked, sy_stream = [ex_packet] @ map snd (fst ex_accepted) @ map snd (fst ex_ticked), sy_got = 0\<rparr>"

lemma peek_ex_packet: "peek_packet ex_packet = Some \<lparr>pk_type = TUNNEL_DATA, pk_tunnel_id = 1, pk_payload = [9]\<rparr>"
  unfolding ex_packet_def by (subst peek_serialize) (simp_all add: make_tunnel_data_def payload_view_def)

lemma length_ex_packet: "length ex_packet = 7"
  by (simp add: ex_packet_def serialize_eq make_tunnel_data_def payload_view_def)

lemma tunnel_ex_packet: "tunnel_packet ex_packet"
  by (simp add: tunnel_packet_def peek_ex_packet)

lemmas ex_eval = gate_on_accepted_def gate_admit_def gate_on_tick_def tick_ledger_def ledger_for_def new_gate_def
  put_ledger_def new_ledger_def ex_cfg_def default_gate_config_def ex_io_def peek_ex_packet length_ex_packet
  fence_interval_def budget_def kMinFenceIntervalBytes_def next_ledger_epoch_def Let_def publish_hint_def
  kHintSlots_def kBlockedWindowNs_def tick_want_def tick_probe_def age_rate_def send_fence_def record_fence_def
  tick_recovery_def kFencesPerBudget_def

lemma ex_ticked_ledger:
  "\<exists>l. fg_ledgers (snd ex_ticked) = [([1], l)] \<and> lg_next_seq l = 2 \<and> lg_emitted l = 7 \<and> lg_delivered l = 0
        \<and> lg_entries l \<noteq> [] \<and> rg_snapshot (last (lg_entries l)) = 7"
  unfolding ex_ticked_def ex_refused_def ex_accepted_def by (simp add: ex_eval)

lemma ex_reachable: "gate_reachable (\<lambda>n. if n = 3 then Some [1] else None) 3 ex_cfg ex_state"
proof -
  let ?pk = "\<lambda>n::nat. if n = 3 then Some [1 :: byte] else None"
  have io: "io_public_key ex_io = Some ?pk" by (simp add: ex_io_def)
  let ?s0 = "\<lparr>sy_gate = new_gate ex_cfg 7, sy_stream = [], sy_got = 0\<rparr>"
  let ?s1 = "?s0\<lparr>sy_gate := snd ex_accepted, sy_stream := sy_stream ?s0 @ ex_packet # map snd (fst ex_accepted)\<rparr>"
  let ?s2 = "?s1\<lparr>sy_gate := snd ex_refused\<rparr>"
  have r0: "gate_reachable ?pk 3 ex_cfg ?s0" by (rule gr_init)
  have r1: "gate_reachable ?pk 3 ex_cfg ?s1"
    by (rule gr_step [OF r0], rule gs_accept [OF tunnel_ex_packet io, where now = 5]) (simp add: ex_accepted_def)
  have r2: "gate_reachable ?pk 3 ex_cfg ?s2"
    by (rule gr_step [OF r1], rule gs_admit [OF io, where now = 6 and p = ex_packet and ok = "fst ex_refused"])
      (simp add: ex_refused_def)
  have "gate_reachable ?pk 3 ex_cfg
          (?s2\<lparr>sy_gate := snd ex_ticked, sy_stream := sy_stream ?s2 @ map snd (fst ex_ticked)\<rparr>)"
    by (rule gr_step [OF r2], rule gs_tick [OF io, where now = 7]) (simp add: ex_ticked_def)
  then show ?thesis by (simp add: ex_state_def)
qed


theorem gate_credit_sound_witness:
  "\<exists>l. fg_ledgers (sy_gate ex_state) = [([1], l)] \<and> lg_emitted l = data_bytes (sy_stream ex_state) \<and> lg_emitted l = 7"
proof -
  obtain l where l: "fg_ledgers (snd ex_ticked) = [([1], l)]" "lg_next_seq l = 2" "lg_emitted l = 7"
    using ex_ticked_ledger by blast
  have "lg_emitted l = data_bytes (sy_stream ex_state)"
    using gate_credit_sound [OF ex_reachable, of "[1]" l] l
    by (simp add: ex_state_def ex_cfg_def default_gate_config_def)
  then show ?thesis using l by (simp add: ex_state_def)
qed

section \<open>Admission, fences and the legacy phase\<close>

lemma budget_bounds:
  assumes "gc_floor_bytes cfg \<le> gc_max_bytes cfg"
  shows "gc_floor_bytes cfg \<le> budget cfg l" and "budget cfg l \<le> gc_max_bytes cfg"
proof -
  have "nat \<lfloor>b\<rfloor> \<le> n" if "\<not> b \<ge> of_nat n" for b :: rat and n
    using that by (simp add: nat_le_iff floor_le_iff)
  then show "budget cfg l \<le> gc_max_bytes cfg"
    using assms unfolding budget_def Let_def by (auto simp: max_def)
qed (use assms in \<open>auto simp: budget_def Let_def\<close>)

text \<open>Admission. A DATA packet of a friend whose ledger is not in the legacy phase is
  admitted exactly when no probe runs and either nothing is in flight or the backlog together with the
  packet fits the budget. What is admitted therefore keeps the bytes in flight within the larger of
  one packet and \<open>max_bytes\<close>, and an empty pipe always takes a packet unless a probe drains it.
  Neither outcome changes the bytes emitted or delivered.\<close>

theorem gate_admit_spec:
  assumes "peek_packet p = Some pp" and "pk_type pp = TUNNEL_DATA"
    and "ledger_for io f g = (Some (k, l), g1)" and "lg_phase l \<noteq> Ph_Legacy" and "fg_ledgers g1 = [(k, l)]"
    and "gate_admit io f p now g = (ok, g')" and "gc_floor_bytes (fg_cfg g1) \<le> gc_max_bytes (fg_cfg g1)"
  shows "(ok \<longleftrightarrow> \<not> lg_probing l
                 \<and> (lg_emitted l - lg_delivered l = 0
                    \<or> lg_emitted l - lg_delivered l + length p \<le> budget (fg_cfg g1) l))
         \<and> (ok \<longrightarrow> lg_emitted l + length p - lg_delivered l \<le> max (length p) (gc_max_bytes (fg_cfg g1)))
         \<and> (\<exists>l'. fg_ledgers g' = [(k, l')] \<and> ledger_core l' = ledger_core l)"
proof -
  have "fg_ledgers (put_ledger k m g1) = [(k, m)]" for m
    using assms(5) by (simp add: put_ledger_def)
  then show ?thesis
    using assms budget_bounds(2) [OF assms(7), of l]
    by (auto simp: gate_admit_def Let_def split: if_splits)
qed

lemma last_record_fence:
  "lg_entries (record_fence cfg s now l) \<noteq> [] \<and> rg_snapshot (last (lg_entries (record_fence cfg s now l))) = lg_emitted l
   \<and> lg_emitted (record_fence cfg s now l) = lg_emitted l"
proof -
  have "thin_entries es \<noteq> []" for es by (simp add: thin_entries_def)
  then show ?thesis by (simp add: record_fence_def Let_def)
qed

lemma send_fence_covers:
  assumes "send_fence cfg io now l = (sent, True, l')"
  shows "lg_entries l' \<noteq> [] \<and> rg_snapshot (last (lg_entries l')) = lg_emitted l'"
  using assms last_record_fence [of cfg "lg_next_seq l" now "l\<lparr>lg_next_seq := lg_next_seq l + 1\<rparr>"]
  by (auto simp: send_fence_def Let_def split: option.splits if_splits)

text \<open>No stall without a fence. When a tick finds a friend whose sender was refused lately
  and who has bytes in flight, and toxcore takes the packet, the last recorded fence covers everything
  emitted when the tick is over: an echo can always reopen the gate.\<close>

theorem gate_tick_covers:
  assumes "fg_ledgers g = [(k, l)]" and "lg_phase l = Ph_Active"
    and "fg_number_to_key g (lg_friend_number l) = Some k"
    and "0 < lg_last_refused_ns l" and "now - lg_last_refused_ns l < kBlockedWindowNs"
    and "lg_delivered l < lg_emitted l"
    and "io_send io = Some (\<lambda>_ _. True)" and "gate_on_tick io now g = (sent, g')"
  shows "\<exists>l'. fg_ledgers g' = [(k, l')] \<and> lg_entries l' \<noteq> []
              \<and> rg_snapshot (last (lg_entries l')) = lg_emitted l' \<and> lg_emitted l' = lg_emitted l"
proof -
  define l1 where "l1 = tick_probe (fg_cfg g) now True
      (lg_friend_number l < kHintSlots \<and> fg_hint_refused g (lg_friend_number l)) l"
  have core: "ledger_core l1 = ledger_core l" by (simp add: l1_def)
  then have f: "lg_emitted l1 = lg_emitted l" "lg_delivered l1 = lg_delivered l" "lg_entries l1 = lg_entries l"
    by (simp_all add: ledger_core_fields)
  obtain want rv where w: "tick_want (fg_cfg g) now True l1 = (want, rv)" by force
  have cov: "want \<or> (lg_entries l1 \<noteq> [] \<and> rg_snapshot (last (lg_entries l1)) = lg_emitted l1)"
    using w assms(6) f by (auto simp: tick_want_def Let_def split: if_splits)
  obtain sd l2 where s: "send_fence (fg_cfg g) io now l1 = (sd, True, l2)"
    using assms(7) by (auto simp: send_fence_def Let_def)
  have e2: "lg_emitted l2 = lg_emitted l"
    using s f last_record_fence [of "fg_cfg g" "lg_next_seq l1" now "l1\<lparr>lg_next_seq := lg_next_seq l1 + 1\<rparr>"]
    by (auto simp: send_fence_def Let_def assms(7))
  define g1 where "g1 = (if lg_friend_number l < kHintSlots
      then g\<lparr>fg_hint_refused := (fg_hint_refused g)(lg_friend_number l := False)\<rparr> else g)"
  define g2 where "g2 = publish_hint l1 (put_ledger k l1 g1)"
  have g2: "fg_ledgers g2 = [(k, l1)]" using assms(1) by (simp add: g2_def g1_def put_ledger_def)
  have "gate_on_tick io now g = tick_ledger io now k g"
    using assms(1) by (simp add: gate_on_tick_def split: prod.splits)
  also have "\<dots> = (if \<not> want then ([], g2) else (sd, put_ledger k (tick_recovery (fg_cfg g) now rv l2) g2))"
    using assms(1-5) w s
    by (simp add: tick_ledger_def Let_def l1_def [symmetric] g1_def [symmetric] g2_def [symmetric])
  finally have "g' = (if \<not> want then g2 else put_ledger k (tick_recovery (fg_cfg g) now rv l2) g2)"
    using assms(8) by (auto split: if_splits)
  then show ?thesis
    using g2 cov f e2 send_fence_covers [OF s]
    by (auto simp: put_ledger_def tick_recovery_def Let_def)
qed

definition ex_active :: FriendSendGate where
  "ex_active = (new_gate ex_cfg 7)\<lparr>fg_number_to_key := [3 \<mapsto> [1]],
     fg_ledgers := [([1], new_ledger\<lparr>lg_friend_number := 3, lg_emitted := 7, lg_phase := Ph_Active,
                                    lg_last_refused_ns := 5\<rparr>)]\<rparr>"

lemma peek_data_head:
  assumes "peek_packet p = Some pp" and "pk_type pp = TUNNEL_DATA"
  shows "2 \<le> length p" "p ! 0 = kLosslessPacketByte" "p ! Suc 0 = frame_type_code TUNNEL_DATA"
  using assms
  by (auto simp: peek_packet_def Let_def kFrameHeaderSize_def frame_type_of_byte_def split: if_splits)

text \<open>The lock-free fast path agrees with the gate. Right after a ledger's hint is
  published, \<open>fast_reject\<close> turns a DATA packet away exactly when \<open>admit\<close> would refuse it on that
  ledger.\<close>

theorem gate_fast_reject_agrees:
  assumes "peek_packet p = Some pp" and "pk_type pp = TUNNEL_DATA" and "int (length p) \<le> kOpen"
    and "lg_friend_number l < kHintSlots"
  shows "fst (gate_fast_reject (lg_friend_number l) p (publish_hint l g)) \<longleftrightarrow>
           lg_phase l \<noteq> Ph_Legacy
           \<and> \<not> (\<not> lg_probing l
                \<and> (lg_emitted l - lg_delivered l = 0
                   \<or> lg_emitted l - lg_delivered l + length p \<le> budget (fg_cfg g) l))"
proof -
  have "p \<noteq> []" using peek_data_head(1) [OF assms(1,2)] by auto
  then show ?thesis
    using assms(3,4) peek_data_head [OF assms(1,2)]
    by (auto simp: gate_fast_reject_def publish_hint_def Let_def not_le)
qed

lemma length_filter_even: "length (filter (\<lambda>i. i mod 2 = 0) [1..<Suc n]) = n div 2"
proof (induction n)
  case (Suc n)
  have "length (filter (\<lambda>i. i mod 2 = 0) [1..<Suc (Suc n)])
      = n div 2 + (if Suc n mod 2 = 0 then 1 else 0)"
    using Suc by simp
  then show ?case by presburger
qed simp

lemma length_thin_entries:
  assumes "2 \<le> length es"
  shows "length (thin_entries es) = 2 + (length es - 2) div 2"
proof -
  obtain n where n: "length es = Suc (Suc n)" using assms by (metis Suc_le_D add_2_eq_Suc le_add_diff_inverse)
  then show ?thesis using length_filter_even [of n] by (simp add: thin_entries_def)
qed

text \<open>The fence list stays bounded. Recording a fence never leaves more than
  \<open>max_ledger_entries\<close> ranges, whatever the peer does, and what is left still ends with a range that
  covers everything emitted.\<close>

theorem record_fence_bounded:
  assumes "2 \<le> gc_max_ledger_entries cfg" and "length (lg_entries l) \<le> gc_max_ledger_entries cfg"
  shows "length (lg_entries (record_fence cfg seq now l)) \<le> gc_max_ledger_entries cfg
         \<and> rg_snapshot (last (lg_entries (record_fence cfg seq now l))) = lg_emitted l"
proof -
  have "length (thin_entries es) \<le> gc_max_ledger_entries cfg"
    if "length es = Suc (gc_max_ledger_entries cfg)" for es
    using length_thin_entries [of es] that assms(1) by simp
  then have "length (lg_entries (record_fence cfg seq now l)) \<le> gc_max_ledger_entries cfg"
    using assms by (auto simp: record_fence_def Let_def Suc_le_eq)
  then show ?thesis using last_record_fence by blast
qed

end
