(* ===== verification/Write_Coalescer.thy ===== *)
theory Write_Coalescer
  imports Prelude
begin

text \<open>
  The adaptive write coalescer (\<open>include/toxtunnel/tunnel/write_coalescer.hpp\<close>,
  \<open>src/tunnel/write_coalescer.cpp\<close>) and the retry schedule of refused frames
  (\<open>include/toxtunnel/tunnel/sendq_retry.hpp\<close>). The relaxed atomics of the class are plain fields:
  the model is the sequential behaviour of one tunnel's send path. The lemmas show that a pinned mode
  ignores all measurements, that the adaptive policy only changes after four consecutive decisions
  for the same candidate, and that the retry schedule is positive, monotone and capped.
\<close>

section \<open>Model\<close>

datatype CoalescePolicy = CP_Bypass | CP_Drain | CP_Batch

fun coalesce_policy_to_string :: "CoalescePolicy \<Rightarrow> string" where
  "coalesce_policy_to_string CP_Bypass = ''bypass''"
| "coalesce_policy_to_string CP_Drain = ''drain''"
| "coalesce_policy_to_string CP_Batch = ''batch''"

datatype CoalesceMode = CM_Fixed | CM_Adaptive | CM_Bypass | CM_Drain

fun coalesce_mode_to_string :: "CoalesceMode \<Rightarrow> string" where
  "coalesce_mode_to_string CM_Fixed = ''fixed''"
| "coalesce_mode_to_string CM_Adaptive = ''adaptive''"
| "coalesce_mode_to_string CM_Bypass = ''bypass''"
| "coalesce_mode_to_string CM_Drain = ''drain''"

definition parse_coalesce_mode :: "string \<Rightarrow> CoalesceMode option" where
  "parse_coalesce_mode s =
     (if s = ''fixed'' then Some CM_Fixed else if s = ''adaptive'' then Some CM_Adaptive
      else if s = ''bypass'' then Some CM_Bypass else if s = ''drain'' then Some CM_Drain else None)"

record WriteCoalescer =
  wc_mode :: CoalesceMode
  wc_mtu_bytes :: int
  wc_max_delay_us :: int
  wc_avg_write_size :: int
  wc_avg_write_gap_us :: int
  wc_policy :: CoalescePolicy
  wc_candidate :: CoalescePolicy
  wc_candidate_streak :: nat

definition wc_new :: WriteCoalescer where
  "wc_new = \<lparr>wc_mode = CM_Fixed, wc_mtu_bytes = 1362, wc_max_delay_us = 200, wc_avg_write_size = 0,
             wc_avg_write_gap_us = 0, wc_policy = CP_Batch, wc_candidate = CP_Batch,
             wc_candidate_streak = 0\<rparr>"

definition kHysteresisSamples :: nat where "kHysteresisSamples = 4"

definition wc_set_mode :: "CoalesceMode \<Rightarrow> WriteCoalescer \<Rightarrow> WriteCoalescer" where
  "wc_set_mode m w = w\<lparr>wc_mode := m\<rparr>"

definition wc_configure :: "int \<Rightarrow> int \<Rightarrow> WriteCoalescer \<Rightarrow> WriteCoalescer" where
  "wc_configure mtu_bytes max_delay_us w =
     w\<lparr>wc_mtu_bytes := (if mtu_bytes \<noteq> 0 then mtu_bytes else 1), wc_max_delay_us := max_delay_us\<rparr>"

definition wc_observe :: "int \<Rightarrow> int \<Rightarrow> WriteCoalescer \<Rightarrow> WriteCoalescer" where
  "wc_observe write_size gap_us w =
     (let prev_size = wc_avg_write_size w;
          w1 = (if prev_size = 0 then w\<lparr>wc_avg_write_size := write_size\<rparr>
                else w\<lparr>wc_avg_write_size := prev_size + drop_bit 3 (write_size - prev_size)\<rparr>)
      in if gap_us > 0
         then let prev_gap = wc_avg_write_gap_us w1
              in if prev_gap = 0 then w1\<lparr>wc_avg_write_gap_us := gap_us\<rparr>
                 else w1\<lparr>wc_avg_write_gap_us := prev_gap + drop_bit 3 (gap_us - prev_gap)\<rparr>
         else w1)"

record Decision =
  dc_policy :: CoalescePolicy
  dc_previous :: CoalescePolicy
  dc_transitioned :: bool

definition candidate_of :: "WriteCoalescer \<Rightarrow> CoalescePolicy" where
  "candidate_of w =
     (if wc_avg_write_size w \<ge> wc_mtu_bytes w then CP_Bypass
      else if wc_avg_write_gap_us w > 4 * wc_max_delay_us w then CP_Drain
      else CP_Batch)"

text \<open>The hysteresis part of \<open>decide\<close>, for a given candidate.\<close>

definition hysteresis :: "CoalescePolicy \<Rightarrow> WriteCoalescer \<Rightarrow> Decision \<times> WriteCoalescer" where
  "hysteresis candidate w =
     (let previous = wc_policy w;
          keep = \<lparr>dc_policy = previous, dc_previous = previous, dc_transitioned = False\<rparr>
      in if candidate = previous then (keep, w\<lparr>wc_candidate_streak := 0\<rparr>)
         else if candidate \<noteq> wc_candidate w
         then (keep, w\<lparr>wc_candidate := candidate, wc_candidate_streak := 1\<rparr>)
         else if wc_candidate_streak w + 1 < kHysteresisSamples
         then (keep, w\<lparr>wc_candidate_streak := wc_candidate_streak w + 1\<rparr>)
         else (\<lparr>dc_policy = candidate, dc_previous = previous, dc_transitioned = True\<rparr>,
               w\<lparr>wc_policy := candidate, wc_candidate_streak := 0\<rparr>))"

definition pin_policy :: "CoalescePolicy \<Rightarrow> WriteCoalescer \<Rightarrow> Decision \<times> WriteCoalescer" where
  "pin_policy p w =
     (\<lparr>dc_policy = p, dc_previous = wc_policy w, dc_transitioned = False\<rparr>, w\<lparr>wc_policy := p\<rparr>)"

definition wc_decide :: "WriteCoalescer \<Rightarrow> Decision \<times> WriteCoalescer" where
  "wc_decide w =
     (case wc_mode w of
        CM_Fixed \<Rightarrow> pin_policy CP_Batch w
      | CM_Bypass \<Rightarrow> pin_policy CP_Bypass w
      | CM_Drain \<Rightarrow> pin_policy CP_Drain w
      | CM_Adaptive \<Rightarrow> hysteresis (candidate_of w) w)"

text \<open>One push: observe the write, then decide.\<close>

definition wc_push :: "int \<times> int \<Rightarrow> WriteCoalescer \<Rightarrow> Decision \<times> WriteCoalescer" where
  "wc_push sg w = wc_decide (wc_observe (fst sg) (snd sg) w)"

section \<open>The retry schedule\<close>

definition kSendqRetryBaseDelay :: nat where "kSendqRetryBaseDelay = 2000"
definition kSendqRetryMaxDelay :: nat where "kSendqRetryMaxDelay = 50000"

fun retry_loop :: "nat \<Rightarrow> nat \<Rightarrow> nat" where
  "retry_loop 0 delay = delay"
| "retry_loop (Suc n) delay =
     (if delay < kSendqRetryMaxDelay then retry_loop n (delay * 2) else delay)"

definition sendq_retry_delay :: "nat \<Rightarrow> nat" where
  "sendq_retry_delay attempt = min (retry_loop attempt kSendqRetryBaseDelay) kSendqRetryMaxDelay"

lemma retry_loop_min:
  "min (retry_loop n d) kSendqRetryMaxDelay = min (d * 2 ^ n) kSendqRetryMaxDelay"
proof (induction n arbitrary: d)
  case 0
  then show ?case by simp
next
  case (Suc n)
  show ?case
  proof (cases "d < kSendqRetryMaxDelay")
    case True
    then show ?thesis using Suc.IH [of "d * 2"] by (simp add: mult.assoc)
  next
    case False
    then have "kSendqRetryMaxDelay \<le> d * 2 ^ Suc n"
      by (metis le_trans mult.right_neutral mult_le_mono2 not_le one_le_numeral one_le_power)
    with False show ?thesis by simp
  qed
qed

section \<open>Hysteresis over a run\<close>

text \<open>
  A run of pushes, newest first: the coalescer after them, and the candidate each push produced.
\<close>

fun push_run :: "(int \<times> int) list \<Rightarrow> WriteCoalescer \<Rightarrow> WriteCoalescer" where
  "push_run [] w = w"
| "push_run (sg # sgs) w = snd (wc_push sg (push_run sgs w))"

fun push_candidates :: "(int \<times> int) list \<Rightarrow> WriteCoalescer \<Rightarrow> CoalescePolicy list" where
  "push_candidates [] w = []"
| "push_candidates (sg # sgs) w =
     candidate_of (wc_observe (fst sg) (snd sg) (push_run sgs w)) # push_candidates sgs w"

definition streak_inv :: "CoalescePolicy list \<Rightarrow> WriteCoalescer \<Rightarrow> bool" where
  "streak_inv cs w \<longleftrightarrow>
     wc_candidate_streak w < kHysteresisSamples
     \<and> wc_candidate_streak w \<le> length cs
     \<and> (\<forall>c \<in> set (take (wc_candidate_streak w) cs). c = wc_candidate w \<and> c \<noteq> wc_policy w)"

lemma wc_observe_frame [simp]:
  "wc_mode (wc_observe sz gap w) = wc_mode w"
  "wc_policy (wc_observe sz gap w) = wc_policy w"
  "wc_candidate (wc_observe sz gap w) = wc_candidate w"
  "wc_candidate_streak (wc_observe sz gap w) = wc_candidate_streak w"
  by (simp_all add: wc_observe_def Let_def)

lemma hysteresis_mode [simp]: "wc_mode (snd (hysteresis c w)) = wc_mode w"
  by (simp add: hysteresis_def Let_def)

lemma streak_inv_step: "streak_inv cs w \<Longrightarrow> streak_inv (c # cs) (snd (hysteresis c w))"
  by (auto simp: streak_inv_def hysteresis_def kHysteresisSamples_def Let_def)

lemma streak_inv_run:
  assumes "wc_candidate_streak w = 0" and "wc_mode w = CM_Adaptive"
  shows "streak_inv (push_candidates sgs w) (push_run sgs w) \<and> wc_mode (push_run sgs w) = CM_Adaptive"
proof (induction sgs)
  case Nil
  then show ?case using assms by (simp add: streak_inv_def kHysteresisSamples_def)
next
  case (Cons sg sgs)
  let ?w = "wc_observe (fst sg) (snd sg) (push_run sgs w)"
  have "streak_inv (push_candidates sgs w) ?w" and "wc_mode ?w = CM_Adaptive"
    using Cons.IH by (simp_all add: streak_inv_def)
  then show ?case
    by (simp add: wc_push_def wc_decide_def streak_inv_step)
qed

section \<open>Properties\<close>

text \<open>
  The coalescing policy does not flap. In adaptive mode, starting from a fresh
  coalescer, a push switches the policy only when its own candidate and those of the three pushes
  before it all name the new policy, which differs from the old one.
\<close>

theorem coalesce_transition_needs_four:
  assumes "dc_transitioned (fst (wc_push sg (push_run sgs (wc_set_mode CM_Adaptive wc_new))))"
  shows "3 \<le> length sgs
         \<and> (let d = fst (wc_push sg (push_run sgs (wc_set_mode CM_Adaptive wc_new))) in
            take 4 (push_candidates (sg # sgs) (wc_set_mode CM_Adaptive wc_new)) = replicate 4 (dc_policy d)
            \<and> dc_policy d \<noteq> dc_previous d)"
proof -
  let ?start = "wc_set_mode CM_Adaptive wc_new"
  let ?cs = "push_candidates sgs ?start"
  let ?w = "wc_observe (fst sg) (snd sg) (push_run sgs ?start)"
  let ?c = "candidate_of ?w"
  have "streak_inv ?cs (push_run sgs ?start) \<and> wc_mode (push_run sgs ?start) = CM_Adaptive"
    by (rule streak_inv_run) (simp_all add: wc_new_def wc_set_mode_def)
  then have inv: "streak_inv ?cs ?w" and step: "wc_push sg (push_run sgs ?start) = hysteresis ?c ?w"
    by (simp_all add: streak_inv_def wc_push_def wc_decide_def)
  have d: "?c \<noteq> wc_policy ?w" "?c = wc_candidate ?w" "3 \<le> wc_candidate_streak ?w"
    using assms unfolding step
    by (auto simp: hysteresis_def Let_def kHysteresisSamples_def split: if_splits)
  then have s: "wc_candidate_streak ?w = 3"
    using inv by (simp add: streak_inv_def kHysteresisSamples_def)
  then have len: "3 \<le> length ?cs" and all: "\<forall>x \<in> set (take 3 ?cs). x = ?c"
    using inv d by (auto simp: streak_inv_def)
  then have "take 3 ?cs = replicate 3 ?c"
    by (simp add: replicate_eqI)
  then have "take 4 (push_candidates (sg # sgs) ?start) = replicate 4 ?c"
    by (simp add: numeral_eq_Suc)
  moreover have "length ?cs = length sgs"
    by (induction sgs) simp_all
  ultimately show ?thesis
    using d s len unfolding step by (auto simp: hysteresis_def Let_def kHysteresisSamples_def)
qed

text \<open>
  An operator-pinned mode overrides every measurement: whatever was observed before,
  \<open>fixed\<close> batches, \<open>bypass\<close> bypasses and \<open>drain\<close> drains, no decision counts as a transition, and
  every mode name an operator can write parses back to its mode.
\<close>

theorem coalesce_pinned_modes:
  "dc_policy (fst (wc_decide (w\<lparr>wc_mode := CM_Fixed\<rparr>))) = CP_Batch
   \<and> dc_policy (fst (wc_decide (w\<lparr>wc_mode := CM_Bypass\<rparr>))) = CP_Bypass
   \<and> dc_policy (fst (wc_decide (w\<lparr>wc_mode := CM_Drain\<rparr>))) = CP_Drain
   \<and> (wc_mode w \<noteq> CM_Adaptive \<longrightarrow> \<not> dc_transitioned (fst (wc_decide w)))
   \<and> parse_coalesce_mode (coalesce_mode_to_string m) = Some m"
  by (cases m; cases "wc_mode w")
    (simp_all add: wc_decide_def pin_policy_def parse_coalesce_mode_def)

text \<open>
  The retry delay of a frame toxcore refused is \<open>2 ms\<close> doubled per attempt and capped at
  \<open>50 ms\<close>; it is always positive, so a retry timer can never spin, and never decreases with the
  number of attempts.
\<close>

theorem sendq_retry_delay_spec:
  "sendq_retry_delay n = min (2000 * 2 ^ n) 50000
   \<and> 0 < sendq_retry_delay n \<and> sendq_retry_delay n \<le> sendq_retry_delay (n + k)"
proof -
  have eq: "sendq_retry_delay m = min (2000 * 2 ^ m) 50000" for m
    using retry_loop_min [of m kSendqRetryBaseDelay]
    by (simp add: sendq_retry_delay_def kSendqRetryBaseDelay_def kSendqRetryMaxDelay_def)
  have "(2 :: nat) ^ n \<le> 2 ^ (n + k)"
    by (rule power_increasing) simp_all
  then show ?thesis
    by (simp add: eq min_le_iff_disj)
qed

end
