(* ===== verification/Bdp_Flow_Control.thy ===== *)
theory Bdp_Flow_Control
  imports Prelude
begin

text \<open>
  The per-tunnel send-window controller of \<open>include/toxtunnel/tunnel/bdp_flow_control.hpp\<close> and
  \<open>src/tunnel/bdp_flow_control.cpp\<close>. Its \<open>int64_t\<close> arithmetic is modelled over \<open>int\<close>; the property
  \<open>bdp_no_overflow\<close> shows that no intermediate value of the window computation leaves the 64-bit
  range, so that the two agree. A run of the controller is a list of observations; the lemmas bound
  the window over every run, pin it in fixed mode, and show that only trusted samples reach the
  minimum-RTT filter.
\<close>

section \<open>Model\<close>

datatype FlowControlMode = FC_Fixed | FC_Bdp

fun flow_control_mode_to_string :: "FlowControlMode \<Rightarrow> string" where
  "flow_control_mode_to_string FC_Bdp = ''bdp''"
| "flow_control_mode_to_string FC_Fixed = ''fixed''"

definition parse_flow_control_mode :: "string \<Rightarrow> FlowControlMode option" where
  "parse_flow_control_mode s =
     (if s = ''fixed'' then Some FC_Fixed else if s = ''bdp'' then Some FC_Bdp else None)"

definition kAckSafeFloorBytes :: int where "kAckSafeFloorBytes = 2 * 16 * 1024"
definition kTrustedSlackBytes :: int where "kTrustedSlackBytes = 4096"
definition kMinRttProbeAfterNs :: int where "kMinRttProbeAfterNs = 10000000000"
definition kBdpMinRttBucketNs :: int where "kBdpMinRttBucketNs = 5000000000"
definition kQueueBudgetUs :: int where "kQueueBudgetUs = 50000"
definition kBpsCap :: int where "kBpsCap = 1000000000"
definition kRttCapUs :: int where "kRttCapUs = 1000000000"

record BdpConfig =
  bc_mode :: FlowControlMode
  bc_min_window_bytes :: int
  bc_max_window_bytes :: int
  bc_safety_factor_x100 :: int
  bc_fixed_window_bytes :: int

definition default_bdp_config :: BdpConfig where
  "default_bdp_config =
     \<lparr>bc_mode = FC_Fixed, bc_min_window_bytes = kAckSafeFloorBytes,
      bc_max_window_bytes = 4 * 1024 * 1024, bc_safety_factor_x100 = 150,
      bc_fixed_window_bytes = 262144\<rparr>"

record BdpFlowControl =
  bd_cfg :: BdpConfig
  bd_rtt_us :: int
  bd_bandwidth_bps :: int
  bd_bucket_start_ns :: int
  bd_cur_bucket_min_us :: int
  bd_prev_bucket_min_us :: int
  bd_last_trusted_ns :: int
  bd_min_rtt_us :: int
  bd_probing :: bool
  bd_target_window_bytes :: int
  bd_ack_threshold_bytes :: int

text \<open>\<open>std::clamp(v, lo, hi)\<close>.\<close>

definition clamp :: "int \<Rightarrow> int \<Rightarrow> int \<Rightarrow> int" where
  "clamp v lo hi = (if v < lo then lo else if hi < v then hi else v)"

text \<open>Storing a window also stores the ACK threshold derived from it.\<close>

definition store_window :: "int \<Rightarrow> BdpFlowControl \<Rightarrow> BdpFlowControl" where
  "store_window w b = b\<lparr>bd_target_window_bytes := w, bd_ack_threshold_bytes := max (w div 16) 1024\<rparr>"

definition effective_config :: "BdpConfig \<Rightarrow> BdpConfig" where
  "effective_config cfg =
     (let mn = max (bc_min_window_bytes cfg) kAckSafeFloorBytes;
          mx = max (bc_max_window_bytes cfg) mn
      in \<lparr>bc_mode = bc_mode cfg, bc_min_window_bytes = mn, bc_max_window_bytes = mx,
          bc_safety_factor_x100 = clamp (bc_safety_factor_x100 cfg) 100 1000,
          bc_fixed_window_bytes = clamp (bc_fixed_window_bytes cfg) mn mx\<rparr>)"

definition bdp_configure :: "BdpConfig \<Rightarrow> BdpFlowControl \<Rightarrow> BdpFlowControl" where
  "bdp_configure cfg b =
     (let c = effective_config cfg in store_window (bc_fixed_window_bytes c) (b\<lparr>bd_cfg := c\<rparr>))"

definition bdp_new :: "BdpConfig \<Rightarrow> BdpFlowControl" where
  "bdp_new cfg =
     bdp_configure cfg
       \<lparr>bd_cfg = default_bdp_config, bd_rtt_us = 0, bd_bandwidth_bps = 0, bd_bucket_start_ns = 0,
        bd_cur_bucket_min_us = 0, bd_prev_bucket_min_us = 0, bd_last_trusted_ns = 0,
        bd_min_rtt_us = 0, bd_probing = False, bd_target_window_bytes = 262144,
        bd_ack_threshold_bytes = 16384\<rparr>"

text \<open>EWMA with weight 1/8; \<open>>> 3\<close> on a signed value rounds towards minus infinity.\<close>

definition ewma_update :: "int \<Rightarrow> int \<Rightarrow> int" where
  "ewma_update prev sample = (if prev = 0 then sample else prev + drop_bit 3 (sample - prev))"

definition is_trusted_inflight :: "int \<Rightarrow> BdpFlowControl \<Rightarrow> bool" where
  "is_trusted_inflight inflight b \<longleftrightarrow> inflight \<le> bc_min_window_bytes (bd_cfg b) + kTrustedSlackBytes"

text \<open>The factors of the bandwidth-delay product, as \<open>recompute_window_locked\<close> saturates them.\<close>

definition bps_capped :: "int \<Rightarrow> int" where
  "bps_capped bps = min bps kBpsCap"

definition rtt_capped :: "int \<Rightarrow> int" where
  "rtt_capped rtt = min rtt (kRttCapUs - kQueueBudgetUs) + kQueueBudgetUs"

definition bdp_bytes :: "int \<Rightarrow> int \<Rightarrow> int" where
  "bdp_bytes bps rtt = (bps_capped bps * rtt_capped rtt) div 1000000"

definition recompute_window :: "BdpFlowControl \<Rightarrow> BdpFlowControl" where
  "recompute_window b =
     (let c = bd_cfg b in
      if bc_mode c = FC_Fixed then store_window (bc_fixed_window_bytes c) b
      else if bd_probing b then store_window (bc_min_window_bytes c) b
      else
        let have_min = bd_min_rtt_us b > 0;
            rtt = (if \<not> have_min then bd_rtt_us b else bd_min_rtt_us b);
            bps = bd_bandwidth_bps b
        in if rtt \<le> 0 \<or> bps \<le> 0 then b
           else
             let target = (bdp_bytes bps rtt * bc_safety_factor_x100 c) div 100;
                 clamped = clamp target (bc_min_window_bytes c) (bc_max_window_bytes c);
                 clamped' = (if \<not> have_min then min clamped (bc_fixed_window_bytes c) else clamped)
             in store_window clamped' b)"

text \<open>The trusted branch of \<open>observe_rtt_samples_at\<close>: the two-bucket minimum filter.\<close>

definition rotate_bucket :: "int \<Rightarrow> BdpFlowControl \<Rightarrow> BdpFlowControl" where
  "rotate_bucket now_ns b =
     (if bd_bucket_start_ns b = 0 \<or> now_ns - bd_bucket_start_ns b \<ge> kBdpMinRttBucketNs
      then let adjacent = (bd_bucket_start_ns b \<noteq> 0
                           \<and> now_ns - bd_bucket_start_ns b < 2 * kBdpMinRttBucketNs)
           in b\<lparr>bd_prev_bucket_min_us := (if adjacent then bd_cur_bucket_min_us b else 0),
                bd_cur_bucket_min_us := 0, bd_bucket_start_ns := now_ns\<rparr>
      else b)"

definition note_trusted :: "int \<Rightarrow> int \<Rightarrow> BdpFlowControl \<Rightarrow> BdpFlowControl" where
  "note_trusted rtt_us now_ns b =
     (let b1 = rotate_bucket now_ns b;
          b2 = (if bd_cur_bucket_min_us b1 = 0 \<or> rtt_us < bd_cur_bucket_min_us b1
                then b1\<lparr>bd_cur_bucket_min_us := rtt_us\<rparr> else b1);
          m = bd_cur_bucket_min_us b2;
          m' = (if bd_prev_bucket_min_us b2 \<noteq> 0 \<and> bd_prev_bucket_min_us b2 < m
                then bd_prev_bucket_min_us b2 else m)
      in b2\<lparr>bd_min_rtt_us := m', bd_last_trusted_ns := now_ns, bd_probing := False\<rparr>)"

definition observe_rtt_samples_at :: "int \<Rightarrow> int \<Rightarrow> int \<Rightarrow> BdpFlowControl \<Rightarrow> BdpFlowControl" where
  "observe_rtt_samples_at rtt_us trusted_rtt_us now_ns b =
     (if rtt_us \<le> 0 then b
      else
        let b1 = b\<lparr>bd_rtt_us := ewma_update (bd_rtt_us b) rtt_us\<rparr>;
            b2 = (if bd_last_trusted_ns b1 = 0 then b1\<lparr>bd_last_trusted_ns := now_ns\<rparr> else b1);
            b3 = (if trusted_rtt_us > 0 then note_trusted trusted_rtt_us now_ns b2
                  else if now_ns - bd_last_trusted_ns b2 \<ge> kMinRttProbeAfterNs
                  then b2\<lparr>bd_probing := True\<rparr> else b2)
        in recompute_window b3)"

definition observe_rtt_us_at :: "int \<Rightarrow> int \<Rightarrow> BdpFlowControl \<Rightarrow> BdpFlowControl" where
  "observe_rtt_us_at rtt_us now_ns b = observe_rtt_samples_at rtt_us rtt_us now_ns b"

definition observe_rtt_sample_at :: "int \<Rightarrow> int \<Rightarrow> bool \<Rightarrow> BdpFlowControl \<Rightarrow> BdpFlowControl" where
  "observe_rtt_sample_at rtt_us now_ns trusted b =
     observe_rtt_samples_at rtt_us (if trusted then rtt_us else 0) now_ns b"

definition observe_bandwidth_bps :: "int \<Rightarrow> BdpFlowControl \<Rightarrow> BdpFlowControl" where
  "observe_bandwidth_bps bps b =
     (if bps \<le> 0 then b
      else recompute_window (b\<lparr>bd_bandwidth_bps := ewma_update (bd_bandwidth_bps b) bps\<rparr>))"

section \<open>Runs\<close>

datatype bdp_event =
    RttSamples int int int   \<comment> \<open>newest sample, newest trusted sample (0: none), time\<close>
  | Bandwidth int

fun bdp_step :: "bdp_event \<Rightarrow> BdpFlowControl \<Rightarrow> BdpFlowControl" where
  "bdp_step (RttSamples r t now) b = observe_rtt_samples_at r t now b"
| "bdp_step (Bandwidth bps) b = observe_bandwidth_bps bps b"

definition bdp_run :: "bdp_event list \<Rightarrow> BdpFlowControl \<Rightarrow> BdpFlowControl" where
  "bdp_run es b = fold bdp_step es b"

section \<open>Configuration and window invariants\<close>

definition config_ok :: "BdpConfig \<Rightarrow> bool" where
  "config_ok c \<longleftrightarrow>
     kAckSafeFloorBytes \<le> bc_min_window_bytes c
     \<and> bc_min_window_bytes c \<le> bc_fixed_window_bytes c
     \<and> bc_fixed_window_bytes c \<le> bc_max_window_bytes c
     \<and> 100 \<le> bc_safety_factor_x100 c \<and> bc_safety_factor_x100 c \<le> 1000"

definition window_ok :: "BdpFlowControl \<Rightarrow> bool" where
  "window_ok b \<longleftrightarrow>
     bc_min_window_bytes (bd_cfg b) \<le> bd_target_window_bytes b
     \<and> bd_target_window_bytes b \<le> bc_max_window_bytes (bd_cfg b)
     \<and> bd_ack_threshold_bytes b = max (bd_target_window_bytes b div 16) 1024"

definition bdp_inv :: "BdpFlowControl \<Rightarrow> bool" where
  "bdp_inv b \<longleftrightarrow>
     config_ok (bd_cfg b) \<and> window_ok b
     \<and> 0 \<le> bd_cur_bucket_min_us b \<and> 0 \<le> bd_prev_bucket_min_us b
     \<and> (bc_mode (bd_cfg b) = FC_Fixed \<longrightarrow> bd_target_window_bytes b = bc_fixed_window_bytes (bd_cfg b))
     \<and> (bd_min_rtt_us b \<le> 0 \<longrightarrow> bd_target_window_bytes b \<le> bc_fixed_window_bytes (bd_cfg b))"

lemma clamp_bounds: "lo \<le> hi \<Longrightarrow> lo \<le> clamp v lo hi \<and> clamp v lo hi \<le> hi"
  by (simp add: clamp_def)

lemma config_ok_effective: "config_ok (effective_config cfg)"
  by (auto simp: config_ok_def effective_config_def Let_def clamp_def kAckSafeFloorBytes_def)

lemma store_window_simps [simp]:
  "bd_cfg (store_window w b) = bd_cfg b"
  "bd_target_window_bytes (store_window w b) = w"
  "bd_ack_threshold_bytes (store_window w b) = max (w div 16) 1024"
  "bd_min_rtt_us (store_window w b) = bd_min_rtt_us b"
  "bd_rtt_us (store_window w b) = bd_rtt_us b"
  "bd_bandwidth_bps (store_window w b) = bd_bandwidth_bps b"
  "bd_probing (store_window w b) = bd_probing b"
  "bd_last_trusted_ns (store_window w b) = bd_last_trusted_ns b"
  "bd_cur_bucket_min_us (store_window w b) = bd_cur_bucket_min_us b"
  "bd_prev_bucket_min_us (store_window w b) = bd_prev_bucket_min_us b"
  by (simp_all add: store_window_def)

lemma recompute_window_frame [simp]:
  "bd_cfg (recompute_window b) = bd_cfg b"
  "bd_min_rtt_us (recompute_window b) = bd_min_rtt_us b"
  "bd_probing (recompute_window b) = bd_probing b"
  "bd_last_trusted_ns (recompute_window b) = bd_last_trusted_ns b"
  "bd_rtt_us (recompute_window b) = bd_rtt_us b"
  "bd_bandwidth_bps (recompute_window b) = bd_bandwidth_bps b"
  "bd_cur_bucket_min_us (recompute_window b) = bd_cur_bucket_min_us b"
  "bd_prev_bucket_min_us (recompute_window b) = bd_prev_bucket_min_us b"
  by (simp_all add: recompute_window_def Let_def)

lemma bdp_inv_new: "bdp_inv (bdp_new cfg)"
  using config_ok_effective [of cfg]
  by (auto simp: bdp_inv_def bdp_new_def bdp_configure_def Let_def window_ok_def config_ok_def)

text \<open>
  \<open>recompute_window\<close> re-establishes the window part of the invariant from the configuration part
  and the window it started from.
\<close>

lemma bdp_inv_recompute:
  assumes cfg: "config_ok (bd_cfg b)" and win: "window_ok b"
    and mins: "0 \<le> bd_cur_bucket_min_us b" "0 \<le> bd_prev_bucket_min_us b"
    and fixed: "bc_mode (bd_cfg b) = FC_Fixed \<longrightarrow> bd_target_window_bytes b = bc_fixed_window_bytes (bd_cfg b)"
    and seed: "bd_min_rtt_us b \<le> 0 \<longrightarrow> bd_target_window_bytes b \<le> bc_fixed_window_bytes (bd_cfg b)"
  shows "bdp_inv (recompute_window b)"
proof -
  let ?c = "bd_cfg b"
  have bounds: "bc_min_window_bytes ?c \<le> bc_fixed_window_bytes ?c" "bc_fixed_window_bytes ?c \<le> bc_max_window_bytes ?c"
    using cfg by (auto simp: config_ok_def)
  then have clamped: "bc_min_window_bytes ?c \<le> clamp v (bc_min_window_bytes ?c) (bc_max_window_bytes ?c)"
      "clamp v (bc_min_window_bytes ?c) (bc_max_window_bytes ?c) \<le> bc_max_window_bytes ?c" for v
    using clamp_bounds [of "bc_min_window_bytes ?c" "bc_max_window_bytes ?c" v] by auto
  show ?thesis
    using cfg win mins fixed seed bounds clamped
    by (auto simp: bdp_inv_def recompute_window_def window_ok_def Let_def min_def)
qed

text \<open>What a trusted sample does to the filter.\<close>

lemma rotate_bucket_frame [simp]:
  "bd_cfg (rotate_bucket now b) = bd_cfg b"
  "bd_target_window_bytes (rotate_bucket now b) = bd_target_window_bytes b"
  "bd_ack_threshold_bytes (rotate_bucket now b) = bd_ack_threshold_bytes b"
  by (simp_all add: rotate_bucket_def Let_def)

lemma rotate_bucket_mins:
  "0 \<le> bd_cur_bucket_min_us b \<Longrightarrow> 0 \<le> bd_prev_bucket_min_us b \<Longrightarrow>
     0 \<le> bd_cur_bucket_min_us (rotate_bucket now b) \<and> 0 \<le> bd_prev_bucket_min_us (rotate_bucket now b)"
  by (simp add: rotate_bucket_def Let_def)

lemma note_trusted_frame [simp]:
  "bd_cfg (note_trusted r now b) = bd_cfg b"
  "bd_target_window_bytes (note_trusted r now b) = bd_target_window_bytes b"
  "bd_ack_threshold_bytes (note_trusted r now b) = bd_ack_threshold_bytes b"
  "bd_probing (note_trusted r now b) = False"
  "bd_last_trusted_ns (note_trusted r now b) = now"
  by (simp_all add: note_trusted_def Let_def)

lemma note_trusted_mins:
  assumes "0 < r" "0 \<le> bd_cur_bucket_min_us b" "0 \<le> bd_prev_bucket_min_us b"
  shows "0 \<le> bd_cur_bucket_min_us (note_trusted r now b)"
    and "0 \<le> bd_prev_bucket_min_us (note_trusted r now b)"
    and "0 < bd_min_rtt_us (note_trusted r now b)"
    and "bd_min_rtt_us (note_trusted r now b) \<le> r"
  using rotate_bucket_mins [OF assms(2,3), of now] assms(1)
  by (auto simp: note_trusted_def Let_def)

lemma bdp_inv_step: "bdp_inv b \<Longrightarrow> bdp_inv (bdp_step e b)"
proof (cases e)
  case (Bandwidth bps)
  assume inv: "bdp_inv b"
  show ?thesis
  proof (cases "bps \<le> 0")
    case False
    then show ?thesis
      using inv Bandwidth
      by (simp add: observe_bandwidth_bps_def)
        (rule bdp_inv_recompute, simp_all add: bdp_inv_def window_ok_def)
  qed (use inv Bandwidth in \<open>simp add: observe_bandwidth_bps_def\<close>)
next
  case (RttSamples r t now)
  assume inv: "bdp_inv b"
  define b2 where "b2 = (let b1 = b\<lparr>bd_rtt_us := ewma_update (bd_rtt_us b) r\<rparr>
    in if bd_last_trusted_ns b1 = 0 then b1\<lparr>bd_last_trusted_ns := now\<rparr> else b1)"
  have b2: "bd_cfg b2 = bd_cfg b" "bd_target_window_bytes b2 = bd_target_window_bytes b"
    "bd_ack_threshold_bytes b2 = bd_ack_threshold_bytes b" "bd_min_rtt_us b2 = bd_min_rtt_us b"
    "bd_cur_bucket_min_us b2 = bd_cur_bucket_min_us b" "bd_prev_bucket_min_us b2 = bd_prev_bucket_min_us b"
    by (simp_all add: b2_def Let_def)
  have "bdp_inv (recompute_window (note_trusted t now b2))" if "t > 0"
    using inv that b2 note_trusted_mins [of t b2 now]
    by (intro bdp_inv_recompute) (auto simp: bdp_inv_def window_ok_def)
  moreover have "bdp_inv (recompute_window (b2\<lparr>bd_probing := p\<rparr>))" for p
    using inv b2 by (intro bdp_inv_recompute) (auto simp: bdp_inv_def window_ok_def)
  from this [of True] this [of "bd_probing b2"]
  have "bdp_inv (recompute_window (b2\<lparr>bd_probing := True\<rparr>))" "bdp_inv (recompute_window b2)"
    by simp_all
  ultimately show ?thesis
    using inv RttSamples by (auto simp: observe_rtt_samples_at_def b2_def Let_def)
qed

lemma bdp_inv_run: "bdp_inv b \<Longrightarrow> bdp_inv (bdp_run es b)"
  by (induction es arbitrary: b) (simp_all add: bdp_run_def bdp_inv_step)

lemma bdp_step_cfg: "bd_cfg (bdp_step e b) = bd_cfg b"
  by (cases e) (simp_all add: observe_rtt_samples_at_def observe_bandwidth_bps_def Let_def)

lemma bdp_run_cfg: "bd_cfg (bdp_run es b) = bd_cfg b"
  by (induction es arbitrary: b) (simp_all add: bdp_run_def bdp_step_cfg)

lemma bdp_new_cfg: "bd_cfg (bdp_new cfg) = effective_config cfg"
  by (simp add: bdp_new_def bdp_configure_def Let_def)

section \<open>Properties\<close>

text \<open>
  Whatever the configuration and whatever samples the peer provokes, the send window
  stays between the configured minimum (itself at least 32 KiB, two ACK thresholds of every
  receiver) and the configured maximum, the ACK threshold is a sixteenth of it but at least 1 KiB,
  and in fixed mode the window never moves from its configured value.
\<close>

theorem bdp_window_bounds:
  "let b = bdp_run es (bdp_new cfg); c = effective_config cfg in
     32768 \<le> bc_min_window_bytes c
     \<and> bc_min_window_bytes c \<le> bd_target_window_bytes b
     \<and> bd_target_window_bytes b \<le> bc_max_window_bytes c
     \<and> bd_ack_threshold_bytes b = max (bd_target_window_bytes b div 16) 1024
     \<and> (bc_mode cfg = FC_Fixed \<longrightarrow> bd_target_window_bytes b = bc_fixed_window_bytes c)"
proof -
  have "bdp_inv (bdp_run es (bdp_new cfg))"
    by (rule bdp_inv_run [OF bdp_inv_new])
  moreover have "bd_cfg (bdp_run es (bdp_new cfg)) = effective_config cfg"
    by (simp add: bdp_run_cfg bdp_new_cfg)
  moreover have "bc_mode (effective_config cfg) = bc_mode cfg"
    by (simp add: effective_config_def Let_def)
  ultimately show ?thesis
    by (auto simp: bdp_inv_def window_ok_def config_ok_def kAckSafeFloorBytes_def Let_def)
qed

text \<open>
  Until a trusted RTT sample has been taken the window never grows past its seed, no
  matter how much bandwidth or how many queued (untrusted) RTT samples are reported.
\<close>

theorem bdp_untrusted_never_grows:
  assumes "\<forall>e \<in> set es. \<forall>r t now. e = RttSamples r t now \<longrightarrow> t \<le> 0"
  shows "bd_target_window_bytes (bdp_run es (bdp_new cfg)) \<le> bc_fixed_window_bytes (effective_config cfg)
         \<and> bd_min_rtt_us (bdp_run es (bdp_new cfg)) = 0"
proof -
  have step: "bd_min_rtt_us (bdp_step e b) = bd_min_rtt_us b"
    if "\<forall>r t now. e = RttSamples r t now \<longrightarrow> t \<le> 0" for e b
    using that by (cases e) (auto simp: observe_rtt_samples_at_def observe_bandwidth_bps_def Let_def)
  have "bd_min_rtt_us (bdp_run es b) = bd_min_rtt_us b" for b
    using assms by (induction es arbitrary: b) (auto simp: bdp_run_def step)
  moreover have "bd_min_rtt_us (bdp_new cfg) = 0"
    by (simp add: bdp_new_def bdp_configure_def Let_def)
  moreover have "bdp_inv (bdp_run es (bdp_new cfg))"
    by (rule bdp_inv_run [OF bdp_inv_new])
  ultimately show ?thesis
    by (simp add: bdp_inv_def bdp_run_cfg bdp_new_cfg)
qed

text \<open>
  A trusted sample ends a min-RTT probe and makes the filter at most that sample; an
  untrusted one leaves the filter alone, and once no trusted sample has arrived for ten seconds it
  starts a probe that holds the window at its minimum.
\<close>

theorem bdp_min_rtt_filter:
  assumes "bdp_inv b" and "0 < r" and "bd_last_trusted_ns b \<noteq> 0" and "bc_mode (bd_cfg b) = FC_Bdp"
  shows "let b' = observe_rtt_samples_at r t now b in
         (0 < t \<longrightarrow> \<not> bd_probing b' \<and> 0 < bd_min_rtt_us b' \<and> bd_min_rtt_us b' \<le> t)
       \<and> (t \<le> 0 \<longrightarrow> bd_min_rtt_us b' = bd_min_rtt_us b)
       \<and> (t \<le> 0 \<longrightarrow> kMinRttProbeAfterNs \<le> now - bd_last_trusted_ns b \<longrightarrow>
            bd_probing b' \<and> bd_target_window_bytes b' = bc_min_window_bytes (bd_cfg b))"
proof -
  have mins: "0 \<le> bd_cur_bucket_min_us b" "0 \<le> bd_prev_bucket_min_us b"
    using assms(1) by (simp_all add: bdp_inv_def)
  then show ?thesis
    using assms(2,3,4) note_trusted_mins [of t "b\<lparr>bd_rtt_us := ewma_update (bd_rtt_us b) r\<rparr>" now]
    by (auto simp: observe_rtt_samples_at_def Let_def recompute_window_def)
qed

lemma ewma_between:
  assumes "0 < prev"
  shows "min prev sample \<le> ewma_update prev sample \<and> ewma_update prev sample \<le> max prev sample"
  using assms by (auto simp: ewma_update_def drop_bit_eq_div min_def max_def)

text \<open>
  The window arithmetic never leaves the 64-bit range. With a well-formed configuration
  both products of the bandwidth-delay computation are non-negative and below \<open>2 ^ 63\<close> for all
  positive inputs, and the EWMA of a non-negative state and a positive sample stays non-negative and
  never exceeds the larger of the two.
\<close>

theorem bdp_no_overflow:
  assumes "config_ok c" and "0 < bps" and "0 < rtt" and "0 \<le> prev" and "0 < sample"
  shows "0 \<le> bps_capped bps * rtt_capped rtt \<and> bps_capped bps * rtt_capped rtt < 2 ^ 63
       \<and> 0 \<le> bdp_bytes bps rtt * bc_safety_factor_x100 c
       \<and> bdp_bytes bps rtt * bc_safety_factor_x100 c < 2 ^ 63
       \<and> 0 \<le> ewma_update prev sample \<and> ewma_update prev sample \<le> max prev sample"
proof -
  have b: "0 < bps_capped bps" "bps_capped bps \<le> 10 ^ 9"
    and r: "0 < rtt_capped rtt" "rtt_capped rtt \<le> 10 ^ 9"
    using assms(2,3) by (auto simp: bps_capped_def rtt_capped_def kBpsCap_def kRttCapUs_def kQueueBudgetUs_def)
  have p0: "0 \<le> bps_capped bps * rtt_capped rtt"
    using b r by simp
  have p: "bps_capped bps * rtt_capped rtt \<le> 10 ^ 9 * 10 ^ 9"
    by (rule mult_mono) (use b r in auto)
  then have d: "bdp_bytes bps rtt \<le> 10 ^ 12" and d0: "0 \<le> bdp_bytes bps rtt"
    using p0 by (auto simp: bdp_bytes_def pos_imp_zdiv_nonneg_iff)
  have "bdp_bytes bps rtt * bc_safety_factor_x100 c \<le> 10 ^ 12 * 1000"
    by (rule mult_mono) (use d d0 assms(1) in \<open>auto simp: config_ok_def\<close>)
  moreover have "0 \<le> bdp_bytes bps rtt * bc_safety_factor_x100 c"
    using d0 assms(1) by (simp add: config_ok_def)
  moreover have "0 \<le> ewma_update prev sample \<and> ewma_update prev sample \<le> max prev sample"
    using ewma_between [of prev sample] assms(4,5)
    by (cases "prev = 0") (auto simp: ewma_update_def)
  ultimately show ?thesis
    using p0 p by auto
qed

end
