(* ===== verification/Tunnel_State.thy ===== *)
theory Tunnel_State
  imports Protocol Write_Coalescer Bdp_Flow_Control
begin

text \<open>
  The state of one tunnel endpoint (class \<open>TunnelImpl\<close> of \<open>include/toxtunnel/tunnel/tunnel.hpp\<close>)
  and its critical sections (\<open>src/tunnel/tunnel.cpp\<close>). The members are grouped into one record per
  mutex: the outbound FIFO and its driver flags, the terminal-ERROR slot and the half-close flags
  (\<open>coalesce_mutex_\<close>), the CLOSE frame (\<open>close_frame_mutex_\<close>), the OPEN handshake
  (\<open>open_retry_mutex_\<close>), the RTT sampler (\<open>bdp_sample_mutex_\<close>), the unsent TCP input
  (\<open>tcp_backpressure_mutex_\<close>) and the atomic counters of the flow control. Every definition of this
  theory that changes the state is one critical section (or one atomic operation) of the code;
  \<open>Tunnel_Driver\<close> and \<open>Tunnel_Ops\<close> compose them into the member functions.

  What the tunnel does to its surroundings (frames handed to the transport with the transport's
  verdict, callbacks, operations on the TCP socket) is recorded in the log \<open>tn_events\<close>. The
  transport, the TCP write callback and the clock are parameters (\<open>TunnelEnv\<close>), functions of that
  log. Counters of type \<open>size_t\<close> and \<open>uint64_t\<close> are natural numbers: a tunnel moves less than
  \<open>2^64\<close> bytes. Logging and metrics other than the one close sample are left out.
\<close>

section \<open>Enumerations and constants\<close>

datatype State = TS_None | TS_Connecting | TS_Connected | TS_Disconnecting | TS_Closed | TS_Error

fun state_to_string :: "State \<Rightarrow> string" where
  "state_to_string TS_None = ''None''"
| "state_to_string TS_Connecting = ''Connecting''"
| "state_to_string TS_Connected = ''Connected''"
| "state_to_string TS_Disconnecting = ''Disconnecting''"
| "state_to_string TS_Closed = ''Closed''"
| "state_to_string TS_Error = ''Error''"

datatype SendOutcome = SO_Sent | SO_SendqFull | SO_PermanentFail

datatype EmitOutcome = EO_RequestSatisfied | EO_DeferredToActiveEmitter | EO_Backpressured

datatype DrainPolicy = FullFramesOnly | FlushAll

datatype CloseReason = CR_Local | CR_Remote | CR_Timeout | CR_Error

datatype CloseObligation = CO_None | CO_Immediate | CO_DeferredToSender

datatype ErrorSettleParty = Producer | Transport

datatype OpenPhase = OP_Pending | OP_Sending | OP_Sent | OP_Abandoned | OP_Failed

datatype CloseFrameState = CF_NotOwed | CF_Owed | CF_InFlight | CF_Resolved | CF_Abandoned

datatype ResourceRelease = RR_Abort | RR_DrainIfClosed

definition kMaxTcpPayloadPerToxFrame :: nat where "kMaxTcpPayloadPerToxFrame = 1367"
definition kDefaultSendWindowSize :: nat where "kDefaultSendWindowSize = 256 * 1024"
definition kDefaultAckThreshold :: nat where "kDefaultAckThreshold = 16 * 1024"
definition kDefaultCoalesceMaxDelayUs :: nat where "kDefaultCoalesceMaxDelayUs = 200"
definition kDefaultCoalesceMaxBytes :: nat where "kDefaultCoalesceMaxBytes = 1362"
definition kBackpressureRetryUs :: nat where "kBackpressureRetryUs = 5000"
definition kRttSampleSpacing :: nat where "kRttSampleSpacing = 8 * 1024"
definition kMaxRttSamples :: nat where "kMaxRttSamples = 64"
definition kMinBandwidthIntervalNs :: int where "kMinBandwidthIntervalNs = 20000000"

section \<open>Data\<close>

record OutboundCohort =
  co_cap :: nat
  co_bytes :: "byte list"
  co_consumed :: nat

definition cohort_pending :: "OutboundCohort \<Rightarrow> nat" where
  "cohort_pending c = length (co_bytes c) - co_consumed c"

record Outbound =
  ob_fifo :: "OutboundCohort list"
  ob_fifo_pending :: nat
  ob_driver_active :: bool
  ob_flush_all_requested :: bool
  ob_abort_published :: bool
  ob_max_delay_us :: nat
  ob_max_bytes :: nat
  ob_timer_armed :: bool
  ob_timer_epoch :: nat
  ob_timer_expiry_ns :: int

record PendingTerminalError =
  pe_wire :: "byte list"
  pe_attempt :: nat

record ErrorSlot =
  es_claimed :: bool
  es_in_flight :: bool
  es_pending :: "PendingTerminalError option"
  es_retry_armed :: bool
  es_attempt_in_flight :: bool
  es_retry_cancelled :: bool
  es_retry_epoch :: nat
  es_producer_arrived :: bool
  es_transport_arrived :: bool
  es_finalize_pending :: bool

record HalfClose =
  hc_close_pending :: bool
  hc_close_pending_full :: bool
  hc_local_close_sent :: bool
  hc_local_stream_done :: bool
  hc_remote_close_received :: bool
  hc_remote_close_pending :: bool

record CloseFrame =
  cf_state :: CloseFrameState
  cf_emit_requested :: bool
  cf_retry_armed :: bool
  cf_retry_epoch :: nat
  cf_retry_attempt :: nat
  cf_retry_cancelled :: bool

record OpenHandshake =
  oh_phase :: OpenPhase
  oh_abandon_requested :: bool
  oh_retry_armed :: bool
  oh_retry_epoch :: nat
  oh_attempts :: nat
  oh_close_owed :: bool
  oh_timeout_s :: int
  oh_deadline_armed :: bool
  oh_deadline_epoch :: nat

record Flow =
  fl_window_size :: nat
  fl_window_used :: nat
  fl_ack_threshold :: nat
  fl_since_ack :: nat
  fl_received :: nat
  fl_sent :: nat
  fl_emitted :: nat
  fl_acked :: nat
  fl_control :: BdpFlowControl
  fl_configured :: bool

record RttSample =
  rs_end_offset :: nat
  rs_sent_ns :: int
  rs_inflight :: nat
  rs_delivered :: nat
  rs_delivered_ns :: int
  rs_app_limited :: bool

record Sampler =
  sm_samples :: "RttSample list"
  sm_delivered :: nat
  sm_last_delivered_ns :: int
  sm_bw_anchor :: "RttSample option"

record TcpSide =
  tc_conn :: bool
  tc_input :: "byte list"
  tc_consumed :: nat
  tc_eof :: bool

definition pending_tcp_pending :: "TcpSide \<Rightarrow> nat" where
  "pending_tcp_pending p = length (tc_input p) - tc_consumed p"

text \<open>
  Where the one active run of \<open>run_emission_driver\<close> is: its local variables \<open>current_sel\<close>, the
  selected frame, \<open>more_data_queued\<close>, \<open>end_offset\<close>, \<open>rtt_sampled\<close> and the verdict of the send.
\<close>

datatype DriverPc =
    DP_Idle
  | DP_Head
  | DP_Data "byte list" bool bool             \<comment> \<open>payload, \<open>zero_copy\<close>, more data queued\<close>
  | DP_DataAuth "byte list" bool bool         \<comment> \<open>the same, past the Abort check\<close>
  | DP_DataCounted "byte list" bool nat bool  \<comment> \<open>payload, \<open>zero_copy\<close>, end offset, sampled\<close>
  | DP_DataDone nat nat bool bool             \<comment> \<open>frame bytes, end offset, sampled, sent\<close>
  | DP_Error "byte list"
  | DP_ErrorDone SendOutcome
  | DP_Close
  | DP_CloseDone SendOutcome

datatype TunnelEvent =
    EvSend "byte list" SendOutcome
  | EvState State
  | EvClosed
  | EvErrorReceived byte string
  | EvIdReleasable
  | EvBooked CloseReason
  | EvTcpData "byte list"
  | EvTcpPauseRead
  | EvTcpResumeRead
  | EvTcpShutdownSend
  | EvTcpClose
  | EvTcpForceClose

record Tunnel =
  tn_id :: u16
  tn_state :: State
  tn_timeout_close :: bool
  tn_close_booked :: bool
  tn_last_error_code :: byte
  tn_last_error_description :: string
  tn_target_host :: string
  tn_target_port :: u16
  tn_last_activity_ns :: int
  tn_gate_closed :: bool
  tn_span_cb :: bool        \<comment> \<open>\<open>on_send_to_tox_\<close> is installed\<close>
  tn_owned_cb :: bool       \<comment> \<open>\<open>on_send_to_tox_owned_\<close> is installed\<close>
  tn_tcp_cb :: bool         \<comment> \<open>\<open>on_data_for_tcp_owned_\<close> or \<open>on_data_for_tcp_\<close> is installed\<close>
  tn_close_notified :: bool
  tn_id_cb :: bool          \<comment> \<open>\<open>on_id_releasable_\<close> is installed\<close>
  tn_id_notified :: bool
  tn_resources_released :: bool
  tn_coalescer :: WriteCoalescer
  tn_last_push_ns :: int
  tn_ack_timer_armed :: bool
  tn_ack_timer_epoch :: nat
  tn_out :: Outbound
  tn_err :: ErrorSlot
  tn_half :: HalfClose
  tn_close :: CloseFrame
  tn_open :: OpenHandshake
  tn_flow :: Flow
  tn_sampler :: Sampler
  tn_tcp :: TcpSide
  tn_pc :: DriverPc
  tn_events :: "TunnelEvent list"
  tn_accepted :: "byte list"   \<comment> \<open>ghost: every byte \<open>send_data_to_tox\<close> has appended to the FIFO\<close>
  tn_reserved :: nat           \<comment> \<open>ghost: window bytes reserved by calls that have not appended yet\<close>
  tn_emitted_high :: nat       \<comment> \<open>ghost: the largest value \<open>fl_emitted\<close> has had\<close>
  tn_unreleased :: nat         \<comment> \<open>ghost: credited bytes whose window space is not released yet\<close>
  tn_window_high :: nat        \<comment> \<open>ghost: the largest window a reservation was made under\<close>

record TunnelEnv =
  te_tox :: "TunnelEvent list \<Rightarrow> byte list \<Rightarrow> SendOutcome"
  te_tcp :: "TunnelEvent list \<Rightarrow> byte list \<Rightarrow> bool"
  te_now :: "TunnelEvent list \<Rightarrow> int"

definition tunnel_new :: "u16 \<Rightarrow> nat \<Rightarrow> int \<Rightarrow> Tunnel" where
  "tunnel_new tunnel_id send_window now =
     \<lparr>tn_id = tunnel_id, tn_state = TS_None, tn_timeout_close = False, tn_close_booked = False,
      tn_last_error_code = 0, tn_last_error_description = [], tn_target_host = [],
      tn_target_port = 0, tn_last_activity_ns = now, tn_gate_closed = False, tn_span_cb = False,
      tn_owned_cb = False, tn_tcp_cb = False, tn_close_notified = False, tn_id_cb = False,
      tn_id_notified = False, tn_resources_released = False, tn_coalescer = wc_new,
      tn_last_push_ns = 0, tn_ack_timer_armed = False, tn_ack_timer_epoch = 0,
      tn_out = \<lparr>ob_fifo = [], ob_fifo_pending = 0, ob_driver_active = False,
                ob_flush_all_requested = False, ob_abort_published = False,
                ob_max_delay_us = kDefaultCoalesceMaxDelayUs, ob_max_bytes = kDefaultCoalesceMaxBytes,
                ob_timer_armed = False, ob_timer_epoch = 0, ob_timer_expiry_ns = 0\<rparr>,
      tn_err = \<lparr>es_claimed = False, es_in_flight = False, es_pending = None,
                es_retry_armed = False, es_attempt_in_flight = False, es_retry_cancelled = False,
                es_retry_epoch = 0, es_producer_arrived = False, es_transport_arrived = False,
                es_finalize_pending = False\<rparr>,
      tn_half = \<lparr>hc_close_pending = False, hc_close_pending_full = False,
                 hc_local_close_sent = False, hc_local_stream_done = False,
                 hc_remote_close_received = False, hc_remote_close_pending = False\<rparr>,
      tn_close = \<lparr>cf_state = CF_NotOwed, cf_emit_requested = False, cf_retry_armed = False,
                  cf_retry_epoch = 0, cf_retry_attempt = 0, cf_retry_cancelled = False\<rparr>,
      tn_open = \<lparr>oh_phase = OP_Pending, oh_abandon_requested = False, oh_retry_armed = False,
                 oh_retry_epoch = 0, oh_attempts = 0, oh_close_owed = False, oh_timeout_s = 0,
                 oh_deadline_armed = False, oh_deadline_epoch = 0\<rparr>,
      tn_flow = \<lparr>fl_window_size = send_window, fl_window_used = 0,
                 fl_ack_threshold = kDefaultAckThreshold, fl_since_ack = 0, fl_received = 0,
                 fl_sent = 0, fl_emitted = 0, fl_acked = 0, fl_control = bdp_new default_bdp_config,
                 fl_configured = False\<rparr>,
      tn_sampler = \<lparr>sm_samples = [], sm_delivered = 0, sm_last_delivered_ns = 0,
                    sm_bw_anchor = None\<rparr>,
      tn_tcp = \<lparr>tc_conn = False, tc_input = [], tc_consumed = 0, tc_eof = False\<rparr>,
      tn_pc = DP_Idle, tn_events = [], tn_accepted = [], tn_reserved = 0, tn_emitted_high = 0,
      tn_unreleased = 0, tn_window_high = 0\<rparr>"

definition log_event :: "TunnelEvent \<Rightarrow> Tunnel \<Rightarrow> Tunnel" where
  "log_event ev t = t\<lparr>tn_events := tn_events t @ [ev]\<rparr>"

definition is_connected :: "Tunnel \<Rightarrow> bool" where
  "is_connected t \<longleftrightarrow> tn_state t = TS_Connected"

definition terminal :: "State \<Rightarrow> bool" where
  "terminal s \<longleftrightarrow> s = TS_Closed \<or> s = TS_Error"

section \<open>State transitions and notifications\<close>

definition cancel_open_deadline :: "Tunnel \<Rightarrow> Tunnel" where
  "cancel_open_deadline t =
     t\<lparr>tn_open := (tn_open t)\<lparr>oh_deadline_epoch := oh_deadline_epoch (tn_open t) + 1,
                             oh_deadline_armed := False\<rparr>\<rparr>"

definition arm_open_deadline_timer :: "Tunnel \<Rightarrow> Tunnel" where
  "arm_open_deadline_timer t =
     (if oh_timeout_s (tn_open t) \<le> 0 then t
      else t\<lparr>tn_open := (tn_open t)\<lparr>oh_deadline_epoch := oh_deadline_epoch (tn_open t) + 1,
                                   oh_deadline_armed := True\<rparr>\<rparr>)"

definition notify_state_change :: "State \<Rightarrow> Tunnel \<Rightarrow> Tunnel" where
  "notify_state_change new_state t =
     log_event (EvState new_state) (if new_state \<noteq> TS_Connecting then cancel_open_deadline t else t)"

definition book_close_once :: "CloseReason \<Rightarrow> Tunnel \<Rightarrow> Tunnel" where
  "book_close_once reason t =
     (if tn_close_booked t then t else log_event (EvBooked reason) (t\<lparr>tn_close_booked := True\<rparr>))"

definition notify_close_once :: "Tunnel \<Rightarrow> Tunnel" where
  "notify_close_once t =
     (if tn_close_notified t then t else log_event EvClosed (t\<lparr>tn_close_notified := True\<rparr>))"

definition id_releasable :: "Tunnel \<Rightarrow> bool" where
  "id_releasable t =
     (if es_in_flight (tn_err t) then False
      else case cf_state (tn_close t) of
             CF_Owed \<Rightarrow> False
           | CF_InFlight \<Rightarrow> False
           | CF_Resolved \<Rightarrow> True
           | CF_NotOwed \<Rightarrow> terminal (tn_state t)
           | CF_Abandoned \<Rightarrow> terminal (tn_state t))"

definition maybe_notify_id_releasable :: "Tunnel \<Rightarrow> Tunnel" where
  "maybe_notify_id_releasable t =
     (if \<not> id_releasable t then t
      else if tn_id_notified t \<or> \<not> tn_id_cb t then t
      else log_event EvIdReleasable (t\<lparr>tn_id_cb := False, tn_id_notified := True\<rparr>))"

definition set_on_id_releasable :: "Tunnel \<Rightarrow> Tunnel" where
  "set_on_id_releasable t = maybe_notify_id_releasable (t\<lparr>tn_id_cb := True\<rparr>)"

definition store_state :: "State \<Rightarrow> Tunnel \<Rightarrow> Tunnel" where
  "store_state s t = t\<lparr>tn_state := s\<rparr>"

definition transition_state_if :: "State \<Rightarrow> State \<Rightarrow> Tunnel \<Rightarrow> bool \<times> Tunnel" where
  "transition_state_if expected desired t =
     (if tn_state t \<noteq> expected then (False, t)
      else if expected = desired then (True, t)
      else (True, maybe_notify_id_releasable
                    (notify_state_change desired (store_state desired t))))"

definition transition_state :: "State \<Rightarrow> Tunnel \<Rightarrow> Tunnel" where
  "transition_state new_state t =
     (if terminal (tn_state t) then t
      else if tn_state t = new_state then t
      else maybe_notify_id_releasable
             (notify_state_change new_state (store_state new_state t)))"

definition try_publish_connected :: "Tunnel \<Rightarrow> bool \<times> Tunnel" where
  "try_publish_connected t = transition_state_if TS_None TS_Connected t"

definition local_close_reason :: "Tunnel \<Rightarrow> CloseReason" where
  "local_close_reason t = (if tn_timeout_close t then CR_Timeout else CR_Local)"

section \<open>The CLOSE frame\<close>

definition note_close_owed :: "Tunnel \<Rightarrow> Tunnel" where
  "note_close_owed t =
     (let c = tn_close t in
      if cf_state c \<noteq> CF_NotOwed then t
      else if cf_retry_cancelled c then t\<lparr>tn_close := c\<lparr>cf_state := CF_Abandoned\<rparr>\<rparr>
      else t\<lparr>tn_close := c\<lparr>cf_state := CF_Owed\<rparr>\<rparr>)"

definition abandon_close :: "Tunnel \<Rightarrow> Tunnel" where
  "abandon_close t =
     (if cf_state (tn_close t) \<noteq> CF_Owed then t
      else t\<lparr>tn_close := (tn_close t)\<lparr>cf_state := CF_Abandoned\<rparr>\<rparr>)"

definition abandon_close_obligation :: "Tunnel \<Rightarrow> Tunnel" where
  "abandon_close_obligation t =
     (if cf_state (tn_close t) \<noteq> CF_Owed then t else maybe_notify_id_releasable (abandon_close t))"

text \<open>The critical section of \<open>cancel_close_retry\<close>, and the whole function.\<close>

definition fence_close_retry :: "Tunnel \<Rightarrow> Tunnel" where
  "fence_close_retry t =
     (let c = tn_close t in
      t\<lparr>tn_close := c\<lparr>cf_state := (if cf_state c = CF_Owed then CF_Abandoned else cf_state c),
                     cf_emit_requested := False, cf_retry_armed := False,
                     cf_retry_epoch := cf_retry_epoch c + 1, cf_retry_cancelled := True\<rparr>\<rparr>)"

definition cancel_close_retry :: "Tunnel \<Rightarrow> Tunnel" where
  "cancel_close_retry t = maybe_notify_id_releasable (fence_close_retry t)"

text \<open>The critical section of \<open>emit_close_frame_once\<close>: schedule the one CLOSE.\<close>

definition request_close :: "Tunnel \<Rightarrow> bool \<times> Tunnel" where
  "request_close t =
     (let c = tn_close t in
      if cf_retry_cancelled c then (False, t)
      else if es_claimed (tn_err t) then (False, t)
      else if cf_state c \<noteq> CF_NotOwed \<and> cf_state c \<noteq> CF_Owed then (False, t)
      else if cf_emit_requested c \<or> cf_retry_armed c then (False, t)
      else (True, t\<lparr>tn_close := c\<lparr>cf_state := CF_Owed, cf_emit_requested := True\<rparr>\<rparr>))"

text \<open>The handler of the CLOSE retry timer armed with \<open>epoch\<close>, up to its kick of the driver.\<close>

definition close_retry_fire :: "nat \<Rightarrow> Tunnel \<Rightarrow> bool \<times> Tunnel" where
  "close_retry_fire epoch t =
     (let c = tn_close t in
      if epoch \<noteq> cf_retry_epoch c then (False, t)
      else if cf_retry_cancelled c \<or> es_claimed (tn_err t) \<or> cf_state c \<noteq> CF_Owed
      then (False, t\<lparr>tn_close := c\<lparr>cf_retry_armed := False\<rparr>\<rparr>)
      else (True, t\<lparr>tn_close := c\<lparr>cf_emit_requested := True, cf_retry_armed := False\<rparr>\<rparr>))"

section \<open>The OPEN handshake\<close>

definition cancel_open_retry :: "Tunnel \<Rightarrow> CloseObligation \<times> Tunnel" where
  "cancel_open_retry t =
     (let h = (tn_open t)\<lparr>oh_abandon_requested := True, oh_retry_armed := False,
                          oh_retry_epoch := oh_retry_epoch (tn_open t) + 1\<rparr>
      in case oh_phase h of
           OP_Pending \<Rightarrow> (CO_None, t\<lparr>tn_open := h\<lparr>oh_phase := OP_Abandoned\<rparr>\<rparr>)
         | OP_Sending \<Rightarrow> (CO_DeferredToSender,
                         note_close_owed (t\<lparr>tn_open := h\<lparr>oh_close_owed := True\<rparr>\<rparr>))
         | OP_Sent \<Rightarrow> (CO_Immediate, t\<lparr>tn_open := h\<rparr>)
         | OP_Abandoned \<Rightarrow> (CO_None, t\<lparr>tn_open := h\<rparr>)
         | OP_Failed \<Rightarrow> (CO_None, t\<lparr>tn_open := h\<rparr>))"

record TerminalClaim =
  tcl_claimed :: bool
  tcl_previous :: State
  tcl_must_announce :: bool

definition claim_terminal :: "State option \<Rightarrow> Tunnel \<Rightarrow> TerminalClaim \<times> Tunnel" where
  "claim_terminal only_from t =
     (let previous = tn_state t;
          claimed = (\<not> terminal previous \<and> (case only_from of None \<Rightarrow> True | Some s \<Rightarrow> previous = s));
          t1 = (if claimed then store_state TS_Closed t else t)
      in if only_from \<noteq> None \<and> \<not> claimed
         then (\<lparr>tcl_claimed = False, tcl_previous = previous, tcl_must_announce = False\<rparr>, t1)
         else case cancel_open_retry t1 of (obligation, t2) \<Rightarrow>
           let must_announce = (claimed \<and>
                 (previous = TS_Connecting \<and> obligation = CO_Immediate \<or> previous = TS_Connected))
           in (\<lparr>tcl_claimed = claimed, tcl_previous = previous, tcl_must_announce = must_announce\<rparr>,
               if must_announce then note_close_owed t2 else t2))"

section \<open>The terminal ERROR\<close>

definition publish_abort :: "Tunnel \<Rightarrow> Tunnel" where
  "publish_abort t =
     t\<lparr>tn_out := (tn_out t)\<lparr>ob_fifo := [], ob_fifo_pending := 0, ob_abort_published := True\<rparr>,
       tn_half := (tn_half t)\<lparr>hc_close_pending := False, hc_close_pending_full := False,
                              hc_remote_close_pending := False\<rparr>\<rparr>"

text \<open>The result is whether the claim was won and whether the transport is settled at once.\<close>

definition claim_terminal_error :: "byte list \<Rightarrow> Tunnel \<Rightarrow> (bool \<times> bool) \<times> Tunnel" where
  "claim_terminal_error wire t =
     (let t1 = publish_abort t; e = tn_err t1 in
      if es_claimed e then ((False, False), t1)
      else let e1 = e\<lparr>es_claimed := True, es_in_flight := True, es_producer_arrived := False,
                      es_transport_arrived := False, es_finalize_pending := False\<rparr>
           in if es_retry_cancelled e \<or> wire = [] then ((True, True), t1\<lparr>tn_err := e1\<rparr>)
              else ((True, False),
                    t1\<lparr>tn_err := e1\<lparr>es_pending := Some \<lparr>pe_wire = wire, pe_attempt = 0\<rparr>\<rparr>\<rparr>))"

definition settle_error_for_shutdown :: "Tunnel \<Rightarrow> bool \<times> Tunnel" where
  "settle_error_for_shutdown t =
     (let e = (tn_err t)\<lparr>es_retry_armed := False, es_retry_cancelled := True,
                         es_retry_epoch := es_retry_epoch (tn_err t) + 1\<rparr>
      in if es_pending e \<noteq> None \<and> \<not> es_attempt_in_flight e
         then (True, t\<lparr>tn_err := e\<lparr>es_pending := None\<rparr>\<rparr>)
         else (False, t\<lparr>tn_err := e\<rparr>))"

definition lower_error_fence :: "Tunnel \<Rightarrow> Tunnel" where
  "lower_error_fence t = t\<lparr>tn_err := (tn_err t)\<lparr>es_in_flight := False\<rparr>\<rparr>"

definition run_terminal_error_finalizer :: "Tunnel \<Rightarrow> Tunnel" where
  "run_terminal_error_finalizer t = notify_close_once (cancel_close_retry (lower_error_fence t))"

text \<open>The critical section of \<open>arrive_terminal_error_party\<close>; the result is \<open>run_now\<close>.\<close>

definition record_arrival :: "ErrorSettleParty \<Rightarrow> bool \<Rightarrow> Tunnel \<Rightarrow> bool \<times> Tunnel" where
  "record_arrival party defer_finalizer t =
     (let e = tn_err t;
          mine = (case party of Producer \<Rightarrow> es_producer_arrived e | Transport \<Rightarrow> es_transport_arrived e)
      in if mine then (False, t)
         else let e1 = (case party of Producer \<Rightarrow> e\<lparr>es_producer_arrived := True\<rparr>
                                    | Transport \<Rightarrow> e\<lparr>es_transport_arrived := True\<rparr>)
              in if es_producer_arrived e1 \<and> es_transport_arrived e1
                 then if defer_finalizer then (False, t\<lparr>tn_err := e1\<lparr>es_finalize_pending := True\<rparr>\<rparr>)
                      else (True, t\<lparr>tn_err := e1\<rparr>)
                 else (False, t\<lparr>tn_err := e1\<rparr>))"

definition arrive_terminal_error_party :: "ErrorSettleParty \<Rightarrow> bool \<Rightarrow> Tunnel \<Rightarrow> Tunnel" where
  "arrive_terminal_error_party party defer_finalizer t =
     (case record_arrival party defer_finalizer t of
        (run_now, t1) \<Rightarrow> if run_now then run_terminal_error_finalizer t1 else t1)"

definition clear_finalize_pending :: "Tunnel \<Rightarrow> Tunnel" where
  "clear_finalize_pending t = t\<lparr>tn_err := (tn_err t)\<lparr>es_finalize_pending := False\<rparr>\<rparr>"

definition take_pending_terminal_finalizer :: "Tunnel \<Rightarrow> Tunnel" where
  "take_pending_terminal_finalizer t =
     (if es_finalize_pending (tn_err t)
      then run_terminal_error_finalizer (clear_finalize_pending t) else t)"

text \<open>The handler of the ERROR retry timer armed with \<open>epoch\<close>, up to its kick of the driver.\<close>

definition error_retry_fire :: "nat \<Rightarrow> Tunnel \<Rightarrow> bool \<times> Tunnel" where
  "error_retry_fire epoch t =
     (let e = tn_err t in
      if epoch \<noteq> es_retry_epoch e then (False, t)
      else (\<not> es_retry_cancelled e \<and> es_pending e \<noteq> None,
            t\<lparr>tn_err := e\<lparr>es_retry_armed := False\<rparr>\<rparr>))"

definition abort_teardown_required :: "Tunnel \<Rightarrow> bool" where
  "abort_teardown_required t \<longleftrightarrow>
     tn_state t = TS_None \<or> tn_state t = TS_Disconnecting \<or> tn_state t = TS_Closed
     \<or> tn_state t = TS_Error \<or> ob_abort_published (tn_out t)"

definition control_obligation_eligible :: "Tunnel \<Rightarrow> bool" where
  "control_obligation_eligible t =
     (let e = tn_err t; c = tn_close t in
      if es_pending e \<noteq> None \<and> \<not> es_retry_armed e \<and> \<not> es_attempt_in_flight e
         \<and> \<not> es_retry_cancelled e then True
      else cf_emit_requested c \<and> cf_state c = CF_Owed \<and> \<not> cf_retry_cancelled c \<and> \<not> es_claimed e)"

text \<open>The critical section of \<open>close_outbound_gate\<close>, and the whole function.\<close>

definition seal_gate :: "Tunnel \<Rightarrow> bool \<times> Tunnel" where
  "seal_gate t =
     (case settle_error_for_shutdown (publish_abort t) of
        (arrive, t1) \<Rightarrow> (arrive, t1\<lparr>tn_gate_closed := True, tn_span_cb := False,
                                    tn_owned_cb := False\<rparr>))"

definition close_outbound_gate :: "Tunnel \<Rightarrow> Tunnel" where
  "close_outbound_gate t =
     (case seal_gate (cancel_close_retry t) of
        (arrive, t1) \<Rightarrow> if arrive then arrive_terminal_error_party Transport True t1 else t1)"

end
