(* ===== verification/Tunnel_Driver.thy ===== *)
theory Tunnel_Driver
  imports Tunnel_State "HOL-Library.Monad_Syntax"
begin

text \<open>
  The outbound side of a tunnel (\<open>src/tunnel/tunnel.cpp\<close>): the cohort FIFO, the flow-control
  counters, the RTT sampler, the calls into the transport and the single emission driver
  \<open>run_emission_driver\<close>. Each pass of the driver's loop is a selection under the lock, a transport
  call without it and a commit under it; the three are separate definitions, so that other critical
  sections can run between them. The loop itself takes fuel: a pass hands at least one byte, the
  CLOSE or the ERROR to the transport, and \<open>Tunnel_Progress\<close> shows that the number of pending bytes
  plus a small constant is always enough for a flush.
\<close>

section \<open>The cohort FIFO and the flush timer\<close>

definition fifo_append :: "byte list \<Rightarrow> nat \<Rightarrow> Outbound \<Rightarrow> Outbound" where
  "fifo_append data cap ob =
     (let fifo = ob_fifo ob;
          fifo' =
            (if fifo \<noteq> [] \<and> co_cap (last fifo) = cap
             then let back = last fifo;
                      back1 = (if \<not> ob_driver_active ob \<and> co_consumed back > 0
                                  \<and> co_consumed back \<ge> cohort_pending back
                               then back\<lparr>co_bytes := drop (co_consumed back) (co_bytes back),
                                         co_consumed := 0\<rparr>
                               else back)
                  in butlast fifo @ [back1\<lparr>co_bytes := co_bytes back1 @ data\<rparr>]
             else fifo @ [\<lparr>co_cap = cap, co_bytes = data, co_consumed = 0\<rparr>])
      in ob\<lparr>ob_fifo := fifo', ob_fifo_pending := ob_fifo_pending ob + length data\<rparr>)"

definition coalesce_arm_timer :: "bool \<Rightarrow> int \<Rightarrow> Outbound \<Rightarrow> Outbound" where
  "coalesce_arm_timer backpressured now ob =
     (if ob_fifo_pending ob = 0 then ob
      else let delay_us = (if backpressured then max (ob_max_delay_us ob) kBackpressureRetryUs
                           else ob_max_delay_us ob);
               expiry = now + 1000 * int delay_us
           in if ob_timer_armed ob \<and> (\<not> backpressured \<or> ob_timer_expiry_ns ob \<ge> expiry) then ob
              else ob\<lparr>ob_timer_armed := True, ob_timer_epoch := ob_timer_epoch ob + 1,
                      ob_timer_expiry_ns := expiry\<rparr>)"

text \<open>The handler of the flush timer armed with \<open>epoch\<close>, up to its kick of the driver.\<close>

definition coalesce_timer_fire :: "nat \<Rightarrow> Tunnel \<Rightarrow> bool \<times> Tunnel" where
  "coalesce_timer_fire epoch t =
     (if epoch \<noteq> ob_timer_epoch (tn_out t) then (False, t)
      else (True, t\<lparr>tn_out := (tn_out t)\<lparr>ob_timer_armed := False\<rparr>\<rparr>))"

section \<open>The RTT sampler\<close>

definition note_rtt_sample_sent ::
  "nat \<Rightarrow> nat \<Rightarrow> bool \<Rightarrow> int \<Rightarrow> Flow \<Rightarrow> Sampler \<Rightarrow> bool \<times> Sampler" where
  "note_rtt_sample_sent end_offset frame_bytes more_queued now_ns fl sm =
     (let acked = sm_delivered sm;
          inflight = (if end_offset > acked then end_offset - acked else 0);
          restart = (inflight \<le> frame_bytes \<or> sm_last_delivered_ns sm = 0);
          sm1 = (if inflight \<le> frame_bytes then sm\<lparr>sm_bw_anchor := None\<rparr> else sm)
      in if sm_samples sm1 \<noteq> []
            \<and> (int end_offset - int (rs_end_offset (last (sm_samples sm1)))) mod 2 ^ 64
                < int kRttSampleSpacing
         then (False, sm1)
         else if length (sm_samples sm1) \<ge> kMaxRttSamples then (False, sm1)
         else let app_limited = (\<not> more_queued \<and>
                    int (fl_window_used fl + kDefaultCoalesceMaxBytes)
                      < bd_target_window_bytes (fl_control fl));
                  sample = \<lparr>rs_end_offset = end_offset, rs_sent_ns = now_ns, rs_inflight = inflight,
                            rs_delivered = acked,
                            rs_delivered_ns = (if restart then now_ns else sm_last_delivered_ns sm1),
                            rs_app_limited = app_limited\<rparr>
              in (True, sm1\<lparr>sm_samples := sm_samples sm1 @ [sample]\<rparr>))"

definition drop_rtt_sample :: "nat \<Rightarrow> Sampler \<Rightarrow> Sampler" where
  "drop_rtt_sample end_offset sm =
     (if sm_samples sm \<noteq> [] \<and> rs_end_offset (last (sm_samples sm)) = end_offset
      then sm\<lparr>sm_samples := butlast (sm_samples sm)\<rparr> else sm)"

section \<open>Calls into the transport\<close>

text \<open>
  The code copies the callback under \<open>mutex_\<close> if the gate is open, and calls it with no lock held.
  The two are one section here: the call is authorised by the gate it saw. A gate that closes in
  between bounds the later sends and not this one, so the frame then reaches the transport after the
  gate closed; the model puts such a send before the closing.
\<close>

definition send_wire_to_tox_typed :: "TunnelEnv \<Rightarrow> byte list \<Rightarrow> Tunnel \<Rightarrow> SendOutcome \<times> Tunnel" where
  "send_wire_to_tox_typed env wire t =
     (if tn_gate_closed t then (SO_Sent, t)
      else if \<not> tn_span_cb t then (SO_PermanentFail, t)
      else let v = te_tox env (tn_events t) wire in (v, log_event (EvSend wire v) t))"

definition send_frame_to_tox_typed ::
  "TunnelEnv \<Rightarrow> ProtocolFrame \<Rightarrow> Tunnel \<Rightarrow> SendOutcome \<times> Tunnel" where
  "send_frame_to_tox_typed env frame t = send_wire_to_tox_typed env (serialize frame) t"

definition send_frame_to_tox :: "TunnelEnv \<Rightarrow> ProtocolFrame \<Rightarrow> Tunnel \<Rightarrow> bool \<times> Tunnel" where
  "send_frame_to_tox env frame t =
     (case send_frame_to_tox_typed env frame t of (v, t1) \<Rightarrow> (v = SO_Sent, t1))"

text \<open>
  The owned buffer carries the lossless-packet byte in front of the frame; the log records the frame
  behind it, which is what the span callback is given and what the peer parses.
\<close>

definition send_owned_data_to_tox ::
  "TunnelEnv \<Rightarrow> OwnedFrameBuffer \<Rightarrow> Tunnel \<Rightarrow> bool \<times> Tunnel" where
  "send_owned_data_to_tox env buf t =
     (let wire = fb_wire_view buf in
      if tn_gate_closed t then (True, t)
      else if tn_owned_cb t \<or> (tn_span_cb t \<and> fb_storage buf \<noteq> None \<and> length wire > 1)
      then let v = te_tox env (tn_events t) (drop 1 wire)
           in (v = SO_Sent, log_event (EvSend (drop 1 wire) v) t)
      else (False, t))"

section \<open>The emission driver\<close>

definition set_pc :: "DriverPc \<Rightarrow> Tunnel \<Rightarrow> Tunnel" where
  "set_pc p t = t\<lparr>tn_pc := p\<rparr>"

text \<open>The entry section: latch the flush request, then become the driver unless there is one.\<close>

definition driver_enter :: "DrainPolicy \<Rightarrow> Tunnel \<Rightarrow> bool \<times> Tunnel" where
  "driver_enter policy t =
     (let ob = (if policy = FlushAll then (tn_out t)\<lparr>ob_flush_all_requested := True\<rparr> else tn_out t)
      in if ob_driver_active ob then (False, t\<lparr>tn_out := ob\<rparr>)
         else (True, t\<lparr>tn_out := ob\<lparr>ob_driver_active := True\<rparr>, tn_pc := DP_Head\<rparr>))"

text \<open>
  How a section leaves the loop body: with a selected frame, back to the head, or out of the loop
  with the outcome and the deferred actions (full close, half close, finalize the peer's close).
\<close>

datatype DriverCtl =
    Selected
  | Again
  | Exit EmitOutcome bool bool bool

definition data_frame_size :: "Outbound \<Rightarrow> nat option" where
  "data_frame_size ob =
     (let front = hd (ob_fifo ob) in
      if cohort_pending front \<ge> co_cap front then Some (co_cap front)
      else if ob_flush_all_requested ob then Some (cohort_pending front)
      else None)"

definition pop_spent_cohorts :: "Outbound \<Rightarrow> Outbound" where
  "pop_spent_cohorts ob = ob\<lparr>ob_fifo := dropWhile (\<lambda>c. cohort_pending c = 0) (ob_fifo ob)\<rparr>"

definition leave_driver :: "Tunnel \<Rightarrow> Tunnel" where
  "leave_driver t = t\<lparr>tn_out := (tn_out t)\<lparr>ob_driver_active := False\<rparr>, tn_pc := DP_Idle\<rparr>"

definition stop_driver :: "Tunnel \<Rightarrow> Tunnel" where
  "stop_driver t =
     t\<lparr>tn_out := (tn_out t)\<lparr>ob_driver_active := False, ob_flush_all_requested := False\<rparr>,
       tn_pc := DP_Idle\<rparr>"

text \<open>The drain is complete: the close bookkeeping that was deferred behind it.\<close>

definition drain_complete :: "Tunnel \<Rightarrow> Tunnel \<times> DriverCtl" where
  "drain_complete t =
     (let h = tn_half t; remote_deferred = hc_remote_close_pending h;
          h1 = h\<lparr>hc_close_pending := False, hc_remote_close_pending := False\<rparr> in
      if hc_close_pending h then
        if hc_close_pending_full h
        then (stop_driver (t\<lparr>tn_half := h1\<lparr>hc_close_pending_full := False\<rparr>\<rparr>),
              Exit EO_RequestSatisfied True False remote_deferred)
        else if \<not> hc_local_close_sent h
        then (stop_driver (t\<lparr>tn_half := h1\<lparr>hc_local_close_sent := True,
                                           hc_local_stream_done := True\<rparr>\<rparr>),
              Exit EO_RequestSatisfied False True (hc_remote_close_received h))
        else (stop_driver (t\<lparr>tn_half := h1\<rparr>),
              Exit EO_RequestSatisfied False False (remote_deferred \<and> hc_local_stream_done h))
      else if hc_remote_close_pending h
      then (stop_driver (t\<lparr>tn_half := h\<lparr>hc_remote_close_pending := False\<rparr>\<rparr>),
            Exit EO_RequestSatisfied False False (hc_local_stream_done h))
      else (stop_driver t, Exit EO_RequestSatisfied False False False))"

definition driver_select :: "bool \<Rightarrow> int \<Rightarrow> Tunnel \<Rightarrow> Tunnel \<times> DriverCtl" where
  "driver_select arm_timer_on_remainder now t =
     (let e = tn_err t in
      if es_pending e \<noteq> None \<and> \<not> es_retry_armed e \<and> \<not> es_attempt_in_flight e
      then (t\<lparr>tn_err := e\<lparr>es_attempt_in_flight := True\<rparr>,
              tn_pc := DP_Error (pe_wire (the (es_pending e)))\<rparr>, Selected)
      else
        let ob = pop_spent_cohorts (tn_out t) in
        if ob_fifo ob \<noteq> [] then
          case data_frame_size ob of
            Some n \<Rightarrow>
              let front = hd (ob_fifo ob) in
              (t\<lparr>tn_out := ob,
                 tn_pc := DP_Data (take n (drop (co_consumed front) (co_bytes front)))
                            (tn_owned_cb t) (ob_fifo_pending ob > n)\<rparr>, Selected)
          | None \<Rightarrow>
              let t1 = t\<lparr>tn_out := (if arm_timer_on_remainder then coalesce_arm_timer False now ob
                                   else ob)\<rparr>
              in if control_obligation_eligible t1 then (t1, Again)
                 else (leave_driver t1, Exit EO_RequestSatisfied False False False)
        else
          let t1 = t\<lparr>tn_out := ob\<rparr>; c = tn_close t in
          if cf_emit_requested c \<and> cf_state c = CF_Owed \<and> \<not> cf_retry_cancelled c
             \<and> \<not> es_claimed e
          then (t1\<lparr>tn_close := c\<lparr>cf_state := CF_InFlight, cf_emit_requested := False\<rparr>,
                   tn_pc := DP_Close\<rparr>, Selected)
          else if control_obligation_eligible t1 then (t1, Again)
          else drain_complete t1)"

subsection \<open>The ERROR pass\<close>

definition error_send :: "TunnelEnv \<Rightarrow> byte list \<Rightarrow> Tunnel \<Rightarrow> Tunnel" where
  "error_send env wire t =
     (case send_wire_to_tox_typed env wire t of (v, t1) \<Rightarrow> set_pc (DP_ErrorDone v) t1)"

text \<open>The commit section; the result is whether the transport party arrives now.\<close>

definition error_commit :: "SendOutcome \<Rightarrow> Tunnel \<Rightarrow> bool \<times> Tunnel" where
  "error_commit v t =
     (let e = (tn_err t)\<lparr>es_attempt_in_flight := False\<rparr> in
      if v = SO_SendqFull \<and> \<not> es_retry_cancelled e
      then (False, stop_driver
             (t\<lparr>tn_err := e\<lparr>es_pending := map_option (\<lambda>p. p\<lparr>pe_attempt := pe_attempt p + 1\<rparr>)
                                              (es_pending e),
                            es_retry_armed := True, es_retry_epoch := es_retry_epoch e + 1\<rparr>\<rparr>))
      else (True, set_pc DP_Head (t\<lparr>tn_err := e\<lparr>es_pending := None\<rparr>\<rparr>)))"

subsection \<open>The CLOSE pass\<close>

definition close_send :: "TunnelEnv \<Rightarrow> Tunnel \<Rightarrow> Tunnel" where
  "close_send env t =
     (case send_frame_to_tox_typed env (make_tunnel_close (tn_id t)) t of
        (v, t1) \<Rightarrow> set_pc (DP_CloseDone v) t1)"

text \<open>The commit section; the result is whether the retry timer is to be armed.\<close>

definition close_commit :: "SendOutcome \<Rightarrow> Tunnel \<Rightarrow> bool \<times> Tunnel" where
  "close_commit v t =
     (let c = tn_close t in
      if cf_retry_cancelled c \<or> es_claimed (tn_err t)
      then (False, set_pc DP_Head
             (t\<lparr>tn_close := c\<lparr>cf_state := (if v = SO_Sent then CF_Resolved else CF_Abandoned)\<rparr>\<rparr>))
      else if v = SO_SendqFull
      then (True, set_pc DP_Head
             (t\<lparr>tn_close := c\<lparr>cf_state := CF_Owed, cf_retry_armed := True,
                              cf_retry_epoch := cf_retry_epoch c + 1,
                              cf_retry_attempt := cf_retry_attempt c + 1\<rparr>\<rparr>))
      else (False, set_pc DP_Head (t\<lparr>tn_close := c\<lparr>cf_state := CF_Resolved\<rparr>\<rparr>)))"

subsection \<open>The DATA pass\<close>

text \<open>The Abort check in front of the send.\<close>

definition data_authorize :: "Tunnel \<Rightarrow> Tunnel" where
  "data_authorize t =
     (case tn_pc t of
        DP_Data payload zero_copy queued \<Rightarrow>
          if ob_abort_published (tn_out t) then t else set_pc (DP_DataAuth payload zero_copy queued) t
      | _ \<Rightarrow> t)"

definition data_abandon :: "Tunnel \<Rightarrow> Tunnel \<times> DriverCtl" where
  "data_abandon t =
     (if control_obligation_eligible t then (set_pc DP_Head t, Again)
      else (stop_driver t, Exit EO_RequestSatisfied False False False))"

text \<open>Count the bytes as emitted and register the RTT sample, before the send.\<close>

definition data_count :: "int \<Rightarrow> byte list \<Rightarrow> bool \<Rightarrow> bool \<Rightarrow> Tunnel \<Rightarrow> Tunnel" where
  "data_count now payload zero_copy queued t =
     (let end_offset = fl_emitted (tn_flow t) + length payload;
          fl = (tn_flow t)\<lparr>fl_emitted := end_offset\<rparr>;
          (sampled, sm) = (if fl_configured fl
                           then note_rtt_sample_sent end_offset (length payload) queued now fl
                                  (tn_sampler t)
                           else (False, tn_sampler t))
      in t\<lparr>tn_flow := fl, tn_sampler := sm,
           tn_pc := DP_DataCounted payload zero_copy end_offset sampled,
           tn_emitted_high := max (tn_emitted_high t) end_offset\<rparr>)"

definition data_send ::
  "TunnelEnv \<Rightarrow> byte list \<Rightarrow> bool \<Rightarrow> nat \<Rightarrow> bool \<Rightarrow> Tunnel \<Rightarrow> Tunnel" where
  "data_send env payload zero_copy end_offset sampled t =
     (case (if zero_copy
            then send_owned_data_to_tox env
                   (serialize_tunnel_data_in_place (fb_with_payload payload) (tn_id t)) t
            else send_frame_to_tox env (make_tunnel_data (tn_id t) payload) t) of
        (sent, t1) \<Rightarrow> set_pc (DP_DataDone (length payload) end_offset sampled sent) t1)"

definition consume_front :: "nat \<Rightarrow> Outbound \<Rightarrow> Outbound" where
  "consume_front n ob =
     (case ob_fifo ob of
        [] \<Rightarrow> ob
      | front # rest \<Rightarrow>
          let front1 = front\<lparr>co_consumed := co_consumed front + n\<rparr>
          in ob\<lparr>ob_fifo := (if co_consumed front1 = length (co_bytes front1) then rest
                           else front1 # rest),
                ob_fifo_pending := ob_fifo_pending ob - n\<rparr>)"

definition data_commit :: "int \<Rightarrow> nat \<Rightarrow> nat \<Rightarrow> bool \<Rightarrow> bool \<Rightarrow> Tunnel \<Rightarrow> Tunnel \<times> DriverCtl" where
  "data_commit now n end_offset sampled sent t =
     (if sent then (set_pc DP_Head (t\<lparr>tn_out := consume_front n (tn_out t)\<rparr>), Again)
      else
        let t1 = t\<lparr>tn_out := coalesce_arm_timer True now (tn_out t),
                   tn_flow := (tn_flow t)\<lparr>fl_emitted := fl_emitted (tn_flow t) - n\<rparr>,
                   tn_sampler := (if sampled then drop_rtt_sample end_offset (tn_sampler t)
                                  else tn_sampler t)\<rparr>;
            e = tn_err t1
        in if es_pending e \<noteq> None \<and> \<not> es_retry_armed e \<and> \<not> es_attempt_in_flight e
              \<and> \<not> es_retry_cancelled e
           then (set_pc DP_Head t1, Again)
           else (stop_driver t1, Exit EO_Backpressured False False False))"

subsection \<open>One pass, the loop and the requests\<close>

definition error_pass :: "TunnelEnv \<Rightarrow> byte list \<Rightarrow> Tunnel \<Rightarrow> Tunnel \<times> DriverCtl" where
  "error_pass env wire t =
     (let t1 = error_send env wire t in
      case tn_pc t1 of
        DP_ErrorDone v \<Rightarrow>
          (case error_commit v t1 of
             (True, t2) \<Rightarrow> (arrive_terminal_error_party Transport False t2, Again)
           | (False, t2) \<Rightarrow> (t2, Exit EO_Backpressured False False False))
      | _ \<Rightarrow> (t1, Again))"

definition close_pass :: "TunnelEnv \<Rightarrow> Tunnel \<Rightarrow> Tunnel \<times> DriverCtl" where
  "close_pass env t =
     (let t1 = close_send env t in
      case tn_pc t1 of
        DP_CloseDone v \<Rightarrow>
          (case close_commit v t1 of
             (True, t2) \<Rightarrow> (t2, Again)
           | (False, t2) \<Rightarrow> (maybe_notify_id_releasable t2, Again))
      | _ \<Rightarrow> (t1, Again))"

definition data_pass ::
  "TunnelEnv \<Rightarrow> byte list \<Rightarrow> bool \<Rightarrow> bool \<Rightarrow> Tunnel \<Rightarrow> Tunnel \<times> DriverCtl" where
  "data_pass env payload zero_copy queued t =
     (if ob_abort_published (tn_out t) then data_abandon t
      else
        let t1 = data_count (te_now env (tn_events t)) payload zero_copy queued (data_authorize t) in
        case tn_pc t1 of
          DP_DataCounted p zc end_offset sampled \<Rightarrow>
            (let t2 = data_send env p zc end_offset sampled t1 in
             case tn_pc t2 of
               DP_DataDone n eo sa sent \<Rightarrow> data_commit (te_now env (tn_events t2)) n eo sa sent t2
             | _ \<Rightarrow> (t2, Again))
        | _ \<Rightarrow> (t1, Again))"

definition driver_pass :: "TunnelEnv \<Rightarrow> bool \<Rightarrow> Tunnel \<Rightarrow> Tunnel \<times> DriverCtl" where
  "driver_pass env arm t =
     (case driver_select arm (te_now env (tn_events t)) t of
        (t1, Selected) \<Rightarrow>
          (case tn_pc t1 of
             DP_Error wire \<Rightarrow> error_pass env wire t1
           | DP_Close \<Rightarrow> close_pass env t1
           | DP_Data payload zero_copy queued \<Rightarrow> data_pass env payload zero_copy queued t1
           | _ \<Rightarrow> (t1, Again))
      | (t1, ctl) \<Rightarrow> (t1, ctl))"

primrec driver_loop ::
  "TunnelEnv \<Rightarrow> nat \<Rightarrow> bool \<Rightarrow> Tunnel \<Rightarrow> (Tunnel \<times> EmitOutcome \<times> bool \<times> bool \<times> bool) option" where
  "driver_loop env 0 arm t = None"
| "driver_loop env (Suc fuel) arm t =
     (case driver_pass env arm t of
        (t1, Exit outcome full half fin) \<Rightarrow> Some (t1, outcome, full, half, fin)
      | (t1, _) \<Rightarrow> driver_loop env fuel arm t1)"

text \<open>
  The close helpers that run after the loop, over the request that schedules the CLOSE and kicks the
  driver again.
\<close>

definition emit_close_with :: "(Tunnel \<Rightarrow> Tunnel option) \<Rightarrow> Tunnel \<Rightarrow> Tunnel option" where
  "emit_close_with kick t =
     (case request_close t of (True, t1) \<Rightarrow> kick t1 | (False, t1) \<Rightarrow> Some t1)"

definition mark_local_close :: "Tunnel \<Rightarrow> bool \<times> Tunnel" where
  "mark_local_close t =
     (if hc_local_close_sent (tn_half t) then (False, t)
      else (True, t\<lparr>tn_half := (tn_half t)\<lparr>hc_local_close_sent := True,
                                          hc_local_stream_done := True\<rparr>\<rparr>))"

definition emit_close_and_transition_with ::
  "(Tunnel \<Rightarrow> Tunnel option) \<Rightarrow> Tunnel \<Rightarrow> Tunnel option" where
  "emit_close_and_transition_with kick t =
     do {
       t2 \<leftarrow> (case mark_local_close t of
               (True, t1) \<Rightarrow> map_option (\<lambda>u. book_close_once (local_close_reason u) u)
                               (emit_close_with kick t1)
             | (False, t1) \<Rightarrow> Some t1);
       Some (notify_close_once (maybe_notify_id_releasable
               (snd (transition_state_if TS_Connected TS_Disconnecting t2))))
     }"

definition emit_local_close_only_with ::
  "(Tunnel \<Rightarrow> Tunnel option) \<Rightarrow> Tunnel \<Rightarrow> Tunnel option" where
  "emit_local_close_only_with kick t =
     map_option (\<lambda>u. snd (transition_state_if TS_Connected TS_Disconnecting u))
       (emit_close_with kick t)"

definition finalize_remote_close :: "Tunnel \<Rightarrow> Tunnel" where
  "finalize_remote_close t =
     notify_close_once (maybe_notify_id_releasable
       (transition_state TS_Closed (book_close_once CR_Remote t)))"

primrec run_emission_driver ::
  "nat \<Rightarrow> TunnelEnv \<Rightarrow> DrainPolicy \<Rightarrow> bool \<Rightarrow> Tunnel \<Rightarrow> (EmitOutcome \<times> Tunnel) option" where
  "run_emission_driver 0 env policy arm t = None"
| "run_emission_driver (Suc fuel) env policy arm t =
     (case driver_enter policy t of
        (False, t1) \<Rightarrow> Some (EO_DeferredToActiveEmitter, t1)
      | (True, t1) \<Rightarrow>
          (let kick = (\<lambda>u. map_option snd (run_emission_driver fuel env FlushAll True u)) in
           do {
             (t2, outcome, full, half, fin) \<leftarrow> driver_loop env fuel arm t1;
             t3 \<leftarrow> (if full then emit_close_and_transition_with kick t2 else Some t2);
             t4 \<leftarrow> (if half then emit_local_close_only_with kick t3 else Some t3);
             Some (outcome, if fin then finalize_remote_close t4 else t4)
           }))"

definition kick_driver :: "nat \<Rightarrow> TunnelEnv \<Rightarrow> Tunnel \<Rightarrow> Tunnel option" where
  "kick_driver fuel env t = map_option snd (run_emission_driver fuel env FlushAll True t)"

definition emit_close_frame_once :: "nat \<Rightarrow> TunnelEnv \<Rightarrow> Tunnel \<Rightarrow> Tunnel option" where
  "emit_close_frame_once fuel env t = emit_close_with (kick_driver fuel env) t"

definition emit_close_and_transition :: "nat \<Rightarrow> TunnelEnv \<Rightarrow> Tunnel \<Rightarrow> Tunnel option" where
  "emit_close_and_transition fuel env t = emit_close_and_transition_with (kick_driver fuel env) t"

definition emit_local_close_only :: "nat \<Rightarrow> TunnelEnv \<Rightarrow> Tunnel \<Rightarrow> Tunnel option" where
  "emit_local_close_only fuel env t = emit_local_close_only_with (kick_driver fuel env) t"

definition cancel_flush_timer :: "Tunnel \<Rightarrow> Tunnel" where
  "cancel_flush_timer t =
     (if ob_fifo_pending (tn_out t) = 0 \<and> \<not> ob_driver_active (tn_out t)
      then t\<lparr>tn_out := (tn_out t)\<lparr>ob_timer_armed := False\<rparr>\<rparr> else t)"

definition flush_pending_writes :: "nat \<Rightarrow> TunnelEnv \<Rightarrow> Tunnel \<Rightarrow> Tunnel option" where
  "flush_pending_writes fuel env t = map_option cancel_flush_timer (kick_driver fuel env t)"

end
