(* ===== verification/Tunnel_Ops.thy ===== *)
theory Tunnel_Ops
  imports Tunnel_Driver
begin

text \<open>
  The member functions of \<open>TunnelImpl\<close> (\<open>src/tunnel/tunnel.cpp\<close>), each run to completion: opening
  and closing, the handlers of inbound frames and of the TCP side, errors, acknowledgements,
  configuration and the timer handlers. They are compositions of the critical sections of
  \<open>Tunnel_State\<close> and \<open>Tunnel_Driver\<close> and of the ones added here. A function that kicks the emission
  driver takes the driver's fuel and returns \<open>None\<close> when it is used up. Callbacks and allocations
  are taken not to throw, so the unwinding guards of the code are not modelled.
\<close>

section \<open>Admission of local data\<close>

definition effective_window :: "Flow \<Rightarrow> nat" where
  "effective_window fl =
     (if fl_configured fl then nat (bd_target_window_bytes (fl_control fl)) else fl_window_size fl)"

text \<open>The compare-and-swap loop that reserves \<open>n\<close> bytes under the window \<open>w\<close> read before it.\<close>

definition reserve_window :: "nat \<Rightarrow> nat \<Rightarrow> Tunnel \<Rightarrow> bool \<times> Tunnel" where
  "reserve_window w n t =
     (let used = fl_window_used (tn_flow t) in
      if used + n > w then (False, t)
      else (True, t\<lparr>tn_flow := (tn_flow t)\<lparr>fl_window_used := used + n\<rparr>,
                    tn_reserved := tn_reserved t + n, tn_window_high := max (tn_window_high t) w\<rparr>))"

definition bump_activity :: "int \<Rightarrow> Tunnel \<Rightarrow> Tunnel" where
  "bump_activity now t = t\<lparr>tn_last_activity_ns := now\<rparr>"

definition observe_push :: "int \<Rightarrow> nat \<Rightarrow> Tunnel \<Rightarrow> CoalescePolicy \<times> Tunnel" where
  "observe_push now n t =
     (let prev = tn_last_push_ns t;
          gap_us = (if prev = 0 then 0 else (now - prev) div 1000);
          (d, w) = wc_decide (wc_observe (int n) gap_us (tn_coalescer t))
      in (dc_policy d, t\<lparr>tn_coalescer := w, tn_last_push_ns := now\<rparr>))"

definition saturating_sub :: "nat \<Rightarrow> nat \<Rightarrow> nat" where
  "saturating_sub used n = (if used > n then used - n else 0)"

text \<open>
  The admission section: the authoritative check of the Abort seal (with the refund of the
  reservation), else the append. The result is whether the bytes were accepted and whether they are
  to be emitted at once.
\<close>

definition admit_data ::
  "CoalescePolicy \<Rightarrow> int \<Rightarrow> byte list \<Rightarrow> Tunnel \<Rightarrow> (bool \<times> bool) \<times> Tunnel" where
  "admit_data policy now data t =
     (let ob = tn_out t; fl = tn_flow t; n = length data in
      if ob_abort_published ob
      then ((False, False),
            t\<lparr>tn_flow := fl\<lparr>fl_window_used := saturating_sub (fl_window_used fl) n\<rparr>,
              tn_reserved := tn_reserved t - n\<rparr>)
      else
        let immediate = (ob_max_delay_us ob = 0 \<or> policy = CP_Bypass);
            ob1 = fifo_append data (if immediate then kMaxTcpPayloadPerToxFrame else ob_max_bytes ob) ob;
            ob2 = (if \<not> immediate \<and> policy \<noteq> CP_Drain then coalesce_arm_timer False now ob1 else ob1)
        in ((True, immediate),
            t\<lparr>tn_out := ob2, tn_accepted := tn_accepted t @ data,
              tn_reserved := tn_reserved t - n\<rparr>))"

definition count_sent :: "nat \<Rightarrow> Tunnel \<Rightarrow> Tunnel" where
  "count_sent n t = t\<lparr>tn_flow := (tn_flow t)\<lparr>fl_sent := fl_sent (tn_flow t) + n\<rparr>\<rparr>"

definition send_data_to_tox ::
  "nat \<Rightarrow> TunnelEnv \<Rightarrow> byte list \<Rightarrow> Tunnel \<Rightarrow> (bool \<times> Tunnel) option" where
  "send_data_to_tox fuel env data t =
     (if \<not> is_connected t then Some (False, t)
      else if ob_abort_published (tn_out t) then Some (False, t)
      else case reserve_window (effective_window (tn_flow t)) (length data) t of
        (False, t1) \<Rightarrow> Some (False, t1)
      | (True, t1) \<Rightarrow>
          (let now = te_now env (tn_events t1);
               (policy, t2) = observe_push now (length data) (bump_activity now t1)
           in case admit_data policy now data t2 of
                ((False, _), t3) \<Rightarrow> Some (False, t3)
              | ((True, immediate), t3) \<Rightarrow>
                  (let t4 = count_sent (length data) t3 in
                   map_option (\<lambda>r. (True, snd r))
                     (if immediate then run_emission_driver fuel env FlushAll True t4
                      else if policy = CP_Drain then run_emission_driver fuel env FullFramesOnly False t4
                      else run_emission_driver fuel env FullFramesOnly True t4))))"

section \<open>Closing\<close>

text \<open>The section of \<open>close\<close> that decides whether the CLOSE waits for the drain.\<close>

definition defer_close :: "Tunnel \<Rightarrow> bool \<times> Tunnel" where
  "defer_close t =
     (if ob_fifo_pending (tn_out t) > 0 \<or> ob_driver_active (tn_out t)
      then (True, note_close_owed (t\<lparr>tn_half := (tn_half t)\<lparr>hc_close_pending := True,
                                                          hc_close_pending_full := True\<rparr>\<rparr>))
      else (False, t))"

definition close_tunnel :: "nat \<Rightarrow> TunnelEnv \<Rightarrow> Tunnel \<Rightarrow> Tunnel option" where
  "close_tunnel fuel env t =
     (if ob_abort_published (tn_out t) then Some t
      else if tn_state t = TS_Connecting then
        case cancel_open_retry t of (obligation, t1) \<Rightarrow>
          do {
            t2 \<leftarrow> (if obligation = CO_Immediate then emit_close_frame_once fuel env t1 else Some t1);
            (case transition_state_if TS_Connecting TS_Closed t2 of
               (False, t3) \<Rightarrow> Some t3
             | (True, t3) \<Rightarrow> Some (notify_close_once (book_close_once (local_close_reason t3) t3)))
          }
      else if tn_state t \<noteq> TS_Connected then Some t
      else case defer_close t of
             (True, t1) \<Rightarrow> kick_driver fuel env t1
           | (False, t1) \<Rightarrow> emit_close_and_transition fuel env t1)"

definition set_timeout_close :: "Tunnel \<Rightarrow> Tunnel" where
  "set_timeout_close t = t\<lparr>tn_timeout_close := True\<rparr>"

definition close_for_timeout :: "nat \<Rightarrow> TunnelEnv \<Rightarrow> Tunnel \<Rightarrow> Tunnel option" where
  "close_for_timeout fuel env t0 =
     (let t = set_timeout_close t0 in
      if tn_state t = TS_Disconnecting then
        case claim_terminal_error
               (serialize (make_tunnel_error (tn_id t) 2 ''half-close linger timeout'')) t of
          ((False, _), t1) \<Rightarrow> Some t1
        | ((True, settled), t1) \<Rightarrow>
            do {
              t2 \<leftarrow> (if settled then Some (arrive_terminal_error_party Transport False t1)
                    else kick_driver fuel env t1);
              Some (arrive_terminal_error_party Producer False
                     (notify_close_once (transition_state TS_Closed (book_close_once CR_Timeout t2))))
            }
      else close_tunnel fuel env t)"

definition take_resources :: "Tunnel \<Rightarrow> bool \<times> Tunnel" where
  "take_resources t =
     (if tn_resources_released t then (False, t) else (True, t\<lparr>tn_resources_released := True\<rparr>))"

definition abort_and_settle :: "Tunnel \<Rightarrow> bool \<times> Tunnel" where
  "abort_and_settle t = settle_error_for_shutdown (publish_abort t)"

definition release_socket :: "bool \<Rightarrow> Tunnel \<Rightarrow> Tunnel" where
  "release_socket drain t =
     (if tc_conn (tn_tcp t)
      then log_event (if drain then EvTcpClose else EvTcpForceClose)
             (t\<lparr>tn_tcp := (tn_tcp t)\<lparr>tc_conn := False\<rparr>\<rparr>)
      else t)"

definition release_resources :: "bool \<Rightarrow> Tunnel \<Rightarrow> Tunnel" where
  "release_resources drain t =
     (case abort_and_settle t of (arrive, t1) \<Rightarrow>
        let t2 = (if arrive then arrive_terminal_error_party Transport True t1 else t1)
        in release_socket drain (take_pending_terminal_finalizer t2))"

definition force_close_impl ::
  "nat \<Rightarrow> TunnelEnv \<Rightarrow> ResourceRelease \<Rightarrow> State option \<Rightarrow> bool \<Rightarrow> Tunnel \<Rightarrow> Tunnel option" where
  "force_close_impl fuel env release only_from mark_timeout t =
     (case claim_terminal only_from t of (claim, t1) \<Rightarrow>
        if only_from \<noteq> None \<and> \<not> tcl_claimed claim then Some t1
        else
          let t2 = (if mark_timeout \<and> tcl_claimed claim then set_timeout_close t1 else t1) in
          case take_resources t2 of (owns, t3) \<Rightarrow>
            if \<not> tcl_claimed claim \<and> \<not> owns then Some t3
            else do {
              t4 \<leftarrow> (if owns \<and> \<not> tn_gate_closed t3 then flush_pending_writes fuel env t3 else Some t3);
              t5 \<leftarrow> (if tcl_must_announce claim then emit_close_frame_once fuel env t4 else Some t4);
              let t6 = (if tcl_claimed claim then book_close_once (local_close_reason t5) t5 else t5);
              let drain = (release = RR_DrainIfClosed \<and> \<not> tcl_claimed claim
                           \<and> tcl_previous claim = TS_Closed \<and> \<not> tn_gate_closed t6);
              let t7 = (if owns then release_resources drain t6 else t6);
              t8 \<leftarrow> kick_driver fuel env t7;
              let t9 = (if tcl_claimed claim then notify_state_change TS_Closed t8 else t8);
              Some (notify_close_once (maybe_notify_id_releasable t9))
            })"

definition force_close :: "nat \<Rightarrow> TunnelEnv \<Rightarrow> ResourceRelease \<Rightarrow> Tunnel \<Rightarrow> Tunnel option" where
  "force_close fuel env release t = force_close_impl fuel env release None False t"

definition expire_open_deadline :: "nat \<Rightarrow> TunnelEnv \<Rightarrow> Tunnel \<Rightarrow> Tunnel option" where
  "expire_open_deadline fuel env t = force_close_impl fuel env RR_Abort (Some TS_Connecting) True t"

definition open_deadline_fire :: "nat \<Rightarrow> TunnelEnv \<Rightarrow> nat \<Rightarrow> Tunnel \<Rightarrow> Tunnel option" where
  "open_deadline_fire fuel env epoch t =
     (if epoch \<noteq> oh_deadline_epoch (tn_open t) then Some t
      else if tn_state t \<noteq> TS_Connecting then Some t
      else expire_open_deadline fuel env t)"

section \<open>Opening\<close>

text \<open>The claim section of \<open>open\<close> (the edge and the target) and the phase reset nested in it.\<close>

definition claim_open :: "string \<Rightarrow> u16 \<Rightarrow> Tunnel \<Rightarrow> bool \<times> Tunnel" where
  "claim_open host port t =
     (if tn_state t = TS_None
      then (True, (store_state TS_Connecting t)
              \<lparr>tn_target_host := host, tn_target_port := port\<rparr>)
      else (False, t))"

definition reset_open_phase :: "Tunnel \<Rightarrow> Tunnel" where
  "reset_open_phase t =
     t\<lparr>tn_open := (tn_open t)\<lparr>oh_phase := OP_Pending, oh_abandon_requested := False\<rparr>\<rparr>"

definition begin_open_send :: "Tunnel \<Rightarrow> bool \<times> Tunnel" where
  "begin_open_send t =
     (if oh_phase (tn_open t) \<noteq> OP_Pending then (False, t)
      else if tn_state t \<noteq> TS_Connecting then (False, t)
      else (True, t\<lparr>tn_open := (tn_open t)\<lparr>oh_phase := OP_Sending\<rparr>\<rparr>))"

definition count_open_attempt :: "Tunnel \<Rightarrow> Tunnel" where
  "count_open_attempt t = t\<lparr>tn_open := (tn_open t)\<lparr>oh_attempts := oh_attempts (tn_open t) + 1\<rparr>\<rparr>"

record OpenVerdict =
  ov_owns_resolution :: bool
  ov_rearm :: bool
  ov_close_owed :: bool
  ov_abandon :: bool

definition resolve_open_send :: "SendOutcome \<Rightarrow> Tunnel \<Rightarrow> OpenVerdict \<times> Tunnel" where
  "resolve_open_send outcome t =
     (let h = tn_open t;
          phase = (if outcome = SO_Sent then OP_Sent
                   else if oh_abandon_requested h then OP_Abandoned
                   else if outcome = SO_PermanentFail then OP_Failed else OP_Pending)
      in (\<lparr>ov_owns_resolution = (outcome = SO_PermanentFail \<and> \<not> oh_abandon_requested h),
           ov_rearm = (outcome = SO_SendqFull \<and> \<not> oh_abandon_requested h),
           ov_close_owed = (oh_close_owed h \<and> outcome = SO_Sent),
           ov_abandon = (oh_close_owed h \<and> outcome \<noteq> SO_Sent)\<rparr>,
          t\<lparr>tn_open := h\<lparr>oh_phase := phase, oh_close_owed := False\<rparr>\<rparr>))"

definition arm_open_retry_timer :: "Tunnel \<Rightarrow> Tunnel" where
  "arm_open_retry_timer t =
     (let h = tn_open t in
      if oh_retry_armed h \<or> oh_abandon_requested h then t
      else t\<lparr>tn_open := h\<lparr>oh_retry_armed := True, oh_retry_epoch := oh_retry_epoch h + 1\<rparr>\<rparr>)"

text \<open>\<open>None\<close>: no attempt was made.\<close>

definition attempt_open_send ::
  "TunnelEnv \<Rightarrow> Tunnel \<Rightarrow> (SendOutcome \<times> OpenVerdict) option \<times> Tunnel" where
  "attempt_open_send env t =
     (case begin_open_send t of
        (False, t1) \<Rightarrow> (None, t1)
      | (True, t1) \<Rightarrow>
          (let t2 = count_open_attempt t1 in
           case send_frame_to_tox_typed env
                  (make_tunnel_open (tn_id t2) (tn_target_host t2) (tn_target_port t2)) t2 of
             (outcome, t3) \<Rightarrow>
               (case resolve_open_send outcome t3 of
                  (v, t4) \<Rightarrow>
                    let t5 = (if ov_abandon v then abandon_close_obligation t4 else t4)
                    in (Some (outcome, v), if ov_rearm v then arm_open_retry_timer t5 else t5))))"

definition set_target :: "string \<Rightarrow> u16 \<Rightarrow> Tunnel \<Rightarrow> Tunnel" where
  "set_target host port t = t\<lparr>tn_target_host := host, tn_target_port := port\<rparr>"

definition open_tunnel ::
  "nat \<Rightarrow> TunnelEnv \<Rightarrow> string \<Rightarrow> u16 \<Rightarrow> Tunnel \<Rightarrow> (bool \<times> Tunnel) option" where
  "open_tunnel fuel env host port t =
     (if tn_state t \<noteq> TS_None then Some (False, t)
      else if length host > 255 then Some (False, t)
      else case claim_open host port t of
        (False, t1) \<Rightarrow> Some (False, t1)
      | (True, t1) \<Rightarrow>
          (case attempt_open_send env (notify_state_change TS_Connecting (reset_open_phase t1)) of
             (None, t2) \<Rightarrow> Some (False, t2)
           | (Some (outcome, v), t2) \<Rightarrow>
               if outcome = SO_PermanentFail then
                 if \<not> ov_owns_resolution v then Some (False, t2)
                 else (case transition_state_if TS_Connecting TS_None t2 of
                         (False, t3) \<Rightarrow> Some (False, t3)
                       | (True, t3) \<Rightarrow> Some (False, reset_open_phase (set_target [] 0 t3)))
               else if ov_close_owed v
               then map_option (\<lambda>t3. (False, t3)) (emit_close_frame_once fuel env t2)
               else Some (True, arm_open_deadline_timer t2)))"

definition retry_open_send :: "nat \<Rightarrow> TunnelEnv \<Rightarrow> Tunnel \<Rightarrow> Tunnel option" where
  "retry_open_send fuel env t =
     (if tn_state t \<noteq> TS_Connecting \<or> tn_gate_closed t then Some t
      else case attempt_open_send env t of
        (None, t1) \<Rightarrow> Some t1
      | (Some (outcome, v), t1) \<Rightarrow>
          if outcome = SO_Sent
          then (if ov_close_owed v then emit_close_frame_once fuel env t1 else Some t1)
          else if outcome = SO_PermanentFail \<and> ov_owns_resolution v
          then (case transition_state_if TS_Connecting TS_Error t1 of
                  (False, t2) \<Rightarrow> Some t2
                | (True, t2) \<Rightarrow> Some (notify_close_once (book_close_once CR_Error t2)))
          else Some t1)"

definition disarm_open_retry :: "Tunnel \<Rightarrow> Tunnel" where
  "disarm_open_retry t = t\<lparr>tn_open := (tn_open t)\<lparr>oh_retry_armed := False\<rparr>\<rparr>"

definition open_retry_fire :: "nat \<Rightarrow> TunnelEnv \<Rightarrow> nat \<Rightarrow> Tunnel \<Rightarrow> Tunnel option" where
  "open_retry_fire fuel env epoch t =
     (if epoch \<noteq> oh_retry_epoch (tn_open t) then Some t
      else retry_open_send fuel env (disarm_open_retry t))"

section \<open>Local errors\<close>

text \<open>The loop that lands the \<open>Error\<close> edge unless a terminal state is already there.\<close>

definition land_error :: "Tunnel \<Rightarrow> Tunnel" where
  "land_error t =
     (if terminal (tn_state t) then t
      else book_close_once CR_Error (snd (transition_state_if (tn_state t) TS_Error t)))"

definition send_error :: "nat \<Rightarrow> TunnelEnv \<Rightarrow> byte \<Rightarrow> string \<Rightarrow> Tunnel \<Rightarrow> Tunnel option" where
  "send_error fuel env error_code description t =
     (case claim_terminal_error (serialize (make_tunnel_error (tn_id t) error_code description)) t of
        ((False, _), t1) \<Rightarrow> Some t1
      | ((True, settled), t1) \<Rightarrow>
          do {
            t2 \<leftarrow> (if settled then Some (arrive_terminal_error_party Transport False t1)
                  else kick_driver fuel env t1);
            Some (arrive_terminal_error_party Producer False (land_error t2))
          })"

definition set_last_error :: "byte \<Rightarrow> string \<Rightarrow> Tunnel \<Rightarrow> Tunnel" where
  "set_last_error code description t =
     t\<lparr>tn_last_error_code := code, tn_last_error_description := description\<rparr>"

definition fail_locally :: "byte \<Rightarrow> string \<Rightarrow> Tunnel \<Rightarrow> Tunnel" where
  "fail_locally error_code description t =
     (case claim_terminal_error [] (set_last_error error_code description t) of
        ((False, _), t1) \<Rightarrow> t1
      | ((True, _), t1) \<Rightarrow>
          arrive_terminal_error_party Producer False
            (land_error (arrive_terminal_error_party Transport False t1)))"

section \<open>Acknowledgements to the peer\<close>

definition take_ack_credit :: "Tunnel \<Rightarrow> nat \<times> Tunnel" where
  "take_ack_credit t = (fl_since_ack (tn_flow t), t\<lparr>tn_flow := (tn_flow t)\<lparr>fl_since_ack := 0\<rparr>\<rparr>)"

definition restore_ack_credit :: "nat \<Rightarrow> Tunnel \<Rightarrow> Tunnel" where
  "restore_ack_credit n t =
     t\<lparr>tn_flow := (tn_flow t)\<lparr>fl_since_ack := fl_since_ack (tn_flow t) + n\<rparr>\<rparr>"

definition arm_ack_retry_timer :: "Tunnel \<Rightarrow> Tunnel" where
  "arm_ack_retry_timer t =
     (if fl_since_ack (tn_flow t) = 0 then t
      else if tn_ack_timer_armed t then t
      else t\<lparr>tn_ack_timer_armed := True, tn_ack_timer_epoch := tn_ack_timer_epoch t + 1\<rparr>)"

function send_ack_loop :: "TunnelEnv \<Rightarrow> nat \<Rightarrow> Tunnel \<Rightarrow> bool \<times> Tunnel" where
  "send_ack_loop env bytes_to_ack t =
     (if bytes_to_ack = 0 then (True, t)
      else let ack_value = min bytes_to_ack (2 ^ 32 - 1) in
           case send_frame_to_tox_typed env (make_tunnel_ack (tn_id t) (of_nat ack_value)) t of
             (outcome, t1) \<Rightarrow>
               (case outcome of
                  SO_SendqFull \<Rightarrow> (False, arm_ack_retry_timer (restore_ack_credit bytes_to_ack t1))
                | SO_PermanentFail \<Rightarrow> (True, t1)
                | SO_Sent \<Rightarrow> send_ack_loop env (bytes_to_ack - ack_value) t1))"
  by pat_completeness auto
termination
  by (relation "measure (\<lambda>(env, n, t). n)") auto

definition send_ack :: "TunnelEnv \<Rightarrow> Tunnel \<Rightarrow> bool \<times> Tunnel" where
  "send_ack env t =
     (if tn_state t \<noteq> TS_Connected \<and> tn_state t \<noteq> TS_Disconnecting then (True, t)
      else case take_ack_credit t of (bytes_to_ack, t1) \<Rightarrow> send_ack_loop env bytes_to_ack t1)"

definition maybe_send_ack :: "TunnelEnv \<Rightarrow> Tunnel \<Rightarrow> Tunnel" where
  "maybe_send_ack env t =
     (if fl_since_ack (tn_flow t) \<ge> fl_ack_threshold (tn_flow t) then snd (send_ack env t) else t)"

definition notify_tcp_writable :: "TunnelEnv \<Rightarrow> Tunnel \<Rightarrow> bool \<times> Tunnel" where
  "notify_tcp_writable env t = send_ack env t"

definition disarm_ack_timer :: "Tunnel \<Rightarrow> Tunnel" where
  "disarm_ack_timer t = t\<lparr>tn_ack_timer_armed := False\<rparr>"

definition ack_retry_fire :: "TunnelEnv \<Rightarrow> nat \<Rightarrow> Tunnel \<Rightarrow> Tunnel" where
  "ack_retry_fire env epoch t =
     (if epoch \<noteq> tn_ack_timer_epoch t then t else snd (send_ack env (disarm_ack_timer t)))"

section \<open>The TCP side\<close>

definition pause_read :: "Tunnel \<Rightarrow> Tunnel" where
  "pause_read t = (if tc_conn (tn_tcp t) then log_event EvTcpPauseRead t else t)"

definition queue_tcp_input :: "byte list \<Rightarrow> Tunnel \<Rightarrow> Tunnel" where
  "queue_tcp_input data t = t\<lparr>tn_tcp := (tn_tcp t)\<lparr>tc_input := tc_input (tn_tcp t) @ data\<rparr>\<rparr>"

definition on_tcp_data_received ::
  "nat \<Rightarrow> TunnelEnv \<Rightarrow> byte list \<Rightarrow> Tunnel \<Rightarrow> Tunnel option" where
  "on_tcp_data_received fuel env data t =
     (if \<not> is_connected t then Some t
      else if pending_tcp_pending (tn_tcp t) \<noteq> 0 then Some (pause_read (queue_tcp_input data t))
      else do {
        (accepted, t1) \<leftarrow> send_data_to_tox fuel env data t;
        Some (if accepted then t1 else pause_read (queue_tcp_input data t1))
      })"

definition advance_tcp_cursor :: "nat \<Rightarrow> Tunnel \<Rightarrow> Tunnel" where
  "advance_tcp_cursor n t =
     (let p = (tn_tcp t)\<lparr>tc_consumed := tc_consumed (tn_tcp t) + n\<rparr> in
      if tc_consumed p \<ge> length (tc_input p)
      then t\<lparr>tn_tcp := p\<lparr>tc_input := [], tc_consumed := 0\<rparr>\<rparr>
      else if tc_consumed p \<ge> pending_tcp_pending p
      then t\<lparr>tn_tcp := p\<lparr>tc_input := drop (tc_consumed p) (tc_input p), tc_consumed := 0\<rparr>\<rparr>
      else t\<lparr>tn_tcp := p\<rparr>)"

text \<open>Each turn of the loop moves at least one byte, so the backlog's length is enough fuel.\<close>

primrec flush_tcp_loop :: "nat \<Rightarrow> nat \<Rightarrow> TunnelEnv \<Rightarrow> Tunnel \<Rightarrow> (bool \<times> Tunnel) option" where
  "flush_tcp_loop 0 fuel env t = None"
| "flush_tcp_loop (Suc turns) fuel env t =
     (let pending = pending_tcp_pending (tn_tcp t); window = effective_window (tn_flow t);
          used = fl_window_used (tn_flow t) in
      if pending = 0 then Some (True, t)
      else if used \<ge> window then Some (False, t)
      else let chunk = take (min (window - used) pending)
                         (drop (tc_consumed (tn_tcp t)) (tc_input (tn_tcp t)))
           in do {
             (sent, t1) \<leftarrow> send_data_to_tox fuel env chunk t;
             if \<not> sent then Some (False, t1)
             else flush_tcp_loop turns fuel env (advance_tcp_cursor (length chunk) t1)
           })"

definition flush_pending_tcp_input :: "nat \<Rightarrow> TunnelEnv \<Rightarrow> Tunnel \<Rightarrow> (bool \<times> Tunnel) option" where
  "flush_pending_tcp_input fuel env t =
     flush_tcp_loop (Suc (pending_tcp_pending (tn_tcp t))) fuel env t"

definition defer_tcp_eof :: "Tunnel \<Rightarrow> Tunnel" where
  "defer_tcp_eof t = t\<lparr>tn_tcp := (tn_tcp t)\<lparr>tc_eof := True\<rparr>\<rparr>"

text \<open>
  The section of \<open>on_tcp_read_eof\<close> that decides about the half-close; the result is \<open>defer\<close>,
  \<open>emit_close\<close> and \<open>finalize_now\<close>.
\<close>

definition half_close :: "Tunnel \<Rightarrow> (bool \<times> bool \<times> bool) \<times> Tunnel" where
  "half_close t =
     (if ob_fifo_pending (tn_out t) > 0 \<or> ob_driver_active (tn_out t)
      then ((True, False, False), t\<lparr>tn_half := (tn_half t)\<lparr>hc_close_pending := True\<rparr>\<rparr>)
      else case mark_local_close t of
             (emit, t1) \<Rightarrow> ((False, emit, hc_remote_close_received (tn_half t)), t1))"

definition on_tcp_read_eof :: "nat \<Rightarrow> TunnelEnv \<Rightarrow> Tunnel \<Rightarrow> Tunnel option" where
  "on_tcp_read_eof fuel env t =
     (if ob_abort_published (tn_out t) then Some t
      else if tn_state t = TS_Connecting then close_tunnel fuel env t
      else if tn_state t \<noteq> TS_Connected \<and> tn_state t \<noteq> TS_Disconnecting then Some t
      else if pending_tcp_pending (tn_tcp t) \<noteq> 0 then Some (defer_tcp_eof t)
      else case half_close t of
        ((defer, emit, fin), t1) \<Rightarrow>
          if defer then kick_driver fuel env t1
          else do {
            t2 \<leftarrow> (if emit then emit_local_close_only fuel env t1 else Some t1);
            Some (if fin then finalize_remote_close t2 else t2)
          })"

definition take_pending_eof :: "Tunnel \<Rightarrow> bool \<times> Tunnel" where
  "take_pending_eof t =
     (if tc_eof (tn_tcp t) \<and> pending_tcp_pending (tn_tcp t) = 0
      then (True, t\<lparr>tn_tcp := (tn_tcp t)\<lparr>tc_eof := False\<rparr>\<rparr>) else (False, t))"

definition maybe_finish_pending_tcp_eof :: "nat \<Rightarrow> TunnelEnv \<Rightarrow> Tunnel \<Rightarrow> Tunnel option" where
  "maybe_finish_pending_tcp_eof fuel env t =
     (case take_pending_eof t of
        (True, t1) \<Rightarrow> on_tcp_read_eof fuel env t1
      | (False, t1) \<Rightarrow> Some t1)"

section \<open>Inbound frames\<close>

definition handle_tunnel_open_frame :: "ProtocolFrame \<Rightarrow> Tunnel \<Rightarrow> Tunnel" where
  "handle_tunnel_open_frame frame t =
     (case as_tunnel_open frame of
        None \<Rightarrow> t
      | Some p \<Rightarrow> set_target (op_host p) (op_port p) t)"

definition count_received :: "nat \<Rightarrow> Tunnel \<Rightarrow> Tunnel" where
  "count_received n t =
     t\<lparr>tn_flow := (tn_flow t)\<lparr>fl_since_ack := fl_since_ack (tn_flow t) + n,
                             fl_received := fl_received (tn_flow t) + n\<rparr>\<rparr>"

text \<open>The TCP callback; without one the bytes count as accepted.\<close>

definition deliver_to_tcp :: "TunnelEnv \<Rightarrow> byte list \<Rightarrow> Tunnel \<Rightarrow> bool \<times> Tunnel" where
  "deliver_to_tcp env data t =
     (if tn_tcp_cb t then (te_tcp env (tn_events t) data, log_event (EvTcpData data) t)
      else (True, t))"

definition handle_tunnel_data_frame :: "TunnelEnv \<Rightarrow> ProtocolFrame \<Rightarrow> Tunnel \<Rightarrow> Tunnel" where
  "handle_tunnel_data_frame env frame t =
     (if tn_state t \<noteq> TS_Connected \<and> tn_state t \<noteq> TS_Disconnecting then t
      else let data = as_tunnel_data frame in
           if data = [] then t
           else case deliver_to_tcp env data
                       (count_received (length data) (bump_activity (te_now env (tn_events t)) t)) of
                  (accepted, t1) \<Rightarrow> if accepted then maybe_send_ack env t1 else t1)"

text \<open>The section of the CLOSE handler; the result is \<open>kick_drain\<close> and \<open>finalize_now\<close>.\<close>

definition note_remote_close :: "Tunnel \<Rightarrow> (bool \<times> bool) \<times> Tunnel" where
  "note_remote_close t =
     (let h = (tn_half t)\<lparr>hc_local_stream_done := hc_local_stream_done (tn_half t) \<or> \<not> tc_conn (tn_tcp t),
                          hc_remote_close_received := True\<rparr>
      in if ob_abort_published (tn_out t) then ((False, False), t\<lparr>tn_half := h\<rparr>)
         else if ob_fifo_pending (tn_out t) > 0 \<or> ob_driver_active (tn_out t)
         then ((True, False), t\<lparr>tn_half := h\<lparr>hc_remote_close_pending := True\<rparr>\<rparr>)
         else ((False, hc_local_stream_done h), t\<lparr>tn_half := h\<rparr>))"

definition shutdown_send :: "Tunnel \<Rightarrow> Tunnel" where
  "shutdown_send t = log_event EvTcpShutdownSend t"

definition handle_tunnel_close_frame :: "nat \<Rightarrow> TunnelEnv \<Rightarrow> Tunnel \<Rightarrow> Tunnel option" where
  "handle_tunnel_close_frame fuel env t =
     (case note_remote_close t of
        ((kick, fin), t1) \<Rightarrow>
          do {
            t2 \<leftarrow> (if kick then kick_driver fuel env t1 else Some t1);
            let t3 = (if tc_conn (tn_tcp t) then shutdown_send t2 else t2);
            Some (if fin then finalize_remote_close t3 else t3)
          })"

text \<open>
  The credit of an ACK: the compare-and-swap against the emitted total \<open>emitted\<close> loaded before it,
  and the release of window space. The result of the first is the credited amount and the cumulative
  total (0 when nothing was credited).
\<close>

definition credit_ack :: "nat \<Rightarrow> nat \<Rightarrow> Tunnel \<Rightarrow> (nat \<times> nat) \<times> Tunnel" where
  "credit_ack emitted bytes_acked t =
     (let acked = fl_acked (tn_flow t);
          want = min bytes_acked (if emitted > acked then emitted - acked else 0)
      in if want = 0 then ((0, 0), t)
         else ((want, acked + want), t\<lparr>tn_flow := (tn_flow t)\<lparr>fl_acked := acked + want\<rparr>,
                                       tn_unreleased := tn_unreleased t + want\<rparr>))"

definition release_window :: "nat \<Rightarrow> Tunnel \<Rightarrow> Tunnel" where
  "release_window acked t =
     t\<lparr>tn_flow := (tn_flow t)\<lparr>fl_window_used := saturating_sub (fl_window_used (tn_flow t)) acked\<rparr>,
       tn_unreleased := tn_unreleased t - acked\<rparr>"

fun pop_covered ::
  "BdpFlowControl \<Rightarrow> nat \<Rightarrow> RttSample list \<Rightarrow> int \<Rightarrow> int \<Rightarrow> RttSample option
     \<Rightarrow> RttSample list \<times> int \<times> int \<times> RttSample option" where
  "pop_covered b delivered [] sent_ns trusted_ns anchor = ([], sent_ns, trusted_ns, anchor)"
| "pop_covered b delivered (s # ss) sent_ns trusted_ns anchor =
     (if rs_end_offset s \<le> delivered
      then pop_covered b delivered ss (rs_sent_ns s)
             (if is_trusted_inflight (int (rs_inflight s)) b then rs_sent_ns s else trusted_ns)
             (if anchor = None then Some s else anchor)
      else (s # ss, sent_ns, trusted_ns, anchor))"

text \<open>The bandwidth sample from the anchor: the rate (0: none) and whether the anchor is used up.\<close>

definition bandwidth_sample :: "BdpFlowControl \<Rightarrow> nat \<Rightarrow> int \<Rightarrow> RttSample \<Rightarrow> int \<times> bool" where
  "bandwidth_sample b delivered_now last_delivered_ns anchor =
     (let interval_ns = last_delivered_ns - rs_delivered_ns anchor;
          min_interval_ns = max kMinBandwidthIntervalNs (bd_min_rtt_us b * 1000 div 2)
      in if interval_ns \<ge> min_interval_ns \<and> delivered_now > rs_delivered anchor
         then let delivered = min (int (delivered_now - rs_delivered anchor)) 4000000000;
                  bps = min (delivered * 1000000000 div interval_ns) 12500000000
              in (if rs_app_limited anchor \<and> bps \<le> bd_bandwidth_bps b then 0 else bps, True)
         else (0, False))"

definition sample_ack ::
  "BdpFlowControl \<Rightarrow> nat \<Rightarrow> int \<Rightarrow> Sampler \<Rightarrow> (int \<times> int \<times> int) \<times> Sampler" where
  "sample_ack b acked_total now_ns sm =
     (let delivered_now = max (sm_delivered sm) acked_total;
          last_ns = max (sm_last_delivered_ns sm) now_ns;
          (rest, sent_ns, trusted_ns, anchor) =
            pop_covered b delivered_now (sm_samples sm) 0 0 (sm_bw_anchor sm);
          rtt_us = (if sent_ns > 0 \<and> now_ns > sent_ns then (now_ns - sent_ns) div 1000 else 0);
          trusted_us = (if trusted_ns > 0 \<and> now_ns > trusted_ns
                        then (now_ns - trusted_ns) div 1000 else 0);
          (bps, used) = (case anchor of None \<Rightarrow> (0, False)
                         | Some a \<Rightarrow> bandwidth_sample b delivered_now last_ns a)
      in ((rtt_us, trusted_us, bps),
          sm\<lparr>sm_samples := rest, sm_delivered := delivered_now, sm_last_delivered_ns := last_ns,
             sm_bw_anchor := (if used then None else anchor)\<rparr>))"

definition feed_flow_control :: "nat \<Rightarrow> int \<Rightarrow> Tunnel \<Rightarrow> Tunnel" where
  "feed_flow_control acked_total now_ns t =
     (case sample_ack (fl_control (tn_flow t)) acked_total now_ns (tn_sampler t) of
        ((rtt_us, trusted_us, bps), sm) \<Rightarrow>
          let b = fl_control (tn_flow t);
              b1 = (if bps > 0 then observe_bandwidth_bps bps b else b);
              b2 = (if rtt_us > 0 then observe_rtt_samples_at rtt_us trusted_us now_ns b1 else b1)
          in t\<lparr>tn_flow := (tn_flow t)\<lparr>fl_control := b2\<rparr>, tn_sampler := sm\<rparr>)"

definition resume_read :: "Tunnel \<Rightarrow> Tunnel" where
  "resume_read t = log_event EvTcpResumeRead t"

definition handle_tunnel_ack_frame ::
  "nat \<Rightarrow> TunnelEnv \<Rightarrow> ProtocolFrame \<Rightarrow> Tunnel \<Rightarrow> Tunnel option" where
  "handle_tunnel_ack_frame fuel env frame t =
     (case as_tunnel_ack frame of
        None \<Rightarrow> Some t
      | Some p \<Rightarrow>
          if tn_state t = TS_Connecting then Some (transition_state TS_Connected t)
          else case credit_ack (fl_emitted (tn_flow t)) (unat (ack_bytes_acked p)) t of
            ((acked, acked_total), t1) \<Rightarrow>
              (let t2 = release_window acked t1;
                   t3 = (if acked > 0 \<and> fl_configured (tn_flow t2)
                         then feed_flow_control acked_total (te_now env (tn_events t2)) t2 else t2);
                   conn = tc_conn (tn_tcp t3)
               in do {
                 (drained, t4) \<leftarrow> flush_pending_tcp_input fuel env t3;
                 maybe_finish_pending_tcp_eof fuel env
                   (if conn \<and> acked > 0 \<and> drained then resume_read t4 else t4)
               }))"

definition report_error :: "byte \<Rightarrow> string \<Rightarrow> Tunnel \<Rightarrow> Tunnel" where
  "report_error code description t = log_event (EvErrorReceived code description) t"

definition handle_tunnel_error_frame :: "ProtocolFrame \<Rightarrow> Tunnel \<Rightarrow> Tunnel" where
  "handle_tunnel_error_frame frame t =
     (case as_tunnel_error frame of
        None \<Rightarrow> t
      | Some p \<Rightarrow>
          notify_close_once (report_error (err_code p) (err_description p)
            (transition_state TS_Error (book_close_once CR_Error
              (set_last_error (err_code p) (err_description p) t)))))"

definition handle_ping_frame :: "TunnelEnv \<Rightarrow> Tunnel \<Rightarrow> Tunnel" where
  "handle_ping_frame env t = snd (send_frame_to_tox env make_pong t)"

definition handle_frame :: "nat \<Rightarrow> TunnelEnv \<Rightarrow> ProtocolFrame \<Rightarrow> Tunnel \<Rightarrow> Tunnel option" where
  "handle_frame fuel env frame t =
     (if fr_type frame \<noteq> PING \<and> fr_type frame \<noteq> PONG \<and> fr_tunnel_id frame \<noteq> tn_id t then Some t
      else case fr_type frame of
             TUNNEL_OPEN \<Rightarrow> Some (handle_tunnel_open_frame frame t)
           | TUNNEL_DATA \<Rightarrow> Some (handle_tunnel_data_frame env frame t)
           | TUNNEL_CLOSE \<Rightarrow> handle_tunnel_close_frame fuel env t
           | TUNNEL_ACK \<Rightarrow> handle_tunnel_ack_frame fuel env frame t
           | TUNNEL_ERROR \<Rightarrow> Some (handle_tunnel_error_frame frame t)
           | PING \<Rightarrow> Some (handle_ping_frame env t)
           | _ \<Rightarrow> Some t)"

section \<open>Configuration, statistics and timers\<close>

text \<open>The delay clamp of \<open>clamp_coalesce_delay_to_platform\<close> exists on Windows only.\<close>

definition store_coalesce :: "nat \<Rightarrow> nat \<Rightarrow> Tunnel \<Rightarrow> Tunnel" where
  "store_coalesce max_delay_us clamped t =
     t\<lparr>tn_coalescer := wc_configure (int clamped) (int max_delay_us) (tn_coalescer t),
       tn_out := (tn_out t)\<lparr>ob_max_delay_us := max_delay_us, ob_max_bytes := clamped\<rparr>\<rparr>"

definition configure_coalesce :: "nat \<Rightarrow> TunnelEnv \<Rightarrow> nat \<Rightarrow> nat \<Rightarrow> Tunnel \<Rightarrow> Tunnel option" where
  "configure_coalesce fuel env max_delay_us max_bytes t =
     (let clamped = (if max_bytes = 0 \<or> max_bytes > kMaxTcpPayloadPerToxFrame
                     then kMaxTcpPayloadPerToxFrame else max_bytes);
          t1 = store_coalesce max_delay_us clamped t
      in if max_delay_us = 0 \<and> ob_fifo_pending (tn_out t1) > 0 then kick_driver fuel env t1
         else Some t1)"

definition set_coalesce_mode :: "CoalesceMode \<Rightarrow> Tunnel \<Rightarrow> Tunnel" where
  "set_coalesce_mode m t = t\<lparr>tn_coalescer := wc_set_mode m (tn_coalescer t)\<rparr>"

definition configure_flow_control :: "BdpConfig \<Rightarrow> Tunnel \<Rightarrow> Tunnel" where
  "configure_flow_control cfg t =
     (let fl = (tn_flow t)\<lparr>fl_control := bdp_configure cfg (fl_control (tn_flow t)),
                          fl_configured := True\<rparr>
      in t\<lparr>tn_flow := (if bc_fixed_window_bytes cfg > 0
                      then fl\<lparr>fl_window_size := nat (bc_fixed_window_bytes cfg)\<rparr> else fl)\<rparr>)"

definition set_ack_threshold :: "nat \<Rightarrow> Tunnel \<Rightarrow> Tunnel" where
  "set_ack_threshold n t = t\<lparr>tn_flow := (tn_flow t)\<lparr>fl_ack_threshold := n\<rparr>\<rparr>"

definition set_open_timeout :: "int \<Rightarrow> Tunnel \<Rightarrow> Tunnel" where
  "set_open_timeout seconds t = t\<lparr>tn_open := (tn_open t)\<lparr>oh_timeout_s := seconds\<rparr>\<rparr>"

definition set_state :: "State \<Rightarrow> Tunnel \<Rightarrow> Tunnel" where
  "set_state new_state t = transition_state new_state t"

text \<open>Samples that a caller feeds to the flow control; the round trip is dated by the clock.\<close>

definition tunnel_observe_rtt :: "int \<Rightarrow> int \<Rightarrow> Tunnel \<Rightarrow> Tunnel" where
  "tunnel_observe_rtt rtt_us now_ns t =
     t\<lparr>tn_flow := (tn_flow t)\<lparr>fl_control := observe_rtt_us_at rtt_us now_ns (fl_control (tn_flow t))\<rparr>\<rparr>"

definition tunnel_observe_bandwidth :: "int \<Rightarrow> Tunnel \<Rightarrow> Tunnel" where
  "tunnel_observe_bandwidth bps t =
     t\<lparr>tn_flow := (tn_flow t)\<lparr>fl_control := observe_bandwidth_bps bps (fl_control (tn_flow t))\<rparr>\<rparr>"

definition reset_statistics :: "Tunnel \<Rightarrow> Tunnel" where
  "reset_statistics t =
     t\<lparr>tn_flow := (tn_flow t)\<lparr>fl_window_used := 0, fl_since_ack := 0, fl_received := 0, fl_sent := 0\<rparr>,
       tn_sampler := (tn_sampler t)\<lparr>sm_samples := [], sm_delivered := fl_acked (tn_flow t),
                                    sm_last_delivered_ns := 0, sm_bw_anchor := None\<rparr>\<rparr>"

definition set_tcp_connection :: "bool \<Rightarrow> Tunnel \<Rightarrow> Tunnel" where
  "set_tcp_connection attached t = t\<lparr>tn_tcp := (tn_tcp t)\<lparr>tc_conn := attached\<rparr>\<rparr>"

text \<open>Installing the callbacks: span send, owned send, data for TCP.\<close>

definition set_callbacks :: "bool \<Rightarrow> bool \<Rightarrow> bool \<Rightarrow> Tunnel \<Rightarrow> Tunnel" where
  "set_callbacks span owned tcp t = t\<lparr>tn_span_cb := span, tn_owned_cb := owned, tn_tcp_cb := tcp\<rparr>"

definition fire_then_kick ::
  "nat \<Rightarrow> TunnelEnv \<Rightarrow> (Tunnel \<Rightarrow> bool \<times> Tunnel) \<Rightarrow> Tunnel \<Rightarrow> Tunnel option" where
  "fire_then_kick fuel env fire t =
     (case fire t of (True, t1) \<Rightarrow> kick_driver fuel env t1 | (False, t1) \<Rightarrow> Some t1)"

end
