(* ===== verification/Tunnel_Steps.thy ===== *)
theory Tunnel_Steps
  imports Tunnel_Ops
begin

text \<open>
  Interleavings. \<open>tun_step\<close> is the step relation of a tunnel shared by several threads: a step is one
  critical section or one atomic operation of the code, any of them at any time, so that its paths
  contain every schedule of the member functions, including callbacks that re-enter the tunnel while
  a frame is inside the transport. The steps of the emission driver are tied to the driver's position
  \<open>tn_pc\<close>, which only one thread can hold. \<open>reset_statistics\<close> is not a step: nothing in the program
  calls it, and it forgets the window accounting. The second part shows that every member function of
  \<open>Tunnel_Ops\<close>, run to completion, is a path of this relation.
\<close>

section \<open>The step relation\<close>

definition plain_frame :: "ProtocolFrame \<Rightarrow> bool" where
  "plain_frame f \<longleftrightarrow> fr_type f = TUNNEL_OPEN \<or> fr_type f = TUNNEL_ACK \<or> fr_type f = PONG"

definition error_wire :: "byte list \<Rightarrow> u16 \<Rightarrow> bool" where
  "error_wire wire i \<longleftrightarrow> wire = [] \<or> (\<exists>code desc. wire = serialize (make_tunnel_error i code desc))"

fun is_send :: "TunnelEvent \<Rightarrow> bool" where
  "is_send (EvSend _ _) = True"
| "is_send _ = False"

inductive tun_step :: "Tunnel \<Rightarrow> Tunnel \<Rightarrow> bool" where
  st_state: "\<not> terminal (tn_state t) \<Longrightarrow> tun_step t (store_state s t)"
| st_log: "\<not> is_send ev \<Longrightarrow> tun_step t (log_event ev t)"
| st_deadline_cancel: "tun_step t (cancel_open_deadline t)"
| st_deadline_arm: "tun_step t (arm_open_deadline_timer t)"
| st_book: "tun_step t (book_close_once r t)"
| st_notify_close: "tun_step t (notify_close_once t)"
| st_notify_id: "tun_step t (maybe_notify_id_releasable t)"
| st_set_id_cb: "tun_step t (t\<lparr>tn_id_cb := True\<rparr>)"
| st_note_owed: "tun_step t (note_close_owed t)"
| st_abandon: "tun_step t (abandon_close t)"
| st_fence: "tun_step t (fence_close_retry t)"
| st_request: "tun_step t (snd (request_close t))"
| st_close_fire: "tun_step t (snd (close_retry_fire epoch t))"
| st_cancel_open: "tun_step t (snd (cancel_open_retry t))"
| st_abort: "tun_step t (publish_abort t)"
| st_claim_error: "error_wire wire (tn_id t) \<Longrightarrow> tun_step t (snd (claim_terminal_error wire t))"
| st_settle: "tun_step t (snd (settle_error_for_shutdown t))"
| st_lower: "tun_step t (lower_error_fence t)"
| st_arrival: "tun_step t (snd (record_arrival party defer t))"
| st_clear_fin: "tun_step t (clear_finalize_pending t)"
| st_error_fire: "tun_step t (snd (error_retry_fire epoch t))"
| st_gate: "tun_step t (snd (seal_gate t))"
| st_enter: "tun_step t (snd (driver_enter policy t))"
| st_select: "tn_pc t = DP_Head \<Longrightarrow> tun_step t (fst (driver_select arm now t))"
| st_error_send: "tn_pc t = DP_Error wire \<Longrightarrow> tun_step t (error_send env wire t)"
| st_error_commit: "tn_pc t = DP_ErrorDone v \<Longrightarrow> tun_step t (snd (error_commit v t))"
| st_close_send: "tn_pc t = DP_Close \<Longrightarrow> tun_step t (close_send env t)"
| st_close_commit: "tn_pc t = DP_CloseDone v \<Longrightarrow> tun_step t (snd (close_commit v t))"
| st_authorize: "tn_pc t = DP_Data p zc q \<Longrightarrow> tun_step t (data_authorize t)"
| st_data_abandon: "tn_pc t = DP_Data p zc q \<Longrightarrow> ob_abort_published (tn_out t) \<Longrightarrow>
    tun_step t (fst (data_abandon t))"
| st_count: "tn_pc t = DP_DataAuth p zc q \<Longrightarrow> tun_step t (data_count now p zc q t)"
| st_data_send: "tn_pc t = DP_DataCounted p zc eo sa \<Longrightarrow> tun_step t (data_send env p zc eo sa t)"
| st_data_commit: "tn_pc t = DP_DataDone n eo sa sent \<Longrightarrow>
    tun_step t (fst (data_commit now n eo sa sent t))"
| st_mark_local: "tun_step t (snd (mark_local_close t))"
| st_cancel_flush: "tun_step t (cancel_flush_timer t)"
| st_flush_fire: "tun_step t (snd (coalesce_timer_fire epoch t))"
| st_reserve: "tun_step t (snd (reserve_window w n t))"
| st_bump: "tun_step t (bump_activity now t)"
| st_observe: "tun_step t (snd (observe_push now n t))"
| st_admit: "length data \<le> tn_reserved t \<Longrightarrow> tun_step t (snd (admit_data policy now data t))"
| st_count_sent: "tun_step t (count_sent n t)"
| st_defer_close: "tun_step t (snd (defer_close t))"
| st_timeout: "tun_step t (set_timeout_close t)"
| st_take: "tun_step t (snd (take_resources t))"
| st_socket: "tun_step t (release_socket drain t)"
| st_target: "tun_step t (set_target host port t)"
| st_reset_phase: "tun_step t (reset_open_phase t)"
| st_begin_open: "tun_step t (snd (begin_open_send t))"
| st_count_open: "tun_step t (count_open_attempt t)"
| st_resolve_open: "tun_step t (snd (resolve_open_send v t))"
| st_arm_open: "tun_step t (arm_open_retry_timer t)"
| st_disarm_open: "tun_step t (disarm_open_retry t)"
| st_last_error: "tun_step t (set_last_error code desc t)"
| st_send_plain: "plain_frame f \<Longrightarrow> tun_step t (snd (send_frame_to_tox_typed env f t))"
| st_take_ack: "tun_step t (snd (take_ack_credit t))"
| st_restore_ack: "tun_step t (restore_ack_credit n t)"
| st_arm_ack: "tun_step t (arm_ack_retry_timer t)"
| st_disarm_ack: "tun_step t (disarm_ack_timer t)"
| st_queue_tcp: "tun_step t (queue_tcp_input data t)"
| st_advance_tcp: "tun_step t (advance_tcp_cursor n t)"
| st_defer_eof: "tun_step t (defer_tcp_eof t)"
| st_half_close: "tun_step t (snd (half_close t))"
| st_take_eof: "tun_step t (snd (take_pending_eof t))"
| st_received: "tun_step t (count_received n t)"
| st_remote_close: "tun_step t (snd (note_remote_close t))"
| st_credit: "emitted \<le> tn_emitted_high t \<Longrightarrow> tun_step t (snd (credit_ack emitted bytes t))"
| st_release: "n \<le> tn_unreleased t \<Longrightarrow> tun_step t (release_window n t)"
| st_feed: "tun_step t (feed_flow_control total_acked now t)"
| st_coalesce: "0 < c \<Longrightarrow> c \<le> kMaxTcpPayloadPerToxFrame \<Longrightarrow> tun_step t (store_coalesce d c t)"
| st_mode: "tun_step t (set_coalesce_mode m t)"
| st_flow: "tun_step t (configure_flow_control cfg t)"
| st_threshold: "tun_step t (set_ack_threshold n t)"
| st_open_timeout: "tun_step t (set_open_timeout seconds t)"
| st_rtt: "tun_step t (tunnel_observe_rtt rtt_us now t)"
| st_bandwidth: "tun_step t (tunnel_observe_bandwidth bps t)"
| st_conn: "tun_step t (set_tcp_connection attached t)"
| st_callbacks: "tun_step t (set_callbacks sp ow tcp t)"

definition tun_path :: "Tunnel \<Rightarrow> Tunnel \<Rightarrow> bool" where
  "tun_path = tun_step\<^sup>*\<^sup>*"

definition tun_reachable :: "Tunnel \<Rightarrow> bool" where
  "tun_reachable t \<longleftrightarrow> (\<exists>i w now. tun_path (tunnel_new i w now) t)"

lemma path_refl [simp]: "tun_path t t"
  by (simp add: tun_path_def)

lemma path_step: "tun_path t0 t \<Longrightarrow> tun_step t u \<Longrightarrow> tun_path t0 u"
  unfolding tun_path_def by (rule rtranclp.rtrancl_into_rtrancl)

lemma path_trans: "tun_path t u \<Longrightarrow> tun_path u v \<Longrightarrow> tun_path t v"
  unfolding tun_path_def by (rule rtranclp_trans)

text \<open>An invariant of the steps holds along every path and in every reachable state.\<close>

locale tunnel_invariant =
  fixes I :: "Tunnel \<Rightarrow> bool"
  assumes initial: "I (tunnel_new i w now)"
    and preserved: "tun_step t u \<Longrightarrow> I t \<Longrightarrow> I u"
begin

lemma path: "tun_path t u \<Longrightarrow> I t \<Longrightarrow> I u"
  unfolding tun_path_def by (induction rule: rtranclp_induct) (auto intro: preserved)

lemma reachable: "tun_reachable t \<Longrightarrow> I t"
  unfolding tun_reachable_def using path initial by blast

end

section \<open>Paths of the composite operations\<close>

named_theorems path_intros \<open>extending a path by a critical section\<close>

lemmas [path_intros] =
  path_step [OF _ st_log] path_step [OF _ st_deadline_cancel] path_step [OF _ st_deadline_arm]
  path_step [OF _ st_book] path_step [OF _ st_notify_close] path_step [OF _ st_notify_id]
  path_step [OF _ st_note_owed] path_step [OF _ st_abandon] path_step [OF _ st_fence]
  path_step [OF _ st_abort] path_step [OF _ st_lower] path_step [OF _ st_clear_fin]
  path_step [OF _ st_cancel_flush] path_step [OF _ st_bump] path_step [OF _ st_count_sent]
  path_step [OF _ st_timeout] path_step [OF _ st_socket] path_step [OF _ st_target]
  path_step [OF _ st_reset_phase] path_step [OF _ st_count_open] path_step [OF _ st_arm_open]
  path_step [OF _ st_disarm_open] path_step [OF _ st_last_error] path_step [OF _ st_restore_ack]
  path_step [OF _ st_arm_ack] path_step [OF _ st_disarm_ack] path_step [OF _ st_queue_tcp]
  path_step [OF _ st_advance_tcp] path_step [OF _ st_defer_eof] path_step [OF _ st_received]
  path_step [OF _ st_feed] path_step [OF _ st_mode] path_step [OF _ st_flow]
  path_step [OF _ st_threshold] path_step [OF _ st_conn] path_step [OF _ st_callbacks]
  path_step [OF _ st_state] path_step [OF _ st_open_timeout] path_step [OF _ st_rtt]
  path_step [OF _ st_bandwidth]

text \<open>The sections that return a result beside the state, for a given result.\<close>

lemma path_snd: "tun_path t0 t \<Longrightarrow> tun_step t (snd r) \<Longrightarrow> r = (x, u) \<Longrightarrow> tun_path t0 u"
  using path_step by fastforce

lemma path_fst: "tun_path t0 t \<Longrightarrow> tun_step t (fst r) \<Longrightarrow> r = (u, x) \<Longrightarrow> tun_path t0 u"
  using path_step by fastforce

lemma path_notify_state [path_intros]:
  "tun_path t0 t \<Longrightarrow> tun_path t0 (notify_state_change s t)"
  unfolding notify_state_change_def by (intro path_intros) (auto intro: path_intros)

lemma path_transition_if [path_intros]:
  "tun_path t0 t \<Longrightarrow> \<not> terminal expected \<Longrightarrow> tun_path t0 (snd (transition_state_if expected desired t))"
  unfolding transition_state_if_def by (auto intro!: path_intros)

lemma path_transition [path_intros]:
  "tun_path t0 t \<Longrightarrow> tun_path t0 (transition_state s t)"
  unfolding transition_state_def by (auto intro!: path_intros)

lemma path_abandon_obligation [path_intros]:
  "tun_path t0 t \<Longrightarrow> tun_path t0 (abandon_close_obligation t)"
  unfolding abandon_close_obligation_def by (auto intro!: path_intros)

lemma path_cancel_close_retry [path_intros]:
  "tun_path t0 t \<Longrightarrow> tun_path t0 (cancel_close_retry t)"
  unfolding cancel_close_retry_def by (auto intro!: path_intros)

lemma path_finalizer [path_intros]:
  "tun_path t0 t \<Longrightarrow> tun_path t0 (run_terminal_error_finalizer t)"
  unfolding run_terminal_error_finalizer_def by (auto intro!: path_intros)

lemma path_arrive [path_intros]:
  "tun_path t0 t \<Longrightarrow> tun_path t0 (arrive_terminal_error_party party defer t)"
  unfolding arrive_terminal_error_party_def
  by (auto split: prod.splits intro!: path_intros intro: path_snd [OF _ st_arrival])

lemma path_take_finalizer [path_intros]:
  "tun_path t0 t \<Longrightarrow> tun_path t0 (take_pending_terminal_finalizer t)"
  unfolding take_pending_terminal_finalizer_def by (auto intro!: path_intros)

lemma path_finalize_remote [path_intros]:
  "tun_path t0 t \<Longrightarrow> tun_path t0 (finalize_remote_close t)"
  unfolding finalize_remote_close_def by (auto intro!: path_intros)

subsection \<open>The driver\<close>

named_theorems pc_simps \<open>what leaves the driver's position alone\<close>

lemma pc_simps_basic [pc_simps]:
  "tn_pc (log_event ev t) = tn_pc t"
  "tn_pc (cancel_open_deadline t) = tn_pc t"
  "tn_pc (book_close_once r t) = tn_pc t"
  "tn_pc (notify_close_once t) = tn_pc t"
  "tn_pc (maybe_notify_id_releasable t) = tn_pc t"
  "tn_pc (fence_close_retry t) = tn_pc t"
  "tn_pc (lower_error_fence t) = tn_pc t"
  "tn_pc (snd (record_arrival party defer t)) = tn_pc t"
  "tn_pc (set_pc p t) = p"
  "tn_pc (stop_driver t) = DP_Idle"
  "tn_pc (leave_driver t) = DP_Idle"
  by (auto simp: log_event_def cancel_open_deadline_def book_close_once_def notify_close_once_def
      maybe_notify_id_releasable_def fence_close_retry_def lower_error_fence_def record_arrival_def
      set_pc_def stop_driver_def leave_driver_def Let_def split: ErrorSettleParty.splits)

lemma pc_simps_composite [pc_simps]:
  "tn_pc (arrive_terminal_error_party party defer t) = tn_pc t"
proof -
  obtain b t1 where r: "record_arrival party defer t = (b, t1)" by fastforce
  then have "tn_pc t1 = tn_pc t" by (metis pc_simps_basic(8) snd_conv)
  with r show ?thesis
    by (auto simp: arrive_terminal_error_party_def run_terminal_error_finalizer_def
        cancel_close_retry_def pc_simps_basic)
qed

lemma select_pc:
  assumes "driver_select arm now t = (u, ctl)"
  shows "case ctl of
           Selected \<Rightarrow> (\<exists>w. tn_pc u = DP_Error w) \<or> tn_pc u = DP_Close
                       \<or> (\<exists>p zc q. tn_pc u = DP_Data p zc q)
         | Again \<Rightarrow> tn_pc u = tn_pc t
         | Exit _ _ _ _ \<Rightarrow> tn_pc u = DP_Idle"
  using assms
  by (auto simp: driver_select_def drain_complete_def pc_simps Let_def
      split: if_splits option.splits)

lemma path_pass:
  assumes "tun_path t0 t" and "tn_pc t = DP_Head" and "driver_pass env arm t = (u, ctl)"
  shows "tun_path t0 u \<and> ctl \<noteq> Selected \<and> (ctl = Again \<longrightarrow> tn_pc u = DP_Head)"
proof -
  obtain t1 c1 where sel: "driver_select arm (te_now env (tn_events t)) t = (t1, c1)"
    by fastforce
  note pc = select_pc [OF sel]
  have p1: "tun_path t0 t1"
    by (rule path_fst [OF assms(1) st_select sel]) (rule assms(2))
  show ?thesis
  proof (cases c1)
    case Again
    with assms sel p1 pc show ?thesis by (auto simp: driver_pass_def)
  next
    case (Exit x1 x2 x3 x4)
    with assms sel p1 pc show ?thesis by (auto simp: driver_pass_def)
  next
    case Selected
    with pc consider (err) w where "tn_pc t1 = DP_Error w" | (cl) "tn_pc t1 = DP_Close"
      | (dat) p zc q where "tn_pc t1 = DP_Data p zc q" by auto
    then show ?thesis
    proof cases
      case err
      obtain v t2 where send: "send_wire_to_tox_typed env w t1 = (v, t2)" by fastforce
      then have e: "error_send env w t1 = set_pc (DP_ErrorDone v) t2"
        by (simp add: error_send_def)
      have p2: "tun_path t0 (set_pc (DP_ErrorDone v) t2)"
        using path_step [OF p1 st_error_send [OF err, of env]] e by simp
      obtain b t3 where com: "error_commit v (set_pc (DP_ErrorDone v) t2) = (b, t3)" by fastforce
      have p3: "tun_path t0 t3"
        by (rule path_snd [OF p2 st_error_commit com]) (simp add: pc_simps)
      have "b \<longrightarrow> tn_pc t3 = DP_Head"
        using com by (auto simp: error_commit_def Let_def pc_simps split: if_splits)
      with p3 assms(3) sel Selected err e com show ?thesis
        by (auto simp: driver_pass_def error_pass_def Let_def pc_simps
            split: bool.splits intro: path_intros)
    next
      case cl
      obtain v t2 where send: "send_frame_to_tox_typed env (make_tunnel_close (tn_id t1)) t1 = (v, t2)"
        by fastforce
      then have e: "close_send env t1 = set_pc (DP_CloseDone v) t2"
        by (simp add: close_send_def)
      have p2: "tun_path t0 (set_pc (DP_CloseDone v) t2)"
        using path_step [OF p1 st_close_send [OF cl, of env]] e by simp
      obtain b t3 where com: "close_commit v (set_pc (DP_CloseDone v) t2) = (b, t3)" by fastforce
      have p3: "tun_path t0 t3"
        by (rule path_snd [OF p2 st_close_commit com]) (simp add: pc_simps)
      have "tn_pc t3 = DP_Head"
        using com by (auto simp: close_commit_def Let_def pc_simps split: if_splits)
      with p3 assms(3) sel Selected cl e com show ?thesis
        by (auto simp: driver_pass_def close_pass_def Let_def pc_simps
            split: bool.splits intro: path_intros)
    next
      case dat
      show ?thesis
      proof (cases "ob_abort_published (tn_out t1)")
        case True
        have "tun_path t0 (fst (data_abandon t1))"
          by (rule path_step [OF p1 st_data_abandon [OF dat True]])
        with True assms(3) sel Selected dat show ?thesis
          by (auto simp: driver_pass_def data_pass_def data_abandon_def pc_simps split: if_splits)
      next
        case False
        then have auth: "data_authorize t1 = set_pc (DP_DataAuth p zc q) t1"
          by (simp add: data_authorize_def dat)
        have p2: "tun_path t0 (set_pc (DP_DataAuth p zc q) t1)"
          using path_step [OF p1 st_authorize [OF dat]] auth by simp
        let ?now = "te_now env (tn_events t1)"
        let ?t3 = "data_count ?now p zc q (set_pc (DP_DataAuth p zc q) t1)"
        have p3: "tun_path t0 ?t3"
          by (rule path_step [OF p2 st_count]) (simp add: pc_simps)
        obtain eo sa where pc3: "tn_pc ?t3 = DP_DataCounted p zc eo sa"
          by (fastforce simp: data_count_def Let_def split: prod.split)
        let ?t4 = "data_send env p zc eo sa ?t3"
        have p4: "tun_path t0 ?t4"
          by (rule path_step [OF p3 st_data_send [OF pc3]])
        obtain sent where pc4: "tn_pc ?t4 = DP_DataDone (length p) eo sa sent"
          by (fastforce simp: data_send_def pc_simps split: prod.split)
        have com: "data_commit (te_now env (tn_events ?t4)) (length p) eo sa sent ?t4 = (u, ctl)"
          using assms(3) sel Selected dat False auth pc3 pc4
          by (simp add: driver_pass_def data_pass_def Let_def)
        have "tun_path t0 u"
          by (rule path_fst [OF p4 st_data_commit [OF pc4] com])
        moreover have "ctl \<noteq> Selected \<and> (ctl = Again \<longrightarrow> tn_pc u = DP_Head)"
          using com by (auto simp: data_commit_def Let_def pc_simps split: if_splits)
        ultimately show ?thesis by blast
      qed
    qed
  qed
qed

lemma path_loop:
  "tun_path t0 t \<Longrightarrow> tn_pc t = DP_Head \<Longrightarrow> driver_loop env fuel arm t = Some (u, r) \<Longrightarrow> tun_path t0 u"
proof (induction fuel arbitrary: t)
  case 0
  then show ?case by simp
next
  case (Suc fuel)
  obtain t1 ctl where pass: "driver_pass env arm t = (t1, ctl)" by fastforce
  from path_pass [OF Suc.prems(1,2) pass] Suc.prems(3) pass Suc.IH [of t1]
  show ?case by (cases ctl) auto
qed

lemma path_emit_close_with:
  assumes kick: "\<forall>x y. tun_path t0 x \<longrightarrow> kick x = Some y \<longrightarrow> tun_path t0 y"
    and "tun_path t0 t" and "emit_close_with kick t = Some u"
  shows "tun_path t0 u"
proof -
  obtain b t1 where r: "request_close t = (b, t1)" by fastforce
  have "tun_path t0 t1" by (rule path_snd [OF assms(2) st_request r])
  with assms(3) r kick show ?thesis by (auto simp: emit_close_with_def split: bool.splits)
qed

lemma path_emit_and_transition_with:
  assumes kick: "\<forall>x y. tun_path t0 x \<longrightarrow> kick x = Some y \<longrightarrow> tun_path t0 y"
    and "tun_path t0 t" and "emit_close_and_transition_with kick t = Some u"
  shows "tun_path t0 u"
proof -
  obtain b t1 where r: "mark_local_close t = (b, t1)" by fastforce
  have "tun_path t0 t1" by (rule path_snd [OF assms(2) st_mark_local r])
  then have *: "tun_path t0 t2" if "emit_close_with kick t1 = Some t2" for t2
    using path_emit_close_with [OF kick] that by blast
  have nt: "\<not> terminal TS_Connected" by (simp add: terminal_def)
  show ?thesis
  proof (cases b)
    case True
    with assms(3) r obtain t2 where "emit_close_with kick t1 = Some t2"
      and u: "u = notify_close_once (maybe_notify_id_releasable (snd (transition_state_if TS_Connected
               TS_Disconnecting (book_close_once (local_close_reason t2) t2))))"
      by (auto simp: emit_close_and_transition_with_def bind_eq_Some_conv)
    with * show ?thesis unfolding u by (intro path_intros nt) simp
  next
    case False
    with assms(3) r have u: "u = notify_close_once (maybe_notify_id_releasable
        (snd (transition_state_if TS_Connected TS_Disconnecting t1)))"
      by (auto simp: emit_close_and_transition_with_def)
    show ?thesis unfolding u by (intro path_intros nt) fact
  qed
qed

lemma path_emit_local_with:
  assumes kick: "\<forall>x y. tun_path t0 x \<longrightarrow> kick x = Some y \<longrightarrow> tun_path t0 y"
    and "tun_path t0 t" and "emit_local_close_only_with kick t = Some u"
  shows "tun_path t0 u"
proof -
  obtain t2 where "emit_close_with kick t = Some t2"
    and u: "u = snd (transition_state_if TS_Connected TS_Disconnecting t2)"
    using assms(3) by (auto simp: emit_local_close_only_with_def)
  with assms(2) have "tun_path t0 t2" using path_emit_close_with [OF kick] by blast
  then show ?thesis unfolding u by (intro path_intros) (simp_all add: terminal_def)
qed

lemma path_run:
  "tun_path t0 t \<Longrightarrow> run_emission_driver fuel env policy arm t = Some (oc, u) \<Longrightarrow> tun_path t0 u"
proof (induction fuel arbitrary: policy arm t oc u)
  case 0
  then show ?case by simp
next
  case (Suc fuel)
  obtain b t1 where ent: "driver_enter policy t = (b, t1)" by fastforce
  have p1: "tun_path t0 t1" by (rule path_snd [OF Suc.prems(1) st_enter ent])
  let ?kick = "\<lambda>x. map_option snd (run_emission_driver fuel env FlushAll True x)"
  have kick: "\<forall>x y. tun_path t0 x \<longrightarrow> ?kick x = Some y \<longrightarrow> tun_path t0 y"
    using Suc.IH by auto
  show ?case
  proof (cases b)
    case False
    with Suc.prems(2) ent p1 show ?thesis by simp
  next
    case True
    with ent have pc: "tn_pc t1 = DP_Head" by (auto simp: driver_enter_def Let_def split: if_splits)
    from True Suc.prems(2) ent obtain t2 full half fin t3 t4 where
        loop: "driver_loop env fuel arm t1 = Some (t2, oc, full, half, fin)"
      and full: "(if full then emit_close_and_transition_with ?kick t2 else Some t2) = Some t3"
      and half: "(if half then emit_local_close_only_with ?kick t3 else Some t3) = Some t4"
      and u: "u = (if fin then finalize_remote_close t4 else t4)"
      by (auto simp: bind_eq_Some_conv Let_def)
    have "tun_path t0 t2" by (rule path_loop [OF p1 pc loop])
    then have "tun_path t0 t3"
      using full path_emit_and_transition_with [OF kick] by (auto split: if_splits)
    then have "tun_path t0 t4"
      using half path_emit_local_with [OF kick] by (auto split: if_splits)
    then show ?thesis unfolding u by (simp add: path_intros)
  qed
qed

lemma path_kick: "tun_path t0 t \<Longrightarrow> kick_driver fuel env t = Some u \<Longrightarrow> tun_path t0 u"
  unfolding kick_driver_def by (auto intro: path_run)

lemma path_kick_all: "\<forall>x y. tun_path t0 x \<longrightarrow> kick_driver fuel env x = Some y \<longrightarrow> tun_path t0 y"
  by (auto intro: path_kick)

lemma path_emit_close:
  "tun_path t0 t \<Longrightarrow> emit_close_frame_once fuel env t = Some u \<Longrightarrow> tun_path t0 u"
  unfolding emit_close_frame_once_def by (rule path_emit_close_with [OF path_kick_all])

lemma path_emit_and_transition:
  "tun_path t0 t \<Longrightarrow> emit_close_and_transition fuel env t = Some u \<Longrightarrow> tun_path t0 u"
  unfolding emit_close_and_transition_def by (rule path_emit_and_transition_with [OF path_kick_all])

lemma path_emit_local:
  "tun_path t0 t \<Longrightarrow> emit_local_close_only fuel env t = Some u \<Longrightarrow> tun_path t0 u"
  unfolding emit_local_close_only_def by (rule path_emit_local_with [OF path_kick_all])

lemma path_flush:
  "tun_path t0 t \<Longrightarrow> flush_pending_writes fuel env t = Some u \<Longrightarrow> tun_path t0 u"
  unfolding flush_pending_writes_def by (auto intro: path_intros path_kick)
subsection \<open>The member functions\<close>

text \<open>The sections that return a result, as forward rules.\<close>

lemmas path_results =
  path_snd [OF _ st_request] path_snd [OF _ st_cancel_open] path_snd [OF _ st_settle]
  path_snd [OF _ st_gate] path_snd [OF _ st_mark_local] path_snd [OF _ st_flush_fire]
  path_snd [OF _ st_close_fire] path_snd [OF _ st_error_fire]
  path_snd [OF _ st_reserve] path_snd [OF _ st_observe] path_snd [OF _ st_defer_close]
  path_snd [OF _ st_take] path_snd [OF _ st_begin_open] path_snd [OF _ st_resolve_open]
  path_snd [OF _ st_take_ack] path_snd [OF _ st_half_close] path_snd [OF _ st_take_eof]
  path_snd [OF _ st_remote_close]

lemma path_claim_terminal:
  assumes "tun_path t0 t" and "claim_terminal only_from t = (c, u)"
  shows "tun_path t0 u"
proof -
  let ?t1 = "if \<not> terminal (tn_state t) \<and> (case only_from of None \<Rightarrow> True | Some s \<Rightarrow> tn_state t = s)
             then store_state TS_Closed t else t"
  have p1: "tun_path t0 ?t1" using assms(1) by (auto intro: path_intros)
  obtain ob t2 where r: "cancel_open_retry ?t1 = (ob, t2)" by fastforce
  have p2: "tun_path t0 t2" by (rule path_results(2) [OF p1 r])
  with p1 assms(2) r show ?thesis
    by (auto simp: claim_terminal_def Let_def split: if_splits intro: path_intros)
qed

lemma path_claim_error:
  "tun_path t0 t \<Longrightarrow> error_wire wire (tn_id t) \<Longrightarrow> claim_terminal_error wire t = (r, u) \<Longrightarrow> tun_path t0 u"
  by (rule path_snd [OF _ st_claim_error])

lemma path_gate [path_intros]: "tun_path t0 t \<Longrightarrow> tun_path t0 (close_outbound_gate t)"
proof -
  assume p: "tun_path t0 t"
  obtain b t1 where r: "seal_gate (cancel_close_retry t) = (b, t1)" by fastforce
  have "tun_path t0 t1" by (rule path_snd [OF path_cancel_close_retry [OF p] st_gate r])
  with r show ?thesis by (auto simp: close_outbound_gate_def intro: path_intros)
qed

lemma path_send_plain:
  "tun_path t0 t \<Longrightarrow> plain_frame f \<Longrightarrow> send_frame_to_tox_typed env f t = (v, u) \<Longrightarrow> tun_path t0 u"
  by (rule path_snd [OF _ st_send_plain])

lemma path_send_data:
  assumes "tun_path t0 t" and "send_data_to_tox fuel env data t = Some (b, u)"
  shows "tun_path t0 u"
proof -
  obtain r t1 where res: "reserve_window (effective_window (tn_flow t)) (length data) t = (r, t1)"
    by fastforce
  have p1: "tun_path t0 t1" by (rule path_snd [OF assms(1) st_reserve res])
  let ?now = "te_now env (tn_events t1)"
  obtain pol t2 where obs: "observe_push ?now (length data) (bump_activity ?now t1) = (pol, t2)"
    by fastforce
  have p2: "tun_path t0 t2" by (rule path_snd [OF _ st_observe obs]) (simp add: path_intros p1)
  obtain acc imm t3 where adm: "admit_data pol ?now data t2 = ((acc, imm), t3)"
    by (metis surj_pair)
  show ?thesis
  proof (cases "is_connected t \<and> \<not> ob_abort_published (tn_out t) \<and> r")
    case False
    with assms p1 res show ?thesis by (auto simp: send_data_to_tox_def split: if_splits)
  next
    case True
    with res have "tn_reserved t1 = tn_reserved t + length data"
      by (auto simp: reserve_window_def Let_def split: if_splits)
    moreover have "tn_reserved t2 = tn_reserved t1"
      using obs by (auto simp: observe_push_def bump_activity_def Let_def split: prod.splits)
    ultimately have p3: "tun_path t0 t3" using path_snd [OF p2 st_admit adm] by simp
    then have p4: "tun_path t0 (count_sent (length data) t3)" by (rule path_intros)
    from p3 True assms(2) res obs adm show ?thesis
      by (auto simp: send_data_to_tox_def Let_def split: if_splits bool.splits
          intro: path_run [OF p4])
  qed
qed

lemma path_close:
  assumes "tun_path t0 t" and "close_tunnel fuel env t = Some u"
  shows "tun_path t0 u"
proof (cases "tn_state t = TS_Connecting")
  case True
  obtain ob t1 where c: "cancel_open_retry t = (ob, t1)" by fastforce
  have p1: "tun_path t0 t1" by (rule path_snd [OF assms(1) st_cancel_open c])
  show ?thesis
  proof (cases "ob_abort_published (tn_out t)")
    case True
    with assms show ?thesis by (simp add: close_tunnel_def)
  next
    case False
    with True assms(2) c obtain t2 where
        t2: "(if ob = CO_Immediate then emit_close_frame_once fuel env t1 else Some t1) = Some t2"
      and u: "(case transition_state_if TS_Connecting TS_Closed t2 of
                 (False, t3) \<Rightarrow> Some t3
               | (True, t3) \<Rightarrow> Some (notify_close_once (book_close_once (local_close_reason t3) t3)))
              = Some u"
      by (auto simp: close_tunnel_def bind_eq_Some_conv)
    obtain b t3 where tr: "transition_state_if TS_Connecting TS_Closed t2 = (b, t3)" by fastforce
    have p2: "tun_path t0 t2" using t2 p1 path_emit_close by (auto split: if_splits)
    have "tun_path t0 (snd (transition_state_if TS_Connecting TS_Closed t2))"
      by (rule path_transition_if [OF p2]) (simp add: terminal_def)
    with tr u show ?thesis by (auto split: bool.splits intro: path_intros)
  qed
next
  case False
  obtain b t1 where d: "defer_close t = (b, t1)" by fastforce
  have "tun_path t0 t1" by (rule path_snd [OF assms(1) st_defer_close d])
  with False assms d show ?thesis
    by (auto simp: close_tunnel_def split: if_splits bool.splits
        intro: path_kick path_emit_and_transition)
qed

lemma error_wire_make [simp]: "error_wire (serialize (make_tunnel_error i code desc)) i"
  by (auto simp: error_wire_def)

lemma error_wire_Nil [simp]: "error_wire [] i"
  by (simp add: error_wire_def)

lemma path_close_for_timeout:
  assumes "tun_path t0 t" and "close_for_timeout fuel env t = Some u"
  shows "tun_path t0 u"
proof -
  let ?t = "set_timeout_close t"
  let ?w = "serialize (make_tunnel_error (tn_id ?t) 2 ''half-close linger timeout'')"
  have p: "tun_path t0 ?t" using assms(1) by (rule path_intros)
  obtain won settled t1 where c: "claim_terminal_error ?w ?t = ((won, settled), t1)"
    by (metis surj_pair)
  have p1: "tun_path t0 t1" by (rule path_claim_error [OF p _ c]) simp
  show ?thesis
  proof (cases "tn_state ?t = TS_Disconnecting \<and> won")
    case False
    with assms(2) c p p1 show ?thesis
      by (auto simp: close_for_timeout_def Let_def split: if_splits bool.splits intro: path_close)
  next
    case True
    with assms(2) c obtain t2 where
        "(if settled then Some (arrive_terminal_error_party Transport False t1)
          else kick_driver fuel env t1) = Some t2"
      and u: "u = arrive_terminal_error_party Producer False
               (notify_close_once (transition_state TS_Closed (book_close_once CR_Timeout t2)))"
      by (auto simp: close_for_timeout_def Let_def bind_eq_Some_conv)
    then have "tun_path t0 t2" using p1 by (auto split: if_splits intro: path_intros path_kick)
    then show ?thesis unfolding u by (intro path_intros)
  qed
qed

lemma path_release_resources [path_intros]:
  "tun_path t0 t \<Longrightarrow> tun_path t0 (release_resources drain t)"
proof -
  assume "tun_path t0 t"
  then have p: "tun_path t0 (publish_abort t)" by (rule path_intros)
  obtain b t1 where r: "settle_error_for_shutdown (publish_abort t) = (b, t1)" by fastforce
  have "tun_path t0 t1" by (rule path_snd [OF p st_settle r])
  with r show ?thesis
    by (auto simp: release_resources_def abort_and_settle_def Let_def intro!: path_intros)
qed

lemma path_force_close:
  assumes "tun_path t0 t" and "force_close_impl fuel env release only_from mark t = Some u"
  shows "tun_path t0 u"
proof -
  obtain cl t1 where c: "claim_terminal only_from t = (cl, t1)" by fastforce
  have p1: "tun_path t0 t1" by (rule path_claim_terminal [OF assms(1) c])
  let ?t2 = "if mark \<and> tcl_claimed cl then set_timeout_close t1 else t1"
  have p2: "tun_path t0 ?t2" using p1 by (auto intro: path_intros)
  obtain owns t3 where tk: "take_resources ?t2 = (owns, t3)" by fastforce
  have p3: "tun_path t0 t3" by (rule path_snd [OF p2 st_take tk])
  show ?thesis
  proof (cases "only_from \<noteq> None \<and> \<not> tcl_claimed cl \<or> \<not> tcl_claimed cl \<and> \<not> owns")
    case True
    with assms(2) c tk p1 p3 show ?thesis
      by (auto simp: force_close_impl_def Let_def split: if_splits)
  next
    case False
    let ?drain = "\<lambda>t6. release = RR_DrainIfClosed \<and> \<not> tcl_claimed cl
                     \<and> tcl_previous cl = TS_Closed \<and> \<not> tn_gate_closed t6"
    let ?t6 = "\<lambda>t5. if tcl_claimed cl then book_close_once (local_close_reason t5) t5 else t5"
    let ?t7 = "\<lambda>t5. if owns then release_resources (?drain (?t6 t5)) (?t6 t5) else ?t6 t5"
    from False assms(2) c tk obtain t4 t5 t8 where
        t4: "(if owns \<and> \<not> tn_gate_closed t3 then flush_pending_writes fuel env t3 else Some t3) = Some t4"
      and t5: "(if tcl_must_announce cl then emit_close_frame_once fuel env t4 else Some t4) = Some t5"
      and t8: "kick_driver fuel env (?t7 t5) = Some t8"
      and u: "u = notify_close_once (maybe_notify_id_releasable
                    (if tcl_claimed cl then notify_state_change TS_Closed t8 else t8))"
      by (clarsimp simp only: force_close_impl_def Let_def bind_eq_Some_conv prod.case de_Morgan_disj
          if_False option.inject)
    have "tun_path t0 t4" using t4 p3 by (auto split: if_splits intro: path_flush)
    then have "tun_path t0 t5" using t5 by (auto split: if_splits intro: path_emit_close)
    then have "tun_path t0 (?t7 t5)" by (simp add: path_intros)
    then have "tun_path t0 t8" using t8 by (rule path_kick)
    then show ?thesis unfolding u by (simp add: path_intros)
  qed
qed

lemma path_attempt_open:
  assumes "tun_path t0 t" and "attempt_open_send env t = (r, u)"
  shows "tun_path t0 u"
proof -
  obtain b t1 where bg: "begin_open_send t = (b, t1)" by fastforce
  have p1: "tun_path t0 t1" by (rule path_snd [OF assms(1) st_begin_open bg])
  let ?t2 = "count_open_attempt t1"
  let ?f = "make_tunnel_open (tn_id ?t2) (tn_target_host ?t2) (tn_target_port ?t2)"
  obtain v t3 where s: "send_frame_to_tox_typed env ?f ?t2 = (v, t3)" by fastforce
  have "plain_frame ?f" by (simp add: plain_frame_def make_tunnel_open_def new_frame_def Let_def)
  moreover have "tun_path t0 ?t2" using p1 by (rule path_intros)
  ultimately have p3: "tun_path t0 t3" using path_send_plain s by blast
  obtain ov t4 where rs: "resolve_open_send v t3 = (ov, t4)" by fastforce
  have "tun_path t0 t4" by (rule path_snd [OF p3 st_resolve_open rs])
  with assms(2) bg s rs p1 show ?thesis
    by (auto simp: attempt_open_send_def Let_def split: bool.splits if_splits intro: path_intros)
qed

lemma path_open:
  assumes "tun_path t0 t" and "open_tunnel fuel env host port t = Some (b, u)"
  shows "tun_path t0 u"
proof (cases "tn_state t = TS_None \<and> length host \<le> 255")
  case False
  with assms show ?thesis by (auto simp: open_tunnel_def split: if_splits)
next
  case True
  let ?t1 = "set_target host port (store_state TS_Connecting t)"
  have cl: "claim_open host port t = (True, ?t1)"
    using True by (simp add: claim_open_def set_target_def)
  have p1: "tun_path t0 (notify_state_change TS_Connecting (reset_open_phase ?t1))"
    using True by (intro path_intros assms(1)) (simp add: terminal_def)
  obtain r t2 where at: "attempt_open_send env (notify_state_change TS_Connecting
      (reset_open_phase ?t1)) = (r, t2)"
    by fastforce
  have p2: "tun_path t0 t2" by (rule path_attempt_open [OF p1 at])
  obtain c t3 where tr: "transition_state_if TS_Connecting TS_None t2 = (c, t3)" by fastforce
  have p3: "tun_path t0 t3"
    using path_transition_if [OF p2, of TS_Connecting TS_None] tr by (simp add: terminal_def)
  show ?thesis
  proof (cases r)
    case None
    with True cl at assms(2) p2 show ?thesis by (simp add: open_tunnel_def)
  next
    case (Some ov)
    with True cl at tr assms(2) p2 p3 show ?thesis
      by (cases ov) (auto simp: open_tunnel_def split: if_splits bool.splits
          intro: path_intros path_emit_close)
  qed
qed

lemma path_retry_open:
  assumes "tun_path t0 t" and "retry_open_send fuel env t = Some u"
  shows "tun_path t0 u"
proof -
  obtain r t1 where at: "attempt_open_send env t = (r, t1)" by fastforce
  have p1: "tun_path t0 t1" by (rule path_attempt_open [OF assms(1) at])
  obtain c t2 where tr: "transition_state_if TS_Connecting TS_Error t1 = (c, t2)" by fastforce
  have p2: "tun_path t0 t2"
    using path_transition_if [OF p1, of TS_Connecting TS_Error] tr by (simp add: terminal_def)
  from at tr assms p1 p2 show ?thesis
    by (auto simp: retry_open_send_def split: if_splits bool.splits option.splits prod.splits
        intro: path_intros path_emit_close)
qed

lemma path_land_error [path_intros]: "tun_path t0 t \<Longrightarrow> tun_path t0 (land_error t)"
  by (auto simp: land_error_def intro!: path_intros)

lemma path_send_error:
  assumes "tun_path t0 t" and "send_error fuel env code desc t = Some u"
  shows "tun_path t0 u"
proof -
  let ?w = "serialize (make_tunnel_error (tn_id t) code desc)"
  obtain won settled t1 where c: "claim_terminal_error ?w t = ((won, settled), t1)"
    by (metis surj_pair)
  have p1: "tun_path t0 t1" by (rule path_claim_error [OF assms(1) _ c]) simp
  show ?thesis
  proof (cases won)
    case False
    with assms(2) c p1 show ?thesis by (simp add: send_error_def)
  next
    case True
    with assms(2) c obtain t2 where
        "(if settled then Some (arrive_terminal_error_party Transport False t1)
          else kick_driver fuel env t1) = Some t2"
      and u: "u = arrive_terminal_error_party Producer False (land_error t2)"
      by (auto simp: send_error_def bind_eq_Some_conv)
    then have "tun_path t0 t2" using p1 by (auto split: if_splits intro: path_intros path_kick)
    then show ?thesis unfolding u by (intro path_intros)
  qed
qed

lemma path_fail_locally [path_intros]:
  assumes "tun_path t0 t"
  shows "tun_path t0 (fail_locally code desc t)"
proof -
  have p: "tun_path t0 (set_last_error code desc t)" using assms by (rule path_intros)
  obtain won settled t1 where
    c: "claim_terminal_error [] (set_last_error code desc t) = ((won, settled), t1)"
    by (metis surj_pair)
  have "tun_path t0 t1" by (rule path_claim_error [OF p _ c]) simp
  with c show ?thesis
    by (auto simp: fail_locally_def split: bool.splits intro!: path_intros)
qed

lemma path_send_ack_loop:
  "tun_path t0 t \<Longrightarrow> tun_path t0 (snd (send_ack_loop env n t))"
proof (induction env n t rule: send_ack_loop.induct)
  case (1 env n t)
  let ?a = "min n (2 ^ 32 - 1)"
  let ?f = "make_tunnel_ack (tn_id t) (of_nat ?a)"
  obtain v t1 where s: "send_frame_to_tox_typed env ?f t = (v, t1)" by fastforce
  have pl: "plain_frame ?f" by (simp add: plain_frame_def make_tunnel_ack_def new_frame_def)
  have p1: "tun_path t0 t1" by (rule path_send_plain [OF 1(2) pl s])
  show ?case
  proof (cases "n = 0")
    case True
    then show ?thesis using 1(2) by simp
  next
    case False
    have IH: "v = SO_Sent \<Longrightarrow> tun_path t0 (snd (send_ack_loop env (n - ?a) t1))"
      using 1(1) [OF False refl s [symmetric]] p1 by simp
    from False s p1 IH show ?thesis
      by (subst send_ack_loop.simps) (auto simp: Let_def split: SendOutcome.split intro: path_intros)
  qed
qed

lemma path_send_ack [path_intros]: "tun_path t0 t \<Longrightarrow> tun_path t0 (snd (send_ack env t))"
  using path_send_ack_loop [OF path_step [OF _ st_take_ack]]
  by (auto simp: send_ack_def take_ack_credit_def)

lemma path_maybe_send_ack [path_intros]: "tun_path t0 t \<Longrightarrow> tun_path t0 (maybe_send_ack env t)"
  by (auto simp: maybe_send_ack_def intro: path_intros)

lemma path_pause [path_intros]: "tun_path t0 t \<Longrightarrow> tun_path t0 (pause_read t)"
  by (auto simp: pause_read_def intro: path_intros)

lemma path_tcp_data:
  assumes "tun_path t0 t" and "on_tcp_data_received fuel env data t = Some u"
  shows "tun_path t0 u"
proof -
  have q: "tun_path t0 (pause_read (queue_tcp_input data t1))" if "tun_path t0 t1" for t1
    using that by (intro path_intros)
  from assms q path_send_data [OF assms(1)] show ?thesis
    by (auto simp: on_tcp_data_received_def bind_eq_Some_conv split: if_splits)
qed

lemma path_flush_tcp_loop:
  "tun_path t0 t \<Longrightarrow> flush_tcp_loop turns fuel env t = Some (b, u) \<Longrightarrow> tun_path t0 u"
proof (induction turns arbitrary: t)
  case 0
  then show ?case by simp
next
  case (Suc turns)
  let ?chunk = "take (min (effective_window (tn_flow t) - fl_window_used (tn_flow t))
                          (pending_tcp_pending (tn_tcp t)))
                  (drop (tc_consumed (tn_tcp t)) (tc_input (tn_tcp t)))"
  have step: "tun_path t0 (advance_tcp_cursor (length ?chunk) t1)"
    if "send_data_to_tox fuel env ?chunk t = Some (s, t1)" for s t1
    using path_send_data [OF Suc.prems(1) that] by (rule path_intros)
  show ?case
    using Suc.prems Suc.IH step path_send_data [OF Suc.prems(1)]
    by (auto simp: Let_def bind_eq_Some_conv split: if_splits)
qed

lemma path_read_eof:
  assumes "tun_path t0 t" and "on_tcp_read_eof fuel env t = Some u"
  shows "tun_path t0 u"
proof -
  obtain df em fin t1 where h: "half_close t = ((df, em, fin), t1)" by (metis surj_pair)
  have p1: "tun_path t0 t1" by (rule path_snd [OF assms(1) st_half_close h])
  have em: "tun_path t0 t2" if "emit_local_close_only fuel env t1 = Some t2" for t2
    by (rule path_emit_local [OF p1 that])
  have eof: "tun_path t0 (defer_tcp_eof t)" using assms(1) by (rule path_intros)
  have fin: "tun_path t0 (finalize_remote_close t2)" if "tun_path t0 t2" for t2
    using that by (rule path_intros)
  have kick: "tun_path t0 t2" if "kick_driver fuel env t1 = Some t2" for t2
    by (rule path_kick [OF p1 that])
  have cl: "tun_path t0 t2" if "close_tunnel fuel env t = Some t2" for t2
    by (rule path_close [OF assms(1) that])
  from assms h p1 em eof fin cl kick show ?thesis
    by (auto simp: on_tcp_read_eof_def bind_eq_Some_conv split: if_splits)
qed

lemma path_finish_eof:
  assumes "tun_path t0 t" and "maybe_finish_pending_tcp_eof fuel env t = Some u"
  shows "tun_path t0 u"
proof -
  obtain b t1 where r: "take_pending_eof t = (b, t1)" by fastforce
  have "tun_path t0 t1" by (rule path_snd [OF assms(1) st_take_eof r])
  with assms(2) r path_read_eof show ?thesis
    by (auto simp: maybe_finish_pending_tcp_eof_def split: bool.splits)
qed

lemma path_set_target_frame [path_intros]:
  "tun_path t0 t \<Longrightarrow> tun_path t0 (handle_tunnel_open_frame f t)"
  by (auto simp: handle_tunnel_open_frame_def split: option.split intro: path_intros)

lemma path_data_frame [path_intros]:
  assumes "tun_path t0 t"
  shows "tun_path t0 (handle_tunnel_data_frame env f t)"
proof -
  let ?d = "as_tunnel_data f"
  let ?t1 = "count_received (length ?d) (bump_activity (te_now env (tn_events t)) t)"
  have p1: "tun_path t0 ?t1" using assms by (intro path_intros)
  have "tun_path t0 (log_event (EvTcpData ?d) ?t1)"
    by (rule path_step [OF p1 st_log]) simp
  then have dv: "tun_path t0 (snd (deliver_to_tcp env ?d ?t1))"
    using p1 by (auto simp: deliver_to_tcp_def)
  obtain acc t2 where r: "deliver_to_tcp env ?d ?t1 = (acc, t2)" by fastforce
  with dv have "tun_path t0 t2" by simp
  with r assms show ?thesis
    by (auto simp: handle_tunnel_data_frame_def Let_def intro: path_intros)
qed

lemma path_close_frame:
  assumes "tun_path t0 t" and "handle_tunnel_close_frame fuel env t = Some u"
  shows "tun_path t0 u"
proof -
  obtain k fin t1 where r: "note_remote_close t = ((k, fin), t1)" by (metis surj_pair)
  have p1: "tun_path t0 t1" by (rule path_snd [OF assms(1) st_remote_close r])
  from assms(2) r obtain t2 where
      t2: "(if k then kick_driver fuel env t1 else Some t1) = Some t2"
    and u: "u = (if fin then finalize_remote_close (if tc_conn (tn_tcp t) then shutdown_send t2 else t2)
                 else if tc_conn (tn_tcp t) then shutdown_send t2 else t2)"
    by (auto simp: handle_tunnel_close_frame_def bind_eq_Some_conv Let_def)
  have p2: "tun_path t0 t2" using t2 path_kick [OF p1] p1 by (auto split: if_splits)
  have p3: "tun_path t0 (shutdown_send t2)"
    unfolding shutdown_send_def by (rule path_step [OF p2 st_log]) simp
  from p2 p3 show ?thesis unfolding u by (simp add: path_intros)
qed

lemma path_ack_frame:
  assumes "tun_path t0 t" and "fl_emitted (tn_flow t) \<le> tn_emitted_high t"
    and "handle_tunnel_ack_frame fuel env f t = Some u"
  shows "tun_path t0 u"
proof (cases "as_tunnel_ack f")
  case None
  with assms show ?thesis by (simp add: handle_tunnel_ack_frame_def)
next
  case (Some p)
  obtain a tot t1 where c: "credit_ack (fl_emitted (tn_flow t)) (unat (ack_bytes_acked p)) t
      = ((a, tot), t1)"
    by (metis surj_pair)
  have p1: "tun_path t0 t1" by (rule path_snd [OF assms(1) st_credit [OF assms(2)] c])
  have "a \<le> tn_unreleased t1"
    using c by (auto simp: credit_ack_def Let_def split: if_splits)
  then have p2: "tun_path t0 (release_window a t1)" by (rule path_step [OF p1 st_release])
  let ?t2 = "release_window a t1"
  let ?t3 = "if a > 0 \<and> fl_configured (tn_flow ?t2)
             then feed_flow_control tot (te_now env (tn_events ?t2)) ?t2 else ?t2"
  have p3: "tun_path t0 ?t3" using p2 by (simp add: path_intros)
  show ?thesis
  proof (cases "tn_state t = TS_Connecting")
    case True
    with Some assms(1,3) show ?thesis
      by (auto simp: handle_tunnel_ack_frame_def intro: path_intros)
  next
    case False
    with Some c assms(3) obtain dr t4 where
        fl: "flush_pending_tcp_input fuel env ?t3 = Some (dr, t4)"
      and fin: "maybe_finish_pending_tcp_eof fuel env
            (if tc_conn (tn_tcp ?t3) \<and> a > 0 \<and> dr then resume_read t4 else t4) = Some u"
      by (clarsimp simp only: handle_tunnel_ack_frame_def Let_def bind_eq_Some_conv prod.case
          option.case if_False)
    have p4: "tun_path t0 t4"
      using path_flush_tcp_loop [OF p3] fl unfolding flush_pending_tcp_input_def by blast
    have p5: "tun_path t0 (resume_read t4)"
      unfolding resume_read_def by (rule path_step [OF p4 st_log]) simp
    have "tun_path t0 (if tc_conn (tn_tcp ?t3) \<and> a > 0 \<and> dr then resume_read t4 else t4)"
      using p4 p5 by simp
    then show ?thesis using fin by (rule path_finish_eof)
  qed
qed

lemma path_error_frame [path_intros]:
  assumes "tun_path t0 t"
  shows "tun_path t0 (handle_tunnel_error_frame f t)"
proof (cases "as_tunnel_error f")
  case None
  with assms show ?thesis by (simp add: handle_tunnel_error_frame_def)
next
  case (Some p)
  let ?t1 = "transition_state TS_Error (book_close_once CR_Error
               (set_last_error (err_code p) (err_description p) t))"
  have p1: "tun_path t0 ?t1" using assms by (intro path_intros)
  have p2: "tun_path t0 (report_error (err_code p) (err_description p) ?t1)"
    unfolding report_error_def by (rule path_step [OF p1 st_log]) simp
  from path_step [OF p2 st_notify_close] Some show ?thesis
    by (simp add: handle_tunnel_error_frame_def)
qed

lemma path_ping [path_intros]:
  assumes "tun_path t0 t"
  shows "tun_path t0 (handle_ping_frame env t)"
proof -
  obtain v t1 where s: "send_frame_to_tox_typed env make_pong t = (v, t1)" by fastforce
  have "tun_path t0 t1"
    by (rule path_send_plain [OF assms _ s]) (simp add: plain_frame_def make_pong_def new_frame_def)
  with s show ?thesis by (simp add: handle_ping_frame_def send_frame_to_tox_def)
qed

lemma path_handle_frame:
  assumes "tun_path t0 t" and "fl_emitted (tn_flow t) \<le> tn_emitted_high t"
    and "handle_frame fuel env f t = Some u"
  shows "tun_path t0 u"
proof -
  have cl: "tun_path t0 u" if "handle_tunnel_close_frame fuel env t = Some u"
    using path_close_frame [OF assms(1) that] .
  have ack: "tun_path t0 u" if "handle_tunnel_ack_frame fuel env f t = Some u"
    using path_ack_frame [OF assms(1,2) that] .
  from assms(1,3) cl ack show ?thesis
    by (auto simp: handle_frame_def split: if_splits FrameType.splits intro: path_intros)
qed

lemma path_configure_coalesce:
  assumes "tun_path t0 t" and "configure_coalesce fuel env d b t = Some u"
  shows "tun_path t0 u"
proof -
  let ?c = "if b = 0 \<or> b > kMaxTcpPayloadPerToxFrame then kMaxTcpPayloadPerToxFrame else b"
  have "0 < ?c" "?c \<le> kMaxTcpPayloadPerToxFrame"
    by (auto simp: kMaxTcpPayloadPerToxFrame_def)
  then have p: "tun_path t0 (store_coalesce d ?c t)"
    by (intro path_step [OF assms(1) st_coalesce])
  with assms(2) path_kick [OF p] show ?thesis
    by (auto simp: configure_coalesce_def Let_def split: if_splits)
qed

lemma path_timer:
  assumes "tun_path t0 t" and "fire_then_kick fuel env fire t = Some u"
    and "\<And>b t1. fire t = (b, t1) \<Longrightarrow> tun_path t0 t1"
  shows "tun_path t0 u"
proof -
  obtain b t1 where r: "fire t = (b, t1)" by fastforce
  have "tun_path t0 t1" by (rule assms(3) [OF r])
  with assms(2) r path_kick show ?thesis by (auto simp: fire_then_kick_def split: bool.splits)
qed

section \<open>Calls\<close>

text \<open>
  The entry points of a tunnel: every public member function that changes its state and every timer
  handler, except \<open>reset_statistics\<close>, which nothing in the program calls, and the two hooks of the unit
  tests, \<open>set_clock_for_test\<close> and \<open>set_terminal_claim_test_hook\<close>. The callbacks are installed by one
  call, which says for each of the three that carry bytes whether it is present.
\<close>

datatype TunnelCall =
    Call_open string u16
  | Call_publish_connected
  | Call_close
  | Call_close_for_timeout
  | Call_force_close ResourceRelease
  | Call_close_gate
  | Call_frame ProtocolFrame
  | Call_tcp_data "byte list"
  | Call_tcp_eof
  | Call_tcp_writable
  | Call_send_data "byte list"
  | Call_send_error byte string
  | Call_fail_locally byte string
  | Call_flush
  | Call_configure_coalesce nat nat
  | Call_set_mode CoalesceMode
  | Call_configure_flow BdpConfig
  | Call_set_ack_threshold nat
  | Call_set_open_timeout int
  | Call_set_state State
  | Call_observe_rtt int
  | Call_observe_bandwidth int
  | Call_cancel_close_retry
  | Call_set_target string u16
  | Call_set_tcp bool
  | Call_set_callbacks bool bool bool
  | Call_set_on_id_releasable
  | Timer_flush nat
  | Timer_close_retry nat
  | Timer_error_retry nat
  | Timer_ack_retry nat
  | Timer_open_retry nat
  | Timer_open_deadline nat

fun exec_call :: "nat \<Rightarrow> TunnelEnv \<Rightarrow> TunnelCall \<Rightarrow> Tunnel \<Rightarrow> Tunnel option" where
  "exec_call fuel env (Call_open host port) t = map_option snd (open_tunnel fuel env host port t)"
| "exec_call fuel env Call_publish_connected t = Some (snd (try_publish_connected t))"
| "exec_call fuel env Call_close t = close_tunnel fuel env t"
| "exec_call fuel env Call_close_for_timeout t = close_for_timeout fuel env t"
| "exec_call fuel env (Call_force_close r) t = force_close fuel env r t"
| "exec_call fuel env Call_close_gate t = Some (close_outbound_gate t)"
| "exec_call fuel env (Call_frame f) t = handle_frame fuel env f t"
| "exec_call fuel env (Call_tcp_data data) t = on_tcp_data_received fuel env data t"
| "exec_call fuel env Call_tcp_eof t = on_tcp_read_eof fuel env t"
| "exec_call fuel env Call_tcp_writable t = Some (snd (notify_tcp_writable env t))"
| "exec_call fuel env (Call_send_data data) t = map_option snd (send_data_to_tox fuel env data t)"
| "exec_call fuel env (Call_send_error c d) t = send_error fuel env c d t"
| "exec_call fuel env (Call_fail_locally c d) t = Some (fail_locally c d t)"
| "exec_call fuel env Call_flush t = flush_pending_writes fuel env t"
| "exec_call fuel env (Call_configure_coalesce d b) t = configure_coalesce fuel env d b t"
| "exec_call fuel env (Call_set_mode m) t = Some (set_coalesce_mode m t)"
| "exec_call fuel env (Call_configure_flow cfg) t = Some (configure_flow_control cfg t)"
| "exec_call fuel env (Call_set_ack_threshold n) t = Some (set_ack_threshold n t)"
| "exec_call fuel env (Call_set_open_timeout n) t = Some (set_open_timeout n t)"
| "exec_call fuel env (Call_set_state s) t = Some (set_state s t)"
| "exec_call fuel env (Call_observe_rtt rtt) t = Some (tunnel_observe_rtt rtt (te_now env (tn_events t)) t)"
| "exec_call fuel env (Call_observe_bandwidth bps) t = Some (tunnel_observe_bandwidth bps t)"
| "exec_call fuel env Call_cancel_close_retry t = Some (cancel_close_retry t)"
| "exec_call fuel env (Call_set_target h p) t = Some (set_target h p t)"
| "exec_call fuel env (Call_set_tcp b) t = Some (set_tcp_connection b t)"
| "exec_call fuel env (Call_set_callbacks a b c) t = Some (set_callbacks a b c t)"
| "exec_call fuel env Call_set_on_id_releasable t = Some (set_on_id_releasable t)"
| "exec_call fuel env (Timer_flush n) t = fire_then_kick fuel env (coalesce_timer_fire n) t"
| "exec_call fuel env (Timer_close_retry n) t = fire_then_kick fuel env (close_retry_fire n) t"
| "exec_call fuel env (Timer_error_retry n) t = fire_then_kick fuel env (error_retry_fire n) t"
| "exec_call fuel env (Timer_ack_retry n) t = Some (ack_retry_fire env n t)"
| "exec_call fuel env (Timer_open_retry n) t = open_retry_fire fuel env n t"
| "exec_call fuel env (Timer_open_deadline n) t = open_deadline_fire fuel env n t"

lemma path_open_retry_fire:
  assumes "tun_path t0 t" and "open_retry_fire fuel env n t = Some u"
  shows "tun_path t0 u"
proof -
  have "tun_path t0 (disarm_open_retry t)" using assms(1) by (rule path_intros)
  with assms path_retry_open show ?thesis by (auto simp: open_retry_fire_def split: if_splits)
qed

lemma path_call:
  assumes "tun_path t0 t" and "fl_emitted (tn_flow t) \<le> tn_emitted_high t"
    and "exec_call fuel env c t = Some u"
  shows "tun_path t0 u"
proof -
  note p = assms(1) and e = assms(3)
  have setcb: "tun_path t0 (t\<lparr>tn_id_cb := True\<rparr>)" by (rule path_step [OF p st_set_id_cb])
  have flush: "tun_path t0 t1" if "coalesce_timer_fire n t = (b, t1)" for n b t1
    by (rule path_snd [OF p st_flush_fire that])
  have clf: "tun_path t0 t1" if "close_retry_fire n t = (b, t1)" for n b t1
    by (rule path_snd [OF p st_close_fire that])
  have erf: "tun_path t0 t1" if "error_retry_fire n t = (b, t1)" for n b t1
    by (rule path_snd [OF p st_error_fire that])
  have ack: "tun_path t0 (snd (send_ack env (disarm_ack_timer t)))"
    using p by (intro path_intros)
  show ?thesis
    using e p
    by (cases c)
      (auto simp: try_publish_connected_def notify_tcp_writable_def set_on_id_releasable_def set_state_def
          force_close_def ack_retry_fire_def open_deadline_fire_def expire_open_deadline_def
          terminal_def ack split: if_splits
        intro: path_intros setcb path_open [OF p] path_close [OF p] path_close_for_timeout [OF p]
          path_force_close [OF p] path_handle_frame [OF p assms(2)] path_tcp_data [OF p]
          path_read_eof [OF p] path_send_data [OF p] path_send_error [OF p] path_flush [OF p]
          path_configure_coalesce [OF p] path_open_retry_fire [OF p]
          path_timer [OF p _ flush] path_timer [OF p _ clf] path_timer [OF p _ erf])
qed

end
