(* ===== verification/Tunnel_Stream.thy ===== *)
theory Tunnel_Stream
  imports Tunnel_Steps
begin

text \<open>
  The outbound byte stream of a tunnel under every interleaving: the invariant that the DATA bytes
  the transport has taken, followed by the bytes still in the FIFO, are exactly the bytes accepted
  from the local side, in order, until an Abort abandons the rest; that every frame fits a Tox
  packet; and that the closed gate and the Abort seal are one. The bytes are those the peer decodes
  from the messages (\<open>wire_data\<close>), so the invariant spans the codec and the driver.
\<close>

section \<open>What the peer reads from the wire\<close>

text \<open>The DATA payload and the frame type the peer decodes from a message.\<close>

definition wire_data :: "byte list \<Rightarrow> byte list" where
  "wire_data w = (case deserialize w of Inr f \<Rightarrow> as_tunnel_data f | Inl _ \<Rightarrow> [])"

definition wire_type :: "byte list \<Rightarrow> FrameType option" where
  "wire_type w = (case deserialize w of Inr f \<Rightarrow> Some (fr_type f) | Inl _ \<Rightarrow> None)"

fun event_data :: "TunnelEvent \<Rightarrow> byte list" where
  "event_data (EvSend w SO_Sent) = wire_data w"
| "event_data _ = []"

definition sent_data :: "TunnelEvent list \<Rightarrow> byte list" where
  "sent_data evs = concat (map event_data evs)"

lemma sent_data_simps [simp]:
  "sent_data [] = []"
  "sent_data (evs @ [ev]) = sent_data evs @ event_data ev"
  by (simp_all add: sent_data_def)

lemma event_data_not_send [simp]: "\<not> is_send ev \<Longrightarrow> event_data ev = []"
  by (cases ev) auto

lemma as_tunnel_data_wire_frame:
  "as_tunnel_data (wire_frame t i body) = (if t = TUNNEL_DATA then body else [])"
  by (simp add: as_tunnel_data_def wire_frame_def new_frame_def)

lemma wire_data_serialize:
  "wire_data (serialize f) = (if fr_type f = TUNNEL_DATA then take 65535 (payload_view f) else [])"
  using deserialize_serialize [of f "[]"] by (simp add: wire_data_def as_tunnel_data_wire_frame)

lemma wire_type_serialize [simp]: "wire_type (serialize f) = Some (fr_type f)"
  using deserialize_serialize [of f "[]"] by (simp add: wire_type_def)

lemma make_frame_types [simp]:
  "fr_type (make_tunnel_data i p) = TUNNEL_DATA"
  "fr_type (make_tunnel_close i) = TUNNEL_CLOSE"
  "fr_type (make_tunnel_error i c d) = TUNNEL_ERROR"
  by (simp_all add: make_tunnel_data_def make_tunnel_close_def make_tunnel_error_def)

lemma wire_data_make_data:
  "length p \<le> 65535 \<Longrightarrow> wire_data (serialize (make_tunnel_data i p)) = p"
  by (simp add: wire_data_serialize payload_view_def make_tunnel_data_def)

lemma wire_data_other: "fr_type f \<noteq> TUNNEL_DATA \<Longrightarrow> wire_data (serialize f) = []"
  by (simp add: wire_data_serialize)

text \<open>Both encodings of a DATA frame are the same message.\<close>

lemma data_wire_owned:
  assumes "length p \<le> 65535"
  shows "drop 1 (fb_wire_view (serialize_tunnel_data_in_place (fb_with_payload p) i))
           = serialize (make_tunnel_data i p)"
proof -
  have st: "fb_storage (fb_with_payload p) \<noteq> None"
    by (simp add: fb_with_payload_def fb_allocate_def Let_def)
  moreover have "fb_payload_used (fb_with_payload p) \<le> kMaxPayloadSize"
    using assms by (simp add: fb_with_payload_def fb_allocate_def Let_def kMaxPayloadSize_def)
  ultimately show "drop 1 (fb_wire_view (serialize_tunnel_data_in_place (fb_with_payload p) i))
           = serialize (make_tunnel_data i p)"
    using in_place_equals_serialize [OF fb_wf_with_payload, of p i] by (simp add: fb_payload_with_payload)
qed

section \<open>The outbound FIFO\<close>

definition fifo_bytes :: "OutboundCohort list \<Rightarrow> byte list" where
  "fifo_bytes q = concat (map (\<lambda>c. drop (co_consumed c) (co_bytes c)) q)"

definition cohort_ok :: "OutboundCohort \<Rightarrow> bool" where
  "cohort_ok c \<longleftrightarrow> co_consumed c \<le> length (co_bytes c) \<and> 0 < co_cap c
     \<and> co_cap c \<le> kMaxTcpPayloadPerToxFrame"

definition front_has :: "nat \<Rightarrow> OutboundCohort list \<Rightarrow> bool" where
  "front_has n q \<longleftrightarrow> q \<noteq> [] \<and> n \<le> cohort_pending (hd q)"

lemma fifo_bytes_simps [simp]:
  "fifo_bytes [] = []"
  "fifo_bytes (c # q) = drop (co_consumed c) (co_bytes c) @ fifo_bytes q"
  "fifo_bytes (q @ r) = fifo_bytes q @ fifo_bytes r"
  by (simp_all add: fifo_bytes_def)

lemma fifo_bytes_pop [simp]: "fifo_bytes (dropWhile (\<lambda>c. cohort_pending c = 0) q) = fifo_bytes q"
  by (induction q) (auto simp: cohort_pending_def)

lemma pop_all_ok: "list_all cohort_ok q \<Longrightarrow> list_all cohort_ok (dropWhile P q)"
  by (auto simp: list_all_iff dest: set_dropWhileD)

lemma front_has_length: "front_has n q \<Longrightarrow> n \<le> length (fifo_bytes q)"
  by (cases q) (auto simp: front_has_def cohort_pending_def)

lemma fifo_append_props:
  assumes "list_all cohort_ok (ob_fifo ob)" and "0 < cap" and "cap \<le> kMaxTcpPayloadPerToxFrame"
  shows "fifo_bytes (ob_fifo (fifo_append data cap ob)) = fifo_bytes (ob_fifo ob) @ data"
    and "list_all cohort_ok (ob_fifo (fifo_append data cap ob))"
    and "front_has n (ob_fifo ob) \<Longrightarrow> front_has n (ob_fifo (fifo_append data cap ob))"
proof -
  consider (empty) "ob_fifo ob = []" | (snoc) q b where "ob_fifo ob = q @ [b]"
    by (metis append_butlast_last_id)
  note cases = this
  show "fifo_bytes (ob_fifo (fifo_append data cap ob)) = fifo_bytes (ob_fifo ob) @ data"
    using assms(1) by (cases rule: cases) (auto simp: fifo_append_def Let_def cohort_ok_def)
  show "list_all cohort_ok (ob_fifo (fifo_append data cap ob))"
    using assms by (cases rule: cases) (auto simp: fifo_append_def Let_def cohort_ok_def)
  show "front_has n (ob_fifo (fifo_append data cap ob))" if "front_has n (ob_fifo ob)"
  proof (cases rule: cases)
    case empty
    with that show ?thesis by (simp add: front_has_def)
  next
    case (snoc q b)
    with that assms(1) show ?thesis
      by (cases q) (auto simp: fifo_append_def Let_def front_has_def cohort_pending_def cohort_ok_def)
  qed
qed

lemma fifo_append_fields [simp]:
  "ob_fifo_pending (fifo_append data cap ob) = ob_fifo_pending ob + length data"
  "ob_driver_active (fifo_append data cap ob) = ob_driver_active ob"
  "ob_abort_published (fifo_append data cap ob) = ob_abort_published ob"
  "ob_max_bytes (fifo_append data cap ob) = ob_max_bytes ob"
  "ob_flush_all_requested (fifo_append data cap ob) = ob_flush_all_requested ob"
  by (simp_all add: fifo_append_def Let_def)

lemma arm_timer_fields [simp]:
  "ob_fifo (coalesce_arm_timer b now ob) = ob_fifo ob"
  "ob_fifo_pending (coalesce_arm_timer b now ob) = ob_fifo_pending ob"
  "ob_driver_active (coalesce_arm_timer b now ob) = ob_driver_active ob"
  "ob_abort_published (coalesce_arm_timer b now ob) = ob_abort_published ob"
  "ob_max_bytes (coalesce_arm_timer b now ob) = ob_max_bytes ob"
  "ob_flush_all_requested (coalesce_arm_timer b now ob) = ob_flush_all_requested ob"
  by (simp_all add: coalesce_arm_timer_def Let_def)

lemma pop_spent_fields [simp]:
  "ob_fifo (pop_spent_cohorts ob) = dropWhile (\<lambda>c. cohort_pending c = 0) (ob_fifo ob)"
  "ob_fifo_pending (pop_spent_cohorts ob) = ob_fifo_pending ob"
  "ob_driver_active (pop_spent_cohorts ob) = ob_driver_active ob"
  "ob_abort_published (pop_spent_cohorts ob) = ob_abort_published ob"
  "ob_max_bytes (pop_spent_cohorts ob) = ob_max_bytes ob"
  "ob_flush_all_requested (pop_spent_cohorts ob) = ob_flush_all_requested ob"
  by (simp_all add: pop_spent_cohorts_def)

lemma consume_front_fields [simp]:
  "ob_driver_active (consume_front n ob) = ob_driver_active ob"
  "ob_abort_published (consume_front n ob) = ob_abort_published ob"
  "ob_max_bytes (consume_front n ob) = ob_max_bytes ob"
  "ob_fifo ob = [] \<Longrightarrow> consume_front n ob = ob"
  by (simp_all add: consume_front_def Let_def split: list.split)

lemma consume_front_props:
  assumes "list_all cohort_ok (ob_fifo ob)" and "front_has n (ob_fifo ob)"
  shows "fifo_bytes (ob_fifo (consume_front n ob)) = drop n (fifo_bytes (ob_fifo ob))"
    and "list_all cohort_ok (ob_fifo (consume_front n ob))"
    and "ob_fifo_pending (consume_front n ob) = ob_fifo_pending ob - n"
  using assms
  by (cases "ob_fifo ob"; auto simp: consume_front_def Let_def front_has_def cohort_pending_def
      cohort_ok_def add.commute)+
section \<open>The stream invariant\<close>

text \<open>
  What the invariant looks at: the FIFO, its cached size, the driver flag, the seal, the configured
  cap, the gate, the driver's position, the DATA bytes the transport took and the bytes accepted.
\<close>

record StreamView =
  sv_fifo :: "OutboundCohort list"
  sv_pending :: nat
  sv_active :: bool
  sv_abort :: bool
  sv_max_bytes :: nat
  sv_gate :: bool
  sv_pc :: DriverPc
  sv_sent :: "byte list"
  sv_accepted :: "byte list"

definition stream_view :: "Tunnel \<Rightarrow> StreamView" where
  "stream_view t =
     \<lparr>sv_fifo = ob_fifo (tn_out t), sv_pending = ob_fifo_pending (tn_out t),
      sv_active = ob_driver_active (tn_out t), sv_abort = ob_abort_published (tn_out t),
      sv_max_bytes = ob_max_bytes (tn_out t), sv_gate = tn_gate_closed t, sv_pc = tn_pc t,
      sv_sent = sent_data (tn_events t), sv_accepted = tn_accepted t\<rparr>"

text \<open>A selected frame: the next bytes of the stream, at the front of the FIFO unless it was aborted.\<close>

definition selected_ok :: "byte list \<Rightarrow> StreamView \<Rightarrow> bool" where
  "selected_ok p v \<longleftrightarrow>
     p \<noteq> [] \<and> length p \<le> kMaxTcpPayloadPerToxFrame \<and> prefix (sv_sent v @ p) (sv_accepted v)
     \<and> (\<not> sv_abort v \<longrightarrow> front_has (length p) (sv_fifo v)
          \<and> p = take (length p) (fifo_bytes (sv_fifo v))
          \<and> sv_sent v @ fifo_bytes (sv_fifo v) = sv_accepted v)"

definition position_ok :: "StreamView \<Rightarrow> bool" where
  "position_ok v =
     (case sv_pc v of
        DP_Data p _ _ \<Rightarrow> selected_ok p v
      | DP_DataAuth p _ _ \<Rightarrow> selected_ok p v
      | DP_DataCounted p _ _ _ \<Rightarrow> selected_ok p v
      | DP_DataDone n _ _ sent \<Rightarrow>
          0 < n \<and> n \<le> kMaxTcpPayloadPerToxFrame
          \<and> (\<not> sv_abort v \<longrightarrow> front_has n (sv_fifo v)
               \<and> sv_sent v @ (if sent then drop n (fifo_bytes (sv_fifo v)) else fifo_bytes (sv_fifo v))
                   = sv_accepted v)
      | _ \<Rightarrow> \<not> sv_abort v \<longrightarrow> sv_sent v @ fifo_bytes (sv_fifo v) = sv_accepted v)"

definition stream_ok :: "StreamView \<Rightarrow> bool" where
  "stream_ok v \<longleftrightarrow>
     list_all cohort_ok (sv_fifo v) \<and> sv_pending v = length (fifo_bytes (sv_fifo v))
     \<and> 0 < sv_max_bytes v \<and> sv_max_bytes v \<le> kMaxTcpPayloadPerToxFrame
     \<and> (sv_gate v \<longrightarrow> sv_abort v) \<and> (sv_abort v \<longrightarrow> sv_fifo v = [])
     \<and> (sv_active v \<longleftrightarrow> sv_pc v \<noteq> DP_Idle)
     \<and> prefix (sv_sent v) (sv_accepted v) \<and> position_ok v"

definition stream_inv :: "Tunnel \<Rightarrow> bool" where
  "stream_inv t \<longleftrightarrow> stream_ok (stream_view t)"

subsection \<open>The sections that do not touch the stream\<close>

named_theorems view_simps \<open>sections that leave a view alone\<close>

lemma stream_view_log [view_simps]:
  "\<not> is_send ev \<Longrightarrow> stream_view (log_event ev t) = stream_view t"
  by (simp add: stream_view_def log_event_def)

lemma stream_view_notify [view_simps]:
  "stream_view (store_state s t) = stream_view t"
  "stream_view (cancel_open_deadline t) = stream_view t"
  "stream_view (arm_open_deadline_timer t) = stream_view t"
  "stream_view (book_close_once r t) = stream_view t"
  "stream_view (notify_close_once t) = stream_view t"
  "stream_view (maybe_notify_id_releasable t) = stream_view t"
  "stream_view (t\<lparr>tn_id_cb := b\<rparr>) = stream_view t"
  by (simp_all add: stream_view_def store_state_def cancel_open_deadline_def
      arm_open_deadline_timer_def book_close_once_def notify_close_once_def log_event_def
      maybe_notify_id_releasable_def)

lemma stream_view_close [view_simps]:
  "stream_view (note_close_owed t) = stream_view t"
  "stream_view (abandon_close t) = stream_view t"
  "stream_view (fence_close_retry t) = stream_view t"
  "stream_view (snd (request_close t)) = stream_view t"
  "stream_view (snd (close_retry_fire epoch t)) = stream_view t"
  "stream_view (snd (mark_local_close t)) = stream_view t"
  "stream_view (snd (defer_close t)) = stream_view t"
  "stream_view (snd (half_close t)) = stream_view t"
  "stream_view (snd (note_remote_close t)) = stream_view t"
  by (simp_all add: stream_view_def note_close_owed_def abandon_close_def fence_close_retry_def
      request_close_def close_retry_fire_def mark_local_close_def defer_close_def half_close_def
      note_remote_close_def Let_def)

lemma stream_view_open [view_simps]:
  "stream_view (snd (cancel_open_retry t)) = stream_view t"
  "stream_view (set_target host port t) = stream_view t"
  "stream_view (reset_open_phase t) = stream_view t"
  "stream_view (snd (begin_open_send t)) = stream_view t"
  "stream_view (count_open_attempt t) = stream_view t"
  "stream_view (snd (resolve_open_send v t)) = stream_view t"
  "stream_view (arm_open_retry_timer t) = stream_view t"
  "stream_view (disarm_open_retry t) = stream_view t"
  by (simp_all add: stream_view_def cancel_open_retry_def set_target_def reset_open_phase_def
      begin_open_send_def count_open_attempt_def resolve_open_send_def arm_open_retry_timer_def
      disarm_open_retry_def note_close_owed_def Let_def split: OpenPhase.split)

lemma stream_view_error [view_simps]:
  "stream_view (snd (settle_error_for_shutdown t)) = stream_view t"
  "stream_view (lower_error_fence t) = stream_view t"
  "stream_view (snd (record_arrival party defer t)) = stream_view t"
  "stream_view (clear_finalize_pending t) = stream_view t"
  "stream_view (snd (error_retry_fire epoch t)) = stream_view t"
  "stream_view (set_last_error code desc t) = stream_view t"
  by (simp_all add: stream_view_def settle_error_for_shutdown_def lower_error_fence_def
      record_arrival_def clear_finalize_pending_def error_retry_fire_def set_last_error_def Let_def
      split: ErrorSettleParty.split)

lemma stream_view_flow [view_simps]:
  "stream_view (cancel_flush_timer t) = stream_view t"
  "stream_view (snd (coalesce_timer_fire epoch t)) = stream_view t"
  "stream_view (snd (reserve_window w n t)) = stream_view t"
  "stream_view (bump_activity now t) = stream_view t"
  "stream_view (snd (observe_push now n t)) = stream_view t"
  "stream_view (count_sent n t) = stream_view t"
  "stream_view (set_timeout_close t) = stream_view t"
  "stream_view (snd (take_resources t)) = stream_view t"
  "stream_view (release_socket drain t) = stream_view t"
  "stream_view (snd (take_ack_credit t)) = stream_view t"
  "stream_view (restore_ack_credit n t) = stream_view t"
  "stream_view (arm_ack_retry_timer t) = stream_view t"
  "stream_view (disarm_ack_timer t) = stream_view t"
  by (simp_all add: stream_view_def cancel_flush_timer_def coalesce_timer_fire_def
      reserve_window_def bump_activity_def observe_push_def count_sent_def set_timeout_close_def
      take_resources_def release_socket_def take_ack_credit_def restore_ack_credit_def
      arm_ack_retry_timer_def disarm_ack_timer_def log_event_def Let_def split: prod.split)

lemma stream_view_tcp [view_simps]:
  "stream_view (queue_tcp_input data t) = stream_view t"
  "stream_view (advance_tcp_cursor n t) = stream_view t"
  "stream_view (defer_tcp_eof t) = stream_view t"
  "stream_view (snd (take_pending_eof t)) = stream_view t"
  "stream_view (count_received n t) = stream_view t"
  "stream_view (snd (credit_ack emitted bytes t)) = stream_view t"
  "stream_view (release_window n t) = stream_view t"
  "stream_view (feed_flow_control tot now t) = stream_view t"
  "stream_view (set_coalesce_mode m t) = stream_view t"
  "stream_view (configure_flow_control cfg t) = stream_view t"
  "stream_view (set_ack_threshold n t) = stream_view t"
  "stream_view (set_open_timeout secs t) = stream_view t"
  "stream_view (tunnel_observe_rtt rtt now t) = stream_view t"
  "stream_view (tunnel_observe_bandwidth bps t) = stream_view t"
  "stream_view (set_tcp_connection b t) = stream_view t"
  "stream_view (set_callbacks sp ow tcp t) = stream_view t"
  by (simp_all add: stream_view_def queue_tcp_input_def advance_tcp_cursor_def defer_tcp_eof_def
      take_pending_eof_def count_received_def credit_ack_def release_window_def
      feed_flow_control_def set_coalesce_mode_def configure_flow_control_def set_ack_threshold_def
      set_open_timeout_def tunnel_observe_rtt_def tunnel_observe_bandwidth_def
      set_tcp_connection_def set_callbacks_def Let_def split: prod.split)

subsection \<open>The sections that do\<close>

lemma stream_inv_abort: "stream_inv t \<Longrightarrow> stream_inv (publish_abort t)"
  by (auto simp: stream_inv_def stream_ok_def position_ok_def selected_ok_def stream_view_def
      publish_abort_def split: DriverPc.splits)

lemma stream_view_claim_error:
  "stream_view (snd (claim_terminal_error wire t)) = stream_view (publish_abort t)"
  by (simp add: stream_view_def claim_terminal_error_def publish_abort_def Let_def)

lemma stream_inv_gate: "stream_inv t \<Longrightarrow> stream_inv (snd (seal_gate t))"
  by (auto simp: stream_inv_def stream_ok_def position_ok_def selected_ok_def stream_view_def
      seal_gate_def settle_error_for_shutdown_def publish_abort_def Let_def split: DriverPc.splits)

lemma stream_inv_enter: "stream_inv t \<Longrightarrow> stream_inv (snd (driver_enter policy t))"
  by (auto simp: stream_inv_def stream_ok_def position_ok_def stream_view_def driver_enter_def
      Let_def split: DriverPc.splits)

lemma stream_inv_coalesce:
  "stream_inv t \<Longrightarrow> 0 < c \<Longrightarrow> c \<le> kMaxTcpPayloadPerToxFrame \<Longrightarrow> stream_inv (store_coalesce d c t)"
  by (auto simp: stream_inv_def stream_ok_def position_ok_def selected_ok_def stream_view_def
      store_coalesce_def split: DriverPc.splits)

lemma admit_accepts:
  assumes "\<not> ob_abort_published (tn_out t)"
  obtains cap where "cap = kMaxTcpPayloadPerToxFrame \<or> cap = ob_max_bytes (tn_out t)"
    and "stream_view (snd (admit_data policy now data t)) =
           (stream_view t)\<lparr>sv_fifo := ob_fifo (fifo_append data cap (tn_out t)),
             sv_pending := ob_fifo_pending (tn_out t) + length data,
             sv_accepted := tn_accepted t @ data\<rparr>"
proof -
  let ?cap = "if ob_max_delay_us (tn_out t) = 0 \<or> policy = CP_Bypass
              then kMaxTcpPayloadPerToxFrame else ob_max_bytes (tn_out t)"
  show ?thesis
    by (rule that [of ?cap]) (use assms in \<open>auto simp: stream_view_def admit_data_def Let_def\<close>)
qed

lemma stream_ok_append:
  assumes ok: "stream_ok v" and "\<not> sv_abort v"
    and q: "fifo_bytes q = fifo_bytes (sv_fifo v) @ data" "list_all cohort_ok q"
      "\<And>n. front_has n (sv_fifo v) \<Longrightarrow> front_has n q"
  shows "stream_ok (v\<lparr>sv_fifo := q, sv_pending := sv_pending v + length data,
                       sv_accepted := sv_accepted v @ data\<rparr>)"
  using assms front_has_length
  by (auto simp: stream_ok_def position_ok_def selected_ok_def prefix_def take_append
      split: DriverPc.splits dest: front_has_length)

lemma stream_inv_admit:
  assumes "stream_inv t"
  shows "stream_inv (snd (admit_data policy now data t))"
proof (cases "ob_abort_published (tn_out t)")
  case True
  then have "stream_view (snd (admit_data policy now data t)) = stream_view t"
    by (simp add: stream_view_def admit_data_def Let_def)
  with assms show ?thesis by (simp add: stream_inv_def)
next
  case False
  obtain cap where cap: "cap = kMaxTcpPayloadPerToxFrame \<or> cap = ob_max_bytes (tn_out t)"
    and v: "stream_view (snd (admit_data policy now data t)) =
           (stream_view t)\<lparr>sv_fifo := ob_fifo (fifo_append data cap (tn_out t)),
             sv_pending := ob_fifo_pending (tn_out t) + length data,
             sv_accepted := tn_accepted t @ data\<rparr>"
    by (rule admit_accepts [OF False])
  have ok: "stream_ok (stream_view t)" using assms by (simp add: stream_inv_def)
  then have "list_all cohort_ok (ob_fifo (tn_out t))" "0 < cap" "cap \<le> kMaxTcpPayloadPerToxFrame"
    using cap by (auto simp: stream_ok_def stream_view_def kMaxTcpPayloadPerToxFrame_def)
  note app = fifo_append_props [OF this, where data = data]
  have "stream_ok ((stream_view t)\<lparr>sv_fifo := ob_fifo (fifo_append data cap (tn_out t)),
      sv_pending := sv_pending (stream_view t) + length data,
      sv_accepted := sv_accepted (stream_view t) @ data\<rparr>)"
    by (rule stream_ok_append [OF ok]) (use False app in \<open>simp_all add: stream_view_def\<close>)
  then show ?thesis unfolding stream_inv_def v by (simp add: stream_view_def)
qed

subsection \<open>The driver\<close>

lemma dropWhile_front:
  "dropWhile (\<lambda>c. cohort_pending c = 0) q \<noteq> [] \<Longrightarrow>
     0 < cohort_pending (hd (dropWhile (\<lambda>c. cohort_pending c = 0) q))"
  using hd_dropWhile [of "\<lambda>c. cohort_pending c = 0" q] by simp

lemma frame_size_bounds:
  assumes "data_frame_size ob = Some n" and "ob_fifo ob \<noteq> []" and "0 < cohort_pending (hd (ob_fifo ob))"
    and "cohort_ok (hd (ob_fifo ob))"
  shows "0 < n" and "n \<le> kMaxTcpPayloadPerToxFrame" and "front_has n (ob_fifo ob)"
  using assms
  by (auto simp: data_frame_size_def Let_def cohort_ok_def front_has_def split: if_splits)

lemma front_slice:
  assumes "front_has n q"
  shows "take n (drop (co_consumed (hd q)) (co_bytes (hd q))) = take n (fifo_bytes q)"
    and "length (take n (drop (co_consumed (hd q)) (co_bytes (hd q)))) = n"
  using assms by (cases q; auto simp: front_has_def cohort_pending_def)+

text \<open>The outcomes of a selection.\<close>

lemma driver_select_cases [case_names Error Data Remainder Close Empty]:
  fixes arm now t
  defines "ob \<equiv> pop_spent_cohorts (tn_out t)"
  obtains
    (Error) "es_pending (tn_err t) \<noteq> None" "\<not> es_retry_armed (tn_err t)"
      "\<not> es_attempt_in_flight (tn_err t)"
      "driver_select arm now t =
         (t\<lparr>tn_err := (tn_err t)\<lparr>es_attempt_in_flight := True\<rparr>,
            tn_pc := DP_Error (pe_wire (the (es_pending (tn_err t))))\<rparr>, Selected)"
  | (Data) n where
      "\<not> (es_pending (tn_err t) \<noteq> None \<and> \<not> es_retry_armed (tn_err t)
          \<and> \<not> es_attempt_in_flight (tn_err t))"
      "ob_fifo ob \<noteq> []" "data_frame_size ob = Some n"
      "driver_select arm now t =
         (t\<lparr>tn_out := ob,
            tn_pc := DP_Data (take n (drop (co_consumed (hd (ob_fifo ob))) (co_bytes (hd (ob_fifo ob)))))
                       (tn_owned_cb t) (ob_fifo_pending ob > n)\<rparr>, Selected)"
  | (Remainder) u where
      "\<not> (es_pending (tn_err t) \<noteq> None \<and> \<not> es_retry_armed (tn_err t)
          \<and> \<not> es_attempt_in_flight (tn_err t))"
      "ob_fifo ob \<noteq> []" "data_frame_size ob = None"
      "u = t\<lparr>tn_out := (if arm then coalesce_arm_timer False now ob else ob)\<rparr>"
      "driver_select arm now t =
         (if control_obligation_eligible u then (u, Again)
          else (leave_driver u, Exit EO_RequestSatisfied False False False))"
  | (Close)
      "\<not> (es_pending (tn_err t) \<noteq> None \<and> \<not> es_retry_armed (tn_err t)
          \<and> \<not> es_attempt_in_flight (tn_err t))"
      "ob_fifo ob = []" "cf_emit_requested (tn_close t)" "cf_state (tn_close t) = CF_Owed"
      "\<not> cf_retry_cancelled (tn_close t)" "\<not> es_claimed (tn_err t)"
      "driver_select arm now t =
         (t\<lparr>tn_out := ob,
            tn_close := (tn_close t)\<lparr>cf_state := CF_InFlight, cf_emit_requested := False\<rparr>,
            tn_pc := DP_Close\<rparr>, Selected)"
  | (Empty) u where
      "\<not> (es_pending (tn_err t) \<noteq> None \<and> \<not> es_retry_armed (tn_err t)
          \<and> \<not> es_attempt_in_flight (tn_err t))"
      "ob_fifo ob = []" "u = t\<lparr>tn_out := ob\<rparr>"
      "\<not> (cf_emit_requested (tn_close t) \<and> cf_state (tn_close t) = CF_Owed
          \<and> \<not> cf_retry_cancelled (tn_close t) \<and> \<not> es_claimed (tn_err t))"
      "driver_select arm now t =
         (if control_obligation_eligible u then (u, Again) else drain_complete u)"
proof (cases "es_pending (tn_err t) \<noteq> None \<and> \<not> es_retry_armed (tn_err t)
    \<and> \<not> es_attempt_in_flight (tn_err t)")
  case True
  then show ?thesis by (intro Error) (simp_all add: driver_select_def Let_def)
next
  case no_err: False
  show ?thesis
  proof (cases "ob_fifo ob = []")
    case True
    show ?thesis
    proof (cases "cf_emit_requested (tn_close t) \<and> cf_state (tn_close t) = CF_Owed
        \<and> \<not> cf_retry_cancelled (tn_close t) \<and> \<not> es_claimed (tn_err t)")
      case req: True
      then show ?thesis
        by (intro Close) (use no_err True in \<open>auto simp: driver_select_def Let_def ob_def\<close>)
    next
      case req: False
      show ?thesis
        by (rule Empty [OF no_err True refl req])
          (use no_err True req in \<open>auto simp: driver_select_def Let_def ob_def\<close>)
    qed
  next
    case False
    show ?thesis
    proof (cases "data_frame_size ob")
      case None
      show ?thesis
        by (rule Remainder [OF no_err False None refl])
          (use no_err False None in \<open>auto simp: driver_select_def Let_def ob_def\<close>)
    next
      case (Some n)
      show ?thesis
        by (rule Data [OF no_err False Some])
          (use no_err False Some in \<open>auto simp: driver_select_def Let_def ob_def\<close>)
    qed
  qed
qed

lemma drain_complete_view:
  "stream_view (fst (drain_complete t)) = (stream_view t)\<lparr>sv_active := False, sv_pc := DP_Idle\<rparr>"
  by (simp add: stream_view_def drain_complete_def stop_driver_def Let_def)

lemma stream_ok_idle:
  "stream_ok v \<Longrightarrow> sv_pc v = DP_Head \<Longrightarrow> stream_ok (v\<lparr>sv_active := False, sv_pc := DP_Idle\<rparr>)"
  by (auto simp: stream_ok_def position_ok_def)

lemma stream_ok_control:
  assumes "stream_ok v" and "sv_pc v = DP_Head"
    and "pc = DP_Head \<or> pc = DP_Close \<or> pc = DP_Error w"
  shows "stream_ok (v\<lparr>sv_pc := pc\<rparr>)"
  using assms by (auto simp: stream_ok_def position_ok_def)

lemma stream_ok_pop:
  assumes "stream_ok v" and "sv_pc v = DP_Head"
  shows "stream_ok (v\<lparr>sv_fifo := dropWhile (\<lambda>c. cohort_pending c = 0) (sv_fifo v)\<rparr>)"
  using assms pop_all_ok by (auto simp: stream_ok_def position_ok_def)

lemma stream_ok_select:
  assumes "stream_ok v" and "sv_pc v = DP_Head" and "front_has n (sv_fifo v)"
    and "0 < n" and "n \<le> kMaxTcpPayloadPerToxFrame" and "\<not> sv_abort v"
    and "p = take n (fifo_bytes (sv_fifo v))"
  shows "stream_ok (v\<lparr>sv_pc := DP_Data p zc q\<rparr>)"
proof -
  have acc: "sv_sent v @ fifo_bytes (sv_fifo v) = sv_accepted v"
    using assms(1,2,6) by (simp add: stream_ok_def position_ok_def)
  have len: "length p = n" using front_has_length [OF assms(3)] assms(7) by simp
  have "prefix (sv_sent v @ p) (sv_accepted v)"
    unfolding acc [symmetric] assms(7) by (simp add: take_is_prefix)
  then show ?thesis
    using assms len by (auto simp: stream_ok_def position_ok_def selected_ok_def)
qed

lemma stream_inv_select:
  assumes inv: "stream_inv t" and pc: "tn_pc t = DP_Head"
  shows "stream_inv (fst (driver_select arm now t))"
proof -
  let ?v = "stream_view t"
  let ?ob = "pop_spent_cohorts (tn_out t)"
  let ?w = "?v\<lparr>sv_fifo := ob_fifo ?ob\<rparr>"
  have ok: "stream_ok ?v" and vpc: "sv_pc ?v = DP_Head"
    using inv pc by (simp_all add: stream_inv_def stream_view_def)
  have okw: "stream_ok ?w"
    using stream_ok_pop [OF ok vpc] by (simp add: stream_view_def)
  have wpc: "sv_pc ?w = DP_Head" using vpc by simp
  show ?thesis
  proof (cases rule: driver_select_cases [where arm = arm and now = now and t = t])
    case Error
    then have "stream_view (fst (driver_select arm now t))
        = ?v\<lparr>sv_pc := DP_Error (pe_wire (the (es_pending (tn_err t))))\<rparr>"
      by (simp add: stream_view_def)
    with stream_ok_control [OF ok vpc] show ?thesis by (simp add: stream_inv_def)
  next
    case (Data n)
    have "cohort_ok (hd (ob_fifo ?ob))"
      using okw Data(2) by (auto simp: stream_ok_def list_all_iff)
    note b = frame_size_bounds [OF Data(3,2) _ this]
    have pos: "0 < cohort_pending (hd (ob_fifo ?ob))"
      using Data(2) dropWhile_front by simp
    have "\<not> sv_abort ?w"
      using okw Data(2) by (auto simp: stream_ok_def)
    then have "stream_ok (?w\<lparr>sv_pc := DP_Data (take n (fifo_bytes (sv_fifo ?w)))
        (tn_owned_cb t) (ob_fifo_pending ?ob > n)\<rparr>)"
      using b [OF pos] by (intro stream_ok_select [OF okw wpc]) simp_all
    moreover have "stream_view (fst (driver_select arm now t)) =
        ?w\<lparr>sv_pc := DP_Data (take n (fifo_bytes (sv_fifo ?w))) (tn_owned_cb t) (ob_fifo_pending ?ob > n)\<rparr>"
      using Data(4) front_slice(1) [OF b(3) [OF pos]] by (simp add: stream_view_def)
    ultimately show ?thesis by (simp add: stream_inv_def)
  next
    case (Remainder u)
    then have "stream_view (fst (driver_select arm now t))
        = (if control_obligation_eligible u then ?w
           else ?w\<lparr>sv_active := False, sv_pc := DP_Idle\<rparr>)"
      by (simp add: stream_view_def leave_driver_def)
    with okw stream_ok_idle [OF okw wpc] show ?thesis by (simp add: stream_inv_def)
  next
    case Close
    then have "stream_view (fst (driver_select arm now t)) = ?w\<lparr>sv_pc := DP_Close\<rparr>"
      by (simp add: stream_view_def)
    with stream_ok_control [OF okw wpc] show ?thesis by (simp add: stream_inv_def)
  next
    case (Empty u)
    then have "stream_view (fst (driver_select arm now t))
        = (if control_obligation_eligible u then ?w
           else ?w\<lparr>sv_active := False, sv_pc := DP_Idle\<rparr>)"
      using drain_complete_view [of u] by (simp add: stream_view_def)
    with okw stream_ok_idle [OF okw wpc] show ?thesis by (simp add: stream_inv_def)
  qed
qed

subsection \<open>The transport calls and the commits\<close>

lemma send_wire_view:
  assumes "send_wire_to_tox_typed env w t = (v, u)"
  obtains "stream_view u = stream_view t" "tn_gate_closed t \<or> v = SO_PermanentFail"
  | "stream_view u = (stream_view t)\<lparr>sv_sent := sv_sent (stream_view t) @ event_data (EvSend w v)\<rparr>"
proof (cases "tn_gate_closed t \<or> \<not> tn_span_cb t")
  case True
  then show ?thesis using assms that(1) by (auto simp: send_wire_to_tox_typed_def split: if_splits)
next
  case False
  then show ?thesis
    using assms that(2) by (auto simp: send_wire_to_tox_typed_def Let_def stream_view_def log_event_def)
qed

lemma event_data_other: "wire_data w = [] \<Longrightarrow> event_data (EvSend w v) = []"
  by (cases v) simp_all

lemma send_control_view:
  assumes "send_wire_to_tox_typed env w t = (v, u)" and "wire_data w = []"
  shows "stream_view u = stream_view t"
  using send_wire_view [OF assms(1)] event_data_other [OF assms(2), of v] by fastforce

lemma wire_data_error: "error_wire w i \<Longrightarrow> wire_data w = []"
  by (auto simp: error_wire_def wire_data_other) (simp add: wire_data_def deserialize_def kFrameHeaderSize_def)

lemma stream_inv_send_plain:
  assumes "stream_inv t" and "plain_frame f"
  shows "stream_inv (snd (send_frame_to_tox_typed env f t))"
proof -
  have "wire_data (serialize f) = []"
    using assms(2) by (auto simp: plain_frame_def intro: wire_data_other)
  then show ?thesis
    using assms(1) send_control_view [of env "serialize f" t]
    by (metis prod.collapse send_frame_to_tox_typed_def stream_inv_def)
qed

lemma stream_view_set_pc: "stream_view (set_pc p t) = (stream_view t)\<lparr>sv_pc := p\<rparr>"
  by (simp add: stream_view_def set_pc_def)

lemma stream_inv_close_send:
  assumes "stream_inv t" and "tn_pc t = DP_Close"
  shows "stream_inv (close_send env t)"
proof -
  obtain v u where s: "send_frame_to_tox_typed env (make_tunnel_close (tn_id t)) t = (v, u)" by fastforce
  then have "stream_view u = stream_view t"
    using send_control_view [of env "serialize (make_tunnel_close (tn_id t))" t v u]
    by (simp add: send_frame_to_tox_typed_def wire_data_serialize)
  then show ?thesis
    using assms s
    by (simp add: close_send_def stream_inv_def stream_view_set_pc)
      (auto simp: stream_ok_def position_ok_def stream_view_def)
qed

lemma stream_inv_error_send:
  assumes "stream_inv t" and "tn_pc t = DP_Error w" and "wire_data w = []"
  shows "stream_inv (error_send env w t)"
proof -
  obtain v u where s: "send_wire_to_tox_typed env w t = (v, u)" by fastforce
  then have "stream_view u = stream_view t" using assms(3) by (rule send_control_view)
  then show ?thesis
    using assms s
    by (simp add: error_send_def stream_inv_def stream_view_set_pc)
      (auto simp: stream_ok_def position_ok_def stream_view_def)
qed

lemma stream_inv_error_commit:
  "stream_inv t \<Longrightarrow> tn_pc t = DP_ErrorDone v \<Longrightarrow> stream_inv (snd (error_commit v t))"
  by (auto simp: stream_inv_def stream_ok_def position_ok_def stream_view_def error_commit_def
      stop_driver_def set_pc_def Let_def)

lemma stream_inv_close_commit:
  "stream_inv t \<Longrightarrow> tn_pc t = DP_CloseDone v \<Longrightarrow> stream_inv (snd (close_commit v t))"
  by (auto simp: stream_inv_def stream_ok_def position_ok_def stream_view_def close_commit_def
      set_pc_def Let_def)

lemma stream_inv_authorize: "stream_inv t \<Longrightarrow> stream_inv (data_authorize t)"
  by (auto simp: stream_inv_def stream_ok_def position_ok_def selected_ok_def stream_view_def
      data_authorize_def set_pc_def split: DriverPc.splits)

lemma stream_inv_abandon:
  "stream_inv t \<Longrightarrow> tn_pc t = DP_Data p zc q \<Longrightarrow> ob_abort_published (tn_out t) \<Longrightarrow>
     stream_inv (fst (data_abandon t))"
  by (auto simp: stream_inv_def stream_ok_def position_ok_def selected_ok_def stream_view_def
      data_abandon_def stop_driver_def set_pc_def split: DriverPc.splits)

lemma data_count_view:
  "\<exists>eo sa. stream_view (data_count now p zc q t) = (stream_view t)\<lparr>sv_pc := DP_DataCounted p zc eo sa\<rparr>"
  by (auto simp: data_count_def stream_view_def Let_def split: prod.split)

lemma view_pc [simp]: "sv_pc (stream_view t) = tn_pc t" "sv_gate (stream_view t) = tn_gate_closed t"
  "sv_abort (stream_view t) = ob_abort_published (tn_out t)"
  by (simp_all add: stream_view_def)

lemma stream_ok_counted:
  "stream_ok v \<Longrightarrow> sv_pc v = DP_DataAuth p zc q \<Longrightarrow> stream_ok (v\<lparr>sv_pc := DP_DataCounted p zc eo sa\<rparr>)"
  by (simp add: stream_ok_def position_ok_def selected_ok_def)

lemma stream_inv_count:
  assumes "stream_inv t" and "tn_pc t = DP_DataAuth p zc q"
  shows "stream_inv (data_count now p zc q t)"
  using assms data_count_view [of now p zc q t] stream_ok_counted
  by (fastforce simp: stream_inv_def)

text \<open>Whether a DATA send reaches a callback, and what it is given.\<close>

definition data_called :: "byte list \<Rightarrow> bool \<Rightarrow> Tunnel \<Rightarrow> bool" where
  "data_called p zc t \<longleftrightarrow>
     (if zc
      then tn_owned_cb t \<or> (tn_span_cb t \<and>
        fb_storage (serialize_tunnel_data_in_place (fb_with_payload p) (tn_id t)) \<noteq> None \<and>
        length (fb_wire_view (serialize_tunnel_data_in_place (fb_with_payload p) (tn_id t))) > 1)
      else tn_span_cb t)"

lemma data_send_eq:
  assumes "length p \<le> kMaxTcpPayloadPerToxFrame"
  shows "data_send env p zc eo sa t =
     (let w = serialize (make_tunnel_data (tn_id t) p); v = te_tox env (tn_events t) w in
      if tn_gate_closed t then set_pc (DP_DataDone (length p) eo sa True) t
      else if data_called p zc t
      then set_pc (DP_DataDone (length p) eo sa (v = SO_Sent)) (log_event (EvSend w v) t)
      else set_pc (DP_DataDone (length p) eo sa False) t)"
proof -
  have "length p \<le> 65535" using assms by (simp add: kMaxTcpPayloadPerToxFrame_def)
  note w = data_wire_owned [OF this, of "tn_id t"]
  show ?thesis
  proof (cases zc)
    case True
    then show ?thesis
      by (simp only: data_send_def send_owned_data_to_tox_def data_called_def Let_def w if_True
          split: if_split) auto
  next
    case False
    then show ?thesis
      by (simp add: data_send_def send_frame_to_tox_def send_frame_to_tox_typed_def
          send_wire_to_tox_typed_def data_called_def Let_def)
  qed
qed

lemma data_send_view:
  assumes "length p \<le> kMaxTcpPayloadPerToxFrame"
  obtains (unseen) sent where "stream_view (data_send env p zc eo sa t)
        = (stream_view t)\<lparr>sv_pc := DP_DataDone (length p) eo sa sent\<rparr>"
      "sent \<longrightarrow> tn_gate_closed t"
  | (seen) sent where "stream_view (data_send env p zc eo sa t)
        = (stream_view t)\<lparr>sv_pc := DP_DataDone (length p) eo sa sent,
             sv_sent := sv_sent (stream_view t) @ (if sent then p else [])\<rparr>"
proof -
  have len: "length p \<le> 65535" using assms by (simp add: kMaxTcpPayloadPerToxFrame_def)
  let ?w = "serialize (make_tunnel_data (tn_id t) p)"
  let ?v = "te_tox env (tn_events t) ?w"
  have ev: "event_data (EvSend ?w ?v) = (if ?v = SO_Sent then p else [])"
    by (cases ?v) (simp_all add: wire_data_make_data len)
  show ?thesis
  proof (cases "\<not> tn_gate_closed t \<and> data_called p zc t")
    case True
    then have "data_send env p zc eo sa t
        = set_pc (DP_DataDone (length p) eo sa (?v = SO_Sent)) (log_event (EvSend ?w ?v) t)"
      using data_send_eq [OF assms, of env zc eo sa t] by (simp add: Let_def)
    then show ?thesis
      by (intro seen [of "?v = SO_Sent"])
        (use ev in \<open>simp add: stream_view_def set_pc_def log_event_def\<close>)
  next
    case False
    then have "data_send env p zc eo sa t = set_pc (DP_DataDone (length p) eo sa (tn_gate_closed t)) t"
      using data_send_eq [OF assms, of env zc eo sa t] by (auto simp: Let_def)
    then show ?thesis
      by (intro unseen [of "tn_gate_closed t"]) (simp_all add: stream_view_set_pc)
  qed
qed

lemma stream_ok_unseen:
  assumes "stream_ok v" and "sv_pc v = DP_DataCounted p zc eo sa" and "sent \<longrightarrow> sv_gate v"
  shows "stream_ok (v\<lparr>sv_pc := DP_DataDone (length p) eo sa sent\<rparr>)"
  using assms by (auto simp: stream_ok_def position_ok_def selected_ok_def)

lemma stream_ok_seen:
  assumes "stream_ok v" and "sv_pc v = DP_DataCounted p zc eo sa"
  shows "stream_ok (v\<lparr>sv_pc := DP_DataDone (length p) eo sa sent,
                       sv_sent := sv_sent v @ (if sent then p else [])\<rparr>)"
proof -
  have sel: "selected_ok p v" using assms by (simp add: stream_ok_def position_ok_def)
  then have "sv_sent v @ p @ drop (length p) (fifo_bytes (sv_fifo v)) = sv_accepted v"
    if "\<not> sv_abort v"
    using that unfolding selected_ok_def by (metis append_take_drop_id)
  with assms sel show ?thesis
    by (simp add: stream_ok_def position_ok_def selected_ok_def)
qed

lemma stream_inv_data_send:
  assumes inv: "stream_inv t" and pc: "tn_pc t = DP_DataCounted p zc eo sa"
  shows "stream_inv (data_send env p zc eo sa t)"
proof -
  have ok: "stream_ok (stream_view t)" using inv by (simp add: stream_inv_def)
  then have len: "length p \<le> kMaxTcpPayloadPerToxFrame"
    using pc by (simp add: stream_ok_def position_ok_def selected_ok_def)
  from len show ?thesis
  proof (cases rule: data_send_view [where env = env and zc = zc and eo = eo and sa = sa and t = t])
    case (unseen sent)
    with stream_ok_unseen [OF ok] pc show ?thesis by (simp add: stream_inv_def)
  next
    case (seen sent)
    with stream_ok_seen [OF ok] pc show ?thesis by (simp add: stream_inv_def)
  qed
qed

lemma stream_inv_data_commit:
  assumes inv: "stream_inv t" and pc: "tn_pc t = DP_DataDone n eo sa sent"
  shows "stream_inv (fst (data_commit now n eo sa sent t))"
proof -
  have ok: "stream_ok (stream_view t)" using inv by (simp add: stream_inv_def)
  show ?thesis
  proof (cases sent)
    case False
    with ok pc show ?thesis
      by (auto simp: stream_inv_def stream_ok_def position_ok_def stream_view_def data_commit_def
          stop_driver_def set_pc_def Let_def)
  next
    case True
    then have v: "stream_view (fst (data_commit now n eo sa sent t)) =
        (stream_view t)\<lparr>sv_fifo := ob_fifo (consume_front n (tn_out t)),
          sv_pending := ob_fifo_pending (consume_front n (tn_out t)), sv_pc := DP_Head\<rparr>"
      by (simp add: data_commit_def stream_view_def set_pc_def)
    show ?thesis
    proof (cases "ob_abort_published (tn_out t)")
      case abort: True
      then have "ob_fifo (tn_out t) = []"
        using ok by (simp add: stream_ok_def stream_view_def)
      then show ?thesis
        using ok abort pc unfolding stream_inv_def v
        by (auto simp: stream_ok_def position_ok_def stream_view_def)
    next
      case False
      then have "front_has n (ob_fifo (tn_out t))" "list_all cohort_ok (ob_fifo (tn_out t))"
        using ok pc by (auto simp: stream_ok_def position_ok_def stream_view_def)
      note c = consume_front_props [OF this(2,1)]
      show ?thesis
        using ok pc c True False unfolding stream_inv_def v
        by (auto simp: stream_ok_def position_ok_def stream_view_def)
    qed
  qed
qed

subsection \<open>The terminal ERROR carries no stream bytes\<close>

definition error_slot_inv :: "Tunnel \<Rightarrow> bool" where
  "error_slot_inv t \<longleftrightarrow>
     (\<forall>p. es_pending (tn_err t) = Some p \<longrightarrow> error_wire (pe_wire p) (tn_id t) \<and> pe_wire p \<noteq> [])
     \<and> (\<forall>w. tn_pc t = DP_Error w \<longrightarrow> error_wire w (tn_id t) \<and> w \<noteq> [])"

lemmas section_defs =
  store_state_def log_event_def cancel_open_deadline_def arm_open_deadline_timer_def
  book_close_once_def notify_close_once_def maybe_notify_id_releasable_def note_close_owed_def
  abandon_close_def fence_close_retry_def request_close_def close_retry_fire_def
  cancel_open_retry_def publish_abort_def claim_terminal_error_def settle_error_for_shutdown_def
  lower_error_fence_def record_arrival_def clear_finalize_pending_def error_retry_fire_def
  seal_gate_def driver_enter_def mark_local_close_def cancel_flush_timer_def
  coalesce_timer_fire_def reserve_window_def bump_activity_def observe_push_def admit_data_def
  count_sent_def defer_close_def set_timeout_close_def take_resources_def release_socket_def
  set_target_def reset_open_phase_def begin_open_send_def count_open_attempt_def
  resolve_open_send_def arm_open_retry_timer_def disarm_open_retry_def set_last_error_def
  take_ack_credit_def restore_ack_credit_def arm_ack_retry_timer_def disarm_ack_timer_def
  queue_tcp_input_def advance_tcp_cursor_def defer_tcp_eof_def half_close_def take_pending_eof_def
  count_received_def note_remote_close_def credit_ack_def release_window_def
  feed_flow_control_def store_coalesce_def set_coalesce_mode_def configure_flow_control_def
  set_ack_threshold_def set_open_timeout_def tunnel_observe_rtt_def tunnel_observe_bandwidth_def
  set_tcp_connection_def set_callbacks_def

lemmas driver_defs =
  set_pc_def stop_driver_def leave_driver_def error_commit_def close_commit_def
  data_authorize_def data_abandon_def data_commit_def

lemma send_wire_fields:
  assumes "send_wire_to_tox_typed env w t = (v, u)"
  shows "u = t \<or> u = t\<lparr>tn_events := tn_events t @ [EvSend w v]\<rparr>"
  using assms by (auto simp: send_wire_to_tox_typed_def log_event_def Let_def split: if_splits)

lemma error_slot_step: "tun_step t u \<Longrightarrow> error_slot_inv t \<Longrightarrow> error_slot_inv u"
proof (induction rule: tun_step.induct)
  case (st_select t arm now)
  show ?case
    by (cases rule: driver_select_cases [where arm = arm and now = now and t = t])
      (use st_select in \<open>auto simp: error_slot_inv_def drain_complete_def driver_defs Let_def\<close>)
next
  case (st_error_send t wire env)
  obtain v u where s: "send_wire_to_tox_typed env wire t = (v, u)" by fastforce
  from send_wire_fields [OF s] st_error_send s show ?case
    by (auto simp: error_slot_inv_def error_send_def set_pc_def)
next
  case (st_close_send t env)
  obtain v u where s: "send_frame_to_tox_typed env (make_tunnel_close (tn_id t)) t = (v, u)" by fastforce
  from send_wire_fields [OF s [unfolded send_frame_to_tox_typed_def]] st_close_send s show ?case
    by (auto simp: error_slot_inv_def close_send_def set_pc_def)
next
  case (st_send_plain f t env)
  obtain v u where s: "send_frame_to_tox_typed env f t = (v, u)" by fastforce
  from send_wire_fields [OF s [unfolded send_frame_to_tox_typed_def]] st_send_plain s show ?case
    by (auto simp: error_slot_inv_def)
next
  case (st_data_send t p zc eo sa env)
  then show ?case
    by (auto simp: error_slot_inv_def data_send_def send_owned_data_to_tox_def send_frame_to_tox_def
        send_frame_to_tox_typed_def send_wire_to_tox_typed_def set_pc_def log_event_def Let_def)
next
  case (st_count t p zc q now)
  then show ?case
    by (auto simp: error_slot_inv_def data_count_def Let_def split: prod.split)
qed (auto simp: error_slot_inv_def section_defs driver_defs Let_def
      split: if_splits OpenPhase.splits ErrorSettleParty.splits prod.splits DriverPc.splits)

lemma error_slot_new: "error_slot_inv (tunnel_new i w now)"
  by (simp add: error_slot_inv_def tunnel_new_def)

interpretation slot: tunnel_invariant error_slot_inv
  by unfold_locales (rule error_slot_new, rule error_slot_step)

lemma stream_step:
  "tun_step t u \<Longrightarrow> error_slot_inv t \<Longrightarrow> stream_inv t \<Longrightarrow> stream_inv u"
proof (induction rule: tun_step.induct)
  case (st_error_send t wire env)
  then have "wire_data wire = []" by (auto simp: error_slot_inv_def intro: wire_data_error)
  with st_error_send show ?case by (intro stream_inv_error_send) simp_all
next
  case (st_claim_error wire t)
  with stream_inv_abort [of t] show ?case by (simp add: stream_inv_def stream_view_claim_error)
qed (((simp only: stream_inv_def view_simps not_False_eq_True; fail) |
      (blast intro: stream_inv_abort stream_inv_gate stream_inv_enter
        stream_inv_coalesce stream_inv_admit stream_inv_select stream_inv_send_plain
        stream_inv_close_send stream_inv_error_commit stream_inv_close_commit stream_inv_authorize
        stream_inv_abandon stream_inv_count stream_inv_data_send stream_inv_data_commit))+)

lemma stream_new: "stream_inv (tunnel_new i w now)"
  by (simp add: stream_inv_def stream_view_def stream_ok_def position_ok_def tunnel_new_def
      kDefaultCoalesceMaxBytes_def kMaxTcpPayloadPerToxFrame_def)

interpretation stream: tunnel_invariant "\<lambda>t. error_slot_inv t \<and> stream_inv t"
  by unfold_locales (auto intro: error_slot_new stream_new error_slot_step stream_step)

end
