(* ===== verification/Tunnel_Control.thy ===== *)
theory Tunnel_Control
  imports Tunnel_Stream
begin

text \<open>
  The control frames of a tunnel under every interleaving: at most one CLOSE and at most one ERROR
  are accepted by the transport in a tunnel's life, after an accepted ERROR no DATA and no CLOSE is
  offered to it, a CLOSE is selected only behind the whole stream, and the terminal states are final.
\<close>

section \<open>The log of control frames\<close>

fun ev_is :: "FrameType \<Rightarrow> TunnelEvent \<Rightarrow> bool" where
  "ev_is ty (EvSend w v) = (wire_type w = Some ty)"
| "ev_is ty _ = False"

fun ev_sent :: "FrameType \<Rightarrow> TunnelEvent \<Rightarrow> bool" where
  "ev_sent ty (EvSend w SO_Sent) = (wire_type w = Some ty)"
| "ev_sent ty _ = False"

text \<open>How many frames of a type the transport has accepted.\<close>

definition accepted_frames :: "FrameType \<Rightarrow> TunnelEvent list \<Rightarrow> nat" where
  "accepted_frames ty evs = length (filter (ev_sent ty) evs)"

text \<open>Once the transport has accepted an ERROR, no DATA and no CLOSE is offered to it.\<close>

definition quiet_after_error :: "TunnelEvent list \<Rightarrow> bool" where
  "quiet_after_error evs \<longleftrightarrow>
     (\<forall>j < length evs. \<forall>i < j. ev_sent TUNNEL_ERROR (evs ! i) \<longrightarrow>
        \<not> ev_is TUNNEL_DATA (evs ! j) \<and> \<not> ev_is TUNNEL_CLOSE (evs ! j))"

lemma accepted_frames_simps [simp]:
  "accepted_frames ty [] = 0"
  "accepted_frames ty (evs @ [ev]) = accepted_frames ty evs + (if ev_sent ty ev then 1 else 0)"
  by (simp_all add: accepted_frames_def)

lemma accepted_frames_zero: "accepted_frames ty evs = 0 \<Longrightarrow> i < length evs \<Longrightarrow> \<not> ev_sent ty (evs ! i)"
  by (simp add: accepted_frames_def filter_empty_conv)

lemma quiet_snoc:
  assumes "quiet_after_error evs"
    and "0 < accepted_frames TUNNEL_ERROR evs \<Longrightarrow> \<not> ev_is TUNNEL_DATA ev \<and> \<not> ev_is TUNNEL_CLOSE ev"
  shows "quiet_after_error (evs @ [ev])"
  unfolding quiet_after_error_def
proof (intro allI impI)
  fix j i
  assume j: "j < length (evs @ [ev])" and i: "i < j"
    and e: "ev_sent TUNNEL_ERROR ((evs @ [ev]) ! i)"
  from i j have il: "i < length evs" by simp
  with e have e': "ev_sent TUNNEL_ERROR (evs ! i)" by (simp add: nth_append)
  then have "0 < accepted_frames TUNNEL_ERROR evs"
    using accepted_frames_zero il by (metis gr0I)
  with assms(2) have last: "\<not> ev_is TUNNEL_DATA ev \<and> \<not> ev_is TUNNEL_CLOSE ev" .
  show "\<not> ev_is TUNNEL_DATA ((evs @ [ev]) ! j) \<and> \<not> ev_is TUNNEL_CLOSE ((evs @ [ev]) ! j)"
  proof (cases "j < length evs")
    case True
    with assms(1) i e' show ?thesis by (auto simp: quiet_after_error_def nth_append)
  next
    case False
    with j last show ?thesis by (simp add: nth_append)
  qed
qed

lemma not_send_types [simp]: "\<not> is_send ev \<Longrightarrow> \<not> ev_is ty ev" "\<not> is_send ev \<Longrightarrow> \<not> ev_sent ty ev"
  by (cases ev; simp)+

lemma ev_sent_cases: "ev_sent ty (EvSend w v) \<longleftrightarrow> v = SO_Sent \<and> wire_type w = Some ty"
  by (cases v) simp_all

section \<open>The control invariant\<close>

record ControlView =
  cv_state :: CloseFrameState
  cv_pc :: DriverPc
  cv_claimed :: bool
  cv_slot :: bool
  cv_attempt :: bool
  cv_abort :: bool
  cv_closes :: nat
  cv_errors :: nat
  cv_quiet :: bool

definition control_view :: "Tunnel \<Rightarrow> ControlView" where
  "control_view t =
     \<lparr>cv_state = cf_state (tn_close t), cv_pc = tn_pc t, cv_claimed = es_claimed (tn_err t),
      cv_slot = (es_pending (tn_err t) \<noteq> None), cv_attempt = es_attempt_in_flight (tn_err t),
      cv_abort = ob_abort_published (tn_out t),
      cv_closes = accepted_frames TUNNEL_CLOSE (tn_events t),
      cv_errors = accepted_frames TUNNEL_ERROR (tn_events t),
      cv_quiet = quiet_after_error (tn_events t)\<rparr>"

definition close_position :: "DriverPc \<Rightarrow> bool" where
  "close_position pc \<longleftrightarrow> pc = DP_Close \<or> (\<exists>v. pc = DP_CloseDone v)"

definition error_position :: "DriverPc \<Rightarrow> bool" where
  "error_position pc \<longleftrightarrow> (\<exists>w. pc = DP_Error w) \<or> (\<exists>v. pc = DP_ErrorDone v)"

definition data_position :: "DriverPc \<Rightarrow> bool" where
  "data_position pc \<longleftrightarrow> (\<exists>p zc q. pc = DP_Data p zc q) \<or> (\<exists>p zc q. pc = DP_DataAuth p zc q)
     \<or> (\<exists>p zc eo sa. pc = DP_DataCounted p zc eo sa)"

definition control_ok :: "ControlView \<Rightarrow> bool" where
  "control_ok v \<longleftrightarrow>
     (cv_state v = CF_InFlight \<longleftrightarrow> close_position (cv_pc v))
     \<and> cv_closes v \<le> 1
     \<and> (cv_closes v = 1 \<longrightarrow> cv_state v = CF_Resolved \<or> cv_pc v = DP_CloseDone SO_Sent)
     \<and> (cv_attempt v \<longleftrightarrow> error_position (cv_pc v))
     \<and> (cv_claimed v \<longrightarrow> cv_abort v) \<and> (cv_slot v \<longrightarrow> cv_claimed v) \<and> (cv_attempt v \<longrightarrow> cv_slot v)
     \<and> cv_errors v \<le> 1
     \<and> (cv_errors v = 1 \<longrightarrow> cv_claimed v \<and> \<not> data_position (cv_pc v) \<and> cv_pc v \<noteq> DP_Close
          \<and> (\<not> cv_slot v \<or> cv_pc v = DP_ErrorDone SO_Sent))
     \<and> cv_quiet v"

definition control_inv :: "Tunnel \<Rightarrow> bool" where
  "control_inv t \<longleftrightarrow> control_ok (control_view t)"

lemma quiet_log [simp]: "\<not> is_send ev \<Longrightarrow> quiet_after_error evs \<Longrightarrow> quiet_after_error (evs @ [ev])"
  by (rule quiet_snoc) simp_all

lemma quiet_prefix: "quiet_after_error (evs @ ys) \<Longrightarrow> quiet_after_error evs"
  unfolding quiet_after_error_def
proof (intro allI impI)
  fix j i
  assume q: "\<forall>j < length (evs @ ys). \<forall>i < j. ev_sent TUNNEL_ERROR ((evs @ ys) ! i) \<longrightarrow>
        \<not> ev_is TUNNEL_DATA ((evs @ ys) ! j) \<and> \<not> ev_is TUNNEL_CLOSE ((evs @ ys) ! j)"
    and j: "j < length evs" and i: "i < j" and e: "ev_sent TUNNEL_ERROR (evs ! i)"
  have "j < length (evs @ ys)" "(evs @ ys) ! i = evs ! i" "(evs @ ys) ! j = evs ! j"
    using i j by (simp_all add: nth_append)
  with q i e show "\<not> ev_is TUNNEL_DATA (evs ! j) \<and> \<not> ev_is TUNNEL_CLOSE (evs ! j)" by metis
qed

lemma quiet_log_iff [simp]: "\<not> is_send ev \<Longrightarrow> quiet_after_error (evs @ [ev]) \<longleftrightarrow> quiet_after_error evs"
  using quiet_log quiet_prefix by blast

subsection \<open>The sections that do not touch it\<close>

named_theorems control_simps \<open>sections that leave the control view alone\<close>

lemma control_view_log [control_simps]:
  "\<not> is_send ev \<Longrightarrow> control_view (log_event ev t) = control_view t"
  by (simp add: control_view_def log_event_def)

lemma control_view_misc [control_simps]:
  "control_view (store_state s t) = control_view t"
  "control_view (cancel_open_deadline t) = control_view t"
  "control_view (arm_open_deadline_timer t) = control_view t"
  "control_view (book_close_once r t) = control_view t"
  "control_view (notify_close_once t) = control_view t"
  "control_view (maybe_notify_id_releasable t) = control_view t"
  "control_view (t\<lparr>tn_id_cb := b\<rparr>) = control_view t"
  "control_view (snd (close_retry_fire epoch t)) = control_view t"
  "control_view (snd (mark_local_close t)) = control_view t"
  "control_view (snd (half_close t)) = control_view t"
  "control_view (snd (note_remote_close t)) = control_view t"
  "control_view (set_target host port t) = control_view t"
  "control_view (reset_open_phase t) = control_view t"
  "control_view (snd (begin_open_send t)) = control_view t"
  "control_view (count_open_attempt t) = control_view t"
  "control_view (snd (resolve_open_send v t)) = control_view t"
  "control_view (arm_open_retry_timer t) = control_view t"
  "control_view (disarm_open_retry t) = control_view t"
  "control_view (lower_error_fence t) = control_view t"
  "control_view (snd (record_arrival party defer t)) = control_view t"
  "control_view (clear_finalize_pending t) = control_view t"
  "control_view (snd (error_retry_fire epoch t)) = control_view t"
  "control_view (set_last_error code desc t) = control_view t"
  by (simp_all add: control_view_def section_defs Let_def
      split: OpenPhase.split ErrorSettleParty.split)

lemma control_view_flow [control_simps]:
  "control_view (cancel_flush_timer t) = control_view t"
  "control_view (snd (coalesce_timer_fire epoch t)) = control_view t"
  "control_view (snd (reserve_window w n t)) = control_view t"
  "control_view (bump_activity now t) = control_view t"
  "control_view (snd (observe_push now n t)) = control_view t"
  "control_view (snd (admit_data policy now data t)) = control_view t"
  "control_view (count_sent n t) = control_view t"
  "control_view (set_timeout_close t) = control_view t"
  "control_view (snd (take_resources t)) = control_view t"
  "control_view (release_socket drain t) = control_view t"
  "control_view (snd (take_ack_credit t)) = control_view t"
  "control_view (restore_ack_credit n t) = control_view t"
  "control_view (arm_ack_retry_timer t) = control_view t"
  "control_view (disarm_ack_timer t) = control_view t"
  "control_view (queue_tcp_input data t) = control_view t"
  "control_view (advance_tcp_cursor n t) = control_view t"
  "control_view (defer_tcp_eof t) = control_view t"
  "control_view (snd (take_pending_eof t)) = control_view t"
  "control_view (count_received n t) = control_view t"
  "control_view (snd (credit_ack emitted bytes t)) = control_view t"
  "control_view (release_window n t) = control_view t"
  "control_view (feed_flow_control tot now t) = control_view t"
  "control_view (store_coalesce d c t) = control_view t"
  "control_view (set_coalesce_mode m t) = control_view t"
  "control_view (configure_flow_control cfg t) = control_view t"
  "control_view (set_ack_threshold n t) = control_view t"
  "control_view (set_open_timeout secs t) = control_view t"
  "control_view (tunnel_observe_rtt rtt now t) = control_view t"
  "control_view (tunnel_observe_bandwidth bps t) = control_view t"
  "control_view (set_tcp_connection b t) = control_view t"
  "control_view (set_callbacks sp ow tcp t) = control_view t"
  by (simp_all add: control_view_def section_defs Let_def split: prod.split)

subsection \<open>The sections that do\<close>

lemma control_ok_state:
  assumes "control_ok v" and "cv_state v = CF_NotOwed \<or> cv_state v = CF_Owed"
    and "s = CF_Owed \<or> s = CF_Abandoned \<or> s = CF_NotOwed"
  shows "control_ok (v\<lparr>cv_state := s\<rparr>)"
proof -
  have st: "cv_state v \<noteq> CF_InFlight" "cv_state v \<noteq> CF_Resolved" using assms(2) by auto
  then have pc: "\<not> close_position (cv_pc v)"
    using assms(1) by (simp add: control_ok_def)
  then have "cv_pc v \<noteq> DP_CloseDone SO_Sent" by (auto simp: close_position_def)
  with st have closes: "cv_closes v \<noteq> 1"
    using assms(1) by (simp add: control_ok_def)
  have "s \<noteq> CF_InFlight" using assms(3) by auto
  then show ?thesis using assms(1) pc closes by (simp add: control_ok_def)
qed

lemma control_inv_state:
  assumes "control_inv t" and "cf_state (tn_close t) = CF_NotOwed \<or> cf_state (tn_close t) = CF_Owed"
    and "control_view u = (control_view t)\<lparr>cv_state := s\<rparr>"
    and "s = CF_Owed \<or> s = CF_Abandoned \<or> s = CF_NotOwed"
  shows "control_inv u"
proof -
  have "cv_state (control_view t) = cf_state (tn_close t)" by (simp add: control_view_def)
  with assms(1,2,4) control_ok_state [of "control_view t" s] show ?thesis
    by (simp only: control_inv_def assms(3))
qed

lemma control_inv_owed: "control_inv t \<Longrightarrow> control_inv (note_close_owed t)"
proof (cases "cf_state (tn_close t) = CF_NotOwed")
  case True
  let ?s = "if cf_retry_cancelled (tn_close t) then CF_Abandoned else CF_Owed"
  assume inv: "control_inv t"
  show ?thesis
    by (rule control_inv_state [OF inv, where s = ?s])
      (use True in \<open>simp_all add: note_close_owed_def control_view_def\<close>)
qed (simp add: note_close_owed_def)

lemma control_inv_abandon: "control_inv t \<Longrightarrow> control_inv (abandon_close t)"
proof (cases "cf_state (tn_close t) = CF_Owed")
  case True
  assume inv: "control_inv t"
  show ?thesis
    by (rule control_inv_state [OF inv, where s = CF_Abandoned])
      (use True in \<open>simp_all add: abandon_close_def control_view_def\<close>)
qed (simp add: abandon_close_def)

lemma control_inv_fence: "control_inv t \<Longrightarrow> control_inv (fence_close_retry t)"
proof (cases "cf_state (tn_close t) = CF_Owed")
  case True
  assume inv: "control_inv t"
  show ?thesis
    by (rule control_inv_state [OF inv, where s = CF_Abandoned])
      (use True in \<open>simp_all add: fence_close_retry_def control_view_def Let_def\<close>)
next
  case False
  assume "control_inv t"
  with False show ?thesis by (simp add: fence_close_retry_def control_inv_def control_view_def Let_def)
qed

lemma request_close_cases:
  "snd (request_close t) = t \<or>
   (cf_state (tn_close t) = CF_NotOwed \<or> cf_state (tn_close t) = CF_Owed) \<and>
   snd (request_close t) =
     t\<lparr>tn_close := (tn_close t)\<lparr>cf_state := CF_Owed, cf_emit_requested := True\<rparr>\<rparr>"
  by (simp add: request_close_def Let_def)

lemma control_inv_request:
  assumes inv: "control_inv t"
  shows "control_inv (snd (request_close t))"
  using request_close_cases [of t]
proof
  assume "snd (request_close t) = t"
  with inv show ?thesis by simp
next
  assume r: "(cf_state (tn_close t) = CF_NotOwed \<or> cf_state (tn_close t) = CF_Owed) \<and>
    snd (request_close t) =
      t\<lparr>tn_close := (tn_close t)\<lparr>cf_state := CF_Owed, cf_emit_requested := True\<rparr>\<rparr>"
  have "control_view (snd (request_close t)) = (control_view t)\<lparr>cv_state := CF_Owed\<rparr>"
    by (simp only: conjunct2 [OF r]) (simp add: control_view_def)
  then show ?thesis
    by (rule control_inv_state [OF inv conjunct1 [OF r]]) simp
qed

lemma control_inv_cancel_open: "control_inv t \<Longrightarrow> control_inv (snd (cancel_open_retry t))"
proof -
  assume inv: "control_inv t"
  obtain h where "control_view (snd (cancel_open_retry t)) = control_view t
      \<or> control_view (snd (cancel_open_retry t)) = control_view (note_close_owed (t\<lparr>tn_open := h\<rparr>))"
    by (cases "oh_phase (tn_open t)") (auto simp: cancel_open_retry_def control_view_def Let_def)
  moreover have "control_inv (t\<lparr>tn_open := h\<rparr>)"
    using inv by (simp add: control_inv_def control_view_def)
  ultimately show ?thesis
    using inv control_inv_owed by (auto simp: control_inv_def)
qed

lemma control_inv_defer_close: "control_inv t \<Longrightarrow> control_inv (snd (defer_close t))"
proof -
  assume inv: "control_inv t"
  let ?u = "t\<lparr>tn_half := (tn_half t)\<lparr>hc_close_pending := True, hc_close_pending_full := True\<rparr>\<rparr>"
  have "control_inv ?u" using inv by (simp add: control_inv_def control_view_def)
  then show ?thesis using inv control_inv_owed [of ?u] by (simp add: defer_close_def)
qed

lemma control_inv_abort: "control_inv t \<Longrightarrow> control_inv (publish_abort t)"
  by (simp add: control_inv_def control_ok_def control_view_def publish_abort_def)

lemma control_inv_claim: "control_inv t \<Longrightarrow> control_inv (snd (claim_terminal_error w t))"
  by (auto simp: control_inv_def control_ok_def control_view_def claim_terminal_error_def
      publish_abort_def Let_def)

lemma control_inv_settle: "control_inv t \<Longrightarrow> control_inv (snd (settle_error_for_shutdown t))"
  by (auto simp: control_inv_def control_ok_def control_view_def settle_error_for_shutdown_def Let_def)

lemma control_inv_gate: "control_inv t \<Longrightarrow> control_inv (snd (seal_gate t))"
proof -
  assume "control_inv t"
  then have "control_inv (snd (settle_error_for_shutdown (publish_abort t)))"
    by (intro control_inv_settle control_inv_abort)
  then show ?thesis by (simp add: seal_gate_def control_inv_def control_view_def split_beta)
qed

lemma control_inv_enter:
  "control_inv t \<Longrightarrow> ob_driver_active (tn_out t) = (tn_pc t \<noteq> DP_Idle) \<Longrightarrow>
     control_inv (snd (driver_enter policy t))"
  by (auto simp: control_inv_def control_ok_def control_view_def driver_enter_def Let_def
      close_position_def error_position_def data_position_def)

lemma control_ok_pc:
  assumes "control_ok v" and "\<not> close_position (cv_pc v)" and "\<not> error_position (cv_pc v)"
    and "pc = DP_Head \<or> pc = DP_Idle \<or> (\<exists>n eo sa s. pc = DP_DataDone n eo sa s)
         \<or> data_position pc \<and> cv_errors v = 0"
  shows "control_ok (v\<lparr>cv_pc := pc\<rparr>)"
  using assms by (auto simp: control_ok_def close_position_def error_position_def data_position_def)

lemma positions_disjoint:
  "data_position pc \<Longrightarrow> \<not> close_position pc \<and> \<not> error_position pc"
  "\<not> close_position DP_Head" "\<not> error_position DP_Head"
  "\<not> close_position (DP_DataDone n eo sa s)" "\<not> error_position (DP_DataDone n eo sa s)"
  by (auto simp: data_position_def close_position_def error_position_def)

lemma data_position_no_error: "control_ok v \<Longrightarrow> data_position (cv_pc v) \<Longrightarrow> cv_errors v = 0"
  by (auto simp: control_ok_def)

lemma control_view_pc [simp]: "cv_pc (control_view t) = tn_pc t"
  by (simp add: control_view_def)

lemma control_inv_select:
  assumes inv: "control_inv t" and str: "stream_inv t" and pc: "tn_pc t = DP_Head"
  shows "control_inv (fst (driver_select arm now t))"
proof -
  have ok: "control_ok (control_view t)" using inv by (simp add: control_inv_def)
  have head: "\<not> close_position (cv_pc (control_view t))" "\<not> error_position (cv_pc (control_view t))"
    using pc positions_disjoint by simp_all
  show ?thesis
  proof (cases rule: driver_select_cases [where arm = arm and now = now and t = t])
    case Error
    with ok pc show ?thesis
      by (auto simp: control_inv_def control_ok_def control_view_def close_position_def
          error_position_def data_position_def)
  next
    case (Data n)
    have "\<not> ob_abort_published (tn_out t)"
      using str Data(2) by (auto simp: stream_inv_def stream_ok_def stream_view_def)
    then have "cv_errors (control_view t) = 0"
      using ok by (auto simp: control_ok_def control_view_def)
    with Data(4) control_ok_pc [OF ok head] show ?thesis
      by (auto simp: control_inv_def control_view_def data_position_def)
  next
    case (Remainder u)
    with ok control_ok_pc [OF ok head] show ?thesis
      by (auto simp: control_inv_def control_view_def leave_driver_def)
  next
    case Close
    with ok pc show ?thesis
      by (auto simp: control_inv_def control_ok_def control_view_def close_position_def
          error_position_def data_position_def)
  next
    case (Empty u)
    with ok control_ok_pc [OF ok head] show ?thesis
      by (auto simp: control_inv_def control_view_def drain_complete_def stop_driver_def Let_def)
  qed
qed

text \<open>Offering a frame that is neither CLOSE nor ERROR, and DATA only while no ERROR is out.\<close>

lemma control_ok_offer:
  assumes "control_ok (control_view t)" and "wire_type w = Some ty" and "ty \<noteq> TUNNEL_CLOSE"
    and "ty \<noteq> TUNNEL_ERROR" and "ty = TUNNEL_DATA \<Longrightarrow> cv_errors (control_view t) = 0"
  shows "control_view (log_event (EvSend w v) t) = control_view t"
proof -
  have "quiet_after_error (tn_events t @ [EvSend w v])"
    by (rule quiet_snoc)
      (use assms in \<open>auto simp: control_ok_def control_view_def ev_sent_cases\<close>)
  then show ?thesis
    using assms by (simp add: control_view_def log_event_def ev_sent_cases control_ok_def)
qed

lemma control_inv_send_plain:
  assumes "control_inv t" and "plain_frame f"
  shows "control_inv (snd (send_frame_to_tox_typed env f t))"
proof -
  have ok: "control_ok (control_view t)" using assms(1) by (simp add: control_inv_def)
  have ty: "fr_type f \<noteq> TUNNEL_CLOSE" "fr_type f \<noteq> TUNNEL_ERROR" "fr_type f \<noteq> TUNNEL_DATA"
    using assms(2) by (auto simp: plain_frame_def)
  have "control_view (log_event (EvSend (serialize f) v) t) = control_view t" for v
    by (rule control_ok_offer [OF ok wire_type_serialize]) (use ty in auto)
  with ok show ?thesis
    by (auto simp: control_inv_def send_frame_to_tox_typed_def send_wire_to_tox_typed_def Let_def)
qed

lemma control_view_set_pc: "control_view (set_pc p t) = (control_view t)\<lparr>cv_pc := p\<rparr>"
  by (simp add: control_view_def set_pc_def)

lemma control_inv_data_send:
  assumes inv: "control_inv t" and len: "length p \<le> kMaxTcpPayloadPerToxFrame"
    and pc: "tn_pc t = DP_DataCounted p zc eo sa"
  shows "control_inv (data_send env p zc eo sa t)"
proof -
  have ok: "control_ok (control_view t)" using inv by (simp add: control_inv_def)
  have dp: "data_position (cv_pc (control_view t))" using pc by (simp add: data_position_def)
  note none = data_position_no_error [OF ok dp]
  have log: "control_view (log_event (EvSend (serialize (make_tunnel_data (tn_id t) p)) v) t)
      = control_view t" for v
    by (rule control_ok_offer [OF ok wire_type_serialize]) (use none in simp_all)
  have "control_ok ((control_view t)\<lparr>cv_pc := DP_DataDone n eo' sa' s\<rparr>)" for n eo' sa' s
    using control_ok_pc [OF ok] positions_disjoint(1) [OF dp] by blast
  with log show ?thesis
    unfolding data_send_eq [OF len] by (simp add: control_inv_def control_view_set_pc Let_def)
qed

lemma control_inv_close_send:
  assumes inv: "control_inv t" and pc: "tn_pc t = DP_Close"
  shows "control_inv (close_send env t)"
proof -
  let ?w = "serialize (make_tunnel_close (tn_id t))"
  have ok: "control_ok (control_view t)" using inv by (simp add: control_inv_def)
  then have none: "accepted_frames TUNNEL_ERROR (tn_events t) = 0"
      "accepted_frames TUNNEL_CLOSE (tn_events t) = 0"
    using pc by (auto simp: control_ok_def control_view_def close_position_def)
  have quiet: "quiet_after_error (tn_events t @ [EvSend ?w v])" for v
    by (rule quiet_snoc) (use ok none in \<open>simp_all add: control_ok_def control_view_def\<close>)
  let ?v = "te_tox env (tn_events t) ?w"
  obtain v u where s: "send_wire_to_tox_typed env ?w t = (v, u)" by fastforce
  from send_wire_fields [OF s] have "close_send env t = set_pc (DP_CloseDone v) t \<or>
      close_send env t = set_pc (DP_CloseDone v) (log_event (EvSend ?w v) t)"
    using s by (auto simp: close_send_def send_frame_to_tox_typed_def log_event_def)
  then show ?thesis
    using ok none quiet pc
    by (auto simp: control_inv_def control_ok_def control_view_def set_pc_def log_event_def
        ev_sent_cases close_position_def error_position_def data_position_def)
qed

lemma control_inv_error_send:
  assumes inv: "control_inv t" and pc: "tn_pc t = DP_Error w" and w: "wire_type w = Some TUNNEL_ERROR"
  shows "control_inv (error_send env w t)"
proof -
  have ok: "control_ok (control_view t)" using inv by (simp add: control_inv_def)
  then have slot: "es_pending (tn_err t) \<noteq> None" and none: "accepted_frames TUNNEL_ERROR (tn_events t) = 0"
    using pc by (auto simp: control_ok_def control_view_def error_position_def)
  have quiet: "quiet_after_error (tn_events t @ [EvSend w v])" for v
    by (rule quiet_snoc) (use ok none in \<open>simp_all add: control_ok_def control_view_def\<close>)
  obtain v u where s: "send_wire_to_tox_typed env w t = (v, u)" by fastforce
  from send_wire_fields [OF s] have "error_send env w t = set_pc (DP_ErrorDone v) t \<or>
      error_send env w t = set_pc (DP_ErrorDone v) (log_event (EvSend w v) t)"
    using s by (auto simp: error_send_def log_event_def)
  then show ?thesis
    using ok none quiet pc slot w
    by (auto simp: control_inv_def control_ok_def control_view_def set_pc_def log_event_def
        ev_sent_cases close_position_def error_position_def data_position_def)
qed

lemma control_inv_error_commit:
  "control_inv t \<Longrightarrow> tn_pc t = DP_ErrorDone v \<Longrightarrow> control_inv (snd (error_commit v t))"
  by (auto simp: control_inv_def control_ok_def control_view_def error_commit_def stop_driver_def
      set_pc_def Let_def close_position_def error_position_def data_position_def)

lemma control_inv_close_commit:
  "control_inv t \<Longrightarrow> tn_pc t = DP_CloseDone v \<Longrightarrow> control_inv (snd (close_commit v t))"
  by (auto simp: control_inv_def control_ok_def control_view_def close_commit_def
      set_pc_def Let_def close_position_def error_position_def data_position_def)

lemma control_inv_authorize:
  assumes "control_inv t" and "tn_pc t = DP_Data p zc q"
  shows "control_inv (data_authorize t)"
proof -
  have ok: "control_ok (control_view t)" using assms(1) by (simp add: control_inv_def)
  have dp: "data_position (cv_pc (control_view t))" using assms(2) by (simp add: data_position_def)
  have "control_ok ((control_view t)\<lparr>cv_pc := DP_DataAuth p zc q\<rparr>)"
    using control_ok_pc [OF ok] positions_disjoint(1) [OF dp] data_position_no_error [OF ok dp]
    by (auto simp: data_position_def)
  with ok assms(2) show ?thesis
    by (simp add: data_authorize_def control_inv_def control_view_set_pc)
qed

lemma control_inv_data_pc:
  assumes "control_inv t" and "data_position (tn_pc t) \<or> (\<exists>n eo sa s. tn_pc t = DP_DataDone n eo sa s)"
    and "control_view u = (control_view t)\<lparr>cv_pc := pc\<rparr>"
    and "pc = DP_Head \<or> pc = DP_Idle \<or> data_position pc \<and> data_position (tn_pc t)"
  shows "control_inv u"
proof -
  have ok: "control_ok (control_view t)" using assms(1) by (simp add: control_inv_def)
  have "\<not> close_position (cv_pc (control_view t))" "\<not> error_position (cv_pc (control_view t))"
    using assms(2) positions_disjoint by auto
  from control_ok_pc [OF ok this] assms(3,4) data_position_no_error [OF ok] show ?thesis
    by (auto simp: control_inv_def)
qed

lemma control_inv_data_abandon:
  assumes "control_inv t" and "tn_pc t = DP_Data p zc q"
  shows "control_inv (fst (data_abandon t))"
  by (rule control_inv_data_pc [OF assms(1),
        where pc = "if control_obligation_eligible t then DP_Head else DP_Idle"])
    (use assms(2) in \<open>auto simp: data_position_def data_abandon_def control_view_def set_pc_def
      stop_driver_def\<close>)

lemma data_count_cases:
  obtains sa sm where "data_count now p zc q t =
    t\<lparr>tn_flow := (tn_flow t)\<lparr>fl_emitted := fl_emitted (tn_flow t) + length p\<rparr>, tn_sampler := sm,
      tn_pc := DP_DataCounted p zc (fl_emitted (tn_flow t) + length p) sa,
      tn_emitted_high := max (tn_emitted_high t) (fl_emitted (tn_flow t) + length p)\<rparr>"
  by (rule that) (simp add: data_count_def Let_def split_beta)

lemma control_inv_count:
  assumes "control_inv t" and "tn_pc t = DP_DataAuth p zc q"
  shows "control_inv (data_count now p zc q t)"
proof -
  obtain eo sa where "control_view (data_count now p zc q t)
      = (control_view t)\<lparr>cv_pc := DP_DataCounted p zc eo sa\<rparr>"
    by (rule data_count_cases [of now p zc q t]) (simp add: control_view_def)
  then show ?thesis
    by (rule control_inv_data_pc [OF assms(1), rotated]) (use assms(2) in \<open>auto simp: data_position_def\<close>)
qed

lemma control_inv_data_commit:
  assumes "control_inv t" and "tn_pc t = DP_DataDone n eo sa sent"
  shows "control_inv (fst (data_commit now n eo sa sent t))"
proof -
  obtain pc where "pc = DP_Head \<or> pc = DP_Idle"
      "control_view (fst (data_commit now n eo sa sent t)) = (control_view t)\<lparr>cv_pc := pc\<rparr>"
    by (auto simp: data_commit_def control_view_def set_pc_def stop_driver_def Let_def split: if_splits)
  then show ?thesis
    by (intro control_inv_data_pc [OF assms(1)]) (use assms(2) in auto)
qed

lemma control_step:
  "tun_step t u \<Longrightarrow> error_slot_inv t \<and> stream_inv t \<Longrightarrow> control_inv t \<Longrightarrow> control_inv u"
proof (induction rule: tun_step.induct)
  case (st_error_send t wire env)
  then have "wire_type wire = Some TUNNEL_ERROR"
    by (auto simp: error_slot_inv_def error_wire_def)
  with st_error_send show ?case by (intro control_inv_error_send) simp_all
next
  case (st_enter t policy)
  then have "ob_driver_active (tn_out t) = (tn_pc t \<noteq> DP_Idle)"
    by (simp add: stream_inv_def stream_ok_def stream_view_def)
  with st_enter show ?case by (simp add: control_inv_enter)
next
  case (st_data_send t p zc eo sa env)
  then have "length p \<le> kMaxTcpPayloadPerToxFrame"
    by (simp add: stream_inv_def stream_ok_def position_ok_def selected_ok_def)
  with st_data_send show ?case by (intro control_inv_data_send) simp_all
qed (((simp only: control_inv_def control_simps not_False_eq_True; fail) |
      (blast intro: control_inv_owed control_inv_abandon control_inv_fence control_inv_request
        control_inv_cancel_open control_inv_defer_close control_inv_abort control_inv_claim
        control_inv_settle control_inv_gate control_inv_select control_inv_send_plain
        control_inv_close_send control_inv_error_commit control_inv_close_commit
        control_inv_authorize control_inv_data_abandon control_inv_count control_inv_data_commit))+)

lemma control_new: "control_inv (tunnel_new i w now)"
  by (simp add: control_inv_def control_ok_def control_view_def tunnel_new_def close_position_def
      error_position_def quiet_after_error_def)

interpretation control: tunnel_invariant "\<lambda>t. (error_slot_inv t \<and> stream_inv t) \<and> control_inv t"
  by unfold_locales
    (use stream.initial stream.preserved control_new control_step in \<open>blast+\<close>)

section \<open>Terminal states\<close>

lemma send_wire_state: "tn_state (snd (send_wire_to_tox_typed env w t)) = tn_state t"
  by (simp add: send_wire_to_tox_typed_def log_event_def Let_def)

lemma step_terminal: "tun_step t u \<Longrightarrow> terminal (tn_state t) \<Longrightarrow> tn_state u = tn_state t"
proof (induction rule: tun_step.induct)
  case (st_select t arm now)
  show ?case
    by (cases rule: driver_select_cases [where arm = arm and now = now and t = t])
      (auto simp: drain_complete_def driver_defs Let_def)
next
  case (st_error_send t wire env)
  with send_wire_state [of env wire t] show ?case
    by (simp add: error_send_def set_pc_def split_beta)
next
  case (st_close_send t env)
  with send_wire_state [of env "serialize (make_tunnel_close (tn_id t))" t] show ?case
    by (simp add: close_send_def set_pc_def send_frame_to_tox_typed_def split_beta)
next
  case (st_send_plain f t env)
  with send_wire_state [of env "serialize f" t] show ?case
    by (simp add: send_frame_to_tox_typed_def)
next
  case (st_data_send t p zc eo sa env)
  show ?case
    by (simp add: data_send_def send_owned_data_to_tox_def send_frame_to_tox_def
        send_frame_to_tox_typed_def send_wire_to_tox_typed_def set_pc_def log_event_def Let_def)
next
  case (st_count t p zc q now)
  show ?case by (rule data_count_cases [of now p zc q t]) simp
qed (auto simp: section_defs driver_defs Let_def
      split: OpenPhase.splits ErrorSettleParty.splits prod.splits DriverPc.splits)

lemma path_terminal: "tun_path t u \<Longrightarrow> terminal (tn_state t) \<Longrightarrow> tn_state u = tn_state t"
  unfolding tun_path_def
  by (induction rule: rtranclp_induct) (auto dest: step_terminal)

end
