(* ===== verification/Tunnel_Flow.thy ===== *)
theory Tunnel_Flow
  imports Tunnel_Control
begin

text \<open>
  The flow-control accounting of a tunnel under every interleaving, including forged
  acknowledgements: the window charge is what was accepted and not yet credited, what a peer can have
  credited never exceeds what was put on the wire by more than one frame, and so the outbound FIFO is
  bounded by the largest window plus one frame. With it, every member function run to completion is a
  schedule of the step relation.
\<close>

section \<open>The flow invariant\<close>

text \<open>Bytes counted as emitted whose fate is still open or that the transport refused.\<close>

fun inflight :: "DriverPc \<Rightarrow> nat" where
  "inflight (DP_DataCounted p zc eo sa) = length p"
| "inflight (DP_DataDone n eo sa False) = n"
| "inflight _ = 0"

record FlowView =
  fv_used :: nat
  fv_acked :: nat
  fv_emitted :: nat
  fv_high :: nat
  fv_reserved :: nat
  fv_unreleased :: nat
  fv_window :: nat
  fv_abort :: bool
  fv_inflight :: nat
  fv_sent :: nat
  fv_accepted :: nat

definition flow_view :: "Tunnel \<Rightarrow> FlowView" where
  "flow_view t =
     \<lparr>fv_used = fl_window_used (tn_flow t), fv_acked = fl_acked (tn_flow t),
      fv_emitted = fl_emitted (tn_flow t), fv_high = tn_emitted_high t, fv_reserved = tn_reserved t,
      fv_unreleased = tn_unreleased t, fv_window = tn_window_high t,
      fv_abort = ob_abort_published (tn_out t), fv_inflight = inflight (tn_pc t),
      fv_sent = length (sent_data (tn_events t)), fv_accepted = length (tn_accepted t)\<rparr>"

definition flow_ok :: "FlowView \<Rightarrow> bool" where
  "flow_ok v \<longleftrightarrow>
     fv_emitted v \<le> fv_high v \<and> fv_acked v \<le> fv_high v \<and> fv_used v \<le> fv_window v
     \<and> (\<not> fv_abort v \<longrightarrow>
          fv_emitted v = fv_sent v + fv_inflight v
          \<and> fv_used v + fv_acked v = fv_accepted v + fv_reserved v + fv_unreleased v
          \<and> fv_high v \<le> fv_sent v + kMaxTcpPayloadPerToxFrame \<and> fv_high v \<le> fv_accepted v)"

definition flow_inv :: "Tunnel \<Rightarrow> bool" where
  "flow_inv t \<longleftrightarrow> flow_ok (flow_view t)"

named_theorems flow_simps \<open>sections that leave the flow view alone\<close>

lemma flow_view_log [flow_simps]: "\<not> is_send ev \<Longrightarrow> flow_view (log_event ev t) = flow_view t"
  by (simp add: flow_view_def log_event_def)

lemma flow_view_misc [flow_simps]:
  "flow_view (store_state s t) = flow_view t"
  "flow_view (cancel_open_deadline t) = flow_view t"
  "flow_view (arm_open_deadline_timer t) = flow_view t"
  "flow_view (book_close_once r t) = flow_view t"
  "flow_view (notify_close_once t) = flow_view t"
  "flow_view (maybe_notify_id_releasable t) = flow_view t"
  "flow_view (t\<lparr>tn_id_cb := b\<rparr>) = flow_view t"
  "flow_view (note_close_owed t) = flow_view t"
  "flow_view (abandon_close t) = flow_view t"
  "flow_view (fence_close_retry t) = flow_view t"
  "flow_view (snd (request_close t)) = flow_view t"
  "flow_view (snd (close_retry_fire epoch t)) = flow_view t"
  "flow_view (snd (mark_local_close t)) = flow_view t"
  "flow_view (snd (defer_close t)) = flow_view t"
  "flow_view (snd (half_close t)) = flow_view t"
  "flow_view (snd (note_remote_close t)) = flow_view t"
  "flow_view (snd (cancel_open_retry t)) = flow_view t"
  "flow_view (set_target host port t) = flow_view t"
  "flow_view (reset_open_phase t) = flow_view t"
  "flow_view (snd (begin_open_send t)) = flow_view t"
  "flow_view (count_open_attempt t) = flow_view t"
  "flow_view (snd (resolve_open_send v t)) = flow_view t"
  "flow_view (arm_open_retry_timer t) = flow_view t"
  "flow_view (disarm_open_retry t) = flow_view t"
  by (simp_all add: flow_view_def section_defs Let_def split: OpenPhase.split)

lemma flow_view_rest [flow_simps]:
  "flow_view (snd (settle_error_for_shutdown t)) = flow_view t"
  "flow_view (lower_error_fence t) = flow_view t"
  "flow_view (snd (record_arrival party defer t)) = flow_view t"
  "flow_view (clear_finalize_pending t) = flow_view t"
  "flow_view (snd (error_retry_fire epoch t)) = flow_view t"
  "flow_view (set_last_error code desc t) = flow_view t"
  "flow_view (cancel_flush_timer t) = flow_view t"
  "flow_view (snd (coalesce_timer_fire epoch t)) = flow_view t"
  "flow_view (bump_activity now t) = flow_view t"
  "flow_view (snd (observe_push now n t)) = flow_view t"
  "flow_view (count_sent n t) = flow_view t"
  "flow_view (set_timeout_close t) = flow_view t"
  "flow_view (snd (take_resources t)) = flow_view t"
  "flow_view (release_socket drain t) = flow_view t"
  "flow_view (snd (take_ack_credit t)) = flow_view t"
  "flow_view (restore_ack_credit n t) = flow_view t"
  "flow_view (arm_ack_retry_timer t) = flow_view t"
  "flow_view (disarm_ack_timer t) = flow_view t"
  "flow_view (queue_tcp_input data t) = flow_view t"
  "flow_view (advance_tcp_cursor n t) = flow_view t"
  "flow_view (defer_tcp_eof t) = flow_view t"
  "flow_view (snd (take_pending_eof t)) = flow_view t"
  "flow_view (count_received n t) = flow_view t"
  "flow_view (feed_flow_control tot now t) = flow_view t"
  "flow_view (store_coalesce d c t) = flow_view t"
  "flow_view (set_coalesce_mode m t) = flow_view t"
  "flow_view (configure_flow_control cfg t) = flow_view t"
  "flow_view (set_ack_threshold n t) = flow_view t"
  "flow_view (set_open_timeout secs t) = flow_view t"
  "flow_view (tunnel_observe_rtt rtt now t) = flow_view t"
  "flow_view (tunnel_observe_bandwidth bps t) = flow_view t"
  "flow_view (set_tcp_connection b t) = flow_view t"
  "flow_view (set_callbacks sp ow tcp t) = flow_view t"
  by (simp_all add: flow_view_def section_defs Let_def split: prod.split ErrorSettleParty.split)

lemma flow_ok_abort: "flow_ok v \<Longrightarrow> flow_ok (v\<lparr>fv_abort := True\<rparr>)"
  by (simp add: flow_ok_def)

lemma flow_inv_abort: "flow_inv t \<Longrightarrow> flow_inv (publish_abort t)"
  by (simp add: flow_inv_def flow_ok_def flow_view_def publish_abort_def)

lemma flow_inv_claim: "flow_inv t \<Longrightarrow> flow_inv (snd (claim_terminal_error w t))"
  by (simp add: flow_inv_def flow_ok_def flow_view_def claim_terminal_error_def publish_abort_def Let_def)

lemma flow_inv_gate: "flow_inv t \<Longrightarrow> flow_inv (snd (seal_gate t))"
  by (simp add: flow_inv_def flow_ok_def flow_view_def seal_gate_def settle_error_for_shutdown_def
      publish_abort_def Let_def)

lemma flow_view_enter:
  "ob_driver_active (tn_out t) = (tn_pc t \<noteq> DP_Idle) \<Longrightarrow>
     flow_view (snd (driver_enter policy t)) = flow_view t"
  by (auto simp: flow_view_def driver_enter_def Let_def)

lemma flow_view_select:
  "tn_pc t = DP_Head \<Longrightarrow> flow_view (fst (driver_select arm now t)) = flow_view t"
  by (cases rule: driver_select_cases [where arm = arm and now = now and t = t])
    (auto simp: flow_view_def leave_driver_def drain_complete_def stop_driver_def Let_def)

lemma flow_view_control:
  "tn_pc t = DP_ErrorDone v \<Longrightarrow> flow_view (snd (error_commit v t)) = flow_view t"
  "tn_pc t = DP_CloseDone v \<Longrightarrow> flow_view (snd (close_commit v t)) = flow_view t"
  "tn_pc t = DP_Data p zc q \<Longrightarrow> flow_view (data_authorize t) = flow_view t"
  "tn_pc t = DP_Data p zc q \<Longrightarrow> flow_view (fst (data_abandon t)) = flow_view t"
  by (auto simp: flow_view_def driver_defs Let_def)

lemma flow_view_send_wire:
  assumes "wire_data w = []" and "send_wire_to_tox_typed env w t = (v, u)"
  shows "flow_view u = flow_view t" and "tn_pc u = tn_pc t"
  using send_wire_fields [OF assms(2)] event_data_other [OF assms(1), of v]
  by (auto simp: flow_view_def)

lemma flow_view_send_plain:
  assumes "plain_frame f"
  shows "flow_view (snd (send_frame_to_tox_typed env f t)) = flow_view t"
proof -
  have "wire_data (serialize f) = []"
    using assms by (auto simp: plain_frame_def intro: wire_data_other)
  then show ?thesis
    using flow_view_send_wire by (metis prod.collapse send_frame_to_tox_typed_def)
qed

lemma flow_view_close_send:
  assumes "tn_pc t = DP_Close"
  shows "flow_view (close_send env t) = flow_view t"
proof -
  obtain v u where s: "send_wire_to_tox_typed env (serialize (make_tunnel_close (tn_id t))) t = (v, u)"
    by fastforce
  have "wire_data (serialize (make_tunnel_close (tn_id t))) = []" by (simp add: wire_data_serialize)
  from flow_view_send_wire [OF this s] assms s show ?thesis
    by (simp add: close_send_def send_frame_to_tox_typed_def set_pc_def flow_view_def)
qed

lemma flow_view_error_send:
  assumes "tn_pc t = DP_Error w" and "wire_data w = []"
  shows "flow_view (error_send env w t) = flow_view t"
proof -
  obtain v u where s: "send_wire_to_tox_typed env w t = (v, u)" by fastforce
  from flow_view_send_wire [OF assms(2) s] assms s show ?thesis
    by (simp add: error_send_def set_pc_def flow_view_def)
qed

lemma flow_inv_reserve: "flow_inv t \<Longrightarrow> flow_inv (snd (reserve_window w n t))"
  by (auto simp: flow_inv_def flow_ok_def flow_view_def reserve_window_def Let_def)

lemma flow_inv_admit:
  "flow_inv t \<Longrightarrow> length data \<le> tn_reserved t \<Longrightarrow> flow_inv (snd (admit_data policy now data t))"
  by (auto simp: flow_inv_def flow_ok_def flow_view_def admit_data_def saturating_sub_def Let_def)

lemma flow_inv_credit:
  "flow_inv t \<Longrightarrow> emitted \<le> tn_emitted_high t \<Longrightarrow> flow_inv (snd (credit_ack emitted bytes t))"
  by (auto simp: flow_inv_def flow_ok_def flow_view_def credit_ack_def Let_def)

lemma flow_inv_release: "flow_inv t \<Longrightarrow> n \<le> tn_unreleased t \<Longrightarrow> flow_inv (release_window n t)"
  by (auto simp: flow_inv_def flow_ok_def flow_view_def release_window_def saturating_sub_def)

lemma flow_inv_count:
  assumes inv: "flow_inv t" and str: "stream_inv t" and pc: "tn_pc t = DP_DataAuth p zc q"
  shows "flow_inv (data_count now p zc q t)"
proof -
  have sel: "selected_ok p (stream_view t)"
    using str pc by (simp add: stream_inv_def stream_ok_def position_ok_def)
  then have len: "length p \<le> kMaxTcpPayloadPerToxFrame" by (simp add: selected_ok_def)
  have "length (sent_data (tn_events t) @ p) \<le> length (tn_accepted t)"
    using sel by (intro prefix_length_le) (simp add: selected_ok_def stream_view_def)
  with inv len pc show ?thesis
    by (rule_tac data_count_cases [of now p zc q t])
      (auto simp: flow_inv_def flow_ok_def flow_view_def)
qed

lemma flow_inv_data_send:
  assumes inv: "flow_inv t" and str: "stream_inv t" and pc: "tn_pc t = DP_DataCounted p zc eo sa"
  shows "flow_inv (data_send env p zc eo sa t)"
proof -
  have len: "length p \<le> kMaxTcpPayloadPerToxFrame" and gate: "tn_gate_closed t \<Longrightarrow> ob_abort_published (tn_out t)"
    using str pc by (auto simp: stream_inv_def stream_ok_def position_ok_def selected_ok_def)
  have len': "length p \<le> 65535" using len by (simp add: kMaxTcpPayloadPerToxFrame_def)
  have ev: "event_data (EvSend (serialize (make_tunnel_data (tn_id t) p)) v) = (if v = SO_Sent then p else [])"
    for v
    by (cases v) (simp_all add: wire_data_make_data len')
  show ?thesis
    unfolding data_send_eq [OF len]
    using inv gate pc ev
    by (auto simp: flow_inv_def flow_ok_def flow_view_def set_pc_def log_event_def Let_def)
qed

lemma flow_inv_data_commit:
  assumes inv: "flow_inv t" and pc: "tn_pc t = DP_DataDone n eo sa sent"
  shows "flow_inv (fst (data_commit now n eo sa sent t))"
  using inv pc
  by (cases sent)
    (auto simp: flow_inv_def flow_ok_def flow_view_def data_commit_def set_pc_def stop_driver_def Let_def)

lemma flow_step:
  "tun_step t u \<Longrightarrow> error_slot_inv t \<and> stream_inv t \<Longrightarrow> flow_inv t \<Longrightarrow> flow_inv u"
proof (induction rule: tun_step.induct)
  case (st_error_send t wire env)
  then have "wire_data wire = []" by (auto simp: error_slot_inv_def intro: wire_data_error)
  with st_error_send flow_view_error_send show ?case by (simp add: flow_inv_def)
next
  case (st_enter t policy)
  then have "ob_driver_active (tn_out t) = (tn_pc t \<noteq> DP_Idle)"
    by (simp add: stream_inv_def stream_ok_def stream_view_def)
  with st_enter flow_view_enter show ?case by (simp add: flow_inv_def)
qed (((simp only: flow_inv_def flow_simps flow_view_select flow_view_control flow_view_send_plain
        flow_view_close_send not_False_eq_True; fail) |
      (blast intro: flow_inv_abort flow_inv_claim flow_inv_gate flow_inv_reserve flow_inv_admit
        flow_inv_credit flow_inv_release flow_inv_count flow_inv_data_send flow_inv_data_commit))+)

lemma flow_new: "flow_inv (tunnel_new i w now)"
  by (simp add: flow_inv_def flow_ok_def flow_view_def tunnel_new_def)

interpretation flow: tunnel_invariant "\<lambda>t. (error_slot_inv t \<and> stream_inv t) \<and> flow_inv t"
  by unfold_locales
    (use stream.initial stream.preserved flow_new flow_step in \<open>blast+\<close>)

end
