(* ===== verification/Tunnel_Safety.thy ===== *)
theory Tunnel_Safety
  imports Tunnel_Flow
begin

text \<open>
  The safety properties of a tunnel, read off the invariants of \<open>Tunnel_Stream\<close>, \<open>Tunnel_Control\<close> and
  \<open>Tunnel_Flow\<close> for every reachable state, and that the member functions are schedules of the step
  relation. A small concrete tunnel shows each of them at work.
\<close>

section \<open>A concrete tunnel\<close>

text \<open>An environment whose transport gives one verdict to everything, and a connected tunnel in it.\<close>

definition const_env :: "SendOutcome \<Rightarrow> TunnelEnv" where
  "const_env v = \<lparr>te_tox = (\<lambda>_ _. v), te_tcp = (\<lambda>_ _. True), te_now = (\<lambda>_. 0)\<rparr>"

definition demo0 :: Tunnel where
  "demo0 = store_coalesce 0 4 (store_state TS_Connected (set_callbacks True False False (tunnel_new 7 64 0)))"

lemma demo0_path: "tun_path (tunnel_new 7 64 0) demo0"
proof -
  let ?t = "set_callbacks True False False (tunnel_new 7 64 0)"
  have p: "tun_path (tunnel_new 7 64 0) (store_state TS_Connected ?t)"
    by (intro path_intros path_refl) (simp add: set_callbacks_def tunnel_new_def terminal_def)
  show ?thesis
    unfolding demo0_def
    by (rule path_step [OF p st_coalesce]) (simp_all add: kMaxTcpPayloadPerToxFrame_def)
qed

lemma demo0_reachable: "tun_reachable demo0"
  unfolding tun_reachable_def using demo0_path by blast

lemma reachable_path: "tun_reachable t \<Longrightarrow> tun_path t u \<Longrightarrow> tun_reachable u"
  unfolding tun_reachable_def using path_trans by blast

lemma reachable_high: "tun_reachable t \<Longrightarrow> fl_emitted (tn_flow t) \<le> tn_emitted_high t"
  using flow.reachable [of t] by (simp add: flow_inv_def flow_ok_def flow_view_def)

lemma reachable_call: "tun_reachable t \<Longrightarrow> exec_call fuel env c t = Some u \<Longrightarrow> tun_reachable u"
  using path_call [OF path_refl reachable_high] reachable_path by blast

lemmas run_defs =
  section_defs driver_defs driver_select_def drain_complete_def pop_spent_cohorts_def
  data_frame_size_def cohort_pending_def data_pass_def data_count_def data_send_def
  send_frame_to_tox_def send_frame_to_tox_typed_def send_wire_to_tox_typed_def consume_front_def
  control_obligation_eligible_def fifo_append_def coalesce_arm_timer_def
  driver_pass_def is_connected_def effective_window_def send_data_to_tox_def wc_new_def wc_configure_def wc_observe_def
  wc_decide_def pin_policy_def tunnel_new_def kMaxTcpPayloadPerToxFrame_def

lemma demo_send:
  "\<exists>u. exec_call 4 (const_env SO_Sent) (Call_send_data [1, 2, 3, 4, 5]) demo0 = Some u
     \<and> tn_events u = [EvSend (serialize (make_tunnel_data 7 [1, 2, 3, 4, 5])) SO_Sent]
     \<and> tn_accepted u = [1, 2, 3, 4, 5] \<and> tn_pc u = DP_Idle \<and> \<not> ob_abort_published (tn_out u)
     \<and> tn_state u = TS_Connected"
  by (simp add: demo0_def const_env_def run_defs Let_def numeral_eq_Suc)

definition demo1 :: Tunnel where
  "demo1 = the (exec_call 4 (const_env SO_Sent) (Call_send_data [1, 2, 3, 4, 5]) demo0)"

lemma demo1_run: "exec_call 4 (const_env SO_Sent) (Call_send_data [1, 2, 3, 4, 5]) demo0 = Some demo1"
  using demo_send unfolding demo1_def by force

lemma demo1_fields:
  "tn_events demo1 = [EvSend (serialize (make_tunnel_data 7 [1, 2, 3, 4, 5])) SO_Sent]"
  "tn_accepted demo1 = [1, 2, 3, 4, 5]" "tn_pc demo1 = DP_Idle"
  "\<not> ob_abort_published (tn_out demo1)"
  using demo_send demo1_run by auto

lemma demo1_reachable: "tun_reachable demo1"
  by (rule reachable_call [OF demo0_reachable demo1_run])

section \<open>Properties\<close>

text \<open>
  Claim C2: the tunnel is a lossless, ordered byte stream under every interleaving. In every
  reachable state the DATA bytes the peer decodes from the messages the transport accepted are a
  prefix of the bytes accepted from the local side; and while no Abort is published and no frame is
  being emitted, what was sent followed by what is still in the FIFO is exactly what was accepted.
\<close>

theorem tunnel_stream_in_order:
  assumes "tun_reachable t"
  shows "prefix (sent_data (tn_events t)) (tn_accepted t)
    \<and> (\<not> ob_abort_published (tn_out t) \<and> tn_pc t = DP_Idle \<longrightarrow>
         sent_data (tn_events t) @ fifo_bytes (ob_fifo (tn_out t)) = tn_accepted t)"
  using stream.reachable [OF assms]
  by (auto simp: stream_inv_def stream_ok_def position_ok_def stream_view_def)

theorem tunnel_stream_in_order_witness:
  "prefix (sent_data (tn_events demo1)) (tn_accepted demo1) \<and> tn_accepted demo1 = [1, 2, 3, 4, 5]
   \<and> sent_data (tn_events demo1) @ fifo_bytes (ob_fifo (tn_out demo1)) = [1, 2, 3, 4, 5]"
  using tunnel_stream_in_order [OF demo1_reachable] demo1_fields by simp

text \<open>
  Claim C3: the control frames. In every reachable state the transport has accepted at most one
  TUNNEL_CLOSE and at most one TUNNEL_ERROR of this tunnel, and after the accepted TUNNEL_ERROR
  neither DATA nor CLOSE was offered to it.
\<close>

theorem tunnel_control_frames:
  assumes "tun_reachable t"
  shows "accepted_frames TUNNEL_CLOSE (tn_events t) \<le> 1
    \<and> accepted_frames TUNNEL_ERROR (tn_events t) \<le> 1
    \<and> quiet_after_error (tn_events t)"
  using control.reachable [OF assms] by (simp add: control_inv_def control_ok_def control_view_def)

theorem tunnel_control_frames_witness:
  "accepted_frames TUNNEL_CLOSE (tn_events demo1) \<le> 1 \<and> quiet_after_error (tn_events demo1)"
  using tunnel_control_frames [OF demo1_reachable] by simp

text \<open>
  Claim C18: the CLOSE comes behind the whole stream. When the driver of a reachable state selects
  the CLOSE and no Abort is published, every byte accepted so far has been accepted by the transport.
\<close>

theorem close_selected_after_drain:
  assumes "tun_reachable t" and "tn_pc t = DP_Head" and "\<not> ob_abort_published (tn_out t)"
    and "tn_pc (fst (driver_select arm now t)) = DP_Close"
  shows "sent_data (tn_events t) = tn_accepted t"
proof -
  have "sent_data (tn_events t) @ fifo_bytes (ob_fifo (tn_out t)) = tn_accepted t"
    using stream.reachable [OF assms(1)] assms(2,3)
    by (simp add: stream_inv_def stream_ok_def position_ok_def stream_view_def)
  moreover have "fifo_bytes (ob_fifo (tn_out t)) = []"
  proof (cases rule: driver_select_cases [where arm = arm and now = now and t = t])
    case Close
    then show ?thesis by (metis fifo_bytes_pop fifo_bytes_simps(1) pop_spent_fields(1))
  qed (use assms(2,4) in \<open>auto simp: drain_complete_def driver_defs Let_def split: if_splits\<close>)
  ultimately show ?thesis by simp
qed

definition demo_close :: Tunnel where
  "demo_close = snd (driver_enter FlushAll (snd (request_close demo0)))"

lemma demo_close_eval:
  "tn_pc demo_close = DP_Head" "\<not> ob_abort_published (tn_out demo_close)"
  "tn_pc (fst (driver_select True 0 demo_close)) = DP_Close"
  by (simp_all add: demo_close_def demo0_def run_defs Let_def)

theorem close_selected_after_drain_witness:
  "tn_pc (fst (driver_select True 0 demo_close)) = DP_Close
   \<and> sent_data (tn_events demo_close) = tn_accepted demo_close"
proof -
  have "tun_reachable demo_close"
    unfolding demo_close_def
    by (intro reachable_path [OF demo0_reachable] path_step [OF _ st_enter] path_step [OF _ st_request]
        path_refl)
  from close_selected_after_drain [OF this demo_close_eval] demo_close_eval(3) show ?thesis by simp
qed

text \<open>
  Claim C7: the outbound FIFO is bounded against forged acknowledgements. In every reachable state
  in which no Abort is published and no frame is being emitted, whatever the peer acknowledged, the
  acknowledged total exceeds the emitted one by at most one frame, and the FIFO holds at most the
  largest window an admission was checked against plus one frame.
\<close>

theorem tunnel_fifo_bounded:
  assumes "tun_reachable t" and "\<not> ob_abort_published (tn_out t)" and "tn_pc t = DP_Idle"
  shows "fl_acked (tn_flow t) \<le> fl_emitted (tn_flow t) + kMaxTcpPayloadPerToxFrame
    \<and> ob_fifo_pending (tn_out t) \<le> tn_window_high t + kMaxTcpPayloadPerToxFrame"
proof -
  have f: "flow_ok (flow_view t)" and s: "stream_ok (stream_view t)"
    using flow.reachable [OF assms(1)] by (simp_all add: flow_inv_def stream_inv_def)
  have "sent_data (tn_events t) @ fifo_bytes (ob_fifo (tn_out t)) = tn_accepted t"
    and p: "ob_fifo_pending (tn_out t) = length (fifo_bytes (ob_fifo (tn_out t)))"
    using s assms(2,3) by (auto simp: stream_ok_def position_ok_def stream_view_def)
  then have "ob_fifo_pending (tn_out t) + length (sent_data (tn_events t)) = length (tn_accepted t)"
    by (metis add.commute length_append)
  with f assms(2,3) show ?thesis
    by (auto simp: flow_ok_def flow_view_def)
qed

theorem tunnel_fifo_bounded_witness:
  "fl_acked (tn_flow demo1) \<le> fl_emitted (tn_flow demo1) + kMaxTcpPayloadPerToxFrame
   \<and> ob_fifo_pending (tn_out demo1) \<le> tn_window_high demo1 + kMaxTcpPayloadPerToxFrame"
  using tunnel_fifo_bounded [OF demo1_reachable demo1_fields(4,3)] .

definition demo_counted :: Tunnel where
  "demo_counted = data_count 0 [9] False False (data_authorize (fst (driver_select True 0
     (snd (driver_enter FlushAll (snd (admit_data CP_Batch 0 [9] (snd (reserve_window 64 1 demo0)))))))))"

definition demo_overshoot :: Tunnel where
  "demo_overshoot = fst (data_commit 0 1 1 False False
     (data_send (const_env SO_SendqFull) [9] False 1 False (snd (credit_ack 1 1 demo_counted))))"

lemma demo_counted_reachable: "tun_reachable demo_counted"
proof -
  let ?t1 = "snd (reserve_window 64 1 demo0)"
  let ?t2 = "snd (admit_data CP_Batch 0 [9] ?t1)"
  let ?t3 = "snd (driver_enter FlushAll ?t2)"
  let ?t4 = "fst (driver_select True 0 ?t3)"
  have "tun_path demo0 ?t1" by (rule path_step [OF path_refl st_reserve])
  then have "tun_path demo0 ?t2"
    by (rule path_step [OF _ st_admit]) (simp add: demo0_def run_defs Let_def)
  then have p3: "tun_path demo0 ?t3" by (rule path_step [OF _ st_enter])
  have "tn_pc ?t3 = DP_Head" by (simp add: demo0_def run_defs Let_def)
  then have p4: "tun_path demo0 ?t4" by (rule path_step [OF p3 st_select])
  have "tn_pc ?t4 = DP_Data [9] False False" by (simp add: demo0_def run_defs Let_def)
  then have p5: "tun_path demo0 (data_authorize ?t4)" by (rule path_step [OF p4 st_authorize])
  have "tn_pc (data_authorize ?t4) = DP_DataAuth [9] False False"
    by (simp add: demo0_def run_defs Let_def)
  then have "tun_path demo0 demo_counted"
    unfolding demo_counted_def by (rule path_step [OF p5 st_count])
  then show ?thesis by (rule reachable_path [OF demo0_reachable])
qed

lemma data_send_flow: "tn_flow (data_send env p zc eo sa t) = tn_flow t"
  by (auto simp: data_send_def send_owned_data_to_tox_def send_frame_to_tox_def
      send_frame_to_tox_typed_def send_wire_to_tox_typed_def set_pc_def log_event_def Let_def
      split: prod.splits if_splits option.splits)

lemma data_send_pc: "\<exists>sent. tn_pc (data_send env p zc eo sa t) = DP_DataDone (length p) eo sa sent"
  by (auto simp: data_send_def set_pc_def split: prod.splits)

lemma refused_commit_flow:
  "fl_emitted (tn_flow (fst (data_commit now n eo sa False t))) = fl_emitted (tn_flow t) - n
   \<and> fl_acked (tn_flow (fst (data_commit now n eo sa False t))) = fl_acked (tn_flow t)"
  by (auto simp: data_commit_def set_pc_def stop_driver_def Let_def)

lemma credit_ack_flow:
  "fl_emitted (tn_flow (snd (credit_ack e b t))) = fl_emitted (tn_flow t)
   \<and> fl_acked (tn_flow (snd (credit_ack e b t))) = max (fl_acked (tn_flow t)) (min (fl_acked (tn_flow t) + b) e)
   \<and> tn_pc (snd (credit_ack e b t)) = tn_pc t"
  by (auto simp: credit_ack_def Let_def)

lemma inflight_counted:
  assumes "tun_reachable t" and "\<not> ob_abort_published (tn_out t)" and "tn_pc t = DP_DataCounted p zc eo sa"
  shows "length p \<le> fl_emitted (tn_flow t)"
  using flow.reachable [OF assms(1)] assms(2,3) by (simp add: flow_inv_def flow_ok_def flow_view_def)

text \<open>
  Claim C25: the acknowledged total can exceed the emitted one. In every reachable state with no
  Abort published in which a frame was counted and is inside the transport, let an acknowledgement
  be credited that reaches beyond what was emitted before this frame. If the transport then refuses
  the frame, the commit takes the frame's bytes back from the emitted total but not from the
  acknowledged one, so the state reached, which is reachable, has acknowledged more than it emitted.
\<close>

theorem forged_ack_overshoots:
  assumes "tun_reachable t" and "\<not> ob_abort_published (tn_out t)"
    and "tn_pc t = DP_DataCounted p zc eo sa" and "p \<noteq> []"
    and "fl_emitted (tn_flow t) < fl_acked (tn_flow t) + bytes + length p"
    and "t1 = snd (credit_ack (fl_emitted (tn_flow t)) bytes t)"
    and "t2 = data_send env p zc eo sa t1" and "tn_pc t2 = DP_DataDone (length p) eo sa False"
    and "u = fst (data_commit now (length p) eo sa False t2)"
  shows "tun_reachable u \<and> fl_emitted (tn_flow u) = fl_emitted (tn_flow t) - length p
    \<and> fl_acked (tn_flow u) = max (fl_acked (tn_flow t)) (min (fl_acked (tn_flow t) + bytes) (fl_emitted (tn_flow t)))
    \<and> fl_emitted (tn_flow u) < fl_acked (tn_flow u)"
proof -
  have pc1: "tn_pc t1 = DP_DataCounted p zc eo sa" using assms(3,6) credit_ack_flow by simp
  have "tun_path t t1" unfolding assms(6) by (rule path_step [OF path_refl st_credit [OF reachable_high [OF assms(1)]]])
  then have "tun_path t t2" unfolding assms(7) by (rule path_step [OF _ st_data_send [OF pc1]])
  then have "tun_path t u" unfolding assms(9) by (rule path_step [OF _ st_data_commit [OF assms(8)]])
  then have "tun_reachable u" by (rule reachable_path [OF assms(1)])
  moreover have "fl_emitted (tn_flow u) = fl_emitted (tn_flow t) - length p
      \<and> fl_acked (tn_flow u) = max (fl_acked (tn_flow t)) (min (fl_acked (tn_flow t) + bytes) (fl_emitted (tn_flow t)))"
    using assms(6,7,9) by (simp add: refused_commit_flow data_send_flow credit_ack_flow)
  moreover have "0 < length p" using assms(4) by simp
  ultimately show ?thesis using inflight_counted [OF assms(1-3)] assms(5) by linarith
qed

lemma demo_counted_fields:
  "tn_pc demo_counted = DP_DataCounted [9] False 1 False" "\<not> ob_abort_published (tn_out demo_counted)"
  "fl_emitted (tn_flow demo_counted) = 1" "fl_acked (tn_flow demo_counted) = 0"
  "tn_pc (data_send (const_env SO_SendqFull) [9] False 1 False (snd (credit_ack 1 1 demo_counted)))
     = DP_DataDone (length [9::byte]) 1 False False"
  by (simp_all add: demo_counted_def demo0_def run_defs const_env_def Let_def)

theorem forged_ack_overshoots_witness:
  "tun_reachable demo_overshoot \<and> fl_emitted (tn_flow demo_overshoot) < fl_acked (tn_flow demo_overshoot)"
  using forged_ack_overshoots [OF demo_counted_reachable demo_counted_fields(2,1) _ _ refl refl _ refl,
      of 1 "const_env SO_SendqFull" 0] demo_counted_fields
  by (simp add: demo_overshoot_def)

text \<open>
  Claim C6: the member functions refine the step relation. From a reachable state, every public
  state-changing member function of the tunnel but \<open>reset_statistics\<close>, and every timer handler, run
  to completion with any transport, TCP side and clock, ends in a state that a path of critical
  sections reaches. \<open>reset_statistics\<close>, which nothing in the program calls, forgets the window
  accounting and is no critical section of the model; the hooks of the unit tests are left out too.
\<close>

theorem calls_are_schedules:
  assumes "tun_reachable t" and "exec_call fuel env c t = Some u"
  shows "tun_path t u"
  by (rule path_call [OF path_refl reachable_high [OF assms(1)] assms(2)])

theorem calls_are_schedules_witness: "tun_path demo0 demo1"
  by (rule calls_are_schedules [OF demo0_reachable demo1_run])

text \<open>
  Terminal states are final. Once a tunnel is Closed or in Error, no entry point changes
  its state any more.
\<close>

theorem terminal_states_final:
  assumes "tun_reachable t" and "terminal (tn_state t)" and "exec_call fuel env c t = Some u"
  shows "tn_state u = tn_state t"
  using path_terminal [OF path_call [OF path_refl reachable_high [OF assms(1)] assms(3)] assms(2)] .

end
