(* ===== verification/Tunnel_Progress.thy ===== *)
theory Tunnel_Progress
  imports Tunnel_Safety
begin

text \<open>
  Progress of the emission driver. Every pass of a flush hands bytes, the CLOSE or the ERROR to the
  transport or leaves the loop, so a flush returns; with a transport that accepts what it is given it
  delivers everything that was accepted. A run for full frames only has no such bound: the last
  section shows the state in which it spins.
\<close>

section \<open>Every pass makes progress\<close>

definition obligations :: "Tunnel \<Rightarrow> nat" where
  "obligations t =
     ob_fifo_pending (tn_out t) + (if es_pending (tn_err t) \<noteq> None then 1 else 0)
     + (if cf_emit_requested (tn_close t) then 1 else 0)"

text \<open>What the loop keeps at its head: the invariants, the position and the flush request.\<close>

definition head_inv :: "Tunnel \<Rightarrow> bool" where
  "head_inv t \<longleftrightarrow> tun_reachable t \<and> tn_pc t = DP_Head \<and> ob_flush_all_requested (tn_out t)"

lemma reachable_step: "tun_reachable t \<Longrightarrow> tun_step t u \<Longrightarrow> tun_reachable u"
  using path_step [OF path_refl] reachable_path by blast

named_theorems quiet_simps \<open>notifications leave the outbound side alone or lower its obligations\<close>

lemma notify_out [quiet_simps]:
  "tn_out (maybe_notify_id_releasable t) = tn_out t"
  "tn_err (maybe_notify_id_releasable t) = tn_err t"
  "tn_close (maybe_notify_id_releasable t) = tn_close t"
  "tn_half (maybe_notify_id_releasable t) = tn_half t"
  "tn_out (notify_close_once t) = tn_out t"
  "tn_err (notify_close_once t) = tn_err t"
  "tn_close (notify_close_once t) = tn_close t"
  "tn_half (notify_close_once t) = tn_half t"
  by (simp_all add: maybe_notify_id_releasable_def notify_close_once_def log_event_def)

lemma arrive_out [quiet_simps]:
  "tn_out (arrive_terminal_error_party party defer t) = tn_out t"
  "es_pending (tn_err (arrive_terminal_error_party party defer t)) = es_pending (tn_err t)"
  "tn_half (arrive_terminal_error_party party defer t) = tn_half t"
  by (auto simp: arrive_terminal_error_party_def record_arrival_def run_terminal_error_finalizer_def
      cancel_close_retry_def fence_close_retry_def lower_error_fence_def quiet_simps Let_def
      split: ErrorSettleParty.splits)

lemma arrive_requested:
  "cf_emit_requested (tn_close (arrive_terminal_error_party party defer t)) \<Longrightarrow>
     cf_emit_requested (tn_close t)"
  by (auto simp: arrive_terminal_error_party_def record_arrival_def run_terminal_error_finalizer_def
      cancel_close_retry_def fence_close_retry_def lower_error_fence_def quiet_simps Let_def
      split: ErrorSettleParty.splits if_splits)

lemma consume_flush [simp]: "ob_flush_all_requested (consume_front n ob) = ob_flush_all_requested ob"
  by (simp add: consume_front_def Let_def split: list.split)

lemma send_wire_out:
  assumes "send_wire_to_tox_typed env w t = (v, u)"
  shows "tn_out u = tn_out t" "tn_err u = tn_err t" "tn_close u = tn_close t" "tn_half u = tn_half t"
  using send_wire_fields [OF assms] by auto

lemma flush_frame_size:
  "ob_flush_all_requested ob \<Longrightarrow> data_frame_size ob \<noteq> None"
  by (simp add: data_frame_size_def Let_def)

lemma eligible_means_selectable:
  assumes "control_obligation_eligible t"
  shows "es_pending (tn_err t) \<noteq> None \<and> \<not> es_retry_armed (tn_err t) \<and> \<not> es_attempt_in_flight (tn_err t)
    \<or> cf_emit_requested (tn_close t) \<and> cf_state (tn_close t) = CF_Owed
      \<and> \<not> cf_retry_cancelled (tn_close t) \<and> \<not> es_claimed (tn_err t)"
  using assms by (auto simp: control_obligation_eligible_def Let_def split: if_splits)

text \<open>Each pass either leaves the loop or comes back to the head with fewer obligations.\<close>

lemma error_pass_progress:
  assumes "es_pending (tn_err t) \<noteq> None" and "ob_flush_all_requested (tn_out t)"
    and "error_pass env w t = (u, Again)"
  shows "obligations u < obligations t \<and> ob_flush_all_requested (tn_out u) \<and> tn_half u = tn_half t"
proof -
  obtain v t1 where s: "send_wire_to_tox_typed env w t = (v, t1)" by fastforce
  note out = send_wire_out [OF s]
  let ?t2 = "set_pc (DP_ErrorDone v) t1"
  have e: "error_send env w t = ?t2" using s by (simp add: error_send_def)
  obtain b t3 where c: "error_commit v ?t2 = (b, t3)" by fastforce
  with assms(3) e have b: "b" "u = arrive_terminal_error_party Transport False t3"
    by (auto simp: error_pass_def Let_def pc_simps split: bool.splits)
  then have "tn_out t3 = tn_out t" "es_pending (tn_err t3) = None" "tn_close t3 = tn_close t"
      "tn_half t3 = tn_half t"
    using c out by (auto simp: error_commit_def set_pc_def Let_def split: if_splits)
  then show ?thesis
    using assms(1,2) arrive_requested [of Transport False t3] b(2)
    by (auto simp: obligations_def quiet_simps)
qed

lemma close_pass_progress:
  assumes "\<not> cf_emit_requested (tn_close t)" and "close_pass env t = (u, ctl)"
  shows "tn_out u = tn_out t \<and> tn_err u = tn_err t \<and> tn_half u = tn_half t
    \<and> \<not> cf_emit_requested (tn_close u) \<and> ctl = Again"
proof -
  obtain v t1 where s: "send_wire_to_tox_typed env (serialize (make_tunnel_close (tn_id t))) t = (v, t1)"
    by fastforce
  note out = send_wire_out [OF s]
  let ?t2 = "set_pc (DP_CloseDone v) t1"
  have e: "close_send env t = ?t2" using s by (simp add: close_send_def send_frame_to_tox_typed_def)
  obtain b t3 where c: "close_commit v ?t2 = (b, t3)" by fastforce
  with assms(2) e have u: "u = (if b then t3 else maybe_notify_id_releasable t3)" "ctl = Again"
    by (auto simp: close_pass_def Let_def pc_simps split: bool.splits)
  have "tn_out t3 = tn_out t" "tn_err t3 = tn_err t" "tn_half t3 = tn_half t"
      "cf_emit_requested (tn_close t3) = cf_emit_requested (tn_close t)"
    using c out by (auto simp: close_commit_def set_pc_def Let_def split: if_splits)
  then show ?thesis using assms(1) u by (auto simp: quiet_simps)
qed

text \<open>A DATA pass in a state whose FIFO is not aborted: the outcome is that of the send.\<close>

lemma data_pass_cases:
  assumes "length p \<le> kMaxTcpPayloadPerToxFrame" and "tn_pc t = DP_Data p zc q"
    and "\<not> ob_abort_published (tn_out t)"
    and "\<not> (es_pending (tn_err t) \<noteq> None \<and> \<not> es_retry_armed (tn_err t)
            \<and> \<not> es_attempt_in_flight (tn_err t))"
  obtains (Sent) u where "data_pass env p zc q t = (u, Again)"
      "tn_out u = consume_front (length p) (tn_out t)"
      "tn_err u = tn_err t" "tn_close u = tn_close t" "tn_half u = tn_half t"
  | (Refused) u where "data_pass env p zc q t = (u, Exit EO_Backpressured False False False)"
      "\<not> tn_gate_closed t" "\<not> (data_called p zc t \<and> (\<forall>evs w. te_tox env evs w = SO_Sent))"
proof -
  let ?t1 = "set_pc (DP_DataAuth p zc q) t"
  have auth: "data_authorize t = ?t1" using assms(2,3) by (simp add: data_authorize_def)
  obtain sa sm where cnt: "data_count (te_now env (tn_events t)) p zc q ?t1 =
    ?t1\<lparr>tn_flow := (tn_flow ?t1)\<lparr>fl_emitted := fl_emitted (tn_flow ?t1) + length p\<rparr>, tn_sampler := sm,
      tn_pc := DP_DataCounted p zc (fl_emitted (tn_flow ?t1) + length p) sa,
      tn_emitted_high := max (tn_emitted_high ?t1) (fl_emitted (tn_flow ?t1) + length p)\<rparr>"
    (is "_ = ?t2")
    by (rule data_count_cases)
  let ?eo = "fl_emitted (tn_flow ?t1) + length p"
  let ?w = "serialize (make_tunnel_data (tn_id ?t2) p)"
  let ?v = "te_tox env (tn_events ?t2) ?w"
  let ?t3 = "data_send env p zc ?eo sa ?t2"
  let ?called = "data_called p zc ?t2"
  let ?sent = "tn_gate_closed t \<or> ?called \<and> ?v = SO_Sent"
  have called: "?called = data_called p zc t" by (simp add: data_called_def set_pc_def)
  have pc3: "tn_pc ?t3 = DP_DataDone (length p) ?eo sa ?sent"
    unfolding data_send_eq [OF assms(1)] by (simp add: Let_def pc_simps set_pc_def log_event_def)
  have out3: "tn_out ?t3 = tn_out t" "tn_err ?t3 = tn_err t" "tn_close ?t3 = tn_close t"
      "tn_half ?t3 = tn_half t"
    unfolding data_send_eq [OF assms(1)] by (simp_all add: Let_def set_pc_def log_event_def)
  have pass: "data_pass env p zc q t
      = data_commit (te_now env (tn_events ?t3)) (length p) ?eo sa ?sent ?t3"
    using assms(3) auth cnt pc3 by (simp add: data_pass_def Let_def)
  obtain t3 where t3: "?t3 = t3" by blast
  note out3 = out3 [unfolded t3] and pass = pass [unfolded t3]
  show ?thesis
  proof (cases ?sent)
    case True
    have "data_pass env p zc q t
        = (set_pc DP_Head (t3\<lparr>tn_out := consume_front (length p) (tn_out t3)\<rparr>), Again)"
      unfolding pass data_commit_def if_P [OF True] ..
    then show ?thesis
      by (rule Sent) (simp_all add: set_pc_def out3)
  next
    case False
    have "data_pass env p zc q t = (stop_driver (t3\<lparr>
          tn_out := coalesce_arm_timer True (te_now env (tn_events t3)) (tn_out t3),
          tn_flow := (tn_flow t3)\<lparr>fl_emitted := fl_emitted (tn_flow t3) - length p\<rparr>,
          tn_sampler := (if sa then drop_rtt_sample ?eo (tn_sampler t3) else tn_sampler t3)\<rparr>),
        Exit EO_Backpressured False False False)"
      unfolding pass data_commit_def if_not_P [OF False] Let_def using assms(4) out3(2) by auto
    moreover have "\<not> tn_gate_closed t" using False by blast
    moreover have "\<not> (data_called p zc t \<and> (\<forall>evs w. te_tox env evs w = SO_Sent))"
      using False called by blast
    ultimately show ?thesis by (rule Refused)
  qed
qed

lemma reachable_stream: "tun_reachable t \<Longrightarrow> stream_ok (stream_view t)"
  using stream.reachable [of t] by (simp add: stream_inv_def)

text \<open>What a selected DATA frame is, in a reachable state.\<close>

lemma selected_frame:
  assumes "tun_reachable t" and "tn_pc t = DP_Data p zc q"
  shows "p \<noteq> []" "length p \<le> kMaxTcpPayloadPerToxFrame"
    and "ob_fifo (tn_out t) \<noteq> [] \<Longrightarrow> \<not> ob_abort_published (tn_out t)"
    and "\<not> ob_abort_published (tn_out t) \<Longrightarrow>
      ob_fifo (tn_out t) \<noteq> [] \<and> length p \<le> ob_fifo_pending (tn_out t)"
proof -
  have ok: "stream_ok (stream_view t)" by (rule reachable_stream [OF assms(1)])
  have "sv_pc (stream_view t) = DP_Data p zc q" using assms(2) by (simp add: stream_view_def)
  with ok have sel: "selected_ok p (stream_view t)" by (simp add: stream_ok_def position_ok_def)
  from sel show "p \<noteq> []" "length p \<le> kMaxTcpPayloadPerToxFrame" by (simp_all add: selected_ok_def)
  show "ob_fifo (tn_out t) \<noteq> [] \<Longrightarrow> \<not> ob_abort_published (tn_out t)"
    using ok by (auto simp: stream_ok_def stream_view_def)
  assume "\<not> ob_abort_published (tn_out t)"
  then have "front_has (length p) (ob_fifo (tn_out t))"
    using sel by (simp add: selected_ok_def stream_view_def)
  with front_has_length [OF this] ok show "ob_fifo (tn_out t) \<noteq> [] \<and> length p \<le> ob_fifo_pending (tn_out t)"
    by (simp add: front_has_def stream_ok_def stream_view_def)
qed

lemma consume_pending: "ob_fifo ob \<noteq> [] \<Longrightarrow> ob_fifo_pending (consume_front n ob) = ob_fifo_pending ob - n"
  by (cases "ob_fifo ob") (simp_all add: consume_front_def Let_def)

lemma select_reachable:
  "head_inv t \<Longrightarrow> driver_select arm now t = (u, ctl) \<Longrightarrow> tun_reachable u"
  using reachable_step [OF _ st_select, of t arm now] by (simp add: head_inv_def)

lemma pass_keeps_head:
  assumes "head_inv t" and "driver_pass env arm t = (u, Again)"
  shows "tun_reachable u \<and> tn_pc u = DP_Head"
  using path_pass [OF path_refl _ assms(2)] assms(1) reachable_path unfolding head_inv_def by blast

text \<open>The cases of one pass of a flush.\<close>

lemma flush_pass_cases:
  assumes "head_inv t" and "driver_pass env arm t = (u, ctl)"
  obtains
    (Progress) "ctl = Again" "obligations u < obligations t" "ob_flush_all_requested (tn_out u)"
      "tn_half u = tn_half t"
  | (Parked) evs w where "ctl = Exit EO_Backpressured False False False" "te_tox env evs w = SO_SendqFull"
  | (Refused) p zc q t1 where "ctl = Exit EO_Backpressured False False False"
      "driver_select arm (te_now env (tn_events t)) t = (t1, Selected)" "tn_pc t1 = DP_Data p zc q"
      "\<not> (data_called p zc t1 \<and> (\<forall>evs w. te_tox env evs w = SO_Sent))"
  | (Drained) "drain_complete (t\<lparr>tn_out := pop_spent_cohorts (tn_out t)\<rparr>) = (u, ctl)"
      "ob_fifo (pop_spent_cohorts (tn_out t)) = []"
proof -
  let ?now = "te_now env (tn_events t)"
  have flush: "ob_flush_all_requested (tn_out t)" using assms(1) by (simp add: head_inv_def)
  show ?thesis
  proof (cases rule: driver_select_cases [where arm = arm and now = ?now and t = t])
    case Error
    let ?t1 = "t\<lparr>tn_err := (tn_err t)\<lparr>es_attempt_in_flight := True\<rparr>,
      tn_pc := DP_Error (pe_wire (the (es_pending (tn_err t))))\<rparr>"
    let ?w = "pe_wire (the (es_pending (tn_err t)))"
    have pass: "error_pass env ?w ?t1 = (u, ctl)"
      using assms(2) Error(4) by (simp add: driver_pass_def)
    show ?thesis
    proof (cases "ctl = Again")
      case True
      then have "obligations u < obligations ?t1 \<and> ob_flush_all_requested (tn_out u) \<and> tn_half u = tn_half ?t1"
        using error_pass_progress [of ?t1 env ?w u] pass Error(1) flush by simp
      then show ?thesis using True by (intro Progress) (simp_all add: obligations_def)
    next
      case False
      obtain v t2 where s: "send_wire_to_tox_typed env ?w ?t1 = (v, t2)" by fastforce
      have "ctl = Exit EO_Backpressured False False False \<and> v = SO_SendqFull"
        using pass s False
        by (auto simp: error_pass_def error_send_def error_commit_def Let_def pc_simps
            split: prod.splits bool.splits if_splits)
      moreover from this s have "te_tox env (tn_events ?t1) ?w = SO_SendqFull"
        by (auto simp: send_wire_to_tox_typed_def Let_def split: if_splits)
      ultimately show ?thesis using Parked by blast
    qed
  next
    case (Data n)
    let ?ob = "pop_spent_cohorts (tn_out t)"
    obtain p zc q t1 where t1: "driver_select arm ?now t = (t1, Selected)" "tn_pc t1 = DP_Data p zc q"
      "tn_out t1 = ?ob" "tn_err t1 = tn_err t" "tn_close t1 = tn_close t" "tn_half t1 = tn_half t"
      using Data(4) by simp
    note r1 = select_reachable [OF assms(1) t1(1)]
    note sel = selected_frame [OF r1 t1(2)]
    have na: "\<not> ob_abort_published (tn_out t1)" using sel(3) Data(2) t1(3) by simp
    have pass: "data_pass env p zc q t1 = (u, ctl)"
      using assms(2) t1(1,2) by (simp add: driver_pass_def)
    have ne: "\<not> (es_pending (tn_err t1) \<noteq> None \<and> \<not> es_retry_armed (tn_err t1)
        \<and> \<not> es_attempt_in_flight (tn_err t1))" using Data(1) t1(4) by simp
    show ?thesis
    proof (rule data_pass_cases [OF sel(2) t1(2) na ne, of env])
      fix u'
      assume s: "data_pass env p zc q t1 = (u', Again)"
        "tn_out u' = consume_front (length p) (tn_out t1)"
        "tn_err u' = tn_err t1" "tn_close u' = tn_close t1" "tn_half u' = tn_half t1"
      have "ob_fifo_pending (tn_out u') < ob_fifo_pending (tn_out t)"
        using s(2) sel(1,4) na consume_pending [of "tn_out t1" "length p"] t1(3)
        by (cases p) (simp_all add: order.strict_trans2)
      then show thesis
        using s pass t1 flush by (intro Progress) (simp_all add: obligations_def)
    next
      fix u'
      assume "data_pass env p zc q t1 = (u', Exit EO_Backpressured False False False)"
        "\<not> (data_called p zc t1 \<and> (\<forall>evs w. te_tox env evs w = SO_Sent))"
      then show thesis using pass t1(1,2) by (intro Refused) simp_all
    qed
  next
    case (Remainder u)
    with flush_frame_size [of "pop_spent_cohorts (tn_out t)"] flush show ?thesis by simp
  next
    case Close
    let ?t1 = "t\<lparr>tn_out := pop_spent_cohorts (tn_out t),
      tn_close := (tn_close t)\<lparr>cf_state := CF_InFlight, cf_emit_requested := False\<rparr>, tn_pc := DP_Close\<rparr>"
    have "close_pass env ?t1 = (u, ctl)" using assms(2) Close(7) by (simp add: driver_pass_def)
    from close_pass_progress [OF _ this] have "tn_out u = pop_spent_cohorts (tn_out t)"
      "tn_err u = tn_err t" "tn_half u = tn_half t" "\<not> cf_emit_requested (tn_close u)" "ctl = Again"
      by simp_all
    then show ?thesis using Close(3) flush by (intro Progress) (simp_all add: obligations_def)
  next
    case (Empty v)
    have "\<not> control_obligation_eligible v"
      using eligible_means_selectable [of v] Empty(1,3,4) by auto
    then have "drain_complete v = (u, ctl)"
      using Empty(5) assms(2) Empty(3)
      by (auto simp: driver_pass_def drain_complete_def Let_def split: prod.splits if_splits)
    then show ?thesis using Empty(2,3) by (intro Drained) simp_all
  qed
qed

text \<open>A flush returns from its loop.\<close>

lemma drain_complete_exits: "drain_complete t = (u, ctl) \<Longrightarrow> ctl \<noteq> Again \<and> ctl \<noteq> Selected"
  by (auto simp: drain_complete_def Let_def split: if_splits)

lemma flush_pass_progress:
  assumes "head_inv t" and "driver_pass env arm t = (u, ctl)"
  shows "ctl \<noteq> Selected \<and> (ctl = Again \<longrightarrow>
    head_inv u \<and> obligations u < obligations t \<and> tn_half u = tn_half t)"
  by (rule flush_pass_cases [OF assms])
    (use pass_keeps_head [OF assms(1)] assms(2) drain_complete_exits in \<open>auto simp: head_inv_def\<close>)

lemma flush_loop_returns:
  assumes "head_inv t" and "obligations t < fuel"
  shows "\<exists>r. driver_loop env fuel arm t = Some r"
  using assms
proof (induction fuel arbitrary: t)
  case (Suc fuel)
  obtain u ctl where p: "driver_pass env arm t = (u, ctl)" by fastforce
  from flush_pass_progress [OF Suc.prems(1) p] Suc.prems(2) show ?case
    using Suc.IH [of u] by (cases ctl) (auto simp: p)
qed simp

section \<open>A flush returns\<close>

text \<open>
  The deferred actions can kick the driver once more, for the CLOSE behind a deferred close; that
  run has no deferred close left.
\<close>

definition flush_fuel :: "Tunnel \<Rightarrow> nat" where
  "flush_fuel t = obligations t + (if hc_close_pending (tn_half t) then 2 else 0) + 2"

lemma enter_head:
  assumes "tun_reachable t" and "driver_enter FlushAll t = (True, u)"
  shows "head_inv u \<and> obligations u = obligations t \<and> tn_half u = tn_half t"
proof -
  have "tun_reachable u" using reachable_step [OF assms(1) st_enter, of FlushAll] assms(2) by simp
  with assms(2) show ?thesis
    by (auto simp: driver_enter_def head_inv_def obligations_def Let_def split: if_splits)
qed

text \<open>Where a deferred close comes from.\<close>

lemma drain_complete_obligations: "obligations (fst (drain_complete t)) = obligations t"
  by (simp add: drain_complete_def stop_driver_def obligations_def Let_def)

lemma drain_complete_flags:
  assumes "snd (drain_complete t) = Exit outcome full half fin"
  shows "\<not> (full \<and> half) \<and> (full \<or> half \<longrightarrow>
    hc_close_pending (tn_half t) \<and> \<not> hc_close_pending (tn_half (fst (drain_complete t))))"
  using assms by (simp add: drain_complete_def stop_driver_def Let_def split: if_splits)

lemma flush_loop_exit:
  assumes "head_inv t" and "driver_loop env fuel arm t = Some (u, outcome, full, half, fin)"
  shows "tun_reachable u \<and> \<not> (full \<and> half) \<and> (full \<or> half \<longrightarrow>
    hc_close_pending (tn_half t) \<and> \<not> hc_close_pending (tn_half u) \<and> obligations u \<le> obligations t)"
  using assms
proof (induction fuel arbitrary: t)
  case (Suc fuel)
  obtain v ctl where p: "driver_pass env arm t = (v, ctl)" by fastforce
  note prog = flush_pass_progress [OF Suc.prems(1) p]
  have rv: "tun_reachable v"
    using path_pass [OF path_refl _ p] Suc.prems(1) reachable_path unfolding head_inv_def by blast
  show ?case
  proof (cases ctl)
    case Again
    then have "driver_loop env fuel arm v = Some (u, outcome, full, half, fin)"
      using Suc.prems(2) p by simp
    from Suc.IH [OF _ this] prog Again show ?thesis by auto
  next
    case (Exit a b c d)
    then have u: "u = v" "full = b" "half = c" using Suc.prems(2) p by simp_all
    show ?thesis
    proof (rule flush_pass_cases [OF Suc.prems(1) p])
      let ?t = "t\<lparr>tn_out := pop_spent_cohorts (tn_out t)\<rparr>"
      assume d: "drain_complete ?t = (v, ctl)"
      have "obligations ?t = obligations t" by (simp add: obligations_def)
      with d Exit drain_complete_flags [of ?t] drain_complete_obligations [of ?t] u rv
      show ?thesis by simp
    qed (use Exit u rv in simp_all)
  qed (use prog in simp)
qed simp

lemma request_close_obligations:
  assumes "request_close t = (b, u)"
  shows "obligations u \<le> obligations t + 1 \<and> tn_half u = tn_half t"
  using assms by (auto simp: request_close_def obligations_def Let_def split: if_splits)

lemma emit_close_returns:
  assumes "tun_reachable t" and "\<not> hc_close_pending (tn_half t)" and "obligations t + 3 \<le> fuel"
    and kick: "\<And>u. tun_reachable u \<Longrightarrow> flush_fuel u \<le> fuel \<Longrightarrow> \<exists>v. kick u = Some v"
  shows "\<exists>v. emit_close_with kick t = Some v"
proof -
  obtain b u where r: "request_close t = (b, u)" by fastforce
  have "tun_reachable u" using reachable_step [OF assms(1) st_request] r by simp
  moreover have "flush_fuel u \<le> fuel"
    using request_close_obligations [OF r] assms(2,3) by (simp add: flush_fuel_def)
  ultimately show ?thesis using kick r by (cases b) (auto simp: emit_close_with_def)
qed

lemma flush_returns_fuel:
  "tun_reachable t \<Longrightarrow> flush_fuel t \<le> fuel \<Longrightarrow> \<exists>r. run_emission_driver fuel env FlushAll arm t = Some r"
proof (induction fuel arbitrary: t arm)
  case 0
  then show ?case by (simp add: flush_fuel_def)
next
  case (Suc fuel)
  let ?kick = "\<lambda>u. map_option snd (run_emission_driver fuel env FlushAll True u)"
  have kick: "\<exists>v. ?kick u = Some v" if "tun_reachable u" "flush_fuel u \<le> fuel" for u
    using Suc.IH [OF that, of True] by auto
  obtain b t1 where e: "driver_enter FlushAll t = (b, t1)" by fastforce
  show ?case
  proof (cases b)
    case False
    with e show ?thesis by simp
  next
    case True
    with e have e: "driver_enter FlushAll t = (True, t1)" by simp
    from enter_head [OF Suc.prems(1) this]
    have h: "head_inv t1" "obligations t1 = obligations t" "tn_half t1 = tn_half t" by auto
    have "obligations t1 < fuel" using Suc.prems(2) h(2) by (simp add: flush_fuel_def)
    from flush_loop_returns [OF h(1) this] obtain r where "driver_loop env fuel arm t1 = Some r" by blast
    then obtain t2 oc full half fin
      where l: "driver_loop env fuel arm t1 = Some (t2, oc, full, half, fin)" by (cases r) auto
    note x = flush_loop_exit [OF h(1) l]
    have bound: "obligations t2 + 3 \<le> fuel" if "full \<or> half"
      using x that Suc.prems(2) h by (auto simp: flush_fuel_def)
    obtain c t2' where m: "mark_local_close t2 = (c, t2')" by fastforce
    have r2': "tun_reachable t2'" using reachable_step [OF _ st_mark_local, of t2] x m by simp
    have o2': "obligations t2' = obligations t2"
        "hc_close_pending (tn_half t2') = hc_close_pending (tn_half t2)"
      using m by (auto simp: mark_local_close_def obligations_def split: if_splits)
    consider "full" "\<not> half" | "half" "\<not> full" | "\<not> full" "\<not> half" using x by blast
    then show ?thesis
    proof cases
      case 1
      then obtain v where "emit_close_with ?kick t2' = Some v"
        using emit_close_returns [where kick = ?kick and fuel = fuel, OF r2' _ _ kick] o2' x bound
        by auto
      with 1 e l m show ?thesis by (cases c) (simp_all add: emit_close_and_transition_with_def)
    next
      case 2
      then obtain v where "emit_close_with ?kick t2 = Some v"
        using emit_close_returns [where kick = ?kick and fuel = fuel and t = t2, OF _ _ _ kick] x bound
        by auto
      with 2 e l show ?thesis by (simp add: emit_local_close_only_with_def)
    next
      case 3
      with e l show ?thesis by simp
    qed
  qed
qed

section \<open>A flush delivers\<close>

text \<open>What the driver never changes, and what its surroundings leave alone.\<close>

definition keeps :: "Tunnel \<Rightarrow> Tunnel \<Rightarrow> bool" where
  "keeps t u \<longleftrightarrow> tn_span_cb u = tn_span_cb t \<and> tn_owned_cb u = tn_owned_cb t
     \<and> tn_accepted u = tn_accepted t \<and> ob_abort_published (tn_out u) = ob_abort_published (tn_out t)"

lemma keeps_refl [simp]: "keeps t t"
  by (simp add: keeps_def)

lemma keeps_trans: "keeps t u \<Longrightarrow> keeps u v \<Longrightarrow> keeps t v"
  by (simp add: keeps_def)

lemma consume_abort [simp]:
  "ob_abort_published (consume_front n ob) = ob_abort_published ob"
  "ob_abort_published (coalesce_arm_timer b now ob) = ob_abort_published ob"
  by (simp_all add: consume_front_def coalesce_arm_timer_def Let_def split: list.split)

lemma keeps_exits:
  "keeps t (set_pc p t)" "keeps t (stop_driver t)" "keeps t (leave_driver t)"
  by (simp_all add: keeps_def set_pc_def stop_driver_def leave_driver_def)

lemma keeps_drain: "keeps t (fst (drain_complete t))"
  by (simp add: drain_complete_def keeps_def stop_driver_def Let_def)

lemma keeps_select: 
  assumes "driver_select arm now t = (u, ctl)"
  shows "keeps t u"
proof (cases rule: driver_select_cases [where arm = arm and now = now and t = t])
  case (Remainder v)
  then have "keeps t v" by (simp add: keeps_def)
  then show ?thesis using assms Remainder(5) keeps_trans [OF _ keeps_exits(3)] by (auto split: if_splits)
next
  case (Empty v)
  then have "keeps t v" by (simp add: keeps_def)
  then show ?thesis
    using assms Empty(5) keeps_trans [OF _ keeps_drain [of v]] by (cases "drain_complete v") (auto split: if_splits)
qed (use assms in \<open>simp_all add: keeps_def\<close>)

lemma keeps_quiet:
  "keeps t (maybe_notify_id_releasable t)" "keeps t (notify_close_once t)"
  "keeps t (fence_close_retry t)" "keeps t (lower_error_fence t)"
  by (simp_all add: keeps_def maybe_notify_id_releasable_def notify_close_once_def log_event_def
      fence_close_retry_def lower_error_fence_def Let_def)

lemma keeps_arrival: "keeps t (snd (record_arrival party defer t))"
  by (cases party) (simp_all add: keeps_def record_arrival_def Let_def)

lemma keeps_arrive: "keeps t (arrive_terminal_error_party party defer t)"
proof -
  obtain b u where r: "record_arrival party defer t = (b, u)" by fastforce
  then have "keeps t u" using keeps_arrival by (metis snd_conv)
  with r show ?thesis
    by (auto simp: arrive_terminal_error_party_def run_terminal_error_finalizer_def cancel_close_retry_def
        intro!: keeps_trans [OF _ keeps_quiet(1)] keeps_trans [OF _ keeps_quiet(2)]
          keeps_trans [OF _ keeps_quiet(3)] keeps_trans [OF _ keeps_quiet(4)])
qed

lemma keeps_wire: "send_wire_to_tox_typed env w t = (v, u) \<Longrightarrow> keeps t u"
  by (auto simp: send_wire_to_tox_typed_def keeps_def log_event_def Let_def split: if_splits)

lemma keeps_error_pass:
  assumes "error_pass env w t = (u, ctl)"
  shows "keeps t u"
proof -
  obtain v t2 where s: "send_wire_to_tox_typed env w t = (v, t2)" by fastforce
  obtain b t3 where c: "error_commit v (set_pc (DP_ErrorDone v) t2) = (b, t3)" by fastforce
  then have "keeps t2 t3"
    by (auto simp: error_commit_def keeps_def set_pc_def stop_driver_def Let_def split: if_splits)
  with keeps_wire [OF s] have "keeps t t3" by (rule keeps_trans)
  moreover have "u = (if b then arrive_terminal_error_party Transport False t3 else t3)"
    using assms s c by (auto simp: error_pass_def error_send_def pc_simps Let_def split: bool.splits)
  ultimately show ?thesis using keeps_trans [OF _ keeps_arrive] by simp
qed

lemma keeps_close_pass:
  assumes "close_pass env t = (u, ctl)"
  shows "keeps t u"
proof -
  let ?w = "serialize (make_tunnel_close (tn_id t))"
  obtain v t2 where s: "send_wire_to_tox_typed env ?w t = (v, t2)" by fastforce
  obtain b t3 where c: "close_commit v (set_pc (DP_CloseDone v) t2) = (b, t3)" by fastforce
  then have "keeps t2 t3"
    by (auto simp: close_commit_def keeps_def set_pc_def Let_def split: if_splits)
  with keeps_wire [OF s] have "keeps t t3" by (rule keeps_trans)
  moreover have "u = (if b then t3 else maybe_notify_id_releasable t3)"
    using assms s c by (auto simp: close_pass_def close_send_def send_frame_to_tox_typed_def pc_simps
        Let_def split: bool.splits)
  ultimately show ?thesis using keeps_trans [OF _ keeps_quiet(1)] by simp
qed

lemma keeps_data_send: "keeps t (data_send env p zc eo sa t)"
  by (simp add: data_send_def send_frame_to_tox_def send_frame_to_tox_typed_def
      send_wire_to_tox_typed_def send_owned_data_to_tox_def Let_def keeps_def log_event_def set_pc_def)

lemma keeps_data_pass:
  assumes "data_pass env p zc q t = (u, ctl)" and "tn_pc t = DP_Data p zc q"
  shows "keeps t u"
proof (cases "ob_abort_published (tn_out t)")
  case True
  with assms show ?thesis
    by (auto simp: data_pass_def data_abandon_def keeps_def set_pc_def stop_driver_def split: if_splits)
next
  case False
  let ?t1 = "set_pc (DP_DataAuth p zc q) t"
  let ?t2 = "data_count (te_now env (tn_events t)) p zc q ?t1"
  have k2: "keeps t ?t2" by (simp add: data_count_def keeps_def set_pc_def Let_def split: prod.split)
  obtain eo sa where c2: "tn_pc ?t2 = DP_DataCounted p zc eo sa"
    by (fastforce simp: data_count_def Let_def split: prod.split)
  let ?t3 = "data_send env p zc eo sa ?t2"
  obtain sent where c3: "tn_pc ?t3 = DP_DataDone (length p) eo sa sent"
    by (fastforce simp: data_send_def pc_simps split: prod.split)
  have "data_authorize t = ?t1" using assms(2) False by (simp add: data_authorize_def)
  with assms(1) False c2 c3
  have "data_commit (te_now env (tn_events ?t3)) (length p) eo sa sent ?t3 = (u, ctl)"
    by (simp add: data_pass_def Let_def)
  then have "keeps ?t3 u"
    by (auto simp: data_commit_def keeps_def set_pc_def stop_driver_def Let_def split: if_splits)
  with keeps_trans [OF k2 keeps_data_send] show ?thesis by (rule keeps_trans)
qed

lemma keeps_pass:
  assumes "driver_pass env arm t = (u, ctl)"
  shows "keeps t u"
proof -
  obtain t1 c1 where s: "driver_select arm (te_now env (tn_events t)) t = (t1, c1)" by fastforce
  have "keeps t1 u"
    using assms s keeps_error_pass keeps_close_pass keeps_data_pass
    by (auto simp: driver_pass_def split: DriverCtl.splits DriverPc.splits)
  with keeps_select [OF s] show ?thesis by (rule keeps_trans)
qed

text \<open>The outbound side as the helpers around the loop leave it.\<close>

definition out_view :: "Tunnel \<Rightarrow> DriverPc \<times> Outbound \<times> bool \<times> bool \<times> byte list" where
  "out_view t = (tn_pc t, tn_out t, tn_span_cb t, tn_owned_cb t, tn_accepted t)"

lemma out_view_helpers:
  "out_view (book_close_once r t) = out_view t"
  "out_view (notify_close_once t) = out_view t"
  "out_view (maybe_notify_id_releasable t) = out_view t"
  "out_view (notify_state_change s t) = out_view t"
  "out_view (store_state s t) = out_view t"
  "out_view (snd (mark_local_close t)) = out_view t"
  "out_view (snd (request_close t)) = out_view t"
  by (simp_all add: out_view_def book_close_once_def notify_close_once_def
      maybe_notify_id_releasable_def notify_state_change_def cancel_open_deadline_def store_state_def
      mark_local_close_def request_close_def log_event_def Let_def)

lemma out_view_transitions:
  "out_view (snd (transition_state_if a b t)) = out_view t"
  "out_view (transition_state b t) = out_view t"
  "out_view (finalize_remote_close t) = out_view t"
  by (simp_all add: transition_state_if_def transition_state_def finalize_remote_close_def
      out_view_helpers)

text \<open>A tunnel that has come to rest with nothing pending since \<open>t0\<close>.\<close>

definition settled :: "Tunnel \<Rightarrow> Tunnel \<Rightarrow> bool" where
  "settled t0 t \<longleftrightarrow> tun_reachable t \<and> tn_pc t = DP_Idle \<and> ob_fifo_pending (tn_out t) = 0 \<and> keeps t0 t"

lemma settled_view: "settled t0 t \<Longrightarrow> tun_path t u \<Longrightarrow> out_view u = out_view t \<Longrightarrow> settled t0 u"
  using reachable_path by (auto simp: settled_def out_view_def keeps_def)

definition willing :: "TunnelEnv \<Rightarrow> Tunnel \<Rightarrow> bool" where
  "willing env t \<longleftrightarrow> tn_span_cb t \<and> (\<forall>evs w. te_tox env evs w = SO_Sent) \<and> \<not> ob_abort_published (tn_out t)"

lemma willing_keeps: "willing env t \<Longrightarrow> keeps t u \<Longrightarrow> willing env u"
  by (simp add: willing_def keeps_def)

lemma data_called_willing:
  assumes "driver_select arm now t = (u, Selected)" and "tn_pc u = DP_Data p zc q" and "willing env t"
  shows "data_called p zc u"
proof -
  have "tn_span_cb u" using willing_keeps [OF assms(3) keeps_select [OF assms(1)]] by (simp add: willing_def)
  moreover have "zc \<longrightarrow> tn_owned_cb u"
    by (cases rule: driver_select_cases [where arm = arm and now = now and t = t])
      (use assms(1,2) in \<open>auto simp: drain_complete_def Let_def split: if_splits\<close>)
  ultimately show ?thesis by (simp add: data_called_def)
qed

lemma drained_settled:
  assumes "head_inv t" and "ob_fifo (pop_spent_cohorts (tn_out t)) = []"
    and "drain_complete (t\<lparr>tn_out := pop_spent_cohorts (tn_out t)\<rparr>) = (u, ctl)" and "tun_reachable u"
  shows "settled t u \<and> (\<exists>full half fin. ctl = Exit EO_RequestSatisfied full half fin)"
proof -
  have "fifo_bytes (ob_fifo (pop_spent_cohorts (tn_out t))) = fifo_bytes (ob_fifo (tn_out t))"
    by (simp add: pop_spent_cohorts_def)
  from this [unfolded assms(2)] have "fifo_bytes (ob_fifo (tn_out t)) = []" by simp
  then have "ob_fifo_pending (tn_out t) = 0"
    using reachable_stream [of t] assms(1) by (simp add: head_inv_def stream_ok_def stream_view_def)
  with assms(3,4) show ?thesis
    by (auto simp: settled_def keeps_def drain_complete_def stop_driver_def Let_def split: if_splits)
qed

lemma flush_loop_delivers:
  assumes "head_inv t" and "willing env t"
    and "driver_loop env fuel arm t = Some (u, outcome, full, half, fin)"
  shows "settled t u \<and> outcome = EO_RequestSatisfied"
  using assms
proof (induction fuel arbitrary: t)
  case (Suc fuel)
  obtain v ctl where p: "driver_pass env arm t = (v, ctl)" by fastforce
  have rv: "tun_reachable v"
    using path_pass [OF path_refl _ p] Suc.prems(1) reachable_path unfolding head_inv_def by blast
  note kp = keeps_pass [OF p]
  show ?case
  proof (rule flush_pass_cases [OF Suc.prems(1) p])
    assume a: "ctl = Again"
    have "head_inv v" using flush_pass_progress [OF Suc.prems(1) p] a by blast
    then have "settled v u \<and> outcome = EO_RequestSatisfied"
      using Suc.prems(3) p a by (intro Suc.IH willing_keeps [OF Suc.prems(2) kp]) simp_all
    with keeps_trans [OF kp] show ?thesis by (auto simp: settled_def)
  next
    fix evs w assume "te_tox env evs w = SO_SendqFull"
    with Suc.prems(2) show ?thesis by (simp add: willing_def)
  next
    fix p' zc q t1
    assume s: "driver_select arm (te_now env (tn_events t)) t = (t1, Selected)" "tn_pc t1 = DP_Data p' zc q"
      and "\<not> (data_called p' zc t1 \<and> (\<forall>evs w. te_tox env evs w = SO_Sent))"
    with data_called_willing [OF s Suc.prems(2)] Suc.prems(2) show ?thesis by (simp add: willing_def)
  next
    assume "drain_complete (t\<lparr>tn_out := pop_spent_cohorts (tn_out t)\<rparr>) = (v, ctl)"
      "ob_fifo (pop_spent_cohorts (tn_out t)) = []"
    from drained_settled [OF Suc.prems(1) this(2,1) rv] Suc.prems(3) p show ?thesis by auto
  qed
qed simp

lemma emit_close_settled:
  assumes "settled t0 t" and "emit_close_with kick t = Some u"
    and kick: "\<And>v w. tun_reachable v \<Longrightarrow> tn_pc v = DP_Idle \<Longrightarrow> keeps t0 v \<Longrightarrow> kick v = Some w \<Longrightarrow> settled v w"
  shows "settled t0 u"
proof -
  obtain b v where r: "request_close t = (b, v)" by fastforce
  have v: "settled t0 v"
    using settled_view [OF assms(1) path_step [OF path_refl st_request] out_view_helpers(7)] r by simp
  show ?thesis
  proof (cases b)
    case True
    then have "settled v u" using assms(2) r v kick [of v u] by (simp add: emit_close_with_def settled_def)
    with v keeps_trans [of t0 v u] show ?thesis by (simp add: settled_def)
  next
    case False
    then show ?thesis using assms(2) r v by (simp add: emit_close_with_def)
  qed
qed

text \<open>The deferred close actions leave a settled tunnel settled, if the driver they kick does.\<close>

lemma emit_full_settled:
  assumes "settled t0 t" and "emit_close_and_transition_with kick t = Some u"
    and kick: "\<And>v w. tun_reachable v \<Longrightarrow> tn_pc v = DP_Idle \<Longrightarrow> keeps t0 v \<Longrightarrow> kick v = Some w \<Longrightarrow> settled v w"
  shows "settled t0 u"
proof -
  obtain c t1 where m: "mark_local_close t = (c, t1)" by fastforce
  have s1: "settled t0 t1"
    using settled_view [OF assms(1) path_step [OF path_refl st_mark_local] out_view_helpers(6)] m by simp
  have tail: "settled t0 (notify_close_once (maybe_notify_id_releasable
      (snd (transition_state_if TS_Connected TS_Disconnecting w))))" if "settled t0 w" for w
    by (rule settled_view [OF that path_step [OF path_step [OF path_transition_if [OF path_refl]
          st_notify_id] st_notify_close]])
      (simp_all add: terminal_def out_view_helpers out_view_transitions)
  have booked: "settled t0 (book_close_once (local_close_reason w) w)" if "settled t0 w" for w
    by (rule settled_view [OF that path_step [OF path_refl st_book]]) (simp add: out_view_helpers)
  show ?thesis
  proof (cases c)
    case True
    then obtain w where w: "emit_close_with kick t1 = Some w"
      and u: "u = notify_close_once (maybe_notify_id_releasable (snd (transition_state_if TS_Connected
         TS_Disconnecting (book_close_once (local_close_reason w) w))))"
      using assms(2) m
      by (cases "emit_close_with kick t1") (simp_all add: emit_close_and_transition_with_def)
    have "settled t0 w" by (rule emit_close_settled [OF s1 w]) (rule kick)
    then show ?thesis unfolding u by (intro tail booked)
  next
    case False
    then show ?thesis using assms(2) m tail [OF s1] by (simp add: emit_close_and_transition_with_def)
  qed
qed

lemma emit_half_settled:
  assumes "settled t0 t" and "emit_local_close_only_with kick t = Some u"
    and kick: "\<And>v w. tun_reachable v \<Longrightarrow> tn_pc v = DP_Idle \<Longrightarrow> keeps t0 v \<Longrightarrow> kick v = Some w \<Longrightarrow> settled v w"
  shows "settled t0 u"
proof -
  obtain w where w: "emit_close_with kick t = Some w"
    and u: "u = snd (transition_state_if TS_Connected TS_Disconnecting w)"
    using assms(2) by (auto simp: emit_local_close_only_with_def)
  have sw: "settled t0 w" by (rule emit_close_settled [OF assms(1) w]) (rule kick)
  show ?thesis
    unfolding u
    by (rule settled_view [OF sw path_transition_if [OF path_refl]])
      (simp_all add: terminal_def out_view_transitions)
qed

lemma run_settled:
  assumes "tun_reachable t" and "tn_pc t = DP_Idle" and "willing env t"
    and "run_emission_driver fuel env FlushAll arm t = Some (outcome, u)"
  shows "settled t u \<and> outcome = EO_RequestSatisfied"
  using assms
proof (induction fuel arbitrary: t arm outcome u)
  case (Suc fuel)
  let ?kick = "\<lambda>u. map_option snd (run_emission_driver fuel env FlushAll True u)"
  have "\<not> ob_driver_active (tn_out t)"
    using reachable_stream [OF Suc.prems(1)] Suc.prems(2) by (simp add: stream_ok_def stream_view_def)
  then obtain t1 where b: "driver_enter FlushAll t = (True, t1)" and k1: "keeps t t1"
    by (auto simp: driver_enter_def keeps_def Let_def)
  have h: "head_inv t1" using enter_head [OF Suc.prems(1) b] by blast
  obtain t2 oc full half fin t3 t4
    where l: "driver_loop env fuel arm t1 = Some (t2, oc, full, half, fin)"
      and t3: "(if full then emit_close_and_transition_with ?kick t2 else Some t2) = Some t3"
      and t4: "(if half then emit_local_close_only_with ?kick t3 else Some t3) = Some t4"
      and u: "outcome = oc" "u = (if fin then finalize_remote_close t4 else t4)"
    using Suc.prems(4) b by (auto simp: Let_def split: Option.bind_splits)
  from flush_loop_delivers [OF h willing_keeps [OF Suc.prems(3) k1] l]
  have s2: "settled t t2" and oc: "oc = EO_RequestSatisfied"
    using keeps_trans [OF k1] by (auto simp: settled_def)
  have kick: "settled v w" if "tun_reachable v" "tn_pc v = DP_Idle" "keeps t v" "?kick v = Some w" for v w
    using Suc.IH [OF that(1,2) willing_keeps [OF Suc.prems(3) that(3)]] that(4) by auto
  have s3: "settled t t3"
  proof (cases full)
    case True
    with t3 show ?thesis by (intro emit_full_settled [where kick = ?kick, OF s2 _ kick]) simp_all
  qed (use t3 s2 in simp)
  have s4: "settled t t4"
  proof (cases half)
    case True
    with t4 show ?thesis by (intro emit_half_settled [where kick = ?kick, OF s3 _ kick]) simp_all
  qed (use t4 s3 in simp)
  show ?case
    using u oc s4 settled_view [OF s4 path_finalize_remote [OF path_refl] out_view_transitions(3)] by simp
qed simp

section \<open>Properties\<close>

lemma flush_fuel_bound: "ob_fifo_pending (tn_out t) + 6 \<le> fuel \<Longrightarrow> flush_fuel t \<le> fuel"
  by (simp add: flush_fuel_def obligations_def)

text \<open>
  Claim C5: a flush terminates. In every reachable state and whatever the transport answers, a run
  of the emission driver that flushes returns: the number of pending bytes plus six is enough fuel for
  its loop and for the run it starts for a deferred CLOSE.
\<close>

theorem flush_returns:
  assumes "tun_reachable t" and "ob_fifo_pending (tn_out t) + 6 \<le> fuel"
  shows "\<exists>outcome u. run_emission_driver fuel env FlushAll arm t = Some (outcome, u)"
  using flush_returns_fuel [OF assms(1) flush_fuel_bound [OF assms(2)], of env arm] by auto

theorem flush_returns_witness:
  "\<exists>outcome u. run_emission_driver 6 (const_env SO_SendqFull) FlushAll True demo0 = Some (outcome, u)"
  by (rule flush_returns [OF demo0_reachable]) (simp add: demo0_def run_defs)

text \<open>
  Claim C4: a flush delivers. When no Abort is published, no driver runs, the send callback is
  installed and the transport accepts what it is given, a flush of a reachable tunnel returns with the
  request satisfied, and the transport has then accepted exactly the bytes accepted from the local side.
\<close>

theorem flush_delivers:
  assumes "tun_reachable t" and "tn_pc t = DP_Idle" and "\<not> ob_abort_published (tn_out t)"
    and "tn_span_cb t" and "\<And>evs w. te_tox env evs w = SO_Sent"
    and "ob_fifo_pending (tn_out t) + 6 \<le> fuel"
  shows "\<exists>u. run_emission_driver fuel env FlushAll arm t = Some (EO_RequestSatisfied, u)
    \<and> sent_data (tn_events u) = tn_accepted t \<and> ob_fifo_pending (tn_out u) = 0"
proof -
  obtain oc u where run: "run_emission_driver fuel env FlushAll arm t = Some (oc, u)"
    using flush_returns_fuel [OF assms(1) flush_fuel_bound [OF assms(6)], of env arm] by auto
  have "willing env t" using assms(3-5) by (simp add: willing_def)
  from run_settled [OF assms(1,2) this run]
  have s: "settled t u" and "oc = EO_RequestSatisfied" by auto
  moreover have "sent_data (tn_events u) = tn_accepted t"
    using s reachable_stream [of u] assms(3)
    by (auto simp: settled_def keeps_def stream_ok_def position_ok_def stream_view_def)
  ultimately show ?thesis using run by (simp add: settled_def)
qed

definition demo_queued :: Tunnel where
  "demo_queued = snd (admit_data CP_Batch 0 [1, 2] (snd (reserve_window 64 2 demo0)))"

lemma demo_queued_reachable: "tun_reachable demo_queued"
proof -
  let ?t1 = "snd (reserve_window 64 2 demo0)"
  have "tun_path demo0 ?t1" by (rule path_step [OF path_refl st_reserve])
  then have "tun_path demo0 demo_queued" unfolding demo_queued_def
    by (rule path_step [OF _ st_admit]) (simp add: demo0_def run_defs Let_def)
  then show ?thesis by (rule reachable_path [OF demo0_reachable])
qed

theorem flush_delivers_witness:
  "\<exists>u. run_emission_driver 8 (const_env SO_Sent) FlushAll True demo_queued = Some (EO_RequestSatisfied, u)
    \<and> sent_data (tn_events u) = [1, 2] \<and> ob_fifo_pending (tn_out u) = 0"
proof -
  have f: "tn_pc demo_queued = DP_Idle" "\<not> ob_abort_published (tn_out demo_queued)"
      "tn_span_cb demo_queued" "ob_fifo_pending (tn_out demo_queued) + 6 \<le> 8"
      "tn_accepted demo_queued = [1, 2]"
    by (simp_all add: demo_queued_def demo0_def run_defs Let_def)
  have "te_tox (const_env SO_Sent) evs w = SO_Sent" for evs w by (simp add: const_env_def)
  from flush_delivers [OF demo_queued_reachable f(1-3) this f(4)] f(5) show ?thesis by simp
qed

section \<open>A run that asks for full frames only\<close>

text \<open>
  The position in which the loop comes back to its head without having done anything: a remainder
  below the frame cap at the front of the FIFO, no flush requested, and a CLOSE requested, which
  waits for the empty FIFO.
\<close>

definition stuck :: "Tunnel \<Rightarrow> bool" where
  "stuck t \<longleftrightarrow> es_pending (tn_err t) = None \<and> \<not> es_claimed (tn_err t)
     \<and> cf_emit_requested (tn_close t) \<and> cf_state (tn_close t) = CF_Owed \<and> \<not> cf_retry_cancelled (tn_close t)
     \<and> \<not> ob_flush_all_requested (tn_out t) \<and> ob_fifo (tn_out t) \<noteq> []
     \<and> 0 < cohort_pending (hd (ob_fifo (tn_out t)))
     \<and> cohort_pending (hd (ob_fifo (tn_out t))) < co_cap (hd (ob_fifo (tn_out t)))"

lemma arm_timer_queue [simp]:
  "ob_fifo (coalesce_arm_timer b now ob) = ob_fifo ob"
  "ob_flush_all_requested (coalesce_arm_timer b now ob) = ob_flush_all_requested ob"
  by (simp_all add: coalesce_arm_timer_def Let_def)

lemma stuck_pass:
  assumes "stuck t"
  shows "\<exists>u. driver_pass env arm t = (u, Again) \<and> stuck u"
proof -
  have pop: "pop_spent_cohorts (tn_out t) = tn_out t"
    using assms by (cases "ob_fifo (tn_out t)") (auto simp: stuck_def pop_spent_cohorts_def)
  have none: "data_frame_size (tn_out t) = None"
    using assms by (simp add: stuck_def data_frame_size_def Let_def)
  let ?u = "t\<lparr>tn_out := (if arm then coalesce_arm_timer False (te_now env (tn_events t)) (tn_out t)
    else tn_out t)\<rparr>"
  have "stuck ?u" using assms by (simp add: stuck_def)
  moreover from this have "control_obligation_eligible ?u"
    by (simp add: stuck_def control_obligation_eligible_def Let_def)
  with assms pop none have "driver_pass env arm t = (?u, Again)"
    by (simp add: stuck_def driver_pass_def driver_select_def Let_def)
  ultimately show ?thesis by blast
qed

lemma stuck_loop: "stuck t \<Longrightarrow> driver_loop env fuel arm t = None"
proof (induction fuel arbitrary: t)
  case (Suc fuel)
  from stuck_pass [OF Suc.prems] obtain u where "driver_pass env arm t = (u, Again)" "stuck u" by blast
  with Suc.IH show ?case by simp
qed simp

text \<open>
  One thread has appended two bytes in batch mode and not yet run the driver; another, whose close
  saw the FIFO empty before that, requests the CLOSE and flushes, and the transport refuses the DATA.
\<close>

definition demo_refused :: "(EmitOutcome \<times> Tunnel) option" where
  "demo_refused = run_emission_driver 8 (const_env SO_SendqFull) FlushAll True
     (snd (request_close (snd (mark_local_close (snd (admit_data CP_Batch 0 [1, 2]
       (snd (reserve_window 64 2 (store_coalesce 200 4 demo0)))))))))"

definition demo_spin :: Tunnel where
  "demo_spin = snd (the demo_refused)"

lemma demo_spin_run: "\<exists>u. demo_refused = Some (EO_Backpressured, u) \<and> stuck u \<and> \<not> ob_driver_active (tn_out u)"
  by (simp add: demo_refused_def demo0_def const_env_def run_defs Let_def numeral_eq_Suc stuck_def)

lemma demo_spin_reachable: "tun_reachable demo_spin"
proof -
  let ?t0 = "store_coalesce 200 4 demo0"
  let ?t1 = "snd (reserve_window 64 2 ?t0)"
  let ?t2 = "snd (admit_data CP_Batch 0 [1, 2] ?t1)"
  let ?t4 = "snd (request_close (snd (mark_local_close ?t2)))"
  have "tun_path demo0 ?t0"
    by (rule path_step [OF path_refl st_coalesce]) (simp_all add: kMaxTcpPayloadPerToxFrame_def)
  then have "tun_path demo0 ?t1" by (rule path_step [OF _ st_reserve])
  then have "tun_path demo0 ?t2"
    by (rule path_step [OF _ st_admit]) (simp add: demo0_def run_defs Let_def)
  then have "tun_path demo0 ?t4" by (rule path_step [OF path_step [OF _ st_mark_local] st_request])
  moreover obtain u where "demo_refused = Some (EO_Backpressured, u)" using demo_spin_run by blast
  ultimately have "tun_path demo0 demo_spin"
    using path_run unfolding demo_spin_def demo_refused_def by fastforce
  then show ?thesis by (rule reachable_path [OF demo0_reachable])
qed

text \<open>
  Claim C24: a run for full frames only can spin. When a CLOSE is requested while a remainder below
  the frame cap is pending and no flush is requested, a run of the driver for full frames only never
  leaves its loop, whatever the transport answers: only a flush latched by another thread frees it.
\<close>

theorem full_frames_spin:
  assumes "\<not> ob_driver_active (tn_out t)" and "\<not> ob_flush_all_requested (tn_out t)"
    and "ob_fifo (tn_out t) \<noteq> []" and "0 < cohort_pending (hd (ob_fifo (tn_out t)))"
    and "cohort_pending (hd (ob_fifo (tn_out t))) < co_cap (hd (ob_fifo (tn_out t)))"
    and "cf_emit_requested (tn_close t)" and "cf_state (tn_close t) = CF_Owed"
    and "\<not> cf_retry_cancelled (tn_close t)"
    and "\<not> es_claimed (tn_err t)" and "es_pending (tn_err t) = None"
  shows "run_emission_driver fuel env FullFramesOnly arm t = None"
proof (cases fuel)
  case (Suc n)
  let ?u = "t\<lparr>tn_out := (tn_out t)\<lparr>ob_driver_active := True\<rparr>, tn_pc := DP_Head\<rparr>"
  have "stuck ?u" using assms by (simp add: stuck_def)
  with Suc assms(1) stuck_loop [of ?u] show ?thesis by (simp add: driver_enter_def Let_def)
qed simp

theorem full_frames_spin_witness:
  "tun_reachable demo_spin \<and> (\<forall>fuel env arm. run_emission_driver fuel env FullFramesOnly arm demo_spin = None)"
proof -
  obtain u where u: "demo_refused = Some (EO_Backpressured, u)" "stuck u" "\<not> ob_driver_active (tn_out u)"
    using demo_spin_run by blast
  have "demo_spin = u" unfolding demo_spin_def u(1) by simp
  with u(2,3) have "stuck demo_spin" "\<not> ob_driver_active (tn_out demo_spin)" by simp_all
  then have "run_emission_driver fuel env FullFramesOnly arm demo_spin = None" for fuel env arm
    by (intro full_frames_spin) (simp_all add: stuck_def)
  with demo_spin_reachable show ?thesis by simp
qed

end
