(* ===== verification/Manager_Outbound.thy ===== *)
theory Manager_Outbound
  imports Tunnel_State
begin

text \<open>
  The outbound side of the tunnel manager (\<open>src/tunnel/tunnel_manager.cpp\<close>) and the per-tunnel senders
  (\<open>src/app/tunnel_senders.cpp\<close>): frames that toxcore refuses with a full send queue are parked in one
  FIFO queue and retried by a drain on a timer, and the senders consult the queue before they go to
  toxcore, so that nothing overtakes a parked frame.

  The transport (the installed \<open>SendHandler\<close>, toxcore behind it) is a parameter, a verdict for every
  frame as a function of the frames it has seen. Sends and drains are one step per critical section: a
  send takes its snapshot, passes the barrier under the lock, calls the transport without the lock, and
  books or parks the frame under the lock again, and other sends, drains and a reset of the queue run in
  between, as they do on the worker threads. The record carries ghost fields: a ticket counter, the
  ticket of every parked frame and of every send that has passed the barrier, the frames the transport
  has accepted with their tickets, and whether two drains have ever run at the same time.
\<close>

section \<open>State\<close>

type_synonym Wire = "byte list"
type_synonym Transport = "(Wire \<times> SendOutcome) list \<Rightarrow> Wire \<Rightarrow> SendOutcome"

definition kMaxPendingOutbound :: nat where "kMaxPendingOutbound = 4096"

text \<open>
  Where a run of \<open>drain_pending_outbound\<close> with its \<open>armed_epoch\<close> is: at the head of its loop, with a
  popped frame in front of the transport, with the transport's verdict, or about to run the guard that
  lowers \<open>pending_drain_in_flight_\<close> (the flag says whether the loop goes on).
\<close>

type_synonym Parked = "nat \<times> Wire"          \<comment> \<open>ghost ticket and frame\<close>

datatype DrainPc =
    DR_Head nat
  | DR_Flight nat Parked
  | DR_Verdict nat Parked SendOutcome
  | DR_Guard nat bool

text \<open>
  Who sends: \<open>send_frame_impl\<close> with its parameter \<open>park_on_backpressure\<close> and the size it books, the span
  sender of a tunnel, or a caller that only respects the barrier (the owned sender of a tunnel,
  \<open>create_tunnel\<close>) with the size it books. A send has taken its snapshot, has passed the barrier with a
  ticket, or has the transport's verdict.
\<close>

datatype SendKind = SK_Frame bool nat | SK_Span | SK_Direct nat

datatype SendPc =
    SP_Barrier SendKind Wire
  | SP_Ready SendKind Wire nat
  | SP_Verdict SendKind Wire SendOutcome

text \<open>Ghost: how a frame came to be accepted by the transport.\<close>

datatype Delivery = By_Drain nat Wire | By_Send nat Wire

record OutQueue =
  oq_pending :: "Parked list"
  oq_armed :: bool
  oq_in_flight :: bool
  oq_epoch :: nat
  oq_muted :: bool
  oq_timer :: "nat option"       \<comment> \<open>the wait of \<open>pending_drain_timer_\<close>, with its \<open>armed_epoch\<close>\<close>
  oq_enqueued :: nat
  oq_dropped :: nat
  oq_handler :: bool             \<comment> \<open>a \<open>SendHandler\<close> is installed\<close>
  oq_gate_closed :: bool
  oq_frames_sent :: nat
  oq_bytes_sent :: nat
  oq_drains :: "DrainPc list"
  oq_sends :: "SendPc list"
  oq_log :: "(Wire \<times> SendOutcome) list"   \<comment> \<open>what the transport was given, and its verdicts\<close>
  oq_clock :: nat                \<comment> \<open>ghost\<close>
  oq_delivered :: "Delivery list" \<comment> \<open>ghost\<close>
  oq_overlap :: bool             \<comment> \<open>ghost\<close>

definition oq_new :: OutQueue where
  "oq_new = \<lparr>oq_pending = [], oq_armed = False, oq_in_flight = False, oq_epoch = 0, oq_muted = False,
     oq_timer = None, oq_enqueued = 0, oq_dropped = 0, oq_handler = False, oq_gate_closed = False,
     oq_frames_sent = 0, oq_bytes_sent = 0, oq_drains = [], oq_sends = [], oq_log = [],
     oq_clock = 0, oq_delivered = [], oq_overlap = False\<rparr>"

definition set_send_handler :: "OutQueue \<Rightarrow> OutQueue" where
  "set_send_handler q = q\<lparr>oq_handler := True\<rparr>"

section \<open>Sending and parking\<close>

definition outbound_queue_busy :: "OutQueue \<Rightarrow> bool" where
  "outbound_queue_busy q \<longleftrightarrow> oq_pending q \<noteq> [] \<or> oq_in_flight q"

definition arm_pending_drain_timer :: "OutQueue \<Rightarrow> OutQueue" where
  "arm_pending_drain_timer q =
     (if oq_armed q \<or> oq_pending q = [] \<or> oq_muted q then q
      else q\<lparr>oq_armed := True, oq_timer := Some (oq_epoch q)\<rparr>)"

text \<open>The push that \<open>send_frame_impl\<close> and \<open>queue_outbound_for_retry\<close> share: refused at the cap.\<close>

definition park :: "Wire \<Rightarrow> OutQueue \<Rightarrow> bool \<times> OutQueue" where
  "park wire q =
     (if length (oq_pending q) \<ge> kMaxPendingOutbound then (False, q\<lparr>oq_dropped := oq_dropped q + 1\<rparr>)
      else (True, arm_pending_drain_timer
             (q\<lparr>oq_pending := oq_pending q @ [(oq_clock q, wire)], oq_enqueued := oq_enqueued q + 1,
                oq_clock := Suc (oq_clock q)\<rparr>)))"

definition call_transport :: "Transport \<Rightarrow> Wire \<Rightarrow> OutQueue \<Rightarrow> SendOutcome \<times> OutQueue" where
  "call_transport h wire q =
     (let v = h (oq_log q) wire in (v, q\<lparr>oq_log := oq_log q @ [(wire, v)]\<rparr>))"

definition record_sent :: "nat \<Rightarrow> OutQueue \<Rightarrow> OutQueue" where
  "record_sent n q = q\<lparr>oq_frames_sent := oq_frames_sent q + 1, oq_bytes_sent := oq_bytes_sent q + n\<rparr>"

definition park_outcome :: "bool \<times> OutQueue \<Rightarrow> SendOutcome \<times> OutQueue" where
  "park_outcome r = (if fst r then SO_Sent else SO_PermanentFail, snd r)"

definition queue_outbound_for_retry :: "Wire \<Rightarrow> OutQueue \<Rightarrow> bool \<times> OutQueue" where
  "queue_outbound_for_retry wire q = (if oq_muted q then (False, q) else park wire q)"

definition driver_owns_retry :: "FrameType \<Rightarrow> bool" where
  "driver_owns_retry type \<longleftrightarrow>
     type \<in> {TUNNEL_OPEN, TUNNEL_ACK, TUNNEL_DATA, TUNNEL_CLOSE, TUNNEL_ERROR}"

definition route_sendq_full :: "Wire \<Rightarrow> OutQueue \<Rightarrow> SendOutcome \<times> OutQueue" where
  "route_sendq_full wire q =
     (case wire of
        [] \<Rightarrow> (SO_PermanentFail, q)
      | b # _ \<Rightarrow>
          if driver_owns_retry (frame_type_of_byte b) then (SO_SendqFull, q)
          else park_outcome (queue_outbound_for_retry wire q))"

definition frame_must_respect_outbound_barrier :: "FrameType \<Rightarrow> bool" where
  "frame_must_respect_outbound_barrier type \<longleftrightarrow> type = TUNNEL_OPEN \<or> type = TUNNEL_ACK"

section \<open>The sections of a send\<close>

definition barred :: "Wire \<Rightarrow> bool" where
  "barred wire \<longleftrightarrow> wire \<noteq> [] \<and>
     (frame_must_respect_outbound_barrier (frame_type_of_byte (hd wire))
      \<or> frame_type_of_byte (hd wire) = TUNNEL_DATA)"

text \<open>The sends that respect the barrier: all but the span sender's, of other frames than OPEN, ACK and DATA.\<close>

fun ordered :: "SendKind \<Rightarrow> Wire \<Rightarrow> bool" where
  "ordered SK_Span wire = barred wire"
| "ordered _ wire = True"

text \<open>The section under the lock in front of the transport: \<open>Inl\<close> is the outcome of a send that ends here, \<open>Inr\<close>
  the ticket of one that goes on to the transport.\<close>

definition pass_barrier :: "OutQueue \<Rightarrow> (SendOutcome + nat) \<times> OutQueue" where
  "pass_barrier q = (Inr (oq_clock q), q\<lparr>oq_clock := Suc (oq_clock q)\<rparr>)"

fun send_barrier :: "SendKind \<Rightarrow> Wire \<Rightarrow> OutQueue \<Rightarrow> (SendOutcome + nat) \<times> OutQueue" where
  "send_barrier (SK_Frame park_on_backpressure n) wire q =
     (if oq_muted q then (Inl SO_PermanentFail, q)
      else if outbound_queue_busy q then
        if \<not> park_on_backpressure then (Inl SO_SendqFull, q)
        else (case park_outcome (park wire q) of (v, q1) \<Rightarrow> (Inl v, q1))
      else pass_barrier q)"
| "send_barrier SK_Span wire q =
     (if barred wire \<and> outbound_queue_busy q then (Inl SO_SendqFull, q) else pass_barrier q)"
| "send_barrier (SK_Direct n) wire q =
     (if outbound_queue_busy q then (Inl SO_SendqFull, q) else pass_barrier q)"

fun checks_mute :: "SendKind \<Rightarrow> bool" where
  "checks_mute (SK_Frame p n) = True"
| "checks_mute _ = False"

text \<open>The call of the transport, without the lock: \<open>Inl\<close> when the mute latch was seen first, \<open>Inr\<close> the verdict.\<close>

definition send_transport ::
  "Transport \<Rightarrow> SendKind \<Rightarrow> Wire \<Rightarrow> nat \<Rightarrow> OutQueue \<Rightarrow> (SendOutcome + SendOutcome) \<times> OutQueue" where
  "send_transport h kind wire ticket q =
     (if oq_muted q \<and> checks_mute kind then (Inl SO_PermanentFail, q)
      else case call_transport h wire q of
        (v, q1) \<Rightarrow> (Inr v,
          if v = SO_Sent \<and> ordered kind wire then q1\<lparr>oq_delivered := oq_delivered q1 @ [By_Send ticket wire]\<rparr>
          else q1))"

text \<open>What follows the verdict.\<close>

fun send_settle :: "SendKind \<Rightarrow> Wire \<Rightarrow> SendOutcome \<Rightarrow> OutQueue \<Rightarrow> SendOutcome \<times> OutQueue" where
  "send_settle (SK_Frame park_on_backpressure n) wire v q =
     (case v of
        SO_Sent \<Rightarrow> (SO_Sent, record_sent n q)
      | SO_PermanentFail \<Rightarrow> (SO_PermanentFail, q)
      | SO_SendqFull \<Rightarrow>
          if \<not> park_on_backpressure then (SO_SendqFull, q)
          else if oq_muted q then (SO_PermanentFail, q)
          else park_outcome (park wire q))"
| "send_settle SK_Span wire v q =
     (case v of
        SO_Sent \<Rightarrow> (SO_Sent, record_sent (length wire) q)
      | SO_PermanentFail \<Rightarrow> (SO_PermanentFail, q)
      | SO_SendqFull \<Rightarrow> route_sendq_full wire q)"
| "send_settle (SK_Direct n) wire v q =
     (case v of
        SO_Sent \<Rightarrow> (SO_Sent, record_sent n q)
      | SO_PermanentFail \<Rightarrow> (SO_PermanentFail, q)
      | SO_SendqFull \<Rightarrow> (SO_SendqFull, q))"

text \<open>A send that nothing interrupts.\<close>

definition run_send :: "Transport \<Rightarrow> SendKind \<Rightarrow> Wire \<Rightarrow> OutQueue \<Rightarrow> SendOutcome \<times> OutQueue" where
  "run_send h kind wire q =
     (case send_barrier kind wire q of
        (Inl v, q1) \<Rightarrow> (v, q1)
      | (Inr ticket, q1) \<Rightarrow>
          (case send_transport h kind wire ticket q1 of
             (Inl v, q2) \<Rightarrow> (v, q2)
           | (Inr v, q2) \<Rightarrow> send_settle kind wire v q2))"

text \<open>The pre-check and the snapshot of gate and handler come before the sections of \<open>send_frame_impl\<close>.\<close>

definition send_authorised :: "OutQueue \<Rightarrow> bool" where
  "send_authorised q \<longleftrightarrow> \<not> oq_muted q \<and> \<not> oq_gate_closed q \<and> oq_handler q"

definition send_frame_impl ::
  "Transport \<Rightarrow> ProtocolFrame \<Rightarrow> bool \<Rightarrow> OutQueue \<Rightarrow> SendOutcome \<times> OutQueue" where
  "send_frame_impl h frame park_on_backpressure q =
     (if \<not> send_authorised q then (SO_PermanentFail, q)
      else run_send h (SK_Frame park_on_backpressure (serialized_size frame)) (serialize frame) q)"

definition mgr_send_frame :: "Transport \<Rightarrow> ProtocolFrame \<Rightarrow> OutQueue \<Rightarrow> bool \<times> OutQueue" where
  "mgr_send_frame h frame q =
     (case send_frame_impl h frame True q of (v, q1) \<Rightarrow> (v = SO_Sent, q1))"

definition mgr_send_frame_typed :: "Transport \<Rightarrow> ProtocolFrame \<Rightarrow> OutQueue \<Rightarrow> SendOutcome \<times> OutQueue" where
  "mgr_send_frame_typed h frame q = send_frame_impl h frame False q"

text \<open>The senders of a tunnel. The owned buffer's wire view carries the lossless-packet byte in front of the frame.\<close>

definition span_sender :: "Transport \<Rightarrow> Wire \<Rightarrow> OutQueue \<Rightarrow> SendOutcome \<times> OutQueue" where
  "span_sender h wire q = run_send h SK_Span wire q"

definition owned_size :: "OwnedFrameBuffer \<Rightarrow> nat" where
  "owned_size buf = (if length (fb_wire_view buf) > 1 then length (fb_wire_view buf) - 1 else 0)"

definition owned_sender :: "Transport \<Rightarrow> OwnedFrameBuffer \<Rightarrow> OutQueue \<Rightarrow> SendOutcome \<times> OutQueue" where
  "owned_sender h buf q = run_send h (SK_Direct (owned_size buf)) (drop 1 (fb_wire_view buf)) q"

section \<open>Draining\<close>

text \<open>The handler of the drain timer: the snapshot of the gate and the handler, then the loop.\<close>

definition drain_begin :: "OutQueue \<Rightarrow> OutQueue" where
  "drain_begin q =
     (case oq_timer q of
        None \<Rightarrow> q
      | Some epoch \<Rightarrow>
          let q1 = q\<lparr>oq_timer := None\<rparr> in
          if oq_gate_closed q then q1\<lparr>oq_pending := [], oq_armed := False\<rparr>
          else if \<not> oq_handler q then q1\<lparr>oq_armed := False\<rparr>
          else q1\<lparr>oq_drains := oq_drains q @ [DR_Head epoch],
                  oq_overlap := (oq_overlap q \<or> oq_drains q \<noteq> [])\<rparr>)"

text \<open>The section at the head of the loop: \<open>None\<close> leaves the loop, else the drain holds the front frame.\<close>

definition drain_take :: "nat \<Rightarrow> OutQueue \<Rightarrow> DrainPc option \<times> OutQueue" where
  "drain_take epoch q =
     (if epoch \<noteq> oq_epoch q then (None, q\<lparr>oq_armed := False\<rparr>)
      else if oq_muted q then (None, q\<lparr>oq_pending := [], oq_armed := False\<rparr>)
      else case oq_pending q of
        [] \<Rightarrow> (None, q\<lparr>oq_armed := False\<rparr>)
      | entry # rest \<Rightarrow>
          (Some (DR_Flight epoch entry), q\<lparr>oq_pending := rest, oq_in_flight := True\<rparr>))"

definition drain_transport :: "Transport \<Rightarrow> nat \<Rightarrow> Parked \<Rightarrow> OutQueue \<Rightarrow> DrainPc \<times> OutQueue" where
  "drain_transport h epoch entry q =
     (if oq_muted q then (DR_Guard epoch False, q)
      else case call_transport h (snd entry) q of
        (v, q1) \<Rightarrow> (DR_Verdict epoch entry v,
          if v = SO_Sent then q1\<lparr>oq_delivered := oq_delivered q1 @ [By_Drain (fst entry) (snd entry)]\<rparr> else q1))"

definition drain_settle :: "nat \<Rightarrow> Parked \<Rightarrow> SendOutcome \<Rightarrow> OutQueue \<Rightarrow> DrainPc \<times> OutQueue" where
  "drain_settle epoch entry v q =
     (case v of
        SO_Sent \<Rightarrow> (DR_Guard epoch True, record_sent (length (snd entry)) q)
      | SO_PermanentFail \<Rightarrow> (DR_Guard epoch True, q\<lparr>oq_dropped := oq_dropped q + 1\<rparr>)
      | SO_SendqFull \<Rightarrow>
          if epoch \<noteq> oq_epoch q
          then (DR_Guard epoch False, q\<lparr>oq_dropped := oq_dropped q + 1, oq_armed := False\<rparr>)
          else (DR_Guard epoch False,
                arm_pending_drain_timer (q\<lparr>oq_pending := entry # oq_pending q, oq_armed := False\<rparr>)))"

definition drain_guard :: "nat \<Rightarrow> bool \<Rightarrow> OutQueue \<Rightarrow> DrainPc option \<times> OutQueue" where
  "drain_guard epoch again q =
     (if again then Some (DR_Head epoch) else None, q\<lparr>oq_in_flight := False\<rparr>)"

text \<open>A drain run to completion, from the head of its loop.\<close>

function drain_loop :: "Transport \<Rightarrow> nat \<Rightarrow> OutQueue \<Rightarrow> OutQueue" where
  "drain_loop h epoch q =
     (case drain_take epoch q of
        (Some (DR_Flight e entry), q1) \<Rightarrow>
          (case drain_transport h e entry q1 of
             (DR_Verdict e2 w v, q2) \<Rightarrow>
               (case drain_settle e2 w v q2 of
                  (DR_Guard e3 True, q3) \<Rightarrow> drain_loop h epoch (snd (drain_guard e3 True q3))
                | (DR_Guard e3 False, q3) \<Rightarrow> snd (drain_guard e3 False q3)
                | (_, q3) \<Rightarrow> q3)
           | (_, q2) \<Rightarrow> snd (drain_guard e False q2))
      | (_, q1) \<Rightarrow> q1)"
  by pat_completeness auto
termination
  by (relation "measure (\<lambda>(h, e, q). length (oq_pending q))")
    (auto simp: drain_take_def drain_transport_def call_transport_def drain_settle_def drain_guard_def
      record_sent_def Let_def split: if_splits list.splits SendOutcome.splits prod.splits)

section \<open>Resetting and muting\<close>

definition clear_pending_outbound :: "OutQueue \<Rightarrow> OutQueue" where
  "clear_pending_outbound q =
     q\<lparr>oq_dropped := oq_dropped q + length (oq_pending q), oq_pending := [], oq_armed := False,
       oq_epoch := oq_epoch q + 1, oq_timer := None\<rparr>"

text \<open>The part of \<open>close_all_local\<close> that silences the manager: the mute latch, then the gate.\<close>

definition mute_outbound :: "OutQueue \<Rightarrow> OutQueue" where
  "mute_outbound q =
     q\<lparr>oq_muted := True, oq_dropped := oq_dropped q + length (oq_pending q), oq_pending := [],
       oq_armed := False, oq_timer := None\<rparr>"

definition close_send_gate :: "OutQueue \<Rightarrow> OutQueue" where
  "close_send_gate q = q\<lparr>oq_gate_closed := True, oq_handler := False\<rparr>"

section \<open>Interleavings\<close>

definition put_drain :: "nat \<Rightarrow> DrainPc option \<Rightarrow> OutQueue \<Rightarrow> OutQueue" where
  "put_drain i d q =
     q\<lparr>oq_drains := (case d of Some p \<Rightarrow> (oq_drains q)[i := p]
                     | None \<Rightarrow> take i (oq_drains q) @ drop (Suc i) (oq_drains q))\<rparr>"

definition put_send :: "nat \<Rightarrow> SendPc option \<Rightarrow> OutQueue \<Rightarrow> OutQueue" where
  "put_send i d q =
     q\<lparr>oq_sends := (case d of Some p \<Rightarrow> (oq_sends q)[i := p]
                    | None \<Rightarrow> take i (oq_sends q) @ drop (Suc i) (oq_sends q))\<rparr>"

definition start_send :: "SendKind \<Rightarrow> Wire \<Rightarrow> OutQueue \<Rightarrow> OutQueue" where
  "start_send kind wire q = q\<lparr>oq_sends := oq_sends q @ [SP_Barrier kind wire]\<rparr>"

text \<open>\<open>create_tunnel\<close> checks gate and handler like \<open>send_frame_impl\<close>; the senders of a tunnel check neither.\<close>

inductive q_step :: "OutQueue \<Rightarrow> OutQueue \<Rightarrow> bool" where
  qs_handler: "q_step q (set_send_handler q)"
| qs_send: "send_authorised q \<Longrightarrow> q_step q (start_send (SK_Frame p (serialized_size frame)) (serialize frame) q)"
| qs_queue: "q_step q (snd (queue_outbound_for_retry wire q))"
| qs_span: "q_step q (start_send SK_Span wire q)"
| qs_direct: "q_step q (start_send (SK_Direct n) wire q)"
| qs_barrier: "i < length (oq_sends q) \<Longrightarrow> oq_sends q ! i = SP_Barrier k w \<Longrightarrow>
    send_barrier k w q = (r, q1) \<Longrightarrow>
    q_step q (put_send i (case r of Inl v \<Rightarrow> None | Inr t \<Rightarrow> Some (SP_Ready k w t)) q1)"
| qs_call: "i < length (oq_sends q) \<Longrightarrow> oq_sends q ! i = SP_Ready k w t \<Longrightarrow>
    send_transport h k w t q = (r, q1) \<Longrightarrow>
    q_step q (put_send i (case r of Inl v \<Rightarrow> None | Inr v \<Rightarrow> Some (SP_Verdict k w v)) q1)"
| qs_settled: "i < length (oq_sends q) \<Longrightarrow> oq_sends q ! i = SP_Verdict k w v \<Longrightarrow>
    send_settle k w v q = (r, q1) \<Longrightarrow> q_step q (put_send i None q1)"
| qs_fire: "q_step q (drain_begin q)"
| qs_take: "i < length (oq_drains q) \<Longrightarrow> oq_drains q ! i = DR_Head e \<Longrightarrow>
    drain_take e q = (d, q1) \<Longrightarrow> q_step q (put_drain i d q1)"
| qs_transport: "i < length (oq_drains q) \<Longrightarrow> oq_drains q ! i = DR_Flight e w \<Longrightarrow>
    drain_transport h e w q = (d, q1) \<Longrightarrow> q_step q (put_drain i (Some d) q1)"
| qs_settle: "i < length (oq_drains q) \<Longrightarrow> oq_drains q ! i = DR_Verdict e w v \<Longrightarrow>
    drain_settle e w v q = (d, q1) \<Longrightarrow> q_step q (put_drain i (Some d) q1)"
| qs_guard: "i < length (oq_drains q) \<Longrightarrow> oq_drains q ! i = DR_Guard e b \<Longrightarrow>
    drain_guard e b q = (d, q1) \<Longrightarrow> q_step q (put_drain i d q1)"
| qs_clear: "q_step q (clear_pending_outbound q)"
| qs_mute: "q_step q (mute_outbound q)"
| qs_gate: "q_step q (close_send_gate q)"

inductive q_reachable :: "OutQueue \<Rightarrow> bool" where
  qr_new: "q_reachable oq_new"
| qr_step: "q_reachable q \<Longrightarrow> q_step q q1 \<Longrightarrow> q_reachable q1"

section \<open>Nothing overtakes a frame that was parked before it\<close>

text \<open>The frame a drain still has to bring to the transport or back to the queue.\<close>

fun flight_of :: "DrainPc \<Rightarrow> Parked list" where
  "flight_of (DR_Flight e x) = [x]"
| "flight_of (DR_Verdict e x v) = (if v = SO_SendqFull then [x] else [])"
| "flight_of _ = []"

fun at_head :: "DrainPc \<Rightarrow> bool" where
  "at_head (DR_Head e) = True"
| "at_head _ = False"

definition in_transit :: "OutQueue \<Rightarrow> Parked list" where
  "in_transit q = concat (map flight_of (oq_drains q))"

fun ticket :: "Delivery \<Rightarrow> nat" where
  "ticket (By_Drain t w) = t"
| "ticket (By_Send t w) = t"

text \<open>A delivery may precede a parked frame only if its own ticket is the older one.\<close>

fun in_turn :: "Delivery \<Rightarrow> Delivery \<Rightarrow> bool" where
  "in_turn x (By_Drain t w) = (ticket x < t)"
| "in_turn x (By_Send t w) = True"

definition waiting_frames :: "OutQueue \<Rightarrow> Delivery list" where
  "waiting_frames q = map (\<lambda>(t, w). By_Drain t w) (in_transit q @ oq_pending q)"

fun ready_ok :: "nat \<Rightarrow> Delivery list \<Rightarrow> SendPc \<Rightarrow> bool" where
  "ready_ok c xs (SP_Ready k w t) = (t < c \<and> (ordered k w \<longrightarrow> (\<forall>x\<in>set xs. t < ticket x)))"
| "ready_ok c xs _ = True"

definition queue_ok :: "OutQueue \<Rightarrow> bool" where
  "queue_ok q \<longleftrightarrow> length (oq_drains q) \<le> 1 \<and> (oq_in_flight q \<longleftrightarrow> list_ex (\<lambda>d. \<not> at_head d) (oq_drains q))
     \<and> sorted_wrt in_turn (oq_delivered q @ waiting_frames q)
     \<and> (\<forall>x\<in>set (oq_delivered q @ waiting_frames q). ticket x < oq_clock q)
     \<and> list_all (ready_ok (oq_clock q) (waiting_frames q)) (oq_sends q)
     \<and> length (waiting_frames q) \<le> kMaxPendingOutbound + 1"

definition queue_inv :: "OutQueue \<Rightarrow> bool" where
  "queue_inv q \<longleftrightarrow> (\<not> oq_overlap q \<longrightarrow> queue_ok q)"

lemma queue_okI:
  assumes "length (oq_drains q) \<le> 1" "oq_in_flight q \<longleftrightarrow> list_ex (\<lambda>d. \<not> at_head d) (oq_drains q)"
    "sorted_wrt in_turn (oq_delivered q @ waiting_frames q)"
    "\<And>x. x \<in> set (oq_delivered q @ waiting_frames q) \<Longrightarrow> ticket x < oq_clock q"
    "list_all (ready_ok (oq_clock q) (waiting_frames q)) (oq_sends q)"
    "length (waiting_frames q) \<le> kMaxPendingOutbound + 1"
  shows "queue_ok q"
  unfolding queue_ok_def using assms by blast

lemma queue_okD:
  assumes "queue_ok q"
  shows "length (oq_drains q) \<le> 1" "oq_in_flight q \<longleftrightarrow> list_ex (\<lambda>d. \<not> at_head d) (oq_drains q)"
    "sorted_wrt in_turn (oq_delivered q @ waiting_frames q)"
    "\<And>x. x \<in> set (oq_delivered q @ waiting_frames q) \<Longrightarrow> ticket x < oq_clock q"
    "list_all (ready_ok (oq_clock q) (waiting_frames q)) (oq_sends q)"
    "length (waiting_frames q) \<le> kMaxPendingOutbound + 1"
  using assms unfolding queue_ok_def by blast+

lemma arm_fields [simp]:
  "oq_pending (arm_pending_drain_timer q) = oq_pending q"
  "oq_in_flight (arm_pending_drain_timer q) = oq_in_flight q"
  "oq_drains (arm_pending_drain_timer q) = oq_drains q"
  "oq_sends (arm_pending_drain_timer q) = oq_sends q"
  "oq_clock (arm_pending_drain_timer q) = oq_clock q"
  "oq_delivered (arm_pending_drain_timer q) = oq_delivered q"
  "oq_overlap (arm_pending_drain_timer q) = oq_overlap q"
  by (simp_all add: arm_pending_drain_timer_def)

text \<open>What the invariant reads, and the ways in which it may change: the waiting frames shrink, a frame is parked at
  the end with the next ticket, an entry of the sends goes or is replaced.\<close>

definition queue_view :: "OutQueue \<Rightarrow> _" where
  "queue_view q = (oq_pending q, oq_in_flight q, oq_drains q, oq_sends q, oq_clock q, oq_delivered q, oq_overlap q)"

lemma queue_ok_view:
  assumes "queue_ok q" and "oq_pending q1 = oq_pending q" "oq_in_flight q1 = oq_in_flight q" "oq_drains q1 = oq_drains q"
    "oq_sends q1 = oq_sends q" "oq_clock q1 = oq_clock q" "oq_delivered q1 = oq_delivered q"
  shows "queue_ok q1"
  using assms by (simp add: queue_ok_def waiting_frames_def in_transit_def)

lemma queue_inv_view: "queue_view q1 = queue_view q \<Longrightarrow> queue_inv q \<Longrightarrow> queue_inv q1"
  by (simp add: queue_view_def queue_inv_def queue_ok_def waiting_frames_def in_transit_def)

lemma queue_view_simps:
  "queue_view (snd (call_transport h w q)) = queue_view q"
  "queue_view (record_sent n q) = queue_view q"
  "queue_view (set_send_handler q) = queue_view q"
  "queue_view (close_send_gate q) = queue_view q"
  by (simp_all add: queue_view_def call_transport_def record_sent_def set_send_handler_def
      close_send_gate_def Let_def)

lemma in_transit_short: "length (oq_drains q) \<le> 1 \<Longrightarrow> length (in_transit q) \<le> 1"
  by (cases "oq_drains q"; cases "hd (oq_drains q)") (auto simp: in_transit_def)

lemma ready_ok_mono:
  assumes "ready_ok c xs p" "c \<le> d" "set ys \<subseteq> set xs \<union> {x. c \<le> ticket x}"
  shows "ready_ok d ys p"
proof (cases p)
  case (SP_Ready k w t)
  with assms(1) have "t < c" and old: "ordered k w \<Longrightarrow> \<forall>x\<in>set xs. t < ticket x" by simp_all
  then have "ordered k w \<Longrightarrow> \<forall>x\<in>set ys. t < ticket x" using assms(3) by fastforce
  then show ?thesis using SP_Ready \<open>t < c\<close> assms(2) by simp
qed simp_all

lemma ready_all_mono:
  assumes "list_all (ready_ok c xs) ps" "c \<le> d" "set ys \<subseteq> set xs \<union> {x. c \<le> ticket x}"
  shows "list_all (ready_ok d ys) ps"
  using assms ready_ok_mono [OF _ assms(2,3)] by (auto simp: list_all_iff)

lemma park_full: "length (oq_pending q) \<ge> kMaxPendingOutbound \<Longrightarrow> queue_view (snd (park w q)) = queue_view q"
  by (simp add: park_def queue_view_def)

lemma park_fields:
  assumes "\<not> length (oq_pending q) \<ge> kMaxPendingOutbound"
  shows "waiting_frames (snd (park w q)) = waiting_frames q @ [By_Drain (oq_clock q) w]"
    "oq_drains (snd (park w q)) = oq_drains q" "oq_in_flight (snd (park w q)) = oq_in_flight q"
    "oq_sends (snd (park w q)) = oq_sends q" "oq_clock (snd (park w q)) = Suc (oq_clock q)"
    "oq_delivered (snd (park w q)) = oq_delivered q"
  using assms by (simp_all add: park_def waiting_frames_def in_transit_def)

lemma park_inv:
  assumes "queue_inv q"
  shows "queue_inv (snd (park w q))"
proof (cases "length (oq_pending q) \<ge> kMaxPendingOutbound")
  case True
  then show ?thesis using queue_inv_view [OF park_full] assms by blast
next
  case False
  let ?new = "By_Drain (oq_clock q) w"
  have "queue_ok (snd (park w q))" if ok: "queue_ok q"
  proof (rule queue_okI, unfold park_fields [OF False])
    show "sorted_wrt in_turn (oq_delivered q @ waiting_frames q @ [?new])"
      using queue_okD(3,4) [OF ok] unfolding append_assoc [symmetric] by (subst sorted_wrt_append) simp
    show "list_all (ready_ok (Suc (oq_clock q)) (waiting_frames q @ [?new])) (oq_sends q)"
      by (rule ready_all_mono [OF queue_okD(5) [OF ok]]) auto
    show "length (waiting_frames q @ [?new]) \<le> kMaxPendingOutbound + 1"
      using False in_transit_short [OF queue_okD(1) [OF ok]] by (simp add: waiting_frames_def)
    fix x assume "x \<in> set (oq_delivered q @ waiting_frames q @ [?new])"
    then show "ticket x < Suc (oq_clock q)" using queue_okD(4) [OF ok, of x] by auto
  qed (fact queue_okD [OF ok])+
  moreover have "oq_overlap (snd (park w q)) = oq_overlap q" by (simp add: park_def)
  ultimately show ?thesis using assms by (simp add: queue_inv_def)
qed

lemma not_busy_order:
  assumes "queue_ok q" and "\<not> outbound_queue_busy q"
  shows "waiting_frames q = []"
proof -
  have "list_all at_head (oq_drains q)"
    using assms by (auto simp: queue_ok_def outbound_queue_busy_def list_ex_iff list_all_iff)
  then have "map flight_of (oq_drains q) = map (\<lambda>_. []) (oq_drains q)"
    by (auto simp: list_all_iff elim!: at_head.elims)
  then show ?thesis using assms(2) by (simp add: waiting_frames_def in_transit_def outbound_queue_busy_def)
qed

lemma put_sends_set: "set (oq_sends (put_send i d q)) \<subseteq> set (oq_sends q) \<union> set_option d"
  by (auto simp: put_send_def split: option.splits dest: in_set_takeD in_set_dropD set_update_subset_insert [THEN subsetD])

lemma put_send_inv:
  assumes "queue_inv q" and "\<And>p. d = Some p \<Longrightarrow> queue_ok q \<Longrightarrow> ready_ok (oq_clock q) (waiting_frames q) p"
  shows "queue_inv (put_send i d q)"
proof -
  have "list_all (ready_ok (oq_clock q) (waiting_frames q)) (oq_sends (put_send i d q))" if "queue_ok q"
    using put_sends_set [of i d q] assms(2) that by (force simp: list_all_iff queue_ok_def)
  then show ?thesis
    using assms(1) by (simp add: queue_inv_def queue_ok_def put_send_def waiting_frames_def in_transit_def)
qed

lemma sorted_wrt_subseq: "subseq xs ys \<Longrightarrow> sorted_wrt R ys \<Longrightarrow> sorted_wrt R xs"
proof (induction rule: list_emb.induct)
  case (list_emb_Cons2 x y xs ys)
  then show ?case by (auto dest: list_emb_set)
qed auto

lemma queue_ok_shrunk:
  assumes ok: "queue_ok q"
    and eqs: "oq_delivered q1 = oq_delivered q" "oq_clock q1 = oq_clock q" "oq_sends q1 = oq_sends q"
    and sub: "subseq (waiting_frames q1) (waiting_frames q)"
    and drains: "length (oq_drains q1) \<le> 1" "oq_in_flight q1 \<longleftrightarrow> list_ex (\<lambda>d. \<not> at_head d) (oq_drains q1)"
  shows "queue_ok q1"
proof (rule queue_okI, unfold eqs)
  have set: "set (waiting_frames q1) \<subseteq> set (waiting_frames q)" using list_emb_set [OF sub] by auto
  have "subseq (oq_delivered q @ waiting_frames q1) (oq_delivered q @ waiting_frames q)"
    by (rule list_emb_append_mono [OF subseq_order.refl sub])
  from this queue_okD(3) [OF ok] show "sorted_wrt in_turn (oq_delivered q @ waiting_frames q1)" by (rule sorted_wrt_subseq)
  show "list_all (ready_ok (oq_clock q) (waiting_frames q1)) (oq_sends q)"
    using set by (intro ready_all_mono [OF queue_okD(5) [OF ok]]) auto
  show "length (waiting_frames q1) \<le> kMaxPendingOutbound + 1"
    using queue_okD(6) [OF ok] list_emb_length [OF sub] by simp
  fix x assume "x \<in> set (oq_delivered q @ waiting_frames q1)"
  then show "ticket x < oq_clock q" using queue_okD(4) [OF ok, of x] set by auto
qed (fact drains)+

lemma emptied_inv:
  assumes "queue_inv q"
  shows "queue_inv (q\<lparr>oq_pending := []\<rparr>)"
proof -
  have "queue_ok (q\<lparr>oq_pending := []\<rparr>)" if "queue_ok q"
    by (rule queue_ok_shrunk [OF that]) (use that in \<open>auto simp: waiting_frames_def in_transit_def queue_ok_def\<close>)
  then show ?thesis using assms by (simp add: queue_inv_def)
qed

lemma route_inv: "queue_inv q \<Longrightarrow> queue_inv (snd (route_sendq_full w q))"
  using park_inv [of q w]
  by (auto simp: route_sendq_full_def queue_outbound_for_retry_def park_outcome_def split: list.split)

text \<open>The sections of a send.\<close>

lemma start_inv: "queue_inv q \<Longrightarrow> queue_inv (start_send k w q)"
  by (simp add: queue_inv_def queue_ok_def start_send_def waiting_frames_def in_transit_def)

lemma pass_inv:
  assumes "queue_inv q"
  shows "queue_inv (q\<lparr>oq_clock := Suc (oq_clock q)\<rparr>)"
proof -
  have w: "waiting_frames (q\<lparr>oq_clock := Suc (oq_clock q)\<rparr>) = waiting_frames q"
    by (simp add: waiting_frames_def in_transit_def)
  have "queue_ok (q\<lparr>oq_clock := Suc (oq_clock q)\<rparr>)" if ok: "queue_ok q"
  proof (rule queue_okI, unfold w)
    show "list_all (ready_ok (oq_clock (q\<lparr>oq_clock := Suc (oq_clock q)\<rparr>)) (waiting_frames q))
        (oq_sends (q\<lparr>oq_clock := Suc (oq_clock q)\<rparr>))"
      using ready_all_mono [OF queue_okD(5) [OF ok]] by simp
  qed (use queue_okD [OF ok] in \<open>auto simp: less_Suc_eq\<close>)
  then show ?thesis using assms by (simp add: queue_inv_def)
qed

lemma barrier_passed:
  assumes "send_barrier k w q = (Inr t, q1)"
  shows "q1 = q\<lparr>oq_clock := Suc (oq_clock q)\<rparr> \<and> t = oq_clock q \<and> (ordered k w \<longrightarrow> \<not> outbound_queue_busy q)"
  using assms by (cases k) (auto simp: pass_barrier_def split: if_splits prod.splits)

lemma barrier_ended:
  assumes "send_barrier k w q = (Inl v, q1)"
  shows "q1 = q \<or> q1 = snd (park w q)"
  using assms by (cases k) (auto simp: pass_barrier_def park_outcome_def split: if_splits prod.splits)

lemma barrier_inv:
  assumes "queue_inv q" and "send_barrier k w q = (r, q1)"
  shows "queue_inv (put_send i (case r of Inl v \<Rightarrow> None | Inr t \<Rightarrow> Some (SP_Ready k w t)) q1)"
proof (cases r)
  case (Inl v)
  then have "queue_inv q1" using barrier_ended assms park_inv by blast
  then show ?thesis using Inl by (intro put_send_inv) auto
next
  case (Inr t)
  note p = barrier_passed [OF assms(2) [unfolded Inr]]
  have "ready_ok (Suc (oq_clock q)) (waiting_frames q1) (SP_Ready k w t)" if "queue_ok q1" "ordered k w"
  proof -
    have "waiting_frames q1 = []" using not_busy_order [OF that(1)] p that(2) by (simp add: outbound_queue_busy_def)
    then show ?thesis using p by simp
  qed
  then show ?thesis using Inr p pass_inv [OF assms(1)] by (intro put_send_inv) auto
qed

lemma call_inv: "queue_inv q \<Longrightarrow> call_transport h w q = (v, q1) \<Longrightarrow> queue_inv q1 \<and> queue_view q1 = queue_view q"
  using queue_inv_view [OF queue_view_simps(1), of q h w] queue_view_simps(1) [of h w q] by simp

text \<open>A frame that is handed over: it takes its place after the frames delivered before, ahead of those that wait.\<close>

lemma delivered_ok:
  assumes ok: "queue_ok q" and "ticket x < oq_clock q" and "\<And>y. y \<in> set (waiting_frames q) \<Longrightarrow> in_turn x y"
    and "\<And>y. y \<in> set (oq_delivered q) \<Longrightarrow> in_turn y x"
  shows "queue_ok (q\<lparr>oq_delivered := oq_delivered q @ [x]\<rparr>)"
proof -
  have w: "waiting_frames (q\<lparr>oq_delivered := oq_delivered q @ [x]\<rparr>) = waiting_frames q"
    by (simp add: waiting_frames_def in_transit_def)
  show ?thesis
  proof (rule queue_okI, unfold w)
    show "sorted_wrt in_turn (oq_delivered (q\<lparr>oq_delivered := oq_delivered q @ [x]\<rparr>) @ waiting_frames q)"
      using queue_okD(3) [OF ok] assms(3,4) by (auto simp: sorted_wrt_append)
  qed (use queue_okD [OF ok] assms(2) in auto)
qed

lemma waiting_in_turn: "y \<in> set (waiting_frames q) \<Longrightarrow> ticket x < ticket y \<Longrightarrow> in_turn x y"
  by (auto simp: waiting_frames_def)

lemma sent_ok:
  assumes ok: "queue_ok q" and "SP_Ready k w t \<in> set (oq_sends q)" and "ordered k w"
  shows "queue_ok (q\<lparr>oq_delivered := oq_delivered q @ [By_Send t w]\<rparr>)"
proof -
  have "t < oq_clock q" "\<forall>y\<in>set (waiting_frames q). t < ticket y"
    using queue_okD(5) [OF ok] assms(2,3) by (auto simp: list_all_iff)
  then show ?thesis using waiting_in_turn [of _ q "By_Send t w"] by (intro delivered_ok [OF ok]) auto
qed

lemma call_step_inv:
  assumes "queue_inv q" and "i < length (oq_sends q)" and "oq_sends q ! i = SP_Ready k w t"
    and "send_transport h k w t q = (r, q1)"
  shows "queue_inv (put_send i (case r of Inl v \<Rightarrow> None | Inr v \<Rightarrow> Some (SP_Verdict k w v)) q1)"
proof -
  obtain v q2 where c: "call_transport h w q = (v, q2)" by fastforce
  have i2: "queue_inv q2" and view: "oq_sends q2 = oq_sends q"
    using call_inv [OF assms(1) c] by (auto simp: queue_view_def)
  have "SP_Ready k w t \<in> set (oq_sends q2)" using assms(2,3) view by (metis nth_mem)
  then have "queue_inv (q2\<lparr>oq_delivered := oq_delivered q2 @ [By_Send t w]\<rparr>)" if "ordered k w"
    using i2 sent_ok [of q2 k w t] that by (auto simp: queue_inv_def)
  then have "queue_inv q1" using assms(1,4) i2 by (auto simp: send_transport_def c split: if_splits)
  then show ?thesis by (rule put_send_inv) (auto split: sum.splits)
qed

lemma settled_inv:
  assumes "queue_inv q" and "send_settle k w v q = (r, q1)"
  shows "queue_inv (put_send i None q1)"
proof -
  have "q1 = q \<or> q1 = snd (park w q) \<or> q1 = snd (route_sendq_full w q) \<or> (\<exists>n. q1 = record_sent n q)"
    using assms(2) by (cases k; cases v) (auto simp: park_outcome_def split: if_splits)
  then have "queue_inv q1"
    using assms(1) park_inv route_inv queue_inv_view [OF queue_view_simps(2)] by blast
  then show ?thesis by (rule put_send_inv) simp
qed

text \<open>The steps of a drain, when there is only one.\<close>

lemma single_drain: "length xs \<le> 1 \<Longrightarrow> i < length xs \<Longrightarrow> xs ! i = d \<Longrightarrow> i = 0 \<and> xs = [d]"
  by (cases xs) auto

lemma put_overlap [simp]: "oq_overlap (put_drain i d q) = oq_overlap q"
  by (simp add: put_drain_def)

lemma fire_inv:
  assumes "queue_inv q"
  shows "queue_inv (drain_begin q)"
proof (cases "oq_timer q = None \<or> oq_gate_closed q \<or> \<not> oq_handler q")
  case True
  then have "queue_view (drain_begin q) = queue_view q
      \<or> queue_view (drain_begin q) = queue_view (q\<lparr>oq_pending := []\<rparr>)"
    by (cases "oq_timer q") (auto simp: drain_begin_def queue_view_def Let_def)
  with assms emptied_inv queue_inv_view show ?thesis by blast
next
  case False
  then obtain e where e: "drain_begin q = q\<lparr>oq_timer := None, oq_drains := oq_drains q @ [DR_Head e],
      oq_overlap := (oq_overlap q \<or> oq_drains q \<noteq> [])\<rparr>"
    by (auto simp: drain_begin_def Let_def)
  have "queue_ok (drain_begin q)" if "queue_ok q" "oq_drains q = []"
    by (rule queue_ok_shrunk [OF that(1)])
      (use that e queue_okD(2) [OF that(1)] in \<open>auto simp: waiting_frames_def in_transit_def\<close>)
  then have "queue_inv (drain_begin q)" if "\<not> oq_overlap q" "oq_drains q = []"
    using assms that by (simp add: queue_inv_def)
  then show ?thesis using e by (auto simp: queue_inv_def)
qed

lemma cleared_inv: "queue_inv q \<Longrightarrow> queue_inv (clear_pending_outbound q)"
  by (rule queue_inv_view [OF _ emptied_inv]) (simp_all add: clear_pending_outbound_def queue_view_def)

lemma muted_inv: "queue_inv q \<Longrightarrow> queue_inv (mute_outbound q)"
  by (rule queue_inv_view [OF _ emptied_inv]) (simp_all add: mute_outbound_def queue_view_def)

text \<open>A step that replaces the only drain of the queue keeps the invariant when it only drops waiting frames.\<close>

lemma drain_step_inv:
  assumes "queue_inv q" and "i < length (oq_drains q)" and "oq_drains q ! i = d"
    and "oq_overlap q1 = oq_overlap q"
    and "queue_ok q \<Longrightarrow> i = 0 \<Longrightarrow> oq_drains q = [d] \<Longrightarrow> queue_ok (put_drain 0 d1 q1)"
  shows "queue_inv (put_drain i d1 q1)"
  using assms single_drain [OF queue_okD(1) assms(2,3)] by (auto simp: queue_inv_def)

lemma take_inv:
  assumes "queue_inv q" and "i < length (oq_drains q)" and "oq_drains q ! i = DR_Head e"
    and "drain_take e q = (d, q1)"
  shows "queue_inv (put_drain i d q1)"
proof (rule drain_step_inv [OF assms(1-3)])
  show "oq_overlap q1 = oq_overlap q" using assms(4) by (auto simp: drain_take_def split: if_splits list.splits)
  assume ok: "queue_ok q" and d: "oq_drains q = [DR_Head e]"
  show "queue_ok (put_drain 0 d q1)"
    by (rule queue_ok_shrunk [OF ok])
      (use assms(4) d queue_okD(2) [OF ok] in
        \<open>auto simp: drain_take_def put_drain_def waiting_frames_def in_transit_def split: if_splits list.splits\<close>)
qed

lemma transport_inv:
  assumes "queue_inv q" and "i < length (oq_drains q)" and "oq_drains q ! i = DR_Flight e x"
    and "drain_transport h e x q = (d, q1)"
  shows "queue_inv (put_drain i (Some d) q1)"
proof (rule drain_step_inv [OF assms(1-3)])
  show "oq_overlap q1 = oq_overlap q"
    using assms(4) by (auto simp: drain_transport_def call_transport_def Let_def split: if_splits)
  assume ok: "queue_ok q" and d: "oq_drains q = [DR_Flight e x]"
  let ?x = "By_Drain (fst x) (snd x)"
  have w: "waiting_frames q = ?x # map (\<lambda>(t, w). By_Drain t w) (oq_pending q)"
    using d by (cases x) (simp add: waiting_frames_def in_transit_def)
  let ?q = "q\<lparr>oq_drains := [d], oq_log := oq_log q1\<rparr>"
  have rest: "queue_ok ?q"
    by (rule queue_ok_shrunk [OF ok])
      (use assms(4) d queue_okD(2) [OF ok] in
        \<open>auto simp: drain_transport_def call_transport_def waiting_frames_def in_transit_def Let_def split: if_splits\<close>)
  have "in_turn y ?x" if "y \<in> set (oq_delivered q)" for y
    using queue_okD(3) [OF ok] that w by (auto simp: sorted_wrt_append)
  moreover have "in_turn ?x y" if "y \<in> set (map (\<lambda>(t, w). By_Drain t w) (oq_pending q))" for y
    using queue_okD(3) [OF ok] that w by (auto simp: sorted_wrt_append)
  moreover have "ticket ?x < oq_clock q" using queue_okD(4) [OF ok, of ?x] w by simp
  moreover have "set (waiting_frames ?q) \<subseteq> set (map (\<lambda>(t, w). By_Drain t w) (oq_pending q))" if "d = DR_Verdict e x SO_Sent"
    using that by (simp add: waiting_frames_def in_transit_def)
  ultimately have "queue_ok (?q\<lparr>oq_delivered := oq_delivered ?q @ [?x]\<rparr>)" if "d = DR_Verdict e x SO_Sent"
    using that by (intro delivered_ok [OF rest]) (auto simp: subset_iff)
  then show "queue_ok (put_drain 0 (Some d) q1)"
    using assms(4) d
    by (auto simp: drain_transport_def call_transport_def put_drain_def Let_def intro: queue_ok_view [OF rest]
        elim!: queue_ok_view split: if_splits)
qed

lemma settle_inv:
  assumes "queue_inv q" and "i < length (oq_drains q)" and "oq_drains q ! i = DR_Verdict e x v"
    and "drain_settle e x v q = (d, q1)"
  shows "queue_inv (put_drain i (Some d) q1)"
proof (rule drain_step_inv [OF assms(1-3)])
  show "oq_overlap q1 = oq_overlap q"
    using assms(4) by (auto simp: drain_settle_def record_sent_def split: if_splits SendOutcome.splits)
  assume ok: "queue_ok q" and d: "oq_drains q = [DR_Verdict e x v]"
  show "queue_ok (put_drain 0 (Some d) q1)"
    by (rule queue_ok_shrunk [OF ok])
      (use assms(4) d queue_okD(2) [OF ok] in
        \<open>auto simp: drain_settle_def record_sent_def put_drain_def waiting_frames_def in_transit_def
          split: if_splits SendOutcome.splits\<close>)
qed

lemma guard_inv:
  assumes "queue_inv q" and "i < length (oq_drains q)" and "oq_drains q ! i = DR_Guard e b"
    and "drain_guard e b q = (d, q1)"
  shows "queue_inv (put_drain i d q1)"
proof (rule drain_step_inv [OF assms(1-3)])
  show "oq_overlap q1 = oq_overlap q" using assms(4) by (auto simp: drain_guard_def)
  assume ok: "queue_ok q" and d: "oq_drains q = [DR_Guard e b]"
  show "queue_ok (put_drain 0 d q1)"
    by (rule queue_ok_shrunk [OF ok])
      (use assms(4) d in \<open>auto simp: drain_guard_def put_drain_def waiting_frames_def in_transit_def split: if_splits\<close>)
qed

lemma queue_inv_step: "q_step q q1 \<Longrightarrow> queue_inv q \<Longrightarrow> queue_inv q1"
proof (induction rule: q_step.induct)
  case (qs_queue q wire)
  then show ?case using park_inv [of q wire] by (auto simp: queue_outbound_for_retry_def)
next
  case (qs_handler q)
  then show ?case by (rule queue_inv_view [OF queue_view_simps(3)])
next
  case (qs_gate q)
  then show ?case by (rule queue_inv_view [OF queue_view_simps(4)])
qed (auto intro: start_inv barrier_inv call_step_inv settled_inv fire_inv take_inv transport_inv settle_inv guard_inv
    cleared_inv muted_inv)

lemma queue_inv_new: "queue_inv oq_new"
  by (simp add: queue_inv_def queue_ok_def oq_new_def waiting_frames_def in_transit_def)

lemma queue_inv_reachable: "q_reachable q \<Longrightarrow> queue_inv q"
  by (induction rule: q_reachable.induct) (auto intro: queue_inv_step queue_inv_new)

section \<open>A whole drain\<close>

declare drain_loop.simps [simp del]

lemma drain_loop_empty:
  "\<not> oq_muted q \<Longrightarrow> oq_pending q = [] \<Longrightarrow> drain_loop h (oq_epoch q) q = q\<lparr>oq_armed := False\<rparr>"
  by (subst drain_loop.simps) (simp add: drain_take_def)

lemma drain_loop_sent:
  assumes "\<not> oq_muted q" and "oq_pending q = (t, w) # rest" and "h (oq_log q) w = SO_Sent"
  shows "drain_loop h (oq_epoch q) q = drain_loop h (oq_epoch q)
    (q\<lparr>oq_pending := rest, oq_log := oq_log q @ [(w, SO_Sent)],
       oq_delivered := oq_delivered q @ [By_Drain t w], oq_frames_sent := oq_frames_sent q + 1,
       oq_bytes_sent := oq_bytes_sent q + length w, oq_in_flight := False\<rparr>)"
  using assms
  by (subst drain_loop.simps)
    (simp add: drain_take_def drain_transport_def call_transport_def drain_settle_def drain_guard_def
      record_sent_def)

lemma drain_loop_accepting:
  assumes "\<And>l w. h l w = SO_Sent" and "\<not> oq_muted q" and "\<not> oq_in_flight q"
  shows "drain_loop h (oq_epoch q) q =
    q\<lparr>oq_pending := [], oq_armed := False, oq_log := oq_log q @ map (\<lambda>(t, w). (w, SO_Sent)) (oq_pending q),
      oq_delivered := oq_delivered q @ map (\<lambda>(t, w). By_Drain t w) (oq_pending q),
      oq_frames_sent := oq_frames_sent q + length (oq_pending q),
      oq_bytes_sent := oq_bytes_sent q + sum_list (map (length \<circ> snd) (oq_pending q))\<rparr>"
  using assms(2,3)
proof (induction "oq_pending q" arbitrary: q)
  case Nil
  then show ?case using drain_loop_empty [of q h] by simp
next
  case (Cons x rest)
  obtain t w where x: "x = (t, w)" by fastforce
  let ?q = "q\<lparr>oq_pending := rest, oq_log := oq_log q @ [(w, SO_Sent)],
       oq_delivered := oq_delivered q @ [By_Drain t w], oq_frames_sent := oq_frames_sent q + 1,
       oq_bytes_sent := oq_bytes_sent q + length w, oq_in_flight := False\<rparr>"
  have "drain_loop h (oq_epoch q) q = drain_loop h (oq_epoch ?q) ?q"
    using drain_loop_sent [OF Cons.prems(1) Cons.hyps(2) [symmetric, unfolded x], of h] assms(1) by simp
  also have "\<dots> = ?q\<lparr>oq_pending := [], oq_armed := False,
      oq_log := oq_log ?q @ map (\<lambda>(t, w). (w, SO_Sent)) (oq_pending ?q),
      oq_delivered := oq_delivered ?q @ map (\<lambda>(t, w). By_Drain t w) (oq_pending ?q),
      oq_frames_sent := oq_frames_sent ?q + length (oq_pending ?q),
      oq_bytes_sent := oq_bytes_sent ?q + sum_list (map (length \<circ> snd) (oq_pending ?q))\<rparr>"
    using Cons.prems by (intro Cons.hyps(1)) simp_all
  finally show ?case using Cons.hyps(2) [symmetric] Cons.prems(2) x by simp
qed

section \<open>Two drains\<close>

lemma put_drain_keeps:
  assumes "j < length (oq_drains q)" "j \<noteq> i" "x \<in> set (flight_of (oq_drains q ! j))"
  shows "x \<in> set (in_transit (put_drain i d q))"
proof -
  let ?ds = "oq_drains (put_drain i d q)"
  have "oq_drains q ! j \<in> set (take i (oq_drains q)) \<or> oq_drains q ! j \<in> set (drop (Suc i) (oq_drains q))"
  proof (cases "j < i")
    case True
    then have "take i (oq_drains q) ! j = oq_drains q ! j" "j < length (take i (oq_drains q))" using assms(1) by simp_all
    then show ?thesis by (metis nth_mem)
  next
    case False
    then have "drop (Suc i) (oq_drains q) ! (j - Suc i) = oq_drains q ! j" "j - Suc i < length (drop (Suc i) (oq_drains q))"
      using assms(1,2) by simp_all
    then show ?thesis by (metis nth_mem)
  qed
  moreover have "oq_drains q ! j \<in> set ((oq_drains q)[i := p])" for p
    using assms(1,2) by (metis length_list_update nth_list_update_neq nth_mem)
  ultimately have "oq_drains q ! j \<in> set ?ds" by (auto simp: put_drain_def split: option.split)
  then show ?thesis using assms(3) by (auto simp: in_transit_def)
qed

lemma span_accepted:
  assumes "barred w" "\<not> outbound_queue_busy q"
  shows "oq_delivered (snd (span_sender (\<lambda>_ _. SO_Sent) w q)) = oq_delivered q @ [By_Send (oq_clock q) w]"
    and "oq_drains (snd (span_sender (\<lambda>_ _. SO_Sent) w q)) = oq_drains q"
  using assms
  by (simp_all add: span_sender_def run_send_def pass_barrier_def send_transport_def call_transport_def record_sent_def)

text \<open>
  A parked frame and two drains: the first puts the frame back and rearms the timer, but is delayed
  before the guard lowers the flag; the timer fires, and the second drain takes the frame.
\<close>

definition full_transport :: Transport where
  "full_transport = (\<lambda>_ _. SO_SendqFull)"

definition ping_wire :: Wire where
  "ping_wire = serialize make_ping"

definition parked :: OutQueue where
  "parked = snd (queue_outbound_for_retry ping_wire (set_send_handler oq_new))"

definition drained :: OutQueue where
  "drained = (let q1 = drain_begin parked;
     q2 = put_drain 0 (fst (drain_take 0 q1)) (snd (drain_take 0 q1));
     q3 = put_drain 0 (Some (fst (drain_transport full_transport 0 (0, ping_wire) q2)))
            (snd (drain_transport full_transport 0 (0, ping_wire) q2))
   in put_drain 0 (Some (fst (drain_settle 0 (0, ping_wire) SO_SendqFull q3)))
        (snd (drain_settle 0 (0, ping_wire) SO_SendqFull q3)))"

definition overlapped :: OutQueue where
  "overlapped = (let q1 = drain_begin drained in put_drain 1 (fst (drain_take 0 q1)) (snd (drain_take 0 q1)))"

lemmas queue_defs =
  parked_def drained_def overlapped_def full_transport_def drain_begin_def drain_take_def
  drain_transport_def drain_settle_def drain_guard_def put_drain_def queue_outbound_for_retry_def
  call_transport_def park_def arm_pending_drain_timer_def outbound_queue_busy_def
  set_send_handler_def oq_new_def kMaxPendingOutbound_def Let_def

lemma parked_reachable: "q_reachable parked"
  unfolding parked_def by (intro qr_step [OF qr_step [OF qr_new qs_handler] qs_queue])

lemma drained_reachable: "q_reachable drained"
proof -
  let ?q1 = "drain_begin parked"
  let ?q2 = "put_drain 0 (fst (drain_take 0 ?q1)) (snd (drain_take 0 ?q1))"
  let ?q3 = "put_drain 0 (Some (fst (drain_transport full_transport 0 (0, ping_wire) ?q2)))
            (snd (drain_transport full_transport 0 (0, ping_wire) ?q2))"
  have r1: "q_reachable ?q1" by (rule qr_step [OF parked_reachable qs_fire])
  have "oq_drains ?q1 = [DR_Head 0]" by (simp add: queue_defs)
  then have r2: "q_reachable ?q2" by (intro qr_step [OF r1 qs_take [where e = 0]]) simp_all
  have "oq_drains ?q2 = [DR_Flight 0 (0, ping_wire)]" by (simp add: queue_defs)
  then have r3: "q_reachable ?q3"
    by (intro qr_step [OF r2 qs_transport [where e = 0 and w = "(0, ping_wire)" and h = full_transport]]) simp_all
  have "oq_drains ?q3 = [DR_Verdict 0 (0, ping_wire) SO_SendqFull]" by (simp add: queue_defs)
  then show ?thesis unfolding drained_def Let_def
    by (intro qr_step [OF r3 qs_settle [where e = 0 and w = "(0, ping_wire)" and v = SO_SendqFull]]) simp_all
qed

lemma overlapped_reachable: "q_reachable overlapped"
proof -
  have r1: "q_reachable (drain_begin drained)" by (rule qr_step [OF drained_reachable qs_fire])
  have "oq_drains (drain_begin drained) = [DR_Guard 0 False, DR_Head 0]" by (simp add: queue_defs)
  then show ?thesis unfolding overlapped_def Let_def
    by (intro qr_step [OF r1 qs_take [where e = 0]]) simp_all
qed

lemma overlapped_fields:
  "oq_drains overlapped = [DR_Guard 0 False, DR_Flight 0 (0, ping_wire)]" "oq_pending overlapped = []"
  by (simp_all add: queue_defs)

lemma open_barred: "barred (serialize (make_tunnel_open 7 host port))"
proof -
  have "\<exists>rest. serialize (make_tunnel_open 7 host port) = 1 # rest"
    by (simp add: serialize_def Let_def make_tunnel_open_def new_frame_def)
  then show ?thesis
    by (auto simp: barred_def frame_type_of_byte_def frame_must_respect_outbound_barrier_def)
qed

section \<open>Properties\<close>

text \<open>
  Claim C21: a frame that was parked before a send passed the barrier is not overtaken by that send.
  Every parked frame has a ticket from the moment it was parked, and every send that respects the barrier
  (all sends of the manager, OPEN, ACK and DATA of the tunnels) one from the moment it passed the barrier. In every
  interleaving of sends, drains and resets in which no two drains have run at the same time: among the
  frames the transport has accepted, followed by the frame a drain holds and the parked ones, whatever
  stands in front of a frame that was parked has an older ticket than it, and parked frames in particular are in
  the order in which they were parked; while a drain holds a frame or a frame is parked, the barrier is closed; and the
  queue holds at most one frame more than its cap. (A frame parked after the send has passed the barrier can be
  overtaken, as a comment of the code says.)
\<close>

theorem parked_frames_in_order:
  assumes "q_reachable q" and "\<not> oq_overlap q"
  shows "sorted_wrt in_turn (oq_delivered q @ waiting_frames q)
    \<and> (waiting_frames q \<noteq> [] \<longrightarrow> outbound_queue_busy q)
    \<and> length (oq_pending q) \<le> kMaxPendingOutbound + 1"
proof -
  have ok: "queue_ok q" using queue_inv_reachable [OF assms(1)] assms(2) by (simp add: queue_inv_def)
  have "length (oq_pending q) \<le> length (waiting_frames q)" by (simp add: waiting_frames_def)
  then show ?thesis using not_busy_order [OF ok] queue_okD(3,6) [OF ok] by auto
qed

theorem parked_frames_in_order_witness:
  "sorted_wrt in_turn (oq_delivered parked @ waiting_frames parked)
   \<and> oq_pending parked = [(0, ping_wire)] \<and> outbound_queue_busy parked"
proof -
  have "\<not> oq_overlap parked" and p: "oq_pending parked = [(0, ping_wire)]" by (simp_all add: queue_defs)
  moreover have "waiting_frames parked \<noteq> []" using p by (simp add: waiting_frames_def)
  ultimately show ?thesis using parked_frames_in_order [OF parked_reachable] by simp
qed

text \<open>
  Claim C23: two drains that overlap open the barrier. Whenever one drain is about to lower the flag
  while another one holds the only frame, lowering it leaves the frame on its way and the queue not
  busy, and whatever OPEN, ACK or DATA is sent next reaches the transport before the frame.
\<close>

theorem overlapping_drains_open_barrier:
  assumes "i < length (oq_drains q)" "oq_drains q ! i = DR_Guard e b"
    "j < length (oq_drains q)" "j \<noteq> i" "oq_drains q ! j = DR_Flight e1 x" "oq_pending q = []"
    "barred wire" "drain_guard e b q = (d, q1)"
  shows "\<not> outbound_queue_busy (put_drain i d q1) \<and> x \<in> set (in_transit (put_drain i d q1))
    \<and> oq_delivered (snd (span_sender (\<lambda>_ _. SO_Sent) wire (put_drain i d q1))) = oq_delivered q @ [By_Send (oq_clock q) wire]
    \<and> x \<in> set (in_transit (snd (span_sender (\<lambda>_ _. SO_Sent) wire (put_drain i d q1))))"
proof -
  let ?q = "put_drain i d q1"
  have free: "\<not> outbound_queue_busy ?q"
    using assms(6,8) by (auto simp: drain_guard_def put_drain_def outbound_queue_busy_def)
  have eqs: "oq_drains q1 = oq_drains q" "oq_clock ?q = oq_clock q" "oq_delivered ?q = oq_delivered q"
    using assms(8) by (auto simp: drain_guard_def put_drain_def)
  have "x \<in> set (in_transit ?q)"
    using put_drain_keeps [of j q1 i x d] assms(3-5) eqs(1) by simp
  moreover have "in_transit (snd (span_sender (\<lambda>_ _. SO_Sent) wire ?q)) = in_transit ?q"
    using span_accepted(2) [OF assms(7) free] by (simp add: in_transit_def)
  ultimately show ?thesis using free span_accepted(1) [OF assms(7) free] eqs by simp
qed

theorem overlapping_drains_open_barrier_witness:
  "q_reachable overlapped
   \<and> \<not> outbound_queue_busy (put_drain 0 None (overlapped\<lparr>oq_in_flight := False\<rparr>))
   \<and> (0, ping_wire) \<in> set (in_transit (put_drain 0 None (overlapped\<lparr>oq_in_flight := False\<rparr>)))"
  using overlapping_drains_open_barrier
    [of 0 overlapped 0 False 1 0 "(0, ping_wire)" _ None "overlapped\<lparr>oq_in_flight := False\<rparr>", OF _ _ _ _ _ _ open_barred]
    overlapped_fields overlapped_reachable
  by (simp add: drain_guard_def)

text \<open>
  Claim C22: a drain delivers. With a transport that accepts what it is given, a drain of an unmuted
  queue in its own epoch hands every parked frame to it, in order, leaves the queue empty, the barrier
  open and the flag of the timer lowered, so that the next parked frame arms a drain again, and counts the frames.
\<close>

theorem drain_delivers_in_order:
  assumes "\<And>l w. h l w = SO_Sent" and "\<not> oq_muted q" and "\<not> oq_in_flight q"
  shows "oq_log (drain_loop h (oq_epoch q) q) = oq_log q @ map (\<lambda>(t, w). (w, SO_Sent)) (oq_pending q)
    \<and> \<not> outbound_queue_busy (drain_loop h (oq_epoch q) q) \<and> \<not> oq_armed (drain_loop h (oq_epoch q) q)
    \<and> oq_timer (snd (park w (drain_loop h (oq_epoch q) q))) = Some (oq_epoch q)
    \<and> oq_frames_sent (drain_loop h (oq_epoch q) q) = oq_frames_sent q + length (oq_pending q)"
  using assms(2,3)
  by (simp add: drain_loop_accepting [OF assms] outbound_queue_busy_def park_def kMaxPendingOutbound_def
      arm_pending_drain_timer_def)

theorem drain_delivers_in_order_witness:
  "oq_log (drain_loop (\<lambda>_ _. SO_Sent) 0 parked) = [(ping_wire, SO_Sent)]
   \<and> \<not> oq_armed (drain_loop (\<lambda>_ _. SO_Sent) 0 parked)"
proof -
  have f: "\<not> oq_muted parked" "\<not> oq_in_flight parked" "oq_epoch parked = 0"
      "oq_log parked = []" "oq_pending parked = [(0, ping_wire)]"
    by (simp_all add: queue_defs)
  from drain_delivers_in_order [OF refl f(1,2)] f(3-5) show ?thesis by simp
qed

end
