(* ===== verification/Tunnel_Manager.thy ===== *)
theory Tunnel_Manager
  imports Manager_Outbound Tunnel_Safety Tunnel_Id_Allocator
begin

text \<open>
  The tunnel manager (\<open>src/tunnel/tunnel_manager.cpp\<close>): the registry of the tunnels to one peer, the
  identifiers they hold, the routing of inbound frames, teardown, the idle reaper and the keepalive.
  Tunnel objects live in a heap and are named by their address, so that a tunnel that was removed from
  the registry but still has to deliver its CLOSE stays alive, as it does behind the \<open>shared_ptr\<close> of its
  retry timer; the callback with which it gives its identifier back is the hook stored beside it.
  The manager is shared-owned and all its tunnels are \<open>TunnelImpl\<close> objects, as in the program. The
  callbacks that re-enter the manager from the application (\<open>on_close_\<close>, \<open>on_peer_dead_\<close>) are events of
  the log.
\<close>

section \<open>State\<close>

datatype ManagerEvent = ME_Created u16 | ME_Closed u16 | ME_PeerDead | ME_PeerAlive

datatype TeardownMode = TM_Graceful | TM_Abandon

record ManagedTunnel =
  mo_tunnel :: Tunnel
  mo_hook :: "u16 option"        \<comment> \<open>the identifier the \<open>on_id_releasable_\<close> callback releases\<close>

text \<open>The generation of a maintenance timer (\<open>reaper_epoch_\<close>, \<open>keepalive_epoch_\<close>) and its pending wait.\<close>

record Chain =
  ch_epoch :: nat
  ch_active :: bool
  ch_timer :: "nat option"

record Manager =
  mg_tunnels :: "(u16 \<times> nat) list"   \<comment> \<open>\<open>std::map\<close>: ordered by identifier\<close>
  mg_heap :: "ManagedTunnel list"
  mg_used :: "u16 \<Rightarrow> bool"
  mg_next :: u16
  mg_max :: nat
  mg_threshold :: nat
  mg_queue :: OutQueue
  mg_frames_received :: nat
  mg_bytes_received :: nat
  mg_reaper :: Chain
  mg_idle_ns :: int
  mg_half_close_ns :: int
  mg_reaper_tick_ns :: int
  mg_keepalive :: Chain
  mg_interval_ns :: int
  mg_timeout_ns :: int
  mg_last_pong_ns :: int
  mg_peer_dead :: bool
  mg_events :: "ManagerEvent list"

definition chain_new :: Chain where
  "chain_new = \<lparr>ch_epoch = 0, ch_active = False, ch_timer = None\<rparr>"

definition mgr_new :: Manager where
  "mgr_new = \<lparr>mg_tunnels = [], mg_heap = [], mg_used = (\<lambda>_. False)(0 := True), mg_next = 1,
     mg_max = 100, mg_threshold = 64 * 1024, mg_queue = oq_new, mg_frames_received = 0,
     mg_bytes_received = 0, mg_reaper = chain_new, mg_idle_ns = 0, mg_half_close_ns = 0,
     mg_reaper_tick_ns = 0, mg_keepalive = chain_new, mg_interval_ns = 0, mg_timeout_ns = 0,
     mg_last_pong_ns = 0, mg_peer_dead = False, mg_events = []\<rparr>"

definition post_event :: "ManagerEvent \<Rightarrow> Manager \<Rightarrow> Manager" where
  "post_event ev m = m\<lparr>mg_events := mg_events m @ [ev]\<rparr>"

definition set_max_tunnels :: "nat \<Rightarrow> Manager \<Rightarrow> Manager" where
  "set_max_tunnels n m = m\<lparr>mg_max := n\<rparr>"

definition set_backpressure_threshold :: "nat \<Rightarrow> Manager \<Rightarrow> Manager" where
  "set_backpressure_threshold n m = m\<lparr>mg_threshold := n\<rparr>"

section \<open>Identifiers\<close>

text \<open>The do-while loop of \<open>find_available_id\<close>, by the number of identifiers left to visit.\<close>

fun find_id_loop :: "nat \<Rightarrow> u16 \<Rightarrow> Manager \<Rightarrow> u16 option \<times> Manager" where
  "find_id_loop 0 start m = (None, m)"
| "find_id_loop (Suc n) start m =
     (let i = mg_next m; m1 = m\<lparr>mg_next := cursor_next i\<rparr> in
      if \<not> mg_used m i then (Some i, m1\<lparr>mg_used := (mg_used m)(i := True)\<rparr>)
      else if mg_next m1 = start then (None, m1)
      else find_id_loop n start m1)"

definition find_available_id :: "Manager \<Rightarrow> u16 option \<times> Manager" where
  "find_available_id m = find_id_loop 65535 (mg_next m) m"

definition allocate_tunnel_id :: "Manager \<Rightarrow> u16 option \<times> Manager" where
  "allocate_tunnel_id m = find_available_id m"

definition release_tunnel_id :: "u16 \<Rightarrow> Manager \<Rightarrow> Manager" where
  "release_tunnel_id i m = (if i > 0 then m\<lparr>mg_used := (mg_used m)(i := False)\<rparr> else m)"

definition set_next_tunnel_id :: "u16 \<Rightarrow> Manager \<Rightarrow> Manager" where
  "set_next_tunnel_id i m = m\<lparr>mg_next := (if i = 0 then 1 else i)\<rparr>"

section \<open>The registry\<close>

definition find_tunnel :: "u16 \<Rightarrow> Manager \<Rightarrow> nat option" where
  "find_tunnel i m = map_of (mg_tunnels m) i"

definition has_tunnel :: "u16 \<Rightarrow> Manager \<Rightarrow> bool" where
  "has_tunnel i m \<longleftrightarrow> find_tunnel i m \<noteq> None"

definition tunnel_count :: "Manager \<Rightarrow> nat" where
  "tunnel_count m = length (mg_tunnels m)"

definition get_tunnel_ids :: "Manager \<Rightarrow> u16 list" where
  "get_tunnel_ids m = map fst (mg_tunnels m)"

definition insert_tunnel :: "u16 \<Rightarrow> nat \<Rightarrow> Manager \<Rightarrow> Manager" where
  "insert_tunnel i a m = m\<lparr>mg_tunnels := insort_key fst (i, a) (mg_tunnels m)\<rparr>"

definition erase_tunnel :: "u16 \<Rightarrow> Manager \<Rightarrow> Manager" where
  "erase_tunnel i m = m\<lparr>mg_tunnels := filter (\<lambda>e. fst e \<noteq> i) (mg_tunnels m)\<rparr>"

definition tunnel_at :: "nat \<Rightarrow> Manager \<Rightarrow> Tunnel" where
  "tunnel_at a m = mo_tunnel (mg_heap m ! a)"

text \<open>
  Storing the new state of a tunnel. When its \<open>on_id_releasable_\<close> callback has run, the hook gives the
  identifier back.
\<close>

definition put_tunnel :: "nat \<Rightarrow> Tunnel \<Rightarrow> Manager \<Rightarrow> Manager" where
  "put_tunnel a t m =
     (let ob = mg_heap m ! a;
          fired = (tn_id_notified t \<and> \<not> tn_id_notified (mo_tunnel ob))
      in case (if fired then mo_hook ob else None) of
           Some i \<Rightarrow> release_tunnel_id i (m\<lparr>mg_heap := (mg_heap m)[a := \<lparr>mo_tunnel = t, mo_hook = None\<rparr>]\<rparr>)
         | None \<Rightarrow> m\<lparr>mg_heap := (mg_heap m)[a := ob\<lparr>mo_tunnel := t\<rparr>]\<rparr>)"

definition on_tunnel :: "nat \<Rightarrow> (Tunnel \<Rightarrow> Tunnel option) \<Rightarrow> Manager \<Rightarrow> Manager option" where
  "on_tunnel a f m = map_option (\<lambda>t. put_tunnel a t m) (f (tunnel_at a m))"

definition install_hook :: "u16 \<Rightarrow> nat \<Rightarrow> Manager \<Rightarrow> Manager" where
  "install_hook i a m =
     put_tunnel a (set_on_id_releasable (tunnel_at a m))
       (m\<lparr>mg_heap := (mg_heap m)[a := (mg_heap m ! a)\<lparr>mo_hook := Some i\<rparr>]\<rparr>)"

text \<open>A new tunnel object; the result is its address.\<close>

definition new_object :: "Tunnel \<Rightarrow> Manager \<Rightarrow> nat \<times> Manager" where
  "new_object t m =
     (length (mg_heap m), m\<lparr>mg_heap := mg_heap m @ [\<lparr>mo_tunnel = t, mo_hook = None\<rparr>]\<rparr>)"

definition add_tunnel ::
  "nat \<Rightarrow> TunnelEnv \<Rightarrow> int \<Rightarrow> u16 \<Rightarrow> nat option \<Rightarrow> Manager \<Rightarrow> (bool \<times> Manager) option" where
  "add_tunnel fuel env now i tunnel m =
     (case tunnel of
        None \<Rightarrow> Some (False, m)
      | Some a \<Rightarrow>
          if tunnel_count m \<ge> mg_max m \<and> find_tunnel i m = None then Some (False, m)
          else case find_tunnel i m of
            Some old \<Rightarrow>
              do {
                m1 \<leftarrow> on_tunnel old (force_close fuel env RR_Abort) (erase_tunnel i m);
                Some (True, post_event (ME_Created i) (insert_tunnel i a m1))
              }
          | None \<Rightarrow>
              let m1 = insert_tunnel i a (m\<lparr>mg_used := (mg_used m)(i := True)\<rparr>);
                  m2 = (if mg_tunnels m = [] then m1\<lparr>mg_last_pong_ns := now\<rparr> else m1)
              in Some (True, post_event (ME_Created i) m2))"

definition teardown :: "nat \<Rightarrow> TunnelEnv \<Rightarrow> ResourceRelease \<Rightarrow> Tunnel \<Rightarrow> Tunnel option" where
  "teardown fuel env mode t =
     (if abort_teardown_required t then force_close fuel env mode t else close_tunnel fuel env t)"

text \<open>\<open>expected\<close> is \<open>None\<close> for \<open>match_any\<close>.\<close>

definition remove_tunnel_impl ::
  "nat \<Rightarrow> TunnelEnv \<Rightarrow> u16 \<Rightarrow> nat option \<Rightarrow> Manager \<Rightarrow> (bool \<times> Manager) option" where
  "remove_tunnel_impl fuel env i expected m =
     (case find_tunnel i m of
        None \<Rightarrow> Some (False, m)
      | Some a \<Rightarrow>
          if expected \<noteq> None \<and> expected \<noteq> Some a then Some (False, m)
          else do {
            m1 \<leftarrow> on_tunnel a (teardown fuel env RR_DrainIfClosed) (install_hook i a (erase_tunnel i m));
            Some (True, post_event (ME_Closed i) m1)
          })"

definition remove_tunnel :: "nat \<Rightarrow> TunnelEnv \<Rightarrow> u16 \<Rightarrow> Manager \<Rightarrow> Manager option" where
  "remove_tunnel fuel env i m = map_option snd (remove_tunnel_impl fuel env i None m)"

text \<open>\<open>expected\<close> is a pointer, \<open>None\<close> when it is null.\<close>

definition remove_tunnel_if ::
  "nat \<Rightarrow> TunnelEnv \<Rightarrow> u16 \<Rightarrow> nat option \<Rightarrow> Manager \<Rightarrow> (bool \<times> Manager) option" where
  "remove_tunnel_if fuel env i expected m =
     (if expected = None then Some (False, m) else remove_tunnel_impl fuel env i expected m)"

definition close_tunnel_if ::
  "nat \<Rightarrow> TunnelEnv \<Rightarrow> u16 \<Rightarrow> nat option \<Rightarrow> Manager \<Rightarrow> (bool \<times> Manager) option" where
  "close_tunnel_if fuel env i expected m =
     (case expected of
        None \<Rightarrow> Some (False, m)
      | Some a \<Rightarrow>
          if find_tunnel i m \<noteq> Some a then Some (False, m)
          else map_option (Pair True) (on_tunnel a (close_tunnel fuel env) m))"

definition mgr_send :: "Transport \<Rightarrow> ProtocolFrame \<Rightarrow> Manager \<Rightarrow> Manager" where
  "mgr_send h frame m = m\<lparr>mg_queue := snd (mgr_send_frame h frame (mg_queue m))\<rparr>"

text \<open>Identifier 0 reports the failure.\<close>

definition create_tunnel :: "Transport \<Rightarrow> string \<Rightarrow> u16 \<Rightarrow> Manager \<Rightarrow> u16 \<times> Manager" where
  "create_tunnel h host port m =
     (if oq_muted (mg_queue m) then (0, m)
      else case allocate_tunnel_id m of
        (None, m1) \<Rightarrow> (0, m1)
      | (Some i, m1) \<Rightarrow>
          let frame = make_tunnel_open i host port; q = mg_queue m1 in
          if oq_gate_closed q \<or> \<not> oq_handler q then (0, release_tunnel_id i m1)
          else case run_send h (SK_Direct (serialized_size frame)) (serialize frame) q of
            (v, q1) \<Rightarrow>
              if v \<noteq> SO_Sent then (0, release_tunnel_id i (m1\<lparr>mg_queue := q1\<rparr>))
              else (i, m1\<lparr>mg_queue := q1\<rparr>))"

definition total_buffer_level :: "Manager \<Rightarrow> nat" where
  "total_buffer_level m =
     sum_list (map (\<lambda>(i, a). fl_window_used (tn_flow (tunnel_at a m))) (mg_tunnels m))"

definition has_backpressure :: "Manager \<Rightarrow> bool" where
  "has_backpressure m \<longleftrightarrow> total_buffer_level m \<ge> mg_threshold m"

section \<open>Keepalive\<close>

definition chain_start :: "Chain \<Rightarrow> Chain" where
  "chain_start c = c\<lparr>ch_epoch := ch_epoch c + 1, ch_active := True, ch_timer := Some (ch_epoch c + 1)\<rparr>"

definition chain_stop :: "Chain \<Rightarrow> Chain" where
  "chain_stop c = (let c1 = c\<lparr>ch_epoch := ch_epoch c + 1\<rparr> in
     if ch_active c then c1\<lparr>ch_active := False, ch_timer := None\<rparr> else c1)"

text \<open>The locked step at the end of a tick: arm the next one unless the generation has turned over.\<close>

definition chain_rearm :: "nat \<Rightarrow> Chain \<Rightarrow> Chain" where
  "chain_rearm epoch c =
     (if ch_epoch c \<noteq> epoch then c else c\<lparr>ch_active := True, ch_timer := Some epoch\<rparr>)"

definition note_peer_activity :: "int \<Rightarrow> Manager \<Rightarrow> Manager" where
  "note_peer_activity now m =
     (let m1 = m\<lparr>mg_last_pong_ns := now\<rparr> in
      if mg_peer_dead m then post_event ME_PeerAlive (m1\<lparr>mg_peer_dead := False\<rparr>) else m1)"

definition enable_keepalive :: "u32 \<Rightarrow> u32 \<Rightarrow> int \<Rightarrow> Manager \<Rightarrow> Manager" where
  "enable_keepalive interval_s timeout_s now m =
     (if interval_s = 0 then m
      else let timeout = (if timeout_s = 0 then interval_s * 3 else timeout_s)
           in m\<lparr>mg_interval_ns := uint interval_s * 1000000000, mg_timeout_ns := uint timeout * 1000000000,
                mg_last_pong_ns := now, mg_peer_dead := False, mg_keepalive := chain_start (mg_keepalive m)\<rparr>)"

definition disable_keepalive :: "Manager \<Rightarrow> Manager" where
  "disable_keepalive m = m\<lparr>mg_keepalive := chain_stop (mg_keepalive m)\<rparr>"

text \<open>The liveness check of a tick, and the whole handler.\<close>

definition keepalive_check :: "int \<Rightarrow> Manager \<Rightarrow> Manager" where
  "keepalive_check now m =
     (let m1 = (if tunnel_count m = 0 then m\<lparr>mg_last_pong_ns := now\<rparr> else m);
          last = mg_last_pong_ns m1
      in if last > 0 \<and> now - last > mg_timeout_ns m1 \<and> \<not> mg_peer_dead m1
         then post_event ME_PeerDead (m1\<lparr>mg_peer_dead := True\<rparr>) else m1)"

definition keepalive_tick :: "Transport \<Rightarrow> nat \<Rightarrow> int \<Rightarrow> Manager \<Rightarrow> Manager" where
  "keepalive_tick h epoch now m =
     (if ch_epoch (mg_keepalive m) \<noteq> epoch \<or> \<not> ch_active (mg_keepalive m) then m
      else let m1 = keepalive_check now m in
        if ch_epoch (mg_keepalive m1) \<noteq> epoch then m1
        else let m2 = mgr_send h make_ping m1
             in m2\<lparr>mg_keepalive := chain_rearm epoch (mg_keepalive m2)\<rparr>)"

section \<open>The reaper\<close>

definition enable_reaper :: "u32 \<Rightarrow> u32 \<Rightarrow> Manager \<Rightarrow> Manager" where
  "enable_reaper idle_s tick_s m =
     (if idle_s = 0 \<or> tick_s = 0 then m
      else m\<lparr>mg_idle_ns := uint idle_s * 1000000000, mg_reaper_tick_ns := uint tick_s * 1000000000,
             mg_reaper := chain_start (mg_reaper m)\<rparr>)"

definition enable_half_close_reaper :: "u32 \<Rightarrow> u32 \<Rightarrow> Manager \<Rightarrow> Manager" where
  "enable_half_close_reaper half_s tick_s m =
     (if half_s = 0 \<or> tick_s = 0 then m
      else m\<lparr>mg_half_close_ns := uint half_s * 1000000000, mg_reaper_tick_ns := uint tick_s * 1000000000,
             mg_reaper := chain_start (mg_reaper m)\<rparr>)"

definition disable_reaper :: "Manager \<Rightarrow> Manager" where
  "disable_reaper m = m\<lparr>mg_idle_ns := 0, mg_half_close_ns := 0, mg_reaper := chain_stop (mg_reaper m)\<rparr>"

definition maintenance_on :: "Manager \<Rightarrow> bool" where
  "maintenance_on m \<longleftrightarrow> mg_idle_ns m > 0 \<or> mg_half_close_ns m > 0"

definition rearm_reaper_after_tick :: "nat \<Rightarrow> Manager \<Rightarrow> Manager" where
  "rearm_reaper_after_tick epoch m =
     (if ch_epoch (mg_reaper m) \<noteq> epoch then m
      else if \<not> maintenance_on m then m\<lparr>mg_reaper := (mg_reaper m)\<lparr>ch_active := False\<rparr>\<rparr>
      else m\<lparr>mg_reaper := chain_rearm epoch (mg_reaper m)\<rparr>)"

definition reapable :: "int \<Rightarrow> Manager \<Rightarrow> Tunnel \<Rightarrow> bool" where
  "reapable now m t \<longleftrightarrow>
     (let idle = now - tn_last_activity_ns t in
      tn_state t \<noteq> TS_Connecting
      \<and> (mg_idle_ns m > 0 \<and> idle \<ge> mg_idle_ns m
         \<or> mg_half_close_ns m > 0 \<and> tn_state t = TS_Disconnecting \<and> idle \<ge> mg_half_close_ns m))"

definition kAnyReaperEpoch :: nat where "kAnyReaperEpoch = 0"

primrec reap_loop :: "u16 list \<Rightarrow> nat \<Rightarrow> TunnelEnv \<Rightarrow> nat \<Rightarrow> Manager \<Rightarrow> (nat \<times> Manager) option" where
  "reap_loop [] fuel env epoch m = Some (0, m)"
| "reap_loop (i # is) fuel env epoch m =
     (case find_tunnel i m of
        None \<Rightarrow> reap_loop is fuel env epoch m
      | Some a \<Rightarrow>
          if epoch \<noteq> kAnyReaperEpoch \<and> ch_epoch (mg_reaper m) \<noteq> epoch then Some (0, m)
          else do {
            m1 \<leftarrow> on_tunnel a (close_for_timeout fuel env) m;
            (_, m2) \<leftarrow> remove_tunnel_if fuel env i (Some a) m1;
            (n, m3) \<leftarrow> reap_loop is fuel env epoch m2;
            Some (n + 1, m3)
          })"

definition reap_idle_tunnels_once ::
  "nat \<Rightarrow> TunnelEnv \<Rightarrow> int \<Rightarrow> nat \<Rightarrow> Manager \<Rightarrow> (nat \<times> Manager) option" where
  "reap_idle_tunnels_once fuel env now epoch m =
     (if mg_idle_ns m \<le> 0 \<and> mg_half_close_ns m \<le> 0 then Some (0, m)
      else reap_loop (map fst (filter (\<lambda>(i, a). reapable now m (tunnel_at a m)) (mg_tunnels m)))
             fuel env epoch m)"

definition reaper_tick :: "nat \<Rightarrow> TunnelEnv \<Rightarrow> int \<Rightarrow> nat \<Rightarrow> Manager \<Rightarrow> Manager option" where
  "reaper_tick fuel env now epoch m =
     (if ch_epoch (mg_reaper m) \<noteq> epoch then Some m
      else if \<not> maintenance_on m then Some (m\<lparr>mg_reaper := (mg_reaper m)\<lparr>ch_active := False\<rparr>\<rparr>)
      else map_option (\<lambda>r. rearm_reaper_after_tick epoch (snd r))
             (reap_idle_tunnels_once fuel env now epoch m))"

section \<open>Routing\<close>

definition route_frame ::
  "nat \<Rightarrow> TunnelEnv \<Rightarrow> Transport \<Rightarrow> int \<Rightarrow> ProtocolFrame \<Rightarrow> Manager \<Rightarrow> Manager option" where
  "route_frame fuel env h now frame m0 =
     (let m1 = note_peer_activity now m0;
          m = m1\<lparr>mg_frames_received := mg_frames_received m1 + 1,
                 mg_bytes_received := mg_bytes_received m1 + serialized_size frame\<rparr>;
          tid = fr_tunnel_id frame
      in if tid = 0 then
           Some (if fr_type frame = PING then mgr_send h (make_pong_for frame) m
                 else if fr_type frame = PONG then note_peer_activity now m
                 else m)
         else case find_tunnel tid m of
           Some a \<Rightarrow> on_tunnel a (handle_frame fuel env frame) m
         | None \<Rightarrow>
             Some (if fr_type frame = TUNNEL_DATA
                   then mgr_send h (make_tunnel_error tid 2 ''Tunnel not found'') m else m))"

definition handle_incoming_open :: "Transport \<Rightarrow> ProtocolFrame \<Rightarrow> Manager \<Rightarrow> bool \<times> Manager" where
  "handle_incoming_open h frame m =
     (let i = fr_tunnel_id frame in
      if as_tunnel_open frame = None then (False, m)
      else if i = 0 then (False, m)
      else if tunnel_count m \<ge> mg_max m
      then (False, mgr_send h (make_tunnel_error i 1 ''Tunnel limit exceeded'') m)
      else if has_tunnel i m \<or> mg_used m i
      then (False, mgr_send h (make_tunnel_error i 2 ''Tunnel ID in use'') m)
      else (True, post_event (ME_Created i) (m\<lparr>mg_used := (mg_used m)(i := True)\<rparr>)))"

section \<open>Closing everything\<close>

definition abandon_reason :: string where
  "abandon_reason = ''session abandoned (peer failed over or judged unresponsive)''"

definition established :: "Tunnel \<Rightarrow> bool" where
  "established t \<longleftrightarrow> tn_state t = TS_Connected \<or> tn_state t = TS_Disconnecting"

definition close_one :: "nat \<Rightarrow> TunnelEnv \<Rightarrow> TeardownMode \<Rightarrow> Tunnel \<Rightarrow> Tunnel option" where
  "close_one fuel env mode t =
     (if mode = TM_Abandon \<and> established t then send_error fuel env 4 abandon_reason t
      else if abort_teardown_required t then force_close fuel env RR_Abort t
      else do {
        t1 \<leftarrow> close_tunnel fuel env t;
        if mode = TM_Abandon \<and> established t1 then send_error fuel env 4 abandon_reason t1 else Some t1
      })"

primrec close_all_loop :: "(u16 \<times> nat) list \<Rightarrow> nat \<Rightarrow> TunnelEnv \<Rightarrow> TeardownMode \<Rightarrow> Manager \<Rightarrow> Manager option" where
  "close_all_loop [] fuel env mode m = Some m"
| "close_all_loop (e # es) fuel env mode m =
     do {
       m1 \<leftarrow> on_tunnel (snd e) (close_one fuel env mode) (install_hook (fst e) (snd e) m);
       close_all_loop es fuel env mode (post_event (ME_Closed (fst e)) m1)
     }"

definition close_all :: "nat \<Rightarrow> TunnelEnv \<Rightarrow> TeardownMode \<Rightarrow> Manager \<Rightarrow> Manager option" where
  "close_all fuel env mode m =
     close_all_loop (mg_tunnels m) fuel env mode (m\<lparr>mg_tunnels := []\<rparr>)"

text \<open>The section of \<open>close_all_local\<close> under the registry lock: every gate is closed, every identifier freed.\<close>

definition abandon_registry :: "Manager \<Rightarrow> Manager" where
  "abandon_registry m =
     m\<lparr>mg_tunnels := [], mg_used := (\<lambda>i. mg_used m i \<and> i \<notin> fst ` set (mg_tunnels m)),
       mg_heap := map (\<lambda>(a, ob). if a \<in> snd ` set (mg_tunnels m)
                                 then ob\<lparr>mo_tunnel := close_outbound_gate (mo_tunnel ob)\<rparr> else ob)
                    (enumerate 0 (mg_heap m))\<rparr>"

primrec force_close_loop :: "(u16 \<times> nat) list \<Rightarrow> nat \<Rightarrow> TunnelEnv \<Rightarrow> Manager \<Rightarrow> Manager option" where
  "force_close_loop [] fuel env m = Some m"
| "force_close_loop (e # es) fuel env m =
     do {
       m1 \<leftarrow> on_tunnel (snd e) (force_close fuel env RR_Abort) m;
       force_close_loop es fuel env (post_event (ME_Closed (fst e)) m1)
     }"

definition close_all_local :: "nat \<Rightarrow> TunnelEnv \<Rightarrow> Manager \<Rightarrow> Manager option" where
  "close_all_local fuel env m0 =
     (let m1 = disable_reaper (disable_keepalive m0);
          m2 = m1\<lparr>mg_queue := close_send_gate (mute_outbound (mg_queue m1))\<rparr>
      in force_close_loop (mg_tunnels m2) fuel env (abandon_registry m2))"

end
