(* ===== verification/Manager_Leases.thy ===== *)
theory Manager_Leases
  imports Tunnel_Manager "HOL-Library.Multiset"
begin

text \<open>
  Who holds an identifier. The critical sections of the tunnel manager as a step relation over the
  manager, the identifiers reserved for the application and the tunnels being torn down, so that the
  threads that allocate, register, remove and abandon tunnels interleave freely. The invariant counts the
  holders of every identifier: at most one, and exactly the used identifiers are held.
\<close>

section \<open>Identifiers\<close>

lemma find_id_loop_spec:
  assumes "mg_next m \<noteq> 0" and "find_id_loop n start m = (r, m1)"
  shows "case r of
      Some i \<Rightarrow> \<not> mg_used m i \<and> m1 = m\<lparr>mg_next := mg_next m1, mg_used := (mg_used m)(i := True)\<rparr> \<and> mg_next m1 \<noteq> 0
    | None \<Rightarrow> m1 = m\<lparr>mg_next := mg_next m1\<rparr> \<and> mg_next m1 \<noteq> 0 \<and>
        (\<exists>j \<le> n. (j = n \<or> 0 < j \<and> (cursor_next ^^ j) (mg_next m) = start)
           \<and> (\<forall>k < j. mg_used m ((cursor_next ^^ k) (mg_next m))))"
  using assms
proof (induction n arbitrary: m)
  case 0
  then show ?case by auto
next
  case (Suc n)
  let ?m1 = "m\<lparr>mg_next := cursor_next (mg_next m)\<rparr>"
  have c: "cursor_next (mg_next m) \<noteq> 0" using unat_cursor_next [OF Suc.prems(1)] by blast
  show ?case
  proof (cases "mg_used m (mg_next m)")
    case False
    then show ?thesis using Suc.prems(2) c by (auto simp: Let_def)
  next
    case used: True
    show ?thesis
    proof (cases "cursor_next (mg_next m) = start")
      case True
      then have "r = None" "m1 = ?m1" using Suc.prems(2) used by (auto simp: Let_def)
      moreover have "1 \<le> Suc n \<and> (1 = Suc n \<or> 0 < (1::nat) \<and> (cursor_next ^^ 1) (mg_next m) = start)
          \<and> (\<forall>k < 1. mg_used m ((cursor_next ^^ k) (mg_next m)))" using True used by simp
      ultimately show ?thesis using c by auto
    next
      case False
      then have e: "find_id_loop n start ?m1 = (r, m1)"
        using Suc.prems(2) used by (simp add: Let_def)
      note ih = Suc.IH [of ?m1, OF _ e]
      show ?thesis
      proof (cases r)
        case None
        with ih c obtain j where j: "j \<le> n" "j = n \<or> 0 < j \<and> (cursor_next ^^ j) (cursor_next (mg_next m)) = start"
            "\<forall>k < j. mg_used m ((cursor_next ^^ k) (cursor_next (mg_next m)))"
          and m1: "m1 = ?m1\<lparr>mg_next := mg_next m1\<rparr>" "mg_next m1 \<noteq> 0" by auto
        have "\<forall>k < Suc j. mg_used m ((cursor_next ^^ k) (mg_next m))"
          using j(3) used by (auto simp: less_Suc_eq_0_disj funpow_swap1)
        then show ?thesis
          using None m1 j by (auto simp: funpow_swap1 intro!: exI [of _ "Suc j"])
      next
        case (Some i)
        with ih c show ?thesis by auto
      qed
    qed
  qed
qed

lemma cursor_period:
  assumes "c \<noteq> 0" and "0 < j" "(cursor_next ^^ j) c = c"
  shows "65535 \<le> j"
proof (rule ccontr)
  define a where "a = unat c - 1"
  assume "\<not> 65535 \<le> j"
  then have lt: "j < 65535" by simp
  have "0 < unat c" "unat c \<le> 65535" using assms(1) unat_u16_le by (auto simp: unat_gt_0)
  then have a: "a < 65535" "unat c = a + 1" by (auto simp: a_def)
  have "unat ((cursor_next ^^ j) c) = (a + j) mod 65535 + 1"
    using unat_cursor_iterate [OF assms(1), of j] by (simp only: a_def)
  then have e: "(a + j) mod 65535 = a" using assms(3) a(2) by simp
  show False
  proof (cases "a + j < 65535")
    case True
    with e assms(2) show False by simp
  next
    case False
    then have "(a + j) mod 65535 = a + j - 65535" using lt a(1) by (simp add: mod_if)
    with e lt False show False by simp
  qed
qed

lemma find_available_id_spec:
  assumes "mg_next m \<noteq> 0" and "find_available_id m = (r, m1)"
  shows "case r of
      Some i \<Rightarrow> \<not> mg_used m i \<and> m1 = m\<lparr>mg_next := mg_next m1, mg_used := (mg_used m)(i := True)\<rparr> \<and> mg_next m1 \<noteq> 0
    | None \<Rightarrow> m1 = m\<lparr>mg_next := mg_next m1\<rparr> \<and> mg_next m1 \<noteq> 0 \<and> (\<forall>i. i \<noteq> 0 \<longrightarrow> mg_used m i)"
proof -
  let ?c = "mg_next m"
  note spec = find_id_loop_spec [OF assms(1) assms(2) [unfolded find_available_id_def]]
  show ?thesis
  proof (cases r)
    case None
    with spec obtain j where
      j: "j = 65535 \<or> 0 < j \<and> (cursor_next ^^ j) ?c = ?c" "j \<le> 65535"
         "\<forall>k < j. mg_used m ((cursor_next ^^ k) ?c)"
      and m1: "m1 = m\<lparr>mg_next := mg_next m1\<rparr>" "mg_next m1 \<noteq> 0"
      unfolding None option.case by (elim conjE exE) blast
    have "j = 65535" using cursor_period [OF assms(1), of j] j(1,2) by auto
    then have "mg_used m i" if "i \<noteq> 0" for i
      using cursor_reaches [OF assms(1) that] j(3) by blast
    with m1 None show ?thesis by simp
  next
    case (Some i)
    with spec show ?thesis unfolding Some option.case by blast
  qed
qed

section \<open>The notification of a tunnel\<close>

lemma send_wire_notified: "tn_id_notified (snd (send_wire_to_tox_typed env w t)) = tn_id_notified t"
  by (simp add: send_wire_to_tox_typed_def log_event_def Let_def)

text \<open>A tunnel notifies its owner at most once, and only when its identifier is releasable.\<close>

lemma step_notified:
  "tun_step t u \<Longrightarrow> tn_id_notified u = tn_id_notified t \<or> tn_id_notified u \<and> id_releasable t"
proof (induction rule: tun_step.induct)
  case (st_select t arm now)
  show ?case
    by (cases rule: driver_select_cases [where arm = arm and now = now and t = t])
      (auto simp: drain_complete_def driver_defs Let_def)
next
  case (st_error_send t wire env)
  with send_wire_notified [of env wire t] show ?case
    by (simp add: error_send_def set_pc_def split_beta)
next
  case (st_close_send t env)
  with send_wire_notified [of env "serialize (make_tunnel_close (tn_id t))" t] show ?case
    by (simp add: close_send_def set_pc_def send_frame_to_tox_typed_def split_beta)
next
  case (st_send_plain f t env)
  with send_wire_notified [of env "serialize f" t] show ?case
    by (simp add: send_frame_to_tox_typed_def)
next
  case (st_data_send t p zc eo sa env)
  show ?case
    by (simp add: data_send_def send_owned_data_to_tox_def send_frame_to_tox_def
        send_frame_to_tox_typed_def send_wire_to_tox_typed_def set_pc_def log_event_def Let_def)
next
  case (st_count t p zc q now)
  show ?case by (rule data_count_cases [of now p zc q t]) simp
next
  case (st_notify_id t)
  show ?case by (simp add: maybe_notify_id_releasable_def log_event_def)
qed (simp_all add: section_defs driver_defs Let_def
      split: OpenPhase.splits ErrorSettleParty.splits prod.splits DriverPc.splits)

lemma path_notified: "tun_path t u \<Longrightarrow> tn_id_notified t \<Longrightarrow> tn_id_notified u"
  unfolding tun_path_def by (induction rule: rtranclp_induct) (auto dest: step_notified)

section \<open>Who holds an identifier\<close>

text \<open>
  A state of the session: the manager, the identifiers the application has been given and not registered,
  and the tunnels a teardown has taken out of the registry and not yet hooked.
\<close>

type_synonym Leases = "Manager \<times> u16 list \<times> (u16 \<times> nat) list"

definition registry :: "Manager \<Rightarrow> (u16 \<times> nat) list \<times> ManagedTunnel list \<times> (u16 \<Rightarrow> bool) \<times> u16" where
  "registry m = (mg_tunnels m, mg_heap m, mg_used m, mg_next m)"

text \<open>The address of a new object: not registered, not being torn down, not hooked.\<close>

definition fresh :: "nat \<Rightarrow> Manager \<Rightarrow> (u16 \<times> nat) list \<Rightarrow> bool" where
  "fresh a m D \<longleftrightarrow> a < length (mg_heap m) \<and> a \<notin> snd ` set (mg_tunnels m @ D) \<and> mo_hook (mg_heap m ! a) = None"

inductive mgr_step :: "Leases \<Rightarrow> Leases \<Rightarrow> bool" where
  ms_alloc: "allocate_tunnel_id m = (Some i, m1) \<Longrightarrow> mgr_step (m, L, D) (m1, i # L, D)"
| ms_full: "allocate_tunnel_id m = (None, m1) \<Longrightarrow> mgr_step (m, L, D) (m1, L, D)"
| ms_open: "handle_incoming_open h f m = (True, m1) \<Longrightarrow> mgr_step (m, L, D) (m1, fr_tunnel_id f # L, D)"
| ms_reject: "handle_incoming_open h f m = (False, m1) \<Longrightarrow> mgr_step (m, L, D) (m1, L, D)"
| ms_return: "i \<in> set L \<Longrightarrow> mgr_step (m, L, D) (release_tunnel_id i m, remove1 i L, D)"
| ms_new: "mgr_step (m, L, D) (snd (new_object (tunnel_new i w now) m), L, D)"
| ms_add: "i \<in> set L \<Longrightarrow> fresh a m D \<Longrightarrow> find_tunnel i m = None \<Longrightarrow>
    add_tunnel fuel env now i (Some a) m = Some (True, m1) \<Longrightarrow> mgr_step (m, L, D) (m1, remove1 i L, D)"
| ms_swap_out: "find_tunnel i m = Some a \<Longrightarrow> mgr_step (m, L, D) (erase_tunnel i m, i # L, D)"
| ms_swap_in: "i \<in> set L \<Longrightarrow> fresh a m D \<Longrightarrow> mgr_step (m, L, D) (insert_tunnel i a m, remove1 i L, D)"
| ms_erase: "find_tunnel i m = Some a \<Longrightarrow> mgr_step (m, L, D) (erase_tunnel i m, L, (i, a) # D)"
| ms_clear: "mgr_step (m, L, D) (m\<lparr>mg_tunnels := []\<rparr>, L, mg_tunnels m @ D)"
| ms_hook: "(i, a) \<in> set D \<Longrightarrow> mgr_step (m, L, D) (install_hook i a m, L, remove1 (i, a) D)"
| ms_tunnel: "a < length (mg_heap m) \<Longrightarrow> tun_step (tunnel_at a m) u \<Longrightarrow> mgr_step (m, L, D) (put_tunnel a u m, L, D)"
| ms_abandon: "mgr_step (m, L, D) (abandon_registry m, L, D)"
| ms_next: "mgr_step (m, L, D) (set_next_tunnel_id i m, L, D)"
| ms_aside: "registry m1 = registry m \<Longrightarrow> mgr_step (m, L, D) (m1, L, D)"

definition mgr_path :: "Leases \<Rightarrow> Leases \<Rightarrow> bool" where
  "mgr_path = mgr_step\<^sup>*\<^sup>*"

definition mgr_reachable :: "Leases \<Rightarrow> bool" where
  "mgr_reachable s \<longleftrightarrow> mgr_path (mgr_new, [], []) s"

definition hook_mset :: "ManagedTunnel \<Rightarrow> u16 multiset" where
  "hook_mset ob = (case mo_hook ob of None \<Rightarrow> {#} | Some i \<Rightarrow> {#i#})"

definition hook_ids :: "ManagedTunnel list \<Rightarrow> u16 multiset" where
  "hook_ids heap = sum_list (map hook_mset heap)"

text \<open>Every holder of an identifier: the application, the registry, a teardown, a closing tunnel.\<close>

definition holders :: "Leases \<Rightarrow> u16 multiset" where
  "holders = (\<lambda>(m, L, D). mset L + mset (map fst (mg_tunnels m)) + mset (map fst D) + hook_ids (mg_heap m))"

definition owned_ok :: "Manager \<Rightarrow> (u16 \<times> nat) list \<Rightarrow> bool" where
  "owned_ok m D \<longleftrightarrow> distinct (map snd (mg_tunnels m @ D))
     \<and> (\<forall>e \<in> set (mg_tunnels m @ D). snd e < length (mg_heap m) \<and> mo_hook (mg_heap m ! snd e) = None)"

definition holders_ok :: "u16 multiset \<Rightarrow> (u16 \<Rightarrow> bool) \<Rightarrow> bool" where
  "holders_ok M used \<longleftrightarrow> (\<forall>i. count M i = (if i \<noteq> 0 \<and> used i then 1 else 0))"

definition leases_inv :: "Leases \<Rightarrow> bool" where
  "leases_inv = (\<lambda>(m, L, D). holders_ok (holders (m, L, D)) (mg_used m) \<and> owned_ok m D
     \<and> sorted (map fst (mg_tunnels m)) \<and> mg_next m \<noteq> 0 \<and> mg_used m 0)"

lemma hook_ids_update:
  "a < length heap \<Longrightarrow> hook_ids (heap[a := ob]) + hook_mset (heap ! a) = hook_ids heap + hook_mset ob"
  unfolding hook_ids_def
proof (induction heap arbitrary: a)
  case (Cons x xs)
  show ?case
  proof (cases a)
    case 0
    then show ?thesis by (simp add: ac_simps)
  next
    case (Suc b)
    then show ?thesis using Cons.IH [of b] Cons.prems by (simp add: add.assoc)
  qed
qed simp

lemma hook_ids_same: "a < length heap \<Longrightarrow> mo_hook ob = mo_hook (heap ! a) \<Longrightarrow> hook_ids (heap[a := ob]) = hook_ids heap"
  using hook_ids_update [of a heap ob] by (simp add: hook_mset_def)

lemma hook_ids_append [simp]: "hook_ids (heap @ [ob]) = hook_ids heap + hook_mset ob"
  by (simp add: hook_ids_def)

lemma holders_ok_less:
  "holders_ok (M + {#i#}) used \<Longrightarrow> i \<noteq> 0 \<Longrightarrow> holders_ok M (used(i := False))"
  unfolding holders_ok_def
proof
  fix j
  assume all: "\<forall>j. count (M + {#i#}) j = (if j \<noteq> 0 \<and> used j then 1 else 0)" and nz: "i \<noteq> 0"
  then have "count (M + {#i#}) j = (if j \<noteq> 0 \<and> used j then 1 else 0)" by blast
  with nz show "count M j = (if j \<noteq> 0 \<and> (used(i := False)) j then 1 else 0)"
    by (cases "j = i") (auto split: if_splits)
qed

lemma holders_ok_more:
  "holders_ok M used \<Longrightarrow> \<not> used i \<Longrightarrow> used 0 \<Longrightarrow> holders_ok (add_mset i M) (used(i := True))"
  by (auto simp: holders_ok_def)

lemma held_nonzero: "holders_ok M used \<Longrightarrow> i \<in># M \<Longrightarrow> i \<noteq> 0 \<and> used i"
  by (metis holders_ok_def count_eq_zero_iff)

subsection \<open>The invariant is kept\<close>

lemma leases_invI:
  "holders_ok (holders (m, L, D)) (mg_used m) \<Longrightarrow> owned_ok m D \<Longrightarrow> sorted (map fst (mg_tunnels m)) \<Longrightarrow>
   mg_next m \<noteq> 0 \<Longrightarrow> mg_used m 0 \<Longrightarrow> leases_inv (m, L, D)"
  by (simp add: leases_inv_def)

lemma leases_invD:
  assumes "leases_inv (m, L, D)"
  shows "holders_ok (holders (m, L, D)) (mg_used m)" "owned_ok m D" "sorted (map fst (mg_tunnels m))"
    "mg_next m \<noteq> 0" "mg_used m 0"
  using assms by (simp_all add: leases_inv_def)

lemma leases_inv_aside: "registry m1 = registry m \<Longrightarrow> leases_inv (m, L, D) \<Longrightarrow> leases_inv (m1, L, D)"
  by (simp add: leases_inv_def registry_def holders_def owned_ok_def)

lemma leases_inv_taken:
  assumes inv: "leases_inv (m, L, D)" and i: "\<not> mg_used m i"
    and m1: "registry m1 = (mg_tunnels m, mg_heap m, (mg_used m)(i := True), n)" and n: "n \<noteq> 0"
  shows "leases_inv (m1, i # L, D)"
proof -
  have "holders (m1, i # L, D) = add_mset i (holders (m, L, D))"
    using m1 by (simp add: holders_def registry_def)
  then show ?thesis
    using leases_invD [OF inv] holders_ok_more [of "holders (m, L, D)" "mg_used m" i] i m1 n
    by (simp add: leases_inv_def registry_def owned_ok_def)
qed

text \<open>Storing a tunnel fires the hook exactly when its callback has just run.\<close>

definition fires :: "nat \<Rightarrow> Tunnel \<Rightarrow> Manager \<Rightarrow> bool" where
  "fires a t m \<longleftrightarrow> tn_id_notified t \<and> \<not> tn_id_notified (tunnel_at a m) \<and> mo_hook (mg_heap m ! a) \<noteq> None"

lemma put_fires:
  "fires a t m \<Longrightarrow> mo_hook (mg_heap m ! a) = Some i \<Longrightarrow> put_tunnel a t m =
     release_tunnel_id i (m\<lparr>mg_heap := (mg_heap m)[a := \<lparr>mo_tunnel = t, mo_hook = None\<rparr>]\<rparr>)"
  by (simp add: fires_def put_tunnel_def tunnel_at_def)

lemma put_quiet:
  "\<not> fires a t m \<Longrightarrow> put_tunnel a t m = m\<lparr>mg_heap := (mg_heap m)[a := (mg_heap m ! a)\<lparr>mo_tunnel := t\<rparr>]\<rparr>"
  by (auto simp: fires_def put_tunnel_def tunnel_at_def Let_def split: option.split)

lemma leases_inv_put:
  assumes inv: "leases_inv (m, L, D)" and a: "a < length (mg_heap m)"
  shows "leases_inv (put_tunnel a t m, L, D)"
proof (cases "fires a t m")
  case True
  let ?ob = "\<lparr>mo_tunnel = t, mo_hook = None\<rparr>"
  from True obtain i where h: "mo_hook (mg_heap m ! a) = Some i" by (auto simp: fires_def)
  let ?m1 = "m\<lparr>mg_heap := (mg_heap m)[a := ?ob]\<rparr>"
  have put: "put_tunnel a t m = release_tunnel_id i ?m1"
    by (rule put_fires [OF True h])
  have "hook_ids (mg_heap m) = hook_ids ((mg_heap m)[a := ?ob]) + {#i#}"
    using hook_ids_update [OF a, of ?ob] h by (simp add: hook_mset_def)
  then have hs: "holders (m, L, D) = holders (?m1, L, D) + {#i#}"
    by (simp add: holders_def)
  then have nz: "i \<noteq> 0" using held_nonzero [OF leases_invD(1) [OF inv]] by simp
  then have "i > 0" by (simp add: word_gt_0)
  have own: "owned_ok ?m1 D"
    using leases_invD(2) [OF inv] a unfolding owned_ok_def by (auto simp: nth_list_update)
  from \<open>i > 0\<close> have r: "mg_tunnels (release_tunnel_id i ?m1) = mg_tunnels m"
      "mg_heap (release_tunnel_id i ?m1) = mg_heap ?m1" "mg_used (release_tunnel_id i ?m1) = (mg_used m)(i := False)"
      "mg_next (release_tunnel_id i ?m1) = mg_next m"
    by (simp_all add: release_tunnel_id_def)
  show ?thesis unfolding put
  proof (rule leases_invI)
    have "holders (release_tunnel_id i ?m1, L, D) = holders (?m1, L, D)"
      by (simp add: holders_def r)
    then show "holders_ok (holders (release_tunnel_id i ?m1, L, D)) (mg_used (release_tunnel_id i ?m1))"
      using holders_ok_less [of "holders (?m1, L, D)" i "mg_used m"] leases_invD(1) [OF inv] hs nz by (simp add: r)
    show "owned_ok (release_tunnel_id i ?m1) D" using own by (simp add: owned_ok_def r)
  qed (use leases_invD [OF inv] nz in \<open>simp_all add: r\<close>)
next
  case False
  let ?m1 = "m\<lparr>mg_heap := (mg_heap m)[a := (mg_heap m ! a)\<lparr>mo_tunnel := t\<rparr>]\<rparr>"
  have put: "put_tunnel a t m = ?m1"
    by (rule put_quiet [OF False])
  have "hook_ids (mg_heap ?m1) = hook_ids (mg_heap m)" using a by (simp add: hook_ids_same)
  then have "holders (?m1, L, D) = holders (m, L, D)" by (simp add: holders_def)
  moreover have "owned_ok ?m1 D"
    using leases_invD(2) [OF inv] a unfolding owned_ok_def by (auto simp: nth_list_update)
  ultimately show ?thesis using inv unfolding put leases_inv_def by simp
qed

lemma owned_entry:
  assumes "owned_ok m D" and "(i, a) \<in> set (mg_tunnels m @ D)"
  shows "a < length (mg_heap m)" "mo_hook (mg_heap m ! a) = None"
proof -
  have "\<forall>e \<in> set (mg_tunnels m @ D). snd e < length (mg_heap m) \<and> mo_hook (mg_heap m ! snd e) = None"
    using assms(1) by (simp add: owned_ok_def)
  from bspec [OF this assms(2)] show "a < length (mg_heap m)" "mo_hook (mg_heap m ! a) = None" by simp_all
qed

lemma leases_inv_hook:
  assumes inv: "leases_inv (m, L, D)" and ia: "(i, a) \<in> set D"
  shows "leases_inv (install_hook i a m, L, remove1 (i, a) D)"
proof -
  let ?ob = "(mg_heap m ! a)\<lparr>mo_hook := Some i\<rparr>"
  let ?m1 = "m\<lparr>mg_heap := (mg_heap m)[a := ?ob]\<rparr>" and ?D1 = "remove1 (i, a) D"
  have own: "owned_ok m D" by (rule leases_invD [OF inv])
  then have a: "a < length (mg_heap m)" and no: "mo_hook (mg_heap m ! a) = None"
    using ia owned_entry [of m D i a] by auto
  have D: "mset D = add_mset (i, a) (mset ?D1)" using ia by simp
  then have "mset (map snd (mg_tunnels m @ D)) = add_mset a (mset (map snd (mg_tunnels m @ ?D1)))"
    by (metis (no_types, lifting) add_mset_add_single image_mset_add_mset mset_append mset_map snd_conv
        union_mset_add_mset_right map_append)
  then have dist: "distinct (map snd (mg_tunnels m @ ?D1)) \<and> a \<notin> set (map snd (mg_tunnels m @ ?D1))"
    using own unfolding owned_ok_def by (metis distinct.simps(2) list.set_map mset.simps(2) mset_eq_imp_distinct_iff set_mset_mset mset_eq_setD)
  have "set ?D1 \<subseteq> set D" by (rule set_remove1_subset)
  with dist own a have "owned_ok ?m1 ?D1"
    unfolding owned_ok_def by (auto simp: nth_list_update)
  moreover have "holders (?m1, L, ?D1) = holders (m, L, D)"
  proof -
    have "hook_ids ((mg_heap m)[a := ?ob]) = hook_ids (mg_heap m) + {#i#}"
      using hook_ids_update [OF a, of ?ob] no by (simp add: hook_mset_def)
    moreover have "mset (map fst D) = add_mset i (mset (map fst ?D1))"
      using arg_cong [OF D, of "image_mset fst"] by (simp only: mset_map image_mset_add_mset fst_conv)
    ultimately show ?thesis by (simp add: holders_def)
  qed
  ultimately have "leases_inv (?m1, L, ?D1)" using inv by (simp add: leases_inv_def)
  then show ?thesis using a by (simp add: install_hook_def leases_inv_put)
qed

lemma find_tunnel_split:
  assumes "find_tunnel i m = Some a" and "distinct (map fst (mg_tunnels m))"
  shows "\<exists>xs ys. mg_tunnels m = xs @ (i, a) # ys \<and> mg_tunnels (erase_tunnel i m) = xs @ ys"
proof -
  have "(i, a) \<in> set (mg_tunnels m)" using assms(1) by (simp add: find_tunnel_def map_of_SomeD)
  then obtain xs ys where s: "mg_tunnels m = xs @ (i, a) # ys" by (meson split_list)
  then have "i \<notin> fst ` set xs" "i \<notin> fst ` set ys" using assms(2) by auto
  then have "filter (\<lambda>e. fst e \<noteq> i) xs = xs" "filter (\<lambda>e. fst e \<noteq> i) ys = ys"
    by (auto intro!: filter_True)
  then show ?thesis using s by (intro exI [of _ xs] exI [of _ ys]) (simp add: erase_tunnel_def)
qed

lemma erase_fields [simp]:
  "mg_heap (erase_tunnel i m) = mg_heap m" "mg_used (erase_tunnel i m) = mg_used m"
  "mg_next (erase_tunnel i m) = mg_next m"
  by (simp_all add: erase_tunnel_def)

lemma insert_fields [simp]:
  "mg_heap (insert_tunnel i a m) = mg_heap m" "mg_used (insert_tunnel i a m) = mg_used m"
  "mg_next (insert_tunnel i a m) = mg_next m"
  by (simp_all add: insert_tunnel_def)

lemma distinct_if_count: "(\<And>i. count (mset xs) i \<le> 1) \<Longrightarrow> distinct xs"
proof (induction xs)
  case (Cons x xs)
  have z: "count (mset xs) x = 0" using Cons.prems [of x] by simp
  have "count (mset xs) i \<le> 1" for i
    using Cons.prems [of i] by (rule order_trans [rotated]) simp
  with z show ?case using Cons.IH by simp
qed simp

lemma leases_distinct:
  assumes "leases_inv (m, L, D)"
  shows "distinct (map fst (mg_tunnels m))" "distinct L"
    "i \<in> set L \<Longrightarrow> i \<notin> fst ` set (mg_tunnels m)"
proof -
  have le: "count (holders (m, L, D)) i \<le> 1" for i
    using leases_invD(1) [OF assms] by (simp add: holders_ok_def)
  have c: "count (holders (m, L, D)) i = count (mset L) i + count (mset (map fst (mg_tunnels m))) i
      + count (mset (map fst D)) i + count (hook_ids (mg_heap m)) i" for i
    by (simp add: holders_def)
  have t: "count (mset (map fst (mg_tunnels m))) i \<le> 1" and l: "count (mset L) i \<le> 1"
    and s: "count (mset L) i + count (mset (map fst (mg_tunnels m))) i \<le> 1" for i
    using le [of i] unfolding c by auto
  show "distinct (map fst (mg_tunnels m))" "distinct L"
    using t l by (blast intro: distinct_if_count)+
  show "i \<notin> fst ` set (mg_tunnels m)" if "i \<in> set L"
  proof
    assume "i \<in> fst ` set (mg_tunnels m)"
    then have "i \<in># mset (map fst (mg_tunnels m))" by simp
    moreover have "i \<in># mset L" using that by simp
    ultimately have "count (mset (map fst (mg_tunnels m))) i > 0" "count (mset L) i > 0"
      by (simp_all only: count_greater_zero_iff)
    with s [of i] show False by linarith
  qed
qed

lemma leases_inv_erase:
  assumes inv: "leases_inv (m, L, D)" and f: "find_tunnel i m = Some a"
  shows "leases_inv (erase_tunnel i m, L, (i, a) # D)" "leases_inv (erase_tunnel i m, i # L, D)"
proof -
  obtain xs ys where s: "mg_tunnels m = xs @ (i, a) # ys" "mg_tunnels (erase_tunnel i m) = xs @ ys"
    using find_tunnel_split [OF f leases_distinct(1) [OF inv]] by blast
  have "holders (erase_tunnel i m, L, (i, a) # D) = holders (m, L, D)"
      "holders (erase_tunnel i m, i # L, D) = holders (m, L, D)"
    using s by (simp_all add: holders_def)
  moreover have "owned_ok (erase_tunnel i m) ((i, a) # D)" "owned_ok (erase_tunnel i m) D"
    using leases_invD(2) [OF inv] s unfolding owned_ok_def by auto
  moreover have "sorted (map fst (mg_tunnels (erase_tunnel i m)))"
    using leases_invD(3) [OF inv] s by (auto simp: sorted_append)
  ultimately show "leases_inv (erase_tunnel i m, L, (i, a) # D)" "leases_inv (erase_tunnel i m, i # L, D)"
    using leases_invD [OF inv] by (simp_all add: leases_inv_def)
qed

lemma leases_inv_clear:
  assumes "leases_inv (m, L, D)"
  shows "leases_inv (m\<lparr>mg_tunnels := []\<rparr>, L, mg_tunnels m @ D)"
  using assms by (simp add: leases_inv_def holders_def owned_ok_def ac_simps)

lemma leases_inv_insert:
  assumes inv: "leases_inv (m, L, D)" and i: "i \<in> set L" and a: "fresh a m D"
  shows "leases_inv (insert_tunnel i a m, remove1 i L, D)"
proof -
  have "mset (mg_tunnels (insert_tunnel i a m)) = add_mset (i, a) (mset (mg_tunnels m))"
    by (simp add: insert_tunnel_def)
  then have "mset (map fst (mg_tunnels (insert_tunnel i a m))) = add_mset i (mset (map fst (mg_tunnels m)))"
      "mset (map snd (mg_tunnels (insert_tunnel i a m) @ D)) = mset (a # map snd (mg_tunnels m @ D))"
    by simp_all
  note ms = this
  have set: "set (mg_tunnels (insert_tunnel i a m)) = insert (i, a) (set (mg_tunnels m))"
    by (simp add: insert_tunnel_def set_insort_key)
  have "holders (insert_tunnel i a m, remove1 i L, D) = holders (m, L, D)"
    using i ms(1) by (simp add: holders_def)
  moreover have "owned_ok (insert_tunnel i a m) D"
    using leases_invD(2) [OF inv] a mset_eq_imp_distinct_iff [OF ms(2)] set
    by (auto simp: owned_ok_def fresh_def)
  moreover have "sorted (map fst (mg_tunnels (insert_tunnel i a m)))"
    using leases_invD(3) [OF inv] by (simp add: insert_tunnel_def sorted_insort_key)
  ultimately show ?thesis using leases_invD [OF inv] by (simp add: leases_inv_def)
qed

lemma leases_inv_return:
  assumes inv: "leases_inv (m, L, D)" and i: "i \<in> set L"
  shows "leases_inv (release_tunnel_id i m, remove1 i L, D)"
proof -
  have hs: "holders (m, L, D) = holders (m, remove1 i L, D) + {#i#}"
    using i by (simp add: holders_def)
  have nz: "i \<noteq> 0" using held_nonzero [OF leases_invD(1) [OF inv], of i] hs by simp
  have eq: "holders_ok (holders (m, remove1 i L, D)) ((mg_used m)(i := False))"
    by (rule holders_ok_less) (use leases_invD(1) [OF inv] hs nz in simp_all)
  from nz have "i > 0" by (simp add: word_gt_0)
  then have "release_tunnel_id i m = m\<lparr>mg_used := (mg_used m)(i := False)\<rparr>" by (simp add: release_tunnel_id_def)
  then show ?thesis
    using eq leases_invD [OF inv] nz by (simp add: leases_inv_def holders_def owned_ok_def)
qed

lemma leases_inv_add:
  assumes inv: "leases_inv (m, L, D)" and i: "i \<in> set L" and a: "fresh a m D" and f: "find_tunnel i m = None"
    and e: "add_tunnel fuel env now i (Some a) m = Some (True, m1)"
  shows "leases_inv (m1, remove1 i L, D)"
proof -
  have "mg_used m i" using held_nonzero [OF leases_invD(1) [OF inv], of i] i by (simp add: holders_def)
  then have "(mg_used m)(i := True) = mg_used m" by (simp add: fun_upd_idem)
  then have "registry m1 = registry (insert_tunnel i a m)"
    using e f by (auto simp: add_tunnel_def registry_def insert_tunnel_def post_event_def Let_def split: if_splits)
  then show ?thesis by (rule leases_inv_aside) (rule leases_inv_insert [OF inv i a])
qed

lemma leases_inv_open:
  assumes inv: "leases_inv (m, L, D)" and e: "handle_incoming_open h f m = (True, m1)"
  shows "leases_inv (m1, fr_tunnel_id f # L, D)"
proof (rule leases_inv_taken [OF inv])
  show "\<not> mg_used m (fr_tunnel_id f)"
    using e by (auto simp: handle_incoming_open_def Let_def split: if_splits)
  show "registry m1 = (mg_tunnels m, mg_heap m, (mg_used m)(fr_tunnel_id f := True), mg_next m)"
    using e by (auto simp: handle_incoming_open_def registry_def post_event_def Let_def split: if_splits)
qed (rule leases_invD [OF inv])

lemma registry_send [simp]: "registry (mgr_send h f m) = registry m"
  by (simp add: registry_def mgr_send_def)

lemma registry_event [simp]: "registry (post_event ev m) = registry m"
  by (simp add: registry_def post_event_def)

lemma registry_reject: "handle_incoming_open h f m = (False, m1) \<Longrightarrow> registry m1 = registry m"
  by (auto simp: handle_incoming_open_def Let_def split: if_splits)

lemma leases_inv_allocate:
  assumes inv: "leases_inv (m, L, D)" and e: "allocate_tunnel_id m = (r, m1)"
  shows "case r of Some i \<Rightarrow> leases_inv (m1, i # L, D) | None \<Rightarrow> leases_inv (m1, L, D)"
proof -
  note spec = find_available_id_spec [OF leases_invD(4) [OF inv] e [unfolded allocate_tunnel_id_def]]
  show ?thesis
  proof (cases r)
    case None
    with spec have m1: "m1 = m\<lparr>mg_next := mg_next m1\<rparr>" "mg_next m1 \<noteq> 0" by simp_all
    have "leases_inv (m\<lparr>mg_next := n\<rparr>, L, D)" if "n \<noteq> 0" for n
      using inv that by (simp add: leases_inv_def holders_def owned_ok_def)
    with m1 None show ?thesis by (metis option.case(1))
  next
    case (Some i)
    with spec have u: "\<not> mg_used m i" and n: "mg_next m1 \<noteq> 0"
      and m1: "m1 = m\<lparr>mg_next := mg_next m1, mg_used := (mg_used m)(i := True)\<rparr>" by simp_all
    have "registry m1 = (mg_tunnels m, mg_heap m, (mg_used m)(i := True), mg_next m1)"
      unfolding registry_def by (subst m1, simp)+
    with Some show ?thesis using leases_inv_taken [OF inv u _ n] by simp
  qed
qed

lemma abandon_fields:
  "mg_tunnels (abandon_registry m) = []" "mg_next (abandon_registry m) = mg_next m"
  "mg_used (abandon_registry m) i \<longleftrightarrow> mg_used m i \<and> i \<notin> fst ` set (mg_tunnels m)"
  "length (mg_heap (abandon_registry m)) = length (mg_heap m)"
  "a < length (mg_heap m) \<Longrightarrow> mo_hook (mg_heap (abandon_registry m) ! a) = mo_hook (mg_heap m ! a)"
  "map mo_hook (mg_heap (abandon_registry m)) = map mo_hook (mg_heap m)"
proof -
  show "map mo_hook (mg_heap (abandon_registry m)) = map mo_hook (mg_heap m)"
    by (rule nth_equalityI) (auto simp: abandon_registry_def nth_enumerate_eq split: prod.split)
qed (auto simp: abandon_registry_def nth_enumerate_eq split: prod.split)

lemma hook_ids_map: "map mo_hook xs = map mo_hook ys \<Longrightarrow> hook_ids xs = hook_ids ys"
proof -
  assume "map mo_hook xs = map mo_hook ys"
  then have "map hook_mset xs = map hook_mset ys"
    unfolding hook_mset_def by (metis (no_types, lifting) list.map_comp comp_def map_eq_conv map_map)
  then show ?thesis by (simp add: hook_ids_def)
qed

lemma leases_inv_abandon:
  assumes inv: "leases_inv (m, L, D)"
  shows "leases_inv (abandon_registry m, L, D)"
proof -
  have "count (holders (abandon_registry m, L, D)) i =
      (if i \<noteq> 0 \<and> mg_used (abandon_registry m) i then 1 else 0)" for i
  proof -
    have "holders (m, L, D) = holders (abandon_registry m, L, D) + mset (map fst (mg_tunnels m))"
      using hook_ids_map [OF abandon_fields(6)] by (simp add: holders_def abandon_fields)
    moreover have "count (mset (map fst (mg_tunnels m))) i = (if i \<in> fst ` set (mg_tunnels m) then 1 else 0)"
      using leases_distinct(1) [OF inv] by (simp add: distinct_count_atmost_1 del: mset_map)
    moreover have "count (holders (m, L, D)) i = (if i \<noteq> 0 \<and> mg_used m i then 1 else 0)"
      using leases_invD(1) [OF inv] by (simp add: holders_ok_def)
    ultimately show ?thesis by (auto simp: abandon_fields simp del: mset_map split: if_splits)
  qed
  moreover have "0 \<notin> fst ` set (mg_tunnels m)"
    using held_nonzero [OF leases_invD(1) [OF inv], of 0] by (auto simp: holders_def)
  moreover have "owned_ok (abandon_registry m) D"
    using leases_invD(2) [OF inv] by (auto simp: owned_ok_def abandon_fields)
  ultimately show ?thesis
    using leases_invD [OF inv] by (simp add: leases_inv_def holders_ok_def abandon_fields)
qed

lemma leases_inv_new_object:
  assumes inv: "leases_inv (m, L, D)"
  shows "leases_inv (snd (new_object t m), L, D)"
proof -
  let ?m1 = "snd (new_object t m)"
  have own: "owned_ok m D" by (rule leases_invD [OF inv])
  have "snd e < length (mg_heap ?m1) \<and> mo_hook (mg_heap ?m1 ! snd e) = None"
    if "e \<in> set (mg_tunnels m @ D)" for e
    using owned_entry [OF own, of "fst e" "snd e"] that by (simp add: new_object_def nth_append)
  then have "owned_ok ?m1 D"
    using own by (simp add: owned_ok_def new_object_def)
  then show ?thesis
    using inv by (simp add: leases_inv_def holders_def new_object_def hook_mset_def)
qed

lemma leases_inv_step: "mgr_step s s1 \<Longrightarrow> leases_inv s \<Longrightarrow> leases_inv s1"
proof (induction rule: mgr_step.induct)
  case (ms_alloc m i m1 L D)
  then show ?case using leases_inv_allocate [OF _ ms_alloc(1)] by simp
next
  case (ms_full m m1 L D)
  then show ?case using leases_inv_allocate [OF _ ms_full(1)] by simp
next
  case (ms_next m L D i)
  then show ?case by (simp add: set_next_tunnel_id_def leases_inv_def holders_def owned_ok_def)
qed (auto intro: leases_inv_open leases_inv_aside [OF registry_reject] leases_inv_return leases_inv_new_object
       leases_inv_add leases_inv_erase leases_inv_insert leases_inv_clear leases_inv_hook leases_inv_put
       leases_inv_abandon leases_inv_aside)

lemma leases_inv_new: "leases_inv (mgr_new, [], [])"
  by (simp add: leases_inv_def holders_def mgr_new_def hook_ids_def holders_ok_def owned_ok_def)

lemma leases_inv_reachable: "mgr_reachable s \<Longrightarrow> leases_inv s"
  unfolding mgr_reachable_def mgr_path_def
  by (induction rule: rtranclp_induct) (auto intro: leases_inv_new leases_inv_step)

end
