(* ===== verification/Manager_Safety.thy ===== *)
theory Manager_Safety
  imports Manager_Leases
begin

text \<open>
  The properties of a tunnel manager: its tunnels are reachable tunnels, its member functions are
  schedules of the step relation of \<open>Manager_Leases\<close>, and what follows for identifiers, incoming OPEN
  requests, abandoned sessions and the keepalive.
\<close>

section \<open>The tunnels of a manager are tunnels\<close>

definition heap_reachable :: "Leases \<Rightarrow> bool" where
  "heap_reachable = (\<lambda>(m, L, D). \<forall>ob \<in> set (mg_heap m). tun_reachable (mo_tunnel ob))"

lemma put_heap: "\<exists>ob. mg_heap (put_tunnel a t m) = (mg_heap m)[a := ob] \<and> mo_tunnel ob = t"
  by (auto simp: put_tunnel_def release_tunnel_id_def Let_def split: option.split)

lemma heap_update:
  "\<forall>ob \<in> set heap. tun_reachable (mo_tunnel ob) \<Longrightarrow> tun_reachable (mo_tunnel x) \<Longrightarrow>
   \<forall>ob \<in> set (heap[a := x]). tun_reachable (mo_tunnel ob)"
  using set_update_subset_insert [of heap a x] by blast

lemma heap_put:
  assumes "\<forall>ob \<in> set (mg_heap m). tun_reachable (mo_tunnel ob)" and "tun_reachable t"
  shows "\<forall>ob \<in> set (mg_heap (put_tunnel a t m)). tun_reachable (mo_tunnel ob)"
proof -
  obtain x where "mg_heap (put_tunnel a t m) = (mg_heap m)[a := x]" "mo_tunnel x = t"
    using put_heap by blast
  then show ?thesis using heap_update [OF assms(1), of x a] assms(2) by simp
qed

lemma put_heap_length [simp]: "length (mg_heap (put_tunnel a t m)) = length (mg_heap m)"
  by (simp add: put_tunnel_def release_tunnel_id_def Let_def split: option.split)

lemma tunnel_new_reachable: "tun_reachable (tunnel_new i w now)"
  unfolding tun_reachable_def using path_refl by blast

lemma heap_at: "\<forall>ob \<in> set (mg_heap m). tun_reachable (mo_tunnel ob) \<Longrightarrow> a < length (mg_heap m) \<Longrightarrow> tun_reachable (tunnel_at a m)"
  by (simp add: tunnel_at_def)

lemma set_on_id_reachable: "tun_reachable t \<Longrightarrow> tun_reachable (set_on_id_releasable t)"
  by (rule reachable_call [where c = Call_set_on_id_releasable]) simp_all

lemma gate_reachable: "tun_reachable t \<Longrightarrow> tun_reachable (close_outbound_gate t)"
  by (rule reachable_call [where c = Call_close_gate]) simp_all

lemma heap_reachable_step: "mgr_step s s1 \<Longrightarrow> leases_inv s \<Longrightarrow> heap_reachable s \<Longrightarrow> heap_reachable s1"
proof (induction rule: mgr_step.induct)
  case (ms_alloc m i m1 L D)
  then show ?case
    using find_available_id_spec [OF leases_invD(4) [OF ms_alloc(2)] ms_alloc(1) [unfolded allocate_tunnel_id_def]]
    by (auto simp: heap_reachable_def dest: arg_cong [where f = mg_heap])
next
  case (ms_full m m1 L D)
  then show ?case
    using find_available_id_spec [OF leases_invD(4) [OF ms_full(2)] ms_full(1) [unfolded allocate_tunnel_id_def]]
    by (auto simp: heap_reachable_def dest: arg_cong [where f = mg_heap])
next
  case (ms_open h f m m1 L D)
  then have "mg_heap m1 = mg_heap m"
    by (auto simp: handle_incoming_open_def post_event_def Let_def split: if_splits)
  with ms_open show ?case by (simp add: heap_reachable_def)
next
  case (ms_reject h f m m1 L D)
  with registry_reject [OF ms_reject(1)] show ?case by (simp add: heap_reachable_def registry_def)
next
  case (ms_add i L a m D fuel env now m1)
  then have "mg_heap m1 = mg_heap m"
    by (auto simp: add_tunnel_def post_event_def Let_def split: if_splits)
  with ms_add show ?case by (simp add: heap_reachable_def)
next
  case (ms_hook i a D m L)
  then have h: "\<forall>ob \<in> set (mg_heap m). tun_reachable (mo_tunnel ob)" by (simp add: heap_reachable_def)
  have a: "a < length (mg_heap m)" using owned_entry [OF leases_invD(2) [OF ms_hook(2)], of i a] ms_hook(1) by simp
  have t: "tun_reachable (tunnel_at a m)" by (rule heap_at [OF h a])
  then have "\<forall>ob \<in> set ((mg_heap m)[a := (mg_heap m ! a)\<lparr>mo_hook := Some i\<rparr>]). tun_reachable (mo_tunnel ob)"
    by (intro heap_update [OF h]) (simp add: tunnel_at_def)
  then show ?case
    unfolding heap_reachable_def install_hook_def using a t
    by (simp only: prod.case) (rule heap_put, simp_all add: set_on_id_reachable)
next
  case (ms_tunnel a m u L D)
  then have h: "\<forall>ob \<in> set (mg_heap m). tun_reachable (mo_tunnel ob)" by (simp add: heap_reachable_def)
  have "tun_reachable u"
    using reachable_path [OF heap_at [OF h ms_tunnel(1)] path_step [OF path_refl ms_tunnel(2)]] .
  then show ?case using h by (simp add: heap_reachable_def heap_put)
next
  case (ms_abandon m L D)
  then show ?case
    by (auto simp: heap_reachable_def abandon_registry_def in_set_enumerate_eq gate_reachable)
qed (auto simp: heap_reachable_def release_tunnel_id_def new_object_def tunnel_new_reachable
       set_next_tunnel_id_def registry_def)

lemma heap_reachable_reachable: "mgr_reachable s \<Longrightarrow> heap_reachable s"
proof -
  assume "mgr_reachable s"
  then have "mgr_step\<^sup>*\<^sup>* (mgr_new, [], []) s" by (simp add: mgr_reachable_def mgr_path_def)
  then have "leases_inv s \<and> heap_reachable s"
  proof (induction rule: rtranclp_induct)
    case base
    then show ?case using leases_inv_new by (simp add: heap_reachable_def mgr_new_def)
  next
    case (step y z)
    then show ?case using leases_inv_step heap_reachable_step by blast
  qed
  then show ?thesis by blast
qed

section \<open>Member functions are paths\<close>

lemma mpath_refl [simp]: "mgr_path s s" by (simp add: mgr_path_def)

lemma mpath_step: "mgr_path s0 s \<Longrightarrow> mgr_step s s1 \<Longrightarrow> mgr_path s0 s1"
  unfolding mgr_path_def by (rule rtranclp.rtrancl_into_rtrancl)

lemma mpath_trans: "mgr_path s0 s \<Longrightarrow> mgr_path s s1 \<Longrightarrow> mgr_path s0 s1"
  unfolding mgr_path_def by (rule rtranclp_trans)

lemma mreach_path: "mgr_reachable s \<Longrightarrow> mgr_path s s1 \<Longrightarrow> mgr_reachable s1"
  unfolding mgr_reachable_def by (rule mpath_trans)

lemma put_same: "a < length (mg_heap m) \<Longrightarrow> put_tunnel a (tunnel_at a m) m = m"
  by (simp add: put_tunnel_def tunnel_at_def Let_def)

lemma put_at: "a < length (mg_heap m) \<Longrightarrow> tunnel_at a (put_tunnel a t m) = t"
  using put_heap [of a t m] by (auto simp: tunnel_at_def)

lemma put_fields [simp]:
  "mg_tunnels (put_tunnel a t m) = mg_tunnels m" "mg_reaper (put_tunnel a t m) = mg_reaper m"
  by (simp_all add: put_tunnel_def release_tunnel_id_def Let_def split: option.split)

lemma put_twice:
  assumes a: "a < length (mg_heap m)" and y: "tn_id_notified (tunnel_at a m) \<Longrightarrow> tn_id_notified y"
    and z: "tn_id_notified y \<Longrightarrow> tn_id_notified z"
  shows "put_tunnel a z (put_tunnel a y m) = put_tunnel a z m"
proof (cases "fires a y m")
  case True
  then obtain i where i: "mo_hook (mg_heap m ! a) = Some i" by (auto simp: fires_def)
  have z1: "fires a z m" using True z by (simp add: fires_def)
  have "\<not> fires a z (put_tunnel a y m)" using True z a put_at [OF a, of y] by (simp add: fires_def)
  then show ?thesis
    using a by (simp add: put_quiet put_fires [OF True i] put_fires [OF z1 i] release_tunnel_id_def)
next
  case False
  show ?thesis
  proof (cases "fires a z m")
    case True
    then obtain i where i: "mo_hook (mg_heap m ! a) = Some i" by (auto simp: fires_def)
    have "fires a z (put_tunnel a y m)"
      using True False i a put_at [OF a, of y] by (simp add: fires_def put_quiet)
    then show ?thesis
      using a i by (simp add: put_quiet [OF False] put_fires [OF True i] put_fires release_tunnel_id_def)
  next
    case nf: False
    then have "\<not> fires a z (put_tunnel a y m)"
      using False a y put_at [OF a, of y] by (auto simp: fires_def put_quiet)
    then show ?thesis using a by (simp add: put_quiet [OF False] put_quiet [OF nf] put_quiet)
  qed
qed

lemma mpath_tunnel:
  assumes a: "a < length (mg_heap m)" and "tun_path (tunnel_at a m) u"
  shows "mgr_path (m, L, D) (put_tunnel a u m, L, D)"
  using assms(2) unfolding tun_path_def
proof (induction rule: rtranclp_induct)
  case base
  then show ?case using a by (simp add: put_same)
next
  case (step y z)
  have y: "tn_id_notified (tunnel_at a m) \<Longrightarrow> tn_id_notified y"
    using path_notified step(1) by (simp add: tun_path_def)
  have z: "tn_id_notified y \<Longrightarrow> tn_id_notified z" using step_notified [OF step(2)] by auto
  have "mgr_step (put_tunnel a y m, L, D) (put_tunnel a z (put_tunnel a y m), L, D)"
    by (rule ms_tunnel) (use a step(2) in \<open>simp_all add: put_at\<close>)
  then show ?case using mpath_step [OF step(3)] put_twice [OF a y z] by simp
qed

definition moves :: "(Tunnel \<Rightarrow> Tunnel option) \<Rightarrow> bool" where
  "moves f \<longleftrightarrow> (\<forall>t u. tun_reachable t \<longrightarrow> f t = Some u \<longrightarrow> tun_path t u)"

lemma moves_call: "moves (exec_call fuel env c)"
  unfolding moves_def using path_call [OF path_refl reachable_high] by blast

lemma moves_ops [simp]:
  "moves (close_tunnel fuel env)" "moves (force_close fuel env r)" "moves (close_for_timeout fuel env)"
  "moves (handle_frame fuel env f)" "moves (send_error fuel env c d)"
  using moves_call [of fuel env Call_close] moves_call [of fuel env "Call_force_close r"]
    moves_call [of fuel env Call_close_for_timeout] moves_call [of fuel env "Call_frame f"]
    moves_call [of fuel env "Call_send_error c d"]
  by (simp_all add: moves_def)

lemma moves_bind:
  assumes "moves f" and "moves g"
  shows "moves (\<lambda>t. Option.bind (f t) g)"
  unfolding moves_def
proof (intro allI impI)
  fix t u
  assume t: "tun_reachable t" and "Option.bind (f t) g = Some u"
  then obtain v where v: "f t = Some v" "g v = Some u" by (auto simp: bind_eq_Some_conv)
  have p: "tun_path t v" using assms(1) t v(1) by (simp add: moves_def)
  have "tun_path v u" using assms(2) reachable_path [OF t p] v(2) by (simp add: moves_def)
  with p show "tun_path t u" by (rule path_trans)
qed

lemma moves_Some: "moves Some"
  by (simp add: moves_def)

lemma moves_if: "moves f \<Longrightarrow> moves g \<Longrightarrow> moves (\<lambda>t. if P t then f t else g t)"
  by (simp add: moves_def)

lemma moves_teardown [simp]: "moves (teardown fuel env r)"
  unfolding teardown_def [abs_def] by (intro moves_if moves_ops)

lemma moves_close_one [simp]: "moves (close_one fuel env mode)"
  unfolding close_one_def [abs_def] by (intro moves_if moves_bind moves_ops moves_Some)

lemma mpath_aside: "mgr_path s (m, L, D) \<Longrightarrow> registry m1 = registry m \<Longrightarrow> mgr_path s (m1, L, D)"
  by (rule mpath_step [OF _ ms_aside])

lemma on_tunnel_fields:
  assumes "on_tunnel a f m = Some m1"
  shows "mg_tunnels m1 = mg_tunnels m" "length (mg_heap m1) = length (mg_heap m)"
  using assms by (auto simp: on_tunnel_def)

lemma mpath_on_tunnel:
  assumes "mgr_reachable (m, L, D)" and "a < length (mg_heap m)" and "moves f" and "on_tunnel a f m = Some m1"
  shows "mgr_path (m, L, D) (m1, L, D)"
proof -
  obtain u where u: "f (tunnel_at a m) = Some u" "m1 = put_tunnel a u m"
    using assms(4) by (auto simp: on_tunnel_def)
  have "tun_reachable (tunnel_at a m)"
    using heap_reachable_reachable [OF assms(1)] heap_at [OF _ assms(2)] by (simp add: heap_reachable_def)
  with assms(3) u have "tun_path (tunnel_at a m) u" by (simp add: moves_def)
  then show ?thesis using mpath_tunnel [OF assms(2)] u by simp
qed

lemma registered_address:
  assumes "mgr_reachable (m, L, D)" and "(i, a) \<in> set (mg_tunnels m)"
  shows "a < length (mg_heap m)"
  using owned_entry(1) [OF leases_invD(2) [OF leases_inv_reachable [OF assms(1)]], of i a] assms(2) by simp

lemma found_address:
  assumes "mgr_reachable (m, L, D)" and "find_tunnel i m = Some a"
  shows "a < length (mg_heap m)"
  by (rule registered_address [OF assms(1), of i]) (use assms(2) in \<open>simp add: find_tunnel_def map_of_SomeD\<close>)

lemma mpath_hook_run:
  assumes r: "mgr_reachable (m, L, (i, a) # D)" and f: "moves f"
    and e: "on_tunnel a f (install_hook i a m) = Some m1"
  shows "mgr_path (m, L, (i, a) # D) (m1, L, D)" "length (mg_heap m1) = length (mg_heap m)"
proof -
  have a: "a < length (mg_heap m)"
    using owned_entry(1) [OF leases_invD(2) [OF leases_inv_reachable [OF r]], of i a] by simp
  have len: "length (mg_heap (install_hook i a m)) = length (mg_heap m)" by (simp add: install_hook_def)
  have "mgr_step (m, L, (i, a) # D) (install_hook i a m, L, remove1 (i, a) ((i, a) # D))"
    by (rule ms_hook) simp
  then have p: "mgr_path (m, L, (i, a) # D) (install_hook i a m, L, D)"
    using mpath_step [OF mpath_refl] by simp
  have "mgr_path (install_hook i a m, L, D) (m1, L, D)"
    by (rule mpath_on_tunnel [OF mreach_path [OF r p] _ f e]) (simp add: len a)
  with p show "mgr_path (m, L, (i, a) # D) (m1, L, D)" by (rule mpath_trans)
  show "length (mg_heap m1) = length (mg_heap m)" using on_tunnel_fields(2) [OF e] len by simp
qed

lemma mpath_remove_impl:
  assumes r: "mgr_reachable (m, L, D)" and e: "remove_tunnel_impl fuel env i expected m = Some (b, m1)"
  shows "mgr_path (m, L, D) (m1, L, D)"
proof (cases "b")
  case False
  with e show ?thesis by (auto simp: remove_tunnel_impl_def bind_eq_Some_conv split: option.splits if_splits)
next
  case True
  with e obtain a m2 where a: "find_tunnel i m = Some a"
    and m2: "on_tunnel a (teardown fuel env RR_DrainIfClosed) (install_hook i a (erase_tunnel i m)) = Some m2"
    and m1: "m1 = post_event (ME_Closed i) m2"
    by (auto simp: remove_tunnel_impl_def bind_eq_Some_conv split: option.splits if_splits)
  have p: "mgr_path (m, L, D) (erase_tunnel i m, L, (i, a) # D)"
    by (rule mpath_step [OF mpath_refl ms_erase [OF a]])
  have "mgr_path (erase_tunnel i m, L, (i, a) # D) (m2, L, D)"
    by (rule mpath_hook_run(1) [OF mreach_path [OF r p] _ m2]) simp
  with p have "mgr_path (m, L, D) (m2, L, D)" by (rule mpath_trans)
  then show ?thesis by (rule mpath_aside) (simp add: m1)
qed

lemma mpath_reap_loop:
  "mgr_reachable (m, L, D) \<Longrightarrow> reap_loop is fuel env epoch m = Some (n, m1) \<Longrightarrow> mgr_path (m, L, D) (m1, L, D)"
proof (induction "is" arbitrary: m n)
  case (Cons i "is")
  show ?case
  proof (cases "find_tunnel i m")
    case None
    with Cons show ?thesis by simp
  next
    case (Some a)
    show ?thesis
    proof (cases "epoch \<noteq> kAnyReaperEpoch \<and> ch_epoch (mg_reaper m) \<noteq> epoch")
      case True
      with Cons.prems(2) Some show ?thesis by simp
    next
      case False
      then obtain m2 b m3 k where e: "on_tunnel a (close_for_timeout fuel env) m = Some m2"
          "remove_tunnel_if fuel env i (Some a) m2 = Some (b, m3)" "reap_loop is fuel env epoch m3 = Some (k, m1)"
        using Cons.prems(2) Some by (auto simp: bind_eq_Some_conv)
      have p2: "mgr_path (m, L, D) (m2, L, D)"
        by (rule mpath_on_tunnel [OF Cons.prems(1) found_address [OF Cons.prems(1) Some] _ e(1)]) simp
      have r2: "mgr_reachable (m2, L, D)" by (rule mreach_path [OF Cons.prems(1) p2])
      have p3: "mgr_path (m2, L, D) (m3, L, D)"
        using e(2) by (intro mpath_remove_impl [OF r2]) (simp add: remove_tunnel_if_def)
      have "mgr_path (m3, L, D) (m1, L, D)" by (rule Cons.IH [OF mreach_path [OF r2 p3] e(3)])
      with p2 p3 show ?thesis by (blast intro: mpath_trans)
    qed
  qed
qed simp

lemma mpath_close_loop:
  "mgr_reachable (m, L, es @ D) \<Longrightarrow> close_all_loop es fuel env mode m = Some m1 \<Longrightarrow>
   mgr_path (m, L, es @ D) (m1, L, D)"
proof (induction es arbitrary: m)
  case (Cons e es)
  obtain i a where ia: "e = (i, a)" by (cases e)
  then obtain m2 where e: "on_tunnel a (close_one fuel env mode) (install_hook i a m) = Some m2"
      "close_all_loop es fuel env mode (post_event (ME_Closed i) m2) = Some m1"
    using Cons.prems(2) by (auto simp: bind_eq_Some_conv)
  have r: "mgr_reachable (m, L, (i, a) # (es @ D))" using Cons.prems(1) ia by simp
  have "mgr_path (m, L, (i, a) # (es @ D)) (m2, L, es @ D)"
    by (rule mpath_hook_run(1) [OF r _ e(1)]) simp
  then have p: "mgr_path (m, L, (e # es) @ D) (post_event (ME_Closed i) m2, L, es @ D)"
    using ia by (simp add: mpath_aside)
  show ?case using mpath_trans [OF p] Cons.IH [OF mreach_path [OF Cons.prems(1) p] e(2)] by blast
qed simp

lemma mpath_force_loop:
  "mgr_reachable (m, L, D) \<Longrightarrow> \<forall>e \<in> set es. snd e < length (mg_heap m) \<Longrightarrow>
   force_close_loop es fuel env m = Some m1 \<Longrightarrow> mgr_path (m, L, D) (m1, L, D)"
proof (induction es arbitrary: m)
  case (Cons e es)
  obtain m2 where e: "on_tunnel (snd e) (force_close fuel env RR_Abort) m = Some m2"
      "force_close_loop es fuel env (post_event (ME_Closed (fst e)) m2) = Some m1"
    using Cons.prems(3) by (auto simp: bind_eq_Some_conv)
  have a: "snd e < length (mg_heap m)" using Cons.prems(2) by simp
  have p: "mgr_path (m, L, D) (post_event (ME_Closed (fst e)) m2, L, D)"
    by (rule mpath_aside [OF mpath_on_tunnel [OF Cons.prems(1) a _ e(1)]]) simp_all
  have "mgr_path (post_event (ME_Closed (fst e)) m2, L, D) (m1, L, D)"
    by (rule Cons.IH [OF mreach_path [OF Cons.prems(1) p] _ e(2)])
      (use Cons.prems(2) on_tunnel_fields(2) [OF e(1)] in \<open>simp add: post_event_def\<close>)
  with p show ?case by (rule mpath_trans)
qed simp

text \<open>The calls that concern no reservation of the application: frames, removals, timers, teardown.\<close>

datatype RoutineCall =
    MC_route_frame Transport int ProtocolFrame
  | MC_remove_tunnel u16
  | MC_remove_tunnel_if u16 "nat option"
  | MC_close_tunnel_if u16 "nat option"
  | MC_reaper_tick int nat
  | MC_keepalive_tick Transport nat int
  | MC_close_all TeardownMode
  | MC_close_all_local

fun exec_routine :: "nat \<Rightarrow> TunnelEnv \<Rightarrow> RoutineCall \<Rightarrow> Manager \<Rightarrow> Manager option" where
  "exec_routine fuel env (MC_route_frame h now f) m = route_frame fuel env h now f m"
| "exec_routine fuel env (MC_remove_tunnel i) m = remove_tunnel fuel env i m"
| "exec_routine fuel env (MC_remove_tunnel_if i x) m = map_option snd (remove_tunnel_if fuel env i x m)"
| "exec_routine fuel env (MC_close_tunnel_if i x) m = map_option snd (close_tunnel_if fuel env i x m)"
| "exec_routine fuel env (MC_reaper_tick now epoch) m = reaper_tick fuel env now epoch m"
| "exec_routine fuel env (MC_keepalive_tick h epoch now) m = Some (keepalive_tick h epoch now m)"
| "exec_routine fuel env (MC_close_all mode) m = close_all fuel env mode m"
| "exec_routine fuel env MC_close_all_local m = close_all_local fuel env m"

primrec exec_calls :: "nat \<Rightarrow> TunnelEnv \<Rightarrow> RoutineCall list \<Rightarrow> Manager \<Rightarrow> Manager option" where
  "exec_calls fuel env [] m = Some m"
| "exec_calls fuel env (c # cs) m = Option.bind (exec_routine fuel env c m) (exec_calls fuel env cs)"

lemma registry_activity [simp]: "registry (note_peer_activity now m) = registry m"
  by (simp add: note_peer_activity_def registry_def post_event_def Let_def)

lemma registry_keepalive: "registry (keepalive_tick h epoch now m) = registry m"
  by (simp add: keepalive_tick_def keepalive_check_def registry_def post_event_def mgr_send_def Let_def)

lemma registry_rearm: "registry (rearm_reaper_after_tick epoch m) = registry m"
  by (simp add: rearm_reaper_after_tick_def registry_def)

lemma registry_same:
  assumes "registry m1 = registry m"
  shows "mg_tunnels m1 = mg_tunnels m" "mg_heap m1 = mg_heap m" "find_tunnel i m1 = find_tunnel i m"
  using assms by (simp_all add: registry_def find_tunnel_def)

lemma mpath_route:
  assumes r: "mgr_reachable (m, L, D)" and e: "route_frame fuel env h now f m = Some m1"
  shows "mgr_path (m, L, D) (m1, L, D)"
proof -
  define m2 where "m2 = (note_peer_activity now m)
      \<lparr>mg_frames_received := mg_frames_received (note_peer_activity now m) + 1,
       mg_bytes_received := mg_bytes_received (note_peer_activity now m) + serialized_size f\<rparr>"
  have "registry m2 = registry (note_peer_activity now m)" by (simp add: m2_def registry_def)
  then have g: "registry m2 = registry m" by simp
  have p: "mgr_path (m, L, D) (m2, L, D)" by (rule mpath_aside [OF mpath_refl g])
  have rest: "registry m1 = registry m2 \<or>
      (\<exists>a. find_tunnel (fr_tunnel_id f) m2 = Some a \<and> on_tunnel a (handle_frame fuel env f) m2 = Some m1)"
    using e unfolding route_frame_def Let_def m2_def [symmetric]
    by (auto split: if_splits option.splits)
  then show ?thesis
  proof
    assume "registry m1 = registry m2"
    then show ?thesis by (rule mpath_aside [OF p])
  next
    assume "\<exists>a. find_tunnel (fr_tunnel_id f) m2 = Some a \<and> on_tunnel a (handle_frame fuel env f) m2 = Some m1"
    then obtain a where a: "find_tunnel (fr_tunnel_id f) m2 = Some a"
      and o: "on_tunnel a (handle_frame fuel env f) m2 = Some m1" by blast
    note r2 = mreach_path [OF r p]
    have "mgr_path (m2, L, D) (m1, L, D)"
      by (rule mpath_on_tunnel [OF r2 found_address [OF r2 a] _ o]) simp
    with p show ?thesis by (rule mpath_trans)
  qed
qed

lemma mpath_reaper_tick:
  assumes r: "mgr_reachable (m, L, D)" and e: "reaper_tick fuel env now epoch m = Some m1"
  shows "mgr_path (m, L, D) (m1, L, D)"
proof -
  have "registry m1 = registry m \<or> (\<exists>n m2. reap_idle_tunnels_once fuel env now epoch m = Some (n, m2)
          \<and> m1 = rearm_reaper_after_tick epoch m2)"
    using e by (auto simp: reaper_tick_def registry_def split: if_splits)
  moreover have "mgr_path (m, L, D) (m2, L, D)" if "reap_idle_tunnels_once fuel env now epoch m = Some (n, m2)" for n m2
    using that mpath_reap_loop [OF r] by (auto simp: reap_idle_tunnels_once_def split: if_splits)
  ultimately show ?thesis using mpath_aside [OF mpath_refl] mpath_aside registry_rearm by metis
qed

lemma mpath_close_all:
  assumes r: "mgr_reachable (m, L, D)" and e: "close_all fuel env mode m = Some m1"
  shows "mgr_path (m, L, D) (m1, L, D)"
proof -
  have p: "mgr_path (m, L, D) (m\<lparr>mg_tunnels := []\<rparr>, L, mg_tunnels m @ D)"
    by (rule mpath_step [OF mpath_refl ms_clear])
  show ?thesis
    using mpath_trans [OF p mpath_close_loop [OF mreach_path [OF r p]]] e by (simp add: close_all_def)
qed

lemma mpath_close_all_local:
  assumes r: "mgr_reachable (m, L, D)" and e: "close_all_local fuel env m = Some m1"
  shows "mgr_path (m, L, D) (m1, L, D)"
proof -
  define m2 where "m2 = (let m3 = disable_reaper (disable_keepalive m)
      in m3\<lparr>mg_queue := close_send_gate (mute_outbound (mg_queue m3))\<rparr>)"
  have g: "registry m2 = registry m"
    by (simp add: m2_def registry_def disable_reaper_def disable_keepalive_def Let_def)
  have p2: "mgr_path (m, L, D) (m2, L, D)" by (rule mpath_aside [OF mpath_refl g])
  have p3: "mgr_path (m2, L, D) (abandon_registry m2, L, D)" by (rule mpath_step [OF mpath_refl ms_abandon])
  note r2 = mreach_path [OF r p2]
  have "\<forall>x \<in> set (mg_tunnels m2). snd x < length (mg_heap (abandon_registry m2))"
    using registered_address [OF r2] by (auto simp: abandon_fields)
  then have "mgr_path (abandon_registry m2, L, D) (m1, L, D)"
    using e by (intro mpath_force_loop [OF mreach_path [OF r2 p3], of "mg_tunnels m2" fuel env])
      (simp_all add: close_all_local_def m2_def Let_def)
  with p2 p3 show ?thesis by (blast intro: mpath_trans)
qed

lemma mpath_routine:
  assumes r: "mgr_reachable (m, L, D)" and e: "exec_routine fuel env c m = Some m1"
  shows "mgr_path (m, L, D) (m1, L, D)"
proof (cases c)
  case (MC_close_tunnel_if i x)
  with e show ?thesis
    by (auto simp: close_tunnel_if_def split: option.splits if_splits
        intro: mpath_on_tunnel [OF r found_address [OF r] moves_ops(1)])
next
  case (MC_keepalive_tick h epoch now)
  with e show ?thesis by (auto intro: mpath_aside [OF mpath_refl] registry_keepalive)
qed (use e in \<open>auto simp: remove_tunnel_def remove_tunnel_if_def split: if_splits
       intro: mpath_route [OF r] mpath_remove_impl [OF r] mpath_reaper_tick [OF r] mpath_close_all [OF r]
         mpath_close_all_local [OF r]\<close>)

text \<open>
  The member functions of a manager: the routine calls, the calls that hand identifiers out and take
  them back, the settings and the sends. \<open>lease_after\<close> is the list of identifiers the application
  holds after a call, and \<open>caller_ok\<close> what the manager's documentation asks of its caller: only a
  reserved identifier is released or registered, and a tunnel that is registered is a new object. The
  wait of the drain timer is the subject of \<open>Manager_Outbound\<close>; callbacks are always installed.
\<close>

datatype ManagerCall =
    MM_routine RoutineCall
  | MM_allocate_tunnel_id
  | MM_release_tunnel_id u16
  | MM_set_next_tunnel_id u16
  | MM_handle_incoming_open Transport ProtocolFrame
  | MM_create_tunnel Transport string u16
  | MM_add_tunnel int u16 "nat option"
  | MM_set_max_tunnels nat
  | MM_set_backpressure_threshold nat
  | MM_enable_reaper u32 u32
  | MM_enable_half_close_reaper u32 u32
  | MM_disable_reaper
  | MM_reap_idle_tunnels_once int nat
  | MM_rearm_reaper nat
  | MM_enable_keepalive u32 u32 int
  | MM_disable_keepalive
  | MM_rearm_keepalive nat
  | MM_note_peer_activity int
  | MM_set_send_handler
  | MM_send_frame Transport ProtocolFrame
  | MM_send_frame_typed Transport ProtocolFrame
  | MM_queue_outbound_for_retry Wire
  | MM_clear_pending_outbound
  | MM_record_sent nat
  | MM_record_received nat

definition on_queue :: "(OutQueue \<Rightarrow> OutQueue) \<Rightarrow> Manager \<Rightarrow> Manager" where
  "on_queue f m = m\<lparr>mg_queue := f (mg_queue m)\<rparr>"

fun exec_manager :: "nat \<Rightarrow> TunnelEnv \<Rightarrow> ManagerCall \<Rightarrow> Manager \<Rightarrow> Manager option" where
  "exec_manager fuel env (MM_routine c) m = exec_routine fuel env c m"
| "exec_manager fuel env MM_allocate_tunnel_id m = Some (snd (allocate_tunnel_id m))"
| "exec_manager fuel env (MM_release_tunnel_id i) m = Some (release_tunnel_id i m)"
| "exec_manager fuel env (MM_set_next_tunnel_id i) m = Some (set_next_tunnel_id i m)"
| "exec_manager fuel env (MM_handle_incoming_open h f) m = Some (snd (handle_incoming_open h f m))"
| "exec_manager fuel env (MM_create_tunnel h host port) m = Some (snd (create_tunnel h host port m))"
| "exec_manager fuel env (MM_add_tunnel now i x) m = map_option snd (add_tunnel fuel env now i x m)"
| "exec_manager fuel env (MM_set_max_tunnels n) m = Some (set_max_tunnels n m)"
| "exec_manager fuel env (MM_set_backpressure_threshold n) m = Some (set_backpressure_threshold n m)"
| "exec_manager fuel env (MM_enable_reaper idle tick) m = Some (enable_reaper idle tick m)"
| "exec_manager fuel env (MM_enable_half_close_reaper half tick) m = Some (enable_half_close_reaper half tick m)"
| "exec_manager fuel env MM_disable_reaper m = Some (disable_reaper m)"
| "exec_manager fuel env (MM_reap_idle_tunnels_once now epoch) m =
     map_option snd (reap_idle_tunnels_once fuel env now epoch m)"
| "exec_manager fuel env (MM_rearm_reaper epoch) m = Some (rearm_reaper_after_tick epoch m)"
| "exec_manager fuel env (MM_enable_keepalive interval deadline now) m = Some (enable_keepalive interval deadline now m)"
| "exec_manager fuel env MM_disable_keepalive m = Some (disable_keepalive m)"
| "exec_manager fuel env (MM_rearm_keepalive epoch) m = Some (m\<lparr>mg_keepalive := chain_rearm epoch (mg_keepalive m)\<rparr>)"
| "exec_manager fuel env (MM_note_peer_activity now) m = Some (note_peer_activity now m)"
| "exec_manager fuel env MM_set_send_handler m = Some (on_queue set_send_handler m)"
| "exec_manager fuel env (MM_send_frame h f) m = Some (mgr_send h f m)"
| "exec_manager fuel env (MM_send_frame_typed h f) m = Some (on_queue (snd \<circ> mgr_send_frame_typed h f) m)"
| "exec_manager fuel env (MM_queue_outbound_for_retry wire) m = Some (on_queue (snd \<circ> queue_outbound_for_retry wire) m)"
| "exec_manager fuel env MM_clear_pending_outbound m = Some (on_queue clear_pending_outbound m)"
| "exec_manager fuel env (MM_record_sent n) m = Some (on_queue (record_sent n) m)"
| "exec_manager fuel env (MM_record_received n) m =
     Some (m\<lparr>mg_frames_received := mg_frames_received m + 1, mg_bytes_received := mg_bytes_received m + n\<rparr>)"

fun lease_after :: "ManagerCall \<Rightarrow> Manager \<Rightarrow> u16 list \<Rightarrow> u16 list" where
  "lease_after MM_allocate_tunnel_id m L = (case fst (allocate_tunnel_id m) of Some i \<Rightarrow> i # L | None \<Rightarrow> L)"
| "lease_after (MM_release_tunnel_id i) m L = remove1 i L"
| "lease_after (MM_handle_incoming_open h f) m L =
     (if fst (handle_incoming_open h f m) then fr_tunnel_id f # L else L)"
| "lease_after (MM_create_tunnel h host port) m L =
     (if fst (create_tunnel h host port m) = 0 then L else fst (create_tunnel h host port m) # L)"
| "lease_after (MM_add_tunnel now i x) m L =
     (if x = None \<or> find_tunnel i m \<noteq> None \<or> tunnel_count m \<ge> mg_max m then L else remove1 i L)"
| "lease_after _ m L = L"

fun caller_ok :: "ManagerCall \<Rightarrow> Manager \<Rightarrow> u16 list \<Rightarrow> (u16 \<times> nat) list \<Rightarrow> bool" where
  "caller_ok (MM_release_tunnel_id i) m L D \<longleftrightarrow> i = 0 \<or> i \<in> set L"
| "caller_ok (MM_add_tunnel now i x) m L D \<longleftrightarrow>
     (case x of None \<Rightarrow> True | Some a \<Rightarrow> fresh a m D \<and> (i \<in> set L \<or> find_tunnel i m \<noteq> None))"
| "caller_ok _ m L D \<longleftrightarrow> True"

lemma mpath_allocate:
  assumes "allocate_tunnel_id m = (r, m1)"
  shows "mgr_path (m, L, D) (m1, case r of Some i \<Rightarrow> i # L | None \<Rightarrow> L, D)"
proof (cases r)
  case None
  with assms show ?thesis by (auto intro: mpath_step [OF mpath_refl ms_full])
next
  case (Some i)
  with assms show ?thesis by (auto intro: mpath_step [OF mpath_refl ms_alloc])
qed

lemma mpath_return:
  assumes r: "mgr_reachable (m, L, D)" and "i = 0 \<or> i \<in> set L"
  shows "mgr_path (m, L, D) (release_tunnel_id i m, remove1 i L, D)"
proof (cases "i \<in> set L")
  case True
  then show ?thesis by (rule mpath_step [OF mpath_refl ms_return])
next
  case False
  with assms(2) have "release_tunnel_id i m = m" "remove1 i L = L"
    by (auto simp: release_tunnel_id_def remove1_idem)
  then show ?thesis by simp
qed

lemma mpath_incoming:
  assumes "handle_incoming_open h f m = (b, m1)"
  shows "mgr_path (m, L, D) (m1, if b then fr_tunnel_id f # L else L, D)"
proof (cases b)
  case True
  with assms show ?thesis by (auto intro: mpath_step [OF mpath_refl ms_open])
next
  case False
  with assms show ?thesis by (auto intro: mpath_step [OF mpath_refl ms_reject])
qed

lemma allocated_nonzero:
  assumes "leases_inv (m, L, D)" and "allocate_tunnel_id m = (Some i, m1)"
  shows "i \<noteq> 0"
proof -
  have "\<not> mg_used m i"
    using find_available_id_spec [OF leases_invD(4) [OF assms(1)] assms(2) [unfolded allocate_tunnel_id_def]] by simp
  with leases_invD(5) [OF assms(1)] show ?thesis by metis
qed

lemma create_cases:
  "create_tunnel h host port m = (0, m)
   \<or> (\<exists>m1. allocate_tunnel_id m = (None, m1) \<and> create_tunnel h host port m = (0, m1))
   \<or> (\<exists>i m1 q. allocate_tunnel_id m = (Some i, m1)
        \<and> (create_tunnel h host port m = (0, release_tunnel_id i (m1\<lparr>mg_queue := q\<rparr>))
           \<or> create_tunnel h host port m = (i, m1\<lparr>mg_queue := q\<rparr>)))"
proof (cases "oq_muted (mg_queue m)")
  case True
  then show ?thesis by (simp add: create_tunnel_def)
next
  case False
  obtain r m1 where a: "allocate_tunnel_id m = (r, m1)" by fastforce
  show ?thesis
  proof (cases r)
    case None
    with a False show ?thesis by (simp add: create_tunnel_def)
  next
    case (Some i)
    let ?f = "make_tunnel_open i host port"
    obtain v q where q: "run_send h (SK_Direct (serialized_size ?f)) (serialize ?f) (mg_queue m1) = (v, q)"
      by fastforce
    have "create_tunnel h host port m = (0, release_tunnel_id i (m1\<lparr>mg_queue := mg_queue m1\<rparr>))
        \<or> create_tunnel h host port m = (0, release_tunnel_id i (m1\<lparr>mg_queue := q\<rparr>))
        \<or> create_tunnel h host port m = (i, m1\<lparr>mg_queue := q\<rparr>)"
      using a False Some q by (simp add: create_tunnel_def Let_def)
    with a Some show ?thesis by blast
  qed
qed

lemma mpath_create:
  assumes r: "mgr_reachable (m, L, D)" and e: "create_tunnel h host port m = (k, m1)"
  shows "mgr_path (m, L, D) (m1, if k = 0 then L else k # L, D)"
proof -
  consider "k = 0" "m1 = m" | "allocate_tunnel_id m = (None, m1)" "k = 0"
    | i m2 q where "allocate_tunnel_id m = (Some i, m2)"
        "k = 0 \<and> m1 = release_tunnel_id i (m2\<lparr>mg_queue := q\<rparr>) \<or> k = i \<and> m1 = m2\<lparr>mg_queue := q\<rparr>"
    using create_cases [of h host port m] e by auto
  then show ?thesis
  proof cases
    case 1
    then show ?thesis by simp
  next
    case 2
    then show ?thesis using mpath_allocate by fastforce
  next
    case (3 i m2 q)
    have "mgr_path (m, L, D) (m2, i # L, D)" using mpath_allocate [OF 3(1), of L D] by simp
    then have p: "mgr_path (m, L, D) (m2\<lparr>mg_queue := q\<rparr>, i # L, D)"
      by (rule mpath_aside) (simp add: registry_def)
    have "mgr_path (m2\<lparr>mg_queue := q\<rparr>, i # L, D) (release_tunnel_id i (m2\<lparr>mg_queue := q\<rparr>), remove1 i (i # L), D)"
      by (rule mpath_step [OF mpath_refl ms_return]) simp
    then have ret: "mgr_path (m, L, D) (release_tunnel_id i (m2\<lparr>mg_queue := q\<rparr>), L, D)"
      using mpath_trans [OF p] by simp
    have nz: "i \<noteq> 0" by (rule allocated_nonzero [OF leases_inv_reachable [OF r] 3(1)])
    from 3(2) p ret nz show ?thesis by auto
  qed
qed

lemma mpath_add:
  assumes r: "mgr_reachable (m, L, D)" and ok: "caller_ok (MM_add_tunnel now i x) m L D"
    and e: "add_tunnel fuel env now i x m = Some (b, m1)"
  shows "mgr_path (m, L, D) (m1, lease_after (MM_add_tunnel now i x) m L, D)"
proof (cases x)
  case None
  with e show ?thesis by (simp add: add_tunnel_def)
next
  case (Some a)
  show ?thesis
  proof (cases "find_tunnel i m")
    case None
    show ?thesis
    proof (cases "tunnel_count m \<ge> mg_max m")
      case True
      with e Some None show ?thesis by (simp add: add_tunnel_def)
    next
      case False
      then have "add_tunnel fuel env now i (Some a) m = Some (True, m1)"
        using e Some None by (auto simp: add_tunnel_def Let_def)
      then have "mgr_step (m, L, D) (m1, remove1 i L, D)"
        using ok Some None by (intro ms_add [where a = a]) auto
      then show ?thesis using False Some None mpath_step [OF mpath_refl] by simp
    qed
  next
    case old: (Some o1)
    obtain m2 where m2: "on_tunnel o1 (force_close fuel env RR_Abort) (erase_tunnel i m) = Some m2"
      and m1: "m1 = post_event (ME_Created i) (insert_tunnel i a m2)"
      using e Some old by (auto simp: add_tunnel_def bind_eq_Some_conv)
    have p1: "mgr_path (m, L, D) (erase_tunnel i m, i # L, D)"
      by (rule mpath_step [OF mpath_refl ms_swap_out [OF old]])
    have p2: "mgr_path (erase_tunnel i m, i # L, D) (m2, i # L, D)"
      by (rule mpath_on_tunnel [OF mreach_path [OF r p1] _ _ m2]) (use found_address [OF r old] in simp_all)
    have old_in: "o1 \<in> snd ` set (mg_tunnels m)" using old by (force simp: find_tunnel_def dest: map_of_SomeD)
    have "fresh a m2 D"
    proof -
      have f: "fresh a m D" using ok Some by simp
      then have "a \<noteq> o1" using old_in by (auto simp: fresh_def)
      moreover obtain u where "m2 = put_tunnel o1 u (erase_tunnel i m)" using m2 by (auto simp: on_tunnel_def)
      moreover have "set (mg_tunnels (erase_tunnel i m)) \<subseteq> set (mg_tunnels m)" by (auto simp: erase_tunnel_def)
      moreover obtain ob where "mg_heap (put_tunnel o1 u (erase_tunnel i m)) = (mg_heap m)[o1 := ob]"
        using put_heap [of o1 u "erase_tunnel i m"] by auto
      ultimately show ?thesis using f by (auto simp: fresh_def)
    qed
    then have "mgr_step (m2, i # L, D) (insert_tunnel i a m2, remove1 i (i # L), D)" by (intro ms_swap_in) simp_all
    then have "mgr_path (m, L, D) (insert_tunnel i a m2, L, D)"
      using mpath_step [OF mpath_trans [OF p1 p2]] by simp
    then show ?thesis using old m1 by (simp add: mpath_aside)
  qed
qed

lemma registry_settings [simp]:
  "registry (set_max_tunnels n m) = registry m" "registry (set_backpressure_threshold n m) = registry m"
  "registry (enable_reaper a b m) = registry m" "registry (enable_half_close_reaper a b m) = registry m"
  "registry (disable_reaper m) = registry m" "registry (enable_keepalive a b now m) = registry m"
  "registry (disable_keepalive m) = registry m" "registry (on_queue f m) = registry m"
  "registry (rearm_reaper_after_tick epoch m) = registry m"
  "registry (m\<lparr>mg_keepalive := c\<rparr>) = registry m"
  "registry (m\<lparr>mg_frames_received := n, mg_bytes_received := k\<rparr>) = registry m"
  by (simp_all add: registry_def set_max_tunnels_def set_backpressure_threshold_def enable_reaper_def
      enable_half_close_reaper_def disable_reaper_def enable_keepalive_def disable_keepalive_def on_queue_def
      rearm_reaper_after_tick_def Let_def)

lemma mpath_manager:
  assumes r: "mgr_reachable (m, L, D)" and ok: "caller_ok c m L D" and e: "exec_manager fuel env c m = Some m1"
  shows "mgr_path (m, L, D) (m1, lease_after c m L, D)"
proof (cases c)
  case (MM_routine rc)
  with e show ?thesis by (simp add: mpath_routine [OF r])
next
  case MM_allocate_tunnel_id
  with e show ?thesis using mpath_allocate [OF surjective_pairing, of m L D] by simp
next
  case (MM_release_tunnel_id i)
  with e ok show ?thesis using mpath_return [OF r, of i] by simp
next
  case (MM_set_next_tunnel_id i)
  with e show ?thesis using mpath_step [OF mpath_refl ms_next, of m L D i] by simp
next
  case (MM_handle_incoming_open h f)
  with e show ?thesis
    using mpath_incoming [of h f m "fst (handle_incoming_open h f m)" m1 L D] by (auto simp: prod_eq_iff)
next
  case (MM_create_tunnel h host port)
  with e show ?thesis
    using mpath_create [OF r, of h host port "fst (create_tunnel h host port m)" m1] by (auto simp: prod_eq_iff)
next
  case (MM_add_tunnel now i x)
  with e obtain b where "add_tunnel fuel env now i x m = Some (b, m1)" by auto
  then show ?thesis using mpath_add [OF r] ok MM_add_tunnel by blast
next
  case (MM_reap_idle_tunnels_once now epoch)
  then obtain n where "reap_idle_tunnels_once fuel env now epoch m = Some (n, m1)" using e by auto
  then show ?thesis
    using MM_reap_idle_tunnels_once mpath_reap_loop [OF r]
    by (auto simp: reap_idle_tunnels_once_def split: if_splits)
qed (use e in \<open>auto intro: mpath_aside [OF mpath_refl]\<close>)

section \<open>A concrete manager\<close>

text \<open>A manager with the connected tunnel of \<open>Tunnel_Safety\<close> registered under identifier 7.\<close>

definition demo_empty :: Manager where
  "demo_empty = mgr_new\<lparr>mg_heap := [\<lparr>mo_tunnel = demo0, mo_hook = None\<rparr>],
     mg_used := (\<lambda>_. False)(0 := True, 7 := True), mg_next := 8\<rparr>"

definition demo_mgr :: Manager where
  "demo_mgr = demo_empty\<lparr>mg_tunnels := [(7, 0)], mg_events := [ME_Created 7]\<rparr>"

lemma demo_allocate:
  "allocate_tunnel_id (set_next_tunnel_id 7 mgr_new) =
     (Some 7, mgr_new\<lparr>mg_used := (\<lambda>_. False)(0 := True, 7 := True), mg_next := 8\<rparr>)"
proof -
  have "(65535::nat) = Suc 65534" by simp
  then show ?thesis
    unfolding allocate_tunnel_id_def find_available_id_def
    by (simp only: find_id_loop.simps)
      (simp add: set_next_tunnel_id_def mgr_new_def cursor_next_def kMaxId_def Let_def)
qed

lemma demo_empty_reachable: "mgr_reachable (demo_empty, [7], [])"
proof -
  let ?m = "mgr_new\<lparr>mg_used := (\<lambda>_. False)(0 := True, 7 := True), mg_next := 8\<rparr>"
  let ?m1 = "snd (new_object (tunnel_new 7 64 0) ?m)"
  have p: "mgr_path (mgr_new, [], []) (?m1, [7], [])"
    by (rule mpath_step [OF mpath_step [OF mpath_step [OF mpath_refl ms_next] ms_alloc [OF demo_allocate]] ms_new])
  have at: "tunnel_at 0 ?m1 = tunnel_new 7 64 0" "mg_heap ?m1 = [\<lparr>mo_tunnel = tunnel_new 7 64 0, mo_hook = None\<rparr>]"
    by (simp_all add: new_object_def mgr_new_def tunnel_at_def)
  have q: "mgr_path (?m1, [7], []) (put_tunnel 0 demo0 ?m1, [7], [])"
    by (rule mpath_tunnel) (use demo0_path at in \<open>simp_all\<close>)
  have e: "put_tunnel 0 demo0 ?m1 = demo_empty"
    by (simp add: put_tunnel_def at(2) Let_def) (simp add: demo_empty_def new_object_def mgr_new_def)
  show ?thesis unfolding mgr_reachable_def using mpath_trans [OF p q] unfolding e .
qed

lemma demo_mgr_reachable: "mgr_reachable (demo_mgr, [], [])"
proof -
  have "mgr_step (demo_empty, [7], []) (demo_mgr, remove1 7 [7], [])"
  proof (rule ms_add)
    show "fresh 0 demo_empty []" "find_tunnel 7 demo_empty = None"
      by (simp_all add: fresh_def demo_empty_def mgr_new_def find_tunnel_def)
    show "add_tunnel 0 (const_env SO_Sent) 0 7 (Some 0) demo_empty = Some (True, demo_mgr)"
      by (simp add: add_tunnel_def tunnel_count_def find_tunnel_def insert_tunnel_def post_event_def Let_def
          demo_mgr_def demo_empty_def mgr_new_def fun_upd_idem)
  qed simp
  then show ?thesis using mreach_path [OF demo_empty_reachable mpath_step [OF mpath_refl]] by simp
qed

lemmas stop_defs =
  run_defs force_close_def force_close_impl_def claim_terminal_def flush_pending_writes_def terminal_def
  emit_close_frame_once_def emit_close_with_def kick_driver_def close_pass_def close_send_def
  release_resources_def notify_state_change_def transition_state_def transition_state_if_def
  cancel_close_retry_def emit_local_close_only_with_def emit_close_and_transition_with_def local_close_reason_def
  id_releasable_def abort_and_settle_def take_pending_terminal_finalizer_def arrive_terminal_error_party_def

lemma demo_force:
  "map_option (\<lambda>u. (filter is_send (tn_events u), tn_state u)) (force_close (Suc (Suc (Suc 0))) (const_env SO_Sent) RR_Abort demo0)
     = Some ([EvSend (serialize (make_tunnel_close 7)) SO_Sent], TS_Closed)"
  by (simp add: demo0_def const_env_def stop_defs Let_def)

section \<open>Silence after abandonment\<close>

definition silenced :: "Manager \<Rightarrow> bool" where
  "silenced m \<longleftrightarrow> oq_muted (mg_queue m) \<and> oq_gate_closed (mg_queue m)"

lemma silenced_send [simp]: "silenced m \<Longrightarrow> mgr_send h f m = m"
  by (simp add: silenced_def mgr_send_def mgr_send_frame_def send_frame_impl_def send_authorised_def)

text \<open>What a call may do to the outbound queue of a silenced manager.\<close>

definition still :: "Manager \<Rightarrow> Manager \<Rightarrow> bool" where
  "still m m1 \<longleftrightarrow> (silenced m \<longrightarrow> silenced m1 \<and> oq_log (mg_queue m1) = oq_log (mg_queue m))"

lemma still_queue: "mg_queue m1 = mg_queue m \<Longrightarrow> still m m1"
  by (simp add: still_def silenced_def)

lemma still_trans: "still m m1 \<Longrightarrow> still m1 m2 \<Longrightarrow> still m m2"
  by (auto simp: still_def)

lemma queue_simps [simp]:
  "mg_queue (put_tunnel a t m) = mg_queue m" "mg_queue (install_hook i a m) = mg_queue m"
  "mg_queue (erase_tunnel i m) = mg_queue m" "mg_queue (post_event ev m) = mg_queue m"
  "mg_queue (abandon_registry m) = mg_queue m" "mg_queue (note_peer_activity now m) = mg_queue m"
  by (simp_all add: put_tunnel_def install_hook_def erase_tunnel_def post_event_def abandon_registry_def
      release_tunnel_id_def note_peer_activity_def Let_def split: option.split)

lemma on_tunnel_queue: "on_tunnel a f m = Some m1 \<Longrightarrow> mg_queue m1 = mg_queue m"
  by (auto simp: on_tunnel_def)

lemma remove_queue: "remove_tunnel_impl fuel env i x m = Some (b, m1) \<Longrightarrow> mg_queue m1 = mg_queue m"
  by (auto simp: remove_tunnel_impl_def bind_eq_Some_conv dest!: on_tunnel_queue split: option.splits if_splits)

lemma reap_queue: "reap_loop is fuel env epoch m = Some (n, m1) \<Longrightarrow> mg_queue m1 = mg_queue m"
  by (induction "is" arbitrary: m n)
    (auto simp: bind_eq_Some_conv remove_tunnel_if_def split: option.splits if_splits
      dest!: on_tunnel_queue remove_queue)

lemma close_loop_queue: "close_all_loop es fuel env mode m = Some m1 \<Longrightarrow> mg_queue m1 = mg_queue m"
  by (induction es arbitrary: m) (auto simp: bind_eq_Some_conv dest!: on_tunnel_queue)

lemma force_loop_queue: "force_close_loop es fuel env m = Some m1 \<Longrightarrow> mg_queue m1 = mg_queue m"
  by (induction es arbitrary: m) (auto simp: bind_eq_Some_conv dest!: on_tunnel_queue)

lemma still_route: "route_frame fuel env h now f m = Some m1 \<Longrightarrow> still m m1"
  by (auto simp: route_frame_def still_def silenced_def mgr_send_def mgr_send_frame_def send_frame_impl_def send_authorised_def Let_def
      dest!: on_tunnel_queue split: if_splits option.splits)

lemma still_keepalive: "still m (keepalive_tick h epoch now m)"
  by (auto simp: keepalive_tick_def keepalive_check_def still_def silenced_def mgr_send_def mgr_send_frame_def
      send_frame_impl_def send_authorised_def post_event_def Let_def)

lemma still_reaper: "reaper_tick fuel env now epoch m = Some m1 \<Longrightarrow> still m m1"
  by (rule still_queue)
    (auto simp: reaper_tick_def reap_idle_tunnels_once_def rearm_reaper_after_tick_def
      dest!: reap_queue split: if_splits)

lemma still_close_local: "close_all_local fuel env m = Some m1 \<Longrightarrow> still m m1"
  and silenced_close_local: "close_all_local fuel env m = Some m1 \<Longrightarrow> silenced m1"
  by (auto simp: close_all_local_def still_def silenced_def mute_outbound_def close_send_gate_def
      disable_reaper_def disable_keepalive_def Let_def dest!: force_loop_queue)

lemma still_close_all: "close_all fuel env mode m = Some m1 \<Longrightarrow> still m m1"
  by (rule still_queue) (auto simp: close_all_def dest!: close_loop_queue)

lemma still_manager: "exec_routine fuel env c m = Some m1 \<Longrightarrow> still m m1"
  by (cases c)
    (auto simp: remove_tunnel_def remove_tunnel_if_def close_tunnel_if_def still_keepalive
      dest: remove_queue on_tunnel_queue split: option.splits if_splits
      intro: still_queue still_route still_reaper still_close_local still_close_all)

section \<open>Properties\<close>

text \<open>
  Claim C19: every identifier has at most one holder, and none is lost. In every reachable state an
  identifier other than 0 is marked used exactly when one party holds it (the application that
  reserved it, a registered tunnel, a teardown under way, or a closing tunnel that will still send),
  and no identifier has two.
\<close>

theorem ids_held_once:
  assumes "mgr_reachable (m, L, D)"
  shows "count (holders (m, L, D)) i = (if i \<noteq> 0 \<and> mg_used m i then 1 else 0)"
  using leases_invD(1) [OF leases_inv_reachable [OF assms]] by (simp add: holders_ok_def)

theorem ids_held_once_witness: "count (holders (demo_mgr, [], [])) 7 = 1"
  using ids_held_once [OF demo_mgr_reachable, of 7] by (simp add: demo_mgr_def demo_empty_def)

text \<open>
  An identifier handed out is held by nobody, in particular by no tunnel that still owes its
  CLOSE, and the allocation fails only when every identifier is held.
\<close>

theorem manager_allocation:
  assumes "mgr_reachable (m, L, D)" and "allocate_tunnel_id m = (r, m1)"
  shows "case r of Some i \<Rightarrow> i \<noteq> 0 \<and> i \<notin># holders (m, L, D) \<and> mg_used m1 i
    | None \<Rightarrow> \<forall>i. i = 0 \<or> i \<in># holders (m, L, D)"
proof -
  have inv: "leases_inv (m, L, D)" by (rule leases_inv_reachable [OF assms(1)])
  have held: "i \<in># holders (m, L, D) \<longleftrightarrow> i \<noteq> 0 \<and> mg_used m i" for i
    using leases_invD(1) [OF inv] by (simp add: holders_ok_def flip: count_greater_zero_iff)
  note spec = find_available_id_spec [OF leases_invD(4) [OF inv] assms(2) [unfolded allocate_tunnel_id_def]]
  show ?thesis
  proof (cases r)
    case None
    with spec held show ?thesis by auto
  next
    case (Some i)
    with spec have u: "\<not> mg_used m i" and m1: "m1 = m\<lparr>mg_next := mg_next m1, mg_used := (mg_used m)(i := True)\<rparr>"
      by simp_all
    from u leases_invD(5) [OF inv] have "i \<noteq> 0" by metis
    moreover have "mg_used m1 i" by (subst m1) simp
    ultimately show ?thesis using Some held u by simp
  qed
qed

text \<open>When the hook of an object runs, its tunnel can send nothing more for the identifier.\<close>

lemma put_frees:
  assumes "mg_used m i" and "\<not> mg_used (put_tunnel a u m) i"
  shows "fires a u m \<and> mo_hook (mg_heap m ! a) = Some i"
proof (cases "fires a u m")
  case False
  with assms show ?thesis by (simp add: put_quiet)
next
  case True
  then obtain j where j: "mo_hook (mg_heap m ! a) = Some j" by (auto simp: fires_def)
  with True assms show ?thesis by (auto simp: put_fires [OF True j] release_tunnel_id_def split: if_splits)
qed

lemma gate_closed_gate: "tn_gate_closed (close_outbound_gate t)"
proof -
  obtain arrive t1 where s: "seal_gate (cancel_close_retry t) = (arrive, t1)" by fastforce
  then have "tn_gate_closed t1" by (auto simp: seal_gate_def split: prod.splits)
  with s show ?thesis
    by (auto simp: close_outbound_gate_def arrive_terminal_error_party_def section_defs finalize_remote_close_def
        transition_state_def notify_state_change_def Let_def split: if_splits ErrorSettleParty.splits)
qed

lemma abandoned_gate:
  assumes "(i, a) \<in> set (mg_tunnels m)" and "a < length (mg_heap m)"
  shows "tn_gate_closed (tunnel_at a (abandon_registry m))"
proof -
  have "a \<in> snd ` set (mg_tunnels m)" using assms(1) by force
  then show ?thesis
    using assms(2) by (simp add: abandon_registry_def tunnel_at_def nth_enumerate_eq gate_closed_gate)
qed

lemma hook_frees:
  assumes a: "a < length (mg_heap m)" and no: "mo_hook (mg_heap m ! a) = None"
    and u: "mg_used m i" "\<not> mg_used (install_hook j a m) i"
  shows "i = j \<and> id_releasable (tunnel_at a m)"
proof -
  let ?m1 = "m\<lparr>mg_heap := (mg_heap m)[a := (mg_heap m ! a)\<lparr>mo_hook := Some j\<rparr>]\<rparr>"
  let ?u = "set_on_id_releasable (tunnel_at a m)"
  have "mg_used ?m1 i" "\<not> mg_used (put_tunnel a ?u ?m1) i"
    using u by (simp_all add: install_hook_def)
  then have f: "fires a ?u ?m1" "mo_hook (mg_heap ?m1 ! a) = Some i" using put_frees by blast+
  have "tunnel_at a ?m1 = tunnel_at a m" using a by (simp add: tunnel_at_def)
  with f(1) have "id_releasable (tunnel_at a m)"
    by (auto simp: fires_def set_on_id_releasable_def maybe_notify_id_releasable_def id_releasable_def
        split: if_splits CloseObligation.splits CloseFrameState.splits)
  with f(2) a show ?thesis by simp
qed

lemma return_frees: "mg_used m i \<Longrightarrow> \<not> mg_used (release_tunnel_id j m) i \<Longrightarrow> i = j"
  by (auto simp: release_tunnel_id_def split: if_splits)

lemma abandon_frees:
  assumes "mgr_reachable (m, L, D)" and "mg_used m i" "\<not> mg_used (abandon_registry m) i"
  shows "\<exists>a. find_tunnel i m = Some a \<and> tn_gate_closed (tunnel_at a (abandon_registry m))"
proof -
  obtain a where a: "(i, a) \<in> set (mg_tunnels m)" using assms(2,3) by (force simp: abandon_fields)
  then have "find_tunnel i m = Some a"
    using leases_distinct(1) [OF leases_inv_reachable [OF assms(1)]] by (simp add: find_tunnel_def)
  with abandoned_gate [OF a registered_address [OF assms(1) a]] show ?thesis by blast
qed

lemma step_frees:
  assumes "tun_step (tunnel_at a m) t" and "mg_used m i" "\<not> mg_used (put_tunnel a t m) i"
  shows "mo_hook (mg_heap m ! a) = Some i \<and> id_releasable (tunnel_at a m)"
  using put_frees [OF assms(2,3)] step_notified [OF assms(1)] by (auto simp: fires_def)

text \<open>The steps that free no identifier.\<close>

lemma allocate_keeps_used:
  assumes "mg_next m \<noteq> 0" and "allocate_tunnel_id m = (r, m1)" and "mg_used m i"
  shows "mg_used m1 i"
proof -
  note spec = find_available_id_spec [OF assms(1) assms(2) [unfolded allocate_tunnel_id_def]]
  show ?thesis
  proof (cases r)
    case None
    then have e: "m1 = m\<lparr>mg_next := mg_next m1\<rparr>" using spec by simp
    show ?thesis by (subst e) (simp add: assms(3))
  next
    case (Some j)
    then have e: "m1 = m\<lparr>mg_next := mg_next m1, mg_used := (mg_used m)(j := True)\<rparr>" using spec by simp
    show ?thesis by (subst e) (simp add: assms(3))
  qed
qed

lemma open_keeps_used: "handle_incoming_open h f m = (b, m1) \<Longrightarrow> mg_used m i \<Longrightarrow> mg_used m1 i"
  by (auto simp: handle_incoming_open_def post_event_def mgr_send_def Let_def split: if_splits)

lemma add_keeps_used:
  "add_tunnel fuel env now j (Some a) m = Some (b, m1) \<Longrightarrow> find_tunnel j m = None \<Longrightarrow> mg_used m i \<Longrightarrow> mg_used m1 i"
  by (auto simp: add_tunnel_def post_event_def Let_def split: if_splits)

lemma other_keeps_used:
  "mg_used (snd (new_object t m)) = mg_used m" "mg_used (set_next_tunnel_id j m) = mg_used m"
  "registry m1 = registry m \<Longrightarrow> mg_used m1 = mg_used m"
  by (simp_all add: new_object_def set_next_tunnel_id_def registry_def)

text \<open>
  An identifier returns to the pool only when it is safe. A step that frees an identifier
  is the application returning its own reservation, the abandonment of the session after the outbound
  gate of the tunnel was closed, or the notification of a removed tunnel whose ERROR is not in flight
  and whose CLOSE is resolved or no longer owed.
\<close>

theorem id_freed_when_settled:
  assumes r: "mgr_reachable (m, L, D)" and step: "mgr_step (m, L, D) (m1, L1, D1)"
    and u: "mg_used m i" "\<not> mg_used m1 i"
  shows "i \<in> set L \<and> i \<notin> set L1
    \<or> (\<exists>a. find_tunnel i m = Some a \<and> tn_gate_closed (tunnel_at a m1))
    \<or> (\<exists>a < length (mg_heap m). (mo_hook (mg_heap m ! a) = Some i \<or> (i, a) \<in> set D) \<and> id_releasable (tunnel_at a m))"
  using step
proof cases
  case (ms_return j)
  then have "i = j" using return_frees u by simp
  moreover have "j \<notin> set (remove1 j L)" using leases_distinct(2) [OF leases_inv_reachable [OF r]] by simp
  ultimately show ?thesis using ms_return by simp
next
  case (ms_hook j a)
  have own: "a < length (mg_heap m)" "mo_hook (mg_heap m ! a) = None"
    using owned_entry [OF leases_invD(2) [OF leases_inv_reachable [OF r]], of j a] ms_hook by simp_all
  with hook_frees [OF own u(1), of j] u(2) ms_hook show ?thesis by blast
next
  case (ms_tunnel a t)
  with step_frees [OF ms_tunnel(5) u(1)] u(2) show ?thesis by blast
next
  case ms_abandon
  with abandon_frees [OF r u(1)] u(2) show ?thesis by blast
next
  case (ms_alloc j)
  with u(2) allocate_keeps_used [OF leases_invD(4) [OF leases_inv_reachable [OF r]] ms_alloc(3) u(1)]
  show ?thesis by blast
next
  case ms_full
  with u(2) allocate_keeps_used [OF leases_invD(4) [OF leases_inv_reachable [OF r]] ms_full(3) u(1)]
  show ?thesis by blast
next
  case (ms_open h f)
  with u(2) open_keeps_used [OF ms_open(3) u(1)] show ?thesis by blast
next
  case (ms_reject h f)
  with u(2) open_keeps_used [OF ms_reject(3) u(1)] show ?thesis by blast
next
  case (ms_add j a fuel env now)
  with u(2) add_keeps_used [OF ms_add(6,5) u(1)] show ?thesis by blast
next
  case ms_aside
  with u other_keeps_used(3) [OF ms_aside(3)] show ?thesis by simp
qed (use u in \<open>simp_all add: other_keeps_used(1,2)\<close>)

theorem id_freed_when_settled_witness: "tn_gate_closed (tunnel_at 0 (abandon_registry demo_mgr))"
proof -
  have f: "find_tunnel 7 demo_mgr = Some 0" "mg_heap demo_mgr = [\<lparr>mo_tunnel = demo0, mo_hook = None\<rparr>]"
      "mg_used demo_mgr 7" "\<not> mg_used (abandon_registry demo_mgr) 7"
    by (simp_all add: demo_mgr_def demo_empty_def find_tunnel_def abandon_fields)
  from id_freed_when_settled [OF demo_mgr_reachable ms_abandon f(3,4)] f(1,2) show ?thesis by auto
qed

text \<open>
  Claim C38: the registry is well formed. In every reachable state the registered identifiers are
  strictly increasing and not 0, every entry names its own object on the heap, no registered object
  has given its identifier up, and every tunnel object is a reachable tunnel, so that the properties of
  tunnels hold for all tunnels of a manager.
\<close>

theorem registry_wellformed:
  assumes "mgr_reachable (m, L, D)"
  shows "sorted_wrt (<) (get_tunnel_ids m) \<and> 0 \<notin> set (get_tunnel_ids m)
    \<and> distinct (map snd (mg_tunnels m))
    \<and> list_all (\<lambda>(i, a). a < length (mg_heap m) \<and> mo_hook (mg_heap m ! a) = None) (mg_tunnels m)
    \<and> list_all (\<lambda>ob. tun_reachable (mo_tunnel ob)) (mg_heap m)"
proof -
  have inv: "leases_inv (m, L, D)" by (rule leases_inv_reachable [OF assms])
  have "sorted_wrt (<) (get_tunnel_ids m)"
    using leases_invD(3) [OF inv] leases_distinct(1) [OF inv] by (simp add: get_tunnel_ids_def strict_sorted_iff)
  moreover have "0 \<notin> set (get_tunnel_ids m)"
    using held_nonzero [OF leases_invD(1) [OF inv], of 0] by (auto simp: holders_def get_tunnel_ids_def)
  moreover have "list_all (\<lambda>(i, a). a < length (mg_heap m) \<and> mo_hook (mg_heap m ! a) = None) (mg_tunnels m)"
    using owned_entry [OF leases_invD(2) [OF inv]] by (auto simp: list_all_iff)
  moreover have "distinct (map snd (mg_tunnels m))"
    using leases_invD(2) [OF inv] by (simp add: owned_ok_def)
  moreover have "list_all (\<lambda>ob. tun_reachable (mo_tunnel ob)) (mg_heap m)"
    using heap_reachable_reachable [OF assms] by (simp add: heap_reachable_def list_all_iff)
  ultimately show ?thesis by blast
qed

theorem registry_wellformed_witness: "get_tunnel_ids demo_mgr = [7] \<and> tun_reachable (mo_tunnel (mg_heap demo_mgr ! 0))"
proof -
  have h: "mg_heap demo_mgr = [\<lparr>mo_tunnel = demo0, mo_hook = None\<rparr>]" "get_tunnel_ids demo_mgr = [7]"
    by (simp_all add: demo_mgr_def demo_empty_def get_tunnel_ids_def)
  from registry_wellformed [OF demo_mgr_reachable] h show ?thesis by simp
qed

text \<open>
  Claim C20: the manager's member functions are schedules of the step relation, so that its invariants
  hold between and after them. Every public member function that changes the state, and the ticks of the
  reaper and the keepalive, run to completion with the calls it makes on the tunnels, is a path from a
  reachable state, provided the caller releases and registers only identifiers it has reserved and
  registers new tunnel objects; the path ends with the reservations the call leaves to the application.
\<close>

theorem manager_calls_are_schedules:
  assumes "mgr_reachable (m, L, D)" and "caller_ok c m L D" and "exec_manager fuel env c m = Some m1"
  shows "mgr_path (m, L, D) (m1, lease_after c m L, D)"
  by (rule mpath_manager [OF assms])

lemma demo_teardown:
  "map_option tn_id_notified (teardown (Suc (Suc (Suc (Suc 0)))) (const_env SO_Sent) RR_DrainIfClosed (set_on_id_releasable demo0)) = Some True"
  by (simp add: teardown_def set_on_id_releasable_def abort_teardown_required_def close_tunnel_def emit_close_and_transition_def
      demo0_def const_env_def stop_defs Let_def)

lemma demo_remove:
  "\<exists>m1. exec_manager (Suc (Suc (Suc (Suc 0)))) (const_env SO_Sent) (MM_routine (MC_remove_tunnel 7)) demo_mgr = Some m1
     \<and> \<not> mg_used m1 7 \<and> mg_tunnels m1 = []"
proof -
  let ?m = "install_hook 7 0 (erase_tunnel 7 demo_mgr)"
  have q: "\<not> tn_id_notified (set_on_id_releasable demo0)" "\<not> tn_id_notified demo0"
    by (simp_all add: set_on_id_releasable_def demo0_def stop_defs)
  have e: "erase_tunnel 7 demo_mgr = demo_mgr\<lparr>mg_tunnels := []\<rparr>"
    by (simp add: erase_tunnel_def demo_mgr_def demo_empty_def)
  have m: "?m = demo_mgr\<lparr>mg_tunnels := [], mg_heap := [\<lparr>mo_tunnel = set_on_id_releasable demo0, mo_hook = Some 7\<rparr>]\<rparr>"
    unfolding e install_hook_def
    by (simp add: put_quiet fires_def q tunnel_at_def demo_mgr_def demo_empty_def)
  obtain u where u: "teardown (Suc (Suc (Suc (Suc 0)))) (const_env SO_Sent) RR_DrainIfClosed (set_on_id_releasable demo0) = Some u"
      "tn_id_notified u"
    using demo_teardown by (auto simp: map_option_eq_Some)
  have f: "fires 0 u ?m" "mo_hook (mg_heap ?m ! 0) = Some 7" using u(2) q by (simp_all add: fires_def m tunnel_at_def)
  have "on_tunnel 0 (teardown (Suc (Suc (Suc (Suc 0)))) (const_env SO_Sent) RR_DrainIfClosed) ?m = Some (put_tunnel 0 u ?m)"
    using u(1) by (simp add: on_tunnel_def m tunnel_at_def)
  moreover have "find_tunnel 7 demo_mgr = Some 0" by (simp add: find_tunnel_def demo_mgr_def)
  moreover have "\<not> mg_used (put_tunnel 0 u ?m) 7" "mg_tunnels (put_tunnel 0 u ?m) = []"
    unfolding put_fires [OF f] by (simp_all add: release_tunnel_id_def m)
  ultimately show ?thesis by (simp add: remove_tunnel_def remove_tunnel_impl_def post_event_def)
qed

theorem manager_calls_are_schedules_witness: "\<exists>m1. mgr_path (demo_mgr, [], []) (m1, [], []) \<and> \<not> mg_used m1 7"
  using demo_remove manager_calls_are_schedules [OF demo_mgr_reachable, of "MM_routine (MC_remove_tunnel 7)"] by fastforce

lemma incoming_open_cases:
  "handle_incoming_open h f m = (accepted, m1) \<Longrightarrow>
   (accepted \<longleftrightarrow> as_tunnel_open f \<noteq> None \<and> fr_tunnel_id f \<noteq> 0 \<and> tunnel_count m < mg_max m
      \<and> \<not> (has_tunnel (fr_tunnel_id f) m \<or> mg_used m (fr_tunnel_id f)))"
  "handle_incoming_open h f m = (True, m1) \<Longrightarrow>
   mg_used m1 = (mg_used m)(fr_tunnel_id f := True) \<and> mg_queue m1 = mg_queue m"
  "handle_incoming_open h f m = (False, m1) \<Longrightarrow>
   m1 = m \<or> (\<exists>code desc. m1 = mgr_send h (make_tunnel_error (fr_tunnel_id f) code desc) m)"
  unfolding handle_incoming_open_def Let_def
  by (simp_all split: if_splits add: post_event_def) (force | blast)+

lemma held_iff:
  assumes "leases_inv (m, L, D)"
  shows "i \<in># holders (m, L, D) \<longleftrightarrow> i \<noteq> 0 \<and> mg_used m i"
  using leases_invD(1) [OF assms] by (simp add: holders_ok_def flip: count_greater_zero_iff)

lemma registered_used:
  assumes "leases_inv (m, L, D)" and "has_tunnel i m"
  shows "mg_used m i"
proof -
  have "i \<in> fst ` set (mg_tunnels m)"
    using assms(2) by (auto simp: has_tunnel_def find_tunnel_def map_of_eq_None_iff)
  then have "i \<in># holders (m, L, D)" by (auto simp: holders_def)
  then show ?thesis using held_iff [OF assms(1)] by blast
qed

text \<open>
  The server accepts an OPEN exactly when its payload decodes, its identifier is not 0 and
  held by nobody, and the limit is not reached; it then reserves that identifier and sends nothing.
  Every other OPEN leaves the registry as it was and is answered by at most one ERROR frame.
\<close>

theorem incoming_open_accepted:
  assumes "mgr_reachable (m, L, D)" and "handle_incoming_open h f m = (accepted, m1)"
  shows "(accepted \<longleftrightarrow> as_tunnel_open f \<noteq> None \<and> fr_tunnel_id f \<noteq> 0 \<and> tunnel_count m < mg_max m
            \<and> fr_tunnel_id f \<notin># holders (m, L, D))
    \<and> (if accepted then mg_used m1 = (mg_used m)(fr_tunnel_id f := True) \<and> mg_queue m1 = mg_queue m
       else registry m1 = registry m
         \<and> (m1 = m \<or> (\<exists>code desc. m1 = mgr_send h (make_tunnel_error (fr_tunnel_id f) code desc) m)))"
proof -
  have inv: "leases_inv (m, L, D)" by (rule leases_inv_reachable [OF assms(1)])
  have "accepted \<longleftrightarrow> as_tunnel_open f \<noteq> None \<and> fr_tunnel_id f \<noteq> 0 \<and> tunnel_count m < mg_max m
      \<and> fr_tunnel_id f \<notin># holders (m, L, D)"
    using incoming_open_cases(1) [OF assms(2)] held_iff [OF inv] registered_used [OF inv] by blast
  moreover have "if accepted then mg_used m1 = (mg_used m)(fr_tunnel_id f := True) \<and> mg_queue m1 = mg_queue m
       else registry m1 = registry m
         \<and> (m1 = m \<or> (\<exists>code desc. m1 = mgr_send h (make_tunnel_error (fr_tunnel_id f) code desc) m))"
  proof (cases accepted)
    case True
    with incoming_open_cases(2) [of h f m m1] assms(2) show ?thesis by simp
  next
    case False
    with assms(2) have "handle_incoming_open h f m = (False, m1)" by simp
    with False incoming_open_cases(3) [OF this] registry_reject [OF this] show ?thesis by simp
  qed
  ultimately show ?thesis by blast
qed

text \<open>
  An abandoned session is silent. After \<open>close_all_local\<close> no sequence of calls (frames from the
  peer, timer ticks, removals) makes the manager give another frame to the transport, and it opens no
  tunnel.
\<close>

theorem abandoned_manager_silent:
  assumes "close_all_local fuel env m = Some m1" and "exec_calls fuel env cs m1 = Some m2"
  shows "oq_log (mg_queue m2) = oq_log (mg_queue m1) \<and> create_tunnel h host port m2 = (0, m2)"
proof -
  have "still m1 m2" using assms(2)
  proof (induction cs arbitrary: m1)
    case Nil
    then show ?case by (simp add: still_def)
  next
    case (Cons c cs)
    then show ?case using still_manager still_trans by (fastforce simp: bind_eq_Some_conv)
  qed
  with silenced_close_local [OF assms(1)] show ?thesis by (simp add: still_def silenced_def create_tunnel_def)
qed

text \<open>
  An example: a replaced tunnel announces its end. When a tunnel is registered under an identifier that a
  connected tunnel holds, the old tunnel is closed and its TUNNEL_CLOSE for that identifier is accepted
  by the transport before the replacement is registered.
\<close>

theorem replaced_tunnel_sends_close:
  "\<exists>m1. add_tunnel (Suc (Suc (Suc 0))) (const_env SO_Sent) 0 7 (Some 1) (snd (new_object (tunnel_new 7 64 0) demo_mgr)) = Some (True, m1)
     \<and> find_tunnel 7 m1 = Some 1
     \<and> EvSend (serialize (make_tunnel_close 7)) SO_Sent \<in> set (tn_events (tunnel_at 0 m1))"
proof -
  let ?m = "snd (new_object (tunnel_new 7 64 0) demo_mgr)"
  obtain u where u: "force_close (Suc (Suc (Suc 0))) (const_env SO_Sent) RR_Abort demo0 = Some u"
      "filter is_send (tn_events u) = [EvSend (serialize (make_tunnel_close 7)) SO_Sent]"
    using demo_force by (auto simp: map_option_eq_Some)
  have ev: "EvSend (serialize (make_tunnel_close 7)) SO_Sent \<in> set (tn_events u)"
  proof -
    have "EvSend (serialize (make_tunnel_close 7)) SO_Sent \<in> set (filter is_send (tn_events u))"
      unfolding u(2) by simp
    then show ?thesis by simp
  qed
  have h: "mg_heap ?m ! 0 = \<lparr>mo_tunnel = demo0, mo_hook = None\<rparr>" "length (mg_heap ?m) = 2"
    "mg_tunnels ?m = [(7, 0)]" "mg_max ?m = 100"
    by (simp_all add: new_object_def demo_mgr_def demo_empty_def mgr_new_def)
  have "\<not> fires 0 u (erase_tunnel 7 ?m)" using h(1) by (simp add: fires_def)
  then have o: "on_tunnel 0 (force_close (Suc (Suc (Suc 0))) (const_env SO_Sent) RR_Abort) (erase_tunnel 7 ?m)
      = Some (put_tunnel 0 u (erase_tunnel 7 ?m))" "mg_tunnels (put_tunnel 0 u (erase_tunnel 7 ?m)) = []"
    using u(1) h by (simp_all add: on_tunnel_def tunnel_at_def) (simp add: erase_tunnel_def)
  have "tunnel_at 0 (put_tunnel 0 u (erase_tunnel 7 ?m)) = u"
    by (rule put_at) (simp add: h)
  then show ?thesis
    using o ev by (simp add: add_tunnel_def tunnel_count_def find_tunnel_def h insert_tunnel_def post_event_def tunnel_at_def)
qed

text \<open>
  The dead-peer verdict. A keepalive tick of the live generation declares the peer dead
  exactly when tunnels exist, the peer has been silent for longer than the deadline and no verdict
  stands; a manager without tunnels never does, and restarts the clock. A tick of the live generation
  always arms the next one; a tick of a retired generation changes nothing.
\<close>

lemma keepalive_verdict:
  assumes "0 \<le> mg_timeout_ns m"
  shows "let m1 = keepalive_tick h epoch now m;
             live = (ch_epoch (mg_keepalive m) = epoch \<and> ch_active (mg_keepalive m));
             dead = (live \<and> mg_tunnels m \<noteq> [] \<and> \<not> mg_peer_dead m
                     \<and> 0 < mg_last_pong_ns m \<and> mg_timeout_ns m < now - mg_last_pong_ns m)
         in mg_events m1 = mg_events m @ (if dead then [ME_PeerDead] else [])
          \<and> mg_peer_dead m1 = (mg_peer_dead m \<or> dead)
          \<and> (if live then ch_timer (mg_keepalive m1) = Some epoch else m1 = m)
          \<and> (live \<and> mg_tunnels m = [] \<longrightarrow> mg_last_pong_ns m1 = now)"
  using assms
  by (simp add: keepalive_tick_def keepalive_check_def chain_rearm_def tunnel_count_def post_event_def mgr_send_def Let_def)
    blast

end
