(* ===== verification/Inbound_Throttle.thy ===== *)
theory Inbound_Throttle
  imports Rate_Limiter Tox_Types Protocol
begin

text \<open>
  The inbound byte throttle of the server (\<open>detail::InboundByteThrottle\<close> and the functions around it in
  \<open>src/app/tunnel_server.cpp\<close>): packets of a friend that exceeds its byte budget wait in a queue and are
  replayed in order when the budget or a release rail lets them go. The state of one friend is the record
  \<open>FriendInbound\<close>; every operation runs on the inbound strand, so calls are atomic. The throttle and the
  limiter read the clock separately, so each call takes two times. What is handed to
  \<open>dispatch_inbound_frame\<close> is returned as the list of packets, in order.
\<close>

section \<open>Friend keys named by the rules\<close>

definition canonical_pk :: "string \<Rightarrow> string" where
  "canonical_pk pk = map toupper pk"

fun preseed_loop :: "string list \<Rightarrow> string set \<Rightarrow> string list" where
  "preseed_loop [] seen = []"
| "preseed_loop (pk # pks) seen =
     (let key = canonical_pk pk
      in case parse_public_key key of
           Inl _ \<Rightarrow> preseed_loop pks seen
         | Inr _ \<Rightarrow> if key \<in> seen then preseed_loop pks seen
                    else key # preseed_loop pks (insert key seen))"

definition friend_keys_to_preseed :: "string list \<Rightarrow> string list \<Rightarrow> string list" where
  "friend_keys_to_preseed rule_public_keys existing_friend_public_keys =
     preseed_loop rule_public_keys (canonical_pk ` set existing_friend_public_keys)"

section \<open>The throttle\<close>

definition kDefaultMaxBacklogBytes :: nat where "kDefaultMaxBacklogBytes = 32 * 1024 * 1024"
definition kDefaultMaxDeferral :: int where "kDefaultMaxDeferral = 60 * kNanosPerSec"
definition nanoseconds_max :: int where "nanoseconds_max = 2 ^ 63 - 1"

datatype Admission = Dispatch | Parked | Release

record Deferred =
  df_packet :: "byte list"
  df_data_bytes :: nat

record InboundByteThrottle =
  th_friend_pk :: string
  th_max_backlog :: nat
  th_deadline :: int            \<comment> \<open>\<open>release_deadline_ns_\<close>, 0 for none\<close>
  th_active :: bool
  th_releasing :: bool
  th_notice :: bool             \<comment> \<open>\<open>deadline_release_notice_\<close>\<close>
  th_backlog :: "Deferred list"
  th_bytes :: nat
  th_retry_after :: int

definition throttle_new :: "string \<Rightarrow> nat \<Rightarrow> InboundByteThrottle" where
  "throttle_new pk m =
     \<lparr>th_friend_pk = pk, th_max_backlog = m, th_deadline = 0, th_active = False, th_releasing = False,
      th_notice = False, th_backlog = [], th_bytes = 0, th_retry_after = 0\<rparr>"

definition set_active :: "bool \<Rightarrow> InboundByteThrottle \<Rightarrow> InboundByteThrottle" where
  "set_active a th = th\<lparr>th_active := a\<rparr>"

definition frame_bypasses_byte_throttle :: "FrameType \<Rightarrow> bool" where
  "frame_bypasses_byte_throttle t \<longleftrightarrow>
     t = PING \<or> t = PONG \<or> t = TUNNEL_ACK \<or> t = INFO_REQUEST \<or> t = INFO_REPLY \<or> t = FT_Unknown"

text \<open>The tail of \<open>admit\<close>: the packet goes to the back of the queue and the rails are tested.\<close>

definition enqueue_deferred ::
    "byte list \<Rightarrow> nat \<Rightarrow> int \<Rightarrow> int \<Rightarrow> InboundByteThrottle \<Rightarrow> Admission \<times> InboundByteThrottle" where
  "enqueue_deferred packet data_bytes max_wait now th =
     (let deadline = now + max max_wait 0;
          th1 = th\<lparr>th_bytes := th_bytes th + length packet,
                   th_backlog := th_backlog th @ [\<lparr>df_packet = packet, df_data_bytes = data_bytes\<rparr>],
                   th_deadline := (if th_deadline th = 0 \<or> deadline < th_deadline th then deadline
                                   else th_deadline th)\<rparr>
      in if th_bytes th1 > th_max_backlog th1 then (Release, th1\<lparr>th_releasing := True\<rparr>)
         else if th_deadline th1 \<le> now
         then (Release, th1\<lparr>th_releasing := True, th_notice := True\<rparr>)
         else (Parked, th1))"

definition admit ::
    "byte list \<Rightarrow> FrameType \<Rightarrow> nat \<Rightarrow> int \<Rightarrow> int \<Rightarrow> int \<Rightarrow> InboundByteThrottle \<Rightarrow> RateLimiter
     \<Rightarrow> Admission \<times> InboundByteThrottle \<times> RateLimiter" where
  "admit packet type data_bytes max_wait lnow now th rl =
     (if frame_bypasses_byte_throttle type then (Dispatch, th, rl)
      else if th_backlog th = []
      then if \<not> th_active th \<or> data_bytes = 0 then (Dispatch, th, rl)
           else let (ok, wait, rl1) = rl_try_consume_bytes (th_friend_pk th) data_bytes True lnow rl
                in if ok then (Dispatch, th, rl1)
                   else let (a, th1) = enqueue_deferred packet data_bytes max_wait now (th\<lparr>th_retry_after := wait\<rparr>)
                        in (a, th1, rl1)
      else let rl1 = (if th_active th \<and> data_bytes > 0 then rl_note_bytes_throttled (th_friend_pk th) rl else rl);
               (a, th1) = enqueue_deferred packet data_bytes max_wait now th
           in (a, th1, rl1))"

definition time_until_release :: "int \<Rightarrow> InboundByteThrottle \<Rightarrow> int" where
  "time_until_release now th =
     (if th_backlog th = [] \<or> th_deadline th = 0 then nanoseconds_max else max (th_deadline th - now) 0)"

definition take_deadline_release_notice :: "InboundByteThrottle \<Rightarrow> bool \<times> InboundByteThrottle" where
  "take_deadline_release_notice th = (th_notice th, th\<lparr>th_notice := False\<rparr>)"

definition settle_empty :: "InboundByteThrottle \<Rightarrow> InboundByteThrottle" where
  "settle_empty th = (if th_backlog th = [] then th\<lparr>th_releasing := False, th_deadline := 0\<rparr> else th)"

text \<open>The deadline rail at the head of \<open>next_ready\<close>.\<close>

definition latch_deadline :: "int \<Rightarrow> InboundByteThrottle \<Rightarrow> InboundByteThrottle" where
  "latch_deadline now th =
     (if \<not> th_releasing th \<and> th_deadline th \<noteq> 0 \<and> now \<ge> th_deadline th
      then th\<lparr>th_releasing := True, th_notice := True\<rparr> else th)"

definition pop_front :: "InboundByteThrottle \<Rightarrow> InboundByteThrottle" where
  "pop_front th =
     settle_empty (th\<lparr>th_bytes := th_bytes th - length (df_packet (hd (th_backlog th))),
                      th_backlog := tl (th_backlog th), th_retry_after := 0\<rparr>)"

definition next_ready ::
    "int \<Rightarrow> int \<Rightarrow> InboundByteThrottle \<Rightarrow> RateLimiter \<Rightarrow> byte list option \<times> InboundByteThrottle \<times> RateLimiter" where
  "next_ready lnow now th rl =
     (if th_backlog th = [] then (None, settle_empty th, rl)
      else let front = hd (th_backlog th); th1 = latch_deadline now th
           in if \<not> th_releasing th1 \<and> th_active th1 \<and> df_data_bytes front > 0
              then let (ok, wait, rl1) = rl_try_consume_bytes (th_friend_pk th1) (df_data_bytes front) False lnow rl
                   in if \<not> ok then (None, th1\<lparr>th_retry_after := wait\<rparr>, rl1)
                      else (Some (df_packet front), pop_front th1, rl1)
              else (Some (df_packet front), pop_front th1, rl))"

definition throttle_clear :: "InboundByteThrottle \<Rightarrow> InboundByteThrottle" where
  "throttle_clear th =
     th\<lparr>th_backlog := [], th_bytes := 0, th_releasing := False, th_deadline := 0, th_retry_after := 0\<rparr>"

section \<open>One friend's slot on the server\<close>

record FriendInbound =
  fi_throttle :: InboundByteThrottle
  fi_pk_hex :: string
  fi_retry_timer :: "int option"     \<comment> \<open>the pending wait in milliseconds and its \<open>retry_armed\<close> flag\<close>
  fi_enforcing :: bool

lemma next_ready_backlog:
  assumes "next_ready lnow now th rl = (Some p, th1, rl1)"
  shows "\<exists>d ds. th_backlog th = d # ds \<and> p = df_packet d \<and> th_backlog th1 = ds"
  using assms
  by (cases "th_backlog th")
     (auto simp: next_ready_def pop_front_def settle_empty_def latch_deadline_def Let_def
           split: if_splits prod.splits)

text \<open>The collecting loop of \<open>drain_inbound_backlog\<close>; \<open>clk i\<close> are the two clock readings of its \<open>i\<close>-th
  turn.\<close>

function collect_ready ::
    "(nat \<Rightarrow> int \<times> int) \<Rightarrow> nat \<Rightarrow> InboundByteThrottle \<Rightarrow> RateLimiter
     \<Rightarrow> byte list list \<times> InboundByteThrottle \<times> RateLimiter" where
  "collect_ready clk i th rl =
     (case next_ready (fst (clk i)) (snd (clk i)) th rl of
        (None, th1, rl1) \<Rightarrow> ([], th1, rl1)
      | (Some p, th1, rl1) \<Rightarrow>
          let (ps, th2, rl2) = collect_ready clk (Suc i) th1 rl1 in (p # ps, th2, rl2))"
  by pat_completeness auto
termination
  by (relation "measure (\<lambda>(_, _, th, _). length (th_backlog th))")
     (auto dest!: next_ready_backlog [OF sym])

declare collect_ready.simps [simp del]

definition arm_inbound_retry :: "int \<Rightarrow> FriendInbound \<Rightarrow> FriendInbound" where
  "arm_inbound_retry now e =
     (if fi_retry_timer e \<noteq> None \<or> th_backlog (fi_throttle e) = [] then e
      else let capped = min (min 1000000000 (th_retry_after (fi_throttle e)))
                            (time_until_release now (fi_throttle e));
               wait = max 1 (min 1000 ((capped + 999999) div 1000000))
           in e\<lparr>fi_retry_timer := Some wait\<rparr>)"

text \<open>A drain: collect, report the notice, hand the packets over, and arm the timer again. Packets
  shorter than two bytes or that do not decode are skipped, as on arrival.\<close>

definition replayable :: "byte list \<Rightarrow> bool" where
  "replayable p \<longleftrightarrow> length p \<ge> 2 \<and> (case deserialize (tl p) of Inr _ \<Rightarrow> True | Inl _ \<Rightarrow> False)"

definition drain_inbound_backlog ::
    "(nat \<Rightarrow> int \<times> int) \<Rightarrow> int \<Rightarrow> FriendInbound \<Rightarrow> RateLimiter
     \<Rightarrow> byte list list \<times> FriendInbound \<times> RateLimiter" where
  "drain_inbound_backlog clk now e rl =
     (let (ready, th1, rl1) = collect_ready clk 0 (fi_throttle e) rl;
          (_, th2) = take_deadline_release_notice th1
      in (filter replayable ready,
          arm_inbound_retry now (e\<lparr>fi_throttle := th2, fi_retry_timer := None\<rparr>), rl1))"

definition tightest_timeout :: "u32 \<Rightarrow> u32 \<Rightarrow> u32" where
  "tightest_timeout idle half =
     (let t = (if idle > 0 then idle else 0) in if half > 0 \<and> (t = 0 \<or> half < t) then half else t)"

text \<open>\<open>idle_ns\<close> is \<open>IdleNanos()\<close> of the frame's tunnel, \<open>None\<close> when the manager has no such tunnel.\<close>

definition inbound_deferral_budget :: "u32 \<Rightarrow> u32 \<Rightarrow> u32 \<Rightarrow> int option \<Rightarrow> int" where
  "inbound_deferral_budget idle half tick idle_ns =
     (let t = tightest_timeout idle half
      in if t = 0 then kDefaultMaxDeferral
         else let slack = (case idle_ns of
                             Some ns \<Rightarrow> uint t * kNanosPerSec - ns - 2 * (uint tick * kNanosPerSec)
                           | None \<Rightarrow> 0)
              in max (min kDefaultMaxDeferral slack) 0)"

definition frame_data_bytes :: "ProtocolFrame \<Rightarrow> nat" where
  "frame_data_bytes f = (if fr_type f = TUNNEL_DATA then length (as_tunnel_data f) else 0)"

definition may_park :: "ProtocolFrame \<Rightarrow> FriendInbound \<Rightarrow> bool" where
  "may_park f e \<longleftrightarrow>
     fi_enforcing e \<and> \<not> frame_bypasses_byte_throttle (fr_type f)
     \<and> (frame_data_bytes f > 0 \<or> th_backlog (fi_throttle e) \<noteq> [])"

text \<open>The throttle stage of \<open>on_lossless_packet\<close> for a friend with a slot: what is handed on at once.
  \<open>budget\<close> is \<open>inbound_deferral_budget\<close> of the frame's tunnel.\<close>

definition throttle_packet ::
    "(u16 \<Rightarrow> int) \<Rightarrow> int \<Rightarrow> int \<Rightarrow> (nat \<Rightarrow> int \<times> int) \<Rightarrow> int \<Rightarrow> byte list \<Rightarrow> ProtocolFrame \<Rightarrow> FriendInbound
     \<Rightarrow> RateLimiter \<Rightarrow> byte list list \<times> FriendInbound \<times> RateLimiter" where
  "throttle_packet budget lnow now clk now2 packet f e rl =
     (let max_wait = (if may_park f e then budget (fr_tunnel_id f) else kDefaultMaxDeferral);
          (a, th1, rl1) = admit packet (fr_type f) (frame_data_bytes f) max_wait lnow now (fi_throttle e) rl;
          e1 = e\<lparr>fi_throttle := th1\<rparr>
      in case a of
           Dispatch \<Rightarrow> ([packet], e1, rl1)
         | Parked \<Rightarrow> ([], arm_inbound_retry now2 e1, rl1)
         | Release \<Rightarrow> drain_inbound_backlog clk now2 e1 rl1)"

text \<open>One friend's turn in \<open>refresh_inbound_throttles\<close> and the slot part of \<open>setup_tunnel_manager\<close>.\<close>

definition slot_spec :: "FriendInbound \<Rightarrow> RateLimiter \<Rightarrow> FriendInbound" where
  "slot_spec e rl =
     (let spec = rl_effective_spec (fi_pk_hex e) rl
      in e\<lparr>fi_enforcing := (byte_limiting_engaged spec \<and> rs_mode spec = RL_Enforce),
           fi_throttle := set_active (byte_limiting_engaged spec) (fi_throttle e)\<rparr>)"

definition slot_new :: "string \<Rightarrow> FriendInbound" where
  "slot_new pk = \<lparr>fi_throttle = throttle_new pk kDefaultMaxBacklogBytes, fi_pk_hex = pk, fi_retry_timer = None,
                  fi_enforcing = False\<rparr>"

definition slot_connect :: "string \<Rightarrow> FriendInbound option \<Rightarrow> RateLimiter \<Rightarrow> FriendInbound" where
  "slot_connect pk slot rl = slot_spec (case slot of Some e \<Rightarrow> e | None \<Rightarrow> slot_new pk) rl"

definition refresh_slot ::
    "(nat \<Rightarrow> int \<times> int) \<Rightarrow> int \<Rightarrow> FriendInbound \<Rightarrow> RateLimiter \<Rightarrow> byte list list \<times> FriendInbound \<times> RateLimiter" where
  "refresh_slot clk now e rl =
     (let e1 = slot_spec e rl
      in if th_backlog (fi_throttle e1) = [] then ([], e1, rl) else drain_inbound_backlog clk now e1 rl)"

section \<open>Runs of one slot\<close>

text \<open>The packet handler up to the dispatch: packets that are too short or do not decode are dropped.\<close>

definition inbound_packet ::
    "(u16 \<Rightarrow> int) \<Rightarrow> int \<Rightarrow> int \<Rightarrow> (nat \<Rightarrow> int \<times> int) \<Rightarrow> int \<Rightarrow> byte list \<Rightarrow> FriendInbound \<Rightarrow> RateLimiter
     \<Rightarrow> byte list list \<times> FriendInbound \<times> RateLimiter" where
  "inbound_packet budget lnow now clk now2 packet e rl =
     (if length packet < 2 then ([], e, rl)
      else case deserialize (tl packet) of
             Inl _ \<Rightarrow> ([], e, rl)
           | Inr f \<Rightarrow> throttle_packet budget lnow now clk now2 packet f e rl)"

text \<open>What can happen to a slot between its creation and the friend's departure. Other friends and the
  reload share the limiter, so each event brings the limiter it meets.\<close>

datatype inbound_event =
    Arrive "u16 \<Rightarrow> int" int int "nat \<Rightarrow> int \<times> int" int "byte list" RateLimiter
  | Timer "nat \<Rightarrow> int \<times> int" int RateLimiter
  | Refresh "nat \<Rightarrow> int \<times> int" int RateLimiter
  | Reconnect RateLimiter

fun slot_event :: "inbound_event \<Rightarrow> FriendInbound \<Rightarrow> byte list list \<times> FriendInbound" where
  "slot_event (Arrive budget lnow now clk now2 p rl) e =
     (let (ps, e1, _) = inbound_packet budget lnow now clk now2 p e rl in (ps, e1))"
| "slot_event (Timer clk now rl) e = (let (ps, e1, _) = drain_inbound_backlog clk now e rl in (ps, e1))"
| "slot_event (Refresh clk now rl) e = (let (ps, e1, _) = refresh_slot clk now e rl in (ps, e1))"
| "slot_event (Reconnect rl) e = ([], slot_connect [] (Some e) rl)"

primrec slot_run :: "inbound_event list \<Rightarrow> FriendInbound \<Rightarrow> byte list list \<times> FriendInbound" where
  "slot_run [] e = ([], e)"
| "slot_run (v # vs) e =
     (let (ps, e1) = slot_event v e; (qs, e2) = slot_run vs e1 in (ps @ qs, e2))"

fun arrival :: "inbound_event \<Rightarrow> byte list list" where
  "arrival (Arrive _ _ _ _ _ p _) = [p]"
| "arrival _ = []"

definition frame_kind :: "byte list \<Rightarrow> FrameType option" where
  "frame_kind p = (if length p < 2 then None else case deserialize (tl p) of Inr f \<Rightarrow> Some (fr_type f) | Inl _ \<Rightarrow> None)"

definition ordered_packet :: "byte list \<Rightarrow> bool" where
  "ordered_packet p \<longleftrightarrow> (case frame_kind p of Some t \<Rightarrow> \<not> frame_bypasses_byte_throttle t | None \<Rightarrow> False)"

definition exempt_packet :: "byte list \<Rightarrow> bool" where
  "exempt_packet p \<longleftrightarrow> (case frame_kind p of Some t \<Rightarrow> frame_bypasses_byte_throttle t | None \<Rightarrow> False)"

abbreviation queued :: "FriendInbound \<Rightarrow> byte list list" where
  "queued e \<equiv> map df_packet (th_backlog (fi_throttle e))"

lemma ordered_replayable: "ordered_packet p \<Longrightarrow> replayable p"
  by (auto simp: ordered_packet_def frame_kind_def replayable_def split: option.splits if_splits sum.splits)

lemma ordered_not_exempt: "ordered_packet p \<Longrightarrow> \<not> exempt_packet p"
  by (auto simp: ordered_packet_def exempt_packet_def split: option.splits)

text \<open>The state of the queue that the rest of the development relies on.\<close>

definition queue_wf :: "InboundByteThrottle \<Rightarrow> bool" where
  "queue_wf th \<longleftrightarrow>
     list_all (\<lambda>d. ordered_packet (df_packet d)) (th_backlog th)
     \<and> th_bytes th = sum_list (map (\<lambda>d. length (df_packet d)) (th_backlog th))"

definition throttle_ok :: "InboundByteThrottle \<Rightarrow> bool" where
  "throttle_ok th \<longleftrightarrow>
     queue_wf th \<and> \<not> th_releasing th \<and> th_max_backlog th = kDefaultMaxBacklogBytes
     \<and> th_bytes th \<le> th_max_backlog th
     \<and> (th_backlog th = [] \<longrightarrow> th_deadline th = 0)"

lemma pop_front_wf: "queue_wf th \<Longrightarrow> th_backlog th = d # ds \<Longrightarrow> queue_wf (pop_front th)"
  by (simp add: queue_wf_def pop_front_def settle_empty_def)

lemma latch_same [simp]:
  "th_backlog (latch_deadline now th) = th_backlog th" "th_bytes (latch_deadline now th) = th_bytes th"
  "th_max_backlog (latch_deadline now th) = th_max_backlog th" "th_active (latch_deadline now th) = th_active th"
  "th_deadline (latch_deadline now th) = th_deadline th" "th_friend_pk (latch_deadline now th) = th_friend_pk th"
  by (simp_all add: latch_deadline_def)

lemma next_ready_None:
  assumes "next_ready lnow now th rl = (None, th1, rl1)"
  shows "th_backlog th1 = th_backlog th" "th_bytes th1 = th_bytes th" "th_max_backlog th1 = th_max_backlog th"
    "th_releasing th1 \<Longrightarrow> False" "th_backlog th1 = [] \<Longrightarrow> th_deadline th1 = 0"
    "th_backlog th \<noteq> [] \<Longrightarrow> \<not> th_releasing (latch_deadline now th)"
  using assms
  by (auto simp: next_ready_def settle_empty_def Let_def split: if_splits prod.splits)

lemma next_ready_Some:
  assumes "next_ready lnow now th rl = (Some p, th1, rl1)"
  shows "\<exists>d ds. th_backlog th = d # ds \<and> p = df_packet d \<and> th1 = pop_front (latch_deadline now th)"
  using assms
  by (cases "th_backlog th") (auto simp: next_ready_def Let_def split: if_splits prod.splits)

lemma queue_wf_latch [simp]: "queue_wf (latch_deadline now th) = queue_wf th"
  by (simp add: queue_wf_def)

lemma pop_front_fields:
  "th_backlog (pop_front th) = tl (th_backlog th)" "th_max_backlog (pop_front th) = th_max_backlog th"
  "th_bytes (pop_front th) \<le> th_bytes th"
  "th_releasing (pop_front th) = (th_releasing th \<and> tl (th_backlog th) \<noteq> [])"
  "th_deadline (pop_front th) = (if tl (th_backlog th) = [] then 0 else th_deadline th)"
  by (simp_all add: pop_front_def settle_empty_def)

text \<open>A collecting loop splits the queue in front of what stays, and never leaves the release latch set.\<close>

lemma collect_ready_split:
  assumes "collect_ready clk i th rl = (ps, th1, rl1)" "queue_wf th"
  shows "map df_packet (th_backlog th) = ps @ map df_packet (th_backlog th1) \<and> queue_wf th1
    \<and> \<not> th_releasing th1 \<and> th_max_backlog th1 = th_max_backlog th \<and> th_bytes th1 \<le> th_bytes th
    \<and> (th_backlog th1 = [] \<longrightarrow> th_deadline th1 = 0) \<and> list_all ordered_packet ps"
  using assms
proof (induction clk i th rl arbitrary: ps th1 rl1 rule: collect_ready.induct)
  case (1 clk i th rl)
  show ?case
  proof (cases "next_ready (fst (clk i)) (snd (clk i)) th rl")
    case (fields p tha rla)
    show ?thesis
    proof (cases p)
      case None
      with fields 1(2) have "ps = []" "th1 = tha" by (auto simp: collect_ready.simps)
      moreover have "queue_wf tha" using next_ready_None(1,2) [OF fields [unfolded None]] 1(3)
        by (simp add: queue_wf_def)
      ultimately show ?thesis using next_ready_None [OF fields [unfolded None]] by auto
    next
      case (Some pk)
      note nr = next_ready_Some [OF fields [unfolded Some]]
      then obtain d ds where d: "th_backlog th = d # ds" "pk = df_packet d"
        "tha = pop_front (latch_deadline (snd (clk i)) th)" by blast
      obtain qs thb rlb where c: "collect_ready clk (Suc i) tha rla = (qs, thb, rlb)" by (metis prod_cases3)
      with fields Some 1(2) have ps: "ps = pk # qs" "th1 = thb"
        by (auto simp: collect_ready.simps [of clk i])
      have wf: "queue_wf tha" using pop_front_wf [of "latch_deadline (snd (clk i)) th" d ds] d 1(3) by simp
      have "ordered_packet pk" using 1(3) d by (simp add: queue_wf_def)
      moreover have "th_bytes tha \<le> th_bytes th" "th_backlog tha = ds" "th_max_backlog tha = th_max_backlog th"
        using pop_front_fields [of "latch_deadline (snd (clk i)) th"] d by simp_all
      ultimately show ?thesis
        using 1(1) [OF fields [symmetric] Some refl c wf] ps d(1,2) by auto
    qed
  qed
qed

text \<open>When a rail is latched, or the deadline has passed, the loop empties the queue.\<close>

lemma collect_ready_released:
  assumes "collect_ready clk i th rl = (ps, th1, rl1)" "queue_wf th"
    "th_releasing th \<or> th_deadline th \<noteq> 0 \<and> (\<forall>j. th_deadline th \<le> snd (clk j))"
  shows "th_backlog th1 = []"
  using assms
proof (induction clk i th rl arbitrary: ps th1 rl1 rule: collect_ready.induct)
  case (1 clk i th rl)
  show ?case
  proof (cases "next_ready (fst (clk i)) (snd (clk i)) th rl")
    case (fields p tha rla)
    have latched: "th_releasing (latch_deadline (snd (clk i)) th)"
      using 1(4) by (auto simp: latch_deadline_def)
    show ?thesis
    proof (cases p)
      case None
      with fields 1(2) latched show ?thesis
        using next_ready_None [OF fields [unfolded None]] by (auto simp: collect_ready.simps)
    next
      case (Some pk)
      then obtain d ds where d: "th_backlog th = d # ds" "tha = pop_front (latch_deadline (snd (clk i)) th)"
        using next_ready_Some [OF fields [unfolded Some]] by blast
      obtain qs thb rlb where c: "collect_ready clk (Suc i) tha rla = (qs, thb, rlb)" by (metis prod_cases3)
      have wf: "queue_wf tha" using pop_front_wf [of "latch_deadline (snd (clk i)) th" d ds] d 1(3) by simp
      have th1: "th1 = thb" using fields Some 1(2) c by (auto simp: collect_ready.simps [of clk i])
      show ?thesis
      proof (cases ds)
        case Nil
        then have "th_backlog tha = []" using d by (simp add: pop_front_fields)
        then show ?thesis using collect_ready_split [OF c wf] th1 by simp
      next
        case Cons
        then have "th_releasing tha" using d latched by (simp add: pop_front_fields)
        then show ?thesis using 1(1) [OF fields [symmetric] Some refl c wf] th1 by simp
      qed
    qed
  qed
qed

lemma arm_same [simp]:
  "fi_throttle (arm_inbound_retry now e) = fi_throttle e" "fi_pk_hex (arm_inbound_retry now e) = fi_pk_hex e"
  "fi_enforcing (arm_inbound_retry now e) = fi_enforcing e"
  by (simp_all add: arm_inbound_retry_def Let_def)

lemma throttle_ok_notice [simp]: "throttle_ok (th\<lparr>th_notice := b\<rparr>) = throttle_ok th"
  by (simp add: throttle_ok_def queue_wf_def)

lemma throttle_ok_active [simp]: "throttle_ok (th\<lparr>th_active := b\<rparr>) = throttle_ok th"
  by (simp add: throttle_ok_def queue_wf_def)

lemma drain_spec:
  assumes "drain_inbound_backlog clk now e rl = (ps, e1, rl1)" "queue_wf (fi_throttle e)"
    "th_bytes (fi_throttle e) \<le> th_max_backlog (fi_throttle e) \<or> th_releasing (fi_throttle e)"
    "th_max_backlog (fi_throttle e) = kDefaultMaxBacklogBytes"
  shows "queued e = ps @ queued e1 \<and> list_all ordered_packet ps \<and> throttle_ok (fi_throttle e1)"
proof -
  obtain qs th1 where c: "collect_ready clk 0 (fi_throttle e) rl = (qs, th1, rl1)"
    and ps: "ps = filter replayable qs" and e1: "fi_throttle e1 = th1\<lparr>th_notice := False\<rparr>"
    using assms(1) by (auto simp: drain_inbound_backlog_def take_deadline_release_notice_def Let_def split: prod.splits)
  note sp = collect_ready_split [OF c assms(2)]
  then have ps': "ps = qs"
    using ps by (auto simp: filter_id_conv list_all_iff intro: ordered_replayable)
  have "th_bytes th1 \<le> th_max_backlog th1"
  proof (cases "th_releasing (fi_throttle e)")
    case True
    then have "th_backlog th1 = []" using collect_ready_released [OF c assms(2)] by simp
    then show ?thesis using sp by (simp add: queue_wf_def)
  next
    case False
    then show ?thesis using sp assms(3) by auto
  qed
  then show ?thesis using sp ps' e1 assms(4) by (auto simp: throttle_ok_def queue_wf_def)
qed

lemma enqueue_spec:
  assumes "enqueue_deferred p n w now th = (a, th1)" "queue_wf th" "ordered_packet p"
    "th_max_backlog th = kDefaultMaxBacklogBytes" "\<not> th_releasing th"
  shows "map df_packet (th_backlog th1) = map df_packet (th_backlog th) @ [p]" "queue_wf th1" "a \<noteq> Dispatch"
    "a = Parked \<Longrightarrow> throttle_ok th1"
    "a = Release \<Longrightarrow> th_releasing th1 \<and> th_max_backlog th1 = kDefaultMaxBacklogBytes"
  using assms
  by (auto simp: enqueue_deferred_def Let_def queue_wf_def throttle_ok_def split: if_splits)

lemma admit_spec:
  assumes "admit p t n w lnow now th rl = (a, th1, rl1)" "throttle_ok th"
    "\<not> frame_bypasses_byte_throttle t \<Longrightarrow> ordered_packet p"
  shows "a = Dispatch \<and> th1 = th \<and> (frame_bypasses_byte_throttle t \<or> th_backlog th = [])
    \<or> \<not> frame_bypasses_byte_throttle t
      \<and> map df_packet (th_backlog th1) = map df_packet (th_backlog th) @ [p] \<and> queue_wf th1
      \<and> (a = Parked \<and> throttle_ok th1
        \<or> a = Release \<and> th_releasing th1 \<and> th_max_backlog th1 = kDefaultMaxBacklogBytes)"
proof (cases "a = Dispatch \<and> th1 = th \<and> (frame_bypasses_byte_throttle t \<or> th_backlog th = [])")
  case False
  have "\<exists>w'. enqueue_deferred p n w now (th\<lparr>th_retry_after := w'\<rparr>) = (a, th1)"
  proof (cases "th_backlog th = []")
    case True
    with False show ?thesis using assms(1) by (auto simp: admit_def Let_def split: if_splits prod.splits)
  next
    case nempty: False
    with False have "enqueue_deferred p n w now (th\<lparr>th_retry_after := th_retry_after th\<rparr>) = (a, th1)"
      using assms(1) by (auto simp: admit_def Let_def split: if_splits prod.splits)
    then show ?thesis by blast
  qed
  then obtain w' where e: "enqueue_deferred p n w now (th\<lparr>th_retry_after := w'\<rparr>) = (a, th1)" ..
  have nb: "\<not> frame_bypasses_byte_throttle t"
    using False assms(1) by (auto simp: admit_def)
  have ok: "queue_wf (th\<lparr>th_retry_after := w'\<rparr>)" using assms(2) by (simp add: throttle_ok_def queue_wf_def)
  note sp = enqueue_spec [OF e ok assms(3) [OF nb]]
  show ?thesis using sp assms(2) nb by (cases a) (auto simp: throttle_ok_def)
qed simp

lemma filter_ordered: "list_all ordered_packet ps \<Longrightarrow> filter ordered_packet ps = ps \<and> filter exempt_packet ps = []"
  by (induction ps) (auto dest: ordered_not_exempt)

lemma frame_kind_Some:
  "\<not> length p < 2 \<Longrightarrow> deserialize (tl p) = Inr f \<Longrightarrow> frame_kind p = Some (fr_type f)"
  by (simp add: frame_kind_def)

lemma drain_event:
  assumes "drain_inbound_backlog clk now e rl = (ps, e1, rl1)" "throttle_ok (fi_throttle e)"
  shows "throttle_ok (fi_throttle e1) \<and> queued e = filter ordered_packet ps @ queued e1 \<and> filter exempt_packet ps = []"
  using drain_spec [OF assms(1)] assms(2) by (auto simp: throttle_ok_def filter_ordered)

lemma throttle_packet_spec:
  assumes "throttle_packet b lnow now clk now2 p f e rl = (ps, e1, rl1)" "throttle_ok (fi_throttle e)"
    "frame_kind p = Some (fr_type f)"
  shows "throttle_ok (fi_throttle e1) \<and> queued e @ filter ordered_packet [p] = filter ordered_packet ps @ queued e1
    \<and> filter exempt_packet ps = filter exempt_packet [p]"
proof -
  define w where "w = (if may_park f e then b (fr_tunnel_id f) else kDefaultMaxDeferral)"
  obtain a th1 rla where ad: "admit p (fr_type f) (frame_data_bytes f) w lnow now (fi_throttle e) rl = (a, th1, rla)"
    by (metis prod_cases3)
  have op: "ordered_packet p = (\<not> frame_bypasses_byte_throttle (fr_type f))"
    "exempt_packet p = frame_bypasses_byte_throttle (fr_type f)"
    using assms(3) by (simp_all add: ordered_packet_def exempt_packet_def)
  have sp: "a = Dispatch \<and> th1 = fi_throttle e \<and> (frame_bypasses_byte_throttle (fr_type f) \<or> th_backlog (fi_throttle e) = [])
    \<or> ordered_packet p
      \<and> map df_packet (th_backlog th1) = queued e @ [p] \<and> queue_wf th1
      \<and> (a = Parked \<and> throttle_ok th1
        \<or> a = Release \<and> th_releasing th1 \<and> th_max_backlog th1 = kDefaultMaxBacklogBytes)"
    using admit_spec [OF ad assms(2)] op by blast
  show ?thesis
  proof (cases a)
    case Dispatch
    with sp assms(1) ad have "ps = [p]" "fi_throttle e1 = fi_throttle e"
      by (auto simp: throttle_packet_def w_def Let_def)
    then show ?thesis using sp Dispatch assms(2) op by auto
  next
    case Parked
    with assms(1) ad have "ps = []" "fi_throttle e1 = th1"
      by (auto simp: throttle_packet_def w_def Let_def)
    then show ?thesis using sp Parked op by auto
  next
    case Release
    with assms(1) ad have d: "drain_inbound_backlog clk now2 (e\<lparr>fi_throttle := th1\<rparr>) rla = (ps, e1, rl1)"
      by (auto simp: throttle_packet_def w_def Let_def)
    then show ?thesis using drain_spec [OF d] sp Release op by (auto simp: filter_ordered)
  qed
qed

lemma slot_event_spec:
  assumes "slot_event v e = (ps, e1)" "throttle_ok (fi_throttle e)"
  shows "throttle_ok (fi_throttle e1)
    \<and> queued e @ filter ordered_packet (arrival v) = filter ordered_packet ps @ queued e1
    \<and> filter exempt_packet ps = filter exempt_packet (arrival v)"
proof (cases v)
  case (Arrive b lnow now clk now2 p rl)
  show ?thesis
  proof (cases "length p < 2 \<or> (\<exists>x. deserialize (tl p) = Inl x)")
    case True
    then have "frame_kind p = None" by (auto simp: frame_kind_def)
    moreover from True have "inbound_packet b lnow now clk now2 p e rl = ([], e, rl)"
      by (auto simp: inbound_packet_def)
    ultimately show ?thesis
      using Arrive assms by (auto simp: ordered_packet_def exempt_packet_def)
  next
    case False
    then obtain f where f: "deserialize (tl p) = Inr f" by (meson sum.exhaust)
    obtain rl1 where "throttle_packet b lnow now clk now2 p f e rl = (ps, e1, rl1)"
      using Arrive assms(1) False f by (auto simp: inbound_packet_def split: prod.splits)
    from throttle_packet_spec [OF this assms(2) frame_kind_Some] False f Arrive show ?thesis by auto
  qed
next
  case (Timer clk now rl)
  then show ?thesis using assms by (auto dest!: drain_event split: prod.splits)
next
  case (Refresh clk now rl)
  let ?e = "slot_spec e rl"
  have ok: "throttle_ok (fi_throttle ?e)" "queued ?e = queued e"
    using assms(2) by (simp_all add: slot_spec_def set_active_def Let_def)
  then show ?thesis using assms Refresh drain_event [OF _ ok(1)]
    by (auto simp: refresh_slot_def Let_def split: prod.splits if_splits)
next
  case (Reconnect rl)
  then show ?thesis using assms by (auto simp: slot_connect_def slot_spec_def set_active_def Let_def)
qed

lemma slot_run_spec:
  assumes "slot_run vs e = (ps, e1)" "throttle_ok (fi_throttle e)"
  shows "throttle_ok (fi_throttle e1)
    \<and> queued e @ filter ordered_packet (concat (map arrival vs)) = filter ordered_packet ps @ queued e1
    \<and> filter exempt_packet ps = filter exempt_packet (concat (map arrival vs))"
  using assms
proof (induction vs arbitrary: e ps)
  case (Cons v vs)
  obtain qs ea where s: "slot_event v e = (qs, ea)" by force
  obtain rs where r: "slot_run vs ea = (rs, e1)" "ps = qs @ rs"
    using Cons(2) s by (auto split: prod.splits)
  note a = slot_event_spec [OF s Cons(3)]
  with Cons.IH [OF r(1)] r(2) show ?case
    by simp (metis append_assoc)
qed simp

lemma slot_new_ok: "throttle_ok (fi_throttle (slot_connect pk None rl))"
  by (simp add: slot_connect_def slot_spec_def slot_new_def throttle_new_def set_active_def throttle_ok_def
      queue_wf_def Let_def)

lemma slot_new_queued: "queued (slot_connect pk None rl) = []"
  by (simp add: slot_connect_def slot_spec_def slot_new_def throttle_new_def set_active_def Let_def)

section \<open>Properties\<close>

text \<open>Claim C36: deferral neither loses nor reorders the stream of a friend. In any run of a slot since the
  friend connected (arrivals, retry timers, rule reloads, repeated connect events, with any clock and any
  state of the shared limiter), the frames with a place in the stream that were handed on, followed by
  those still queued, are exactly those that arrived, in order; and the exempt frames are handed on in the
  order they arrived, none held back.\<close>

theorem deferral_keeps_stream:
  "filter ordered_packet (fst (slot_run vs (slot_connect pk None rl))) @ queued (snd (slot_run vs (slot_connect pk None rl)))
     = filter ordered_packet (concat (map arrival vs))
   \<and> filter exempt_packet (fst (slot_run vs (slot_connect pk None rl))) = filter exempt_packet (concat (map arrival vs))"
  using slot_run_spec [OF surjective_pairing slot_new_ok, of vs pk rl] slot_new_queued by simp

text \<open>The queue of a friend is bounded. After every event the deferred bytes are accounted
  exactly and stay within the memory rail of 32 MiB, whatever the friend sends.\<close>

theorem backlog_within_rail:
  "th_bytes (fi_throttle (snd (slot_run vs (slot_connect pk None rl))))
     = sum_list (map length (queued (snd (slot_run vs (slot_connect pk None rl)))))
   \<and> th_bytes (fi_throttle (snd (slot_run vs (slot_connect pk None rl)))) \<le> kDefaultMaxBacklogBytes"
  using slot_run_spec [OF surjective_pairing slot_new_ok, of vs pk rl]
  by (simp add: throttle_ok_def queue_wf_def comp_def)

text \<open>Concrete inputs: a friend \<open>ab\<close> whose bucket of 65535 bytes is empty and refills a thousand bytes a
  second, and a packet of the tunnel 5 with one byte of data.\<close>

definition ex_rate :: RateLimitSpec where
  "ex_rate = default_spec\<lparr>rs_mode := RL_Enforce, rs_bytes_per_sec := 1, rs_bytes_burst := 65535\<rparr>"

definition ex_empty_limiter :: RateLimiter where
  "ex_empty_limiter = put_bucket ''ab'' ((full_bucket ex_rate no_override)\<lparr>bk_bytes_tokens := 0, bk_bytes_refill_ns := 1\<rparr>) new_limiter"

definition ex_data_packet :: "byte list" where
  "ex_data_packet = [0xA0, 2, 0, 5, 0, 1, 7]"

definition ex_arrival :: "int \<Rightarrow> int \<Rightarrow> inbound_event" where
  "ex_arrival budget now = Arrive (\<lambda>_. budget) 2 now (\<lambda>_. (2, now)) now ex_data_packet ex_empty_limiter"

lemma ex_data_frame:
  "deserialize (tl ex_data_packet) = Inr \<lparr>fr_type = TUNNEL_DATA, fr_tunnel_id = 5, fr_payload = [], fr_payload_shared = Some [7]\<rparr>"
  by (simp add: ex_data_packet_def deserialize_def kFrameHeaderSize_def is_valid_frame_type_def frame_type_of_byte_def
      read_u16_be_def new_frame_def)

definition ex_refused_limiter :: RateLimiter where
  "ex_refused_limiter = snd (snd (rl_try_consume_bytes ''ab'' (Suc 0) True 2 ex_empty_limiter))"

lemma ex_refused: "rl_try_consume_bytes ''ab'' (Suc 0) True 2 ex_empty_limiter = (False, 1000000000, ex_refused_limiter)"
  by (simp add: ex_refused_limiter_def rl_try_consume_bytes_def ex_empty_limiter_def normalise_key_def tolower_def Let_def ex_rate_def
      bucket_refill_def refill_one_def full_bucket_def consume_bytes_def default_spec_def kNanosPerSec_def)

lemma ex_slot: "slot_connect ''ab'' None ex_empty_limiter =
    (slot_new ''ab'')\<lparr>fi_enforcing := True, fi_throttle := set_active True (fi_throttle (slot_new ''ab''))\<rparr>"
  by (simp add: slot_connect_def slot_spec_def rl_effective_spec_def ex_empty_limiter_def put_bucket_def Let_def
      normalise_key_def tolower_def full_bucket_def ex_rate_def default_spec_def byte_limiting_engaged_def slot_new_def)

lemmas ex_event_defs = slot_event.simps inbound_packet_def ex_data_frame throttle_packet_def may_park_def
  frame_data_bytes_def frame_bypasses_byte_throttle_def as_tunnel_data_def admit_def enqueue_deferred_def
  arm_inbound_retry_def time_until_release_def set_active_def slot_new_def throttle_new_def
  kDefaultMaxBacklogBytes_def nanoseconds_max_def ex_arrival_def

lemma ex_first: "slot_event (ex_arrival 60000000000 5000000000) (slot_connect ''ab'' None ex_empty_limiter) =
   ([], \<lparr>fi_throttle = (set_active True (fi_throttle (slot_new ''ab'')))
           \<lparr>th_deadline := 65000000000, th_backlog := [\<lparr>df_packet = ex_data_packet, df_data_bytes = 1\<rparr>],
            th_bytes := 7, th_retry_after := 1000000000\<rparr>,
         fi_pk_hex = ''ab'', fi_retry_timer = Some 1000, fi_enforcing = True\<rparr>)"
  by (simp add: ex_slot ex_event_defs ex_refused Let_def) (simp add: ex_data_packet_def)

text \<open>An example: a retry timer that is already armed is not shortened by a later, tighter deadline. The first
  deferred frame may wait a minute and arms the timer for a second; a second frame whose tunnel can wait
  only 50 milliseconds is parked behind it, and the pending timer still sleeps the whole second, past the
  release deadline.\<close>

theorem armed_timer_ignores_tighter_deadline:
  "snd (slot_run [ex_arrival 60000000000 5000000000, ex_arrival 50000000 5000001000]
          (slot_connect ''ab'' None ex_empty_limiter)) =
   \<lparr>fi_throttle = (set_active True (fi_throttle (slot_new ''ab'')))
      \<lparr>th_deadline := 5050001000,
       th_backlog := [\<lparr>df_packet = ex_data_packet, df_data_bytes = 1\<rparr>, \<lparr>df_packet = ex_data_packet, df_data_bytes = 1\<rparr>],
       th_bytes := 14, th_retry_after := 1000000000\<rparr>,
    fi_pk_hex = ''ab'', fi_retry_timer = Some 1000, fi_enforcing = True\<rparr>"
proof -
  have "slot_event (ex_arrival 50000000 5000001000)
      (snd (slot_event (ex_arrival 60000000000 5000000000) (slot_connect ''ab'' None ex_empty_limiter))) =
    ([], \<lparr>fi_throttle = (set_active True (fi_throttle (slot_new ''ab'')))
           \<lparr>th_deadline := 5050001000,
            th_backlog := [\<lparr>df_packet = ex_data_packet, df_data_bytes = 1\<rparr>, \<lparr>df_packet = ex_data_packet, df_data_bytes = 1\<rparr>],
            th_bytes := 14, th_retry_after := 1000000000\<rparr>,
          fi_pk_hex = ''ab'', fi_retry_timer = Some 1000, fi_enforcing = True\<rparr>)"
    unfolding ex_first by (simp add: ex_event_defs Let_def) (simp add: ex_data_packet_def)
  then show ?thesis using ex_first by simp
qed

text \<open>A drain at or after the release deadline, or with a rail latched, hands on the whole queue in
  order, whatever the budget says, and re-arms no timer.\<close>

theorem drain_at_deadline_empties:
  assumes "slot_run vs (slot_connect pk None rl) = (ps, e)"
    and "th_deadline (fi_throttle e) \<noteq> 0" and "\<And>i. th_deadline (fi_throttle e) \<le> snd (clk i)"
  shows "\<exists>e1 rl2. drain_inbound_backlog clk now e rl1 = (queued e, e1, rl2) \<and> queued e1 = [] \<and> fi_retry_timer e1 = None"
proof -
  have ok: "throttle_ok (fi_throttle e)" using slot_run_spec [OF assms(1) slot_new_ok] by simp
  obtain qs th1 rl2 where c: "collect_ready clk 0 (fi_throttle e) rl1 = (qs, th1, rl2)" by (metis prod_cases3)
  have emp: "th_backlog th1 = []"
    by (rule collect_ready_released [OF c]) (use ok assms(2,3) in \<open>auto simp: throttle_ok_def\<close>)
  obtain ps1 e1 rl3 where d: "drain_inbound_backlog clk now e rl1 = (ps1, e1, rl3)" by (metis prod_cases3)
  have "th_backlog (fi_throttle e1) = []" "fi_retry_timer e1 = None"
    using d c emp by (auto simp: drain_inbound_backlog_def take_deadline_release_notice_def arm_inbound_retry_def Let_def)
  moreover have "queued e = ps1 @ queued e1"
    using drain_spec [OF d] ok by (auto simp: throttle_ok_def)
  ultimately show ?thesis using d by auto
qed

section \<open>Pre-seeding\<close>

lemma preseed_loop_spec:
  "set (preseed_loop pks seen) = {canonical_pk pk | pk. pk \<in> set pks \<and> (\<exists>k. parse_public_key (canonical_pk pk) = Inr k)} - seen
   \<and> distinct (preseed_loop pks seen)"
  by (induction pks seen rule: preseed_loop.induct) (auto simp: Let_def split: sum.splits)

text \<open>The keys to add are exactly the well-formed rule keys, in canonical form, that the friend list does not
  have yet, each once.\<close>

theorem preseed_exact:
  "distinct (friend_keys_to_preseed rules friends)
   \<and> set (friend_keys_to_preseed rules friends) =
       {k. \<exists>pk \<in> set rules. k = canonical_pk pk \<and> (\<exists>b. parse_public_key k = Inr b)} - canonical_pk ` set friends"
  using preseed_loop_spec [of rules "canonical_pk ` set friends"] by (auto simp: friend_keys_to_preseed_def)

end
