(* ===== verification/Open_Ack_Gate.thy ===== *)
theory Open_Ack_Gate
  imports Tunnel_State "HOL-Library.Multiset"
begin

text \<open>
  The handshake objects of a server open (\<open>detail::PendingOpen\<close>, \<open>detail::ActiveGauge\<close> and
  \<open>detail::OpenAckGate\<close> in \<open>include/toxtunnel/app/tunnel_server.hpp\<close> and \<open>src/app/tunnel_server.cpp\<close>).
  Each critical section is one definition. The gate runs its callbacks without its lock, so the threads
  inside it are a multiset of program counters and the executions of the gate are a step relation in which
  the sections of all threads interleave; the log of the run records every callback and every answer.
\<close>

section \<open>The open before it is wired\<close>

datatype PendingPhase = OP_Resolving | OP_Connecting | OP_Handed | OP_Resolved

record PendingOpen =
  po_phase :: PendingPhase
  po_failure_booked :: bool

definition pending_new :: PendingOpen where
  "pending_new = \<lparr>po_phase = OP_Resolving, po_failure_booked = False\<rparr>"

text \<open>\<open>advance\<close>, and \<open>advance_and\<close>, whose initiator runs exactly when the answer is true.\<close>

definition po_advance :: "PendingPhase \<Rightarrow> PendingPhase \<Rightarrow> PendingOpen \<Rightarrow> bool \<times> PendingOpen" where
  "po_advance from to p = (if po_phase p \<noteq> from then (False, p) else (True, p\<lparr>po_phase := to\<rparr>))"

definition try_cancel :: "PendingOpen \<Rightarrow> bool \<times> PendingOpen" where
  "try_cancel p =
     (if po_phase p \<noteq> OP_Resolving \<and> po_phase p \<noteq> OP_Connecting then (False, p)
      else (True, p\<lparr>po_phase := OP_Resolved\<rparr>))"

definition po_resolved :: "PendingOpen \<Rightarrow> bool" where
  "po_resolved p \<longleftrightarrow> po_phase p = OP_Resolved"

definition claim_failure_booking :: "PendingOpen \<Rightarrow> bool \<times> PendingOpen" where
  "claim_failure_booking p = (\<not> po_failure_booked p, p\<lparr>po_failure_booked := True\<rparr>)"

section \<open>The active gauge\<close>

datatype ActiveGaugeState = AG_NotCounted | AG_Counted | AG_Released

text \<open>The latch of one tunnel beside the process-wide gauge, whose decrement saturates at zero.\<close>

definition active_gauge_count :: "ActiveGaugeState \<Rightarrow> nat \<Rightarrow> bool \<times> ActiveGaugeState \<times> nat" where
  "active_gauge_count latch gauge =
     (if latch \<noteq> AG_NotCounted then (False, latch, gauge) else (True, AG_Counted, gauge + 1))"

definition active_gauge_release :: "ActiveGaugeState \<Rightarrow> nat \<Rightarrow> ActiveGaugeState \<times> nat" where
  "active_gauge_release latch gauge = (AG_Released, if latch = AG_Counted then gauge - 1 else gauge)"

section \<open>The gate\<close>

datatype GatePhase = GP_Pending | GP_Sending | GP_Committing | GP_Committed | GP_Abandoned

record OpenAckGate =
  ga_phase :: GatePhase
  ga_gone_requested :: bool
  ga_send_ack :: bool            \<comment> \<open>the callbacks: present or null\<close>
  ga_commit :: bool
  ga_abandon :: bool
  ga_post_commit_close :: bool
  ga_timer :: "nat option"       \<comment> \<open>the retry whose wait is pending\<close>
  ga_attempts :: nat

definition gate_new :: OpenAckGate where
  "gate_new = \<lparr>ga_phase = GP_Pending, ga_gone_requested = False, ga_send_ack = True, ga_commit = True,
     ga_abandon = True, ga_post_commit_close = True, ga_timer = None, ga_attempts = 0\<rparr>"

text \<open>Where a thread inside the gate stands: about to call the sender, about to record its verdict, about to
  run one of the other callbacks, about to record what the commit returned, or about to arm the timer.\<close>

datatype GatePc =
    PC_Send nat bool | PC_Settle nat SendOutcome | PC_Abandon | PC_Commit | PC_Published bool
  | PC_Close | PC_Arm nat

datatype GateEvent = EV_Ack SendOutcome | EV_Abandon | EV_Commit bool | EV_Close | EV_Gone bool | EV_Disarm

definition release_callbacks_locked :: "OpenAckGate \<Rightarrow> OpenAckGate" where
  "release_callbacks_locked g = g\<lparr>ga_timer := None, ga_send_ack := False, ga_commit := False, ga_abandon := False\<rparr>"

definition abandon_locked :: "OpenAckGate \<Rightarrow> GatePc option \<times> OpenAckGate" where
  "abandon_locked g =
     (if ga_abandon g then Some PC_Abandon else None,
      (release_callbacks_locked (g\<lparr>ga_phase := GP_Abandoned\<rparr>))\<lparr>ga_post_commit_close := False\<rparr>)"

definition attempt_claim :: "nat \<Rightarrow> OpenAckGate \<Rightarrow> GatePc option \<times> OpenAckGate" where
  "attempt_claim retry g =
     (if ga_phase g \<noteq> GP_Pending then (None, g)
      else (Some (PC_Send retry (ga_send_ack g)), g\<lparr>ga_phase := GP_Sending\<rparr>))"

definition attempt_settle :: "nat \<Rightarrow> SendOutcome \<Rightarrow> OpenAckGate \<Rightarrow> GatePc option \<times> OpenAckGate" where
  "attempt_settle retry outcome g =
     (if ga_gone_requested g then abandon_locked g
      else if outcome = SO_Sent
      then (if ga_commit g then Some PC_Commit else None, release_callbacks_locked (g\<lparr>ga_phase := GP_Committing\<rparr>))
      else if outcome = SO_PermanentFail then abandon_locked g
      else (Some (PC_Arm retry), g\<lparr>ga_phase := GP_Pending\<rparr>))"

definition commit_finish :: "bool \<Rightarrow> OpenAckGate \<Rightarrow> GatePc option \<times> OpenAckGate" where
  "commit_finish published g =
     (if published \<and> ga_gone_requested g \<and> ga_post_commit_close g then Some PC_Close else None,
      g\<lparr>ga_phase := (if published then GP_Committed else GP_Abandoned), ga_post_commit_close := False\<rparr>)"

definition arm_retry :: "nat \<Rightarrow> OpenAckGate \<Rightarrow> OpenAckGate" where
  "arm_retry retry g = (if ga_phase g \<noteq> GP_Pending then g else g\<lparr>ga_timer := Some retry\<rparr>)"

definition target_gone :: "OpenAckGate \<Rightarrow> bool \<times> GatePc option \<times> OpenAckGate" where
  "target_gone g =
     (case ga_phase g of
        GP_Pending \<Rightarrow> (True, abandon_locked g)
      | GP_Sending \<Rightarrow> (True, None, g\<lparr>ga_gone_requested := True, ga_timer := None\<rparr>)
      | GP_Committing \<Rightarrow> (True, None, g\<lparr>ga_gone_requested := True, ga_timer := None\<rparr>)
      | GP_Committed \<Rightarrow> (False, None, g)
      | GP_Abandoned \<Rightarrow> (True, None, g))"

definition disarm :: "OpenAckGate \<Rightarrow> bool \<times> OpenAckGate" where
  "disarm g =
     (if ga_phase g \<noteq> GP_Pending then (False, g)
      else (True, (release_callbacks_locked (g\<lparr>ga_phase := GP_Abandoned\<rparr>))\<lparr>ga_post_commit_close := False\<rparr>))"

definition gate_committed :: "OpenAckGate \<Rightarrow> bool" where
  "gate_committed g \<longleftrightarrow> ga_phase g = GP_Committed"

section \<open>Executions\<close>

type_synonym GateRun = "OpenAckGate \<times> GatePc multiset \<times> GateEvent list"

definition enter :: "GatePc option \<Rightarrow> GatePc multiset \<Rightarrow> GatePc multiset" where
  "enter p m = (case p of None \<Rightarrow> m | Some pc \<Rightarrow> add_mset pc m)"

text \<open>\<open>start\<close> and a timer completion that was already queued when it was cancelled may begin an attempt at
  any time; the sender and the commit may answer anything.\<close>

inductive ack_step :: "GateRun \<Rightarrow> GateRun \<Rightarrow> bool" where
  gs_attempt: "attempt_claim r g = (p, g1) \<Longrightarrow> ack_step (g, m, tr) (g1, enter p m, tr)"
| gs_timer: "ga_timer g = Some r \<Longrightarrow> attempt_claim (Suc r) (g\<lparr>ga_timer := None\<rparr>) = (p, g1) \<Longrightarrow>
    ack_step (g, m, tr) (g1, enter p m, tr)"
| gs_send: "ack_step (g, add_mset (PC_Send r True) m, tr)
    (g\<lparr>ga_attempts := Suc (ga_attempts g)\<rparr>, add_mset (PC_Settle r v) m, tr @ [EV_Ack v])"
| gs_no_sender: "ack_step (g, add_mset (PC_Send r False) m, tr) (g, add_mset (PC_Settle r SO_PermanentFail) m, tr)"
| gs_settle: "attempt_settle r v g = (p, g1) \<Longrightarrow>
    ack_step (g, add_mset (PC_Settle r v) m, tr) (g1, enter p m, tr)"
| gs_abandon: "ack_step (g, add_mset PC_Abandon m, tr) (g, m, tr @ [EV_Abandon])"
| gs_commit: "ack_step (g, add_mset PC_Commit m, tr) (g, add_mset (PC_Published b) m, tr @ [EV_Commit b])"
| gs_finish: "commit_finish b g = (p, g1) \<Longrightarrow>
    ack_step (g, add_mset (PC_Published b) m, tr) (g1, enter p m, tr)"
| gs_close: "ack_step (g, add_mset PC_Close m, tr) (g, m, tr @ [EV_Close])"
| gs_arm: "ack_step (g, add_mset (PC_Arm r) m, tr) (arm_retry r g, m, tr)"
| gs_gone: "target_gone g = (b, p, g1) \<Longrightarrow> ack_step (g, m, tr) (g1, enter p m, tr @ [EV_Gone b])"
| gs_disarm: "disarm g = (b, g1) \<Longrightarrow> ack_step (g, m, tr) (g1, m, if b then tr @ [EV_Disarm] else tr)"

inductive ack_reachable :: "GateRun \<Rightarrow> bool" where
  gr_new: "ack_reachable (gate_new, {#}, [])"
| gr_step: "ack_reachable s \<Longrightarrow> ack_step s t \<Longrightarrow> ack_reachable t"

fun in_send :: "GatePc \<Rightarrow> bool" where
  "in_send (PC_Send _ _) = True" | "in_send (PC_Settle _ _) = True" | "in_send _ = False"

fun in_commit :: "GatePc \<Rightarrow> bool" where
  "in_commit PC_Commit = True" | "in_commit (PC_Published _) = True" | "in_commit _ = False"

fun is_commit :: "GateEvent \<Rightarrow> bool" where
  "is_commit (EV_Commit _) = True" | "is_commit _ = False"

fun is_ack :: "GateEvent \<Rightarrow> bool" where
  "is_ack (EV_Ack _) = True" | "is_ack _ = False"

definition resolution :: "GateEvent \<Rightarrow> bool" where
  "resolution e \<longleftrightarrow> e = EV_Abandon \<or> e = EV_Disarm \<or> is_commit e"

abbreviation npc :: "(GatePc \<Rightarrow> bool) \<Rightarrow> GatePc multiset \<Rightarrow> nat" where
  "npc P m \<equiv> size (filter_mset P m)"

abbreviation nev :: "(GateEvent \<Rightarrow> bool) \<Rightarrow> GateEvent list \<Rightarrow> nat" where
  "nev P tr \<equiv> length (filter P tr)"

text \<open>Who owns the gate in which phase, which callbacks are left, and how often each was handed out.\<close>

definition gate_owned :: "GateRun \<Rightarrow> bool" where
  "gate_owned s \<longleftrightarrow> (case s of (g, m, tr) \<Rightarrow>
     npc in_send m = (if ga_phase g = GP_Sending then 1 else 0)
     \<and> npc in_commit m = (if ga_phase g = GP_Committing then 1 else 0)
     \<and> (ga_abandon g \<longleftrightarrow> ga_phase g \<in> {GP_Pending, GP_Sending})
     \<and> (ga_commit g \<longleftrightarrow> ga_phase g \<in> {GP_Pending, GP_Sending})
     \<and> (ga_send_ack g \<longleftrightarrow> ga_phase g \<in> {GP_Pending, GP_Sending})
     \<and> (ga_post_commit_close g \<longleftrightarrow> ga_phase g \<in> {GP_Pending, GP_Sending, GP_Committing})
     \<and> (ga_gone_requested g \<longrightarrow> ga_phase g \<noteq> GP_Pending))"

definition gate_counts :: "GateRun \<Rightarrow> bool" where
  "gate_counts s \<longleftrightarrow> (case s of (g, m, tr) \<Rightarrow>
     count m PC_Abandon + count m PC_Commit + nev resolution tr =
       (if ga_phase g \<in> {GP_Pending, GP_Sending} then 0 else 1))"

lemmas gate_defs = attempt_claim_def attempt_settle_def abandon_locked_def release_callbacks_locked_def
  commit_finish_def arm_retry_def target_gone_def disarm_def enter_def

lemma gate_owned_always: "ack_reachable s \<Longrightarrow> gate_owned s"
proof (induction rule: ack_reachable.induct)
  case gr_new
  then show ?case by (simp add: gate_owned_def gate_new_def)
next
  case (gr_step s t)
  from gr_step(2,3) show ?case
    by (cases rule: ack_step.cases)
       (auto simp: gate_owned_def gate_defs split: if_splits GatePhase.splits)
qed

lemma gate_counts_always: "ack_reachable s \<Longrightarrow> gate_counts s"
proof (induction rule: ack_reachable.induct)
  case gr_new
  then show ?case by (simp add: gate_counts_def gate_new_def)
next
  case (gr_step s t)
  from gr_step(2,3) gate_owned_always [OF gr_step(1)] show ?case
    by (cases rule: ack_step.cases)
       (auto simp: gate_owned_def gate_counts_def gate_defs resolution_def split: if_splits GatePhase.splits)
qed

text \<open>What the log and the waiting threads say about each other.\<close>

definition acked :: "GateRun \<Rightarrow> bool" where
  "acked s \<longleftrightarrow> (case s of (g, m, tr) \<Rightarrow>
     ((\<exists>r. PC_Settle r SO_Sent \<in># m) \<or> PC_Commit \<in># m \<or> (\<exists>b. EV_Commit b \<in> set tr) \<longrightarrow> EV_Ack SO_Sent \<in> set tr)
     \<and> list_all (\<lambda>e. \<not> is_ack e) (dropWhile (\<lambda>e. \<not> resolution e) tr))"

definition published :: "GateRun \<Rightarrow> bool" where
  "published s \<longleftrightarrow> (case s of (g, m, tr) \<Rightarrow>
     (\<forall>b. PC_Published b \<in># m \<longrightarrow> EV_Commit b \<in> set tr)
     \<and> (ga_phase g = GP_Committed \<longrightarrow> EV_Commit True \<in> set tr)
     \<and> (PC_Close \<in># m \<or> EV_Close \<in> set tr \<or> EV_Gone False \<in> set tr \<longrightarrow> ga_phase g = GP_Committed))"

definition answered :: "GateRun \<Rightarrow> bool" where
  "answered s \<longleftrightarrow> (case s of (g, m, tr) \<Rightarrow>
     (EV_Gone True \<in> set tr \<longrightarrow> ga_gone_requested g \<or> ga_phase g = GP_Abandoned)
     \<and> (ga_gone_requested g \<and> ga_phase g = GP_Committed \<longrightarrow> PC_Close \<in># m \<or> EV_Close \<in> set tr)
     \<and> (ga_phase g = GP_Abandoned \<longrightarrow>
          PC_Abandon \<in># m \<or> EV_Abandon \<in> set tr \<or> EV_Disarm \<in> set tr \<or> EV_Commit False \<in> set tr))"

lemma no_resolution_dropWhile: "nev P tr = 0 \<Longrightarrow> dropWhile (\<lambda>e. \<not> P e) (tr @ tr') = dropWhile (\<lambda>e. \<not> P e) tr'"
  by (induction tr) auto

lemma dropWhile_snoc_all:
  "list_all (\<lambda>e. \<not> is_ack e) (dropWhile (\<lambda>e. \<not> P e) tr) \<Longrightarrow> \<not> is_ack x \<Longrightarrow>
   list_all (\<lambda>e. \<not> is_ack e) (dropWhile (\<lambda>e. \<not> P e) (tr @ [x]))"
  by (induction tr) auto

lemma in_send_present: "gate_owned (g, add_mset (PC_Send r b) m, tr) \<Longrightarrow> ga_phase g = GP_Sending"
  by (auto simp: gate_owned_def split: if_splits)

lemma acked_reachable: "ack_reachable s \<Longrightarrow> acked s"
proof (induction rule: ack_reachable.induct)
  case gr_new
  then show ?case by (simp add: acked_def gate_new_def)
next
  case (gr_step s t)
  note inv = gate_owned_always [OF gr_step(1)] gate_counts_always [OF gr_step(1)]
  from gr_step(2) show ?case
  proof (cases rule: ack_step.cases)
    case (gs_send g r m tr v)
    then have "nev resolution tr = 0"
      using inv in_send_present by (auto simp: gate_counts_def)
    moreover have "\<not> resolution (EV_Ack v)" by (simp add: resolution_def)
    ultimately have "dropWhile (\<lambda>e. \<not> resolution e) (tr @ [EV_Ack v]) = []"
      using no_resolution_dropWhile [of resolution tr "[EV_Ack v]"] by simp
    then show ?thesis using gr_step(3) gs_send by (auto simp: acked_def)
  qed (use gr_step(3) in \<open>auto simp: acked_def gate_defs dropWhile_snoc_all split: if_splits GatePhase.splits\<close>)
qed

lemma published_reachable: "ack_reachable s \<Longrightarrow> published s"
proof (induction rule: ack_reachable.induct)
  case gr_new
  then show ?case by (simp add: published_def gate_new_def)
next
  case (gr_step s t)
  from gr_step(2,3) gate_owned_always [OF gr_step(1)] show ?case
    by (cases rule: ack_step.cases)
       (auto simp: published_def gate_owned_def gate_defs split: if_splits GatePhase.splits)
qed

lemma answered_reachable: "ack_reachable s \<Longrightarrow> answered s"
proof (induction rule: ack_reachable.induct)
  case gr_new
  then show ?case by (simp add: answered_def gate_new_def)
next
  case (gr_step s t)
  from gr_step(2,3) gate_owned_always [OF gr_step(1)] published_reachable [OF gr_step(1)] show ?case
    by (cases rule: ack_step.cases)
       (auto simp: answered_def published_def gate_owned_def gate_defs split: if_splits GatePhase.splits)
qed

section \<open>Properties\<close>

text \<open>Claim C15: an open is resolved at most once and in the right order. In every execution of the gate, with
  any interleaving of its threads and any verdicts of the transport, the commit, the abandon and the silent
  disarm exclude each other and happen at most once in total; the tunnel is committed only after the OPEN_ACK
  was accepted by the transport; and no OPEN_ACK is sent after the open was resolved, so the peer never sees
  an ACK for a tunnel it was told has failed.\<close>

theorem open_ack_resolved_once:
  assumes "ack_reachable (g, m, tr)"
  shows "nev resolution tr \<le> 1
    \<and> (\<forall>b. EV_Commit b \<in> set tr \<longrightarrow> EV_Ack SO_Sent \<in> set tr)
    \<and> list_all (\<lambda>e. \<not> is_ack e) (dropWhile (\<lambda>e. \<not> resolution e) tr)"
  using gate_counts_always [OF assms] acked_reachable [OF assms]
  by (auto simp: gate_counts_def acked_def split: if_splits)

text \<open>Claim C16: a target that dies during the handshake is never forgotten. Once no thread is inside the gate
  and the death of the target was reported, either the open was abandoned, disarmed or not published, or
  the tunnel was published and its close was run by the gate or left to the caller by the answer false; and
  the answer false and the deferred close occur only for a published tunnel.\<close>

theorem target_death_settled:
  assumes "ack_reachable (g, m, tr)"
  shows "(m = {#} \<and> EV_Gone b \<in> set tr \<longrightarrow>
      EV_Abandon \<in> set tr \<or> EV_Disarm \<in> set tr \<or> EV_Commit False \<in> set tr
      \<or> EV_Commit True \<in> set tr \<and> (EV_Close \<in> set tr \<or> EV_Gone False \<in> set tr))
    \<and> (EV_Close \<in> set tr \<or> EV_Gone False \<in> set tr \<longrightarrow> EV_Commit True \<in> set tr)"
  using published_reachable [OF assms] answered_reachable [OF assms] gate_owned_always [OF assms]
  by (cases b; cases "ga_phase g") (auto simp: published_def answered_def gate_owned_def)

text \<open>Concrete executions: the send queue is full, the target dies while the retry is inside the transport,
  and the ACK gets through.\<close>

lemma gr_to: "ack_reachable s \<Longrightarrow> ack_step s t' \<Longrightarrow> t' = t \<Longrightarrow> ack_reachable t"
  using gr_step by blast

lemma ex_gate_run: "ack_reachable
   ((release_callbacks_locked (gate_new\<lparr>ga_phase := GP_Abandoned, ga_gone_requested := True, ga_attempts := 2\<rparr>))
      \<lparr>ga_post_commit_close := False\<rparr>, {#},
    [EV_Ack SO_SendqFull, EV_Gone True, EV_Ack SO_Sent, EV_Abandon])"
proof -
  note defs = gate_defs gate_new_def
  let ?g1 = "gate_new\<lparr>ga_phase := GP_Sending\<rparr>"
  let ?g2 = "gate_new\<lparr>ga_attempts := 1, ga_timer := Some 0\<rparr>"
  let ?g3 = "gate_new\<lparr>ga_attempts := 1, ga_phase := GP_Sending, ga_gone_requested := True\<rparr>"
  let ?g4 = "?g3\<lparr>ga_attempts := 2\<rparr>"
  have "ack_reachable (?g1, {#PC_Send 0 True#}, [])"
    by (rule gr_to [OF gr_new gs_attempt [OF surjective_pairing, where r = 0]]) (simp add: defs)
  then have "ack_reachable (?g1\<lparr>ga_attempts := 1\<rparr>, {#PC_Settle 0 SO_SendqFull#}, [EV_Ack SO_SendqFull])"
    by (rule gr_to [OF _ gs_send [of _ 0 "{#}" _ SO_SendqFull]]) (simp add: defs)
  then have "ack_reachable (gate_new\<lparr>ga_attempts := 1\<rparr>, {#PC_Arm 0#}, [EV_Ack SO_SendqFull])"
    by (rule gr_to [OF _ gs_settle [OF surjective_pairing]]) (simp add: defs)
  then have "ack_reachable (?g2, {#}, [EV_Ack SO_SendqFull])"
    by (rule gr_to [OF _ gs_arm]) (simp add: defs)
  then have "ack_reachable (gate_new\<lparr>ga_attempts := 1, ga_phase := GP_Sending\<rparr>, {#PC_Send 1 True#}, [EV_Ack SO_SendqFull])"
    by (rule gr_to [OF _ gs_timer [OF _ surjective_pairing, where r = 0]]) (simp_all add: defs)
  then have "ack_reachable (?g3, {#PC_Send 1 True#}, [EV_Ack SO_SendqFull, EV_Gone True])"
    by (rule gr_to [OF _ gs_gone [of _ True None ?g3]]) (simp_all add: defs)
  then have "ack_reachable (?g4, {#PC_Settle 1 SO_Sent#}, [EV_Ack SO_SendqFull, EV_Gone True, EV_Ack SO_Sent])"
    by (rule gr_to [OF _ gs_send [of _ 1 "{#}" _ SO_Sent]]) (simp add: defs)
  then have "ack_reachable ((release_callbacks_locked (?g4\<lparr>ga_phase := GP_Abandoned\<rparr>))\<lparr>ga_post_commit_close := False\<rparr>,
      {#PC_Abandon#}, [EV_Ack SO_SendqFull, EV_Gone True, EV_Ack SO_Sent])"
    by (rule gr_to [OF _ gs_settle [OF surjective_pairing]]) (simp add: defs)
  then show ?thesis
    by (rule gr_to [OF _ gs_abandon]) (simp add: defs)
qed

theorem open_ack_resolved_once_witness:
  "nev resolution [EV_Ack SO_SendqFull, EV_Gone True, EV_Ack SO_Sent, EV_Abandon] \<le> 1"
  using open_ack_resolved_once [OF ex_gate_run] by simp

theorem target_death_settled_witness:
  "EV_Abandon \<in> set [EV_Ack SO_SendqFull, EV_Gone True, EV_Ack SO_Sent, EV_Abandon]"
  using target_death_settled [OF ex_gate_run, of True] by simp

section \<open>Booking and gauge\<close>

text \<open>The calls the server makes on the phase word of one open: the resolver's completion, the connect's
  completion, a teardown, and the booking of a failure. The log keeps the calls that were answered true.\<close>

datatype PendingCall = PCall_Connecting | PCall_Handed | PCall_Cancel | PCall_Book

fun pending_call :: "PendingCall \<Rightarrow> PendingOpen \<Rightarrow> bool \<times> PendingOpen" where
  "pending_call PCall_Connecting p = po_advance OP_Resolving OP_Connecting p"
| "pending_call PCall_Handed p = po_advance OP_Connecting OP_Handed p"
| "pending_call PCall_Cancel p = try_cancel p"
| "pending_call PCall_Book p = claim_failure_booking p"

primrec pending_run :: "PendingCall list \<Rightarrow> PendingOpen \<Rightarrow> PendingCall list" where
  "pending_run [] p = []"
| "pending_run (c # cs) p = (let (b, p1) = pending_call c p in (if b then [c] else []) @ pending_run cs p1)"

lemma pending_run_bounds:
  "length (filter (\<lambda>c. c = PCall_Cancel \<or> c = PCall_Handed) (pending_run cs p))
     \<le> (if po_phase p = OP_Resolving \<or> po_phase p = OP_Connecting then 1 else 0)
   \<and> length (filter (\<lambda>c. c = PCall_Book) (pending_run cs p)) \<le> (if po_failure_booked p then 0 else 1)"
proof (induction cs arbitrary: p)
  case (Cons c cs)
  show ?case using Cons.IH [of "snd (pending_call c p)"]
    by (cases c)
       (auto simp: po_advance_def try_cancel_def claim_failure_booking_def split: if_splits)
qed simp

text \<open>The open is either cancelled or handed to the wiring, never both, and a failure is booked once.\<close>

theorem open_cancelled_or_handed:
  "length (filter (\<lambda>c. c = PCall_Cancel \<or> c = PCall_Handed) (pending_run cs pending_new)) \<le> 1
   \<and> length (filter (\<lambda>c. c = PCall_Book) (pending_run cs pending_new)) \<le> 1"
  using pending_run_bounds [of cs pending_new] by (auto simp: pending_new_def split: if_splits)

text \<open>All tunnels of the server share one gauge; each has its own latch.\<close>

datatype GaugeCall = GC_Count nat | GC_Release nat

fun gauge_call :: "GaugeCall \<Rightarrow> ActiveGaugeState list \<times> nat \<Rightarrow> ActiveGaugeState list \<times> nat" where
  "gauge_call (GC_Count i) (ls, n) =
     (if i < length ls then let (_, l, k) = active_gauge_count (ls ! i) n in (ls[i := l], k) else (ls, n))"
| "gauge_call (GC_Release i) (ls, n) =
     (if i < length ls then let (l, k) = active_gauge_release (ls ! i) n in (ls[i := l], k) else (ls, n))"

abbreviation counted :: "ActiveGaugeState list \<Rightarrow> nat" where
  "counted ls \<equiv> length (filter (\<lambda>l. l = AG_Counted) ls)"

lemma counted_update:
  "i < length ls \<Longrightarrow> counted (ls[i := l]) + (if ls ! i = AG_Counted then 1 else 0)
     = counted ls + (if l = AG_Counted then 1 else 0)"
proof (induction ls arbitrary: i)
  case (Cons a ls)
  show ?case
  proof (cases i)
    case (Suc j)
    then show ?thesis using Cons.IH [of j] Cons.prems by (simp split: if_splits)
  qed auto
qed simp

lemma gauge_call_counted:
  "n = counted ls \<Longrightarrow> gauge_call c (ls, n) = (ls1, n1) \<Longrightarrow> n1 = counted ls1 \<and> length ls1 = length ls"
proof (cases c)
  case (GC_Count i)
  then show "n = counted ls \<Longrightarrow> gauge_call c (ls, n) = (ls1, n1) \<Longrightarrow> ?thesis"
    using counted_update [of i ls AG_Counted] by (auto simp: active_gauge_count_def split: if_splits)
next
  case (GC_Release i)
  then show "n = counted ls \<Longrightarrow> gauge_call c (ls, n) = (ls1, n1) \<Longrightarrow> ?thesis"
    using counted_update [of i ls AG_Released] by (auto simp: active_gauge_release_def split: if_splits)
qed

text \<open>The gauge of active tunnels never drifts. Whatever order the publications and the endings of
  the tunnels come in, repeated or missing, the gauge equals the number of tunnels counted and not yet
  released.\<close>

theorem active_gauge_exact:
  "snd (fold gauge_call calls (replicate n AG_NotCounted, 0)) = counted (fst (fold gauge_call calls (replicate n AG_NotCounted, 0)))"
proof -
  have "k = counted ls \<Longrightarrow> snd (fold gauge_call calls (ls, k)) = counted (fst (fold gauge_call calls (ls, k)))" for ls k
  proof (induction calls arbitrary: ls k)
    case (Cons c cs)
    obtain ls1 k1 where g: "gauge_call c (ls, k) = (ls1, k1)" by force
    with gauge_call_counted [OF Cons(2) g] Cons.IH show ?case by simp
  qed simp
  from this [of 0 "replicate n AG_NotCounted"] show ?thesis by simp
qed

end
