(* ===== verification/Tunnel_Server.thy ===== *)
theory Tunnel_Server
  imports Manager_Safety Rules_Engine Inbound_Throttle Open_Ack_Gate
begin

text \<open>
  The server application (\<open>src/app/tunnel_server.cpp\<close>): the maps of live and held tunnel managers, the friend
  lifecycle, the routing of inbound frames, the policy of TUNNEL_OPEN, tunnel resume, and the publication of
  a tunnel behind its OPEN_ACK. Managers are objects on a heap, because the same object moves between the two
  maps and is reached through weak pointers. The handlers run on the inbound strand one after the other, so
  each is one function of the server's state. Functions that run a tunnel's driver take its fuel and return
  \<open>None\<close> when it is used up. Metrics are a log of outcomes.
\<close>

section \<open>State\<close>

record ServerConfig =
  sc_resume_enabled :: bool
  sc_on_gap :: string
  sc_keepalive_interval :: u32
  sc_idle_timeout :: u32
  sc_half_close_timeout :: u32
  sc_reaper_tick :: u32
  sc_coalesce_max_delay_us :: u32
  sc_coalesce_max_bytes :: u32
  sc_coalesce_mode :: string
  sc_flow_mode :: string
  sc_window_min :: u32
  sc_window_max :: u32
  sc_safety_x100 :: u32
  sc_fixed_window :: u32

datatype OpenResult = OR_Ok | OR_Denied | OR_Failed

text \<open>An open whose target is being resolved or connected: the captured manager, tunnel and phase word.\<close>

record ServerOpen =
  so_friend :: u32
  so_id :: u16
  so_manager :: nat
  so_tunnel :: nat
  so_host :: string
  so_port :: u16

record Server =
  sv_config :: ServerConfig
  sv_rules :: RulesEngine
  sv_limiter :: RateLimiter
  sv_inbound :: "u32 \<Rightarrow> FriendInbound option"
  sv_live :: "u32 \<Rightarrow> nat option"              \<comment> \<open>\<open>managers_\<close>\<close>
  sv_held :: "u32 \<Rightarrow> (nat \<times> nat) option"      \<comment> \<open>\<open>held_managers_\<close>: the manager and its prune timer\<close>
  sv_mgrs :: "Manager list"
  sv_next_timer :: nat
  sv_opens :: "ServerOpen list"
  sv_out :: "(u32 \<times> byte list) list"         \<comment> \<open>packets handed to toxcore outside a manager\<close>
  sv_results :: "OpenResult list"

text \<open>What the handlers get from outside: fuel, the environment of the tunnels, the transport of the
  managers, the clock, the friends' public keys and the disclosed system information.\<close>

record ServerEnv =
  se_fuel :: nat
  se_env :: TunnelEnv
  se_transport :: Transport
  se_now :: int
  se_pk_hex :: "u32 \<Rightarrow> string"
  se_info_yaml :: string

definition server_new :: "ServerConfig \<Rightarrow> RulesEngine \<Rightarrow> RateLimiter \<Rightarrow> Server" where
  "server_new cfg rules rl =
     \<lparr>sv_config = cfg, sv_rules = rules, sv_limiter = rl, sv_inbound = (\<lambda>_. None), sv_live = (\<lambda>_. None),
      sv_held = (\<lambda>_. None), sv_mgrs = [], sv_next_timer = 0, sv_opens = [], sv_out = [], sv_results = []\<rparr>"

definition put_mgr :: "nat \<Rightarrow> Manager \<Rightarrow> Server \<Rightarrow> Server" where
  "put_mgr a m s = s\<lparr>sv_mgrs := (sv_mgrs s)[a := m]\<rparr>"

definition book :: "OpenResult \<Rightarrow> Server \<Rightarrow> Server" where
  "book r s = s\<lparr>sv_results := sv_results s @ [r]\<rparr>"

definition send_direct :: "u32 \<Rightarrow> ProtocolFrame \<Rightarrow> Server \<Rightarrow> Server" where
  "send_direct f frame s = s\<lparr>sv_out := sv_out s @ [(f, kLosslessPacketByte # serialize frame)]\<rparr>"

text \<open>Sending through the friend's live manager, if it has one.\<close>

definition send_via_live :: "ServerEnv \<Rightarrow> u32 \<Rightarrow> ProtocolFrame \<Rightarrow> Server \<Rightarrow> Server" where
  "send_via_live E f frame s =
     (case sv_live s f of
        Some a \<Rightarrow> put_mgr a (mgr_send (se_transport E) frame (sv_mgrs s ! a)) s
      | None \<Rightarrow> s)"

section \<open>Limits\<close>

definition kAbsoluteTunnelCap :: u32 where "kAbsoluteTunnelCap = 10000"

definition tunnel_cap :: "RateLimitSpec \<Rightarrow> nat" where
  "tunnel_cap spec =
     (if rs_max_concurrent_tunnels spec > 0 then unat (min (rs_max_concurrent_tunnels spec) kAbsoluteTunnelCap)
      else 100)"

definition apply_tunnel_cap :: "ServerEnv \<Rightarrow> RateLimiter \<Rightarrow> u32 \<Rightarrow> string \<Rightarrow> Manager \<Rightarrow> Manager" where
  "apply_tunnel_cap E rl f pk m =
     (let resolved = (if pk = [] then se_pk_hex E f else pk)
      in set_max_tunnels (tunnel_cap (rl_effective_spec resolved rl)) m)"

definition sync_rate_limiter :: "Server \<Rightarrow> Server" where
  "sync_rate_limiter s =
     (let overrides = map (\<lambda>r. (fr_friend_pk r, fr_rate_limit r))
                          (filter (\<lambda>r. \<not> override_empty (fr_rate_limit r)) (re_rules (sv_rules s)))
      in s\<lparr>sv_limiter := rl_replace_all (re_rate_limit_defaults (sv_rules s)) overrides (sv_limiter s)\<rparr>)"

definition reapply_cap :: "ServerEnv \<Rightarrow> u32 \<Rightarrow> Server \<Rightarrow> Server" where
  "reapply_cap E f s =
     fold (\<lambda>a s. put_mgr a (apply_tunnel_cap E (sv_limiter s) f [] (sv_mgrs s ! a)) s)
       ((case sv_live s f of Some a \<Rightarrow> [a] | None \<Rightarrow> []) @ (case sv_held s f of Some (a, _) \<Rightarrow> [a] | None \<Rightarrow> [])) s"

definition reapply_tunnel_caps :: "ServerEnv \<Rightarrow> u32 list \<Rightarrow> Server \<Rightarrow> Server" where
  "reapply_tunnel_caps E friends s = fold (reapply_cap E) friends s"

text \<open>\<open>reload\<close> after its check of the reloadable fields: the rules are swapped only when they load, then
  the limiter and the caps of the connected friends (those in \<open>friends\<close>) follow.\<close>

definition reload_rules ::
    "ServerEnv \<Rightarrow> u32 list \<Rightarrow> (rules_error + RulesEngine) option \<Rightarrow> Server \<Rightarrow> rules_error + Server" where
  "reload_rules E friends rules_file s =
     (case rules_file of
        None \<Rightarrow> Inr (reapply_tunnel_caps E friends (sync_rate_limiter (s\<lparr>sv_rules := new_engine []\<rparr>)))
      | Some (Inl e) \<Rightarrow> Inl e
      | Some (Inr rules) \<Rightarrow> Inr (reapply_tunnel_caps E friends (sync_rate_limiter (s\<lparr>sv_rules := rules\<rparr>))))"

text \<open>A friend request is accepted only for a key that the rules name.\<close>

definition friend_request_accepted :: "byte list \<Rightarrow> Server \<Rightarrow> bool" where
  "friend_request_accepted public_key s = has_rules_for_friend (bytes_to_hex public_key) (sv_rules s)"

section \<open>Friends come and go\<close>

datatype ConnectedManagerAction = KeepExisting | Resurrect | CreateFresh

definition classify_connected_event :: "bool \<Rightarrow> bool \<Rightarrow> bool \<Rightarrow> ConnectedManagerAction" where
  "classify_connected_event live_manager_present held_manager_present resume_enabled =
     (if live_manager_present then KeepExisting
      else if resume_enabled \<and> held_manager_present then Resurrect else CreateFresh)"

text \<open>Keepalive and maintenance of a manager that becomes live.\<close>

definition arm_manager :: "ServerConfig \<Rightarrow> int \<Rightarrow> Manager \<Rightarrow> Manager" where
  "arm_manager cfg now m =
     enable_half_close_reaper (sc_half_close_timeout cfg) (sc_reaper_tick cfg)
       (enable_reaper (sc_idle_timeout cfg) (sc_reaper_tick cfg)
         (if sc_keepalive_interval cfg > 0 then enable_keepalive (sc_keepalive_interval cfg) 0 now m else m))"

definition fresh_manager :: "ServerEnv \<Rightarrow> u32 \<Rightarrow> string \<Rightarrow> Server \<Rightarrow> Manager" where
  "fresh_manager E f pk s =
     (let m = apply_tunnel_cap E (sv_limiter s) f pk mgr_new
      in arm_manager (sv_config s) (se_now E) (m\<lparr>mg_queue := set_send_handler (mg_queue m)\<rparr>))"

text \<open>\<open>try_emplace\<close> into \<open>managers_\<close>: a live manager wins.\<close>

definition create_manager :: "ServerEnv \<Rightarrow> u32 \<Rightarrow> string \<Rightarrow> Server \<Rightarrow> Server" where
  "create_manager E f pk s =
     (if sv_live s f \<noteq> None then s
      else s\<lparr>sv_mgrs := sv_mgrs s @ [fresh_manager E f pk s], sv_live := (sv_live s)(f \<mapsto> length (sv_mgrs s))\<rparr>)"

definition resurrect_manager :: "ServerEnv \<Rightarrow> u32 \<Rightarrow> string \<Rightarrow> nat \<Rightarrow> Server \<Rightarrow> Server option" where
  "resurrect_manager E f pk a s =
     (let m = apply_tunnel_cap E (sv_limiter s) f pk (arm_manager (sv_config s) (se_now E) (sv_mgrs s ! a))
      in if sv_live s f = None then Some (put_mgr a m (s\<lparr>sv_live := (sv_live s)(f \<mapsto> a)\<rparr>))
         else map_option (\<lambda>m1. put_mgr a m1 s) (close_all_local (se_fuel E) (se_env E) m))"

definition install_slot :: "u32 \<Rightarrow> string \<Rightarrow> Server \<Rightarrow> Server" where
  "install_slot f pk s =
     s\<lparr>sv_inbound := (sv_inbound s)(f \<mapsto> slot_connect pk (sv_inbound s f) (sv_limiter s))\<rparr>"

definition setup_tunnel_manager :: "ServerEnv \<Rightarrow> u32 \<Rightarrow> string \<Rightarrow> Server \<Rightarrow> Server option" where
  "setup_tunnel_manager E f pk s0 =
     (let s = install_slot f pk s0
      in case classify_connected_event (sv_live s f \<noteq> None) (sv_held s f \<noteq> None) (sc_resume_enabled (sv_config s)) of
           KeepExisting \<Rightarrow> Some s
         | Resurrect \<Rightarrow> (case sv_held s f of
                           Some (a, _) \<Rightarrow> resurrect_manager E f pk a (s\<lparr>sv_held := (sv_held s)(f := None)\<rparr>)
                         | None \<Rightarrow> Some (create_manager E f pk s))
         | CreateFresh \<Rightarrow> Some (create_manager E f pk s))"

definition teardown_tunnel_manager :: "ServerEnv \<Rightarrow> u32 \<Rightarrow> TeardownMode \<Rightarrow> Server \<Rightarrow> Server option" where
  "teardown_tunnel_manager E f mode s0 =
     (let s = s0\<lparr>sv_inbound := (sv_inbound s0)(f := None)\<rparr>
      in case sv_live s f of
           None \<Rightarrow> Some s
         | Some a \<Rightarrow>
             let m = disable_reaper (disable_keepalive (sv_mgrs s ! a));
                 s1 = put_mgr a m (s\<lparr>sv_live := (sv_live s)(f := None)\<rparr>)
             in if sc_resume_enabled (sv_config s) \<and> mg_tunnels m \<noteq> []
                then Some (s1\<lparr>sv_held := (sv_held s1)(f \<mapsto> (a, sv_next_timer s1)), sv_next_timer := sv_next_timer s1 + 1\<rparr>)
                else map_option (\<lambda>m1. put_mgr a m1 s1) (close_all (se_fuel E) (se_env E) mode m))"

text \<open>The completion of a prune timer; a cancelled timer may still complete when its handler was already
  queued.\<close>

definition prune_held :: "ServerEnv \<Rightarrow> u32 \<Rightarrow> nat \<Rightarrow> Server \<Rightarrow> Server option" where
  "prune_held E f timer s =
     (case sv_held s f of
        Some (a, t) \<Rightarrow>
          if t \<noteq> timer then Some s
          else map_option (\<lambda>m1. put_mgr a m1 (s\<lparr>sv_held := (sv_held s)(f := None)\<rparr>))
                 (close_all (se_fuel E) (se_env E) TM_Graceful (sv_mgrs s ! a))
      | None \<Rightarrow> Some s)"

definition teardown_after_keepalive_verdict :: "ServerEnv \<Rightarrow> u32 \<Rightarrow> nat \<Rightarrow> Server \<Rightarrow> Server option" where
  "teardown_after_keepalive_verdict E f judged s =
     (if \<not> mg_peer_dead (sv_mgrs s ! judged) \<or> sv_live s f \<noteq> Some judged then Some s
      else teardown_tunnel_manager E f TM_Abandon s)"

definition on_friend_connection :: "ServerEnv \<Rightarrow> u32 \<Rightarrow> bool \<Rightarrow> Server \<Rightarrow> Server option" where
  "on_friend_connection E f connected s =
     (if connected then setup_tunnel_manager E f (se_pk_hex E f) s else teardown_tunnel_manager E f TM_Graceful s)"

section \<open>Opening a tunnel\<close>

definition new_server_tunnel :: "ServerEnv \<Rightarrow> ServerConfig \<Rightarrow> u16 \<Rightarrow> string \<Rightarrow> u16 \<Rightarrow> Tunnel option" where
  "new_server_tunnel E cfg i host port =
     map_option (\<lambda>t. set_callbacks True True False
         (configure_flow_control
            \<lparr>bc_mode = (case parse_flow_control_mode (sc_flow_mode cfg) of Some m \<Rightarrow> m | None \<Rightarrow> FC_Fixed),
             bc_min_window_bytes = uint (sc_window_min cfg), bc_max_window_bytes = uint (sc_window_max cfg),
             bc_safety_factor_x100 = uint (sc_safety_x100 cfg), bc_fixed_window_bytes = uint (sc_fixed_window cfg)\<rparr>
            (set_coalesce_mode (case parse_coalesce_mode (sc_coalesce_mode cfg) of Some m \<Rightarrow> m | None \<Rightarrow> CM_Fixed) t)))
       (configure_coalesce (se_fuel E) (se_env E) (unat (sc_coalesce_max_delay_us cfg)) (unat (sc_coalesce_max_bytes cfg))
          (set_target host port (tunnel_new i kDefaultSendWindowSize (se_now E))))"

definition deny_reason :: "AccessResult \<Rightarrow> string" where
  "deny_reason r = (if r = Denied then ''Access denied'' else ''No matching allow rule (default deny)'')"

text \<open>The part of \<open>handle_tunnel_open\<close> from the reserved identifier to the start of the resolver: the
  tunnel is built and registered, or the identifier is given back.\<close>

definition register_open ::
    "ServerEnv \<Rightarrow> u32 \<Rightarrow> nat \<Rightarrow> u16 \<Rightarrow> string \<Rightarrow> u16 \<Rightarrow> Manager \<Rightarrow> Server \<Rightarrow> Server option" where
  "register_open E f a i host port m s =
     do {
       t \<leftarrow> new_server_tunnel E (sv_config s) i host port;
       let (addr, m1) = new_object t m;
       (added, m2) \<leftarrow> add_tunnel (se_fuel E) (se_env E) (se_now E) i (Some addr) m1;
       Some (if added
             then put_mgr a m2 (s\<lparr>sv_opens := sv_opens s @ [\<lparr>so_friend = f, so_id = i, so_manager = a,
                                    so_tunnel = addr, so_host = host, so_port = port\<rparr>]\<rparr>)
             else put_mgr a (release_tunnel_id i (mgr_send (se_transport E)
                               (make_tunnel_error i 1 ''Tunnel limit exceeded'') m2)) (book OR_Denied s))
     }"

definition find_or_setup_manager :: "ServerEnv \<Rightarrow> u32 \<Rightarrow> string \<Rightarrow> Server \<Rightarrow> Server option" where
  "find_or_setup_manager E f pk s = (if sv_live s f = None then setup_tunnel_manager E f pk s else Some s)"

text \<open>The manager reserves the identifier or answers the peer itself.\<close>

definition accept_open :: "ServerEnv \<Rightarrow> u32 \<Rightarrow> ProtocolFrame \<Rightarrow> TunnelOpenPayload \<Rightarrow> Server \<Rightarrow> Server option" where
  "accept_open E f frame p s =
     (case sv_live s f of
        None \<Rightarrow> Some (book OR_Failed s)
      | Some a \<Rightarrow>
          (case handle_incoming_open (se_transport E) frame (sv_mgrs s ! a) of
             (ok, m) \<Rightarrow> if ok then register_open E f a (fr_tunnel_id frame) (op_host p) (op_port p) m s
                        else Some (put_mgr a m s)))"

definition handle_tunnel_open :: "ServerEnv \<Rightarrow> u32 \<Rightarrow> ProtocolFrame \<Rightarrow> Server \<Rightarrow> Server option" where
  "handle_tunnel_open E f frame s0 =
     (case as_tunnel_open frame of
        None \<Rightarrow> Some s0
      | Some p \<Rightarrow>
          let i = fr_tunnel_id frame; pk = se_pk_hex E f;
              (admitted, rl) = rl_try_consume_open pk (se_now E) (sv_limiter s0);
              s = s0\<lparr>sv_limiter := rl\<rparr>
          in if \<not> admitted
             then Some (send_via_live E f (make_tunnel_error i 1 ''Rate limit exceeded'') (book OR_Denied s))
             else let access = evaluate \<lparr>ar_friend_pk = pk, ar_target_host = op_host p, ar_target_port = op_port p,
                                          ar_source_ip = None, ar_source_port = None\<rparr> (sv_rules s)
                  in if access \<noteq> Allowed
                     then Some (send_via_live E f (make_tunnel_error i 1 (deny_reason access)) (book OR_Denied s))
                     else do {
                       s1 \<leftarrow> find_or_setup_manager E f pk s;
                       accept_open E f frame p s1
                     })"

section \<open>Resume\<close>

definition resume_offsets_have_gap :: "u64 \<Rightarrow> u64 \<Rightarrow> u64 \<Rightarrow> u64 \<Rightarrow> bool" where
  "resume_offsets_have_gap local_send peer_recv local_recv peer_send \<longleftrightarrow>
     local_send > peer_recv \<or> peer_send > local_recv"

definition send_resume_ack :: "u32 \<Rightarrow> u16 \<Rightarrow> u64 \<Rightarrow> u64 \<Rightarrow> TunnelResumeStatus \<Rightarrow> Server \<Rightarrow> Server" where
  "send_resume_ack f i recv_offset send_offset status s =
     send_direct f (make_tunnel_resume_ack
       \<lparr>ra_new_tunnel_id = i, ra_server_recv_offset = recv_offset, ra_server_send_offset = send_offset,
        ra_status = status\<rparr>) s"

definition resumable :: "Tunnel \<Rightarrow> bool" where
  "resumable t \<longleftrightarrow> (tn_state t = TS_Connected \<or> tn_state t = TS_Disconnecting) \<and> \<not> ob_abort_published (tn_out t)"

definition bytes_received :: "Tunnel \<Rightarrow> u64" where "bytes_received t = of_nat (fl_received (tn_flow t))"
definition bytes_emitted :: "Tunnel \<Rightarrow> u64" where "bytes_emitted t = of_nat (fl_emitted (tn_flow t))"

definition drop_tunnel :: "ServerEnv \<Rightarrow> nat \<Rightarrow> u16 \<Rightarrow> nat \<Rightarrow> Server \<Rightarrow> Server option" where
  "drop_tunnel E a i addr s =
     map_option (\<lambda>r. put_mgr a (snd r) s) (remove_tunnel_if (se_fuel E) (se_env E) i (Some addr) (sv_mgrs s ! a))"

text \<open>\<open>aborted\<close> is what the second look at \<open>outbound_aborted()\<close> sees; another thread may have aborted the
  tunnel since the first.\<close>

definition resume_tunnel ::
    "ServerEnv \<Rightarrow> bool \<Rightarrow> u32 \<Rightarrow> TunnelResumeRequestPayload \<Rightarrow> nat \<Rightarrow> nat \<Rightarrow> Server \<Rightarrow> Server option" where
  "resume_tunnel E aborted f req a addr s =
     (let t = tunnel_at addr (sv_mgrs s ! a); i = rr_prior_tunnel_id req;
          s_recv = bytes_received t; s_sent = bytes_emitted t;
          gap = resume_offsets_have_gap s_sent (rr_last_local_recv_offset req) s_recv (rr_last_local_send_offset req)
      in if \<not> resumable t then drop_tunnel E a i addr (send_resume_ack f i 0 0 RS_TooOld s)
         else if gap \<and> sc_on_gap (sv_config s) = ''close''
         then drop_tunnel E a i addr (send_resume_ack f i s_recv s_sent RS_TooOld s)
         else if aborted then drop_tunnel E a i addr (send_resume_ack f i s_recv s_sent RS_TooOld s)
         else Some (send_resume_ack f i s_recv s_sent RS_Ok s))"

definition handle_resume_request :: "ServerEnv \<Rightarrow> bool \<Rightarrow> u32 \<Rightarrow> ProtocolFrame \<Rightarrow> Server \<Rightarrow> Server option" where
  "handle_resume_request E aborted f frame s =
     (case as_tunnel_resume_request frame of
        None \<Rightarrow> Some s
      | Some req \<Rightarrow>
          if \<not> sc_resume_enabled (sv_config s)
          then Some (send_resume_ack f (rr_prior_tunnel_id req) 0 0 RS_Unknown s)
          else case sv_live s f of
                 None \<Rightarrow> Some (send_resume_ack f (rr_prior_tunnel_id req) 0 0 RS_TooOld s)
               | Some a \<Rightarrow>
                   (case find_tunnel (rr_prior_tunnel_id req) (sv_mgrs s ! a) of
                      None \<Rightarrow> Some (send_resume_ack f (rr_prior_tunnel_id req) 0 0 RS_TooOld s)
                    | Some addr \<Rightarrow> resume_tunnel E aborted f req a addr s))"

section \<open>Routing\<close>

definition dispatch_inbound_frame :: "ServerEnv \<Rightarrow> bool \<Rightarrow> u32 \<Rightarrow> ProtocolFrame \<Rightarrow> Server \<Rightarrow> Server option" where
  "dispatch_inbound_frame E aborted f frame s =
     (if fr_type frame = INFO_REQUEST then Some (send_direct f (make_info_reply (se_info_yaml E)) s)
      else if fr_type frame = TUNNEL_OPEN then handle_tunnel_open E f frame s
      else if fr_type frame = TUNNEL_RESUME_REQUEST then handle_resume_request E aborted f frame s
      else case sv_live s f of
             Some a \<Rightarrow> map_option (\<lambda>m. put_mgr a m s)
                        (route_frame (se_fuel E) (se_env E) (se_transport E) (se_now E) frame (sv_mgrs s ! a))
           | None \<Rightarrow> if fr_type frame = PING \<and> fr_tunnel_id frame = 0
                     then Some (send_direct f (make_pong_for frame) s) else Some s)"

primrec dispatch_packets :: "ServerEnv \<Rightarrow> bool \<Rightarrow> u32 \<Rightarrow> byte list list \<Rightarrow> Server \<Rightarrow> Server option" where
  "dispatch_packets E aborted f [] s = Some s"
| "dispatch_packets E aborted f (p # ps) s =
     (case deserialize (tl p) of
        Inl _ \<Rightarrow> dispatch_packets E aborted f ps s
      | Inr frame \<Rightarrow> do { s1 \<leftarrow> dispatch_inbound_frame E aborted f frame s; dispatch_packets E aborted f ps s1 })"

definition credit_peer :: "ServerEnv \<Rightarrow> u32 \<Rightarrow> Server \<Rightarrow> Server" where
  "credit_peer E f s =
     (case sv_live s f of
        Some a \<Rightarrow> put_mgr a (note_peer_activity (se_now E) (sv_mgrs s ! a)) s
      | None \<Rightarrow> s)"

definition deferral_budget :: "ServerEnv \<Rightarrow> u32 \<Rightarrow> Server \<Rightarrow> u16 \<Rightarrow> int" where
  "deferral_budget E f s i =
     inbound_deferral_budget (sc_idle_timeout (sv_config s)) (sc_half_close_timeout (sv_config s))
       (sc_reaper_tick (sv_config s))
       (case sv_live s f of
          None \<Rightarrow> None
        | Some a \<Rightarrow> map_option (\<lambda>x. se_now E - tn_last_activity_ns (tunnel_at x (sv_mgrs s ! a)))
                     (find_tunnel i (sv_mgrs s ! a)))"

text \<open>The packet handler; \<open>clk\<close> are the clock readings of a drain.\<close>

definition on_lossless_packet ::
    "ServerEnv \<Rightarrow> bool \<Rightarrow> (nat \<Rightarrow> int \<times> int) \<Rightarrow> u32 \<Rightarrow> byte list \<Rightarrow> Server \<Rightarrow> Server option" where
  "on_lossless_packet E aborted clk f packet s0 =
     (if length packet < 2 then Some s0
      else case deserialize (tl packet) of
             Inl _ \<Rightarrow> Some s0
           | Inr frame \<Rightarrow>
               let s = credit_peer E f s0
               in case sv_inbound s f of
                    None \<Rightarrow> dispatch_inbound_frame E aborted f frame s
                  | Some e \<Rightarrow>
                      let (ps, e1, rl) = throttle_packet (deferral_budget E f s) (se_now E) (se_now E) clk (se_now E)
                                           packet frame e (sv_limiter s)
                      in dispatch_packets E aborted f ps
                           (s\<lparr>sv_inbound := (sv_inbound s)(f \<mapsto> e1), sv_limiter := rl\<rparr>))"

definition inbound_retry_fires :: "ServerEnv \<Rightarrow> bool \<Rightarrow> (nat \<Rightarrow> int \<times> int) \<Rightarrow> u32 \<Rightarrow> Server \<Rightarrow> Server option" where
  "inbound_retry_fires E aborted clk f s =
     (case sv_inbound s f of
        None \<Rightarrow> Some s
      | Some e \<Rightarrow>
          let (ps, e1, rl) = drain_inbound_backlog clk (se_now E) e (sv_limiter s)
          in dispatch_packets E aborted f ps (s\<lparr>sv_inbound := (sv_inbound s)(f \<mapsto> e1), sv_limiter := rl\<rparr>))"

definition refresh_inbound_throttle :: "ServerEnv \<Rightarrow> bool \<Rightarrow> (nat \<Rightarrow> int \<times> int) \<Rightarrow> u32 \<Rightarrow> Server \<Rightarrow> Server option" where
  "refresh_inbound_throttle E aborted clk f s =
     (case sv_inbound s f of
        None \<Rightarrow> Some s
      | Some e \<Rightarrow>
          let (ps, e1, rl) = refresh_slot clk (se_now E) e (sv_limiter s)
          in dispatch_packets E aborted f ps (s\<lparr>sv_inbound := (sv_inbound s)(f \<mapsto> e1), sv_limiter := rl\<rparr>))"

end
