(* ===== verification/Server_Safety.thy ===== *)
theory Server_Safety
  imports Tunnel_Server
begin

text \<open>
  The server as a composition: every manager it holds is one that the manager's own interface can reach, no
  friend has a live and a held manager, no two friends share one, and a manager that no map names any more
  has no tunnel left. The theory states what follows for access control, resume and reconnects.
\<close>

section \<open>Executions\<close>

text \<open>The events of the server: toxcore callbacks, packets, the timers of the throttle and of the resume hold,
  keepalive verdicts, rule reloads, what a manager's own timers and the completions of the targets do
  to a manager (\<open>SC_Manager\<close>), and the calls that sockets, timers and the publication make on a tunnel
  (\<open>SC_Tunnel\<close>).\<close>

datatype ServerCall =
    SC_Connection u32 bool
  | SC_Packet bool "nat \<Rightarrow> int \<times> int" u32 "byte list"
  | SC_Retry bool "nat \<Rightarrow> int \<times> int" u32
  | SC_Refresh bool "nat \<Rightarrow> int \<times> int" u32
  | SC_Prune u32 nat
  | SC_Verdict u32 nat
  | SC_Reload "u32 list" "(rules_error + RulesEngine) option"
  | SC_Manager nat RoutineCall
  | SC_Tunnel nat nat TunnelCall

fun exec_server :: "ServerEnv \<Rightarrow> ServerCall \<Rightarrow> Server \<Rightarrow> Server option" where
  "exec_server E (SC_Connection f c) s = on_friend_connection E f c s"
| "exec_server E (SC_Packet ab clk f p) s = on_lossless_packet E ab clk f p s"
| "exec_server E (SC_Retry ab clk f) s = inbound_retry_fires E ab clk f s"
| "exec_server E (SC_Refresh ab clk f) s = refresh_inbound_throttle E ab clk f s"
| "exec_server E (SC_Prune f t) s = prune_held E f t s"
| "exec_server E (SC_Verdict f a) s = (if a < length (sv_mgrs s) then teardown_after_keepalive_verdict E f a s else Some s)"
| "exec_server E (SC_Reload fs r) s = (case reload_rules E fs r s of Inl _ \<Rightarrow> Some s | Inr s1 \<Rightarrow> Some s1)"
| "exec_server E (SC_Manager a c) s =
     (if a < length (sv_mgrs s)
      then map_option (\<lambda>m. put_mgr a m s) (exec_routine (se_fuel E) (se_env E) c (sv_mgrs s ! a)) else Some s)"
| "exec_server E (SC_Tunnel a x c) s =
     (if a < length (sv_mgrs s) \<and> x < length (mg_heap (sv_mgrs s ! a))
      then map_option (\<lambda>m. put_mgr a m s) (on_tunnel x (exec_call (se_fuel E) (se_env E) c) (sv_mgrs s ! a))
      else Some s)"

primrec run_server :: "(ServerEnv \<times> ServerCall) list \<Rightarrow> Server \<Rightarrow> Server option" where
  "run_server [] s = Some s"
| "run_server (c # cs) s = Option.bind (exec_server (fst c) (snd c) s) (run_server cs)"

definition owns :: "Server \<Rightarrow> u32 \<Rightarrow> nat \<Rightarrow> bool" where
  "owns s f a \<longleftrightarrow> sv_live s f = Some a \<or> (\<exists>t. sv_held s f = Some (a, t))"

definition mgr_ok :: "Manager \<Rightarrow> bool" where
  "mgr_ok m \<longleftrightarrow> mgr_reachable (m, [], [])"

definition server_inv :: "Server \<Rightarrow> bool" where
  "server_inv s \<longleftrightarrow>
     (\<forall>f. sv_live s f = None \<or> sv_held s f = None)
     \<and> (\<forall>f a. owns s f a \<longrightarrow> a < length (sv_mgrs s))
     \<and> (\<forall>f g a. owns s f a \<longrightarrow> owns s g a \<longrightarrow> f = g)
     \<and> (\<forall>f a t. sv_held s f = Some (a, t) \<longrightarrow> t < sv_next_timer s \<and> sc_resume_enabled (sv_config s))
     \<and> (\<forall>a < length (sv_mgrs s). mgr_ok (sv_mgrs s ! a) \<and> ((\<forall>f. \<not> owns s f a) \<longrightarrow> mg_tunnels (sv_mgrs s ! a) = []))"

text \<open>The part of the server that the invariant speaks of.\<close>

definition core :: "Server \<Rightarrow> _" where
  "core s = (sv_config s, sv_live s, sv_held s, sv_mgrs s, sv_next_timer s)"

section \<open>Managers stay reachable\<close>

lemma mgr_ok_same: "mgr_ok m \<Longrightarrow> registry m1 = registry m \<Longrightarrow> mgr_ok m1"
  unfolding mgr_ok_def using mreach_path mpath_aside [OF mpath_refl] by blast

lemma mgr_ok_path: "mgr_ok m \<Longrightarrow> mgr_path (m, [], []) (m1, [], []) \<Longrightarrow> mgr_ok m1"
  unfolding mgr_ok_def by (rule mreach_path)

lemma mgr_ok_exec: "mgr_ok m \<Longrightarrow> exec_routine fuel env c m = Some m1 \<Longrightarrow> mgr_ok m1"
  using mgr_ok_path mpath_routine unfolding mgr_ok_def by blast

lemma registry_arm [simp]: "registry (arm_manager cfg now m) = registry m"
  by (simp add: registry_def arm_manager_def enable_half_close_reaper_def enable_reaper_def enable_keepalive_def Let_def)

lemma registry_cap [simp]: "registry (apply_tunnel_cap E rl f pk m) = registry m"
  by (simp add: registry_def apply_tunnel_cap_def set_max_tunnels_def Let_def)

lemma registry_disable [simp]: "registry (disable_reaper (disable_keepalive m)) = registry m"
  by (simp add: registry_def disable_reaper_def disable_keepalive_def)

lemma registry_queue [simp]: "registry (m\<lparr>mg_queue := q\<rparr>) = registry m"
  by (simp add: registry_def)

lemma mgr_ok_new: "mgr_ok mgr_new"
  by (simp add: mgr_ok_def mgr_reachable_def)

lemma registry_fresh: "registry (fresh_manager E f pk s) = registry mgr_new"
  by (simp add: fresh_manager_def Let_def)

lemma tunnels_registry: "registry m1 = registry m \<Longrightarrow> mg_tunnels m1 = mg_tunnels m"
  by (simp add: registry_def)

lemma close_loop_tunnels: "close_all_loop es fuel env mode m = Some m1 \<Longrightarrow> mg_tunnels m1 = mg_tunnels m"
proof (induction es arbitrary: m)
  case (Cons e es)
  then show ?case
    by (auto simp: bind_eq_Some_conv post_event_def install_hook_def dest!: on_tunnel_fields(1))
qed simp

lemma close_all_tunnels: "close_all fuel env mode m = Some m1 \<Longrightarrow> mg_tunnels m1 = []"
  by (auto simp: close_all_def dest: close_loop_tunnels)

lemma force_loop_tunnels: "force_close_loop es fuel env m = Some m1 \<Longrightarrow> mg_tunnels m1 = mg_tunnels m"
proof (induction es arbitrary: m)
  case (Cons e es)
  then show ?case
    by (auto simp: bind_eq_Some_conv post_event_def dest!: on_tunnel_fields(1))
qed simp

lemma close_local_tunnels: "close_all_local fuel env m = Some m1 \<Longrightarrow> mg_tunnels m1 = []"
  by (auto simp: close_all_local_def Let_def abandon_registry_def dest: force_loop_tunnels)

lemma remove_tunnels_subset:
  "remove_tunnel_impl fuel env i x m = Some (b, m1) \<Longrightarrow> set (mg_tunnels m1) \<subseteq> set (mg_tunnels m)"
  by (auto simp: remove_tunnel_impl_def bind_eq_Some_conv post_event_def install_hook_def erase_tunnel_def
      dest!: on_tunnel_fields(1) split: option.splits if_splits)

lemma reap_tunnels_subset: "reap_loop is fuel env epoch m = Some (n, m1) \<Longrightarrow> set (mg_tunnels m1) \<subseteq> set (mg_tunnels m)"
proof (induction "is" arbitrary: m n)
  case (Cons i "is")
  show ?case
  proof (cases "find_tunnel i m = None \<or> (epoch \<noteq> kAnyReaperEpoch \<and> ch_epoch (mg_reaper m) \<noteq> epoch)")
    case True
    then show ?thesis using Cons by (auto split: option.splits)
  next
    case False
    then obtain a where a: "find_tunnel i m = Some a" by auto
    then obtain m2 m3 b k where r: "on_tunnel a (close_for_timeout fuel env) m = Some m2"
      "remove_tunnel_if fuel env i (Some a) m2 = Some (b, m3)" "reap_loop is fuel env epoch m3 = Some (k, m1)"
      using Cons.prems False by (auto simp: bind_eq_Some_conv)
    have "set (mg_tunnels m3) \<subseteq> set (mg_tunnels m2)"
      using r(2) by (auto simp: remove_tunnel_if_def dest: remove_tunnels_subset)
    then show ?thesis using on_tunnel_fields(1) [OF r(1)] Cons.IH [OF r(3)] by auto
  qed
qed simp

lemma route_tunnels: "route_frame fuel env h now f m = Some m1 \<Longrightarrow> mg_tunnels m1 = mg_tunnels m"
  by (auto simp: route_frame_def Let_def mgr_send_def note_peer_activity_def post_event_def
      dest!: on_tunnel_fields(1) split: if_splits option.splits)

lemma exec_tunnels_subset:
  "exec_routine fuel env c m = Some m1 \<Longrightarrow> set (mg_tunnels m1) \<subseteq> set (mg_tunnels m)"
proof (cases c)
  case (MC_reaper_tick now epoch)
  then show "exec_routine fuel env c m = Some m1 \<Longrightarrow> ?thesis"
    by (auto simp: reaper_tick_def reap_idle_tunnels_once_def rearm_reaper_after_tick_def
        split: if_splits dest!: reap_tunnels_subset)
next
  case (MC_keepalive_tick h epoch now)
  then show "exec_routine fuel env c m = Some m1 \<Longrightarrow> ?thesis"
    using tunnels_registry [OF registry_keepalive] by fastforce
qed (auto simp: remove_tunnel_def remove_tunnel_if_def close_tunnel_if_def
      dest!: route_tunnels remove_tunnels_subset close_all_tunnels close_local_tunnels on_tunnel_fields(1)
      split: if_splits option.splits)

section \<open>Registering an open\<close>

lemma exec_call_reachable: "tun_reachable t \<Longrightarrow> exec_call fuel env c t = Some u \<Longrightarrow> tun_path t u"
  using moves_call [of fuel env c] by (simp add: moves_def)

lemma new_server_tunnel_path:
  assumes "new_server_tunnel E cfg i host port = Some t"
  shows "tun_path (tunnel_new i kDefaultSendWindowSize (se_now E)) t"
proof -
  define t0 where "t0 = tunnel_new i kDefaultSendWindowSize (se_now E)"
  define fc where "fc = \<lparr>bc_mode = (case parse_flow_control_mode (sc_flow_mode cfg) of Some m \<Rightarrow> m | None \<Rightarrow> FC_Fixed),
      bc_min_window_bytes = uint (sc_window_min cfg), bc_max_window_bytes = uint (sc_window_max cfg),
      bc_safety_factor_x100 = uint (sc_safety_x100 cfg), bc_fixed_window_bytes = uint (sc_fixed_window cfg)\<rparr>"
  define cm where "cm = (case parse_coalesce_mode (sc_coalesce_mode cfg) of Some m \<Rightarrow> m | None \<Rightarrow> CM_Fixed)"
  let ?d = "unat (sc_coalesce_max_delay_us cfg)" and ?b = "unat (sc_coalesce_max_bytes cfg)"
  obtain u where u: "configure_coalesce (se_fuel E) (se_env E) ?d ?b (set_target host port t0) = Some u"
    and t: "t = set_callbacks True True False (configure_flow_control fc (set_coalesce_mode cm u))"
    using assms by (auto simp: new_server_tunnel_def t0_def fc_def cm_def)
  let ?run = "\<lambda>cs. fold (\<lambda>c x. Option.bind x (exec_call (se_fuel E) (se_env E) c)) cs (Some t0)"
  have chain: "tun_path t0 v" if "?run cs = Some v" for cs v
    using that
  proof (induction cs arbitrary: v rule: rev_induct)
    case Nil
    then show ?case by (simp add: tun_path_def)
  next
    case (snoc c cs)
    then obtain w where w: "?run cs = Some w" "exec_call (se_fuel E) (se_env E) c w = Some v"
      by (auto simp: bind_eq_Some_conv)
    have p: "tun_path t0 w" by (rule snoc.IH [OF w(1)])
    have "tun_reachable w"
      using tunnel_new_reachable [of i kDefaultSendWindowSize "se_now E"] p
      by (simp add: t0_def tun_reachable_def tun_path_def) (meson rtranclp_trans)
    then show ?case using exec_call_reachable [OF _ w(2)] p unfolding tun_path_def by (meson rtranclp_trans)
  qed
  have "?run [Call_set_target host port, Call_configure_coalesce ?d ?b, Call_set_mode cm, Call_configure_flow fc,
      Call_set_callbacks True True False] = Some t"
    by (simp add: u t)
  then show ?thesis using chain unfolding t0_def by blast
qed

lemma new_object_path:
  assumes "tun_path (tunnel_new i w now) t"
  shows "mgr_path (m, L, D) (snd (new_object t m), L, D)"
proof -
  let ?m = "snd (new_object (tunnel_new i w now) m)" and ?a = "length (mg_heap m)"
  have a: "?a < length (mg_heap ?m)" by (simp add: new_object_def)
  have at: "tunnel_at ?a ?m = tunnel_new i w now" by (simp add: new_object_def tunnel_at_def)
  have "put_tunnel ?a t ?m = snd (new_object t m)"
    by (simp add: put_tunnel_def new_object_def Let_def)
  then have "mgr_path (?m, L, D) (snd (new_object t m), L, D)"
    using mpath_tunnel [OF a, of t L D] assms at by simp
  with mpath_step [OF mpath_refl ms_new, of m L D i w now] show ?thesis by (rule mpath_trans)
qed

lemma open_accepted:
  assumes "handle_incoming_open h frame m0 = (True, m)"
  shows "find_tunnel (fr_tunnel_id frame) m = None" "mg_tunnels m = mg_tunnels m0" "tunnel_count m < mg_max m"
  using assms
  by (auto simp: handle_incoming_open_def Let_def post_event_def has_tunnel_def find_tunnel_def tunnel_count_def
      split: if_splits)

lemma register_open_ok:
  assumes ok: "mgr_ok m0" and h: "handle_incoming_open h frame m0 = (True, m)"
    and e: "register_open E f a (fr_tunnel_id frame) host port m s = Some s1"
  shows "\<exists>m1. mgr_ok m1 \<and> core s1 = core (put_mgr a m1 s)"
proof -
  let ?i = "fr_tunnel_id frame" and ?addr = "length (mg_heap m)"
  obtain t added m2 where t: "new_server_tunnel E (sv_config s) ?i host port = Some t"
    and add: "add_tunnel (se_fuel E) (se_env E) (se_now E) ?i (Some ?addr) (snd (new_object t m)) = Some (added, m2)"
    and s1: "s1 = (if added
             then put_mgr a m2 (s\<lparr>sv_opens := sv_opens s @ [\<lparr>so_friend = f, so_id = ?i, so_manager = a,
                                    so_tunnel = ?addr, so_host = host, so_port = port\<rparr>]\<rparr>)
             else put_mgr a (release_tunnel_id ?i (mgr_send (se_transport E)
                               (make_tunnel_error ?i 1 ''Tunnel limit exceeded'') m2)) (book OR_Denied s))"
    using e by (auto simp: register_open_def bind_eq_Some_conv new_object_def Let_def split: prod.splits)
  let ?m1 = "snd (new_object t m)"
  have r: "mgr_reachable (m0, [], [])" using ok by (simp add: mgr_ok_def)
  have p1: "mgr_path (m0, [], []) (m, [?i], [])"
    by (rule mpath_step [OF mpath_refl ms_open [OF h]])
  have p2: "mgr_path (m, [?i], []) (?m1, [?i], [])"
    by (rule new_object_path [OF new_server_tunnel_path [OF t]])
  note r1 = mreach_path [OF r p1] note r2 = mreach_path [OF r1 p2]
  have none: "find_tunnel ?i ?m1 = None" using open_accepted(1) [OF h] by (simp add: new_object_def find_tunnel_def)
  have fr: "fresh ?addr ?m1 []"
    using registered_address [OF r1] by (force simp: fresh_def new_object_def)
  show ?thesis
  proof (cases added)
    case True
    have "mgr_path (?m1, [?i], []) (m2, remove1 ?i [?i], [])"
      by (rule mpath_step [OF mpath_refl ms_add [OF _ fr none]]) (use add True in auto)
    then have "mgr_ok m2" using mreach_path [OF r2] by (simp add: mgr_ok_def)
    then show ?thesis using s1 True by (auto simp: put_mgr_def core_def)
  next
    case False
    have same: "m2 = ?m1" using add False none by (auto simp: add_tunnel_def Let_def split: if_splits)
    let ?m3 = "mgr_send (se_transport E) (make_tunnel_error ?i 1 ''Tunnel limit exceeded'') m2"
    have q: "mgr_path (?m1, [?i], []) (?m3, [?i], [])" by (rule mpath_aside [OF mpath_refl]) (simp add: same)
    have "mgr_path (?m1, [?i], []) (release_tunnel_id ?i ?m3, remove1 ?i [?i], [])"
      by (rule mpath_step [OF q ms_return]) simp
    then have "mgr_ok (release_tunnel_id ?i ?m3)" using mreach_path [OF r2] by (simp add: mgr_ok_def)
    then show ?thesis using s1 False by (auto simp: put_mgr_def book_def core_def)
  qed
qed

section \<open>The invariant\<close>

lemma inv_core: "core s1 = core s \<Longrightarrow> server_inv s1 = server_inv s"
  by (simp add: core_def server_inv_def owns_def)

lemma owns_put [simp]: "owns (put_mgr a m s) = owns s"
  by (simp add: owns_def put_mgr_def fun_eq_iff)

lemma inv_put:
  assumes "server_inv s" "mgr_ok m" "(\<And>f. \<not> owns s f a) \<Longrightarrow> mg_tunnels m = []"
  shows "server_inv (put_mgr a m s)"
proof -
  have "mgr_ok ((sv_mgrs s)[a := m] ! b) \<and> ((\<forall>f. \<not> owns s f b) \<longrightarrow> mg_tunnels ((sv_mgrs s)[a := m] ! b) = [])"
    if "b < length (sv_mgrs s)" for b
    using assms that by (cases "b = a") (auto simp: server_inv_def)
  with assms(1) show ?thesis
    by (simp add: server_inv_def put_mgr_def owns_def)
qed

lemma inv_mgr: "server_inv s \<Longrightarrow> a < length (sv_mgrs s) \<Longrightarrow> mgr_ok (sv_mgrs s ! a)"
  by (simp add: server_inv_def)

lemma inv_live: "server_inv s \<Longrightarrow> sv_live s f = Some a \<Longrightarrow> a < length (sv_mgrs s) \<and> mgr_ok (sv_mgrs s ! a) \<and> owns s f a"
  by (auto simp: server_inv_def owns_def)

lemma inv_held:
  assumes "server_inv s" "sv_held s f = Some (a, t)"
  shows "a < length (sv_mgrs s)" "mgr_ok (sv_mgrs s ! a)" "owns s f a" "sv_live s f = None" "sc_resume_enabled (sv_config s)"
proof -
  show o: "owns s f a" using assms(2) by (auto simp: owns_def)
  show l: "a < length (sv_mgrs s)" using assms(1) o by (simp add: server_inv_def)
  show "mgr_ok (sv_mgrs s ! a)" by (rule inv_mgr [OF assms(1) l])
  have "sv_live s f = None \<or> sv_held s f = None" using assms(1) by (simp add: server_inv_def)
  then show "sv_live s f = None" using assms(2) by simp
  show "sc_resume_enabled (sv_config s)" using assms by (simp add: server_inv_def)
qed

lemma inv_not_held:
  assumes "server_inv s" "sv_live s f = Some a"
  shows "sv_held s f = None"
proof -
  have "sv_live s f = None \<or> sv_held s f = None" using assms(1) by (simp add: server_inv_def)
  then show ?thesis using assms(2) by simp
qed

lemma inv_parts:
  assumes "server_inv s"
  shows "sv_live s f = None \<or> sv_held s f = None" "owns s f a \<Longrightarrow> a < length (sv_mgrs s)"
    "owns s f a \<Longrightarrow> owns s g a \<Longrightarrow> f = g"
    "sv_held s f = Some (a, t) \<Longrightarrow> t < sv_next_timer s \<and> sc_resume_enabled (sv_config s)"
  using assms by (simp_all add: server_inv_def)

lemma inv_unique: "server_inv s \<Longrightarrow> owns s f a \<Longrightarrow> owns s g a \<longleftrightarrow> g = f"
  by (auto simp: server_inv_def)

lemma inv_put_live:
  assumes "server_inv s" "sv_live s f = Some a" "mgr_ok m"
  shows "server_inv (put_mgr a m s)"
  using inv_put [OF assms(1,3)] inv_live [OF assms(1,2)] by blast

lemma inv_new: "server_inv (server_new cfg rules rl)"
  by (simp add: server_inv_def server_new_def owns_def)

lemma core_book [simp]: "core (book r s) = core s"
  by (simp add: core_def book_def)

lemma core_direct [simp]: "core (send_direct f fr s) = core s"
  by (simp add: core_def send_direct_def)

lemma core_resume_ack [simp]: "core (send_resume_ack f i x y st s) = core s"
  by (simp add: send_resume_ack_def)

lemma core_slot [simp]: "core (install_slot f pk s) = core s"
  by (simp add: core_def install_slot_def)

lemma core_fields [simp]:
  "core (s\<lparr>sv_limiter := rl\<rparr>) = core s" "core (s\<lparr>sv_inbound := ib\<rparr>) = core s" "core (s\<lparr>sv_rules := ru\<rparr>) = core s"
  "core (s\<lparr>sv_opens := op\<rparr>) = core s" "core (sync_rate_limiter s) = core s"
  "core (s\<lparr>sv_inbound := ib, sv_limiter := rl\<rparr>) = core s"
  by (simp_all add: core_def sync_rate_limiter_def Let_def)

lemma inv_send_via_live: "server_inv s \<Longrightarrow> server_inv (send_via_live E f fr s)"
  by (auto simp: send_via_live_def split: option.splits
      intro!: inv_put_live intro: mgr_ok_same dest: inv_live)

lemma inv_create:
  assumes inv: "server_inv s" and held: "sv_held s f = None"
  shows "server_inv (create_manager E f pk s)"
proof (cases "sv_live s f")
  case None
  let ?m = "fresh_manager E f pk s" and ?n = "length (sv_mgrs s)"
  let ?s = "s\<lparr>sv_mgrs := sv_mgrs s @ [?m], sv_live := (sv_live s)(f \<mapsto> ?n)\<rparr>"
  have ok: "mgr_ok ?m" by (rule mgr_ok_same [OF mgr_ok_new registry_fresh])
  have old: "\<not> owns s g ?n" for g using inv by (auto simp: server_inv_def)
  have own: "owns ?s g a \<longleftrightarrow> (if g = f then a = ?n else owns s g a)" for g a
    using None held by (auto simp: owns_def)
  have nf: "\<not> owns s f a" for a using None held by (simp add: owns_def)
  have "server_inv ?s"
    unfolding server_inv_def own
  proof (intro conjI allI impI)
    fix a assume a: "a < length (sv_mgrs ?s)"
    show "mgr_ok (sv_mgrs ?s ! a)" using a ok inv by (cases "a < ?n") (auto simp: nth_append server_inv_def)
    assume "\<forall>g. \<not> (if g = f then a = ?n else owns s g a)"
    then have "a \<noteq> ?n" "\<forall>g. \<not> owns s g a" using nf by (metis, metis)
    then show "mg_tunnels (sv_mgrs ?s ! a) = []" using a inv by (auto simp: nth_append server_inv_def)
  qed (use inv old held in \<open>auto simp: server_inv_def split: if_splits intro: less_SucI\<close>)
  then show ?thesis using None by (simp add: create_manager_def)
qed (use inv in \<open>simp add: create_manager_def\<close>)

lemma inv_unhold:
  assumes inv: "server_inv s" and h: "sv_held s f = Some (a, t)" and m: "mgr_ok m"
  shows "mg_tunnels m = [] \<Longrightarrow> server_inv (put_mgr a m (s\<lparr>sv_held := (sv_held s)(f := None)\<rparr>))"
    and "server_inv (put_mgr a m (s\<lparr>sv_held := (sv_held s)(f := None), sv_live := (sv_live s)(f \<mapsto> a)\<rparr>))"
proof -
  have l: "sv_live s f = None" and a: "a < length (sv_mgrs s)" and only: "owns s g a \<longleftrightarrow> g = f" for g
    using inv_held [OF inv h] inv_unique [OF inv] by auto
  let ?s1 = "put_mgr a m (s\<lparr>sv_held := (sv_held s)(f := None)\<rparr>)"
  let ?s2 = "put_mgr a m (s\<lparr>sv_held := (sv_held s)(f := None), sv_live := (sv_live s)(f \<mapsto> a)\<rparr>)"
  have o1: "owns ?s1 g b \<longleftrightarrow> g \<noteq> f \<and> owns s g b" for g b using l by (auto simp: owns_def put_mgr_def)
  have o2: "owns ?s2 g b \<longleftrightarrow> owns s g b" for g b using l h by (auto simp: owns_def put_mgr_def)
  show "server_inv ?s2"
    unfolding server_inv_def o2
  proof (intro conjI allI impI)
    fix b assume "b < length (sv_mgrs ?s2)" then have b: "b < length (sv_mgrs s)" by (simp add: put_mgr_def)
    show "mgr_ok (sv_mgrs ?s2 ! b)" using b inv m by (cases "b = a") (auto simp: put_mgr_def server_inv_def)
    assume "\<forall>g. \<not> owns s g b"
    then show "mg_tunnels (sv_mgrs ?s2 ! b) = []"
      using b inv only by (cases "b = a") (auto simp: put_mgr_def server_inv_def)
  next
    fix g show "sv_live ?s2 g = None \<or> sv_held ?s2 g = None"
      using inv_parts(1) [OF inv, of g] by (simp add: put_mgr_def)
  next
    fix g b assume "owns s g b" then show "b < length (sv_mgrs ?s2)"
      using inv_parts(2) [OF inv, of g b] by (simp add: put_mgr_def)
  next
    fix g g' b assume "owns s g b" "owns s g' b" then show "g = g'" using inv_parts(3) [OF inv] by blast
  next
    fix g b t' assume x: "sv_held ?s2 g = Some (b, t')"
    then have "sv_held s g = Some (b, t')" by (simp add: put_mgr_def split: if_splits)
    from inv_parts(4) [OF inv this] show "t' < sv_next_timer ?s2" "sc_resume_enabled (sv_config ?s2)"
      by (simp_all add: put_mgr_def)
  qed
  assume e: "mg_tunnels m = []"
  show "server_inv ?s1"
    unfolding server_inv_def o1
  proof (intro conjI allI impI)
    fix b assume "b < length (sv_mgrs ?s1)" then have b: "b < length (sv_mgrs s)" by (simp add: put_mgr_def)
    show "mgr_ok (sv_mgrs ?s1 ! b)" using b inv m by (cases "b = a") (auto simp: put_mgr_def server_inv_def)
    assume "\<forall>g. \<not> (g \<noteq> f \<and> owns s g b)"
    moreover have "\<not> owns s f b" if "b \<noteq> a" using that h l by (simp add: owns_def)
    ultimately have "b = a \<or> (\<forall>g. \<not> owns s g b)" by metis
    then show "mg_tunnels (sv_mgrs ?s1 ! b) = []" using b inv e a by (cases "b = a") (auto simp: put_mgr_def server_inv_def)
  next
    fix g show "sv_live ?s1 g = None \<or> sv_held ?s1 g = None"
      using inv_parts(1) [OF inv, of g] by (simp add: put_mgr_def)
  next
    fix g b assume "g \<noteq> f \<and> owns s g b" then show "b < length (sv_mgrs ?s1)"
      using inv_parts(2) [OF inv, of g b] by (simp add: put_mgr_def)
  next
    fix g g' b assume "g \<noteq> f \<and> owns s g b" "g' \<noteq> f \<and> owns s g' b" then show "g = g'" using inv_parts(3) [OF inv] by blast
  next
    fix g b t' assume x: "sv_held ?s1 g = Some (b, t')"
    then have "sv_held s g = Some (b, t')" by (simp add: put_mgr_def split: if_splits)
    from inv_parts(4) [OF inv this] show "t' < sv_next_timer ?s1" "sc_resume_enabled (sv_config ?s1)"
      by (simp_all add: put_mgr_def)
  qed
qed

lemma inv_unlive:
  assumes inv: "server_inv s" and l: "sv_live s f = Some a" and m: "mgr_ok m"
  shows "mg_tunnels m = [] \<Longrightarrow> server_inv (put_mgr a m (s\<lparr>sv_live := (sv_live s)(f := None)\<rparr>))"
    and "sc_resume_enabled (sv_config s) \<Longrightarrow>
      server_inv (put_mgr a m (s\<lparr>sv_live := (sv_live s)(f := None), sv_held := (sv_held s)(f \<mapsto> (a, sv_next_timer s)),
        sv_next_timer := sv_next_timer s + 1\<rparr>))"
proof -
  have h: "sv_held s f = None" and a: "a < length (sv_mgrs s)" and only: "owns s g a \<longleftrightarrow> g = f" for g
    using inv_live [OF inv l] inv_unique [OF inv] inv_not_held [OF inv l] by auto
  let ?s1 = "put_mgr a m (s\<lparr>sv_live := (sv_live s)(f := None)\<rparr>)"
  let ?s2 = "put_mgr a m (s\<lparr>sv_live := (sv_live s)(f := None), sv_held := (sv_held s)(f \<mapsto> (a, sv_next_timer s)),
        sv_next_timer := sv_next_timer s + 1\<rparr>)"
  have o1: "owns ?s1 g b \<longleftrightarrow> g \<noteq> f \<and> owns s g b" for g b using h by (auto simp: owns_def put_mgr_def)
  have o2: "owns ?s2 g b \<longleftrightarrow> owns s g b" for g b using l h by (auto simp: owns_def put_mgr_def)
  have other: "b = a \<or> (\<forall>g. \<not> owns s g b)" if "\<forall>g. \<not> (g \<noteq> f \<and> owns s g b)" for b
  proof (cases "b = a")
    case False
    then have "\<not> owns s f b" using l h by (simp add: owns_def)
    then show ?thesis using that by metis
  qed simp
  show "server_inv ?s2" if res: "sc_resume_enabled (sv_config s)"
    unfolding server_inv_def o2
  proof (intro conjI allI impI)
    fix b assume "b < length (sv_mgrs ?s2)" then have b: "b < length (sv_mgrs s)" by (simp add: put_mgr_def)
    show "mgr_ok (sv_mgrs ?s2 ! b)" using b inv m by (cases "b = a") (auto simp: put_mgr_def server_inv_def)
    assume "\<forall>g. \<not> owns s g b"
    then show "mg_tunnels (sv_mgrs ?s2 ! b) = []"
      using b inv only by (cases "b = a") (auto simp: put_mgr_def server_inv_def)
  qed (use inv l res in \<open>auto simp: server_inv_def put_mgr_def split: if_splits intro: less_SucI\<close>)
  assume e: "mg_tunnels m = []"
  show "server_inv ?s1"
    unfolding server_inv_def o1
  proof (intro conjI allI impI)
    fix b assume "b < length (sv_mgrs ?s1)" then have b: "b < length (sv_mgrs s)" by (simp add: put_mgr_def)
    show "mgr_ok (sv_mgrs ?s1 ! b)" using b inv m by (cases "b = a") (auto simp: put_mgr_def server_inv_def)
    assume "\<forall>g. \<not> (g \<noteq> f \<and> owns s g b)"
    from other [OF this] show "mg_tunnels (sv_mgrs ?s1 ! b) = []"
      using b inv e a by (cases "b = a") (auto simp: put_mgr_def server_inv_def)
  qed (use inv l in \<open>auto simp: server_inv_def put_mgr_def\<close>)
qed

lemma inv_setup:
  assumes inv: "server_inv s" and e: "setup_tunnel_manager E f pk s = Some s1"
  shows "server_inv s1"
proof -
  let ?s = "install_slot f pk s"
  have inv1: "server_inv ?s" using inv inv_core [OF core_slot] by simp
  show ?thesis
  proof (cases "sv_live ?s f")
    case (Some a)
    then show ?thesis using e inv1 by (simp add: setup_tunnel_manager_def classify_connected_event_def Let_def)
  next
    case live: None
    show ?thesis
    proof (cases "sv_held ?s f")
      case None
      then show ?thesis using e live inv_create [OF inv1 None]
        by (auto simp: setup_tunnel_manager_def classify_connected_event_def Let_def)
    next
      case (Some p)
      then obtain a t where h: "sv_held ?s f = Some (a, t)" by (cases p) auto
      note res = inv_held(5,1,2) [OF inv1 h]
      let ?m = "apply_tunnel_cap E (sv_limiter ?s) f pk (arm_manager (sv_config ?s) (se_now E) (sv_mgrs ?s ! a))"
      have "mgr_ok ?m" by (rule mgr_ok_same [OF res(3)]) simp
      from inv_unhold(2) [OF inv1 h this] show ?thesis
        using e live h res by (auto simp: setup_tunnel_manager_def classify_connected_event_def resurrect_manager_def Let_def)
    qed
  qed
qed

lemma close_all_ok: "mgr_ok m \<Longrightarrow> close_all fuel env mode m = Some m1 \<Longrightarrow> mgr_ok m1"
  using mgr_ok_exec [of m fuel env "MC_close_all mode"] by simp

lemma inv_teardown:
  assumes inv: "server_inv s" and e: "teardown_tunnel_manager E f mode s = Some s1"
  shows "server_inv s1"
proof -
  let ?s = "s\<lparr>sv_inbound := (sv_inbound s)(f := None)\<rparr>"
  have inv1: "server_inv ?s" using inv inv_core [OF core_fields(2)] by simp
  show ?thesis
  proof (cases "sv_live ?s f")
    case None
    then show ?thesis using e inv1 by (simp add: teardown_tunnel_manager_def Let_def)
  next
    case (Some a)
    let ?m = "disable_reaper (disable_keepalive (sv_mgrs ?s ! a))"
    have m: "mgr_ok ?m" using inv_live [OF inv1 Some] mgr_ok_same registry_disable by blast
    show ?thesis
    proof (cases "sc_resume_enabled (sv_config s) \<and> mg_tunnels ?m \<noteq> []")
      case True
      let ?s2 = "put_mgr a ?m (?s\<lparr>sv_live := (sv_live ?s)(f := None), sv_held := (sv_held ?s)(f \<mapsto> (a, sv_next_timer ?s)),
        sv_next_timer := sv_next_timer ?s + 1\<rparr>)"
      let ?s3 = "put_mgr a ?m (?s\<lparr>sv_live := (sv_live ?s)(f := None)\<rparr>)"
      have s1: "s1 = ?s3\<lparr>sv_held := (sv_held ?s3)(f \<mapsto> (a, sv_next_timer ?s3)), sv_next_timer := sv_next_timer ?s3 + 1\<rparr>"
        using e Some True unfolding teardown_tunnel_manager_def Let_def by simp
      have c: "core s1 = core ?s2" unfolding s1 core_def put_mgr_def by simp
      show ?thesis unfolding inv_core [OF c] by (rule inv_unlive(2) [OF inv1 Some m]) (use True in simp)
    next
      case False
      then obtain m1 where c: "close_all (se_fuel E) (se_env E) mode ?m = Some m1"
        and s1: "s1 = put_mgr a m1 (put_mgr a ?m (?s\<lparr>sv_live := (sv_live s)(f := None)\<rparr>))"
        using e Some by (auto simp: teardown_tunnel_manager_def Let_def)
      have "s1 = put_mgr a m1 (?s\<lparr>sv_live := (sv_live s)(f := None)\<rparr>)" using s1 by (simp add: put_mgr_def)
      then show ?thesis using inv_unlive(1) [OF inv1 Some close_all_ok [OF m c]] close_all_tunnels [OF c] by simp
    qed
  qed
qed

lemma inv_prune:
  assumes inv: "server_inv s" and e: "prune_held E f t s = Some s1"
  shows "server_inv s1"
proof (cases "\<exists>a. sv_held s f = Some (a, t)")
  case True
  then obtain a where h: "sv_held s f = Some (a, t)" ..
  then obtain m1 where c: "close_all (se_fuel E) (se_env E) TM_Graceful (sv_mgrs s ! a) = Some m1"
    and s1: "s1 = put_mgr a m1 (s\<lparr>sv_held := (sv_held s)(f := None)\<rparr>)"
    using e by (auto simp: prune_held_def)
  then show ?thesis using inv_held(2) [OF inv h] inv_unhold(1) [OF inv h close_all_ok [OF _ c]] close_all_tunnels [OF c] s1 by simp
qed (use inv e in \<open>auto simp: prune_held_def split: option.splits if_splits\<close>)

lemma inv_verdict:
  "server_inv s \<Longrightarrow> teardown_after_keepalive_verdict E f a s = Some s1 \<Longrightarrow> server_inv s1"
  by (auto simp: teardown_after_keepalive_verdict_def split: if_splits dest: inv_teardown)

lemma inv_drop:
  assumes "server_inv s" "sv_live s f = Some a" "drop_tunnel E a i addr s = Some s1"
  shows "server_inv s1"
proof -
  obtain b m1 where r: "remove_tunnel_if (se_fuel E) (se_env E) i (Some addr) (sv_mgrs s ! a) = Some (b, m1)"
    and s1: "s1 = put_mgr a m1 s"
    using assms(3) by (auto simp: drop_tunnel_def)
  have "mgr_ok m1"
    using mgr_ok_exec [of "sv_mgrs s ! a" "se_fuel E" "se_env E" "MC_remove_tunnel_if i (Some addr)"] r
      inv_live [OF assms(1,2)] by simp
  then show ?thesis using inv_put_live [OF assms(1,2)] s1 by simp
qed

lemma inv_accept:
  assumes inv: "server_inv s" and e: "accept_open E f frame p s = Some s1"
  shows "server_inv s1"
proof (cases "sv_live s f")
  case None
  then show ?thesis using e inv inv_core [OF core_book] by (auto simp: accept_open_def)
next
  case l: (Some a)
  note m0 = inv_live [OF inv l]
  obtain b m where h: "handle_incoming_open (se_transport E) frame (sv_mgrs s ! a) = (b, m)" by force
  show ?thesis
  proof (cases b)
    case False
    then have "registry m = registry (sv_mgrs s ! a)" using registry_reject h by simp
    then have "mgr_ok m" using m0 mgr_ok_same by blast
    then have "server_inv (put_mgr a m s)" by (rule inv_put_live [OF inv l])
    then show ?thesis using e l h False by (simp add: accept_open_def)
  next
    case True
    then have "register_open E f a (fr_tunnel_id frame) (op_host p) (op_port p) m s = Some s1"
      using e l h by (simp add: accept_open_def)
    moreover have "handle_incoming_open (se_transport E) frame (sv_mgrs s ! a) = (True, m)" using h True by simp
    ultimately obtain m1 where m1: "mgr_ok m1" and "core s1 = core (put_mgr a m1 s)"
      using register_open_ok m0 by blast
    then show ?thesis using inv_core inv_put_live [OF inv l m1] by blast
  qed
qed

text \<open>What \<open>handle_tunnel_open\<close> does, by the outcome of the limiter and the rules.\<close>

abbreviation open_request :: "string \<Rightarrow> TunnelOpenPayload \<Rightarrow> AccessRequest" where
  "open_request pk p \<equiv> \<lparr>ar_friend_pk = pk, ar_target_host = op_host p, ar_target_port = op_port p,
                        ar_source_ip = None, ar_source_port = None\<rparr>"

lemma handle_open_cases:
  assumes "handle_tunnel_open E f frame s = Some s1"
  obtains (malformed) "as_tunnel_open frame = None" "s1 = s"
  | (refused) rl x where "s1 = send_via_live E f x (book OR_Denied (s\<lparr>sv_limiter := rl\<rparr>))"
  | (allowed) p rl s2 where "as_tunnel_open frame = Some p"
      "rl_try_consume_open (se_pk_hex E f) (se_now E) (sv_limiter s) = (True, rl)"
      "evaluate (open_request (se_pk_hex E f) p) (sv_rules s) = Allowed"
      "find_or_setup_manager E f (se_pk_hex E f) (s\<lparr>sv_limiter := rl\<rparr>) = Some s2" "accept_open E f frame p s2 = Some s1"
proof (cases "as_tunnel_open frame")
  case None
  then show ?thesis using assms malformed by (simp add: handle_tunnel_open_def)
next
  case (Some p)
  obtain adm rl where rl: "rl_try_consume_open (se_pk_hex E f) (se_now E) (sv_limiter s) = (adm, rl)" by force
  show ?thesis
  proof (cases "adm \<and> evaluate (open_request (se_pk_hex E f) p) (sv_rules s) = Allowed")
    case False
    then show ?thesis using assms Some rl refused
      by (auto simp: handle_tunnel_open_def Let_def split: if_splits)
  next
    case True
    then show ?thesis using assms Some rl allowed
      by (auto simp: handle_tunnel_open_def Let_def bind_eq_Some_conv)
  qed
qed

lemma inv_open:
  assumes inv: "server_inv s" and e: "handle_tunnel_open E f frame s = Some s1"
  shows "server_inv s1"
  using e
proof (cases rule: handle_open_cases)
  case (refused rl x)
  have "core (book OR_Denied (s\<lparr>sv_limiter := rl\<rparr>)) = core s" by simp
  then show ?thesis using refused inv inv_core inv_send_via_live by blast
next
  case (allowed p rl s2)
  have "server_inv (s\<lparr>sv_limiter := rl\<rparr>)" using inv inv_core [OF core_fields(1)] by simp
  then have "server_inv s2"
    using allowed(4) inv_setup by (auto simp: find_or_setup_manager_def split: if_splits)
  then show ?thesis using allowed(5) inv_accept by blast
qed (use inv in simp)

lemma inv_resume:
  assumes inv: "server_inv s" and e: "handle_resume_request E ab f frame s = Some s1"
  shows "server_inv s1"
proof -
  have ack: "server_inv (send_resume_ack f i x y st s)" for i x y st using inv inv_core [OF core_resume_ack] by simp
  have live: "sv_live (send_resume_ack f i x y st s) f = sv_live s f" for i x y st
    by (simp add: send_resume_ack_def send_direct_def)
  have drop: "server_inv s1" if "sv_live s f = Some a" "drop_tunnel E a i addr (send_resume_ack f i' x y st s) = Some s1"
    for a i i' addr x y st
    by (rule inv_drop [OF ack _ that(2), of f]) (simp add: live that(1))
  show ?thesis
    using e ack drop inv
    by (auto simp: handle_resume_request_def resume_tunnel_def Let_def split: option.splits if_splits)
qed

lemma inv_dispatch:
  assumes inv: "server_inv s" and e: "dispatch_inbound_frame E ab f frame s = Some s1"
  shows "server_inv s1"
proof -
  have route: "server_inv (put_mgr a m s)"
    if "sv_live s f = Some a" "route_frame (se_fuel E) (se_env E) (se_transport E) (se_now E) frame (sv_mgrs s ! a) = Some m" for a m
  proof -
    have "mgr_ok m"
      using mgr_ok_exec [of "sv_mgrs s ! a" "se_fuel E" "se_env E" "MC_route_frame (se_transport E) (se_now E) frame"]
        that(2) inv_live [OF inv that(1)] by simp
    then show ?thesis by (rule inv_put_live [OF inv that(1)])
  qed
  have direct: "server_inv (send_direct f x s)" for x using inv inv_core [OF core_direct] by simp
  show ?thesis
    using e inv route direct inv_open [OF inv] inv_resume [OF inv]
    by (auto simp: dispatch_inbound_frame_def split: if_splits option.splits)
qed

lemma inv_packets: "server_inv s \<Longrightarrow> dispatch_packets E ab f ps s = Some s1 \<Longrightarrow> server_inv s1"
proof (induction ps arbitrary: s)
  case (Cons p ps)
  then show ?case by (auto simp: bind_eq_Some_conv split: sum.splits dest: inv_dispatch)
qed simp

lemma inv_slot_packets:
  assumes "server_inv s" "dispatch_packets E ab f ps (s\<lparr>sv_inbound := ib, sv_limiter := rl\<rparr>) = Some s1"
  shows "server_inv s1"
  by (rule inv_packets [OF _ assms(2)]) (use assms(1) inv_core [OF core_fields(6)] in simp)

lemma inv_credit: "server_inv s \<Longrightarrow> server_inv (credit_peer E f s)"
  by (auto simp: credit_peer_def split: option.splits intro!: inv_put_live intro: mgr_ok_same dest: inv_live)

lemma inv_packet: "server_inv s \<Longrightarrow> on_lossless_packet E ab clk f p s = Some s1 \<Longrightarrow> server_inv s1"
  by (auto simp: on_lossless_packet_def Let_def split: if_splits sum.splits option.splits prod.splits
      dest: inv_dispatch [OF inv_credit] inv_slot_packets [OF inv_credit])

lemma inv_cap: "server_inv s \<Longrightarrow> a < length (sv_mgrs s) \<Longrightarrow> server_inv (put_mgr a (apply_tunnel_cap E rl f pk (sv_mgrs s ! a)) s)"
proof (rule inv_put)
  assume inv: "server_inv s" and a: "a < length (sv_mgrs s)"
  show "mgr_ok (apply_tunnel_cap E rl f pk (sv_mgrs s ! a))" by (rule mgr_ok_same [OF inv_mgr [OF inv a]]) simp
  assume "\<And>f. \<not> owns s f a"
  then show "mg_tunnels (apply_tunnel_cap E rl f pk (sv_mgrs s ! a)) = []"
    using tunnels_registry [OF registry_cap] inv a by (simp add: server_inv_def)
qed

lemma inv_cap_one: "server_inv s \<Longrightarrow> server_inv (reapply_cap E f s)"
proof -
  assume inv: "server_inv s"
  let ?put = "\<lambda>a s. put_mgr a (apply_tunnel_cap E (sv_limiter s) f [] (sv_mgrs s ! a)) s"
  let ?addrs = "(case sv_live s f of Some a \<Rightarrow> [a] | None \<Rightarrow> []) @ (case sv_held s f of Some (a, _) \<Rightarrow> [a] | None \<Rightarrow> [])"
  have "server_inv (fold ?put addrs s)" if "\<forall>a \<in> set addrs. a < length (sv_mgrs s)" for addrs
    using inv that
  proof (induction addrs arbitrary: s)
    case (Cons a as)
    then show ?case using inv_cap [of s a] by (simp add: put_mgr_def)
  qed simp
  moreover have "\<forall>a \<in> set ?addrs. a < length (sv_mgrs s)"
    using inv_live [OF inv, of f] inv_held(1) [OF inv, of f] by (cases "sv_live s f"; cases "sv_held s f") auto
  ultimately show ?thesis unfolding reapply_cap_def by blast
qed

lemma inv_caps: "server_inv s \<Longrightarrow> server_inv (reapply_tunnel_caps E fs s)"
  by (induction fs arbitrary: s) (simp_all add: reapply_tunnel_caps_def inv_cap_one)

lemma inv_reload: "server_inv s \<Longrightarrow> reload_rules E fs r s = Inr s1 \<Longrightarrow> server_inv s1"
  using inv_core [OF trans [OF core_fields(5) core_fields(3)]]
  by (auto simp: reload_rules_def split: option.splits sum.splits intro!: inv_caps)

lemma inv_exec: "server_inv s \<Longrightarrow> exec_server E c s = Some s1 \<Longrightarrow> server_inv s1"
proof (cases c)
  case (SC_Manager a mc)
  assume inv: "server_inv s" and e: "exec_server E c s = Some s1"
  show ?thesis
  proof (cases "a < length (sv_mgrs s)")
    case True
    then obtain m where m: "exec_routine (se_fuel E) (se_env E) mc (sv_mgrs s ! a) = Some m" "s1 = put_mgr a m s"
      using e SC_Manager by auto
    have "server_inv (put_mgr a m s)"
      by (rule inv_put [OF inv mgr_ok_exec [OF inv_mgr [OF inv True] m(1)]])
         (use exec_tunnels_subset [OF m(1)] inv True in \<open>auto simp: server_inv_def\<close>)
    then show ?thesis using m(2) by simp
  qed (use e SC_Manager inv in auto)
next
  case (SC_Tunnel a x tc)
  assume inv: "server_inv s" and e: "exec_server E c s = Some s1"
  show ?thesis
  proof (cases "a < length (sv_mgrs s) \<and> x < length (mg_heap (sv_mgrs s ! a))")
    case True
    then obtain m where m: "on_tunnel x (exec_call (se_fuel E) (se_env E) tc) (sv_mgrs s ! a) = Some m" "s1 = put_mgr a m s"
      using e SC_Tunnel by auto
    have ok: "mgr_ok (sv_mgrs s ! a)" using inv_mgr [OF inv] True by simp
    have "mgr_path (sv_mgrs s ! a, [], []) (m, [], [])"
      by (rule mpath_on_tunnel [OF _ _ moves_call m(1)]) (use True ok in \<open>simp_all add: mgr_ok_def\<close>)
    then have "mgr_ok m" by (rule mgr_ok_path [OF ok])
    then have "server_inv (put_mgr a m s)"
      by (rule inv_put [OF inv]) (use on_tunnel_fields(1) [OF m(1)] inv True in \<open>auto simp: server_inv_def\<close>)
    then show ?thesis using m(2) by simp
  qed (use e SC_Tunnel inv in auto)
qed (auto simp: on_friend_connection_def inbound_retry_fires_def refresh_inbound_throttle_def Let_def
      split: if_splits option.splits prod.splits sum.splits
      dest: inv_setup inv_teardown inv_packet inv_slot_packets inv_prune inv_verdict inv_reload)

lemma run_server_Nil: "run_server [] = Some"
  by (simp add: fun_eq_iff)

lemma run_server_append: "run_server (cs @ ds) s = Option.bind (run_server cs s) (run_server ds)"
proof (induction cs arbitrary: s)
  case (Cons c cs)
  then show ?case by (cases "exec_server (fst c) (snd c) s") simp_all
qed simp

lemma inv_run: "server_inv s \<Longrightarrow> run_server cs s = Some s1 \<Longrightarrow> server_inv s1"
proof (induction cs arbitrary: s)
  case (Cons c cs)
  then show ?case by (auto simp: bind_eq_Some_conv dest: inv_exec)
qed simp

section \<open>What the server connects to\<close>

definition permitted :: "ServerEnv \<Rightarrow> RulesEngine \<Rightarrow> ServerOpen \<Rightarrow> bool" where
  "permitted E rules x \<longleftrightarrow>
     evaluate \<lparr>ar_friend_pk = se_pk_hex E (so_friend x), ar_target_host = so_host x, ar_target_port = so_port x,
               ar_source_ip = None, ar_source_port = None\<rparr> rules = Allowed"

text \<open>The rules stay and every new open is permitted by them.\<close>

definition opens_permitted :: "ServerEnv \<Rightarrow> Server \<Rightarrow> Server \<Rightarrow> bool" where
  "opens_permitted E s s1 \<longleftrightarrow>
     sv_rules s1 = sv_rules s \<and> (\<exists>xs. sv_opens s1 = sv_opens s @ xs \<and> (\<forall>x \<in> set xs. permitted E (sv_rules s) x))"

lemma op_same: "sv_rules s1 = sv_rules s \<Longrightarrow> sv_opens s1 = sv_opens s \<Longrightarrow> opens_permitted E s s1"
  by (simp add: opens_permitted_def)

lemma op_trans: "opens_permitted E s s1 \<Longrightarrow> opens_permitted E s1 s2 \<Longrightarrow> opens_permitted E s s2"
  unfolding opens_permitted_def by (elim conjE exE, simp, metis Un_iff)

lemma op_fields [simp]:
  "sv_rules (put_mgr a m s) = sv_rules s" "sv_opens (put_mgr a m s) = sv_opens s"
  "sv_rules (book r s) = sv_rules s" "sv_opens (book r s) = sv_opens s"
  "sv_rules (send_direct f x s) = sv_rules s" "sv_opens (send_direct f x s) = sv_opens s"
  "sv_rules (send_resume_ack f i u v st s) = sv_rules s" "sv_opens (send_resume_ack f i u v st s) = sv_opens s"
  "sv_rules (install_slot f pk s) = sv_rules s" "sv_opens (install_slot f pk s) = sv_opens s"
  "sv_rules (create_manager E f pk s) = sv_rules s" "sv_opens (create_manager E f pk s) = sv_opens s"
  "sv_rules (send_via_live E f x s) = sv_rules s" "sv_opens (send_via_live E f x s) = sv_opens s"
  "sv_rules (credit_peer E f s) = sv_rules s" "sv_opens (credit_peer E f s) = sv_opens s"
  by (simp_all add: put_mgr_def book_def send_direct_def send_resume_ack_def install_slot_def create_manager_def
      send_via_live_def credit_peer_def split: option.split)

lemma op_setup:
  "setup_tunnel_manager E f pk s = Some s1 \<Longrightarrow> sv_rules s1 = sv_rules s \<and> sv_opens s1 = sv_opens s"
  by (auto simp: setup_tunnel_manager_def resurrect_manager_def Let_def
      split: ConnectedManagerAction.splits option.splits if_splits)

lemma op_teardown:
  "teardown_tunnel_manager E f mode s = Some s1 \<Longrightarrow> sv_rules s1 = sv_rules s \<and> sv_opens s1 = sv_opens s"
  by (auto simp: teardown_tunnel_manager_def Let_def split: option.splits if_splits)

lemma op_accept:
  assumes "accept_open E f frame p s = Some s1" "permitted E (sv_rules s) \<lparr>so_friend = f, so_id = 0, so_manager = 0,
      so_tunnel = 0, so_host = op_host p, so_port = op_port p\<rparr>"
  shows "opens_permitted E s s1"
proof -
  have "s1 = book OR_Failed s \<or> (\<exists>a m. s1 = put_mgr a m s)
      \<or> (\<exists>a m. register_open E f a (fr_tunnel_id frame) (op_host p) (op_port p) m s = Some s1)"
    using assms(1) by (auto simp: accept_open_def split: option.splits prod.splits if_splits)
  then show ?thesis
    using assms(2)
    by (auto simp: opens_permitted_def permitted_def register_open_def bind_eq_Some_conv new_object_def Let_def
        split: if_splits)
qed

lemma op_open:
  assumes "handle_tunnel_open E f frame s = Some s1"
  shows "opens_permitted E s s1"
  using assms
proof (cases rule: handle_open_cases)
  case (allowed p rl s2)
  have same: "sv_rules s2 = sv_rules s" "sv_opens s2 = sv_opens s"
    using allowed(4) op_setup [of E f "se_pk_hex E f" "s\<lparr>sv_limiter := rl\<rparr>" s2]
    by (auto simp: find_or_setup_manager_def split: if_splits)
  have "opens_permitted E s2 s1"
    by (rule op_accept [OF allowed(5)]) (use allowed(3) same in \<open>simp add: permitted_def\<close>)
  then show ?thesis using same by (simp add: opens_permitted_def)
qed (simp_all add: op_same)

lemma op_resume: "handle_resume_request E ab f frame s = Some s1 \<Longrightarrow> opens_permitted E s s1"
  by (auto simp: handle_resume_request_def resume_tunnel_def drop_tunnel_def Let_def intro!: op_same
      split: option.splits if_splits)

lemma op_dispatch: "dispatch_inbound_frame E ab f frame s = Some s1 \<Longrightarrow> opens_permitted E s s1"
  by (auto simp: dispatch_inbound_frame_def split: if_splits option.splits intro: op_same op_open op_resume)

lemma op_packets: "dispatch_packets E ab f ps s = Some s1 \<Longrightarrow> opens_permitted E s s1"
proof (induction ps arbitrary: s)
  case (Cons p ps)
  then show ?case
    by (auto simp: bind_eq_Some_conv split: sum.splits dest: op_dispatch intro: op_trans)
qed (simp add: op_same)

lemma op_slot_packets:
  "dispatch_packets E ab f ps (s\<lparr>sv_inbound := ib, sv_limiter := rl\<rparr>) = Some s1 \<Longrightarrow> opens_permitted E s s1"
  by (drule op_packets) (simp add: opens_permitted_def)

lemma op_packet: "on_lossless_packet E ab clk f p s = Some s1 \<Longrightarrow> opens_permitted E s s1"
proof -
  assume e: "on_lossless_packet E ab clk f p s = Some s1"
  have c: "opens_permitted E s (credit_peer E f s)" by (simp add: op_same)
  from e show ?thesis
    by (auto simp: on_lossless_packet_def Let_def split: if_splits sum.splits option.splits prod.splits
        dest!: op_dispatch op_slot_packets intro: op_same op_trans [OF c])
qed

section \<open>Properties\<close>

text \<open>Claim C9: the server's managers are accounted for. In every run of the server (friends connecting and
  leaving in any order, packets, retries, reloads, expired holds, keepalive verdicts and the managers' own
  timers), no friend has both a live and a held manager, no manager belongs to two friends, and a manager
  that neither map names has no tunnel left, so no target connection is kept by a forgotten manager.\<close>

theorem managers_accounted_for:
  assumes "run_server cs (server_new cfg rules rl) = Some s"
  shows "(sv_live s f = None \<or> sv_held s f = None) \<and> (owns s f a \<longrightarrow> owns s g a \<longrightarrow> f = g)
    \<and> (a < length (sv_mgrs s) \<longrightarrow> (\<forall>h. \<not> owns s h a) \<longrightarrow> mg_tunnels (sv_mgrs s ! a) = [])"
proof -
  have inv: "server_inv s" by (rule inv_run [OF inv_new assms])
  show ?thesis using inv_parts(1,3) [OF inv] inv by (auto simp: server_inv_def)
qed

text \<open>Claim C10: the server uses its managers only through their interface. Every manager of a running server
  is in a state that the manager's own transition system reaches with no identifier lent out and no teardown
  half done, so everything proved of reachable managers and of their tunnels holds inside the server.\<close>

theorem server_refines_managers:
  assumes "run_server cs (server_new cfg rules rl) = Some s" and "a < length (sv_mgrs s)"
  shows "mgr_reachable (sv_mgrs s ! a, [], [])"
  using inv_mgr [OF inv_run [OF inv_new assms(1)] assms(2)] by (simp add: mgr_ok_def)

text \<open>Claim C8: the server opens connections only to targets that the rules allow. Whatever a single event
  does, every open it starts (the target that is handed to the resolver) is one that the rules in force
  allow for the friend that asked; opens already under way are kept.\<close>

theorem connects_only_permitted:
  assumes "exec_server E c s = Some s1"
  shows "\<exists>xs. sv_opens s1 = sv_opens s @ xs \<and> (\<forall>x \<in> set xs. permitted E (sv_rules s) x)"
proof (cases "\<exists>fs r. c = SC_Reload fs r")
  case True
  have "sv_opens (reapply_tunnel_caps E fs t) = sv_opens t" for fs t
  proof (induction fs arbitrary: t)
    case (Cons f fs)
    have "sv_opens (fold (\<lambda>a s. put_mgr a (apply_tunnel_cap E (sv_limiter s) f [] (sv_mgrs s ! a)) s) as t) = sv_opens t" for as t
      by (induction as arbitrary: t) simp_all
    then have "sv_opens (reapply_cap E f t) = sv_opens t" unfolding reapply_cap_def by blast
    then show ?case using Cons by (simp add: reapply_tunnel_caps_def)
  qed (simp add: reapply_tunnel_caps_def)
  then have "sv_opens s1 = sv_opens s"
    using assms True by (auto simp: reload_rules_def sync_rate_limiter_def Let_def split: option.splits sum.splits)
  then show ?thesis by simp
next
  case False
  have "opens_permitted E s s1"
  proof (cases c)
    case (SC_Reload fs r)
    then show ?thesis using False by blast
  qed (use assms in \<open>auto simp: on_friend_connection_def inbound_retry_fires_def refresh_inbound_throttle_def
      prune_held_def teardown_after_keepalive_verdict_def Let_def
      split: if_splits option.splits prod.splits
      dest: op_setup op_teardown op_packet op_slot_packets intro: op_same\<close>)
  then show ?thesis by (auto simp: opens_permitted_def)
qed

text \<open>Claim C11: a friend that comes back within the hold finds its tunnels. With resume enabled, when a friend
  whose manager has tunnels disconnects and connects again, the same manager is live again with the same
  registry of tunnels and identifiers, and nothing stays in the hold.\<close>

theorem reconnect_restores_tunnels:
  assumes "run_server cs (server_new cfg rules rl) = Some s" and "sv_live s f = Some a"
    and "sc_resume_enabled (sv_config s)" and "mg_tunnels (sv_mgrs s ! a) \<noteq> []"
  shows "\<exists>s1 s2 t. on_friend_connection E f False s = Some s1 \<and> sv_held s1 f = Some (a, t) \<and> sv_live s1 f = None
    \<and> on_friend_connection E' f True s1 = Some s2 \<and> sv_live s2 f = Some a \<and> sv_held s2 f = None
    \<and> registry (sv_mgrs s2 ! a) = registry (sv_mgrs s ! a)"
proof -
  have a: "a < length (sv_mgrs s)" using inv_live [OF inv_run [OF inv_new assms(1)] assms(2)] by simp
  let ?m = "disable_reaper (disable_keepalive (sv_mgrs s ! a))"
  let ?s0 = "put_mgr a ?m (s\<lparr>sv_inbound := (sv_inbound s)(f := None), sv_live := (sv_live s)(f := None)\<rparr>)"
  let ?s1 = "?s0\<lparr>sv_held := (sv_held ?s0)(f \<mapsto> (a, sv_next_timer ?s0)), sv_next_timer := sv_next_timer ?s0 + 1\<rparr>"
  have ne: "mg_tunnels ?m \<noteq> []" using assms(4) tunnels_registry [OF registry_disable] by metis
  have d: "on_friend_connection E f False s = Some ?s1"
    using assms(2,3) ne by (simp add: on_friend_connection_def teardown_tunnel_manager_def Let_def put_mgr_def)
  define s2 where "s2 = install_slot f (se_pk_hex E' f) ?s1"
  let ?m2 = "apply_tunnel_cap E' (sv_limiter s2) f (se_pk_hex E' f) (arm_manager (sv_config s2) (se_now E') ?m)"
  have s2: "sv_live s2 f = None" "sv_held s2 f = Some (a, sv_next_timer s)" "sc_resume_enabled (sv_config s2)"
    "sv_mgrs s2 ! a = ?m" "a < length (sv_mgrs s2)"
    using a assms(3) by (simp_all add: s2_def install_slot_def put_mgr_def)
  have "on_friend_connection E' f True ?s1 =
      Some (put_mgr a ?m2 (s2\<lparr>sv_held := (sv_held s2)(f := None), sv_live := (sv_live s2)(f \<mapsto> a)\<rparr>))"
    using s2 unfolding on_friend_connection_def setup_tunnel_manager_def Let_def s2_def [symmetric]
    by (simp add: classify_connected_event_def resurrect_manager_def Let_def)
  then show ?thesis using d s2(5)
    by (intro exI conjI) (assumption | simp add: put_mgr_def)+
qed

lemma remove_erases:
  assumes "find_tunnel i m = Some a" "remove_tunnel_if fuel env i (Some a) m = Some (b, m1)"
  shows "find_tunnel i m1 = None"
proof -
  obtain m2 where "on_tunnel a (teardown fuel env RR_DrainIfClosed) (install_hook i a (erase_tunnel i m)) = Some m2"
    "m1 = post_event (ME_Closed i) m2"
    using assms by (auto simp: remove_tunnel_if_def remove_tunnel_impl_def bind_eq_Some_conv)
  then have "mg_tunnels m1 = filter (\<lambda>e. fst e \<noteq> i) (mg_tunnels m)"
    using on_tunnel_fields(1) by (fastforce simp: post_event_def install_hook_def erase_tunnel_def)
  then show ?thesis by (auto simp: find_tunnel_def map_of_eq_None_iff)
qed

definition ack_packet :: "u32 \<Rightarrow> u16 \<Rightarrow> u64 \<Rightarrow> u64 \<Rightarrow> TunnelResumeStatus \<Rightarrow> u32 \<times> byte list" where
  "ack_packet f i x y st = (f, kLosslessPacketByte # serialize (make_tunnel_resume_ack
     \<lparr>ra_new_tunnel_id = i, ra_server_recv_offset = x, ra_server_send_offset = y, ra_status = st\<rparr>))"

lemma resume_ack_out: "sv_out (send_resume_ack f i x y st s) = sv_out s @ [ack_packet f i x y st]"
  by (simp add: send_resume_ack_def send_direct_def ack_packet_def)

lemma drop_out:
  assumes "drop_tunnel E a i addr (send_resume_ack f i x y st s) = Some s1" "find_tunnel i (sv_mgrs s ! a) = Some addr"
    "a < length (sv_mgrs s)"
  shows "sv_out s1 = sv_out s @ [ack_packet f i x y st]" "find_tunnel i (sv_mgrs s1 ! a) = None"
proof -
  have same: "sv_mgrs (send_resume_ack f i x y st s) = sv_mgrs s" by (simp add: send_resume_ack_def send_direct_def)
  obtain b m1 where r: "remove_tunnel_if (se_fuel E) (se_env E) i (Some addr) (sv_mgrs s ! a) = Some (b, m1)"
    and s1: "s1 = put_mgr a m1 (send_resume_ack f i x y st s)"
    using assms(1) by (auto simp: drop_tunnel_def same)
  show "sv_out s1 = sv_out s @ [ack_packet f i x y st]" by (simp add: s1 put_mgr_def resume_ack_out)
  show "find_tunnel i (sv_mgrs s1 ! a) = None"
    using remove_erases [OF assms(2) r] assms(3) by (simp add: s1 put_mgr_def same)
qed

text \<open>The condition under which a request may be granted, over the tunnel it names.\<close>

definition resume_granted :: "bool \<Rightarrow> u32 \<Rightarrow> TunnelResumeRequestPayload \<Rightarrow> Server \<Rightarrow> nat \<Rightarrow> nat \<Rightarrow> bool" where
  "resume_granted ab f req s a addr \<longleftrightarrow>
     sc_resume_enabled (sv_config s) \<and> sv_live s f = Some a
     \<and> find_tunnel (rr_prior_tunnel_id req) (sv_mgrs s ! a) = Some addr
     \<and> (let t = tunnel_at addr (sv_mgrs s ! a)
        in resumable t
           \<and> (sc_on_gap (sv_config s) = ''close'' \<longrightarrow>
                \<not> bytes_emitted t > rr_last_local_recv_offset req \<and> \<not> rr_last_local_send_offset req > bytes_received t))
     \<and> \<not> ab"

lemma resume_ack_mgrs: "sv_mgrs (send_resume_ack f i x y st s) = sv_mgrs s"
  by (simp add: send_resume_ack_def send_direct_def)

lemma resume_found:
  assumes "a < length (sv_mgrs s)" "sc_resume_enabled (sv_config s)" "sv_live s f = Some a"
    and "find_tunnel (rr_prior_tunnel_id req) (sv_mgrs s ! a) = Some addr" and "resume_tunnel E ab f req a addr s = Some s1"
  shows "if resume_granted ab f req s a addr
    then sv_out s1 = sv_out s @ [ack_packet f (rr_prior_tunnel_id req) (bytes_received (tunnel_at addr (sv_mgrs s ! a)))
           (bytes_emitted (tunnel_at addr (sv_mgrs s ! a))) RS_Ok] \<and> sv_mgrs s1 = sv_mgrs s
    else (\<exists>x y. sv_out s1 = sv_out s @ [ack_packet f (rr_prior_tunnel_id req) x y RS_TooOld])
      \<and> find_tunnel (rr_prior_tunnel_id req) (sv_mgrs s1 ! a) = None"
  using assms(5) drop_out [OF _ assms(4,1)] assms(2-4)
  by (auto simp: resume_granted_def resume_offsets_have_gap_def resume_tunnel_def Let_def resume_ack_out resume_ack_mgrs
      split: if_splits)

text \<open>
  Claim C12: every resume request is answered exactly once and truthfully. The server grants a decoded
  request exactly when resume is on, the friend has a live manager that still has the tunnel, the tunnel can
  still carry data in some direction and was not aborted, and the byte offsets of both sides agree or gaps
  are tolerated; the answer then carries the tunnel's own offsets and nothing else changes. Otherwise it
  answers with one refusal (Unknown when resume is off, else TooOld), and with resume on the friend's live
  manager no longer has the identifier afterwards, so that it cannot be resumed later.
\<close>

theorem resume_answered:
  assumes "run_server cs (server_new cfg rules rl) = Some s" and "as_tunnel_resume_request frame = Some req"
    and "handle_resume_request E ab f frame s = Some s1"
  shows "(\<forall>a addr. resume_granted ab f req s a addr \<longrightarrow>
        sv_out s1 = sv_out s @ [ack_packet f (rr_prior_tunnel_id req) (bytes_received (tunnel_at addr (sv_mgrs s ! a)))
           (bytes_emitted (tunnel_at addr (sv_mgrs s ! a))) RS_Ok] \<and> sv_mgrs s1 = sv_mgrs s)
    \<and> ((\<nexists>a addr. resume_granted ab f req s a addr) \<longrightarrow>
        (\<exists>x y. sv_out s1 = sv_out s @ [ack_packet f (rr_prior_tunnel_id req) x y
           (if sc_resume_enabled (sv_config s) then RS_TooOld else RS_Unknown)])
        \<and> (if sc_resume_enabled (sv_config s)
           then \<forall>a. sv_live s f = Some a \<longrightarrow> find_tunnel (rr_prior_tunnel_id req) (sv_mgrs s1 ! a) = None
           else sv_mgrs s1 = sv_mgrs s))"
proof (cases "\<exists>a addr. sc_resume_enabled (sv_config s) \<and> sv_live s f = Some a
    \<and> find_tunnel (rr_prior_tunnel_id req) (sv_mgrs s ! a) = Some addr")
  case True
  then obtain a addr where f: "sc_resume_enabled (sv_config s)" "sv_live s f = Some a"
    "find_tunnel (rr_prior_tunnel_id req) (sv_mgrs s ! a) = Some addr" by blast
  have a: "a < length (sv_mgrs s)" using inv_live [OF inv_run [OF inv_new assms(1)] f(2)] by simp
  have r: "resume_tunnel E ab f req a addr s = Some s1"
    using assms(2,3) f by (simp add: handle_resume_request_def)
  have "resume_granted ab f req s a' addr' \<Longrightarrow> a' = a \<and> addr' = addr" for a' addr'
    using f by (auto simp: resume_granted_def)
  then show ?thesis using resume_found [OF a f r] f(1,2) by (auto split: if_splits)
next
  case False
  then show ?thesis
    using assms(2,3)
    by (auto simp: handle_resume_request_def resume_granted_def resume_ack_out resume_ack_mgrs split: if_splits option.splits)
      blast+
qed

section \<open>A concrete server\<close>

definition ex_config :: ServerConfig where
  "ex_config = \<lparr>sc_resume_enabled = True, sc_on_gap = ''close'', sc_keepalive_interval = 0, sc_idle_timeout = 0,
     sc_half_close_timeout = 0, sc_reaper_tick = 0, sc_coalesce_max_delay_us = 0, sc_coalesce_max_bytes = 0,
     sc_coalesce_mode = ''fixed'', sc_flow_mode = ''fixed'', sc_window_min = 0, sc_window_max = 0,
     sc_safety_x100 = 0, sc_fixed_window = 0\<rparr>"

definition ex_env :: ServerEnv where
  "ex_env = \<lparr>se_fuel = 0, se_env = \<lparr>te_tox = (\<lambda>_ _. SO_Sent), te_tcp = (\<lambda>_ _. True), te_now = (\<lambda>_. 1)\<rparr>,
     se_transport = (\<lambda>_ _. SO_Sent), se_now = 1, se_pk_hex = (\<lambda>_. ''ab''), se_info_yaml = []\<rparr>"

definition ex_rules :: RulesEngine where
  "ex_rules = new_engine [\<lparr>fr_friend_pk = ''AB'', fr_allow = [\<lparr>ts_host = ''h'', ts_ports = []\<rparr>], fr_deny = [],
     fr_rate_limit = no_override\<rparr>]"

definition ex_open_packet :: "byte list" where
  "ex_open_packet = kLosslessPacketByte # serialize (make_tunnel_open 5 ''h'' 80)"

definition ex_events :: "(ServerEnv \<times> ServerCall) list" where
  "ex_events = [(ex_env, SC_Connection 1 True), (ex_env, SC_Packet False (\<lambda>_. (0, 0)) 1 ex_open_packet)]"

definition ex_server :: Server where
  "ex_server = server_new ex_config ex_rules new_limiter"

lemma ex_connected: "on_friend_connection ex_env 1 True ex_server =
   Some (ex_server\<lparr>sv_inbound := [1 \<mapsto> slot_connect ''ab'' None new_limiter], sv_live := [1 \<mapsto> 0],
     sv_mgrs := [mgr_new\<lparr>mg_queue := set_send_handler oq_new\<rparr>]\<rparr>)"
  by (simp add: on_friend_connection_def setup_tunnel_manager_def install_slot_def ex_server_def server_new_def Let_def
      classify_connected_event_def create_manager_def fresh_manager_def apply_tunnel_cap_def tunnel_cap_def
      rl_effective_spec_def new_limiter_def default_spec_def set_max_tunnels_def arm_manager_def ex_config_def ex_env_def
      mgr_new_def enable_reaper_def enable_half_close_reaper_def)

lemma ex_frame: "\<exists>fr. deserialize (tl ex_open_packet) = Inr fr \<and> fr_type fr = TUNNEL_OPEN \<and> fr_tunnel_id fr = 5
    \<and> as_tunnel_open fr = Some \<lparr>op_host = ''h'', op_port = 80\<rparr>"
proof -
  let ?f = "make_tunnel_open 5 ''h'' 80"
  have p: "tl ex_open_packet = serialize ?f @ []" by (simp add: ex_open_packet_def)
  obtain fr where fr: "deserialize (tl ex_open_packet) = Inr fr" "as_tunnel_open fr = Some \<lparr>op_host = ''h'', op_port = 80\<rparr>"
    unfolding p using open_codec.over_wire [of 5 "\<lparr>op_host = ''h'', op_port = 80\<rparr>" "[]"] by (auto simp: open_norm_def)
  moreover have "fr = wire_frame (fr_type ?f) (fr_tunnel_id ?f) (take 65535 (payload_view ?f))"
    using fr(1) deserialize_serialize [of ?f "[]"] by (simp add: p)
  moreover have "fr_type ?f = TUNNEL_OPEN" "fr_tunnel_id ?f = 5"
    by (simp_all add: make_tunnel_open_def new_frame_def Let_def)
  ultimately show ?thesis by (simp add: wire_frame_def new_frame_def)
qed

lemma ex_tunnel: "\<exists>t. new_server_tunnel ex_env ex_config 5 ''h'' 80 = Some t"
  by (simp add: new_server_tunnel_def configure_coalesce_def store_coalesce_def set_target_def tunnel_new_def Let_def
      ex_config_def)

lemma ex_allowed: "evaluate (open_request ''ab'' \<lparr>op_host = ''h'', op_port = 80\<rparr>) ex_rules = Allowed"
  by (simp add: evaluate_def ex_rules_def new_engine_def find_friend_rule_def target_matches_def host_matches_def
      port_allowed_def tolower_def toupper_def char_eval)

lemma ex_opened: "\<exists>s. run_server ex_events ex_server = Some s \<and> sv_live s 1 = Some 0
    \<and> sc_resume_enabled (sv_config s) \<and> length (sv_mgrs s) = 1
    \<and> mg_tunnels (sv_mgrs s ! 0) = [(5, 0)] \<and> sv_opens s = [\<lparr>so_friend = 1, so_id = 5, so_manager = 0,
        so_tunnel = 0, so_host = ''h'', so_port = 80\<rparr>]
    \<and> length (mg_heap (sv_mgrs s ! 0)) = 1 \<and> new_server_tunnel ex_env ex_config 5 ''h'' 80 = Some (tunnel_at 0 (sv_mgrs s ! 0))"
proof -
  obtain fr where fr: "deserialize (tl ex_open_packet) = Inr fr" "fr_type fr = TUNNEL_OPEN" "fr_tunnel_id fr = 5"
    "as_tunnel_open fr = Some \<lparr>op_host = ''h'', op_port = 80\<rparr>" using ex_frame by blast
  obtain t where t: "new_server_tunnel ex_env ex_config 5 ''h'' 80 = Some t" using ex_tunnel by blast
  define m where "m = note_peer_activity 1 (mgr_new\<lparr>mg_queue := set_send_handler oq_new\<rparr>)"
  have m: "mg_tunnels m = []" "mg_used m = (\<lambda>_. False)(0 := True)" "mg_max m = 100" "mg_heap m = []"
    by (simp_all add: m_def note_peer_activity_def mgr_new_def post_event_def Let_def)
  define s where "s = ex_server\<lparr>sv_inbound := [1 \<mapsto> slot_connect ''ab'' None new_limiter], sv_live := [1 \<mapsto> 0], sv_mgrs := [m]\<rparr>"
  have slot: "throttle_packet b n n clk n p fr (slot_connect ''ab'' None new_limiter) new_limiter
      = ([p], slot_connect ''ab'' None new_limiter, new_limiter)" for b n clk p
    using fr by (simp add: throttle_packet_def admit_def slot_connect_def slot_spec_def slot_new_def throttle_new_def
        set_active_def Let_def rl_effective_spec_def new_limiter_def default_spec_def byte_limiting_engaged_def
        frame_data_bytes_def frame_bypasses_byte_throttle_def)
  obtain rl where rl: "rl_try_consume_open ''ab'' 1 new_limiter = (True, rl)"
    by (auto simp: rl_try_consume_open_def consume_open_def get_or_create_bucket_def new_limiter_def bucket_refill_def refill_one_def
        full_bucket_def default_spec_def Let_def split: prod.splits)
  have opn: "\<exists>s1. handle_tunnel_open ex_env 1 fr s = Some s1 \<and> sv_live s1 1 = Some 0
    \<and> sc_resume_enabled (sv_config s1) \<and> length (sv_mgrs s1) = 1
    \<and> mg_tunnels (sv_mgrs s1 ! 0) = [(5, 0)] \<and> sv_opens s1 = [\<lparr>so_friend = 1, so_id = 5, so_manager = 0,
        so_tunnel = 0, so_host = ''h'', so_port = 80\<rparr>]
    \<and> length (mg_heap (sv_mgrs s1 ! 0)) = 1 \<and> new_server_tunnel ex_env ex_config 5 ''h'' 80 = Some (tunnel_at 0 (sv_mgrs s1 ! 0))"
    using fr t rl ex_allowed m
    by (simp add: handle_tunnel_open_def s_def ex_server_def server_new_def Let_def ex_env_def find_or_setup_manager_def
        accept_open_def handle_incoming_open_def tunnel_count_def has_tunnel_def find_tunnel_def register_open_def
        new_object_def add_tunnel_def insert_tunnel_def post_event_def put_mgr_def tunnel_at_def)
       (simp add: ex_config_def)
  moreover have "run_server ex_events ex_server = handle_tunnel_open ex_env 1 fr s"
  proof -
    define s0 where "s0 = ex_server\<lparr>sv_inbound := [1 \<mapsto> slot_connect ''ab'' None new_limiter], sv_live := [1 \<mapsto> 0],
      sv_mgrs := [mgr_new\<lparr>mg_queue := set_send_handler oq_new\<rparr>]\<rparr>"
    have len: "\<not> length ex_open_packet < 2" by (simp add: ex_open_packet_def serialize_def Let_def write_u16_be_def)
    have c: "credit_peer ex_env 1 s0 = s"
      by (simp add: credit_peer_def s0_def s_def put_mgr_def m_def ex_env_def)
    have s: "sv_inbound s 1 = Some (slot_connect ''ab'' None new_limiter)" "sv_limiter s = new_limiter"
      "s\<lparr>sv_inbound := (sv_inbound s)(1 \<mapsto> slot_connect ''ab'' None new_limiter), sv_limiter := new_limiter\<rparr> = s"
      by (simp_all add: s_def ex_server_def server_new_def)
    have nil: "dispatch_packets ex_env False 1 [] = Some" by (simp add: fun_eq_iff)
    have "on_lossless_packet ex_env False (\<lambda>_. (0, 0)) 1 ex_open_packet s0 = handle_tunnel_open ex_env 1 fr s"
      using len fr s by (simp add: on_lossless_packet_def c slot Let_def dispatch_inbound_frame_def nil)
    moreover have "run_server ex_events ex_server = on_lossless_packet ex_env False (\<lambda>_. (0, 0)) 1 ex_open_packet s0"
      by (simp add: ex_events_def ex_connected s0_def run_server_Nil)
    ultimately show ?thesis by simp
  qed
  ultimately show ?thesis by simp
qed

theorem managers_accounted_for_witness:
  "\<exists>s. run_server ex_events ex_server = Some s \<and> owns s 1 0 \<and> sv_held s 1 = None \<and> (owns s 2 0 \<longrightarrow> (2 :: u32) = 1)"
proof -
  obtain s where s: "run_server ex_events ex_server = Some s" "sv_live s 1 = Some 0" using ex_opened by blast
  from managers_accounted_for [OF s(1) [unfolded ex_server_def], of 1 0 2] s show ?thesis
    by (auto simp: owns_def intro!: exI [of _ s])
qed

theorem server_refines_managers_witness:
  "\<exists>s. run_server ex_events ex_server = Some s \<and> mg_tunnels (sv_mgrs s ! 0) = [(5, 0)] \<and> mgr_reachable (sv_mgrs s ! 0, [], [])"
proof -
  obtain s where s: "run_server ex_events ex_server = Some s" "length (sv_mgrs s) = 1" "mg_tunnels (sv_mgrs s ! 0) = [(5, 0)]"
    using ex_opened by blast
  from server_refines_managers [OF s(1) [unfolded ex_server_def], of 0] s show ?thesis by auto
qed

theorem connects_only_permitted_witness:
  "\<exists>s s1. exec_server ex_env (SC_Packet False (\<lambda>_. (0, 0)) 1 ex_open_packet) s = Some s1 \<and> sv_opens s = []
    \<and> sv_opens s1 = [\<lparr>so_friend = 1, so_id = 5, so_manager = 0, so_tunnel = 0, so_host = ''h'', so_port = 80\<rparr>]
    \<and> (\<forall>x \<in> set (sv_opens s1). permitted ex_env (sv_rules s) x)"
proof -
  obtain s s1 where s: "on_friend_connection ex_env 1 True ex_server = Some s"
    "exec_server ex_env (SC_Packet False (\<lambda>_. (0, 0)) 1 ex_open_packet) s = Some s1"
    "sv_opens s1 = [\<lparr>so_friend = 1, so_id = 5, so_manager = 0, so_tunnel = 0, so_host = ''h'', so_port = 80\<rparr>]"
    using ex_opened by (auto simp: ex_events_def bind_eq_Some_conv)
  have "sv_opens s = []" using s(1) unfolding ex_connected by (auto simp: ex_server_def server_new_def)
  with connects_only_permitted [OF s(2)] s show ?thesis by (intro exI [of _ s] exI [of _ s1]) auto
qed

theorem reconnect_restores_tunnels_witness:
  "\<exists>s s1 s2. run_server ex_events ex_server = Some s \<and> on_friend_connection ex_env 1 False s = Some s1
    \<and> on_friend_connection ex_env 1 True s1 = Some s2 \<and> sv_live s2 1 = Some 0 \<and> mg_tunnels (sv_mgrs s2 ! 0) = [(5, 0)]"
proof -
  obtain s where s: "run_server ex_events ex_server = Some s" "sv_live s 1 = Some 0" "sc_resume_enabled (sv_config s)"
    "mg_tunnels (sv_mgrs s ! 0) = [(5, 0)]" using ex_opened by blast
  from reconnect_restores_tunnels [OF s(1) [unfolded ex_server_def] s(2,3), of ex_env ex_env] s
  show ?thesis by (auto simp: registry_def)
qed

text \<open>The tunnel of the concrete server after its publication.\<close>

definition ex_published :: "(ServerEnv \<times> ServerCall) list" where
  "ex_published = ex_events @ [(ex_env, SC_Tunnel 0 0 Call_publish_connected)]"

definition ex_resume :: ProtocolFrame where
  "ex_resume = make_tunnel_resume_request
     \<lparr>rr_prior_tunnel_id = 5, rr_last_local_recv_offset = 0, rr_last_local_send_offset = 0,
      rr_host = ''h'', rr_target_port = 80\<rparr>"

lemma ex_new_tunnel:
  assumes "new_server_tunnel ex_env ex_config 5 ''h'' 80 = Some t"
  shows "resumable (snd (try_publish_connected t))" "bytes_received (snd (try_publish_connected t)) = 0"
    "bytes_emitted (snd (try_publish_connected t)) = 0" "tn_id_notified (snd (try_publish_connected t)) = tn_id_notified t"
  using assms
  by (auto simp: new_server_tunnel_def configure_coalesce_def store_coalesce_def set_target_def tunnel_new_def Let_def
      ex_config_def set_callbacks_def configure_flow_control_def set_coalesce_mode_def try_publish_connected_def
      transition_state_if_def maybe_notify_id_releasable_def id_releasable_def notify_state_change_def store_state_def
      log_event_def cancel_open_deadline_def terminal_def resumable_def bytes_received_def bytes_emitted_def)

lemma ex_connected_tunnel: "\<exists>s. run_server ex_published ex_server = Some s \<and> sv_live s 1 = Some 0
    \<and> sc_resume_enabled (sv_config s) \<and> find_tunnel 5 (sv_mgrs s ! 0) = Some 0
    \<and> resumable (tunnel_at 0 (sv_mgrs s ! 0)) \<and> bytes_received (tunnel_at 0 (sv_mgrs s ! 0)) = 0
    \<and> bytes_emitted (tunnel_at 0 (sv_mgrs s ! 0)) = 0"
proof -
  obtain s where s: "run_server ex_events ex_server = Some s" "sv_live s 1 = Some 0" "sc_resume_enabled (sv_config s)"
    "length (sv_mgrs s) = 1" "mg_tunnels (sv_mgrs s ! 0) = [(5, 0)]" "length (mg_heap (sv_mgrs s ! 0)) = 1"
    "new_server_tunnel ex_env ex_config 5 ''h'' 80 = Some (tunnel_at 0 (sv_mgrs s ! 0))"
    using ex_opened by blast
  let ?u = "snd (try_publish_connected (tunnel_at 0 (sv_mgrs s ! 0)))"
  have at: "tunnel_at 0 (put_tunnel 0 ?u (sv_mgrs s ! 0)) = ?u" by (rule put_at) (simp add: s(6))
  show ?thesis
    using s ex_new_tunnel [OF s(7)] at
    by (simp add: ex_published_def run_server_append on_tunnel_def put_mgr_def find_tunnel_def)
qed

theorem resume_answered_witness:
  "\<exists>s s1. run_server ex_published ex_server = Some s \<and> handle_resume_request ex_env False 1 ex_resume s = Some s1
    \<and> sv_out s1 = sv_out s @ [ack_packet 1 5 0 0 RS_Ok]"
proof -
  obtain s where s: "run_server ex_published ex_server = Some s" "sv_live s 1 = Some 0" "sc_resume_enabled (sv_config s)"
    "find_tunnel 5 (sv_mgrs s ! 0) = Some 0" "resumable (tunnel_at 0 (sv_mgrs s ! 0))"
    "bytes_received (tunnel_at 0 (sv_mgrs s ! 0)) = 0" "bytes_emitted (tunnel_at 0 (sv_mgrs s ! 0)) = 0"
    using ex_connected_tunnel by blast
  let ?req = "\<lparr>rr_prior_tunnel_id = 5, rr_last_local_recv_offset = 0, rr_last_local_send_offset = 0,
      rr_host = ''h'', rr_target_port = 80\<rparr> :: TunnelResumeRequestPayload"
  have req: "as_tunnel_resume_request ex_resume = Some ?req"
    using as_tunnel_resume_request_make [of ?req] by (simp add: ex_resume_def resume_request_norm_def)
  obtain s1 where s1: "handle_resume_request ex_env False 1 ex_resume s = Some s1"
    using s req by (simp add: handle_resume_request_def resume_tunnel_def resume_offsets_have_gap_def Let_def)
  have "resume_granted False 1 ?req s 0 0" using s by (simp add: resume_granted_def Let_def)
  with resume_answered [OF s(1) [unfolded ex_server_def] req s1] s s1 show ?thesis
    by (intro exI [of _ s] exI [of _ s1]) auto
qed

end
