(* ===== verification/Server_Publish.thy ===== *)
theory Server_Publish
  imports Server_Safety
begin

text \<open>
  One server open from the start of its resolver to the publication or the end of its tunnel: the pre-wire
  teardown and failures of \<open>handle_tunnel_open\<close>, \<open>wire_tcp_to_tunnel\<close>, and the callbacks of the OPEN_ACK gate
  (\<open>commit_open_ack\<close>, \<open>abandon_open_ack\<close>, \<open>abort_open_ack_after_send\<close>), all in
  \<open>src/app/tunnel_server.cpp\<close>. Which weak pointers still lock is an argument; what other threads do to the
  manager between the sections of a commit is an argument too. The socket is a log of the calls made on it.
\<close>

section \<open>State\<close>

datatype SocketCall = SK_StartRead | SK_ForceClose | SK_Abort | SK_WatchPeerClose | SK_CancelResolver | SK_Connect

record Publication =
  pb_mgr :: Manager
  pb_pending :: PendingOpen
  pb_latch :: ActiveGaugeState
  pb_gauge :: nat
  pb_results :: "OpenResult list"
  pb_socket :: "SocketCall list"

text \<open>The open: its identifier, its tunnel, and the pointers that still lock.\<close>

record OpenRef =
  or_id :: u16
  or_tunnel :: nat
  or_mgr_alive :: bool
  or_tunnel_alive :: bool
  or_conn_alive :: bool

definition on_socket :: "SocketCall \<Rightarrow> Publication \<Rightarrow> Publication" where
  "on_socket c P = P\<lparr>pb_socket := pb_socket P @ [c]\<rparr>"

definition pub_book :: "OpenResult \<Rightarrow> Publication \<Rightarrow> Publication" where
  "pub_book r P = P\<lparr>pb_results := pb_results P @ [r]\<rparr>"

definition pub_send :: "ServerEnv \<Rightarrow> ProtocolFrame \<Rightarrow> Publication \<Rightarrow> Publication" where
  "pub_send E frame P = P\<lparr>pb_mgr := mgr_send (se_transport E) frame (pb_mgr P)\<rparr>"

definition registered :: "OpenRef \<Rightarrow> Publication \<Rightarrow> bool" where
  "registered r P \<longleftrightarrow> find_tunnel (or_id r) (pb_mgr P) = Some (or_tunnel r)"

text \<open>\<open>remove_tunnel_if\<close> with the pointer of the open, null when it has lapsed.\<close>

definition pub_remove :: "ServerEnv \<Rightarrow> OpenRef \<Rightarrow> Publication \<Rightarrow> Publication option" where
  "pub_remove E r P =
     map_option (\<lambda>x. P\<lparr>pb_mgr := snd x\<rparr>)
       (remove_tunnel_if (se_fuel E) (se_env E) (or_id r) (if or_tunnel_alive r then Some (or_tunnel r) else None) (pb_mgr P))"

definition book_failure_once :: "Publication \<Rightarrow> Publication" where
  "book_failure_once P =
     (case claim_failure_booking (pb_pending P) of (first, p) \<Rightarrow>
        let P1 = P\<lparr>pb_pending := p\<rparr> in if first then pub_book OR_Failed P1 else P1)"

section \<open>Before the wiring\<close>

definition prewire_teardown :: "ServerEnv \<Rightarrow> OpenRef \<Rightarrow> Publication \<Rightarrow> Publication option" where
  "prewire_teardown E r P =
     (case try_cancel (pb_pending P) of (ok, p) \<Rightarrow>
        if \<not> ok then Some P
        else let P1 = on_socket SK_CancelResolver (P\<lparr>pb_pending := p\<rparr>);
                 P2 = book_failure_once (if or_conn_alive r then on_socket SK_ForceClose P1 else P1)
             in if or_mgr_alive r \<and> or_tunnel_alive r then pub_remove E r P2 else Some P2)"

definition fail_prewire :: "ServerEnv \<Rightarrow> OpenRef \<Rightarrow> byte \<Rightarrow> string \<Rightarrow> Publication \<Rightarrow> Publication option" where
  "fail_prewire E r code reason P =
     (case try_cancel (pb_pending P) of (ok, p) \<Rightarrow>
        if \<not> ok then Some P
        else let P1 = book_failure_once (P\<lparr>pb_pending := p\<rparr>)
             in if or_mgr_alive r \<and> or_tunnel_alive r \<and> registered r P1
                then pub_remove E r (pub_send E (make_tunnel_error (or_id r) code reason) P1)
                else Some P1)"

definition open_failure_for_connect_error :: "bool \<Rightarrow> string \<Rightarrow> byte \<times> string" where
  "open_failure_for_connect_error refused message =
     (if refused then (3, ''TCP connection refused: '' @ message) else (2, ''TCP connect failed: '' @ message))"

text \<open>The completion of the resolver (\<open>Some msg\<close> is an error) and, for the first endpoint, the start of the
  connect.\<close>

definition on_resolved :: "ServerEnv \<Rightarrow> OpenRef \<Rightarrow> string option \<Rightarrow> Publication \<Rightarrow> Publication option" where
  "on_resolved E r err P =
     (if po_resolved (pb_pending P) then Some P
      else case err of
             Some msg \<Rightarrow> fail_prewire E r 2 (''DNS resolution failed: '' @ msg) P
           | None \<Rightarrow>
               (case po_advance OP_Resolving OP_Connecting (pb_pending P) of (ok, p) \<Rightarrow>
                  Some (if ok then on_socket SK_Connect (P\<lparr>pb_pending := p\<rparr>) else P)))"

section \<open>Publication\<close>

datatype OpenAckCommit = OA_Published | OA_Detached | OA_Gone

definition release_unpublished_resources :: "ServerEnv \<Rightarrow> OpenRef \<Rightarrow> Publication \<Rightarrow> Publication option" where
  "release_unpublished_resources E r P =
     (let P1 = (if or_conn_alive r then on_socket SK_ForceClose P else P)
      in if or_tunnel_alive r
         then map_option (\<lambda>m. P1\<lparr>pb_mgr := m\<rparr>)
                (on_tunnel (or_tunnel r) (force_close (se_fuel E) (se_env E) RR_Abort) (pb_mgr P1))
         else Some P1)"

definition gauge_release :: "Publication \<Rightarrow> Publication" where
  "gauge_release P =
     (case active_gauge_release (pb_latch P) (pb_gauge P) of (l, g) \<Rightarrow> P\<lparr>pb_latch := l, pb_gauge := g\<rparr>)"

text \<open>The common shape of the two ways an open ends without a tunnel: book it, tell the peer, drop the tunnel
  by identity, release the socket and the tunnel, and settle the gauge.\<close>

definition resolve_unpublished :: "ServerEnv \<Rightarrow> OpenRef \<Rightarrow> string \<Rightarrow> Publication \<Rightarrow> Publication option" where
  "resolve_unpublished E r reason P =
     do {
       let P1 = pub_book OR_Failed P;
       P2 \<leftarrow> (if or_mgr_alive r
              then pub_remove E r (pub_send E (make_tunnel_error (or_id r) 2 reason) P1) else Some P1);
       P3 \<leftarrow> release_unpublished_resources E r P2;
       Some (gauge_release P3)
     }"

definition abort_open_ack_after_send :: "ServerEnv \<Rightarrow> OpenRef \<Rightarrow> Publication \<Rightarrow> Publication option" where
  "abort_open_ack_after_send E r P =
     resolve_unpublished E r ''tunnel was torn down immediately after it was opened'' P"

definition abandon_open_ack :: "ServerEnv \<Rightarrow> OpenRef \<Rightarrow> Publication \<Rightarrow> Publication option" where
  "abandon_open_ack E r P =
     resolve_unpublished E r ''target connection lost before tunnel was established'' P"

text \<open>\<open>k1\<close> acts between the first look at the registry and the claim of the state, \<open>k2\<close> between the claim and
  the second look; \<open>alive2\<close> is whether the manager's pointer still locks then.\<close>

definition commit_open_ack ::
    "ServerEnv \<Rightarrow> (Manager \<Rightarrow> Manager) \<Rightarrow> (Manager \<Rightarrow> Manager) \<Rightarrow> bool \<Rightarrow> OpenRef \<Rightarrow> Publication
     \<Rightarrow> (OpenAckCommit \<times> Publication) option" where
  "commit_open_ack E k1 k2 alive2 r P =
     (if \<not> or_tunnel_alive r \<or> \<not> or_conn_alive r
      then map_option (Pair OA_Gone) (abort_open_ack_after_send E r P)
      else let still_owned = (or_mgr_alive r \<and> registered r P);
               P1 = P\<lparr>pb_mgr := k1 (pb_mgr P)\<rparr>
           in if \<not> still_owned then map_option (Pair OA_Detached) (abort_open_ack_after_send E r P1)
              else case try_publish_connected (tunnel_at (or_tunnel r) (pb_mgr P1)) of (claimed, t) \<Rightarrow>
                     if \<not> claimed then map_option (Pair OA_Detached) (abort_open_ack_after_send E r P1)
                     else let P2 = P1\<lparr>pb_mgr := k2 (put_tunnel (or_tunnel r) t (pb_mgr P1))\<rparr>
                          in if \<not> alive2 \<or> \<not> registered r P2
                             then map_option (Pair OA_Detached) (abort_open_ack_after_send E (r\<lparr>or_mgr_alive := alive2\<rparr>) P2)
                             else case active_gauge_count (pb_latch P2) (pb_gauge P2) of (_, l, g) \<Rightarrow>
                                    Some (OA_Published,
                                      on_socket SK_StartRead ((pub_book OR_Ok P2)\<lparr>pb_latch := l, pb_gauge := g\<rparr>)))"

section \<open>Wiring\<close>

definition refuse_wiring :: "ServerEnv \<Rightarrow> OpenRef \<Rightarrow> Publication \<Rightarrow> Publication option" where
  "refuse_wiring E r P =
     map_option book_failure_once
       (if or_mgr_alive r then pub_remove E r (on_socket SK_ForceClose P) else Some (on_socket SK_ForceClose P))"

text \<open>
  The wiring up to the last callback: the socket is attached to the tunnel and the gate is built. The
  answer says whether that happened; until the look below the gate is not started, but the target's end
  already reaches it.
\<close>

definition wire_install :: "ServerEnv \<Rightarrow> OpenRef \<Rightarrow> Publication \<Rightarrow> (bool \<times> Publication) option" where
  "wire_install E r P =
     (if \<not> or_mgr_alive r \<or> \<not> registered r P then map_option (Pair False) (refuse_wiring E r P)
      else let t = set_callbacks True True True (set_tcp_connection True (tunnel_at (or_tunnel r) (pb_mgr P)))
           in Some (True, P\<lparr>pb_mgr := put_tunnel (or_tunnel r) t (pb_mgr P)\<rparr>))"

text \<open>
  The last look at the tunnel. A tunnel that has ended silences the gate, unless the gate was resolved in
  the meantime, and is dropped; otherwise the watch for the target's end begins and the gate is started.
\<close>

datatype WireLook = WL_Go | WL_Raced | WL_Silenced

definition wire_look ::
    "ServerEnv \<Rightarrow> OpenRef \<Rightarrow> OpenAckGate \<Rightarrow> Publication \<Rightarrow> (WireLook \<times> OpenAckGate \<times> Publication) option" where
  "wire_look E r g P =
     (let st = tn_state (tunnel_at (or_tunnel r) (pb_mgr P)) in
      if terminal st
      then (case disarm g of (quiet, g1) \<Rightarrow>
              if \<not> quiet then Some (WL_Raced, g, P)
              else map_option (\<lambda>P2. (WL_Silenced, g1, book_failure_once (gauge_release P2)))
                     (pub_remove E r (on_socket (if st = TS_Error then SK_Abort else SK_ForceClose) P)))
      else Some (WL_Go, g, on_socket SK_WatchPeerClose P))"

definition on_connected :: "ServerEnv \<Rightarrow> OpenRef \<Rightarrow> (bool \<times> string) option \<Rightarrow> Publication
     \<Rightarrow> (bool \<times> Publication) option" where
  "on_connected E r err P =
     (if po_resolved (pb_pending P) then Some (False, on_socket SK_ForceClose P)
      else case err of
             Some (refused, msg) \<Rightarrow>
               (case open_failure_for_connect_error refused msg of (code, reason) \<Rightarrow>
                  map_option (Pair False) (fail_prewire E r code reason P))
           | None \<Rightarrow>
               (case po_advance OP_Connecting OP_Handed (pb_pending P) of (ok, p) \<Rightarrow>
                  if \<not> ok then Some (False, on_socket SK_ForceClose P)
                  else if \<not> or_tunnel_alive r then Some (False, on_socket SK_ForceClose (P\<lparr>pb_pending := p\<rparr>))
                  else wire_install E r (P\<lparr>pb_pending := p\<rparr>)))"

text \<open>The end of a published tunnel's target, deferred to the pool: an abnormal end is reported with error 4,
  a clean one closes the tunnel; both only while the manager still holds this tunnel.\<close>

definition target_closed :: "ServerEnv \<Rightarrow> OpenRef \<Rightarrow> string option \<Rightarrow> Publication \<Rightarrow> Publication option" where
  "target_closed E r abnormal P =
     (if \<not> or_mgr_alive r \<or> \<not> or_tunnel_alive r then Some P
      else if abnormal \<noteq> None \<and> registered r P
              \<and> tn_state (tunnel_at (or_tunnel r) (pb_mgr P)) \<in> {TS_Connected, TS_Disconnecting}
      then map_option (\<lambda>m. P\<lparr>pb_mgr := m\<rparr>)
             (on_tunnel (or_tunnel r) (send_error (se_fuel E) (se_env E) 4 (the abnormal)) (pb_mgr P))
      else map_option (\<lambda>x. P\<lparr>pb_mgr := snd x\<rparr>)
             (close_tunnel_if (se_fuel E) (se_env E) (or_id r) (Some (or_tunnel r)) (pb_mgr P)))"


section \<open>The life of an open\<close>

text \<open>
  How far the wiring has come: not begun, done up to the look, past the look with the gate started, or
  ended by the look.
\<close>

datatype WireStage = WS_Before | WS_Installed | WS_Started | WS_Ended

type_synonym OpenState = "WireStage \<times> GateRun \<times> Publication"

text \<open>
  The steps of an open: the tunnel ends, the resolver and the connect complete, the wiring looks at the
  tunnel, the threads inside the gate move, its commit and abandon callbacks run, the tunnel's callbacks
  settle the gauge (\<open>wire_active_gauge\<close>), and other threads change the manager. They come in any order and
  from any thread; \<open>E\<close> and \<open>r\<close> differ from step to step, so that pointers lapse. The gate is the one of
  \<open>Open_Ack_Gate\<close>; before it is started no thread claims an attempt.
\<close>

inductive open_step :: "OpenState \<Rightarrow> OpenState \<Rightarrow> bool" where
  os_closed: "prewire_teardown E r P = Some Q \<Longrightarrow> open_step (w, G, P) (w, G, Q)"
| os_resolved: "on_resolved E r err P = Some Q \<Longrightarrow> open_step (w, G, P) (w, G, Q)"
| os_connected: "on_connected E r err P = Some (wired, Q) \<Longrightarrow>
    open_step (WS_Before, G, P) (if wired then WS_Installed else WS_Before, G, Q)"
| os_go: "wire_look E r g P = Some (WL_Go, g1, Q) \<Longrightarrow>
    open_step (WS_Installed, (g, m, tr), P) (WS_Started, (g1, m, tr), Q)"
| os_raced: "wire_look E r g P = Some (WL_Raced, g1, Q) \<Longrightarrow>
    open_step (WS_Installed, (g, m, tr), P) (WS_Ended, (g1, m, tr), Q)"
| os_silenced: "wire_look E r g P = Some (WL_Silenced, g1, Q) \<Longrightarrow>
    open_step (WS_Installed, (g, m, tr), P) (WS_Ended, (g1, m, tr @ [EV_Disarm]), Q)"
| os_gate: "w \<noteq> WS_Before \<Longrightarrow> ack_step (g, m, tr) (g1, m1, tr1) \<Longrightarrow> nev resolution tr1 = nev resolution tr \<Longrightarrow>
    w = WS_Started \<or> ga_phase g1 \<noteq> GP_Sending \<Longrightarrow> open_step (w, (g, m, tr), P) (w, (g1, m1, tr1), P)"
| os_abandon: "w \<noteq> WS_Before \<Longrightarrow> abandon_open_ack E r P = Some Q \<Longrightarrow>
    open_step (w, (g, add_mset PC_Abandon m, tr), P) (w, (g, m, tr @ [EV_Abandon]), Q)"
| os_commit: "w \<noteq> WS_Before \<Longrightarrow> commit_open_ack E k1 k2 alive2 r P = Some (c, Q) \<Longrightarrow> b = (c = OA_Published) \<Longrightarrow>
    open_step (w, (g, add_mset PC_Commit m, tr), P) (w, (g, add_mset (PC_Published b) m, tr @ [EV_Commit b]), Q)"
| os_settle: "w \<noteq> WS_Before \<Longrightarrow> open_step (w, G, P) (w, G, gauge_release P)"
| os_manager: "open_step (w, G, P) (w, G, P\<lparr>pb_mgr := m1\<rparr>)"

definition open_path :: "OpenState \<Rightarrow> OpenState \<Rightarrow> bool" where
  "open_path = open_step\<^sup>*\<^sup>*"

definition publication_new :: "Manager \<Rightarrow> nat \<Rightarrow> Publication" where
  "publication_new m g = \<lparr>pb_mgr = m, pb_pending = pending_new, pb_latch = AG_NotCounted, pb_gauge = g,
     pb_results = [], pb_socket = []\<rparr>"

text \<open>What the books of an open say, apart from the manager.\<close>

definition reads :: "Publication \<Rightarrow> nat" where
  "reads P = count_list (pb_socket P) SK_StartRead"

definition money_ok :: "nat \<Rightarrow> Publication \<Rightarrow> bool" where
  "money_ok n P \<longleftrightarrow>
     pb_gauge P = n + (if pb_latch P = AG_Counted then 1 else 0)
     \<and> (pb_latch P = AG_Counted \<longrightarrow> pb_results P = [OR_Ok])
     \<and> reads P = (if pb_results P = [OR_Ok] then 1 else 0)"

text \<open>The outcome that the resolutions of a gate stand for.\<close>

definition outcome_of :: "GateEvent list \<Rightarrow> OpenResult list" where
  "outcome_of rs = (if rs = [] then [] else if hd rs = EV_Commit True then [OR_Ok] else [OR_Failed])"

definition before_ok :: "nat \<Rightarrow> Publication \<Rightarrow> bool" where
  "before_ok n P \<longleftrightarrow> money_ok n P
     \<and> pb_results P = (if po_failure_booked (pb_pending P) then [OR_Failed] else [])
     \<and> (po_failure_booked (pb_pending P) \<longrightarrow> po_phase (pb_pending P) \<in> {OP_Handed, OP_Resolved})
     \<and> (po_phase (pb_pending P) = OP_Resolved \<longrightarrow> po_failure_booked (pb_pending P))"

definition wired_ok :: "nat \<Rightarrow> GateEvent list \<Rightarrow> Publication \<Rightarrow> bool" where
  "wired_ok n tr P \<longleftrightarrow> money_ok n P
     \<and> po_phase (pb_pending P) = OP_Handed \<and> (po_failure_booked (pb_pending P) \<longleftrightarrow> EV_Disarm \<in> set tr)
     \<and> pb_results P = outcome_of (filter resolution tr)"

definition books_ok :: "nat \<Rightarrow> OpenState \<Rightarrow> bool" where
  "books_ok n x \<longleftrightarrow>
     (case x of (w, (g, m, tr), P) \<Rightarrow> ack_reachable (g, m, tr)
        \<and> (if w = WS_Before then tr = [] \<and> before_ok n P else wired_ok n tr P))"

text \<open>The part of a publication that does not depend on the manager.\<close>

definition books :: "Publication \<Rightarrow> _" where
  "books P = (pb_pending P, pb_latch P, pb_gauge P, pb_results P, reads P)"

lemma books_remove: "pub_remove E r P = Some Q \<Longrightarrow> books Q = books P"
  by (auto simp: pub_remove_def books_def reads_def)

lemma books_simps [simp]:
  "books (pub_send E fr P) = books P" "books (P\<lparr>pb_mgr := m\<rparr>) = books P"
  "c \<noteq> SK_StartRead \<Longrightarrow> books (on_socket c P) = books P"
  by (simp_all add: books_def reads_def pub_send_def on_socket_def)

lemma books_release: "release_unpublished_resources E r P = Some Q \<Longrightarrow> books Q = books P"
  by (auto simp: release_unpublished_resources_def Let_def split: if_splits)

lemma books_unpublished:
  assumes "resolve_unpublished E r reason P = Some Q"
  shows "books Q = books (gauge_release (pub_book OR_Failed P))"
proof -
  obtain P2 P3 where P2: "(if or_mgr_alive r
       then pub_remove E r (pub_send E (make_tunnel_error (or_id r) 2 reason) (pub_book OR_Failed P))
       else Some (pub_book OR_Failed P)) = Some P2"
    and P3: "release_unpublished_resources E r P2 = Some P3" and Q: "Q = gauge_release P3"
    using assms by (auto simp: resolve_unpublished_def Let_def bind_eq_Some_conv)
  have "books P3 = books (pub_book OR_Failed P)"
    using books_release [OF P3] P2 by (auto dest: books_remove split: if_splits)
  then show ?thesis
    by (simp add: Q gauge_release_def books_def reads_def split: prod.splits)
qed

lemma commit_books:
  assumes "commit_open_ack E k1 k2 alive2 r P = Some (c, Q)"
  shows "books Q = books (if c = OA_Published
     then on_socket SK_StartRead ((pub_book OR_Ok P)\<lparr>pb_latch := fst (snd (active_gauge_count (pb_latch P) (pb_gauge P))),
            pb_gauge := snd (snd (active_gauge_count (pb_latch P) (pb_gauge P)))\<rparr>)
     else gauge_release (pub_book OR_Failed P))"
proof -
  have *: "books (gauge_release (pub_book OR_Failed (P\<lparr>pb_mgr := m\<rparr>))) = books (gauge_release (pub_book OR_Failed P))" for m
    by (simp add: books_def reads_def gauge_release_def pub_book_def active_gauge_release_def)
  have **: "books (on_socket SK_StartRead ((pub_book OR_Ok (P\<lparr>pb_mgr := m\<rparr>))\<lparr>pb_latch := l, pb_gauge := h\<rparr>))
      = books (on_socket SK_StartRead ((pub_book OR_Ok P)\<lparr>pb_latch := l, pb_gauge := h\<rparr>))" for m l h
    by (simp add: books_def reads_def on_socket_def pub_book_def)
  show ?thesis
    using assms unfolding commit_open_ack_def Let_def abort_open_ack_after_send_def
    by (auto simp: * ** dest!: books_unpublished split: if_splits prod.splits)
qed

lemma booked_once:
  "books (book_failure_once P) =
     books (if po_failure_booked (pb_pending P) then P
            else pub_book OR_Failed (P\<lparr>pb_pending := (pb_pending P)\<lparr>po_failure_booked := True\<rparr>\<rparr>))"
  by (cases "pb_pending P") (simp add: book_failure_once_def claim_failure_booking_def Let_def books_def reads_def pub_book_def)


lemma before_cong: "books P = books Q \<Longrightarrow> before_ok n P = before_ok n Q"
  and wired_cong: "books P = books Q \<Longrightarrow> wired_ok n tr P = wired_ok n tr Q"
  by (simp_all add: books_def before_ok_def wired_ok_def money_ok_def)

text \<open>Cancelling an open that is not yet handed over books the failure; afterwards nothing is cancelled.\<close>

lemma ok_cancel:
  assumes "before_ok n P" "try_cancel (pb_pending P) = (True, p)"
    and "books Q = books (book_failure_once (P\<lparr>pb_pending := p\<rparr>))"
  shows "before_ok n Q"
proof -
  have "\<not> po_failure_booked (pb_pending P)"
    using assms(1,2) by (auto simp: before_ok_def try_cancel_def split: if_splits)
  then show ?thesis
    unfolding before_cong [OF assms(3)] using assms(1,2)
    by (auto simp: book_failure_once_def claim_failure_booking_def Let_def try_cancel_def before_ok_def money_ok_def
        pub_book_def reads_def split: if_splits)
qed

lemma handed_no_cancel: "wired_ok n tr P \<Longrightarrow> fst (try_cancel (pb_pending P)) = False"
  by (simp add: wired_ok_def try_cancel_def)

lemma ok_prewire:
  assumes "prewire_teardown E r P = Some Q"
  shows "before_ok n P \<Longrightarrow> before_ok n Q" "wired_ok n tr P \<Longrightarrow> Q = P"
proof -
  obtain c p where cp: "try_cancel (pb_pending P) = (c, p)" by fastforce
  have bk: "books (book_failure_once (on_socket k R)) = books (book_failure_once R)" if "k \<noteq> SK_StartRead" for k R
    using that by (simp add: booked_once) (simp add: books_def reads_def on_socket_def pub_book_def)
  have none: "\<not> c \<Longrightarrow> Q = P" using assms cp by (simp add: prewire_teardown_def)
  then show "wired_ok n tr P \<Longrightarrow> Q = P" using handed_no_cancel [of n tr P] cp by simp
  assume ok: "before_ok n P"
  show "before_ok n Q"
  proof (cases c)
    case True
    then have "books Q = books (book_failure_once (P\<lparr>pb_pending := p\<rparr>))"
      using assms cp by (auto simp: prewire_teardown_def Let_def bk dest!: books_remove split: if_splits)
    with ok cp True show ?thesis by (auto intro: ok_cancel)
  qed (use ok none in simp)
qed

lemma ok_fail:
  assumes "fail_prewire E r code reason P = Some Q"
  shows "before_ok n P \<Longrightarrow> before_ok n Q" "wired_ok n tr P \<Longrightarrow> Q = P"
proof -
  obtain c p where cp: "try_cancel (pb_pending P) = (c, p)" by fastforce
  have none: "\<not> c \<Longrightarrow> Q = P" using assms cp by (simp add: fail_prewire_def)
  then show "wired_ok n tr P \<Longrightarrow> Q = P" using handed_no_cancel [of n tr P] cp by simp
  assume ok: "before_ok n P"
  show "before_ok n Q"
  proof (cases c)
    case True
    then have "books Q = books (book_failure_once (P\<lparr>pb_pending := p\<rparr>))"
      using assms cp by (auto simp: fail_prewire_def Let_def dest!: books_remove split: if_splits)
    with ok cp True show ?thesis by (auto intro: ok_cancel)
  qed (use ok none in simp)
qed

lemma ok_resolved:
  assumes "on_resolved E r err P = Some Q"
  shows "before_ok n P \<Longrightarrow> before_ok n Q" "wired_ok n tr P \<Longrightarrow> Q = P"
proof -
  show "before_ok n P \<Longrightarrow> before_ok n Q"
    using assms by (auto simp: on_resolved_def po_advance_def on_socket_def dest: ok_fail split: if_splits option.splits)
      (auto simp: before_ok_def money_ok_def reads_def)
  assume "wired_ok n tr P"
  moreover from this have "po_phase (pb_pending P) = OP_Handed" by (simp add: wired_ok_def)
  ultimately show "Q = P"
    using assms ok_fail(2) by (auto simp: on_resolved_def po_advance_def split: if_splits option.splits)
qed

text \<open>The failure booked once the open was handed over, by a refusal of the wiring.\<close>

lemma ok_handed:
  assumes "before_ok n P" "po_phase (pb_pending P) = OP_Connecting"
    and "books Q = books (book_failure_once (P\<lparr>pb_pending := (pb_pending P)\<lparr>po_phase := OP_Handed\<rparr>\<rparr>))"
  shows "before_ok n Q"
  unfolding before_cong [OF assms(3)] using assms(1,2)
  by (auto simp: book_failure_once_def claim_failure_booking_def Let_def before_ok_def money_ok_def pub_book_def
      reads_def split: if_splits)

lemma books_book_cong: "books P = books Q \<Longrightarrow> books (book_failure_once P) = books (book_failure_once Q)"
  by (simp add: booked_once) (auto simp: books_def reads_def pub_book_def)

lemma ok_install:
  assumes ok: "before_ok n P" "po_phase (pb_pending P) = OP_Connecting"
    and e: "wire_install E r (P\<lparr>pb_pending := (pb_pending P)\<lparr>po_phase := OP_Handed\<rparr>\<rparr>) = Some (wired, Q)"
  shows "if wired then wired_ok n [] Q else before_ok n Q"
proof (cases wired)
  case True
  let ?R = "P\<lparr>pb_pending := (pb_pending P)\<lparr>po_phase := OP_Handed\<rparr>\<rparr>"
  have "wired_ok n [] ?R"
    using ok by (auto simp: wired_ok_def before_ok_def money_ok_def reads_def outcome_of_def split: if_splits)
  moreover have "books Q = books ?R" using e True by (auto simp: wire_install_def Let_def split: if_splits)
  ultimately show ?thesis using wired_cong [of Q ?R] True by simp
next
  case False
  then have "books Q = books (book_failure_once (P\<lparr>pb_pending := (pb_pending P)\<lparr>po_phase := OP_Handed\<rparr>\<rparr>))"
    using e by (auto simp: wire_install_def refuse_wiring_def Let_def dest!: books_remove intro!: books_book_cong split: if_splits)
  with ok_handed [OF ok] False show ?thesis by simp
qed

lemma ok_connected:
  assumes "before_ok n P" "on_connected E r err P = Some (wired, Q)"
  shows "if wired then wired_ok n [] Q else before_ok n Q"
proof -
  have sock: "before_ok n (on_socket SK_ForceClose P) = before_ok n P" for P
    by (rule before_cong) simp
  have handed: "po_phase (pb_pending P) = OP_Connecting \<Longrightarrow>
      before_ok n (P\<lparr>pb_pending := (pb_pending P)\<lparr>po_phase := OP_Handed\<rparr>\<rparr>)"
    using assms(1) by (auto simp: before_ok_def money_ok_def reads_def split: if_splits)
  show ?thesis
  proof (cases err)
    case None
    then show ?thesis
      using assms ok_install [OF assms(1), of E r wired Q] handed
      by (auto simp: on_connected_def po_advance_def sock split: if_splits)
  next
    case (Some e)
    then show ?thesis
      using assms by (cases e) (auto simp: on_connected_def sock dest: ok_fail(1) split: if_splits prod.splits)
  qed
qed

lemma released_latch: "wired_ok n tr P \<Longrightarrow> wired_ok n tr (gauge_release P)"
  by (auto simp: wired_ok_def money_ok_def gauge_release_def active_gauge_release_def reads_def split: if_splits)

lemma gauge_book_commute: "books (book_failure_once (gauge_release P)) = books (gauge_release (book_failure_once P))"
  by (simp add: book_failure_once_def gauge_release_def active_gauge_release_def claim_failure_booking_def Let_def
      books_def reads_def pub_book_def)

text \<open>A gate that is still undecided, or whose callback waits, has not been resolved.\<close>

lemma unresolved:
  assumes "ack_reachable (g, m, tr)"
    and "ga_phase g \<in> {GP_Pending, GP_Sending} \<or> PC_Abandon \<in># m \<or> PC_Commit \<in># m"
  shows "filter resolution tr = []"
proof -
  have c: "count m PC_Abandon + count m PC_Commit + nev resolution tr =
      (if ga_phase g \<in> {GP_Pending, GP_Sending} then 0 else 1)"
    using gate_counts_always [OF assms(1)] by (simp add: gate_counts_def)
  have "nev resolution tr = 0"
  proof (cases "ga_phase g \<in> {GP_Pending, GP_Sending}")
    case True
    with c show ?thesis by simp
  next
    case False
    with c have "count m PC_Abandon + count m PC_Commit + nev resolution tr = 1" by simp
    moreover from False assms(2) have "0 < count m PC_Abandon \<or> 0 < count m PC_Commit" by auto
    ultimately show ?thesis by linarith
  qed
  then show ?thesis by simp
qed

lemma no_disarm: "filter resolution tr = [] \<Longrightarrow> EV_Disarm \<notin> set tr"
  by (auto simp: filter_empty_conv resolution_def)

lemma ok_look:
  assumes ok: "wired_ok n tr P" and r: "ack_reachable (g, m, tr)" and e: "wire_look E r g P = Some (x, g1, Q)"
  shows "if x = WL_Silenced then disarm g = (True, g1) \<and> wired_ok n (tr @ [EV_Disarm]) Q else g1 = g \<and> wired_ok n tr Q"
proof (cases "x = WL_Silenced")
  case False
  then have "g1 = g" "books Q = books P" using e by (auto simp: wire_look_def Let_def split: if_splits prod.splits)
  with wired_cong [of Q P] ok False show ?thesis by simp
next
  case True
  then obtain P2 c where d: "disarm g = (True, g1)" "c \<noteq> SK_StartRead" "pub_remove E r (on_socket c P) = Some P2"
      "Q = book_failure_once (gauge_release P2)"
    using e by (auto simp: wire_look_def Let_def split: if_splits prod.splits)
  have "ga_phase g = GP_Pending" using d(1) by (simp add: disarm_def split: if_splits)
  then have f: "filter resolution tr = []" using unresolved [OF r] by simp
  have "books P2 = books P" using books_remove [OF d(3)] d(2) by simp
  then have "books Q = books (gauge_release (book_failure_once P))"
    unfolding d(4) gauge_book_commute
    by (simp add: gauge_release_def active_gauge_release_def book_failure_once_def claim_failure_booking_def Let_def
        books_def reads_def pub_book_def)
  moreover have "wired_ok n (tr @ [EV_Disarm]) (gauge_release (book_failure_once P))"
    using ok f no_disarm [OF f]
    by (auto simp: wired_ok_def money_ok_def gauge_release_def active_gauge_release_def book_failure_once_def
        claim_failure_booking_def Let_def pub_book_def reads_def outcome_of_def resolution_def split: if_splits)
  ultimately show ?thesis using wired_cong [of Q "gauge_release (book_failure_once P)"] True d(1) by simp
qed

lemma ok_unpublished:
  assumes "wired_ok n tr P" "filter resolution tr = []" "books Q = books (gauge_release (pub_book OR_Failed P))"
    and "resolution e" "e \<noteq> EV_Commit True" "e \<noteq> EV_Disarm"
  shows "wired_ok n (tr @ [e]) Q"
  unfolding wired_cong [OF assms(3)] using assms(1,2,4-6)
  by (auto simp: wired_ok_def money_ok_def gauge_release_def active_gauge_release_def reads_def pub_book_def
      outcome_of_def split: if_splits)

lemma ok_commit:
  assumes "wired_ok n tr P" "filter resolution tr = []" "commit_open_ack E k1 k2 alive2 r P = Some (c, Q)"
  shows "wired_ok n (tr @ [EV_Commit (c = OA_Published)]) Q"
proof (cases "c = OA_Published")
  case True
  have *: "books Q = books (on_socket SK_StartRead ((pub_book OR_Ok P)
      \<lparr>pb_latch := fst (snd (active_gauge_count (pb_latch P) (pb_gauge P))),
       pb_gauge := snd (snd (active_gauge_count (pb_latch P) (pb_gauge P)))\<rparr>))"
    using commit_books [OF assms(3)] True by simp
  show ?thesis
    unfolding wired_cong [OF *] using assms(1,2) True
    by (auto simp: wired_ok_def money_ok_def active_gauge_count_def reads_def pub_book_def on_socket_def outcome_of_def
        resolution_def split: if_splits)
next
  case False
  then show ?thesis
    using ok_unpublished [OF assms(1,2), of Q "EV_Commit False"] commit_books [OF assms(3)] by (simp add: resolution_def)
qed

lemma ack_step_log: "ack_step (g, m, tr) (g1, m1, tr1) \<Longrightarrow> \<exists>es. tr1 = tr @ es"
  by (cases rule: ack_step.cases) auto

lemma ok_step: "open_step x y \<Longrightarrow> books_ok n x \<Longrightarrow> books_ok n y"
proof (induction rule: open_step.induct)
  case (os_closed E r P Q w G)
  then show ?case using ok_prewire(1) [OF os_closed(1), of n] ok_prewire(2) [OF os_closed(1), of n "snd (snd G)"]
    by (cases G) (auto simp: books_ok_def simp del: split_paired_All split: if_splits)
next
  case (os_resolved E r err P Q w G)
  then show ?case using ok_resolved(1) [OF os_resolved(1), of n] ok_resolved(2) [OF os_resolved(1), of n "snd (snd G)"]
    by (cases G) (auto simp: books_ok_def simp del: split_paired_All split: if_splits)
next
  case (os_connected E r err P wired Q G)
  then show ?case using ok_connected [OF _ os_connected(1), of n] by (cases G) (auto simp: books_ok_def split: if_splits)
next
  case (os_go E r g P g1 Q m tr)
  then show ?case using ok_look [OF _ _ os_go(1), of n tr m] by (simp add: books_ok_def)
next
  case (os_raced E r g P g1 Q m tr)
  then show ?case using ok_look [OF _ _ os_raced(1), of n tr m] by (simp add: books_ok_def)
next
  case (os_silenced E r g P g1 Q m tr)
  then have "disarm g = (True, g1) \<and> wired_ok n (tr @ [EV_Disarm]) Q" and r: "ack_reachable (g, m, tr)"
    using ok_look [OF _ _ os_silenced(1), of n tr m] by (simp_all add: books_ok_def)
  moreover from this have "ack_reachable (g1, m, tr @ [EV_Disarm])"
    using gr_step [OF r gs_disarm [of g True g1 m tr]] by simp
  ultimately show ?case by (simp add: books_ok_def)
next
  case (os_gate w g m tr g1 m1 tr1 P)
  obtain es where es: "tr1 = tr @ es" using ack_step_log [OF os_gate(2)] by blast
  then have "filter resolution es = []" using os_gate(3) by simp
  then have "wired_ok n tr1 P = wired_ok n tr P" using no_disarm [of es] es by (simp add: wired_ok_def)
  then show ?case using os_gate gr_step [OF _ os_gate(2)] by (simp add: books_ok_def)
next
  case (os_abandon w E r P Q g m tr)
  then have ok: "wired_ok n tr P" and r: "ack_reachable (g, add_mset PC_Abandon m, tr)" by (simp_all add: books_ok_def)
  have "filter resolution tr = []" by (rule unresolved [OF r]) simp
  from ok_unpublished [OF ok this, of Q EV_Abandon] os_abandon(1,2) gr_step [OF r gs_abandon]
  show ?case by (simp add: books_ok_def abandon_open_ack_def books_unpublished resolution_def)
next
  case (os_commit w E k1 k2 alive2 r P c Q b g m tr)
  then have ok: "wired_ok n tr P" and r: "ack_reachable (g, add_mset PC_Commit m, tr)" by (simp_all add: books_ok_def)
  have "filter resolution tr = []" by (rule unresolved [OF r]) simp
  from ok_commit [OF ok this os_commit(2)] os_commit(1,3) gr_step [OF r gs_commit, of b]
  show ?case by (simp add: books_ok_def)
next
  case (os_settle w G P)
  then show ?case by (cases G) (auto simp: books_ok_def released_latch)
next
  case (os_manager w G P m1)
  have "books (P\<lparr>pb_mgr := m1\<rparr>) = books P" by simp
  from before_cong [OF this, of n] wired_cong [OF this, of n] os_manager show ?case
    by (cases G) (simp add: books_ok_def split: if_splits)
qed

definition open_new :: "Manager \<Rightarrow> nat \<Rightarrow> OpenState" where
  "open_new m n = (WS_Before, (gate_new, {#}, []), publication_new m n)"

lemma ok_path: "open_path (open_new m n) y \<Longrightarrow> books_ok n y"
  unfolding open_path_def
proof (induction rule: rtranclp_induct)
  case base
  show ?case
    by (simp add: open_new_def books_ok_def gr_new before_ok_def money_ok_def publication_new_def pending_new_def reads_def)
qed (rule ok_step)

text \<open>
  Claim C13: an open has one outcome and its books agree with it. Whatever order the resolver, the connect,
  the wiring, the end of the tunnel, the end of the target, the threads of the gate and other threads come
  in, an open books at most one outcome. Once its gate is resolved and no callback of it waits, it has
  booked exactly one, also when the look of the wiring races with the target's end. The outcome Ok is
  booked only after the OPEN_ACK was accepted; the target is read exactly when the outcome is Ok, and then
  once; the active gauge counts the open only while it is published and not yet settled; and an open
  cancelled before its wiring is booked as failed.
\<close>

theorem open_outcome_once:
  assumes "open_path (open_new mgr n) (w, (g, m, tr), P)"
  shows "length (pb_results P) \<le> 1
    \<and> (ga_phase g \<notin> {GP_Pending, GP_Sending} \<and> PC_Abandon \<notin># m \<and> PC_Commit \<notin># m \<longrightarrow> length (pb_results P) = 1)
    \<and> (pb_results P = [OR_Ok] \<longrightarrow> EV_Ack SO_Sent \<in> set tr)
    \<and> count_list (pb_socket P) SK_StartRead = (if pb_results P = [OR_Ok] then 1 else 0)
    \<and> pb_gauge P = n + (if pb_latch P = AG_Counted then 1 else 0)
    \<and> (pb_latch P = AG_Counted \<longrightarrow> pb_results P = [OR_Ok])
    \<and> (po_resolved (pb_pending P) \<longrightarrow> pb_results P = [OR_Failed])"
proof -
  have ok: "books_ok n (w, (g, m, tr), P)" by (rule ok_path [OF assms])
  then have r: "ack_reachable (g, m, tr)" by (simp add: books_ok_def)
  have cnt: "count m PC_Abandon + count m PC_Commit + nev resolution tr =
      (if ga_phase g \<in> {GP_Pending, GP_Sending} then 0 else 1)"
    using gate_counts_always [OF r] by (simp add: gate_counts_def)
  have fin: "ga_phase g \<notin> {GP_Pending, GP_Sending} \<Longrightarrow> PC_Abandon \<notin># m \<Longrightarrow> PC_Commit \<notin># m \<Longrightarrow> nev resolution tr = 1"
    using cnt by (simp add: not_in_iff)
  have acked: "EV_Commit True \<in> set tr \<Longrightarrow> EV_Ack SO_Sent \<in> set tr"
    using acked_reachable [OF r] by (auto simp: acked_def)
  show ?thesis
  proof (cases "w = WS_Before")
    case True
    with ok have b: "tr = []" "before_ok n P" by (simp_all add: books_ok_def)
    from fin b(1) have "ga_phase g \<notin> {GP_Pending, GP_Sending} \<Longrightarrow> PC_Abandon \<notin># m \<Longrightarrow> PC_Commit \<notin># m \<Longrightarrow> False" by simp
    with b(2) show ?thesis by (auto simp: before_ok_def money_ok_def reads_def po_resolved_def split: if_splits)
  next
    case False
    with ok have wd: "wired_ok n tr P" by (simp add: books_ok_def)
    have one: "length (pb_results P) \<le> 1" and ne: "nev resolution tr \<noteq> 0 \<Longrightarrow> length (pb_results P) = 1"
      using wd by (auto simp: wired_ok_def outcome_of_def)
    have "pb_results P = [OR_Ok] \<Longrightarrow> EV_Ack SO_Sent \<in> set tr"
    proof -
      assume "pb_results P = [OR_Ok]"
      then have "filter resolution tr \<noteq> []" "hd (filter resolution tr) = EV_Commit True"
        using wd by (auto simp: wired_ok_def outcome_of_def split: if_splits)
      then have "EV_Commit True \<in> set (filter resolution tr)" by (metis list.set_sel(1))
      with acked show ?thesis by simp
    qed
    moreover have "ga_phase g \<notin> {GP_Pending, GP_Sending} \<Longrightarrow> PC_Abandon \<notin># m \<Longrightarrow> PC_Commit \<notin># m \<Longrightarrow> length (pb_results P) = 1"
      using ne fin by simp
    moreover have "money_ok n P" "po_phase (pb_pending P) = OP_Handed" using wd by (simp_all add: wired_ok_def)
    ultimately show ?thesis using one by (simp add: money_ok_def reads_def po_resolved_def)
  qed
qed

lemma unregistered_remove:
  assumes "pub_remove E r P = Some Q" "or_tunnel_alive r"
  shows "\<not> registered r Q"
proof -
  obtain b m where m: "remove_tunnel_if (se_fuel E) (se_env E) (or_id r) (Some (or_tunnel r)) (pb_mgr P) = Some (b, m)"
    "Q = P\<lparr>pb_mgr := m\<rparr>"
    using assms by (auto simp: pub_remove_def)
  show ?thesis
  proof (cases "registered r P")
    case True
    then show ?thesis using remove_erases [OF _ m(1)] m(2) by (simp add: registered_def)
  next
    case False
    then show ?thesis using m by (auto simp: remove_tunnel_if_def remove_tunnel_impl_def registered_def split: option.splits if_splits)
  qed
qed

lemma registered_release: "release_unpublished_resources E r P = Some Q \<Longrightarrow> registered x Q = registered x P"
  by (auto simp: release_unpublished_resources_def Let_def registered_def find_tunnel_def on_socket_def
      dest!: on_tunnel_fields(1) split: if_splits)

lemma unregistered_unpublished:
  assumes "resolve_unpublished E r reason P = Some Q" "or_mgr_alive r" "or_tunnel_alive r"
  shows "\<not> registered r Q"
proof -
  obtain P2 P3 where P2: "pub_remove E r (pub_send E (make_tunnel_error (or_id r) 2 reason) (pub_book OR_Failed P)) = Some P2"
    and P3: "release_unpublished_resources E r P2 = Some P3" and Q: "Q = gauge_release P3"
    using assms by (auto simp: resolve_unpublished_def Let_def bind_eq_Some_conv)
  have "\<not> registered r P3" using unregistered_remove [OF P2 assms(3)] registered_release [OF P3] by simp
  then show ?thesis by (simp add: Q gauge_release_def registered_def split: prod.splits)
qed

text \<open>Claim C14: a commit publishes only a tunnel that its manager still holds, and otherwise leaves nothing
  behind. It answers Published only when the registry names this very tunnel at the end and the tunnel was
  unpublished when its state was claimed, and then starts the read loop as its last act. Otherwise no read
  is started, the gauge can no longer count the tunnel, and a manager that is still there has let go of it,
  whatever other threads did to the manager between the sections of the commit.\<close>

theorem commit_owned:
  assumes "commit_open_ack E k1 k2 alive2 r P = Some (c, Q)"
  shows "(c = OA_Published \<longrightarrow> registered r Q \<and> tn_state (tunnel_at (or_tunnel r) (k1 (pb_mgr P))) = TS_None
      \<and> pb_socket Q = pb_socket P @ [SK_StartRead])
    \<and> (c \<noteq> OA_Published \<longrightarrow> count_list (pb_socket Q) SK_StartRead = count_list (pb_socket P) SK_StartRead
      \<and> pb_latch Q = AG_Released \<and> (or_mgr_alive r \<and> alive2 \<and> or_tunnel_alive r \<longrightarrow> \<not> registered r Q))"
proof -
  have same_ref: "r\<lparr>or_mgr_alive := True\<rparr> = r" if "or_mgr_alive r" using that by (cases r) simp
  have "pb_latch Q = AG_Released \<and> count_list (pb_socket Q) SK_StartRead = count_list (pb_socket P) SK_StartRead"
    if "c \<noteq> OA_Published"
    using commit_books [OF assms] that
    by (simp add: books_def reads_def gauge_release_def active_gauge_release_def pub_book_def)
  moreover have "\<not> registered r Q" if "c \<noteq> OA_Published" "or_mgr_alive r" "alive2" "or_tunnel_alive r"
    using assms that unregistered_unpublished [of E r _ _ Q]
    by (auto simp: same_ref commit_open_ack_def Let_def abort_open_ack_after_send_def registered_def split: if_splits prod.splits)
  moreover have "registered r Q \<and> tn_state (tunnel_at (or_tunnel r) (k1 (pb_mgr P))) = TS_None
      \<and> pb_socket Q = pb_socket P @ [SK_StartRead]" if "c = OA_Published"
    using assms that
    by (auto simp: commit_open_ack_def Let_def registered_def pub_book_def on_socket_def try_publish_connected_def
        transition_state_if_def split: if_splits prod.splits)
  ultimately show ?thesis by blast
qed

text \<open>An open whose target connects and whose OPEN_ACK is accepted, with nobody interfering.\<close>

definition ex_open_ref :: OpenRef where
  "ex_open_ref = \<lparr>or_id = 5, or_tunnel = 0, or_mgr_alive = True, or_tunnel_alive = True, or_conn_alive = True\<rparr>"

definition ex_open_mgr :: Manager where
  "ex_open_mgr = mgr_new\<lparr>mg_tunnels := [(5, 0)], mg_heap := [\<lparr>mo_tunnel = tunnel_new 5 kDefaultSendWindowSize 0, mo_hook = None\<rparr>]\<rparr>"

definition ex_wired :: Publication where
  "ex_wired = snd (the (on_connected ex_env ex_open_ref None
     (the (on_resolved ex_env ex_open_ref None (publication_new ex_open_mgr 3)))))"

definition ex_watched :: Publication where
  "ex_watched = on_socket SK_WatchPeerClose ex_wired"

definition ex_committed :: Publication where
  "ex_committed = snd (the (commit_open_ack ex_env id id True ex_open_ref ex_watched))"

lemmas ex_open_defs = publication_new_def on_resolved_def po_resolved_def pending_new_def po_advance_def
  on_connected_def wire_install_def wire_look_def registered_def ex_open_mgr_def ex_open_ref_def find_tunnel_def on_socket_def
  tunnel_at_def put_tunnel_def set_callbacks_def set_tcp_connection_def tunnel_new_def terminal_def Let_def
  commit_open_ack_def try_publish_connected_def transition_state_if_def
  active_gauge_count_def pub_book_def ex_wired_def ex_watched_def ex_committed_def

lemma ex_open_steps:
  "\<exists>P1. on_resolved ex_env ex_open_ref None (publication_new ex_open_mgr 3) = Some P1
     \<and> on_connected ex_env ex_open_ref None P1 = Some (True, ex_wired)"
  "wire_look ex_env ex_open_ref gate_new ex_wired = Some (WL_Go, gate_new, ex_watched)"
  "commit_open_ack ex_env id id True ex_open_ref ex_watched = Some (OA_Published, ex_committed)"
  "pb_results ex_committed = [OR_Ok]"
  by (simp_all add: ex_open_defs)

lemma open_path_to: "open_path x y \<Longrightarrow> open_step y z' \<Longrightarrow> z' = z \<Longrightarrow> open_path x z"
  unfolding open_path_def by (metis rtranclp.rtrancl_into_rtrancl)

definition ex_gate :: OpenAckGate where
  "ex_gate = (release_callbacks_locked (gate_new\<lparr>ga_phase := GP_Committing, ga_attempts := 1\<rparr>))
     \<lparr>ga_phase := GP_Committed, ga_post_commit_close := False\<rparr>"

lemma ex_open_path:
  "open_path (open_new ex_open_mgr 3) (WS_Started, (ex_gate, {#}, [EV_Ack SO_Sent, EV_Commit True]), ex_committed)"
proof -
  note defs = gate_defs gate_new_def
  let ?g1 = "gate_new\<lparr>ga_phase := GP_Sending\<rparr>" and ?x = "open_new ex_open_mgr 3"
  let ?g2 = "gate_new\<lparr>ga_phase := GP_Sending, ga_attempts := 1\<rparr>"
  let ?g3 = "release_callbacks_locked (gate_new\<lparr>ga_phase := GP_Committing, ga_attempts := 1\<rparr>)"
  obtain P1 where P1: "on_resolved ex_env ex_open_ref None (publication_new ex_open_mgr 3) = Some P1"
    "on_connected ex_env ex_open_ref None P1 = Some (True, ex_wired)" using ex_open_steps(1) by blast
  have "open_path ?x ?x" by (simp add: open_path_def)
  then have "open_path ?x (WS_Before, (gate_new, {#}, []), P1)"
    unfolding open_new_def by (rule open_path_to [OF _ os_resolved [OF P1(1)] refl])
  then have "open_path ?x (WS_Installed, (gate_new, {#}, []), ex_wired)"
    by (rule open_path_to [OF _ os_connected [OF P1(2)]]) simp
  then have "open_path ?x (WS_Started, (gate_new, {#}, []), ex_watched)"
    by (rule open_path_to [OF _ os_go [OF ex_open_steps(2)] refl])
  then have "open_path ?x (WS_Started, (?g1, {#PC_Send 0 True#}, []), ex_watched)"
    by (rule open_path_to [OF _ os_gate [OF _ gs_attempt [OF surjective_pairing, where r = 0]]]) (simp_all add: defs)
  then have "open_path ?x (WS_Started, (?g2, {#PC_Settle 0 SO_Sent#}, [EV_Ack SO_Sent]), ex_watched)"
    by (rule open_path_to [OF _ os_gate [OF _ gs_send [of _ 0 "{#}" _ SO_Sent]]]) (simp_all add: defs resolution_def)
  then have "open_path ?x (WS_Started, (?g3, {#PC_Commit#}, [EV_Ack SO_Sent]), ex_watched)"
    by (rule open_path_to [OF _ os_gate [OF _ gs_settle [OF surjective_pairing]]]) (simp_all add: defs)
  then have "open_path ?x (WS_Started, (?g3, {#PC_Published True#}, [EV_Ack SO_Sent, EV_Commit True]), ex_committed)"
    by (rule open_path_to [OF _ os_commit [OF _ ex_open_steps(3) refl]]) simp_all
  then show ?thesis
    by (rule open_path_to [OF _ os_gate [OF _ gs_finish [OF surjective_pairing]]]) (simp_all add: defs ex_gate_def)
qed

theorem open_outcome_once_witness:
  "length (pb_results ex_committed) = 1 \<and> count_list (pb_socket ex_committed) SK_StartRead = 1"
  using open_outcome_once [OF ex_open_path] ex_open_steps(4) by simp

theorem commit_owned_witness:
  "(\<exists>Q. commit_open_ack ex_env id id True ex_open_ref (publication_new ex_open_mgr 3) = Some (OA_Published, Q)
      \<and> registered ex_open_ref Q)
   \<and> (\<exists>Q. commit_open_ack ex_env id id True (ex_open_ref\<lparr>or_tunnel_alive := False\<rparr>) (publication_new ex_open_mgr 3) = Some (OA_Gone, Q)
      \<and> pb_latch Q = AG_Released)"
proof -
  obtain Q where Q: "commit_open_ack ex_env id id True ex_open_ref (publication_new ex_open_mgr 3) = Some (OA_Published, Q)"
    by (simp add: ex_open_defs)
  obtain R where R: "commit_open_ack ex_env id id True (ex_open_ref\<lparr>or_tunnel_alive := False\<rparr>) (publication_new ex_open_mgr 3)
      = Some (OA_Gone, R)"
    by (simp add: ex_open_defs abort_open_ack_after_send_def resolve_unpublished_def pub_remove_def remove_tunnel_if_def
        release_unpublished_resources_def)
  show ?thesis using commit_owned [OF Q] commit_owned [OF R] Q R by auto
qed

end
