(* ===== verification/Tox_Watchdog.thy ===== *)
theory Tox_Watchdog
  imports Prelude "HOL-Library.Signed_Division"
begin

text \<open>
  The watchdog of the Tox thread (\<open>src/tox/tox_watchdog.cpp\<close>). The thread counts a heartbeat after every
  iteration; a timer of one hertz looks at the counter and the time of the last heartbeat and aborts the
  process when the thread is wedged. Clock readings are arguments. The heartbeat counter is a natural number:
  it is 64 bits wide and incremented a few times a second. Two checks never overlap, because
  an overlapping one finds the mutex taken and only reports the lag; such a call is not an event here. Hooks are
  a log.
\<close>

section \<open>State and operations\<close>

definition kConfirmationTicks :: nat where "kConfirmationTicks = 5"

datatype WatchdogHook = WH_Abort | WH_Notify

record ToxWatchdog =
  wd_heartbeats :: nat
  wd_last_heartbeat_ns :: int
  wd_deadline_seconds :: int
  wd_enabled :: bool
  wd_aborted :: bool
  wd_last_seen :: nat
  wd_ticks :: nat                  \<comment> \<open>\<open>over_deadline_ticks_\<close>\<close>
  wd_last_check_ns :: int
  wd_stall_warned :: bool
  wd_suspend_forgiven :: bool
  wd_running :: bool
  wd_generation :: nat
  wd_timer :: "nat option"         \<comment> \<open>the generation of the pending wait\<close>
  wd_notify_hook :: bool           \<comment> \<open>\<open>systemd_notify_hook_\<close> is set\<close>
  wd_data_dir :: bool              \<comment> \<open>\<open>data_dir_\<close> is set\<close>
  wd_abort_count :: nat            \<comment> \<open>the number in the file \<open>abort_count\<close>, 0 when it has none\<close>
  wd_hooks :: "WatchdogHook list"

definition watchdog_new :: ToxWatchdog where
  "watchdog_new =
     \<lparr>wd_heartbeats = 0, wd_last_heartbeat_ns = 0, wd_deadline_seconds = 30, wd_enabled = True, wd_aborted = False,
      wd_last_seen = 0, wd_ticks = 0, wd_last_check_ns = 0, wd_stall_warned = False, wd_suspend_forgiven = False,
      wd_running = False, wd_generation = 0, wd_timer = None,
      wd_notify_hook = False, wd_data_dir = False, wd_abort_count = 0, wd_hooks = []\<rparr>"

definition wd_configure :: "int \<Rightarrow> bool \<Rightarrow> ToxWatchdog \<Rightarrow> ToxWatchdog" where
  "wd_configure deadline enabled w =
     w\<lparr>wd_deadline_seconds := (if deadline < 5 then 5 else deadline), wd_enabled := enabled\<rparr>"

definition wd_set_data_dir :: "bool \<Rightarrow> ToxWatchdog \<Rightarrow> ToxWatchdog" where
  "wd_set_data_dir d w = w\<lparr>wd_data_dir := d\<rparr>"

definition wd_set_systemd_notify_hook :: "bool \<Rightarrow> ToxWatchdog \<Rightarrow> ToxWatchdog" where
  "wd_set_systemd_notify_hook h w = w\<lparr>wd_notify_hook := h\<rparr>"

definition wd_heartbeat :: "int \<Rightarrow> ToxWatchdog \<Rightarrow> ToxWatchdog" where
  "wd_heartbeat now w = w\<lparr>wd_heartbeats := wd_heartbeats w + 1, wd_last_heartbeat_ns := now\<rparr>"

definition wd_start :: "int \<Rightarrow> ToxWatchdog \<Rightarrow> ToxWatchdog" where
  "wd_start now w =
     (if wd_running w then w
      else w\<lparr>wd_running := True, wd_generation := wd_generation w + 1, wd_last_heartbeat_ns := now,
             wd_timer := Some (wd_generation w + 1)\<rparr>)"

definition wd_stop :: "ToxWatchdog \<Rightarrow> ToxWatchdog" where
  "wd_stop w =
     (if \<not> wd_running w then w
      else w\<lparr>wd_running := False, wd_generation := wd_generation w + 1, wd_timer := None\<rparr>)"

definition lag_ms :: "int \<Rightarrow> ToxWatchdog \<Rightarrow> int" where
  "lag_ms now w = (if wd_last_heartbeat_ns w = 0 then 0 else (now - wd_last_heartbeat_ns w) sdiv 1000000)"

definition run_hook :: "WatchdogHook \<Rightarrow> ToxWatchdog \<Rightarrow> ToxWatchdog" where
  "run_hook h w = w\<lparr>wd_hooks := wd_hooks w @ [h]\<rparr>"

definition notify_systemd :: "ToxWatchdog \<Rightarrow> ToxWatchdog" where
  "notify_systemd w = (if wd_notify_hook w then run_hook WH_Notify w else w)"

definition persist_abort_count :: "ToxWatchdog \<Rightarrow> ToxWatchdog" where
  "persist_abort_count w = (if wd_data_dir w then w\<lparr>wd_abort_count := wd_abort_count w + 1\<rparr> else w)"

text \<open>The part of a check for a heartbeat that moved, and the part for one that is past its deadline.\<close>

definition wd_progress :: "ToxWatchdog \<Rightarrow> ToxWatchdog" where
  "wd_progress w = notify_systemd (w\<lparr>wd_ticks := 0, wd_suspend_forgiven := False, wd_stall_warned := False\<rparr>)"

definition wd_over_deadline :: "ToxWatchdog \<Rightarrow> ToxWatchdog" where
  "wd_over_deadline w =
     (let w1 = w\<lparr>wd_ticks := wd_ticks w + 1\<rparr>
      in if wd_ticks w1 < kConfirmationTicks then w1
         else if wd_aborted w1 then w1
         else run_hook WH_Abort (persist_abort_count (w1\<lparr>wd_aborted := True\<rparr>)))"

text \<open>\<open>now\<close> is the time at which the lag is taken, \<open>check_ns\<close> the time of the check itself.\<close>

definition check_once :: "int \<Rightarrow> int \<Rightarrow> ToxWatchdog \<Rightarrow> int \<times> ToxWatchdog" where
  "check_once now check_ns w =
     (let lag = lag_ms now w; deadline_ms = wd_deadline_seconds w * 1000
      in (lag,
          if \<not> wd_enabled w then w
          else let gap = (if wd_last_check_ns w = 0 then 0 else (check_ns - wd_last_check_ns w) sdiv 1000000);
                   hb = wd_heartbeats w; seen = wd_last_seen w;
                   w1 = w\<lparr>wd_last_check_ns := check_ns, wd_last_seen := hb\<rparr>
               in if hb \<noteq> seen then wd_progress w1
                  else if gap > deadline_ms \<and> \<not> wd_suspend_forgiven w1
                  then w1\<lparr>wd_suspend_forgiven := True, wd_ticks := 0\<rparr>
                  else let w2 = (if gap > deadline_ms then w1\<lparr>wd_suspend_forgiven := True\<rparr> else w1)
                       in if lag > deadline_ms then wd_over_deadline w2
                          else if lag > deadline_ms sdiv 2 then w2\<lparr>wd_stall_warned := True\<rparr>
                          else notify_systemd w2))"

text \<open>The completion of a wait of the observer's timer.\<close>

definition wd_timer_fires :: "nat \<Rightarrow> int \<Rightarrow> int \<Rightarrow> ToxWatchdog \<Rightarrow> ToxWatchdog" where
  "wd_timer_fires generation now check_ns w =
     (if wd_generation w \<noteq> generation \<or> \<not> wd_running w then w
      else let w1 = snd (check_once now check_ns w)
           in if wd_generation w1 = generation \<and> wd_running w1 then w1\<lparr>wd_timer := Some generation\<rparr> else w1)"

section \<open>Runs\<close>

datatype WatchdogEvent =
    WE_Heartbeat int | WE_Start int | WE_Stop | WE_Configure int bool | WE_Check int int | WE_Timer nat int int
  | WE_Data_Dir bool | WE_Notify_Hook bool

fun wd_event :: "WatchdogEvent \<Rightarrow> ToxWatchdog \<Rightarrow> ToxWatchdog" where
  "wd_event (WE_Heartbeat now) w = wd_heartbeat now w"
| "wd_event (WE_Start now) w = wd_start now w"
| "wd_event WE_Stop w = wd_stop w"
| "wd_event (WE_Configure d e) w = wd_configure d e w"
| "wd_event (WE_Check now c) w = snd (check_once now c w)"
| "wd_event (WE_Timer g now c) w = wd_timer_fires g now c w"
| "wd_event (WE_Data_Dir d) w = wd_set_data_dir d w"
| "wd_event (WE_Notify_Hook h) w = wd_set_systemd_notify_hook h w"

abbreviation wd_run :: "WatchdogEvent list \<Rightarrow> ToxWatchdog \<Rightarrow> ToxWatchdog" where
  "wd_run es w \<equiv> fold wd_event es w"

text \<open>The longest stretch of checks without a heartbeat, given the current one.\<close>

fun silence :: "nat \<Rightarrow> WatchdogEvent list \<Rightarrow> nat" where
  "silence n [] = n"
| "silence n (WE_Heartbeat _ # es) = max n (silence 0 es)"
| "silence n (WE_Check _ _ # es) = silence (n + 1) es"
| "silence n (WE_Timer _ _ _ # es) = silence (n + 1) es"
| "silence n (_ # es) = silence n es"

lemma silence_ge: "n \<le> silence n es"
  by (induction n es rule: silence.induct) auto

lemmas check_defs =
  check_once_def Let_def wd_progress_def wd_over_deadline_def notify_systemd_def run_hook_def persist_abort_count_def

lemma check_ticks:
  "wd_aborted (snd (check_once now c w)) \<Longrightarrow> \<not> wd_aborted w \<Longrightarrow> wd_ticks w \<ge> 4"
  "wd_ticks (snd (check_once now c w)) \<le> wd_ticks w + 1"
  by (auto simp: check_defs kConfirmationTicks_def split: if_splits)

lemma check_moved:
  assumes "wd_heartbeats w \<noteq> wd_last_seen w"
  shows "wd_aborted (snd (check_once now c w)) = wd_aborted w"
    "wd_enabled w \<Longrightarrow> wd_ticks (snd (check_once now c w)) = 0"
  using assms by (auto simp: check_defs)

lemma check_disabled: "\<not> wd_enabled w \<Longrightarrow> snd (check_once now c w) = w"
  by (simp add: check_once_def)

lemma check_seen: "wd_enabled w \<Longrightarrow> wd_last_seen (snd (check_once now c w)) = wd_heartbeats w"
  "wd_heartbeats (snd (check_once now c w)) = wd_heartbeats w"
  by (auto simp: check_defs)

text \<open>With \<open>n\<close> checks since the last heartbeat, at most \<open>n\<close> ticks are on the account, or the heartbeat has not
  been looked at yet.\<close>

definition wd_ok :: "nat \<Rightarrow> ToxWatchdog \<Rightarrow> bool" where
  "wd_ok n w \<longleftrightarrow> \<not> wd_aborted w \<and> (wd_ticks w \<le> n \<or> wd_heartbeats w > wd_last_seen w) \<and> wd_last_seen w \<le> wd_heartbeats w"

lemma check_ok:
  assumes "wd_ok n w" "n < kConfirmationTicks - 1"
  shows "wd_ok (n + 1) (snd (check_once now c w))"
proof (cases "wd_enabled w")
  case True
  have na: "\<not> wd_aborted (snd (check_once now c w))"
    using assms check_ticks(1) check_moved(1) by (fastforce simp: wd_ok_def kConfirmationTicks_def)
  have "wd_ticks (snd (check_once now c w)) \<le> n + 1"
    using assms(1) check_ticks(2) [of now c w] check_moved(2) [OF _ True] by (fastforce simp: wd_ok_def)
  then show ?thesis using na by (simp add: wd_ok_def check_seen(1) [OF True] check_seen(2))
next
  case False
  then show ?thesis using assms by (auto simp: check_disabled wd_ok_def)
qed

lemma ok_mono: "wd_ok n w \<Longrightarrow> n \<le> m \<Longrightarrow> wd_ok m w"
  by (auto simp: wd_ok_def)

lemma timer_cases:
  "wd_timer_fires g now c w = w
   \<or> (\<exists>t. wd_timer_fires g now c w = (snd (check_once now c w))\<lparr>wd_timer := t\<rparr>)
   \<or> wd_timer_fires g now c w = snd (check_once now c w)"
  by (auto simp: wd_timer_fires_def Let_def)

lemma timer_ok:
  assumes "wd_ok n w" "n < kConfirmationTicks - 1"
  shows "wd_ok (n + 1) (wd_timer_fires g now c w)"
  using timer_cases [of g now c w] check_ok [OF assms, of now c] ok_mono [OF assms(1), of "n + 1"]
  by (auto simp: wd_ok_def)

lemma setup_ok:
  "wd_ok n w \<Longrightarrow> wd_ok n (wd_start now w)" "wd_ok n w \<Longrightarrow> wd_ok n (wd_stop w)"
  "wd_ok n w \<Longrightarrow> wd_ok n (wd_configure d e w)" "wd_ok n w \<Longrightarrow> wd_ok n (wd_set_data_dir b w)"
  "wd_ok n w \<Longrightarrow> wd_ok n (wd_set_systemd_notify_hook b w)"
  by (auto simp: wd_ok_def wd_start_def wd_stop_def wd_configure_def wd_set_data_dir_def wd_set_systemd_notify_hook_def)

lemma run_ok:
  assumes "wd_ok n w" "silence n es < kConfirmationTicks"
  shows "\<not> wd_aborted (wd_run es w)"
  using assms
proof (induction es arbitrary: n w)
  case (Cons e es)
  show ?case
  proof (cases e)
    case (WE_Heartbeat now)
    then have "wd_ok 0 (wd_heartbeat now w)" using Cons.prems by (auto simp: wd_ok_def wd_heartbeat_def)
    then show ?thesis using Cons.IH Cons.prems WE_Heartbeat by simp
  next
    case (WE_Check now c)
    then have "n < kConfirmationTicks - 1" using Cons.prems silence_ge [of "n + 1" es] by simp
    then have "wd_ok (n + 1) (snd (check_once now c w))" using Cons.prems check_ok by blast
    then show ?thesis using Cons.IH Cons.prems WE_Check by simp
  next
    case (WE_Timer g now c)
    then have "n < kConfirmationTicks - 1" using Cons.prems silence_ge [of "n + 1" es] by simp
    then have "wd_ok (n + 1) (wd_timer_fires g now c w)" using Cons.prems timer_ok by blast
    then show ?thesis using Cons.IH Cons.prems WE_Timer by simp
  qed (use Cons.IH [of n] Cons.prems setup_ok [of n w] in auto)
qed (simp add: wd_ok_def)

text \<open>Claim C26: a thread that makes progress is never aborted. If at least one heartbeat comes in every stretch of
  five checks, no run of the watchdog aborts, whatever the clocks say, however long the host was
  suspended and however often the watchdog is stopped, started or reconfigured.\<close>

theorem progress_never_aborted:
  assumes "silence 0 es < kConfirmationTicks"
  shows "\<not> wd_aborted (wd_run es watchdog_new)"
  by (rule run_ok [OF _ assms]) (simp add: wd_ok_def watchdog_new_def)

text \<open>A host that sleeps for an hour between two heartbeats: four late checks, and no abort.\<close>

theorem progress_never_aborted_witness:
  "\<not> wd_aborted (wd_run ([WE_Start 1, WE_Heartbeat 2] @ replicate 4 (WE_Check 3600000000000 3600000000000)
     @ [WE_Heartbeat 3600000000001, WE_Check 3600000000002 3600000000002]) watchdog_new)"
  using progress_never_aborted [of "[WE_Start 1, WE_Heartbeat 2] @ replicate 4 (WE_Check 3600000000000 3600000000000)
     @ [WE_Heartbeat 3600000000001, WE_Check 3600000000002 3600000000002]"]
  by (simp add: kConfirmationTicks_def numeral_eq_Suc)

section \<open>A wedged thread\<close>

text \<open>How many checks past the deadline are still to come: one that looks at the last heartbeat, four that
  confirm, one forgiven as a suspend, which resets the account, and five more.\<close>

definition patience :: "ToxWatchdog \<Rightarrow> nat" where
  "patience w =
     (if wd_aborted w then 0
      else if wd_heartbeats w \<noteq> wd_last_seen w then 11
      else if \<not> wd_suspend_forgiven w then 10 - wd_ticks w
      else 5 - wd_ticks w)"

definition wd_inv :: "ToxWatchdog \<Rightarrow> bool" where
  "wd_inv w \<longleftrightarrow> (\<not> wd_aborted w \<longrightarrow> wd_ticks w < kConfirmationTicks)
     \<and> count_list (wd_hooks w) WH_Abort = (if wd_aborted w then 1 else 0)"

definition overdue :: "int \<Rightarrow> ToxWatchdog \<Rightarrow> bool" where
  "overdue now w \<longleftrightarrow> wd_enabled w \<and> lag_ms now w > wd_deadline_seconds w * 1000"

lemma check_inv: "wd_inv w \<Longrightarrow> wd_inv (snd (check_once now c w))"
  by (auto simp: check_defs wd_inv_def kConfirmationTicks_def)

lemma event_inv: "wd_inv w \<Longrightarrow> wd_inv (wd_event e w)"
proof (cases e)
  case (WE_Timer g now c)
  assume "wd_inv w"
  with WE_Timer check_inv [of w now c] timer_cases [of g now c w] show ?thesis by (auto simp: wd_inv_def)
qed (auto simp: wd_heartbeat_def wd_start_def wd_stop_def wd_configure_def wd_set_data_dir_def wd_set_systemd_notify_hook_def check_inv, auto simp: wd_inv_def)

lemma run_inv: "wd_inv w \<Longrightarrow> wd_inv (wd_run es w)"
  by (induction es arbitrary: w) (simp_all add: event_inv)

lemma check_overdue_same:
  "overdue t (snd (check_once now c w)) = overdue t w"
  by (auto simp: overdue_def lag_ms_def check_defs)

lemma check_patience:
  assumes "overdue now w" "wd_inv w"
  shows "patience (snd (check_once now c w)) \<le> patience w - 1"
proof -
  have lag: "wd_enabled w" "lag_ms now w > wd_deadline_seconds w * 1000" using assms(1) by (auto simp: overdue_def)
  consider "wd_aborted w" | "\<not> wd_aborted w" "wd_heartbeats w \<noteq> wd_last_seen w"
    | "\<not> wd_aborted w" "wd_heartbeats w = wd_last_seen w" by blast
  then show ?thesis
    using assms(2) lag by cases (auto simp: patience_def check_defs wd_inv_def kConfirmationTicks_def)
qed

lemma checks_patience:
  assumes "\<forall>(now, c) \<in> set cs. overdue now w" "wd_inv w" "patience w \<le> length cs"
  shows "wd_aborted (fold (\<lambda>(now, c) w. snd (check_once now c w)) cs w)"
  using assms
proof (induction cs arbitrary: w)
  case Nil
  then show ?case by (auto simp: patience_def wd_inv_def kConfirmationTicks_def split: if_splits)
next
  case (Cons x cs)
  obtain now c where x: "x = (now, c)" by (cases x)
  have "patience (snd (check_once now c w)) \<le> length cs"
    using check_patience [of now w c] Cons.prems by (auto simp: x)
  then show ?case
    using Cons.IH [of "snd (check_once now c w)"] Cons.prems check_inv by (auto simp: x check_overdue_same)
qed

text \<open>Claim C27: a wedged thread is aborted, once. In every state the watchdog can reach, when no heartbeat comes
  any more and the deadline has passed, eleven checks in a row abort the process, whatever suspends they
  are taken for; and the abort hook runs exactly when the watchdog has aborted, and only once.\<close>

theorem wedged_thread_aborted:
  assumes "w = wd_run es watchdog_new" and "\<forall>(now, c) \<in> set cs. overdue now w" and "11 \<le> length cs"
  shows "wd_aborted (fold (\<lambda>(now, c) w. snd (check_once now c w)) cs w)
    \<and> count_list (wd_hooks (fold (\<lambda>(now, c) w. snd (check_once now c w)) cs w)) WH_Abort = 1"
proof -
  have inv: "wd_inv w" unfolding assms(1) by (rule run_inv) (simp add: wd_inv_def watchdog_new_def kConfirmationTicks_def)
  have "patience w \<le> length cs" using assms(3) by (auto simp: patience_def)
  then have ab: "wd_aborted (fold (\<lambda>(now, c) w. snd (check_once now c w)) cs w)"
    using checks_patience [OF assms(2) inv] by simp
  have "wd_inv (fold (\<lambda>(now, c) w. snd (check_once now c w)) cs w)"
    using inv by (induction cs arbitrary: w) (auto simp: check_inv)
  with ab show ?thesis by (simp add: wd_inv_def)
qed

theorem wedged_thread_aborted_witness:
  "wd_aborted (fold (\<lambda>(now, c) w. snd (check_once now c w)) (replicate 11 (40000000000, 40000000000))
     (wd_run [WE_Start 1, WE_Heartbeat 2] watchdog_new))"
proof -
  have "overdue 40000000000 (wd_run [WE_Start 1, WE_Heartbeat 2] watchdog_new)"
    by (simp add: overdue_def lag_ms_def wd_start_def wd_heartbeat_def watchdog_new_def signed_divide_int_def)
  then show ?thesis
    using wedged_thread_aborted [OF refl, of "replicate 11 (40000000000, 40000000000)" "[WE_Start 1, WE_Heartbeat 2]"]
    by auto
qed

text \<open>Eleven is the exact bound: after ten such checks a thread may still run.\<close>

lemma ten_checks_not_enough:
  "\<not> wd_aborted (wd_run ([WE_Start 1, WE_Heartbeat 2] @ replicate 5 (WE_Check 40000000000 40000000000)
     @ replicate 5 (WE_Check 90000000000 90000000000)) watchdog_new)"
  by code_simp

text \<open>A wait that was pending when the watchdog was stopped does nothing, also after a restart.\<close>

theorem stale_wait_ignored:
  assumes "wd_running w" and "g \<le> wd_generation w"
  shows "wd_timer_fires g now c (wd_stop w) = wd_stop w
    \<and> wd_timer_fires g now c (wd_start t (wd_stop w)) = wd_start t (wd_stop w)"
  using assms by (simp add: wd_timer_fires_def wd_stop_def wd_start_def)

end
