(* ===== verification/Socks5.thy ===== *)
theory Socks5
  imports Text_Util
begin

text \<open>
  The SOCKS5 and HTTP CONNECT front end of the client (\<open>app/socks5_listener\<close>): the three parsers, the
  replies and the session that drives them over the bytes of an accepted connection until the
  connection is handed to the tunnel layer. The lemmas show that the outcome does not depend on how
  TCP cuts the bytes into segments, that well-formed requests are read back exactly, and that no byte
  after the handshake is lost.
\<close>

section \<open>Constants and results\<close>

definition kVersion :: byte where "kVersion = 5"
definition kAuthNone :: byte where "kAuthNone = 0"
definition kAuthNoAcceptable :: byte where "kAuthNoAcceptable = 255"
definition kCmdConnect :: byte where "kCmdConnect = 1"
definition kAtypIPv4 :: byte where "kAtypIPv4 = 1"
definition kAtypDomain :: byte where "kAtypDomain = 3"
definition kAtypIPv6 :: byte where "kAtypIPv6 = 4"
definition kReplySuccess :: byte where "kReplySuccess = 0"
definition kReplyGeneralFailure :: byte where "kReplyGeneralFailure = 1"
definition kReplyConnNotAllowed :: byte where "kReplyConnNotAllowed = 2"
definition kReplyHostUnreachable :: byte where "kReplyHostUnreachable = 4"
definition kReplyConnRefused :: byte where "kReplyConnRefused = 5"
definition kReplyCmdNotSupported :: byte where "kReplyCmdNotSupported = 7"
definition kReplyAtypNotSupported :: byte where "kReplyAtypNotSupported = 8"

lemmas socks5_consts =
  kVersion_def kAuthNone_def kAuthNoAcceptable_def kCmdConnect_def kAtypIPv4_def kAtypDomain_def
  kAtypIPv6_def kReplySuccess_def kReplyGeneralFailure_def kReplyConnNotAllowed_def
  kReplyHostUnreachable_def kReplyConnRefused_def kReplyCmdNotSupported_def kReplyAtypNotSupported_def

datatype Socks5ParseStatus = PS_Ok | PS_NeedMore | PS_Malformed

record Socks5GreetingResult =
  gr_status :: Socks5ParseStatus
  gr_methods :: "byte list"
  gr_consumed :: nat

record Socks5RequestResult =
  rq_status :: Socks5ParseStatus
  rq_cmd :: byte
  rq_atyp :: byte
  rq_host :: string
  rq_port :: u16
  rq_consumed :: nat
  rq_reply_code :: byte

record HttpConnectResult =
  hr_status :: Socks5ParseStatus
  hr_host :: string
  hr_port :: u16
  hr_consumed :: nat

datatype TunnelOpenOutcome = TO_Connected | TO_Denied | TO_Unreachable | TO_Refused | TO_Failed

section \<open>Parsers\<close>

definition greeting_more :: Socks5GreetingResult where
  "greeting_more = \<lparr>gr_status = PS_NeedMore, gr_methods = [], gr_consumed = 0\<rparr>"

definition parse_socks5_greeting :: "byte list \<Rightarrow> Socks5GreetingResult" where
  "parse_socks5_greeting data =
     (if length data < 2 then greeting_more
      else if data ! 0 \<noteq> kVersion then greeting_more\<lparr>gr_status := PS_Malformed\<rparr>
      else let nmethods = unat (data ! 1) in
        if nmethods = 0 then greeting_more\<lparr>gr_status := PS_Malformed\<rparr>
        else if length data < 2 + nmethods then greeting_more
        else \<lparr>gr_status = PS_Ok, gr_methods = take nmethods (drop 2 data), gr_consumed = 2 + nmethods\<rparr>)"

text \<open>\<open>%x\<close> of \<open>snprintf\<close>.\<close>

definition hex_char :: "nat \<Rightarrow> char" where
  "hex_char d = (if d < 10 then char_of (48 + d) else char_of (87 + d))"

fun to_hex_nat :: "nat \<Rightarrow> string" where
  "to_hex_nat n = (if n < 16 then [hex_char n] else to_hex_nat (n div 16) @ [hex_char (n mod 16)])"

declare to_hex_nat.simps [simp del]

definition be16 :: "byte list \<Rightarrow> nat \<Rightarrow> nat" where
  "be16 data i = unat (data ! i) * 256 + unat (data ! (i + 1))"

definition ipv4_text :: "byte list \<Rightarrow> string" where
  "ipv4_text data =
     to_string_nat (unat (data ! 4)) @ ''.'' @ to_string_nat (unat (data ! 5)) @ ''.''
     @ to_string_nat (unat (data ! 6)) @ ''.'' @ to_string_nat (unat (data ! 7))"

definition ipv6_text :: "byte list \<Rightarrow> string" where
  "ipv6_text data =
     to_hex_nat (be16 data 4) @ '':'' @ to_hex_nat (be16 data 6) @ '':'' @ to_hex_nat (be16 data 8) @ '':''
     @ to_hex_nat (be16 data 10) @ '':'' @ to_hex_nat (be16 data 12) @ '':'' @ to_hex_nat (be16 data 14) @ '':''
     @ to_hex_nat (be16 data 16) @ '':'' @ to_hex_nat (be16 data 18)"

definition request_more :: "byte \<Rightarrow> byte \<Rightarrow> Socks5RequestResult" where
  "request_more cmd atyp = \<lparr>rq_status = PS_NeedMore, rq_cmd = cmd, rq_atyp = atyp, rq_host = [], rq_port = 0,
     rq_consumed = 0, rq_reply_code = kReplyGeneralFailure\<rparr>"

definition request_bad :: "byte \<Rightarrow> byte \<Rightarrow> byte \<Rightarrow> Socks5RequestResult" where
  "request_bad cmd atyp code = (request_more cmd atyp)\<lparr>rq_status := PS_Malformed, rq_reply_code := code\<rparr>"

text \<open>The tail of the parser: the port after an address of \<open>addr_len\<close> bytes at \<open>addr_offset\<close>.\<close>

definition request_done :: "byte list \<Rightarrow> byte \<Rightarrow> byte \<Rightarrow> string \<Rightarrow> nat \<Rightarrow> nat \<Rightarrow> Socks5RequestResult" where
  "request_done data cmd atyp host addr_offset addr_len =
     (let port_offset = addr_offset + addr_len in
      if length data < port_offset + 2 then request_more cmd atyp
      else (request_more cmd atyp)\<lparr>rq_status := PS_Ok, rq_host := host, rq_port := of_nat (be16 data port_offset),
             rq_consumed := port_offset + 2\<rparr>)"

definition parse_socks5_request :: "byte list \<Rightarrow> Socks5RequestResult" where
  "parse_socks5_request data =
     (if length data < 4 then request_more 0 0
      else if data ! 0 \<noteq> kVersion then request_bad 0 0 kReplyGeneralFailure
      else let cmd = data ! 1 in
        if data ! 2 \<noteq> 0 then request_bad cmd 0 kReplyGeneralFailure
        else let atyp = data ! 3 in
          if cmd \<noteq> kCmdConnect then request_bad cmd atyp kReplyCmdNotSupported
          else if atyp = kAtypIPv4 then
            if length data < 4 + 4 + 2 then request_more cmd atyp
            else request_done data cmd atyp (ipv4_text data) 4 4
          else if atyp = kAtypDomain then
            if length data < 5 then request_more cmd atyp
            else let name_len = unat (data ! 4) in
              if name_len = 0 then request_bad cmd atyp kReplyGeneralFailure
              else if length data < 4 + 1 + name_len + 2 then request_more cmd atyp
              else request_done data cmd atyp (string_of_bytes (take name_len (drop 5 data))) 5 name_len
          else if atyp = kAtypIPv6 then
            if length data < 4 + 16 + 2 then request_more cmd atyp
            else request_done data cmd atyp (ipv6_text data) 4 16
          else request_bad cmd atyp kReplyAtypNotSupported)"

definition encode_socks5_reply :: "byte \<Rightarrow> byte list" where
  "encode_socks5_reply reply_code = [kVersion, reply_code, 0, kAtypIPv4, 0, 0, 0, 0, 0, 0]"

text \<open>\<open>std::string_view::find\<close> of a string, and \<open>rfind\<close> of a character with the parts around it.\<close>

fun find_sub :: "string \<Rightarrow> string \<Rightarrow> nat option" where
  "find_sub pat s =
     (if take (length pat) s = pat then Some 0
      else case s of [] \<Rightarrow> None | _ # xs \<Rightarrow> map_option Suc (find_sub pat xs))"

declare find_sub.simps [simp del]

definition rsplit_at :: "char \<Rightarrow> string \<Rightarrow> (string \<times> string) option" where
  "rsplit_at c s = map_option (\<lambda>(a, b). (rev b, rev a)) (split_at c (rev s))"

definition crlf :: string where "crlf = [CHR 0x0D, CHR 0x0A]"

definition http_more :: HttpConnectResult where
  "http_more = \<lparr>hr_status = PS_NeedMore, hr_host = [], hr_port = 0, hr_consumed = 0\<rparr>"

definition http_bad :: HttpConnectResult where
  "http_bad = http_more\<lparr>hr_status := PS_Malformed\<rparr>"

text \<open>\<open>std::from_chars\<close> into an \<open>unsigned int\<close> that must cover the text and be a port.\<close>

definition parse_port :: "string \<Rightarrow> u16 option" where
  "parse_port s =
     (case from_chars_nat 4294967295 s of
        None \<Rightarrow> None
      | Some n \<Rightarrow> if n = 0 \<or> n > 65535 then None else Some (of_nat n))"

text \<open>The host is also stored when the port is then rejected, as in the code.\<close>

definition finish_target :: "string \<Rightarrow> string \<Rightarrow> nat \<Rightarrow> HttpConnectResult" where
  "finish_target host port_sv consumed =
     (case parse_port port_sv of
        None \<Rightarrow> http_bad\<lparr>hr_host := host\<rparr>
      | Some p \<Rightarrow> \<lparr>hr_status = PS_Ok, hr_host = host, hr_port = p, hr_consumed = consumed\<rparr>)"

text \<open>The CONNECT target, with an IPv6 address in brackets.\<close>

definition parse_authority :: "string \<Rightarrow> nat \<Rightarrow> HttpConnectResult" where
  "parse_authority authority consumed =
     (if authority \<noteq> [] \<and> hd authority = CHR ''['' then
        case split_at (CHR '']'') authority of
          None \<Rightarrow> http_bad
        | Some (before, rest) \<Rightarrow>
            if rest = [] \<or> hd rest \<noteq> CHR '':'' then http_bad else finish_target (drop 1 before) (tl rest) consumed
      else
        case rsplit_at (CHR '':'') authority of
          None \<Rightarrow> http_bad
        | Some (host, port_sv) \<Rightarrow>
            if host = [] \<or> port_sv = [] then http_bad else finish_target host port_sv consumed)"

definition parse_request_line :: "string \<Rightarrow> nat \<Rightarrow> HttpConnectResult" where
  "parse_request_line request_line consumed =
     (let kConnect = ''CONNECT '' in
      if length request_line < length kConnect \<or> take (length kConnect) request_line \<noteq> kConnect then http_bad
      else case split_at (CHR '' '') (drop (length kConnect) request_line) of
        None \<Rightarrow> http_bad
      | Some (authority, http_version) \<Rightarrow>
          if length http_version < 5 \<or> take 5 http_version \<noteq> ''HTTP/'' then http_bad
          else parse_authority authority consumed)"

definition parse_http_connect :: "byte list \<Rightarrow> HttpConnectResult" where
  "parse_http_connect data =
     (let view = string_of_bytes data in
      case find_sub (crlf @ crlf) view of
        None \<Rightarrow> if length data > 8192 then http_bad else http_more
      | Some header_end \<Rightarrow>
          let headers = take header_end view;
              request_line = (case find_sub crlf headers of None \<Rightarrow> headers | Some e \<Rightarrow> take e headers)
          in parse_request_line request_line (header_end + 4))"

section \<open>Outcomes and replies\<close>

definition tunnel_open_outcome_for :: "byte \<Rightarrow> string \<Rightarrow> TunnelOpenOutcome" where
  "tunnel_open_outcome_for error_code description =
     (if error_code = 1 then TO_Denied
      else if error_code = 2 then TO_Unreachable
      else if error_code = 3 then
        if description = ''Rate limit exceeded'' \<or> description = ''Tunnel limit exceeded'' then TO_Denied
        else if find_sub ''refused'' description \<noteq> None then TO_Refused
        else TO_Unreachable
      else TO_Failed)"

fun socks5_reply_for :: "TunnelOpenOutcome \<Rightarrow> byte" where
  "socks5_reply_for TO_Connected = kReplySuccess"
| "socks5_reply_for TO_Denied = kReplyConnNotAllowed"
| "socks5_reply_for TO_Unreachable = kReplyHostUnreachable"
| "socks5_reply_for TO_Refused = kReplyConnRefused"
| "socks5_reply_for TO_Failed = kReplyGeneralFailure"

fun http_status_for :: "TunnelOpenOutcome \<Rightarrow> string" where
  "http_status_for TO_Connected = ''200 Connection Established''"
| "http_status_for TO_Denied = ''403 Forbidden''"
| "http_status_for _ = ''502 Bad Gateway''"

section \<open>The session\<close>

datatype SessionProtocol = Unknown_Protocol | Socks5_Protocol | HttpConnect_Protocol

datatype Socks5Phase = Greeting | Request | Streaming

text \<open>
  The \<open>conn\<close> pointer: open, asked by the session to close, or reset after the connection ended.
  \<open>close\<close> is posted and graceful: until the writes are drained the socket is in \<open>Disconnecting\<close>, where
  it still accepts writes, and a read that is already in flight still reaches the session.
\<close>

datatype ConnState = Conn_Open | Conn_Closing | Conn_Gone

record Socks5Session =
  sk_conn :: ConnState
  sk_protocol :: SessionProtocol
  sk_phase :: Socks5Phase
  sk_buffer :: "byte list"
  sk_out :: "byte list"                      \<comment> \<open>what was handed to \<open>write\<close> for the client\<close>
  sk_target :: "(string \<times> u16) option"       \<comment> \<open>the call of \<open>open_tunnel\<close>\<close>
  sk_stream :: "byte list"                   \<comment> \<open>what the tunnel layer has been given\<close>

definition session_new :: Socks5Session where
  "session_new = \<lparr>sk_conn = Conn_Open, sk_protocol = Unknown_Protocol, sk_phase = Greeting, sk_buffer = [],
     sk_out = [], sk_target = None, sk_stream = []\<rparr>"

definition send_reply :: "byte list \<Rightarrow> Socks5Session \<Rightarrow> Socks5Session" where
  "send_reply bytes s = (if sk_conn s \<noteq> Conn_Gone then s\<lparr>sk_out := sk_out s @ bytes\<rparr> else s)"

definition send_http_reply :: "string \<Rightarrow> Socks5Session \<Rightarrow> Socks5Session" where
  "send_http_reply status_line s =
     send_reply (bytes_of_string (''HTTP/1.1 '' @ status_line @ crlf @ crlf)) s"

definition close_conn :: "Socks5Session \<Rightarrow> Socks5Session" where
  "close_conn s = (if sk_conn s = Conn_Open then s\<lparr>sk_conn := Conn_Closing\<rparr> else s)"

definition reject_and_close :: "byte \<Rightarrow> string \<Rightarrow> Socks5Session \<Rightarrow> Socks5Session" where
  "reject_and_close socks5_reply http_reply s =
     close_conn (case sk_protocol s of
        Socks5_Protocol \<Rightarrow> send_reply (encode_socks5_reply socks5_reply) s
      | HttpConnect_Protocol \<Rightarrow> send_http_reply http_reply s
      | Unknown_Protocol \<Rightarrow> s)"

definition handoff_to_tunnel :: "string \<Rightarrow> u16 \<Rightarrow> Socks5Session \<Rightarrow> Socks5Session" where
  "handoff_to_tunnel host port s =
     s\<lparr>sk_target := Some (host, port), sk_stream := sk_buffer s, sk_buffer := []\<rparr>"

text \<open>The completion of \<open>open_tunnel\<close>.\<close>

definition on_tunnel_state :: "TunnelOpenOutcome \<Rightarrow> Socks5Session \<Rightarrow> Socks5Session" where
  "on_tunnel_state outcome s =
     (if sk_conn s = Conn_Gone then s
      else case sk_protocol s of
        Socks5_Protocol \<Rightarrow>
          let s1 = send_reply (encode_socks5_reply (socks5_reply_for outcome)) s
          in if outcome = TO_Connected then s1 else close_conn s1
      | HttpConnect_Protocol \<Rightarrow>
          let s1 = send_http_reply (http_status_for outcome) s
          in if outcome = TO_Connected then s1 else close_conn s1
      | Unknown_Protocol \<Rightarrow> s)"

definition erase_buffer :: "nat \<Rightarrow> Socks5Session \<Rightarrow> Socks5Session" where
  "erase_buffer n s = s\<lparr>sk_buffer := drop n (sk_buffer s)\<rparr>"

text \<open>The two phases of the SOCKS5 path; the flag says whether the loop goes round again.\<close>

definition advance_greeting :: "Socks5Session \<Rightarrow> bool \<times> Socks5Session" where
  "advance_greeting s =
     (let r = parse_socks5_greeting (sk_buffer s) in
      case gr_status r of
        PS_NeedMore \<Rightarrow> (False, s)
      | PS_Malformed \<Rightarrow> (False, reject_and_close kReplyGeneralFailure ''400 Bad Request'' s)
      | PS_Ok \<Rightarrow>
          let s1 = erase_buffer (gr_consumed r) s in
          if kAuthNone \<notin> set (gr_methods r)
          then (False, close_conn (send_reply [kVersion, kAuthNoAcceptable] s1))
          else (True, (send_reply [kVersion, kAuthNone] s1)\<lparr>sk_phase := Request\<rparr>))"

definition advance_request :: "Socks5Session \<Rightarrow> Socks5Session" where
  "advance_request s =
     (let r = parse_socks5_request (sk_buffer s) in
      case rq_status r of
        PS_NeedMore \<Rightarrow> s
      | PS_Malformed \<Rightarrow> close_conn (send_reply (encode_socks5_reply (rq_reply_code r)) s)
      | PS_Ok \<Rightarrow> handoff_to_tunnel (rq_host r) (rq_port r) ((erase_buffer (rq_consumed r) s)\<lparr>sk_phase := Streaming\<rparr>))"

definition advance_http :: "Socks5Session \<Rightarrow> Socks5Session" where
  "advance_http s =
     (let r = parse_http_connect (sk_buffer s) in
      case hr_status r of
        PS_NeedMore \<Rightarrow> s
      | PS_Malformed \<Rightarrow> reject_and_close kReplyGeneralFailure ''400 Bad Request'' s
      | PS_Ok \<Rightarrow> handoff_to_tunnel (hr_host r) (hr_port r) (erase_buffer (hr_consumed r) s))"

text \<open>The sniffing of the protocol at the head of the loop.\<close>

definition sniff :: "Socks5Session \<Rightarrow> Socks5Session" where
  "sniff s = (if sk_protocol s = Unknown_Protocol
     then s\<lparr>sk_protocol := (if hd (sk_buffer s) = kVersion then Socks5_Protocol else HttpConnect_Protocol)\<rparr>
     else s)"

lemma advance_greeting_phase: "advance_greeting s = (True, s1) \<Longrightarrow> sk_phase s1 = Request"
  by (auto simp: advance_greeting_def Let_def split: Socks5ParseStatus.splits if_splits)

function try_advance :: "Socks5Session \<Rightarrow> Socks5Session" where
  "try_advance s =
     (if sk_protocol s = Unknown_Protocol \<and> sk_buffer s = [] then s
      else let s1 = sniff s in
        if sk_protocol s1 = Socks5_Protocol then
          case sk_phase s1 of
            Greeting \<Rightarrow> (case advance_greeting s1 of (True, s2) \<Rightarrow> try_advance s2 | (False, s2) \<Rightarrow> s2)
          | Request \<Rightarrow> advance_request s1
          | Streaming \<Rightarrow> s1
        else advance_http s1)"
  by pat_completeness auto
termination
  by (relation "measure (\<lambda>s. if sk_phase s = Greeting then 1 else 0)")
    (auto simp: sniff_def dest!: advance_greeting_phase [OF sym] split: if_splits)

declare try_advance.simps [simp del]

text \<open>
  Bytes arrive on the connection. Until the handoff the session's own hook receives them; afterwards
  the hook of the tunnel layer does. The hook does not ask whether the session has already closed the
  connection: a segment that was in flight then is handled like any other.
\<close>

definition on_data :: "byte list \<Rightarrow> Socks5Session \<Rightarrow> Socks5Session" where
  "on_data data s =
     (if sk_conn s = Conn_Gone then s
      else if sk_target s \<noteq> None then s\<lparr>sk_stream := sk_stream s @ data\<rparr>
      else try_advance (s\<lparr>sk_buffer := sk_buffer s @ data\<rparr>))"

definition on_client_gone :: "Socks5Session \<Rightarrow> Socks5Session" where
  "on_client_gone s = (if sk_target s = None then s\<lparr>sk_conn := Conn_Gone\<rparr> else s)"

section \<open>More bytes do not change a verdict\<close>

lemma greeting_mono:
  assumes "gr_status (parse_socks5_greeting p) \<noteq> PS_NeedMore"
  shows "parse_socks5_greeting (p @ q) = parse_socks5_greeting p"
  using assms by (auto simp: parse_socks5_greeting_def greeting_more_def Let_def nth_append split: if_splits)

lemma be16_append: "i + 1 < length p \<Longrightarrow> be16 (p @ q) i = be16 p i"
  by (simp add: be16_def nth_append)

lemma ipv4_append: "8 \<le> length p \<Longrightarrow> ipv4_text (p @ q) = ipv4_text p"
  by (simp add: ipv4_text_def nth_append)

lemma ipv6_append: "20 \<le> length p \<Longrightarrow> ipv6_text (p @ q) = ipv6_text p"
  by (simp add: ipv6_text_def be16_append)

lemma request_done_append:
  "k + n + 2 \<le> length p \<Longrightarrow> request_done (p @ q) c a host k n = request_done p c a host k n"
  by (simp add: request_done_def be16_append Let_def)

lemma request_mono:
  assumes "rq_status (parse_socks5_request p) \<noteq> PS_NeedMore"
  shows "parse_socks5_request (p @ q) = parse_socks5_request p"
proof -
  have len: "4 \<le> length p"
    using assms by (auto simp: parse_socks5_request_def request_more_def split: if_splits)
  have nth: "(p @ q) ! i = p ! i" if "i < 4" for i using len that by (simp add: nth_append)
  consider "p ! 0 = kVersion" "p ! 2 = 0" "p ! 1 = kCmdConnect" "p ! 3 = kAtypIPv4"
    | "p ! 0 = kVersion" "p ! 2 = 0" "p ! 1 = kCmdConnect" "p ! 3 = kAtypDomain"
    | "p ! 0 = kVersion" "p ! 2 = 0" "p ! 1 = kCmdConnect" "p ! 3 = kAtypIPv6"
    | "p ! 0 \<noteq> kVersion \<or> p ! 2 \<noteq> 0 \<or> p ! 1 \<noteq> kCmdConnect \<or> p ! 3 \<notin> {kAtypIPv4, kAtypDomain, kAtypIPv6}"
    by blast
  then show ?thesis
  proof cases
    case 1
    then have "10 \<le> length p" using assms len
      by (auto simp: parse_socks5_request_def request_more_def Let_def split: if_splits)
    then show ?thesis using 1 len nth
      by (simp add: parse_socks5_request_def Let_def ipv4_append request_done_append)
  next
    case 2
    then have l5: "5 \<le> length p" using assms len
      by (auto simp: parse_socks5_request_def request_more_def Let_def kAtypIPv4_def kAtypDomain_def split: if_splits)
    then have n4: "(p @ q) ! 4 = p ! 4" by (simp add: nth_append)
    show ?thesis
    proof (cases "unat (p ! 4) = 0")
      case True
      then show ?thesis using 2 len nth l5 n4
        by (simp add: parse_socks5_request_def Let_def kAtypIPv4_def kAtypDomain_def)
    next
      case False
      then have "4 + 1 + unat (p ! 4) + 2 \<le> length p" using assms len 2 l5
        by (auto simp: parse_socks5_request_def request_more_def Let_def kAtypIPv4_def kAtypDomain_def split: if_splits)
      then show ?thesis using 2 len nth l5 n4 False
        by (simp add: parse_socks5_request_def Let_def kAtypIPv4_def kAtypDomain_def request_done_append)
    qed
  next
    case 3
    then have "22 \<le> length p" using assms len
      by (auto simp: parse_socks5_request_def request_more_def Let_def kAtypIPv4_def kAtypDomain_def kAtypIPv6_def
          split: if_splits)
    then show ?thesis using 3 len nth
      by (simp add: parse_socks5_request_def Let_def ipv6_append request_done_append kAtypIPv4_def kAtypDomain_def
          kAtypIPv6_def)
  next
    case 4
    then show ?thesis using len nth by (auto simp: parse_socks5_request_def Let_def)
  qed
qed

lemma find_sub_bound: "find_sub pat s = Some n \<Longrightarrow> n + length pat \<le> length s"
proof (induction s arbitrary: n)
  case Nil
  then show ?case by (subst (asm) find_sub.simps) (auto split: if_splits)
next
  case (Cons x xs)
  show ?case
  proof (cases "take (length pat) (x # xs) = pat")
    case True
    then have "n = 0" using Cons.prems by (simp add: find_sub.simps [of pat "x # xs"])
    moreover have "length (take (length pat) (x # xs)) = length pat" using True by simp
    ultimately show ?thesis by simp
  next
    case False
    then obtain k where "find_sub pat xs = Some k" "n = Suc k"
      using Cons.prems by (auto simp: find_sub.simps [of pat "x # xs"])
    then show ?thesis using Cons.IH by simp
  qed
qed

lemma find_sub_append: "find_sub pat s = Some n \<Longrightarrow> find_sub pat (s @ t) = Some n"
proof (induction s arbitrary: n)
  case Nil
  then show ?case
    by (subst (asm) find_sub.simps) (simp add: find_sub.simps [of pat t] split: if_splits)
next
  case (Cons x xs)
  have len: "length pat \<le> length (x # xs)" using find_sub_bound [OF Cons.prems] by simp
  then have "take (length pat) ((x # xs) @ t) = take (length pat) (x # xs)"
    by (simp only: take_append diff_is_0_eq' [OF len] take_0 append_Nil2)
  then have tk: "take (length pat) (x # xs @ t) = take (length pat) (x # xs)" by simp
  then show ?case
    using Cons by (auto simp: find_sub.simps [of pat "x # xs"] find_sub.simps [of pat "x # xs @ t"] split: if_splits)
qed

lemma http_mono:
  assumes "hr_status (parse_http_connect p) \<noteq> PS_NeedMore" and "length p \<le> 8192"
  shows "parse_http_connect (p @ q) = parse_http_connect p"
proof -
  obtain n where n: "find_sub (crlf @ crlf) (string_of_bytes p) = Some n"
    using assms by (auto simp: parse_http_connect_def http_more_def Let_def split: option.splits if_splits)
  have view: "string_of_bytes (p @ q) = string_of_bytes p @ string_of_bytes q" by (simp add: string_of_bytes_def)
  have "n \<le> length (string_of_bytes p)" using find_sub_bound [OF n] by simp
  then show ?thesis using n find_sub_append [OF n] by (simp add: parse_http_connect_def view Let_def)
qed

section \<open>Segmentation\<close>

definition append_buffer :: "byte list \<Rightarrow> Socks5Session \<Rightarrow> Socks5Session" where
  "append_buffer b s = s\<lparr>sk_buffer := sk_buffer s @ b\<rparr>"

text \<open>
  The session while it is open: segments that arrive after it has closed the connection are left out.
  Sessions that nobody can tell apart from then on: the buffer of a closed one is not read again.
\<close>

definition deliver :: "byte list \<Rightarrow> Socks5Session \<Rightarrow> Socks5Session" where
  "deliver d s = (if sk_conn s = Conn_Open then on_data d s else s)"

definition same :: "Socks5Session \<Rightarrow> Socks5Session \<Rightarrow> bool" where
  "same s t \<longleftrightarrow> s = t \<or> sk_conn s \<noteq> Conn_Open \<and> s\<lparr>sk_buffer := []\<rparr> = t\<lparr>sk_buffer := []\<rparr>"

lemma same_refl [simp]: "same s s" by (simp add: same_def)

lemma same_fields:
  assumes "same s t"
  shows "sk_conn s = sk_conn t" "sk_out s = sk_out t" "sk_target s = sk_target t" "sk_stream s = sk_stream t"
proof -
  have "s\<lparr>sk_buffer := []\<rparr> = t\<lparr>sk_buffer := []\<rparr>" using assms by (auto simp: same_def)
  then show "sk_conn s = sk_conn t" "sk_out s = sk_out t" "sk_target s = sk_target t" "sk_stream s = sk_stream t"
    by (metis Socks5Session.select_convs Socks5Session.surjective Socks5Session.update_convs(4))+
qed

lemma same_trans: "same s t \<Longrightarrow> same t u \<Longrightarrow> same s u"
  using same_fields(1) [of s t] unfolding same_def by metis

lemma same_deliver:
  assumes "same s t"
  shows "same (deliver d s) (deliver d t)"
proof (cases "s = t")
  case False
  with assms have "sk_conn s \<noteq> Conn_Open" by (simp add: same_def)
  moreover from this have "sk_conn t \<noteq> Conn_Open" using same_fields(1) [OF assms] by simp
  ultimately show ?thesis using assms by (simp add: deliver_def)
qed simp

lemma advance_simps:
  "sk_protocol s = Socks5_Protocol \<Longrightarrow> sk_phase s = Request \<Longrightarrow> try_advance s = advance_request s"
  "sk_protocol s = HttpConnect_Protocol \<Longrightarrow> try_advance s = advance_http s"
  "sk_protocol s = Socks5_Protocol \<Longrightarrow> sk_phase s = Greeting \<Longrightarrow>
     try_advance s = (case advance_greeting s of (True, s1) \<Rightarrow> try_advance s1 | (False, s1) \<Rightarrow> s1)"
  "sk_protocol s = Unknown_Protocol \<Longrightarrow> sk_buffer s \<noteq> [] \<Longrightarrow> try_advance s = try_advance (sniff s)"
  "sk_protocol s = Unknown_Protocol \<Longrightarrow> sk_buffer s = [] \<Longrightarrow> try_advance s = s"
proof -
  show "sk_protocol s = Unknown_Protocol \<Longrightarrow> sk_buffer s \<noteq> [] \<Longrightarrow> try_advance s = try_advance (sniff s)"
    by (subst (1 2) try_advance.simps) (simp add: sniff_def Let_def)
qed (subst try_advance.simps, simp add: sniff_def Let_def)+

lemma deliver_open:
  "sk_conn s = Conn_Open \<Longrightarrow> sk_target s = None \<Longrightarrow> deliver b s = try_advance (append_buffer b s)"
  by (simp add: deliver_def on_data_def append_buffer_def)

lemma append_fields [simp]:
  "sk_conn (append_buffer b s) = sk_conn s" "sk_protocol (append_buffer b s) = sk_protocol s"
  "sk_phase (append_buffer b s) = sk_phase s" "sk_target (append_buffer b s) = sk_target s"
  "sk_buffer (append_buffer b s) = sk_buffer s @ b"
  by (simp_all add: append_buffer_def)

lemma sniff_append: "sk_buffer s \<noteq> [] \<Longrightarrow> sniff (append_buffer b s) = append_buffer b (sniff s)"
  by (simp add: sniff_def append_buffer_def)

lemma same_closed:
  "sk_conn s = Conn_Closing \<Longrightarrow> same (append_buffer b s) (deliver b s)"
  by (simp add: same_def append_buffer_def deliver_def)

lemma reply_append:
  "send_reply r (append_buffer b s) = append_buffer b (send_reply r s)"
  "close_conn (append_buffer b s) = append_buffer b (close_conn s)"
  "send_http_reply h (append_buffer b s) = append_buffer b (send_http_reply h s)"
  "reject_and_close c h (append_buffer b s) = append_buffer b (reject_and_close c h s)"
proof -
  show *: "send_reply r (append_buffer b s) = append_buffer b (send_reply r s)" for r
    by (simp add: send_reply_def append_buffer_def)
  show **: "send_http_reply h (append_buffer b s) = append_buffer b (send_http_reply h s)" for h
    by (simp add: send_http_reply_def *)
  show ***: "close_conn (append_buffer b s) = append_buffer b (close_conn s)" for s
    by (simp add: close_conn_def append_buffer_def)
  show "reject_and_close c h (append_buffer b s) = append_buffer b (reject_and_close c h s)"
    by (simp add: reject_and_close_def * ** *** split: SessionProtocol.split)
qed

lemma erase_append: "n \<le> length (sk_buffer s) \<Longrightarrow> erase_buffer n (append_buffer b s) = append_buffer b (erase_buffer n s)"
  by (simp add: erase_buffer_def append_buffer_def)

lemma closed_conn:
  "sk_conn s = Conn_Open \<Longrightarrow> sk_conn (close_conn s) = Conn_Closing"
  "sk_conn s = Conn_Open \<Longrightarrow> sk_conn (close_conn (send_reply r s)) = Conn_Closing"
  "sk_conn s = Conn_Open \<Longrightarrow> sk_conn (reject_and_close c h s) = Conn_Closing"
  by (simp_all add: close_conn_def send_reply_def send_http_reply_def reject_and_close_def split: SessionProtocol.split)

lemma handoff_append:
  "sk_conn s = Conn_Open \<Longrightarrow> handoff_to_tunnel host port (append_buffer b s) = deliver b (handoff_to_tunnel host port s)"
  by (simp add: handoff_to_tunnel_def append_buffer_def on_data_def deliver_def)

lemma consumed_bounds:
  "gr_status (parse_socks5_greeting p) = PS_Ok \<Longrightarrow> gr_consumed (parse_socks5_greeting p) \<le> length p"
  "rq_status (parse_socks5_request p) = PS_Ok \<Longrightarrow> rq_consumed (parse_socks5_request p) \<le> length p"
  by (auto simp: parse_socks5_greeting_def greeting_more_def parse_socks5_request_def request_more_def
      request_bad_def request_done_def Let_def split: if_splits)

lemma bad_status [simp]: "hr_status http_bad = PS_Malformed" "hr_status http_more = PS_NeedMore"
  by (simp_all add: http_bad_def http_more_def)

lemma finish_consumed: "hr_status (finish_target h p n) = PS_Ok \<Longrightarrow> hr_consumed (finish_target h p n) = n"
  by (auto simp: finish_target_def http_bad_def split: option.splits)

lemma authority_consumed: "hr_status (parse_authority a n) = PS_Ok \<Longrightarrow> hr_consumed (parse_authority a n) = n"
  unfolding parse_authority_def by (auto simp: finish_consumed split: option.splits if_splits)

lemma line_consumed: "hr_status (parse_request_line l n) = PS_Ok \<Longrightarrow> hr_consumed (parse_request_line l n) = n"
  unfolding parse_request_line_def Let_def
  by (auto simp: authority_consumed split: option.splits if_splits)

lemma http_consumed_bound:
  assumes "hr_status (parse_http_connect p) = PS_Ok"
  shows "hr_consumed (parse_http_connect p) \<le> length p"
proof (cases "find_sub (crlf @ crlf) (string_of_bytes p)")
  case None
  with assms show ?thesis
    by (simp add: parse_http_connect_def http_bad_def http_more_def Let_def split: if_splits)
next
  case (Some n)
  have "n + 4 \<le> length p" using find_sub_bound [OF Some] by (simp add: crlf_def)
  with assms Some line_consumed show ?thesis by (simp add: parse_http_connect_def Let_def)
qed

lemma split_request:
  assumes "sk_conn s = Conn_Open" "sk_target s = None" "sk_protocol s = Socks5_Protocol" "sk_phase s = Request"
  shows "same (advance_request (append_buffer b s)) (deliver b (advance_request s))"
proof (cases "rq_status (parse_socks5_request (sk_buffer s))")
  case PS_NeedMore
  then have "advance_request s = s" by (simp add: advance_request_def)
  then show ?thesis using assms by (simp add: deliver_open advance_simps)
next
  case PS_Malformed
  then have "parse_socks5_request (sk_buffer s @ b) = parse_socks5_request (sk_buffer s)" by (intro request_mono) simp
  with PS_Malformed assms(1) show ?thesis
    by (simp add: advance_request_def reply_append same_closed closed_conn)
next
  case PS_Ok
  then have "parse_socks5_request (sk_buffer s @ b) = parse_socks5_request (sk_buffer s)" by (intro request_mono) simp
  moreover have "(append_buffer b x)\<lparr>sk_phase := Streaming\<rparr> = append_buffer b (x\<lparr>sk_phase := Streaming\<rparr>)" for x
    by (simp add: append_buffer_def)
  moreover have "sk_conn ((erase_buffer n s)\<lparr>sk_phase := Streaming\<rparr>) = Conn_Open" for n
    using assms(1) by (simp add: erase_buffer_def)
  ultimately show ?thesis
    using PS_Ok consumed_bounds(2) [OF PS_Ok] by (simp add: advance_request_def erase_append handoff_append Let_def)
qed

lemma split_http:
  assumes "sk_conn s = Conn_Open" "sk_target s = None" "sk_protocol s = HttpConnect_Protocol"
    and "length (sk_buffer s) \<le> 8192"
  shows "same (advance_http (append_buffer b s)) (deliver b (advance_http s))"
proof (cases "hr_status (parse_http_connect (sk_buffer s))")
  case PS_NeedMore
  then have "advance_http s = s" by (simp add: advance_http_def)
  then show ?thesis using assms by (simp add: deliver_open advance_simps)
next
  case PS_Malformed
  then have "parse_http_connect (sk_buffer s @ b) = parse_http_connect (sk_buffer s)"
    using assms(4) by (intro http_mono) simp_all
  with PS_Malformed assms(1) show ?thesis
    by (simp add: advance_http_def reply_append same_closed closed_conn)
next
  case PS_Ok
  then have "parse_http_connect (sk_buffer s @ b) = parse_http_connect (sk_buffer s)"
    using assms(4) by (intro http_mono) simp_all
  moreover have "sk_conn (erase_buffer n s) = Conn_Open" for n using assms(1) by (simp add: erase_buffer_def)
  ultimately show ?thesis
    using PS_Ok http_consumed_bound [OF PS_Ok] by (simp add: advance_http_def erase_append handoff_append Let_def)
qed

lemma split_greeting:
  assumes "sk_conn s = Conn_Open" "sk_target s = None" "sk_protocol s = Socks5_Protocol" "sk_phase s = Greeting"
  shows "same (try_advance (append_buffer b s)) (deliver b (try_advance s))"
proof (cases "gr_status (parse_socks5_greeting (sk_buffer s))")
  case PS_NeedMore
  then have "try_advance s = s" using assms by (simp add: advance_simps advance_greeting_def)
  then show ?thesis using assms by (simp add: deliver_open)
next
  case PS_Malformed
  then have "parse_socks5_greeting (sk_buffer s @ b) = parse_socks5_greeting (sk_buffer s)" by (intro greeting_mono) simp
  with PS_Malformed assms show ?thesis
    by (simp add: advance_simps advance_greeting_def reply_append same_closed closed_conn)
next
  case PS_Ok
  let ?r = "parse_socks5_greeting (sk_buffer s)"
  let ?e = "erase_buffer (gr_consumed ?r) s"
  let ?n = "(send_reply [kVersion, kAuthNone] ?e)\<lparr>sk_phase := Request\<rparr>"
  have g: "parse_socks5_greeting (sk_buffer s @ b) = ?r" using PS_Ok by (intro greeting_mono) simp
  have e: "erase_buffer (gr_consumed ?r) (append_buffer b s) = append_buffer b ?e"
    using consumed_bounds(1) [OF PS_Ok] by (rule erase_append)
  have o: "sk_conn ?e = Conn_Open" using assms(1) by (simp add: erase_buffer_def)
  show ?thesis
  proof (cases "kAuthNone \<in> set (gr_methods ?r)")
    case False
    then show ?thesis
      using PS_Ok assms g e o by (simp add: advance_simps advance_greeting_def reply_append same_closed closed_conn)
  next
    case True
    have n: "sk_conn ?n = Conn_Open" "sk_target ?n = None" "sk_protocol ?n = Socks5_Protocol" "sk_phase ?n = Request"
      using assms by (simp_all add: send_reply_def erase_buffer_def)
    have "(append_buffer b x)\<lparr>sk_phase := Request\<rparr> = append_buffer b (x\<lparr>sk_phase := Request\<rparr>)" for x
      by (simp add: append_buffer_def)
    then have "advance_greeting (append_buffer b s) = (True, append_buffer b ?n)" "advance_greeting s = (True, ?n)"
      using True PS_Ok g e by (simp_all add: advance_greeting_def reply_append Let_def)
    moreover have "try_advance (append_buffer b ?n) = advance_request (append_buffer b ?n)" "try_advance ?n = advance_request ?n"
      using n by (simp_all add: advance_simps)
    ultimately show ?thesis using assms split_request [OF n] by (simp add: advance_simps)
  qed
qed

lemma split_new:
  assumes "a \<noteq> [] \<and> hd a = kVersion \<or> length a \<le> 8192"
  shows "same (on_data (a @ b) session_new) (deliver b (on_data a session_new))"
proof (cases "a = []")
  case True
  then show ?thesis by (simp add: on_data_def deliver_def session_new_def advance_simps)
next
  case False
  let ?s = "session_new\<lparr>sk_buffer := a\<rparr>"
  have s: "sk_conn (sniff ?s) = Conn_Open" "sk_target (sniff ?s) = None" "sk_buffer (sniff ?s) = a"
      "sk_phase (sniff ?s) = Greeting"
    "sk_protocol (sniff ?s) = (if hd a = kVersion then Socks5_Protocol else HttpConnect_Protocol)"
    by (simp_all add: sniff_def session_new_def)
  have l: "on_data (a @ b) session_new = try_advance (append_buffer b (sniff ?s))"
    using False sniff_append [of ?s b] advance_simps(4) [of "append_buffer b ?s"]
    by (simp add: on_data_def session_new_def append_buffer_def)
  have r: "on_data a session_new = try_advance (sniff ?s)"
    using False advance_simps(4) [of ?s] by (simp add: on_data_def session_new_def)
  show ?thesis
  proof (cases "hd a = kVersion")
    case True
    then show ?thesis unfolding l r using s by (intro split_greeting) simp_all
  next
    case no: False
    then have "length a \<le> 8192" using assms by simp
    moreover have p: "sk_protocol (sniff ?s) = HttpConnect_Protocol" using s(5) no by simp
    ultimately have "same (advance_http (append_buffer b (sniff ?s))) (deliver b (advance_http (sniff ?s)))"
      using s by (intro split_http) simp_all
    then show ?thesis unfolding l r using p by (simp add: advance_simps)
  qed
qed

definition run_session :: "byte list list \<Rightarrow> Socks5Session" where
  "run_session segments = foldl (\<lambda>s d. on_data d s) session_new segments"

definition run_open :: "byte list list \<Rightarrow> Socks5Session" where
  "run_open segments = foldl (\<lambda>s d. deliver d s) session_new segments"

lemma run_concat:
  assumes "concat cs \<noteq> [] \<and> hd (concat cs) = kVersion \<or> length (concat cs) \<le> 8192"
  shows "same (run_open cs) (on_data (concat cs) session_new)"
  using assms
proof (induction cs rule: rev_induct)
  case Nil
  then show ?case by (simp add: run_open_def on_data_def session_new_def advance_simps)
next
  case (snoc d cs)
  have ok: "concat cs \<noteq> [] \<and> hd (concat cs) = kVersion \<or> length (concat cs) \<le> 8192"
    using snoc.prems by (cases "concat cs = []") (auto simp: hd_append simp del: concat_eq_Nil_conv)
  have "same (run_open (cs @ [d])) (deliver d (on_data (concat cs) session_new))"
    using same_deliver [OF snoc.IH [OF ok], of d] by (simp add: run_open_def)
  moreover have "same (deliver d (on_data (concat cs) session_new)) (on_data (concat cs @ d) session_new)"
    using split_new [OF ok, of d] same_fields(1) unfolding same_def by metis
  ultimately show ?case using same_trans by fastforce
qed


lemma run_open_session: "sk_conn (run_open cs) = Conn_Open \<Longrightarrow> run_session cs = run_open cs"
proof (induction cs rule: rev_induct)
  case Nil
  show ?case by (simp add: run_session_def run_open_def)
next
  case (snoc d cs)
  have "sk_conn (run_open cs) = Conn_Open"
    using snoc.prems by (auto simp: run_open_def deliver_def split: if_splits)
  with snoc.IH show ?case by (simp add: run_session_def run_open_def deliver_def)
qed

section \<open>Well-formed requests\<close>

text \<open>What a client sends: the greeting, a CONNECT request for a name, and the HTTP form of it.\<close>

definition client_greeting :: "byte list \<Rightarrow> byte list" where
  "client_greeting methods = [kVersion, of_nat (length methods)] @ methods"

definition port_bytes :: "u16 \<Rightarrow> byte list" where
  "port_bytes p = [of_nat (unat p div 256), of_nat (unat p mod 256)]"

definition client_request :: "string \<Rightarrow> u16 \<Rightarrow> byte list" where
  "client_request name p =
     [kVersion, kCmdConnect, 0, kAtypDomain, of_nat (length name)] @ bytes_of_string name @ port_bytes p"

definition client_http :: "string \<Rightarrow> nat \<Rightarrow> byte list" where
  "client_http name p =
     bytes_of_string (''CONNECT '' @ name @ '':'' @ to_string_nat p @ '' HTTP/1.1'' @ crlf @ crlf)"

lemma unat_length: "n \<le> 255 \<Longrightarrow> unat (of_nat n :: byte) = n"
  using unat_of_nat_min_byte [of n] by simp

lemma greeting_parse:
  assumes "1 \<le> length methods" "length methods \<le> 255"
  shows "parse_socks5_greeting (client_greeting methods @ rest) =
    \<lparr>gr_status = PS_Ok, gr_methods = methods, gr_consumed = 2 + length methods\<rparr>"
proof -
  have "methods \<noteq> []" using assms(1) by (cases methods) simp_all
  with assms show ?thesis by (simp add: parse_socks5_greeting_def client_greeting_def unat_length Let_def)
qed

lemma be16_port: "be16 (xs @ port_bytes p @ ys) (length xs) = unat p"
proof -
  have "unat p div 256 \<le> 255" using unat_u16_le [of p] by simp
  moreover have "unat p mod 256 \<le> 255" by simp
  ultimately show ?thesis by (simp add: be16_def port_bytes_def nth_append unat_length)
qed

lemma request_parse:
  assumes "1 \<le> length name" "length name \<le> 255"
  shows "parse_socks5_request (client_request name p @ rest) =
    (request_more kCmdConnect kAtypDomain)\<lparr>rq_status := PS_Ok, rq_host := name, rq_port := p,
      rq_consumed := 7 + length name\<rparr>"
proof -
  let ?pre = "[kVersion, kCmdConnect, 0, kAtypDomain, of_nat (length name)] @ bytes_of_string name"
  let ?d = "client_request name p @ rest"
  have d: "?d = ?pre @ port_bytes p @ rest" by (simp add: client_request_def)
  have pre: "length ?pre = 5 + length name" by simp
  have port: "be16 ?d (5 + length name) = unat p" using be16_port [of ?pre p rest] unfolding d pre .
  have len: "length ?d = 7 + length name + length rest" by (simp add: client_request_def port_bytes_def)
  have nths: "?d ! 0 = kVersion" "?d ! 1 = kCmdConnect" "?d ! 2 = 0" "?d ! 3 = kAtypDomain" "unat (?d ! 4) = length name"
    using assms by (simp_all add: client_request_def unat_length)
  have nz: "length name \<noteq> 0" using assms by (cases name) simp_all
  have host: "string_of_bytes (take (length name) (drop 5 ?d)) = name"
    by (simp add: client_request_def)
  have at: "kAtypDomain \<noteq> kAtypIPv4" by (simp add: socks5_consts)
  show ?thesis
    unfolding parse_socks5_request_def Let_def request_done_def nths len port host
    using nz at by simp
qed

lemma find_sub_first:
  assumes "hd pat \<notin> set p" "pat \<noteq> []"
  shows "find_sub pat (p @ pat @ r) = Some (length p)"
  using assms(1)
proof (induction p)
  case Nil
  show ?case by (subst find_sub.simps) simp
next
  case (Cons x xs)
  have "take (length pat) ((x # xs) @ pat @ r) \<noteq> pat"
    using Cons.prems assms(2) by (cases pat) auto
  then show ?case using Cons by (simp add: find_sub.simps [of pat "x # xs @ pat @ r"])
qed

lemma find_sub_absent:
  assumes "hd pat \<notin> set p" "pat \<noteq> []"
  shows "find_sub pat p = None"
  using assms(1)
proof (induction p)
  case Nil
  show ?case using assms(2) by (subst find_sub.simps) simp
next
  case (Cons x xs)
  have "take (length pat) (x # xs) \<noteq> pat"
    using Cons.prems assms(2) by (cases pat) auto
  then show ?case using Cons by (simp add: find_sub.simps [of pat "x # xs"])
qed

lemma rsplit_at_last: "c \<notin> set b \<Longrightarrow> rsplit_at c (a @ c # b) = Some (a, b)"
  by (simp add: rsplit_at_def)

definition plain_host :: "string \<Rightarrow> bool" where
  "plain_host name \<longleftrightarrow> name \<noteq> [] \<and> hd name \<noteq> CHR ''['' \<and> list_all (\<lambda>c. c \<notin> set '' '' \<and> c \<notin> set crlf) name"

lemma digit_not: "c \<in> set (to_string_nat n) \<Longrightarrow> c \<noteq> CHR '' '' \<and> c \<noteq> CHR '':'' \<and> c \<noteq> CHR 0x0D"
  using to_string_nat_set [of c n] by (auto simp: is_digit_def)

lemma http_parse:
  assumes h: "plain_host name" and p: "1 \<le> p" "p \<le> 65535"
  shows "parse_http_connect (client_http name p @ rest) =
    \<lparr>hr_status = PS_Ok, hr_host = name, hr_port = of_nat p, hr_consumed = length (client_http name p)\<rparr>"
proof -
  let ?auth = "name @ CHR '':'' # to_string_nat p"
  let ?line = "''CONNECT '' @ ?auth @ '' HTTP/1.1''"
  have view: "string_of_bytes (client_http name p @ rest) = ?line @ (crlf @ crlf) @ string_of_bytes rest"
    by (simp add: client_http_def string_of_bytes_def bytes_of_string_def comp_def)
  have chars: "CHR '' '' \<notin> set name" "CHR 0x0D \<notin> set name" "CHR 0x0A \<notin> set name"
    using h by (auto simp: plain_host_def list_all_iff crlf_def)
  have digs: "CHR '' '' \<notin> set (to_string_nat p)" "CHR '':'' \<notin> set (to_string_nat p)" "CHR 0x0D \<notin> set (to_string_nat p)"
    using digit_not by blast+
  have cr: "CHR 0x0D \<notin> set ?line" using chars digs by simp
  have head: "find_sub (crlf @ crlf) (?line @ (crlf @ crlf) @ string_of_bytes rest) = Some (length ?line)"
    by (rule find_sub_first) (use cr in \<open>simp_all add: crlf_def\<close>)
  have none: "find_sub crlf ?line = None"
    by (rule find_sub_absent) (use cr in \<open>simp_all add: crlf_def\<close>)
  have auth: "parse_authority ?auth n = \<lparr>hr_status = PS_Ok, hr_host = name, hr_port = of_nat p, hr_consumed = n\<rparr>" for n
  proof -
    have "to_string_nat p \<noteq> []" using to_string_nat_digits by blast
    moreover have "from_chars_nat 4294967295 (to_string_nat p) = Some p" using p by (intro from_chars_to_string) simp
    ultimately show ?thesis
      using h p digs(2) by (simp add: parse_authority_def plain_host_def rsplit_at_last finish_target_def parse_port_def)
  qed
  have "split_at (CHR '' '') (?auth @ CHR '' '' # ''HTTP/1.1'') = Some (?auth, ''HTTP/1.1'')"
    by (rule split_at_append) (use chars digs in simp)
  then have line: "parse_request_line ?line n = \<lparr>hr_status = PS_Ok, hr_host = name, hr_port = of_nat p, hr_consumed = n\<rparr>" for n
    using auth by (simp add: parse_request_line_def)
  have len: "length (client_http name p) = length ?line + 4" by (simp add: client_http_def crlf_def)
  have take: "take (length l) (l @ x) = l" for l x :: string by simp
  have "take (length ?line) (?line @ (crlf @ crlf) @ string_of_bytes rest) = ?line" by (rule take)
  then show ?thesis
    unfolding parse_http_connect_def Let_def view head len option.case
    by (simp only: none line option.case)
qed

lemma connect_whole:
  assumes "kAuthNone \<in> set methods" "length methods \<le> 255" and "1 \<le> length name" "length name \<le> 255"
  shows "on_data (client_greeting methods @ client_request name p @ payload) session_new =
    session_new\<lparr>sk_protocol := Socks5_Protocol, sk_phase := Streaming, sk_out := [kVersion, kAuthNone],
      sk_target := Some (name, p), sk_stream := payload\<rparr>"
proof -
  let ?rest = "client_request name p @ payload" and ?g = "client_greeting methods"
  let ?s = "session_new\<lparr>sk_buffer := ?g @ ?rest\<rparr>"
  have one: "1 \<le> length methods" using assms(1) by (cases methods) simp_all
  have hd: "hd (?g @ ?rest) = kVersion" "?g @ ?rest \<noteq> []" by (simp_all add: client_greeting_def)
  have gl: "length ?g = 2 + length methods" by (simp add: client_greeting_def)
  have rl: "length (client_request name p) = 7 + length name" by (simp add: client_request_def port_bytes_def)
  have g: "advance_greeting (sniff ?s) = (True, session_new\<lparr>sk_protocol := Socks5_Protocol, sk_phase := Request,
      sk_buffer := ?rest, sk_out := [kVersion, kAuthNone]\<rparr>)"
    using greeting_parse [OF one assms(2), of ?rest] assms(1) hd gl
    by (simp add: advance_greeting_def sniff_def session_new_def erase_buffer_def send_reply_def)
  have r: "advance_request (session_new\<lparr>sk_protocol := Socks5_Protocol, sk_phase := Request,
      sk_buffer := ?rest, sk_out := [kVersion, kAuthNone]\<rparr>) = session_new\<lparr>sk_protocol := Socks5_Protocol, sk_phase := Streaming,
      sk_out := [kVersion, kAuthNone], sk_target := Some (name, p), sk_stream := payload\<rparr>"
    using request_parse [OF assms(3,4), of p payload] rl
    by (simp add: advance_request_def session_new_def erase_buffer_def handoff_to_tunnel_def)
  have "on_data (?g @ ?rest) session_new = try_advance (sniff ?s)"
    using hd advance_simps(4) [of ?s] by (simp add: on_data_def session_new_def)
  also have "\<dots> = (case advance_greeting (sniff ?s) of (True, s1) \<Rightarrow> try_advance s1 | (False, s1) \<Rightarrow> s1)"
    using hd by (intro advance_simps(3)) (simp_all add: sniff_def session_new_def)
  also have "\<dots> = try_advance (session_new\<lparr>sk_protocol := Socks5_Protocol, sk_phase := Request,
      sk_buffer := ?rest, sk_out := [kVersion, kAuthNone]\<rparr>)" unfolding g by simp
  also have "\<dots> = advance_request (session_new\<lparr>sk_protocol := Socks5_Protocol, sk_phase := Request,
      sk_buffer := ?rest, sk_out := [kVersion, kAuthNone]\<rparr>)" by (rule advance_simps(1)) simp_all
  finally show ?thesis unfolding r .
qed

section \<open>Properties\<close>




lemma late_request:
  assumes "sk_protocol s = Socks5_Protocol" "sk_phase s = Greeting" "sk_conn s = Conn_Closing"
    and "sk_buffer s = []" "sk_target s = None"
    and "kAuthNone \<in> set methods" "length methods \<le> 255" and "1 \<le> length name" "length name \<le> 255"
  shows "on_data (client_greeting methods @ client_request name p @ payload) s =
    s\<lparr>sk_phase := Streaming, sk_out := sk_out s @ [kVersion, kAuthNone], sk_target := Some (name, p), sk_stream := payload\<rparr>"
proof -
  let ?rest = "client_request name p @ payload" and ?g = "client_greeting methods"
  let ?s = "s\<lparr>sk_buffer := ?g @ ?rest\<rparr>"
  let ?s1 = "s\<lparr>sk_phase := Request, sk_buffer := ?rest, sk_out := sk_out s @ [kVersion, kAuthNone]\<rparr>"
  have one: "1 \<le> length methods" using assms(6) by (cases methods) simp_all
  have gl: "length ?g = 2 + length methods" by (simp add: client_greeting_def)
  have rl: "length (client_request name p) = 7 + length name" by (simp add: client_request_def port_bytes_def)
  have g: "advance_greeting ?s = (True, ?s1)"
    using greeting_parse [OF one assms(7), of ?rest] assms gl
    by (simp add: advance_greeting_def erase_buffer_def send_reply_def)
  have "on_data (?g @ ?rest) s = try_advance ?s" using assms by (simp add: on_data_def)
  also have "\<dots> = try_advance ?s1" using assms g advance_simps(3) [of ?s] by simp
  also have "\<dots> = advance_request ?s1" using assms by (intro advance_simps(1)) simp_all
  also have "\<dots> = s\<lparr>sk_phase := Streaming, sk_out := sk_out s @ [kVersion, kAuthNone], sk_target := Some (name, p),
      sk_stream := payload\<rparr>"
    using request_parse [OF assms(8,9), of p payload] rl assms(4)
    by (simp add: advance_request_def erase_buffer_def handoff_to_tunnel_def)
  finally show ?thesis .
qed

lemma refused_greeting:
  assumes "methods \<noteq> []" "length methods \<le> 255" "kAuthNone \<notin> set methods"
  shows "on_data (client_greeting methods) session_new = session_new\<lparr>sk_protocol := Socks5_Protocol,
    sk_out := [kVersion, kAuthNoAcceptable], sk_conn := Conn_Closing\<rparr>"
proof -
  let ?s = "session_new\<lparr>sk_buffer := client_greeting methods\<rparr>"
  have one: "1 \<le> length methods" using assms(1) by (cases methods) simp_all
  have gl: "length (client_greeting methods) = 2 + length methods" by (simp add: client_greeting_def)
  have hd: "hd (client_greeting methods) = kVersion" "client_greeting methods \<noteq> []" by (simp_all add: client_greeting_def)
  have "on_data (client_greeting methods) session_new = try_advance (sniff ?s)"
    using hd advance_simps(4) [of ?s] by (simp add: on_data_def session_new_def)
  then show ?thesis
    using greeting_parse [OF one assms(2), of "[]"] assms(3) hd gl
    by (simp add: advance_simps sniff_def session_new_def advance_greeting_def erase_buffer_def send_reply_def close_conn_def)
qed

text \<open>
  Claim C33: a refused client is still served when its next segment is already in flight. After a
  greeting without an acceptable method the session answers 0xFF and closes, but the graceful close
  delivers the read that is outstanding; if that segment holds a greeting that offers no authentication
  and a CONNECT request, the session accepts it, opens the tunnel for the requested target and passes
  the payload on, on a connection that is closing.
\<close>

theorem refused_client_still_served:
  assumes "methods \<noteq> []" "length methods \<le> 255" "kAuthNone \<notin> set methods"
    and "kAuthNone \<in> set methods2" "length methods2 \<le> 255" and "1 \<le> length name" "length name \<le> 255"
  shows "let s = run_session [client_greeting methods, client_greeting methods2 @ client_request name p @ payload]
         in sk_out s = [kVersion, kAuthNoAcceptable, kVersion, kAuthNone] \<and> sk_target s = Some (name, p)
          \<and> sk_stream s = payload \<and> sk_conn s = Conn_Closing"
  using late_request [OF _ _ _ _ _ assms(4-7), of "on_data (client_greeting methods) session_new" p payload]
    refused_greeting [OF assms(1-3)]
  by (simp add: run_session_def session_new_def Let_def)

theorem refused_client_still_served_witness:
  "sk_target (run_session [client_greeting [2], client_greeting [0] @ client_request ''host'' 80 @ [7]]) = Some (''host'', 80)"
  using refused_client_still_served [of "[2]" "[0]" "''host''" 80 "[7]"] by (simp add: kAuthNone_def Let_def)

text \<open>
  A SOCKS5 CONNECT request is served. When a client sends a greeting that offers no
  authentication, a CONNECT request for a name of 1 to 255 bytes and then its first payload, cut into
  segments in any way, it is answered with the method selection, the tunnel is opened for exactly that
  name and port, and exactly the payload is passed on to it.
\<close>

theorem socks5_connect_served:
  assumes "concat segments = client_greeting methods @ client_request name p @ payload"
    and "kAuthNone \<in> set methods" "length methods \<le> 255" and "1 \<le> length name" "length name \<le> 255"
  shows "let s = run_session segments
         in sk_out s = [kVersion, kAuthNone] \<and> sk_target s = Some (name, p) \<and> sk_stream s = payload
          \<and> sk_conn s = Conn_Open"
proof -
  have "concat segments \<noteq> [] \<and> hd (concat segments) = kVersion"
    unfolding assms(1) by (simp add: client_greeting_def)
  then have "same (run_open segments) (on_data (concat segments) session_new)" by (intro run_concat) blast
  note f = same_fields [OF this, unfolded assms(1) connect_whole [OF assms(2-)]]
  then have "run_session segments = run_open segments" by (intro run_open_session) (simp add: session_new_def)
  with f show ?thesis by (simp add: Let_def session_new_def)
qed

text \<open>
  An HTTP CONNECT request for a host and port is read back exactly, and the bytes after the
  header are left for the tunnel.
\<close>

theorem http_connect_roundtrip:
  assumes "plain_host name" and "1 \<le> p" "p \<le> 65535"
  shows "parse_http_connect (client_http name p @ rest) =
    \<lparr>hr_status = PS_Ok, hr_host = name, hr_port = of_nat p, hr_consumed = length (client_http name p)\<rparr>"
  by (rule http_parse [OF assms])

text \<open>
  An HTTP CONNECT target in brackets may be empty: the host is then the empty string, which the form
  without brackets rejects.
\<close>

lemma empty_bracket_host:
  "parse_authority ''[]:443'' n = \<lparr>hr_status = PS_Ok, hr_host = [], hr_port = 443, hr_consumed = n\<rparr>"
  "hr_status (parse_authority '':443'' n) = PS_Malformed"
  by (simp_all add: parse_authority_def finish_target_def parse_port_def from_chars_nat_def decimal_value_def
      digit_value_def is_digit_def rsplit_at_def)

end
