(* ===== verification/Configuration.thy ===== *)
theory Configuration
  imports Tox_Types Socks5 Write_Coalescer Bdp_Flow_Control
begin

text \<open>
  The configuration (\<open>include/toxtunnel/util/config.hpp\<close>, \<open>src/util/config.cpp\<close>,
  \<open>src/util/config_reload.cpp\<close>): the structures with their defaults, the fallback from the legacy server
  fields to the \<open>tox\<close> block, validation, the merge of command-line overrides, and the gate and the diff of a
  hot reload. Whether a text is an IP address is decided by asio and is the parameter \<open>is_address\<close>; the home
  directory and the environment are arguments.
\<close>

section \<open>Structures\<close>

record ForwardRule =
  fw_local_port :: u16
  fw_remote_host :: string
  fw_remote_port :: u16
  fw_local_address :: "string option"

record PipeTarget =
  pt_remote_host :: string
  pt_remote_port :: u16

record BootstrapNodeConfig =
  bn_address :: string
  bn_port :: u16
  bn_public_key :: string

datatype BootstrapMode = BM_Auto | BM_Lan

datatype ToxProxyType = PX_None | PX_Http | PX_Socks5

record ToxProxyConfig =
  px_type :: ToxProxyType
  px_host :: string
  px_port :: u16

record ToxConfig =
  tx_udp_enabled :: bool
  tx_ipv6_enabled :: bool
  tx_udp_port :: u16
  tx_tcp_port :: u16
  tx_bootstrap_mode :: BootstrapMode
  tx_bootstrap_nodes :: "BootstrapNodeConfig list"
  tx_proxy :: ToxProxyConfig

datatype LogLevel = LL_Trace | LL_Debug | LL_Info | LL_Warn | LL_Error | LL_Critical | LL_Off

record LoggingConfig =
  lo_level :: LogLevel
  lo_file :: "string option"

record MetricsConfig =
  mt_enabled :: bool
  mt_listen :: string
  mt_path :: string

record TunnelResumeConfig =
  rc_enabled :: bool
  rc_max_age_seconds :: u32
  rc_on_gap :: string

record TunnelConfig =
  tc_coalesce_max_delay_us :: u32
  tc_coalesce_max_bytes :: u32
  tc_coalesce_mode :: string
  tc_idle_timeout_seconds :: u32
  tc_reaper_tick_seconds :: u32
  tc_half_close_timeout_seconds :: u32
  tc_keepalive_interval_seconds :: u32
  tc_open_timeout_seconds :: u32
  tc_offline_open_wait_seconds :: u32
  tc_resume :: TunnelResumeConfig

record WatchdogConfig =
  wc_enabled :: bool
  wc_deadline_seconds :: u32
  wc_systemd_notify :: bool

record FlowControlConfig =
  fc_mode :: string
  fc_send_window_min_bytes :: u32
  fc_send_window_max_bytes :: u32
  fc_safety_factor_x100 :: u32
  fc_fixed_window_bytes :: u32
  fc_friend_gate :: bool

record ServiceConfig =
  sv_auto_start :: bool
  sv_allow_client_daemon :: bool

record ServerInfoDisclose =
  di_hostname :: bool
  di_os :: bool
  di_os_version :: bool
  di_arch :: bool
  di_uptime :: bool
  di_toxtunnel_version :: bool

record ConfigServer =
  cs_tcp_port :: u16
  cs_udp_enabled :: bool
  cs_bootstrap_nodes :: "BootstrapNodeConfig list"
  cs_rules_file :: "string option"
  cs_disclose :: ServerInfoDisclose

record Socks5Config =
  s5_enabled :: bool
  s5_listen :: string

record FailoverConfig =
  fo_timeout_seconds :: u32
  fo_prefer_primary_grace_seconds :: u32

record ConfigClient =
  cc_server_id :: string
  cc_fallback_server_ids :: "string list"
  cc_forwards :: "ForwardRule list"
  cc_pipe_target :: "PipeTarget option"
  cc_failover :: FailoverConfig
  cc_socks5 :: Socks5Config

datatype Mode = Mode_Server | Mode_Client

record Config =
  cf_mode :: Mode
  cf_data_dir :: string
  cf_logging :: LoggingConfig
  cf_service :: ServiceConfig
  cf_tox :: ToxConfig
  cf_metrics :: MetricsConfig
  cf_inspect :: bool               \<comment> \<open>\<open>inspect.enabled\<close>\<close>
  cf_tunnel :: TunnelConfig
  cf_flow_control :: FlowControlConfig
  cf_watchdog :: WatchdogConfig
  cf_server :: "ConfigServer option"
  cf_client :: "ConfigClient option"

section \<open>Defaults\<close>

definition default_proxy :: ToxProxyConfig where "default_proxy = \<lparr>px_type = PX_None, px_host = [], px_port = 0\<rparr>"

definition default_tox :: ToxConfig where
  "default_tox = \<lparr>tx_udp_enabled = True, tx_ipv6_enabled = True, tx_udp_port = 0, tx_tcp_port = 33445,
     tx_bootstrap_mode = BM_Auto, tx_bootstrap_nodes = [], tx_proxy = default_proxy\<rparr>"

definition default_logging :: LoggingConfig where "default_logging = \<lparr>lo_level = LL_Info, lo_file = None\<rparr>"

definition default_metrics :: MetricsConfig where
  "default_metrics = \<lparr>mt_enabled = False, mt_listen = ''127.0.0.1:9100'', mt_path = ''/metrics''\<rparr>"

definition default_resume :: TunnelResumeConfig where
  "default_resume = \<lparr>rc_enabled = False, rc_max_age_seconds = 300, rc_on_gap = ''passthrough''\<rparr>"

definition default_tunnel :: TunnelConfig where
  "default_tunnel = \<lparr>tc_coalesce_max_delay_us = 200, tc_coalesce_max_bytes = 1362, tc_coalesce_mode = ''fixed'',
     tc_idle_timeout_seconds = 0, tc_reaper_tick_seconds = 10, tc_half_close_timeout_seconds = 120,
     tc_keepalive_interval_seconds = 0, tc_open_timeout_seconds = 30, tc_offline_open_wait_seconds = 10,
     tc_resume = default_resume\<rparr>"

definition default_watchdog :: WatchdogConfig where
  "default_watchdog = \<lparr>wc_enabled = True, wc_deadline_seconds = 30, wc_systemd_notify = True\<rparr>"

definition default_flow_control :: FlowControlConfig where
  "default_flow_control = \<lparr>fc_mode = ''bdp'', fc_send_window_min_bytes = 32768,
     fc_send_window_max_bytes = 4 * 1024 * 1024, fc_safety_factor_x100 = 150, fc_fixed_window_bytes = 262144,
     fc_friend_gate = False\<rparr>"

definition default_service :: ServiceConfig where
  "default_service = \<lparr>sv_auto_start = True, sv_allow_client_daemon = False\<rparr>"

definition default_disclose :: ServerInfoDisclose where
  "default_disclose = \<lparr>di_hostname = False, di_os = False, di_os_version = False, di_arch = False, di_uptime = False,
     di_toxtunnel_version = False\<rparr>"

definition default_config_server :: ConfigServer where
  "default_config_server = \<lparr>cs_tcp_port = 33445, cs_udp_enabled = True, cs_bootstrap_nodes = [], cs_rules_file = None,
     cs_disclose = default_disclose\<rparr>"

definition default_socks5 :: Socks5Config where "default_socks5 = \<lparr>s5_enabled = False, s5_listen = ''127.0.0.1:1080''\<rparr>"

definition default_failover :: FailoverConfig where
  "default_failover = \<lparr>fo_timeout_seconds = 60, fo_prefer_primary_grace_seconds = 30\<rparr>"

definition default_config_client :: ConfigClient where
  "default_config_client = \<lparr>cc_server_id = [], cc_fallback_server_ids = [], cc_forwards = [], cc_pipe_target = None,
     cc_failover = default_failover, cc_socks5 = default_socks5\<rparr>"

definition default_config :: Config where
  "default_config = \<lparr>cf_mode = Mode_Server, cf_data_dir = [], cf_logging = default_logging, cf_service = default_service,
     cf_tox = default_tox, cf_metrics = default_metrics, cf_inspect = True, cf_tunnel = default_tunnel,
     cf_flow_control = default_flow_control, cf_watchdog = default_watchdog, cf_server = None, cf_client = None\<rparr>"

section \<open>Legacy fields of the server block\<close>

definition sync_legacy_server_tox_fields :: "Config \<Rightarrow> Config" where
  "sync_legacy_server_tox_fields c =
     (case cf_server c of
        None \<Rightarrow> c
      | Some s \<Rightarrow> c\<lparr>cf_server := Some (s\<lparr>cs_tcp_port := tx_tcp_port (cf_tox c), cs_udp_enabled := tx_udp_enabled (cf_tox c),
                                       cs_bootstrap_nodes := tx_bootstrap_nodes (cf_tox c)\<rparr>)\<rparr>)"

definition effective_tox_config :: "Config \<Rightarrow> ToxConfig" where
  "effective_tox_config c =
     (case (cf_mode c, cf_server c) of
        (Mode_Server, Some s) \<Rightarrow>
          let t = cf_tox c;
              t1 = (if tx_tcp_port t = tx_tcp_port default_tox \<and> cs_tcp_port s \<noteq> tx_tcp_port default_tox
                    then t\<lparr>tx_tcp_port := cs_tcp_port s\<rparr> else t);
              t2 = (if tx_udp_enabled t1 = tx_udp_enabled default_tox \<and> cs_udp_enabled s \<noteq> tx_udp_enabled default_tox
                    then t1\<lparr>tx_udp_enabled := cs_udp_enabled s\<rparr> else t1)
          in if tx_bootstrap_nodes t2 = [] \<and> cs_bootstrap_nodes s \<noteq> []
             then t2\<lparr>tx_bootstrap_nodes := cs_bootstrap_nodes s\<rparr> else t2
      | _ \<Rightarrow> cf_tox c)"

definition default_server :: Config where
  "default_server =
     sync_legacy_server_tox_fields (default_config\<lparr>cf_data_dir := ''/var/lib/toxtunnel'', cf_server := Some default_config_server\<rparr>)"

definition default_client :: "string \<Rightarrow> Config" where
  "default_client data_dir =
     default_config\<lparr>cf_mode := Mode_Client, cf_data_dir := data_dir, cf_service := default_service\<lparr>sv_auto_start := False\<rparr>,
                    cf_client := Some default_config_client\<rparr>"

definition should_run_as_service_daemon :: "Config \<Rightarrow> bool" where
  "should_run_as_service_daemon c =
     (if cf_mode c = Mode_Client then sv_allow_client_daemon (cf_service c) else sv_auto_start (cf_service c))"

section \<open>Forwards\<close>

definition kDefaultForwardBindAddress :: string where "kDefaultForwardBindAddress = ''127.0.0.1''"

definition effective_local_address :: "ForwardRule \<Rightarrow> string" where
  "effective_local_address r = (case fw_local_address r of Some a \<Rightarrow> a | None \<Rightarrow> kDefaultForwardBindAddress)"

definition format_endpoint_label :: "string \<Rightarrow> u16 \<Rightarrow> string" where
  "format_endpoint_label address port =
     (if CHR '':'' \<in> set address then ''['' @ address @ '']'' else address) @ '':'' @ to_string_nat (unat port)"

definition local_endpoint_label :: "ForwardRule \<Rightarrow> string" where
  "local_endpoint_label r = format_endpoint_label (effective_local_address r) (fw_local_port r)"

definition forward_bind_advisory :: "ForwardRule \<Rightarrow> string option" where
  "forward_bind_advisory r =
     (if fw_local_address r \<noteq> None then None
      else Some (''forward '' @ local_endpoint_label r @ '' -> '' @ fw_remote_host r @ '':''
        @ to_string_nat (unat (fw_remote_port r))
        @ '' binds 127.0.0.1 because no 'local_address' was set (the default since v0.5.0; ''
        @ ''earlier versions bound 0.0.0.0). Other machines cannot reach this forward. Set ''
        @ '''local_address: 0.0.0.0' to serve other machines as before, or ''
        @ '''local_address: 127.0.0.1' to record this choice and silence this notice.''))"

text \<open>\<open>operator==\<close> of rules: the effective address counts.\<close>

definition same_forward :: "ForwardRule \<Rightarrow> ForwardRule \<Rightarrow> bool" where
  "same_forward a b \<longleftrightarrow>
     fw_local_port a = fw_local_port b \<and> fw_remote_host a = fw_remote_host b \<and> fw_remote_port a = fw_remote_port b
     \<and> effective_local_address a = effective_local_address b"

record ForwardDiff =
  fd_added :: "ForwardRule list"
  fd_removed :: "ForwardRule list"

definition diff_forwards :: "ForwardRule list \<Rightarrow> ForwardRule list \<Rightarrow> ForwardDiff" where
  "diff_forwards current upcoming =
     \<lparr>fd_added = filter (\<lambda>r. \<not> list_ex (same_forward r) current) upcoming,
      fd_removed = filter (\<lambda>r. \<not> list_ex (same_forward r) upcoming) current\<rparr>"

section \<open>Addresses in texts\<close>

text \<open>\<open>std::stoul\<close> in base ten: leading white space and a sign are skipped, digits are read up to the first
  other character, a negative number wraps. \<open>None\<close> is an exception (no digits, or out of range).\<close>

definition is_space :: "char \<Rightarrow> bool" where
  "is_space c \<longleftrightarrow> (of_char c :: nat) = 32 \<or> 9 \<le> (of_char c :: nat) \<and> (of_char c :: nat) \<le> 13"

definition stoul :: "string \<Rightarrow> nat option" where
  "stoul s =
     (let t = dropWhile is_space s;
          neg = (t \<noteq> [] \<and> hd t = CHR ''-'');
          u = (if t \<noteq> [] \<and> (hd t = CHR ''-'' \<or> hd t = CHR ''+'') then tl t else t);
          ds = takeWhile is_digit u;
          v = decimal_value ds
      in if ds = [] \<or> v \<ge> 2 ^ 64 then None else Some (if neg then (2 ^ 64 - v) mod 2 ^ 64 else v))"

definition pipe_port :: "string \<Rightarrow> string \<Rightarrow> string + PipeTarget" where
  "pipe_port host port_str =
     (case stoul port_str of
        None \<Rightarrow> Inl ''Pipe target port must be numeric''
      | Some p \<Rightarrow> if p = 0 \<or> p > 65535 then Inl ''Pipe target port must be between 1 and 65535''
                  else Inr \<lparr>pt_remote_host = host, pt_remote_port = of_nat p\<rparr>)"

definition parse_pipe_target :: "string \<Rightarrow> string + PipeTarget" where
  "parse_pipe_target spec =
     (if spec \<noteq> [] \<and> hd spec = CHR ''[''
      then case split_at (CHR '']'') spec of
             None \<Rightarrow> Inl ''Invalid IPv6 address: missing closing bracket''
           | Some (before, rest) \<Rightarrow>
               if rest = [] \<or> hd rest \<noteq> CHR '':'' then Inl ''Pipe target must be in the form [ipv6]:port''
               else pipe_port (tl before) (tl rest)
      else case rsplit_at (CHR '':'') spec of
             None \<Rightarrow> Inl ''Pipe target must be in the form host:port or [ipv6]:port''
           | Some (host, port_str) \<Rightarrow>
               if host = [] \<or> port_str = [] then Inl ''Pipe target must be in the form host:port or [ipv6]:port''
               else pipe_port host port_str)"

definition listen_port :: "string \<Rightarrow> string \<Rightarrow> (string \<times> u16) option" where
  "listen_port host port_sv =
     (case from_chars_nat 4294967295 port_sv of
        None \<Rightarrow> None
      | Some p \<Rightarrow> if p > 65535 then None else Some (host, of_nat p))"

definition parse_listen_spec :: "string \<Rightarrow> (string \<times> u16) option" where
  "parse_listen_spec spec =
     (if spec = [] then None
      else if hd spec = CHR ''[''
      then case split_at (CHR '']'') spec of
             None \<Rightarrow> None
           | Some (before, rest) \<Rightarrow>
               if rest = [] \<or> hd rest \<noteq> CHR '':'' then None else listen_port (tl before) (tl rest)
      else case rsplit_at (CHR '':'') spec of
             None \<Rightarrow> None
           | Some (host, port_sv) \<Rightarrow> if host = [] \<or> port_sv = [] then None else listen_port host port_sv)"

definition strip_brackets :: "string \<Rightarrow> string" where
  "strip_brackets h =
     (if length h \<ge> 2 \<and> hd h = CHR ''['' \<and> last h = CHR '']'' then butlast (tl h) else h)"

definition is_loopback_host :: "string \<Rightarrow> bool" where
  "is_loopback_host host =
     (if host = [] then False
      else let h = strip_brackets host
           in if h = ''0.0.0.0'' \<or> h = ''::'' then False
              else if h = ''::1'' then True
              else if length h > 7 \<and> (take 7 h = ''::ffff:'' \<or> take 7 h = ''::FFFF:'') \<and> take 4 (drop 7 h) = ''127.'' then True
              else if take 4 h = ''127.'' then True
              else str_lower h = ''localhost'')"

text \<open>\<open>home\<close> is the home directory that the environment names, empty when it names none.\<close>

definition expand_user_path :: "string \<Rightarrow> string \<Rightarrow> string" where
  "expand_user_path home path =
     (if path = [] \<or> hd path \<noteq> CHR ''~'' then path
      else if length path > 1 \<and> path ! 1 \<noteq> CHR ''/'' \<and> path ! 1 \<noteq> CHR 0x5C then path
      else if home = [] then path
      else home @ tl path)"

definition home_directory :: "(string \<Rightarrow> string option) \<Rightarrow> string" where
  "home_directory getenv =
     (case (getenv ''HOME'', getenv ''USERPROFILE'') of
        (Some (c # cs), _) \<Rightarrow> c # cs
      | (_, Some (c # cs)) \<Rightarrow> c # cs
      | _ \<Rightarrow> (case (getenv ''HOMEDRIVE'', getenv ''HOMEPATH'') of (Some d, Some p) \<Rightarrow> d @ p | _ \<Rightarrow> []))"

section \<open>Validation\<close>

definition to_bootstrap_node :: "BootstrapNodeConfig \<Rightarrow> string + (string \<times> u16 \<times> byte list)" where
  "to_bootstrap_node n =
     (case parse_public_key (bn_public_key n) of
        Inl e \<Rightarrow> Inl (''Invalid public key: '' @ e)
      | Inr pk \<Rightarrow> Inr (bn_address n, bn_port n, pk))"

definition bootstrap_node_error :: "BootstrapNodeConfig \<Rightarrow> string option" where
  "bootstrap_node_error n =
     (if bn_address n = [] then Some ''Bootstrap node address cannot be empty''
      else if bn_port n = 0 then Some ''Bootstrap node port cannot be 0''
      else if length (bn_public_key n) \<noteq> kPublicKeyHexLen
      then Some (''Bootstrap node public key must be '' @ to_string_nat kPublicKeyHexLen @ '' characters, got ''
                 @ to_string_nat (length (bn_public_key n)))
      else case parse_public_key (bn_public_key n) of
             Inl e \<Rightarrow> Some (''Invalid bootstrap node public key: '' @ e)
           | Inr _ \<Rightarrow> None)"

text \<open>The first error of a list of items, and of a list of conditions with the message each gives.\<close>

fun first_error :: "('a \<Rightarrow> string option) \<Rightarrow> 'a list \<Rightarrow> string option" where
  "first_error f [] = None"
| "first_error f (x # xs) = (case f x of Some e \<Rightarrow> Some e | None \<Rightarrow> first_error f xs)"

fun first_failed :: "(bool \<times> string) list \<Rightarrow> string option" where
  "first_failed [] = None"
| "first_failed ((bad, msg) # cs) = (if bad then Some msg else first_failed cs)"

definition quoted :: "string \<Rightarrow> string" where "quoted s = CHR 0x27 # s @ [CHR 0x27]"

definition validate_metrics :: "MetricsConfig \<Rightarrow> string option" where
  "validate_metrics m =
     (if \<not> mt_enabled m then None
      else first_failed
        [(parse_listen_spec (mt_listen m) = None,
          ''Invalid metrics.listen value (expected host:port, e.g. 127.0.0.1:9100): '' @ mt_listen m),
         (mt_path m = [] \<or> hd (mt_path m) \<noteq> CHR ''/'', ''metrics.path must start with '' @ quoted ''/'')])"

definition validate_tox :: "ToxConfig \<Rightarrow> string option" where
  "validate_tox t =
     first_failed
       ((tx_bootstrap_mode t = BM_Lan \<and> \<not> tx_udp_enabled t, ''LAN bootstrap mode requires tox.udp_enabled to be true'')
        # (if px_type (tx_proxy t) = PX_None then []
           else [(px_host (tx_proxy t) = [], ''tox.proxy.host is required when tox.proxy.type is set''),
                 (px_port (tx_proxy t) = 0, ''tox.proxy.port must be 1-65535 when tox.proxy.type is set''),
                 (tx_bootstrap_mode t = BM_Lan, ''tox.proxy cannot be combined with tox.bootstrap_mode: lan (a proxied node has no UDP, so LAN discovery cannot work)'')]))"

definition validate_flow :: "TunnelConfig \<Rightarrow> FlowControlConfig \<Rightarrow> string option" where
  "validate_flow t f =
     (let lo = fc_send_window_min_bytes f; hi = fc_send_window_max_bytes f; fx = fc_fixed_window_bytes f;
          num = (\<lambda>w :: u32. to_string_nat (unat w))
      in first_failed
        [(parse_coalesce_mode (tc_coalesce_mode t) = None,
          ''Invalid tunnel.coalesce_mode '' @ quoted (tc_coalesce_mode t) @ '': must be one of ''
            @ quoted ''fixed'' @ '', '' @ quoted ''adaptive'' @ '', '' @ quoted ''bypass'' @ '', '' @ quoted ''drain''),
         (parse_flow_control_mode (fc_mode f) = None,
          ''Invalid flow_control.mode '' @ quoted (fc_mode f) @ '': must be one of '' @ quoted ''bdp'' @ '', '' @ quoted ''fixed''),
         (lo = 0, ''flow_control.send_window_min_bytes must be > 0''),
         (lo > hi, ''flow_control.send_window_min_bytes ('' @ num lo @ '') must be <= flow_control.send_window_max_bytes ('' @ num hi @ '')''),
         (fx = 0, ''flow_control.fixed_window_bytes must be > 0''),
         (fx < lo \<or> fx > hi, ''flow_control.fixed_window_bytes ('' @ num fx @ '') must be within [send_window_min_bytes, send_window_max_bytes] = ['' @ num lo @ '', '' @ num hi @ '']''),
         (fc_safety_factor_x100 f = 0, ''flow_control.safety_factor_x100 must be > 0'')])"

definition validate_resume :: "TunnelConfig \<Rightarrow> string option" where
  "validate_resume t =
     first_failed
       [(rc_enabled (tc_resume t) \<and> rc_max_age_seconds (tc_resume t) = 0,
         ''tunnel.resume.max_age_seconds must be > 0 when tunnel.resume.enabled''),
        (tc_offline_open_wait_seconds t > 3600, ''tunnel.offline_open_wait_seconds must be <= 3600''),
        (rc_on_gap (tc_resume t) \<noteq> ''passthrough'' \<and> rc_on_gap (tc_resume t) \<noteq> ''close'',
         ''Invalid tunnel.resume.on_gap '' @ quoted (rc_on_gap (tc_resume t)) @ '': must be one of ''
           @ quoted ''passthrough'' @ '', '' @ quoted ''close'')]"

text \<open>An identifier of a server, and the list of fallbacks with their duplicates.\<close>

definition server_id_error :: "string \<Rightarrow> string \<Rightarrow> string \<Rightarrow> string option" where
  "server_id_error what invalid i =
     (if length i \<noteq> kToxIdHexLen
      then Some (what @ '' must be '' @ to_string_nat kToxIdHexLen @ '' characters, got '' @ to_string_nat (length i))
      else case id_from_hex i of Inl e \<Rightarrow> Some (invalid @ e) | Inr _ \<Rightarrow> None)"

definition fallback_error :: "string \<Rightarrow> string \<Rightarrow> string option" where
  "fallback_error primary fb =
     (if fb = [] then Some ''Fallback server ID cannot be empty''
      else case server_id_error ''Fallback server ID'' ''Invalid fallback server Tox ID: '' fb of
             Some e \<Rightarrow> Some e
           | None \<Rightarrow> if fb = primary then Some ''Fallback server ID duplicates the primary server ID'' else None)"

fun duplicate_error :: "string list \<Rightarrow> string option" where
  "duplicate_error [] = None"
| "duplicate_error (x # xs) = (if x \<in> set xs then Some (''Duplicate fallback server ID: '' @ x) else duplicate_error xs)"

definition forward_error :: "(string \<Rightarrow> bool) \<Rightarrow> ForwardRule \<Rightarrow> string option" where
  "forward_error is_address r =
     first_failed
       [(fw_local_port r = 0, ''Forward rule local_port cannot be 0''),
        (fw_remote_host r = [], ''Forward rule remote_host cannot be empty''),
        (fw_remote_port r = 0, ''Forward rule remote_port cannot be 0''),
        (fw_local_address r \<noteq> None \<and> \<not> is_address (the (fw_local_address r)),
         ''Forward rule local_address '' @ quoted (the (fw_local_address r)) @ '' is not a valid IP address (numeric IPv4/IPv6 literals only; use 127.0.0.1 rather than localhost)'')]"

definition pipe_error :: "PipeTarget \<Rightarrow> string option" where
  "pipe_error p =
     first_failed
       [(pt_remote_host p = [], ''Pipe target remote_host cannot be empty''),
        (pt_remote_port p = 0, ''Pipe target remote_port cannot be 0'')]"

definition socks5_error :: "ConfigClient \<Rightarrow> string option" where
  "socks5_error cl =
     (if \<not> s5_enabled (cc_socks5 cl) then None
      else case parse_listen_spec (s5_listen (cc_socks5 cl)) of
             None \<Rightarrow> Some (''Invalid client.socks5.listen value: '' @ s5_listen (cc_socks5 cl))
           | Some (host, _) \<Rightarrow>
               first_failed
                 [(\<not> is_loopback_host host, ''client.socks5.listen must bind to a loopback address (127.0.0.0/8, ::1, or localhost); SOCKS5 v1 is unauthenticated. Got: '' @ host),
                  (cc_pipe_target cl \<noteq> None, ''client.socks5.enabled and client.pipe cannot be used together'')])"

text \<open>The checks of a client in order; the first that fails is the answer.\<close>

definition validate_client :: "(string \<Rightarrow> bool) \<Rightarrow> ConfigClient \<Rightarrow> string option" where
  "validate_client is_address cl =
     first_error id
       [if cc_server_id cl = [] then Some ''Server ID is required in client mode'' else None,
        server_id_error ''Server ID'' ''Invalid server Tox ID: '' (cc_server_id cl),
        first_error (fallback_error (cc_server_id cl)) (cc_fallback_server_ids cl),
        duplicate_error (cc_fallback_server_ids cl),
        if cc_fallback_server_ids cl \<noteq> [] \<and> fo_timeout_seconds (cc_failover cl) = 0
        then Some ''client.failover.timeout_seconds must be > 0 when fallback servers are configured'' else None,
        first_error (forward_error is_address) (cc_forwards cl),
        (case cc_pipe_target cl of None \<Rightarrow> None | Some p \<Rightarrow> pipe_error p),
        socks5_error cl]"

definition validate_mode :: "(string \<Rightarrow> bool) \<Rightarrow> Config \<Rightarrow> string option" where
  "validate_mode is_address c =
     (case cf_mode c of
        Mode_Server \<Rightarrow>
          first_failed
            [(cf_server c = None, ''Server configuration is required in server mode''),
             (tx_tcp_port (effective_tox_config c) = 0, ''TCP port cannot be 0'')]
      | Mode_Client \<Rightarrow>
          (case cf_client c of
             None \<Rightarrow> Some ''Client configuration is required in client mode''
           | Some cl \<Rightarrow> validate_client is_address cl))"

definition validate :: "(string \<Rightarrow> bool) \<Rightarrow> Config \<Rightarrow> string option" where
  "validate is_address c =
     first_error id
       [first_error bootstrap_node_error (tx_bootstrap_nodes (effective_tox_config c)),
        validate_metrics (cf_metrics c),
        validate_tox (effective_tox_config c),
        validate_flow (cf_tunnel c) (cf_flow_control c),
        validate_resume (cf_tunnel c),
        validate_mode is_address c]"

section \<open>Command-line overrides\<close>

definition merge_server :: "ConfigServer \<Rightarrow> Config \<Rightarrow> Config" where
  "merge_server ov c =
     (case cf_server c of
        None \<Rightarrow> c
      | Some s \<Rightarrow>
          let t = cf_tox c;
              (s1, t1) = (if cs_tcp_port ov \<noteq> 33445
                          then (s\<lparr>cs_tcp_port := cs_tcp_port ov\<rparr>, t\<lparr>tx_tcp_port := cs_tcp_port ov\<rparr>) else (s, t));
              (s2, t2) = (if \<not> cs_udp_enabled ov
                          then (s1\<lparr>cs_udp_enabled := False\<rparr>, t1\<lparr>tx_udp_enabled := False\<rparr>) else (s1, t1));
              (s3, t3) = (if cs_bootstrap_nodes ov \<noteq> []
                          then (s2\<lparr>cs_bootstrap_nodes := cs_bootstrap_nodes ov\<rparr>, t2\<lparr>tx_bootstrap_nodes := cs_bootstrap_nodes ov\<rparr>)
                          else (s2, t2));
              s4 = (if cs_rules_file ov \<noteq> None then s3\<lparr>cs_rules_file := cs_rules_file ov\<rparr> else s3)
          in c\<lparr>cf_server := Some s4, cf_tox := t3\<rparr>)"

definition merge_client :: "ConfigClient \<Rightarrow> Config \<Rightarrow> Config" where
  "merge_client ov c =
     (case cf_client c of
        None \<Rightarrow> c
      | Some cl \<Rightarrow>
          c\<lparr>cf_client := Some
             \<lparr>cc_server_id = (if cc_server_id ov \<noteq> [] then cc_server_id ov else cc_server_id cl),
              cc_fallback_server_ids = (if cc_fallback_server_ids ov \<noteq> [] then cc_fallback_server_ids ov else cc_fallback_server_ids cl),
              cc_forwards = (if cc_forwards ov \<noteq> [] then cc_forwards ov else cc_forwards cl),
              cc_pipe_target = (if cc_pipe_target ov \<noteq> None then cc_pipe_target ov else cc_pipe_target cl),
              cc_failover = cc_failover cl,
              cc_socks5 = (if cc_socks5 ov \<noteq> default_socks5 then cc_socks5 ov else cc_socks5 cl)\<rparr>\<rparr>)"

definition merge_tox :: "ToxConfig \<Rightarrow> ToxConfig \<Rightarrow> ToxConfig" where
  "merge_tox ov t =
     t\<lparr>tx_udp_enabled := (if \<not> tx_udp_enabled ov then False else tx_udp_enabled t),
       tx_tcp_port := (if tx_tcp_port ov \<noteq> 33445 then tx_tcp_port ov else tx_tcp_port t),
       tx_bootstrap_mode := (if tx_bootstrap_mode ov \<noteq> BM_Auto then tx_bootstrap_mode ov else tx_bootstrap_mode t),
       tx_bootstrap_nodes := (if tx_bootstrap_nodes ov \<noteq> [] then tx_bootstrap_nodes ov else tx_bootstrap_nodes t)\<rparr>"

definition merge_mode :: "Mode \<Rightarrow> Config \<Rightarrow> Config" where
  "merge_mode m c =
     (if m = cf_mode c then c
      else let c1 = c\<lparr>cf_mode := m\<rparr>
           in if m = Mode_Server \<and> cf_server c1 = None
              then c1\<lparr>cf_server := Some default_config_server, cf_client := None\<rparr>
              else if m = Mode_Client \<and> cf_client c1 = None
              then c1\<lparr>cf_client := Some default_config_client, cf_server := None\<rparr>
              else c1)"

definition merge_cli_overrides :: "Config \<Rightarrow> Config \<Rightarrow> Config" where
  "merge_cli_overrides ov c =
     (let c1 = c\<lparr>cf_data_dir := (if cf_data_dir ov \<noteq> [] then cf_data_dir ov else cf_data_dir c),
                 cf_logging := (cf_logging c)\<lparr>lo_file := (if lo_file (cf_logging ov) \<noteq> None then lo_file (cf_logging ov)
                                                         else lo_file (cf_logging c))\<rparr>,
                 cf_tox := merge_tox (cf_tox ov) (cf_tox c)\<rparr>;
          c2 = merge_mode (cf_mode ov) c1;
          c3 = (case cf_server ov of None \<Rightarrow> c2 | Some s \<Rightarrow> merge_server s c2);
          c4 = (case cf_client ov of None \<Rightarrow> c3 | Some cl \<Rightarrow> merge_client cl c3)
      in sync_legacy_server_tox_fields c4)"

section \<open>Hot reload\<close>

text \<open>\<open>data_dir\<close> is a \<open>std::filesystem::path\<close>, and two paths are equal when their elements are: a run of
  separators counts as one, a trailing one leaves an empty last element. The text with every run of
  separators cut to a single one stands for the elements.\<close>

fun path_text :: "string \<Rightarrow> string" where
  "path_text (c # d # cs) = (if c = CHR ''/'' \<and> d = CHR ''/'' then path_text (d # cs) else c # path_text (d # cs))"
| "path_text cs = cs"

definition path_equal :: "string \<Rightarrow> string \<Rightarrow> bool" where
  "path_equal p q \<longleftrightarrow> path_text p = path_text q"

definition field_rejection :: "string \<Rightarrow> string" where
  "field_rejection field_name =
     ''config reload rejected: field '' @ [CHR 0x27] @ field_name @ [CHR 0x27]
     @ '' requires a restart (not in the reloadable subset)''"

text \<open>The gate of a reload: the rejection of the first field that may not change, \<open>None\<close> when the reload
  is accepted.\<close>

definition reload_server :: "ConfigServer \<Rightarrow> ConfigServer \<Rightarrow> string option" where
  "reload_server a b =
     first_failed
       [(cs_tcp_port a \<noteq> cs_tcp_port b, ''server.tcp_port''),
        (cs_udp_enabled a \<noteq> cs_udp_enabled b, ''server.udp_enabled''),
        (cs_bootstrap_nodes a \<noteq> cs_bootstrap_nodes b, ''server.bootstrap_nodes''),
        (cs_disclose a \<noteq> cs_disclose b, ''server.disclose'')]"

definition reload_client :: "ConfigClient \<Rightarrow> ConfigClient \<Rightarrow> string option" where
  "reload_client a b =
     first_failed
       [(cc_server_id a \<noteq> cc_server_id b, ''client.server_id''),
        (cc_fallback_server_ids a \<noteq> cc_fallback_server_ids b, ''client.fallback_server_ids''),
        (cc_failover a \<noteq> cc_failover b, ''client.failover''),
        (cc_pipe_target a \<noteq> cc_pipe_target b, ''client.pipe_target''),
        (cc_socks5 a \<noteq> cc_socks5 b, ''client.socks5'')]"

definition both :: "('a \<Rightarrow> 'a \<Rightarrow> string option) \<Rightarrow> 'a option \<Rightarrow> 'a option \<Rightarrow> string option" where
  "both f x y = (case (x, y) of (Some a, Some b) \<Rightarrow> f a b | _ \<Rightarrow> None)"

definition check_reloadable :: "Config \<Rightarrow> Config \<Rightarrow> string option" where
  "check_reloadable current upcoming =
     map_option field_rejection (first_error id
       [first_failed
         [(cf_mode current \<noteq> cf_mode upcoming, ''mode''),
          (\<not> path_equal (cf_data_dir current) (cf_data_dir upcoming), ''data_dir''),
          (lo_file (cf_logging current) \<noteq> lo_file (cf_logging upcoming), ''logging.file''),
          (cf_service current \<noteq> cf_service upcoming, ''service''),
          (cf_metrics current \<noteq> cf_metrics upcoming, ''metrics''),
          (cf_inspect current \<noteq> cf_inspect upcoming, ''inspect''),
          (cf_tunnel current \<noteq> cf_tunnel upcoming, ''tunnel''),
          (cf_flow_control current \<noteq> cf_flow_control upcoming, ''flow_control''),
          (cf_watchdog current \<noteq> cf_watchdog upcoming, ''watchdog''),
          ((cf_server current = None) \<noteq> (cf_server upcoming = None), ''server'')],
        both reload_server (cf_server current) (cf_server upcoming),
        first_failed
         [(effective_tox_config current \<noteq> effective_tox_config upcoming, ''tox''),
          ((cf_client current = None) \<noteq> (cf_client upcoming = None), ''client'')],
        both reload_client (cf_client current) (cf_client upcoming)])"

section \<open>Properties\<close>

lemma first_error_None: "first_error f xs = None \<longleftrightarrow> (\<forall>x \<in> set xs. f x = None)"
  by (induction xs) (auto split: option.splits)

lemma first_failed_None: "first_failed cs = None \<longleftrightarrow> (\<forall>c \<in> set cs. \<not> fst c)"
  by (induction cs rule: first_failed.induct) auto

lemma duplicate_error_None: "duplicate_error xs = None \<longleftrightarrow> distinct xs"
  by (induction xs) auto

lemmas check_simps = first_error_None first_failed_None duplicate_error_None

text \<open>What a reload may not touch: everything but the log level, the rules file and the forwards, with the
  \<open>tox\<close> block taken after the legacy fallback and the data directory compared as a path.\<close>

definition frozen :: "Config \<Rightarrow> Config" where
  "frozen c =
     c\<lparr>cf_data_dir := path_text (cf_data_dir c), cf_logging := (cf_logging c)\<lparr>lo_level := LL_Info\<rparr>, cf_tox := effective_tox_config c,
       cf_server := map_option (\<lambda>s. s\<lparr>cs_rules_file := None\<rparr>) (cf_server c),
       cf_client := map_option (\<lambda>cl. cl\<lparr>cc_forwards := []\<rparr>) (cf_client c)\<rparr>"

lemma reload_server_iff: "reload_server a b = None \<longleftrightarrow> a\<lparr>cs_rules_file := None\<rparr> = b\<lparr>cs_rules_file := None\<rparr>"
  by (cases a; cases b) (auto simp: reload_server_def check_simps)

lemma reload_client_iff: "reload_client a b = None \<longleftrightarrow> a\<lparr>cc_forwards := []\<rparr> = b\<lparr>cc_forwards := []\<rparr>"
  by (cases a; cases b) (auto simp: reload_client_def check_simps)

lemma both_iff:
  assumes "(x = None) = (y = None)" "\<And>a b. f a b = None \<longleftrightarrow> g a = g b"
  shows "both f x y = None \<longleftrightarrow> map_option g x = map_option g y"
  using assms by (cases x; cases y) (auto simp: both_def)

lemma both_server:
  "(x = None) = (y = None) \<and> both reload_server x y = None
   \<longleftrightarrow> map_option (\<lambda>s. s\<lparr>cs_rules_file := None\<rparr>) x = map_option (\<lambda>s. s\<lparr>cs_rules_file := None\<rparr>) y"
  using both_iff [of x y reload_server "\<lambda>s. s\<lparr>cs_rules_file := None\<rparr>", OF _ reload_server_iff]
  by (cases x; cases y) auto

lemma both_client:
  "(x = None) = (y = None) \<and> both reload_client x y = None
   \<longleftrightarrow> map_option (\<lambda>s. s\<lparr>cc_forwards := []\<rparr>) x = map_option (\<lambda>s. s\<lparr>cc_forwards := []\<rparr>) y"
  using both_iff [of x y reload_client "\<lambda>s. s\<lparr>cc_forwards := []\<rparr>", OF _ reload_client_iff]
  by (cases x; cases y) auto

lemma logging_iff:
  "(l\<lparr>lo_level := LL_Info\<rparr> = k\<lparr>lo_level := LL_Info\<rparr>) \<longleftrightarrow> lo_file l = lo_file (k :: LoggingConfig)"
  by (cases l; cases k) auto

lemma config_eq_iff:
  "(c :: Config) = d \<longleftrightarrow>
     cf_mode c = cf_mode d \<and> cf_data_dir c = cf_data_dir d \<and> cf_logging c = cf_logging d \<and> cf_service c = cf_service d
     \<and> cf_tox c = cf_tox d \<and> cf_metrics c = cf_metrics d \<and> cf_inspect c = cf_inspect d \<and> cf_tunnel c = cf_tunnel d
     \<and> cf_flow_control c = cf_flow_control d \<and> cf_watchdog c = cf_watchdog d \<and> cf_server c = cf_server d
     \<and> cf_client c = cf_client d"
  by (cases c; cases d) auto

text \<open>Claim C30: a reload is accepted exactly when nothing outside the reloadable subset changes: the two
  configurations agree on everything but the log level, the rules file and the forwards, where the
  \<open>tox\<close> blocks are compared after the legacy fallback and the data directories as paths.\<close>

theorem reload_exactly_subset: "check_reloadable c d = None \<longleftrightarrow> frozen c = frozen d"
proof -
  have "check_reloadable c d = None \<longleftrightarrow>
      cf_mode c = cf_mode d \<and> path_text (cf_data_dir c) = path_text (cf_data_dir d) \<and> lo_file (cf_logging c) = lo_file (cf_logging d)
      \<and> cf_service c = cf_service d \<and> cf_metrics c = cf_metrics d \<and> cf_inspect c = cf_inspect d \<and> cf_tunnel c = cf_tunnel d
      \<and> cf_flow_control c = cf_flow_control d \<and> cf_watchdog c = cf_watchdog d
      \<and> ((cf_server c = None) = (cf_server d = None) \<and> both reload_server (cf_server c) (cf_server d) = None)
      \<and> effective_tox_config c = effective_tox_config d
      \<and> ((cf_client c = None) = (cf_client d = None) \<and> both reload_client (cf_client c) (cf_client d) = None)"
    unfolding check_reloadable_def path_equal_def option.map_disc_iff first_error_None
    by (auto simp: first_failed_None simp del: first_failed.simps)
  also have "\<dots> \<longleftrightarrow> frozen c = frozen d"
    unfolding both_server both_client config_eq_iff [of "frozen c"] by (auto simp: frozen_def logging_iff)
  finally show ?thesis .
qed

text \<open>The listeners of a list of forwards, as the sockets see them.\<close>

definition forward_key :: "ForwardRule \<Rightarrow> string \<times> u16 \<times> string \<times> u16" where
  "forward_key r = (effective_local_address r, fw_local_port r, fw_remote_host r, fw_remote_port r)"

definition forward_keys :: "ForwardRule list \<Rightarrow> (string \<times> u16 \<times> string \<times> u16) set" where
  "forward_keys rs = forward_key ` set rs"

text \<open>The forwards that serve after a diff was applied.\<close>

definition apply_forward_diff :: "ForwardDiff \<Rightarrow> ForwardRule list \<Rightarrow> ForwardRule list" where
  "apply_forward_diff d rs = filter (\<lambda>r. \<not> list_ex (same_forward r) (fd_removed d)) rs @ fd_added d"

lemma same_forward_key: "same_forward a b \<longleftrightarrow> forward_key a = forward_key b"
  by (auto simp: same_forward_def forward_key_def)

lemma list_ex_key: "list_ex (same_forward r) rs \<longleftrightarrow> forward_key r \<in> forward_keys rs"
  by (auto simp: list_ex_iff same_forward_key forward_keys_def)

text \<open>Claim C31: the diff of the forwards is exact. Stopping the removed listeners and starting the added ones
  leaves exactly the listeners of the new configuration, no listener that stays is stopped or started, and the
  diff is empty exactly when both lists name the same listeners, in any order and with the default address
  written down or not.\<close>

theorem forward_diff_exact:
  "forward_keys (apply_forward_diff (diff_forwards rs rs') rs) = forward_keys rs'
   \<and> forward_keys (fd_added (diff_forwards rs rs')) = forward_keys rs' - forward_keys rs
   \<and> forward_keys (fd_removed (diff_forwards rs rs')) = forward_keys rs - forward_keys rs'
   \<and> (diff_forwards rs rs' = \<lparr>fd_added = [], fd_removed = []\<rparr> \<longleftrightarrow> forward_keys rs = forward_keys rs')"
proof -
  have filt: "forward_keys (filter (\<lambda>r. \<not> list_ex (same_forward r) ys) xs) = forward_keys xs - forward_keys ys" for xs ys
    unfolding list_ex_key by (auto simp: forward_keys_def) (metis image_eqI)
  have app: "forward_keys (xs @ ys) = forward_keys xs \<union> forward_keys ys" for xs ys
    by (auto simp: forward_keys_def)
  have emp: "filter (\<lambda>r. \<not> list_ex (same_forward r) ys) xs = [] \<longleftrightarrow> forward_keys xs \<subseteq> forward_keys ys" for xs ys
    unfolding list_ex_key filter_empty_conv by (auto simp: forward_keys_def)
  have "forward_keys (fd_added (diff_forwards rs rs')) = forward_keys rs' - forward_keys rs"
    "forward_keys (fd_removed (diff_forwards rs rs')) = forward_keys rs - forward_keys rs'"
    by (simp_all add: diff_forwards_def filt)
  moreover from this have "forward_keys (apply_forward_diff (diff_forwards rs rs') rs) = forward_keys rs'"
    by (auto simp: apply_forward_diff_def app filt)
  moreover have "diff_forwards rs rs' = \<lparr>fd_added = [], fd_removed = []\<rparr> \<longleftrightarrow> forward_keys rs = forward_keys rs'"
    by (auto simp: diff_forwards_def emp)
  ultimately show ?thesis by blast
qed

text \<open>What a validated client can rely on.\<close>

lemma validate_client_None:
  "validate_client ia cl = None \<longleftrightarrow>
     cc_server_id cl \<noteq> [] \<and> server_id_error ''Server ID'' ''Invalid server Tox ID: '' (cc_server_id cl) = None
     \<and> (\<forall>fb \<in> set (cc_fallback_server_ids cl). fallback_error (cc_server_id cl) fb = None)
     \<and> distinct (cc_fallback_server_ids cl)
     \<and> (cc_fallback_server_ids cl \<noteq> [] \<longrightarrow> fo_timeout_seconds (cc_failover cl) \<noteq> 0)
     \<and> (\<forall>r \<in> set (cc_forwards cl). forward_error ia r = None)
     \<and> (case cc_pipe_target cl of None \<Rightarrow> True | Some p \<Rightarrow> pipe_error p = None) \<and> socks5_error cl = None"
  unfolding validate_client_def first_error_None
  by (auto simp: first_error_None duplicate_error_None simp del: first_error.simps duplicate_error.simps split: option.splits)

lemma socks5_error_fallbacks [simp]: "socks5_error (cl\<lparr>cc_fallback_server_ids := fbs\<rparr>) = socks5_error cl"
  by (simp add: socks5_error_def cong: option.case_cong)

lemma server_id_error_None: "server_id_error w e i = None \<longleftrightarrow> (\<exists>t. id_from_hex i = Inr t)"
  by (auto simp: server_id_error_def id_from_hex_def split: sum.splits if_splits option.splits)

lemma id_from_hex_upper: "str_upper a = str_upper b \<Longrightarrow> id_from_hex a = Inr t \<longleftrightarrow> id_from_hex b = Inr t"
  by (simp add: id_from_hex_iff)

text \<open>Claim C37: validation does not see that two spellings of an identifier name one server. Tox identifiers
  are read without regard to letter case, but the duplicates of the fallback list are found by comparing
  the texts, so the primary server with its letters in the other case is accepted as a fallback of itself.\<close>

theorem respelled_primary_accepted:
  assumes "validate ia c = None" "cf_mode c = Mode_Client" "cf_client c = Some cl"
    and "str_upper fb = str_upper (cc_server_id cl)" "fb \<noteq> cc_server_id cl" "fb \<notin> set (cc_fallback_server_ids cl)"
    and "fo_timeout_seconds (cc_failover cl) \<noteq> 0"
  shows "validate ia (c\<lparr>cf_client := Some (cl\<lparr>cc_fallback_server_ids := cc_fallback_server_ids cl @ [fb]\<rparr>)\<rparr>) = None
    \<and> id_from_hex fb = id_from_hex (cc_server_id cl)"
proof -
  let ?cl = "cl\<lparr>cc_fallback_server_ids := cc_fallback_server_ids cl @ [fb]\<rparr>"
  have cl: "validate_client ia cl = None"
    using assms(1-3) by (simp add: validate_def validate_mode_def first_error_None del: first_error.simps)
  then obtain t where t: "id_from_hex (cc_server_id cl) = Inr t"
    by (auto simp: validate_client_None server_id_error_None)
  then have fb: "id_from_hex fb = Inr t" using id_from_hex_upper [OF assms(4)] by blast
  have "fb \<noteq> []" using assms(4,5) by auto
  then have "fallback_error (cc_server_id cl) fb = None"
    using fb assms(5) server_id_error_None [of "''Fallback server ID''" "''Invalid fallback server Tox ID: ''" fb]
    by (simp add: fallback_error_def)
  then have "validate_client ia ?cl = None"
    using cl assms(6,7) by (auto simp: validate_client_None)
  then have "validate ia (c\<lparr>cf_client := Some ?cl\<rparr>) = None"
    using assms(1,2) by (simp add: validate_def validate_mode_def first_error_None effective_tox_config_def
        del: first_error.simps split: Mode.splits)
  then show ?thesis using t fb by simp
qed

definition ex_tox_id :: ToxId where
  "ex_tox_id = \<lparr>ti_bytes = replicate 36 170 @ [0, 0]\<rparr>"

definition ex_client :: Config where
  "ex_client = (default_client ''/d'')\<lparr>cf_client := Some (default_config_client\<lparr>cc_server_id := id_to_hex ex_tox_id\<rparr>)\<rparr>"

lemma ex_id: "id_from_hex (id_to_hex ex_tox_id) = Inr ex_tox_id" "hd (id_to_hex ex_tox_id) = CHR ''A''"
proof -
  have "is_checksum_valid ex_tox_id" by code_simp
  moreover have "length (ti_bytes ex_tox_id) = kToxIdBytes" by code_simp
  moreover have "str_upper (id_to_hex ex_tox_id) = id_to_hex ex_tox_id" by code_simp
  ultimately show "id_from_hex (id_to_hex ex_tox_id) = Inr ex_tox_id" by (simp add: id_from_hex_iff)
  show "hd (id_to_hex ex_tox_id) = CHR ''A''" by code_simp
qed

lemma ex_client_valid: "validate (\<lambda>_. True) ex_client = None"
proof -
  have ne: "id_to_hex ex_tox_id \<noteq> []" by code_simp
  have "parse_coalesce_mode ''fixed'' \<noteq> None" "parse_flow_control_mode ''bdp'' \<noteq> None" by code_simp+
  then have "validate_flow default_tunnel default_flow_control = None"
    by (simp add: validate_flow_def default_tunnel_def default_flow_control_def)
  moreover have "validate_client (\<lambda>_. True) (default_config_client\<lparr>cc_server_id := id_to_hex ex_tox_id\<rparr>) = None"
    using ne by (simp add: validate_client_None server_id_error_None ex_id default_config_client_def socks5_error_def
        default_socks5_def)
  ultimately show ?thesis
    by (simp add: validate_def ex_client_def default_client_def default_config_def validate_metrics_def default_metrics_def
        validate_tox_def default_tox_def default_proxy_def effective_tox_config_def validate_resume_def default_tunnel_def
        default_resume_def validate_mode_def)
qed

theorem respelled_primary_accepted_witness:
  "validate (\<lambda>_. True) (ex_client\<lparr>cf_client := Some (default_config_client\<lparr>cc_server_id := id_to_hex ex_tox_id,
     cc_fallback_server_ids := [str_lower (id_to_hex ex_tox_id)]\<rparr>)\<rparr>) = None"
proof -
  let ?cl = "default_config_client\<lparr>cc_server_id := id_to_hex ex_tox_id\<rparr>"
  have ne: "id_to_hex ex_tox_id \<noteq> []" by code_simp
  have up: "str_upper (str_lower (id_to_hex ex_tox_id)) = str_upper (id_to_hex ex_tox_id)" by (simp add: comp_def)
  have hd: "hd (str_lower (id_to_hex ex_tox_id)) = CHR ''a''"
    using ex_id(2) ne by (simp add: hd_map tolower_def char_eval)
  have diff: "str_lower (id_to_hex ex_tox_id) \<noteq> id_to_hex ex_tox_id"
  proof
    assume "str_lower (id_to_hex ex_tox_id) = id_to_hex ex_tox_id"
    then show False using hd ex_id(2) by simp
  qed
  have "validate (\<lambda>_. True) (ex_client\<lparr>cf_client := Some (?cl\<lparr>cc_fallback_server_ids := cc_fallback_server_ids ?cl
      @ [str_lower (id_to_hex ex_tox_id)]\<rparr>)\<rparr>) = None"
    by (rule respelled_primary_accepted [OF ex_client_valid, THEN conjunct1])
       (simp_all add: ex_client_def default_client_def default_config_client_def default_failover_def diff up comp_def)
  then show ?thesis by (simp add: default_config_client_def)
qed

end
