(* ===== verification/Yaml_Nodes.thy ===== *)
theory Yaml_Nodes
  imports Text_Util "HOL-Library.Monad_Syntax"
begin

text \<open>
  The nodes of the yaml-cpp library, which the configuration and the registry of known servers read and write.
  The library is a parameter: a record of the operations the code uses, of which the locale \<open>yaml_library\<close>
  states the documented laws (what was put under a key or converted to a scalar comes back). \<open>None\<close>
  stands for a \<open>YAML::Exception\<close> or a decoder that answers false. The theory also holds the idioms in which fields are
  read and written, and a library of nodes that satisfies the laws.
\<close>

section \<open>The library\<close>

record 'n yaml_lib =
  n_is_map :: "'n \<Rightarrow> bool"
  n_is_seq :: "'n \<Rightarrow> bool"
  n_is_scalar :: "'n \<Rightarrow> bool"
  n_is_null :: "'n \<Rightarrow> bool"
  n_get :: "'n \<Rightarrow> string \<Rightarrow> 'n option"        \<comment> \<open>\<open>node[key]\<close>, \<open>None\<close> when it is not defined\<close>
  n_elems :: "'n \<Rightarrow> 'n list"
  n_string :: "'n \<Rightarrow> string option"             \<comment> \<open>\<open>as<std::string>()\<close> and the other conversions\<close>
  n_bool :: "'n \<Rightarrow> bool option"
  n_u16 :: "'n \<Rightarrow> u16 option"
  n_u32 :: "'n \<Rightarrow> u32 option"
  n_u64 :: "'n \<Rightarrow> u64 option"
  n_map :: "(string \<times> 'n) list \<Rightarrow> 'n"         \<comment> \<open>\<open>node[key] = value\<close> for every pair\<close>
  n_seq :: "'n list \<Rightarrow> 'n"
  n_of_string :: "string \<Rightarrow> 'n"
  n_of_bool :: "bool \<Rightarrow> 'n"
  n_of_u16 :: "u16 \<Rightarrow> 'n"
  n_of_u32 :: "u32 \<Rightarrow> 'n"
  n_of_u64 :: "u64 \<Rightarrow> 'n"

locale yaml_library =
  fixes y :: "'n yaml_lib"
  assumes map_kind: "n_is_map y (n_map y kvs)" "\<not> n_is_scalar y (n_map y kvs)" "\<not> n_is_seq y (n_map y kvs)"
    and seq_kind: "n_is_seq y (n_seq y ns)" "\<not> n_is_map y (n_seq y ns)"
    and string_kind: "n_is_scalar y (n_of_string y s)" "\<not> n_is_seq y (n_of_string y s)" "\<not> n_is_map y (n_of_string y s)"
    and get_map: "distinct (map fst kvs) \<Longrightarrow> n_get y (n_map y kvs) k = map_of kvs k"
    and elems_seq: "n_elems y (n_seq y ns) = ns"
    and conversions: "n_string y (n_of_string y s) = Some s" "n_bool y (n_of_bool y b) = Some b"
      "n_u16 y (n_of_u16 y p) = Some p" "n_u32 y (n_of_u32 y v) = Some v"
      "n_u64 y (n_of_u64 y x) = Some x"

section \<open>Reading and writing of fields\<close>

text \<open>\<open>if (node[key]) field = node[key].as<T>();\<close>, and the sequence conversions.\<close>

definition yfield :: "'n yaml_lib \<Rightarrow> ('n \<Rightarrow> 'a option) \<Rightarrow> 'n \<Rightarrow> string \<Rightarrow> 'a \<Rightarrow> 'a option" where
  "yfield y conv n key d = (case n_get y n key of None \<Rightarrow> Some d | Some m \<Rightarrow> conv m)"

definition yrequired :: "'n yaml_lib \<Rightarrow> ('n \<Rightarrow> 'a option) \<Rightarrow> 'n \<Rightarrow> string \<Rightarrow> 'a option" where
  "yrequired y conv n key = Option.bind (n_get y n key) conv"

definition yoptional :: "'n yaml_lib \<Rightarrow> ('n \<Rightarrow> 'a option) \<Rightarrow> 'n \<Rightarrow> string \<Rightarrow> 'a option \<Rightarrow> 'a option option" where
  "yoptional y conv n key d = (case n_get y n key of None \<Rightarrow> Some d | Some m \<Rightarrow> map_option Some (conv m))"

primrec convert_all :: "('n \<Rightarrow> 'a option) \<Rightarrow> 'n list \<Rightarrow> 'a list option" where
  "convert_all conv [] = Some []"
| "convert_all conv (n # ns) = do { x \<leftarrow> conv n; xs \<leftarrow> convert_all conv ns; Some (x # xs) }"

definition yvector :: "'n yaml_lib \<Rightarrow> ('n \<Rightarrow> 'a option) \<Rightarrow> 'n \<Rightarrow> 'a list option" where
  "yvector y conv n = (if n_is_seq y n then convert_all conv (n_elems y n) else None)"

definition yopt :: "string \<Rightarrow> ('a \<Rightarrow> 'n) \<Rightarrow> 'a option \<Rightarrow> (string \<times> 'n) list" where
  "yopt key f x = (case x of None \<Rightarrow> [] | Some v \<Rightarrow> [(key, f v)])"

definition ywhen :: "bool \<Rightarrow> string \<Rightarrow> 'n \<Rightarrow> (string \<times> 'n) list" where
  "ywhen b key n = (if b then [(key, n)] else [])"

section \<open>What was written is read back\<close>

lemma map_of_when [simp]: "map_of (ywhen b k n @ r) j = (if b \<and> j = k then Some n else map_of r j)"
  "map_of (ywhen b k n) j = (if b \<and> j = k then Some n else None)"
  by (auto simp: ywhen_def)

lemma map_of_opt [simp]: "map_of (yopt k f x @ r) j = (if x \<noteq> None \<and> j = k then Some (f (the x)) else map_of r j)"
  "map_of (yopt k f x) j = (if x \<noteq> None \<and> j = k then Some (f (the x)) else None)"
  by (auto simp: yopt_def split: option.splits)

lemma keys_when [simp]: "map fst (ywhen b k n) = (if b then [k] else [])"
  by (auto simp: ywhen_def)

lemma keys_opt [simp]: "map fst (yopt k f x) = (if x \<noteq> None then [k] else [])"
  by (auto simp: yopt_def split: option.splits)

lemma written_when [simp]: "(if x \<noteq> d then Some x else Some d) = Some x" "(if x = d then Some d else Some x) = Some x"
  by auto

lemma convert_all_map:
  "(\<And>x. x \<in> set xs \<Longrightarrow> conv (f x) = Some x) \<Longrightarrow> convert_all conv (map f xs) = Some xs"
  by (induction xs) auto

context yaml_library
begin

lemma field_map:
  "distinct (map fst kvs) \<Longrightarrow> yfield y conv (n_map y kvs) k d = (case map_of kvs k of None \<Rightarrow> Some d | Some m \<Rightarrow> conv m)"
  "distinct (map fst kvs) \<Longrightarrow> yrequired y conv (n_map y kvs) k = Option.bind (map_of kvs k) conv"
  "distinct (map fst kvs) \<Longrightarrow> yoptional y conv (n_map y kvs) k d'
     = (case map_of kvs k of None \<Rightarrow> Some d' | Some m \<Rightarrow> map_option Some (conv m))"
  by (simp_all add: yfield_def yrequired_def yoptional_def get_map)

lemma optional_back:
  assumes "distinct (map fst kvs)" "map_of kvs k = (if x \<noteq> None then Some (f (the x)) else None)" "\<And>v. conv (f v) = Some v"
  shows "yoptional y conv (n_map y kvs) k None = Some x"
  using assms by (cases x) (simp_all add: field_map)

lemma vector_seq:
  "(\<And>x. conv (f x) = Some x) \<Longrightarrow> yvector y conv (n_seq y (map f xs)) = Some xs"
  by (simp add: yvector_def seq_kind elems_seq convert_all_map)

lemmas yaml_simps = field_map get_map map_kind seq_kind string_kind elems_seq conversions

end

section \<open>A library of nodes\<close>

datatype ynode = YNull | YScalar string | YSeq "ynode list" | YMap "(string \<times> ynode) list"

definition node_number :: "nat \<Rightarrow> ynode \<Rightarrow> nat option" where
  "node_number hi n = (case n of YScalar s \<Rightarrow> from_chars_nat hi s | _ \<Rightarrow> None)"

definition node_lib :: "ynode yaml_lib" where
  "node_lib =
     \<lparr>n_is_map = (\<lambda>n. case n of YMap _ \<Rightarrow> True | _ \<Rightarrow> False),
      n_is_seq = (\<lambda>n. case n of YSeq _ \<Rightarrow> True | _ \<Rightarrow> False),
      n_is_scalar = (\<lambda>n. case n of YScalar _ \<Rightarrow> True | _ \<Rightarrow> False),
      n_is_null = (\<lambda>n. case n of YNull \<Rightarrow> True | _ \<Rightarrow> False),
      n_get = (\<lambda>n k. case n of YMap kvs \<Rightarrow> map_of kvs k | _ \<Rightarrow> None),
      n_elems = (\<lambda>n. case n of YSeq ns \<Rightarrow> ns | _ \<Rightarrow> []),
      n_string = (\<lambda>n. case n of YScalar s \<Rightarrow> Some s | _ \<Rightarrow> None),
      n_bool = (\<lambda>n. case n of YScalar s \<Rightarrow> if s = ''true'' then Some True else if s = ''false'' then Some False else None | _ \<Rightarrow> None),
      n_u16 = (\<lambda>n. map_option of_nat (node_number 65535 n)),
      n_u32 = (\<lambda>n. map_option of_nat (node_number 4294967295 n)),
      n_u64 = (\<lambda>n. map_option of_nat (node_number 18446744073709551615 n)),
      n_map = YMap, n_seq = YSeq, n_of_string = YScalar,
      n_of_bool = (\<lambda>b. YScalar (if b then ''true'' else ''false'')),
      n_of_u16 = (\<lambda>p. YScalar (to_string_nat (unat p))),
      n_of_u32 = (\<lambda>v. YScalar (to_string_nat (unat v))),
      n_of_u64 = (\<lambda>v. YScalar (to_string_nat (unat v)))\<rparr>"

lemma node_number_back: "n \<le> hi \<Longrightarrow> node_number hi (YScalar (to_string_nat n)) = Some n"
  by (simp add: node_number_def from_chars_to_string)

interpretation nodes: yaml_library node_lib
proof
  fix p :: u16 and v :: u32 and x :: u64
  have "unat p \<le> 65535" "unat v \<le> 4294967295" "unat x \<le> 18446744073709551615"
    using unsigned_less [of p, where 'a = nat] unsigned_less [of v, where 'a = nat] unsigned_less [of x, where 'a = nat]
    by simp_all
  then show "n_u16 node_lib (n_of_u16 node_lib p) = Some p" "n_u32 node_lib (n_of_u32 node_lib v) = Some v"
    "n_u64 node_lib (n_of_u64 node_lib x) = Some x"
    by (simp_all add: node_lib_def node_number_back)
qed (simp_all add: node_lib_def)

end
