(* ===== verification/Config_Yaml.thy ===== *)
theory Config_Yaml
  imports Configuration Yaml_Nodes
begin

text \<open>
  The YAML form of the configuration (the \<open>YAML::convert\<close> specialisations of \<open>src/util/config.cpp\<close>): every
  structure is written to a node of the library of \<open>Yaml_Nodes\<close> and read back. \<open>None\<close> ends in the error of
  \<open>from_string\<close>.
\<close>

section \<open>Enumerations\<close>

definition encode_config_mode :: "'n yaml_lib \<Rightarrow> Mode \<Rightarrow> 'n" where
  "encode_config_mode y m = n_of_string y (case m of Mode_Server \<Rightarrow> ''server'' | Mode_Client \<Rightarrow> ''client'')"

definition decode_config_mode :: "'n yaml_lib \<Rightarrow> 'n \<Rightarrow> Mode option" where
  "decode_config_mode y n =
     (if \<not> n_is_scalar y n then None
      else do { s \<leftarrow> n_string y n;
                if s = ''server'' then Some Mode_Server else if s = ''client'' then Some Mode_Client else None })"

definition log_level_text :: "LogLevel \<Rightarrow> string" where
  "log_level_text l = (case l of LL_Trace \<Rightarrow> ''trace'' | LL_Debug \<Rightarrow> ''debug'' | LL_Info \<Rightarrow> ''info'' | LL_Warn \<Rightarrow> ''warn''
     | LL_Error \<Rightarrow> ''error'' | LL_Critical \<Rightarrow> ''critical'' | LL_Off \<Rightarrow> ''off'')"

definition decode_log_level :: "'n yaml_lib \<Rightarrow> 'n \<Rightarrow> LogLevel option" where
  "decode_log_level y n =
     (if \<not> n_is_scalar y n then None
      else do { t \<leftarrow> n_string y n;
                let s = str_lower t;
                if s = ''trace'' then Some LL_Trace else if s = ''debug'' then Some LL_Debug
                else if s = ''info'' then Some LL_Info else if s = ''warn'' \<or> s = ''warning'' then Some LL_Warn
                else if s = ''error'' then Some LL_Error else if s = ''critical'' then Some LL_Critical
                else if s = ''off'' then Some LL_Off else None })"

definition bootstrap_mode_to_string :: "BootstrapMode \<Rightarrow> string" where
  "bootstrap_mode_to_string m = (case m of BM_Auto \<Rightarrow> ''auto'' | BM_Lan \<Rightarrow> ''lan'')"

definition decode_bootstrap_mode :: "'n yaml_lib \<Rightarrow> 'n \<Rightarrow> BootstrapMode option" where
  "decode_bootstrap_mode y n =
     (if \<not> n_is_scalar y n then None
      else do { t \<leftarrow> n_string y n;
                if str_lower t = ''auto'' then Some BM_Auto else if str_lower t = ''lan'' then Some BM_Lan else None })"

definition decode_proxy_type :: "'n yaml_lib \<Rightarrow> 'n \<Rightarrow> ToxProxyType option" where
  "decode_proxy_type y n =
     do { s \<leftarrow> n_string y n;
          if s = ''none'' then Some PX_None else if s = ''http'' then Some PX_Http
          else if s = ''socks5'' then Some PX_Socks5 else None }"

section \<open>Structures\<close>

definition encode_pipe :: "'n yaml_lib \<Rightarrow> PipeTarget \<Rightarrow> 'n" where
  "encode_pipe y p = n_map y [(''remote_host'', n_of_string y (pt_remote_host p)), (''remote_port'', n_of_u16 y (pt_remote_port p))]"

definition decode_pipe :: "'n yaml_lib \<Rightarrow> 'n \<Rightarrow> PipeTarget option" where
  "decode_pipe y n =
     (if n_is_scalar y n
      then do { s \<leftarrow> n_string y n; (case parse_pipe_target s of Inl _ \<Rightarrow> None | Inr p \<Rightarrow> Some p) }
      else if \<not> n_is_map y n then None
      else do { h \<leftarrow> yrequired y (n_string y) n ''remote_host''; p \<leftarrow> yrequired y (n_u16 y) n ''remote_port'';
                Some \<lparr>pt_remote_host = h, pt_remote_port = p\<rparr> })"

definition encode_forward :: "'n yaml_lib \<Rightarrow> ForwardRule \<Rightarrow> 'n" where
  "encode_forward y r =
     n_map y ([(''local_port'', n_of_u16 y (fw_local_port r)), (''remote_host'', n_of_string y (fw_remote_host r)),
               (''remote_port'', n_of_u16 y (fw_remote_port r))]
              @ yopt ''local_address'' (n_of_string y) (fw_local_address r))"

definition decode_forward :: "'n yaml_lib \<Rightarrow> 'n \<Rightarrow> ForwardRule option" where
  "decode_forward y n =
     (if \<not> n_is_map y n then None
      else do { lp \<leftarrow> yrequired y (n_u16 y) n ''local_port''; h \<leftarrow> yrequired y (n_string y) n ''remote_host'';
                rp \<leftarrow> yrequired y (n_u16 y) n ''remote_port''; a \<leftarrow> yoptional y (n_string y) n ''local_address'' None;
                Some \<lparr>fw_local_port = lp, fw_remote_host = h, fw_remote_port = rp, fw_local_address = a\<rparr> })"

definition encode_bootstrap :: "'n yaml_lib \<Rightarrow> BootstrapNodeConfig \<Rightarrow> 'n" where
  "encode_bootstrap y b =
     n_map y [(''address'', n_of_string y (bn_address b)), (''port'', n_of_u16 y (bn_port b)),
              (''public_key'', n_of_string y (bn_public_key b))]"

definition decode_bootstrap :: "'n yaml_lib \<Rightarrow> 'n \<Rightarrow> BootstrapNodeConfig option" where
  "decode_bootstrap y n =
     (if \<not> n_is_map y n then None
      else do { a \<leftarrow> yrequired y (n_string y) n ''address''; p \<leftarrow> yfield y (n_u16 y) n ''port'' 33445;
                k \<leftarrow> yrequired y (n_string y) n ''public_key'';
                Some \<lparr>bn_address = a, bn_port = p, bn_public_key = k\<rparr> })"

definition encode_proxy :: "'n yaml_lib \<Rightarrow> ToxProxyConfig \<Rightarrow> 'n" where
  "encode_proxy y p =
     n_map y [(''type'', n_of_string y (if px_type p = PX_Http then ''http'' else ''socks5'')),
              (''host'', n_of_string y (px_host p)), (''port'', n_of_u16 y (px_port p))]"

definition decode_proxy :: "'n yaml_lib \<Rightarrow> 'n \<Rightarrow> ToxProxyConfig option" where
  "decode_proxy y n =
     (if \<not> n_is_map y n then None
      else do { t \<leftarrow> yfield y (decode_proxy_type y) n ''type'' PX_None; h \<leftarrow> yfield y (n_string y) n ''host'' [];
                p \<leftarrow> yfield y (n_u16 y) n ''port'' 0;
                Some \<lparr>px_type = t, px_host = h, px_port = p\<rparr> })"

definition encode_tox :: "'n yaml_lib \<Rightarrow> ToxConfig \<Rightarrow> 'n" where
  "encode_tox y t =
     n_map y ([(''udp_enabled'', n_of_bool y (tx_udp_enabled t)), (''ipv6_enabled'', n_of_bool y (tx_ipv6_enabled t))]
              @ ywhen (tx_udp_port t \<noteq> 0) ''udp_port'' (n_of_u16 y (tx_udp_port t))
              @ [(''tcp_port'', n_of_u16 y (tx_tcp_port t)),
                 (''bootstrap_mode'', n_of_string y (bootstrap_mode_to_string (tx_bootstrap_mode t)))]
              @ ywhen (tx_bootstrap_nodes t \<noteq> []) ''bootstrap_nodes'' (n_seq y (map (encode_bootstrap y) (tx_bootstrap_nodes t)))
              @ ywhen (px_type (tx_proxy t) \<noteq> PX_None) ''proxy'' (encode_proxy y (tx_proxy t)))"

definition decode_tox :: "'n yaml_lib \<Rightarrow> 'n \<Rightarrow> ToxConfig option" where
  "decode_tox y n =
     (if \<not> n_is_map y n then None
      else do { u \<leftarrow> yfield y (n_bool y) n ''udp_enabled'' True; i \<leftarrow> yfield y (n_bool y) n ''ipv6_enabled'' True;
                up \<leftarrow> yfield y (n_u16 y) n ''udp_port'' 0; tp \<leftarrow> yfield y (n_u16 y) n ''tcp_port'' 33445;
                bm \<leftarrow> yfield y (decode_bootstrap_mode y) n ''bootstrap_mode'' BM_Auto;
                bs \<leftarrow> yfield y (yvector y (decode_bootstrap y)) n ''bootstrap_nodes'' [];
                px \<leftarrow> yfield y (decode_proxy y) n ''proxy'' default_proxy;
                Some \<lparr>tx_udp_enabled = u, tx_ipv6_enabled = i, tx_udp_port = up, tx_tcp_port = tp, tx_bootstrap_mode = bm,
                      tx_bootstrap_nodes = bs, tx_proxy = px\<rparr> })"

definition encode_logging :: "'n yaml_lib \<Rightarrow> LoggingConfig \<Rightarrow> 'n" where
  "encode_logging y l = n_map y ((''level'', n_of_string y (log_level_text (lo_level l))) # yopt ''file'' (n_of_string y) (lo_file l))"

definition decode_logging :: "'n yaml_lib \<Rightarrow> string \<Rightarrow> 'n \<Rightarrow> LoggingConfig option" where
  "decode_logging y home n =
     (if \<not> n_is_map y n
      then if n_is_scalar y n then map_option (\<lambda>l. default_logging\<lparr>lo_level := l\<rparr>) (decode_log_level y n) else None
      else do { l \<leftarrow> yfield y (decode_log_level y) n ''level'' LL_Info; f \<leftarrow> yoptional y (n_string y) n ''file'' None;
                Some \<lparr>lo_level = l, lo_file = map_option (expand_user_path home) f\<rparr> })"

definition encode_service :: "'n yaml_lib \<Rightarrow> ServiceConfig \<Rightarrow> 'n" where
  "encode_service y s =
     n_map y [(''auto_start'', n_of_bool y (sv_auto_start s)), (''allow_client_daemon'', n_of_bool y (sv_allow_client_daemon s))]"

definition decode_service :: "'n yaml_lib \<Rightarrow> 'n \<Rightarrow> ServiceConfig option" where
  "decode_service y n =
     (if \<not> n_is_map y n then None
      else do { a \<leftarrow> yfield y (n_bool y) n ''auto_start'' True; b \<leftarrow> yfield y (n_bool y) n ''allow_client_daemon'' False;
                Some \<lparr>sv_auto_start = a, sv_allow_client_daemon = b\<rparr> })"

definition encode_metrics :: "'n yaml_lib \<Rightarrow> MetricsConfig \<Rightarrow> 'n" where
  "encode_metrics y m =
     n_map y [(''enabled'', n_of_bool y (mt_enabled m)), (''listen'', n_of_string y (mt_listen m)), (''path'', n_of_string y (mt_path m))]"

definition decode_metrics :: "'n yaml_lib \<Rightarrow> 'n \<Rightarrow> MetricsConfig option" where
  "decode_metrics y n =
     (if n_is_scalar y n then map_option (\<lambda>b. default_metrics\<lparr>mt_enabled := b\<rparr>) (n_bool y n)
      else if \<not> n_is_map y n then None
      else do { e \<leftarrow> yfield y (n_bool y) n ''enabled'' False; l \<leftarrow> yfield y (n_string y) n ''listen'' (mt_listen default_metrics);
                p \<leftarrow> yfield y (n_string y) n ''path'' (mt_path default_metrics);
                Some \<lparr>mt_enabled = e, mt_listen = l, mt_path = p\<rparr> })"

definition encode_inspect :: "'n yaml_lib \<Rightarrow> bool \<Rightarrow> 'n" where
  "encode_inspect y b = n_map y [(''enabled'', n_of_bool y b)]"

definition decode_inspect :: "'n yaml_lib \<Rightarrow> 'n \<Rightarrow> bool option" where
  "decode_inspect y n =
     (if n_is_scalar y n then n_bool y n else if \<not> n_is_map y n then None else yfield y (n_bool y) n ''enabled'' True)"

definition encode_resume :: "'n yaml_lib \<Rightarrow> TunnelResumeConfig \<Rightarrow> 'n" where
  "encode_resume y r =
     n_map y [(''enabled'', n_of_bool y (rc_enabled r)), (''max_age_seconds'', n_of_u32 y (rc_max_age_seconds r)),
              (''on_gap'', n_of_string y (rc_on_gap r))]"

definition decode_resume :: "'n yaml_lib \<Rightarrow> 'n \<Rightarrow> TunnelResumeConfig option" where
  "decode_resume y n =
     (if \<not> n_is_map y n then None
      else do { e \<leftarrow> yfield y (n_bool y) n ''enabled'' False; a \<leftarrow> yfield y (n_u32 y) n ''max_age_seconds'' 300;
                g \<leftarrow> yfield y (n_string y) n ''on_gap'' ''passthrough'';
                Some \<lparr>rc_enabled = e, rc_max_age_seconds = a, rc_on_gap = g\<rparr> })"

definition encode_tunnel :: "'n yaml_lib \<Rightarrow> TunnelConfig \<Rightarrow> 'n" where
  "encode_tunnel y t =
     n_map y ([(''coalesce_max_delay_us'', n_of_u32 y (tc_coalesce_max_delay_us t)),
               (''coalesce_max_bytes'', n_of_u32 y (tc_coalesce_max_bytes t)),
               (''coalesce_mode'', n_of_string y (tc_coalesce_mode t)),
               (''idle_timeout_seconds'', n_of_u32 y (tc_idle_timeout_seconds t)),
               (''reaper_tick_seconds'', n_of_u32 y (tc_reaper_tick_seconds t)),
               (''half_close_timeout_seconds'', n_of_u32 y (tc_half_close_timeout_seconds t)),
               (''keepalive_interval_seconds'', n_of_u32 y (tc_keepalive_interval_seconds t)),
               (''open_timeout_seconds'', n_of_u32 y (tc_open_timeout_seconds t)),
               (''offline_open_wait_seconds'', n_of_u32 y (tc_offline_open_wait_seconds t))]
              @ ywhen (tc_resume t \<noteq> default_resume) ''resume'' (encode_resume y (tc_resume t)))"

definition decode_tunnel :: "'n yaml_lib \<Rightarrow> 'n \<Rightarrow> TunnelConfig option" where
  "decode_tunnel y n =
     (if \<not> n_is_map y n then None
      else do { d \<leftarrow> yfield y (n_u32 y) n ''coalesce_max_delay_us'' 200; b \<leftarrow> yfield y (n_u32 y) n ''coalesce_max_bytes'' 1362;
                m \<leftarrow> yfield y (n_string y) n ''coalesce_mode'' ''fixed''; i \<leftarrow> yfield y (n_u32 y) n ''idle_timeout_seconds'' 0;
                r \<leftarrow> yfield y (n_u32 y) n ''reaper_tick_seconds'' 10; h \<leftarrow> yfield y (n_u32 y) n ''half_close_timeout_seconds'' 120;
                k \<leftarrow> yfield y (n_u32 y) n ''keepalive_interval_seconds'' 0; a \<leftarrow> yfield y (n_u32 y) n ''open_timeout_seconds'' 30;
                w \<leftarrow> yfield y (n_u32 y) n ''offline_open_wait_seconds'' 10;
                rs \<leftarrow> yfield y (decode_resume y) n ''resume'' default_resume;
                Some \<lparr>tc_coalesce_max_delay_us = d, tc_coalesce_max_bytes = b, tc_coalesce_mode = m, tc_idle_timeout_seconds = i,
                      tc_reaper_tick_seconds = r, tc_half_close_timeout_seconds = h, tc_keepalive_interval_seconds = k,
                      tc_open_timeout_seconds = a, tc_offline_open_wait_seconds = w, tc_resume = rs\<rparr> })"

definition encode_flow :: "'n yaml_lib \<Rightarrow> FlowControlConfig \<Rightarrow> 'n" where
  "encode_flow y f =
     n_map y [(''mode'', n_of_string y (fc_mode f)), (''send_window_min_bytes'', n_of_u32 y (fc_send_window_min_bytes f)),
              (''send_window_max_bytes'', n_of_u32 y (fc_send_window_max_bytes f)),
              (''safety_factor_x100'', n_of_u32 y (fc_safety_factor_x100 f)),
              (''fixed_window_bytes'', n_of_u32 y (fc_fixed_window_bytes f)), (''friend_gate'', n_of_bool y (fc_friend_gate f))]"

definition decode_flow :: "'n yaml_lib \<Rightarrow> 'n \<Rightarrow> FlowControlConfig option" where
  "decode_flow y n =
     (if \<not> n_is_map y n then None
      else do { m \<leftarrow> yfield y (n_string y) n ''mode'' ''bdp''; lo \<leftarrow> yfield y (n_u32 y) n ''send_window_min_bytes'' 32768;
                hi \<leftarrow> yfield y (n_u32 y) n ''send_window_max_bytes'' (4 * 1024 * 1024);
                sf \<leftarrow> yfield y (n_u32 y) n ''safety_factor_x100'' 150; g \<leftarrow> yfield y (n_bool y) n ''friend_gate'' False;
                fx \<leftarrow> yfield y (n_u32 y) n ''fixed_window_bytes'' 262144;
                Some \<lparr>fc_mode = m, fc_send_window_min_bytes = lo, fc_send_window_max_bytes = hi, fc_safety_factor_x100 = sf,
                      fc_fixed_window_bytes = fx, fc_friend_gate = g\<rparr> })"

definition encode_watchdog :: "'n yaml_lib \<Rightarrow> WatchdogConfig \<Rightarrow> 'n" where
  "encode_watchdog y w =
     n_map y [(''enabled'', n_of_bool y (wc_enabled w)), (''deadline_seconds'', n_of_u32 y (wc_deadline_seconds w)),
              (''systemd_notify'', n_of_bool y (wc_systemd_notify w))]"

definition decode_watchdog :: "'n yaml_lib \<Rightarrow> 'n \<Rightarrow> WatchdogConfig option" where
  "decode_watchdog y n =
     (if \<not> n_is_map y n then None
      else do { e \<leftarrow> yfield y (n_bool y) n ''enabled'' True; d \<leftarrow> yfield y (n_u32 y) n ''deadline_seconds'' 30;
                s \<leftarrow> yfield y (n_bool y) n ''systemd_notify'' True;
                Some \<lparr>wc_enabled = e, wc_deadline_seconds = d, wc_systemd_notify = s\<rparr> })"

definition disclose_any :: "ServerInfoDisclose \<Rightarrow> bool" where
  "disclose_any d \<longleftrightarrow> di_hostname d \<or> di_os d \<or> di_os_version d \<or> di_arch d \<or> di_uptime d \<or> di_toxtunnel_version d"

definition encode_disclose :: "'n yaml_lib \<Rightarrow> ServerInfoDisclose \<Rightarrow> 'n" where
  "encode_disclose y d =
     n_map y [(''hostname'', n_of_bool y (di_hostname d)), (''os'', n_of_bool y (di_os d)), (''os_version'', n_of_bool y (di_os_version d)),
              (''arch'', n_of_bool y (di_arch d)), (''uptime'', n_of_bool y (di_uptime d)),
              (''toxtunnel_version'', n_of_bool y (di_toxtunnel_version d))]"

definition decode_disclose :: "'n yaml_lib \<Rightarrow> 'n \<Rightarrow> ServerInfoDisclose option" where
  "decode_disclose y n =
     (if n_is_scalar y n
      then map_option (\<lambda>b. \<lparr>di_hostname = b, di_os = b, di_os_version = b, di_arch = b, di_uptime = b, di_toxtunnel_version = b\<rparr>)
             (n_bool y n)
      else if \<not> n_is_map y n then None
      else do { h \<leftarrow> yfield y (n_bool y) n ''hostname'' False; os \<leftarrow> yfield y (n_bool y) n ''os'' False;
                v \<leftarrow> yfield y (n_bool y) n ''os_version'' False; a \<leftarrow> yfield y (n_bool y) n ''arch'' False;
                u \<leftarrow> yfield y (n_bool y) n ''uptime'' False; t \<leftarrow> yfield y (n_bool y) n ''toxtunnel_version'' False;
                Some \<lparr>di_hostname = h, di_os = os, di_os_version = v, di_arch = a, di_uptime = u, di_toxtunnel_version = t\<rparr> })"

definition encode_server_fields :: "'n yaml_lib \<Rightarrow> ConfigServer \<Rightarrow> (string \<times> 'n) list" where
  "encode_server_fields y s =
     [(''tcp_port'', n_of_u16 y (cs_tcp_port s)), (''udp_enabled'', n_of_bool y (cs_udp_enabled s))]
     @ ywhen (cs_bootstrap_nodes s \<noteq> []) ''bootstrap_nodes'' (n_seq y (map (encode_bootstrap y) (cs_bootstrap_nodes s)))
     @ yopt ''rules_file'' (n_of_string y) (cs_rules_file s)
     @ ywhen (disclose_any (cs_disclose s)) ''disclose'' (encode_disclose y (cs_disclose s))"

definition encode_socks5 :: "'n yaml_lib \<Rightarrow> Socks5Config \<Rightarrow> 'n" where
  "encode_socks5 y s = n_map y [(''enabled'', n_of_bool y (s5_enabled s)), (''listen'', n_of_string y (s5_listen s))]"

definition decode_socks5 :: "'n yaml_lib \<Rightarrow> 'n \<Rightarrow> Socks5Config option" where
  "decode_socks5 y n =
     (if n_is_scalar y n then map_option (\<lambda>b. default_socks5\<lparr>s5_enabled := b\<rparr>) (n_bool y n)
      else if \<not> n_is_map y n then None
      else do { e \<leftarrow> yfield y (n_bool y) n ''enabled'' False; l \<leftarrow> yfield y (n_string y) n ''listen'' (s5_listen default_socks5);
                Some \<lparr>s5_enabled = e, s5_listen = l\<rparr> })"

definition decode_server :: "'n yaml_lib \<Rightarrow> string \<Rightarrow> 'n \<Rightarrow> ConfigServer option" where
  "decode_server y home n =
     (if \<not> n_is_map y n then None
      else do { t \<leftarrow> yfield y (n_u16 y) n ''tcp_port'' 33445; u \<leftarrow> yfield y (n_bool y) n ''udp_enabled'' True;
                bs \<leftarrow> yfield y (yvector y (decode_bootstrap y)) n ''bootstrap_nodes'' [];
                rf \<leftarrow> yoptional y (n_string y) n ''rules_file'' None;
                di \<leftarrow> yfield y (decode_disclose y) n ''disclose'' default_disclose;
                Some \<lparr>cs_tcp_port = t, cs_udp_enabled = u, cs_bootstrap_nodes = bs,
                      cs_rules_file = map_option (expand_user_path home) rf, cs_disclose = di\<rparr> })"

definition encode_failover :: "'n yaml_lib \<Rightarrow> FailoverConfig \<Rightarrow> 'n" where
  "encode_failover y f =
     n_map y [(''timeout_seconds'', n_of_u32 y (fo_timeout_seconds f)),
              (''prefer_primary_grace_seconds'', n_of_u32 y (fo_prefer_primary_grace_seconds f))]"

text \<open>A \<open>failover\<close> key that is no map is ignored.\<close>

definition decode_failover :: "'n yaml_lib \<Rightarrow> FailoverConfig \<Rightarrow> 'n \<Rightarrow> FailoverConfig option" where
  "decode_failover y f n =
     (if \<not> n_is_map y n then Some f
      else do { t \<leftarrow> yfield y (n_u32 y) n ''timeout_seconds'' (fo_timeout_seconds f);
                g \<leftarrow> yfield y (n_u32 y) n ''prefer_primary_grace_seconds'' (fo_prefer_primary_grace_seconds f);
                Some \<lparr>fo_timeout_seconds = t, fo_prefer_primary_grace_seconds = g\<rparr> })"

definition encode_server_ids :: "'n yaml_lib \<Rightarrow> ConfigClient \<Rightarrow> 'n" where
  "encode_server_ids y cl =
     (if cc_fallback_server_ids cl \<noteq> []
      then n_seq y (map (n_of_string y) (cc_server_id cl # cc_fallback_server_ids cl))
      else n_of_string y (cc_server_id cl))"

definition encode_client :: "'n yaml_lib \<Rightarrow> ConfigClient \<Rightarrow> 'n" where
  "encode_client y cl =
     n_map y (ywhen (cc_server_id cl \<noteq> []) ''server_id'' (encode_server_ids y cl)
              @ yopt ''pipe'' (encode_pipe y) (cc_pipe_target cl)
              @ ywhen (cc_forwards cl \<noteq> []) ''forwards'' (n_seq y (map (encode_forward y) (cc_forwards cl)))
              @ ywhen (cc_failover cl \<noteq> default_failover) ''failover'' (encode_failover y (cc_failover cl))
              @ ywhen (cc_socks5 cl \<noteq> default_socks5) ''socks5'' (encode_socks5 y (cc_socks5 cl)))"

text \<open>The list form of \<open>server_id\<close>: the first identifier that is not empty is the primary one.\<close>

primrec collect_ids :: "string list \<Rightarrow> string \<times> string list \<Rightarrow> string \<times> string list" where
  "collect_ids [] acc = acc"
| "collect_ids (s # ss) acc =
     collect_ids ss (if fst acc = [] then (s, snd acc) else (fst acc, snd acc @ [s]))"

definition decode_server_ids :: "'n yaml_lib \<Rightarrow> string list \<Rightarrow> 'n \<Rightarrow> (string \<times> string list) option" where
  "decode_server_ids y fbs n =
     (if n_is_seq y n
      then do { ss \<leftarrow> convert_all (n_string y) (n_elems y n); Some (collect_ids ss ([], [])) }
      else do { s \<leftarrow> n_string y n; Some (s, fbs) })"

definition decode_fallback_ids :: "'n yaml_lib \<Rightarrow> 'n \<Rightarrow> string list option" where
  "decode_fallback_ids y n =
     (if n_is_seq y n then convert_all (n_string y) (n_elems y n)
      else if n_is_null y n then Some []
      else do { s \<leftarrow> n_string y n; Some [s] })"

text \<open>A subscript of a scalar node throws.\<close>

definition decode_client_fields :: "'n yaml_lib \<Rightarrow> 'n \<Rightarrow> ConfigClient \<Rightarrow> ConfigClient option" where
  "decode_client_fields y n cl =
     (if n_is_scalar y n then None
      else do { ids \<leftarrow> yfield y (decode_server_ids y (cc_fallback_server_ids cl)) n ''server_id''
                         (cc_server_id cl, cc_fallback_server_ids cl);
                fbs \<leftarrow> yfield y (decode_fallback_ids y) n ''fallback_server_ids'' [];
                p \<leftarrow> yoptional y (decode_pipe y) n ''pipe'' (cc_pipe_target cl);
                fw \<leftarrow> yfield y (yvector y (decode_forward y)) n ''forwards'' (cc_forwards cl);
                fo \<leftarrow> yfield y (decode_failover y (cc_failover cl)) n ''failover'' (cc_failover cl);
                s5 \<leftarrow> yfield y (decode_socks5 y) n ''socks5'' (cc_socks5 cl);
                Some \<lparr>cc_server_id = fst ids, cc_fallback_server_ids = snd ids @ fbs, cc_forwards = fw, cc_pipe_target = p,
                      cc_failover = fo, cc_socks5 = s5\<rparr> })"

definition decode_client :: "'n yaml_lib \<Rightarrow> 'n \<Rightarrow> ConfigClient option" where
  "decode_client y n = (if \<not> n_is_map y n then None else decode_client_fields y n default_config_client)"

section \<open>The configuration\<close>

definition encode_server_block :: "'n yaml_lib \<Rightarrow> ConfigServer \<Rightarrow> 'n" where
  "encode_server_block y s =
     n_map y (filter (\<lambda>(k, _). k \<notin> set [''tcp_port'', ''udp_enabled'', ''bootstrap_nodes'']) (encode_server_fields y s))"

definition encode_config :: "'n yaml_lib \<Rightarrow> Config \<Rightarrow> 'n" where
  "encode_config y c =
     n_map y ([(''mode'', encode_config_mode y (cf_mode c)), (''data_dir'', n_of_string y (cf_data_dir c)),
               (''logging'', encode_logging y (cf_logging c)), (''service'', encode_service y (cf_service c))]
              @ ywhen (cf_metrics c \<noteq> default_metrics) ''metrics'' (encode_metrics y (cf_metrics c))
              @ ywhen (\<not> cf_inspect c) ''inspect'' (encode_inspect y (cf_inspect c))
              @ [(''tox'', encode_tox y (effective_tox_config c))]
              @ ywhen (cf_tunnel c \<noteq> default_tunnel) ''tunnel'' (encode_tunnel y (cf_tunnel c))
              @ ywhen (cf_flow_control c \<noteq> default_flow_control) ''flow_control'' (encode_flow y (cf_flow_control c))
              @ ywhen (cf_watchdog c \<noteq> default_watchdog) ''watchdog'' (encode_watchdog y (cf_watchdog c))
              @ yopt ''server'' (encode_server_block y) (cf_server c)
              @ yopt ''client'' (encode_client y) (cf_client c))"

text \<open>A legacy field stands in the \<open>server\<close> block or at the top level.\<close>

definition legacy_field :: "'n yaml_lib \<Rightarrow> ('n \<Rightarrow> 'a option) \<Rightarrow> 'n \<Rightarrow> 'n \<Rightarrow> string \<Rightarrow> 'a \<Rightarrow> 'a option" where
  "legacy_field y conv sn n key d = (case n_get y sn key of Some m \<Rightarrow> conv m | None \<Rightarrow> yfield y conv n key d)"

definition legacy_tox :: "'n yaml_lib \<Rightarrow> 'n \<Rightarrow> 'n \<Rightarrow> ToxConfig \<Rightarrow> ToxConfig option" where
  "legacy_tox y sn n t =
     do { p \<leftarrow> legacy_field y (n_u16 y) sn n ''tcp_port'' (tx_tcp_port t);
          u \<leftarrow> legacy_field y (n_bool y) sn n ''udp_enabled'' (tx_udp_enabled t);
          bs \<leftarrow> legacy_field y (yvector y (decode_bootstrap y)) sn n ''bootstrap_nodes'' (tx_bootstrap_nodes t);
          Some (t\<lparr>tx_tcp_port := p, tx_udp_enabled := u, tx_bootstrap_nodes := bs\<rparr>) }"

definition decode_server_mode :: "'n yaml_lib \<Rightarrow> string \<Rightarrow> 'n \<Rightarrow> Config \<Rightarrow> Config option" where
  "decode_server_mode y home n c =
     (let sn = (case n_get y n ''server'' of Some s \<Rightarrow> s | None \<Rightarrow> n);
          canonical = (case n_get y n ''tox'' of Some t \<Rightarrow> n_is_map y t | None \<Rightarrow> False)
      in if n_is_scalar y sn then None
         else do { rf \<leftarrow> yoptional y (n_string y) sn ''rules_file'' None;
                   di \<leftarrow> yfield y (decode_disclose y) sn ''disclose'' default_disclose;
                   t \<leftarrow> (if canonical then Some (cf_tox c) else legacy_tox y sn n (cf_tox c));
                   Some (sync_legacy_server_tox_fields
                     (c\<lparr>cf_tox := t, cf_server := Some (default_config_server
                         \<lparr>cs_rules_file := map_option (expand_user_path home) rf, cs_disclose := di\<rparr>)\<rparr>)) })"

definition decode_client_mode :: "'n yaml_lib \<Rightarrow> 'n \<Rightarrow> Config \<Rightarrow> Config option" where
  "decode_client_mode y n c =
     do { cl \<leftarrow> decode_client_fields y (case n_get y n ''client'' of Some m \<Rightarrow> m | None \<Rightarrow> n) default_config_client;
          Some (c\<lparr>cf_client := Some cl\<rparr>) }"

definition decode_config :: "'n yaml_lib \<Rightarrow> string \<Rightarrow> 'n \<Rightarrow> Config option" where
  "decode_config y home n =
     (if \<not> n_is_map y n then None
      else do { m \<leftarrow> yrequired y (decode_config_mode y) n ''mode'';
                d \<leftarrow> yfield y (\<lambda>v. map_option (expand_user_path home) (n_string y v)) n ''data_dir'' [];
                lo \<leftarrow> yfield y (decode_logging y home) n ''logging'' default_logging;
                sv \<leftarrow> yfield y (decode_service y) n ''service'' default_service;
                mt \<leftarrow> yfield y (decode_metrics y) n ''metrics'' default_metrics;
                i \<leftarrow> yfield y (decode_inspect y) n ''inspect'' True;
                tx \<leftarrow> yfield y (decode_tox y) n ''tox'' default_tox;
                tn \<leftarrow> yfield y (decode_tunnel y) n ''tunnel'' default_tunnel;
                fc \<leftarrow> yfield y (decode_flow y) n ''flow_control'' default_flow_control;
                wd \<leftarrow> yfield y (decode_watchdog y) n ''watchdog'' default_watchdog;
                let c = \<lparr>cf_mode = m, cf_data_dir = d, cf_logging = lo, cf_service = sv, cf_tox = tx, cf_metrics = mt,
                         cf_inspect = i, cf_tunnel = tn, cf_flow_control = fc, cf_watchdog = wd, cf_server = None,
                         cf_client = None\<rparr>;
                (case m of Mode_Server \<Rightarrow> decode_server_mode y home n c | Mode_Client \<Rightarrow> decode_client_mode y n c) })"

section \<open>What was written is read back\<close>

context yaml_library
begin

lemma pipe_back: "decode_pipe y (encode_pipe y p) = Some p"
  by (simp add: decode_pipe_def encode_pipe_def yaml_simps)

lemma forward_back: "decode_forward y (encode_forward y r) = Some r"
  by (cases "fw_local_address r") (simp_all add: decode_forward_def encode_forward_def yaml_simps)

lemma bootstrap_back: "decode_bootstrap y (encode_bootstrap y b) = Some b"
  by (simp add: decode_bootstrap_def encode_bootstrap_def yaml_simps)

lemma service_back: "decode_service y (encode_service y s) = Some s"
  by (simp add: decode_service_def encode_service_def yaml_simps)

lemma metrics_back: "decode_metrics y (encode_metrics y m) = Some m"
  by (simp add: decode_metrics_def encode_metrics_def yaml_simps)

lemma inspect_back: "decode_inspect y (encode_inspect y b) = Some b"
  by (simp add: decode_inspect_def encode_inspect_def yaml_simps)

lemma resume_back: "decode_resume y (encode_resume y r) = Some r"
  by (simp add: decode_resume_def encode_resume_def yaml_simps)

lemma flow_back: "decode_flow y (encode_flow y f) = Some f"
  by (simp add: decode_flow_def encode_flow_def yaml_simps)

lemma watchdog_back: "decode_watchdog y (encode_watchdog y w) = Some w"
  by (simp add: decode_watchdog_def encode_watchdog_def yaml_simps)

lemma disclose_back: "decode_disclose y (encode_disclose y d) = Some d"
  by (simp add: decode_disclose_def encode_disclose_def yaml_simps)

lemma socks5_back: "decode_socks5 y (encode_socks5 y s) = Some s"
  by (simp add: decode_socks5_def encode_socks5_def yaml_simps)

lemma failover_back: "decode_failover y d (encode_failover y f) = Some f"
  by (simp add: decode_failover_def encode_failover_def yaml_simps)

lemma tunnel_back: "decode_tunnel y (encode_tunnel y t) = Some t"
  by (cases t) (simp add: decode_tunnel_def encode_tunnel_def yaml_simps resume_back)

lemma mode_back: "decode_config_mode y (encode_config_mode y m) = Some m"
  by (cases m) (simp_all add: decode_config_mode_def encode_config_mode_def yaml_simps)

lemma log_level_back: "decode_log_level y (n_of_string y (log_level_text l)) = Some l"
  by (cases l) (simp_all add: decode_log_level_def log_level_text_def yaml_simps tolower_def char_eval)

lemma bootstrap_mode_back: "decode_bootstrap_mode y (n_of_string y (bootstrap_mode_to_string m)) = Some m"
  by (cases m) (simp_all add: decode_bootstrap_mode_def bootstrap_mode_to_string_def yaml_simps tolower_def char_eval)

lemma proxy_back: "px_type p \<noteq> PX_None \<Longrightarrow> decode_proxy y (encode_proxy y p) = Some p"
  by (cases "px_type p") (auto simp add: decode_proxy_def encode_proxy_def decode_proxy_type_def yaml_simps)

lemma logging_back:
  "map_option (expand_user_path home) (lo_file l) = lo_file l \<Longrightarrow> decode_logging y home (encode_logging y l) = Some l"
  by (cases "lo_file l") (auto simp: decode_logging_def encode_logging_def yaml_simps log_level_back)

lemma tox_back:
  assumes "px_type (tx_proxy t) = PX_None \<longrightarrow> tx_proxy t = default_proxy"
  shows "decode_tox y (encode_tox y t) = Some t"
  using assms vector_seq [of "decode_bootstrap y" "encode_bootstrap y", OF bootstrap_back]
  by (cases t) (auto simp: decode_tox_def encode_tox_def yaml_simps bootstrap_mode_back proxy_back
      simp del: map_of_append)

lemma collect_ids_primary: "p \<noteq> [] \<Longrightarrow> collect_ids ss (p, fbs) = (p, fbs @ ss)"
  by (induction ss arbitrary: fbs) auto

lemma server_ids_back:
  "cc_server_id cl \<noteq> [] \<Longrightarrow> decode_server_ids y [] (encode_server_ids y cl) = Some (cc_server_id cl, cc_fallback_server_ids cl)"
  by (auto simp: decode_server_ids_def encode_server_ids_def yaml_simps convert_all_map conversions collect_ids_primary
      simp del: list.map)

lemma client_back:
  assumes "cc_server_id cl \<noteq> [] \<or> cc_fallback_server_ids cl = []"
  shows "decode_client_fields y (encode_client y cl) default_config_client = Some cl"
  using assms vector_seq [of "decode_forward y" "encode_forward y", OF forward_back]
  by (cases cl) (auto simp: decode_client_fields_def encode_client_def yaml_simps pipe_back failover_back socks5_back
      server_ids_back default_config_client_def simp del: map_of_append)

lemma server_block_back:
  assumes "map_option (expand_user_path home) (cs_rules_file s) = cs_rules_file s"
  shows "yoptional y (n_string y) (encode_server_block y s) ''rules_file'' None = Some (cs_rules_file s)"
    "yfield y (decode_disclose y) (encode_server_block y s) ''disclose'' default_disclose = Some (cs_disclose s)"
    "\<not> n_is_scalar y (encode_server_block y s)"
proof -
  have block: "encode_server_block y s =
      n_map y (yopt ''rules_file'' (n_of_string y) (cs_rules_file s)
               @ ywhen (disclose_any (cs_disclose s)) ''disclose'' (encode_disclose y (cs_disclose s)))"
    by (auto simp: encode_server_block_def encode_server_fields_def ywhen_def yopt_def split: option.splits)
  have none: "\<not> disclose_any (cs_disclose s) \<Longrightarrow> cs_disclose s = default_disclose"
    by (cases "cs_disclose s") (simp add: disclose_any_def default_disclose_def)
  show "yoptional y (n_string y) (encode_server_block y s) ''rules_file'' None = Some (cs_rules_file s)"
    by (cases "cs_rules_file s") (simp_all add: block yaml_simps del: map_of_append)
  show "yfield y (decode_disclose y) (encode_server_block y s) ''disclose'' default_disclose = Some (cs_disclose s)"
    using none by (auto simp: block yaml_simps disclose_back simp del: map_of_append)
  show "\<not> n_is_scalar y (encode_server_block y s)" by (simp add: block map_kind)
qed

end

text \<open>A configuration as the program holds it: the legacy mirror of the \<open>tox\<close> block is in step, the block of the
  mode is there and the other one is not, a proxy that is off has no address, there are fallbacks only next to
  a primary server, and no path is left to be expanded.\<close>

definition savable :: "string \<Rightarrow> Config \<Rightarrow> bool" where
  "savable home c \<longleftrightarrow>
     sync_legacy_server_tox_fields c = c
     \<and> expand_user_path home (cf_data_dir c) = cf_data_dir c
     \<and> map_option (expand_user_path home) (lo_file (cf_logging c)) = lo_file (cf_logging c)
     \<and> (px_type (tx_proxy (cf_tox c)) = PX_None \<longrightarrow> tx_proxy (cf_tox c) = default_proxy)
     \<and> (case cf_mode c of
          Mode_Server \<Rightarrow> cf_client c = None
            \<and> (case cf_server c of None \<Rightarrow> False
               | Some s \<Rightarrow> map_option (expand_user_path home) (cs_rules_file s) = cs_rules_file s)
        | Mode_Client \<Rightarrow> cf_server c = None
            \<and> (case cf_client c of None \<Rightarrow> False
               | Some cl \<Rightarrow> cc_server_id cl \<noteq> [] \<or> cc_fallback_server_ids cl = []))"

lemma synced_server:
  "sync_legacy_server_tox_fields c = c \<Longrightarrow> cf_server c = Some s \<Longrightarrow>
   cs_tcp_port s = tx_tcp_port (cf_tox c) \<and> cs_udp_enabled s = tx_udp_enabled (cf_tox c)
   \<and> cs_bootstrap_nodes s = tx_bootstrap_nodes (cf_tox c)"
  by (cases c; cases s) (auto simp: sync_legacy_server_tox_fields_def)

lemma effective_tox_synced: "sync_legacy_server_tox_fields c = c \<Longrightarrow> effective_tox_config c = cf_tox c"
  using synced_server [of c] by (cases "cf_server c") (auto simp: effective_tox_config_def split: Mode.splits)

lemma config_bare:
  "c\<lparr>cf_server := None, cf_client := None\<rparr> =
   \<lparr>cf_mode = cf_mode c, cf_data_dir = cf_data_dir c, cf_logging = cf_logging c, cf_service = cf_service c, cf_tox = cf_tox c,
    cf_metrics = cf_metrics c, cf_inspect = cf_inspect c, cf_tunnel = cf_tunnel c, cf_flow_control = cf_flow_control c,
    cf_watchdog = cf_watchdog c, cf_server = None, cf_client = None\<rparr>"
  by (cases c) simp

context yaml_library
begin

lemma decode_common:
  assumes "savable home c"
  shows "decode_config y home (encode_config y c) =
    (let d = c\<lparr>cf_server := None, cf_client := None\<rparr>
     in case cf_mode c of
          Mode_Server \<Rightarrow> decode_server_mode y home (encode_config y c) d
        | Mode_Client \<Rightarrow> decode_client_mode y (encode_config y c) d)"
proof -
  have c: "effective_tox_config c = cf_tox c" "expand_user_path home (cf_data_dir c) = cf_data_dir c"
    "decode_logging y home (encode_logging y (cf_logging c)) = Some (cf_logging c)"
    "decode_tox y (encode_tox y (cf_tox c)) = Some (cf_tox c)"
    using assms effective_tox_synced [of c] logging_back [of home "cf_logging c"] tox_back [of "cf_tox c"]
    by (simp_all add: savable_def)
  show ?thesis
    unfolding config_bare Let_def decode_config_def
    by (simp add: encode_config_def yaml_simps c mode_back service_back metrics_back inspect_back tunnel_back flow_back
        watchdog_back del: map_of_append cong: Mode.case_cong)
qed

lemma config_back:
  assumes "savable home c"
  shows "decode_config y home (encode_config y c) = Some c"
proof (cases "cf_mode c")
  case Mode_Server
  then obtain s where s: "cf_server c = Some s" "cf_client c = None"
      "map_option (expand_user_path home) (cs_rules_file s) = cs_rules_file s"
    using assms by (auto simp: savable_def split: option.splits)
  have get: "n_get y (encode_config y c) ''server'' = Some (encode_server_block y s)"
    "n_get y (encode_config y c) ''tox'' = Some (encode_tox y (effective_tox_config c))"
    using s by (simp_all add: encode_config_def yaml_simps del: map_of_append)
  have map: "n_is_map y (encode_tox y t)" for t by (simp add: encode_tox_def map_kind)
  have sync: "sync_legacy_server_tox_fields c = c" using assms by (simp add: savable_def)
  have "decode_config y home (encode_config y c) =
      Some (sync_legacy_server_tox_fields (c\<lparr>cf_client := None, cf_server := Some (default_config_server
        \<lparr>cs_rules_file := cs_rules_file s, cs_disclose := cs_disclose s\<rparr>)\<rparr>))"
    by (simp add: decode_common [OF assms] Mode_Server decode_server_mode_def get map server_block_back [OF s(3)] s(3))
  also have "\<dots> = Some c"
    using synced_server [OF sync s(1)] s(1,2)
    by (cases c; cases s) (simp add: sync_legacy_server_tox_fields_def default_config_server_def)
  finally show ?thesis .
next
  case Mode_Client
  then obtain cl where cl: "cf_client c = Some cl" "cf_server c = None"
      "cc_server_id cl \<noteq> [] \<or> cc_fallback_server_ids cl = []"
    using assms by (auto simp: savable_def split: option.splits)
  have get: "n_get y (encode_config y c) ''client'' = Some (encode_client y cl)"
    using cl by (simp add: encode_config_def yaml_simps del: map_of_append)
  have "decode_config y home (encode_config y c) = Some (c\<lparr>cf_server := None, cf_client := Some cl\<rparr>)"
    by (simp add: decode_common [OF assms] Mode_Client decode_client_mode_def get client_back [OF cl(3)])
  also have "\<dots> = Some c" using cl(1,2) by (cases c) simp
  finally show ?thesis .
qed

end

text \<open>Claim C28: a savable configuration survives saving and loading. For every library of nodes that keeps what
  was put into it, reading the node that was written for a savable configuration gives the configuration back,
  for servers and clients, every optional block and every default that is left out of the file. Savable means:
  the block of the mode is present and the other mode's block is not, a proxy of type none has no host and
  port, a client with fallback servers has a primary one, the legacy mirror of the \<open>tox\<close> block is in step, and
  no path has a home directory left to be expanded. Outside of it the code does lose data.\<close>

theorem config_save_load:
  assumes "yaml_library y" and "savable home c"
  shows "decode_config y home (encode_config y c) = Some c"
  using assms by (rule yaml_library.config_back)

text \<open>A configuration that was loaded and passed validation is one that can be saved, if its home directory
  does not itself begin with a tilde and a proxy that is off was not given an address.\<close>

lemma expand_idem:
  assumes "home = [] \<or> hd home \<noteq> CHR ''~''"
  shows "expand_user_path home (expand_user_path home p) = expand_user_path home p"
  using assms by (auto simp: expand_user_path_def)

lemma decoded_logging:
  assumes "decode_logging y home n = Some l" "home = [] \<or> hd home \<noteq> CHR ''~''"
  shows "map_option (expand_user_path home) (lo_file l) = lo_file l"
  using assms
  by (auto simp: decode_logging_def default_logging_def option.map_comp comp_def expand_idem bind_eq_Some_conv split: if_splits)

lemma decoded_server_mode:
  assumes "decode_server_mode y home n c = Some d" "home = [] \<or> hd home \<noteq> CHR ''~''" "cf_client c = None" "cf_mode c = Mode_Server"
  shows "sync_legacy_server_tox_fields d = d \<and> cf_client d = None \<and> cf_mode d = Mode_Server
    \<and> (\<exists>s. cf_server d = Some s \<and> map_option (expand_user_path home) (cs_rules_file s) = cs_rules_file s)
    \<and> cf_data_dir d = cf_data_dir c \<and> cf_logging d = cf_logging c"
  using assms
  by (auto simp: decode_server_mode_def Let_def sync_legacy_server_tox_fields_def option.map_comp comp_def expand_idem
      bind_eq_Some_conv split: if_splits)

lemma decoded_client_mode:
  assumes "decode_client_mode y n c = Some d" "cf_server c = None" "cf_mode c = Mode_Client"
  shows "sync_legacy_server_tox_fields d = d \<and> cf_server d = None \<and> cf_mode d = Mode_Client \<and> cf_client d \<noteq> None
    \<and> cf_data_dir d = cf_data_dir c \<and> cf_logging d = cf_logging c"
  using assms by (auto simp: decode_client_mode_def sync_legacy_server_tox_fields_def bind_eq_Some_conv)

lemma decoded_fields:
  assumes "decode_config y home n = Some c" "home = [] \<or> hd home \<noteq> CHR ''~''"
  obtains b where "expand_user_path home (cf_data_dir b) = cf_data_dir b"
    "map_option (expand_user_path home) (lo_file (cf_logging b)) = lo_file (cf_logging b)" "cf_server b = None" "cf_client b = None"
    "(case cf_mode b of Mode_Server \<Rightarrow> decode_server_mode y home n b | Mode_Client \<Rightarrow> decode_client_mode y n b) = Some c"
proof -
  have dd: "yfield y (\<lambda>v. map_option (expand_user_path home) (n_string y v)) n ''data_dir'' [] = Some d \<Longrightarrow> expand_user_path home d = d" for d
    using expand_idem [OF assms(2)] by (auto simp: yfield_def expand_user_path_def [of _ "[]"] split: option.splits)
  have ll: "yfield y (decode_logging y home) n ''logging'' default_logging = Some l \<Longrightarrow>
      map_option (expand_user_path home) (lo_file l) = lo_file l" for l
    using decoded_logging [OF _ assms(2)] by (auto simp: yfield_def default_logging_def split: option.splits)
  show ?thesis
    using assms(1) unfolding decode_config_def Let_def
    apply (clarsimp simp: bind_eq_Some_conv split: if_splits)
    subgoal for m d lo sv mt i tx tn fc wd
      by (rule that [of "\<lparr>cf_mode = m, cf_data_dir = d, cf_logging = lo, cf_service = sv, cf_tox = tx, cf_metrics = mt,
           cf_inspect = i, cf_tunnel = tn, cf_flow_control = fc, cf_watchdog = wd, cf_server = None, cf_client = None\<rparr>"])
         (simp_all add: dd ll)
    done
qed

lemma loaded_savable:
  assumes "decode_config y home n = Some c" "home = [] \<or> hd home \<noteq> CHR ''~''" "validate ia c = None"
    and "px_type (tx_proxy (cf_tox c)) = PX_None \<longrightarrow> tx_proxy (cf_tox c) = default_proxy"
  shows "savable home c"
proof -
  obtain b where b: "expand_user_path home (cf_data_dir b) = cf_data_dir b"
    "map_option (expand_user_path home) (lo_file (cf_logging b)) = lo_file (cf_logging b)" "cf_server b = None" "cf_client b = None"
    "(case cf_mode b of Mode_Server \<Rightarrow> decode_server_mode y home n b | Mode_Client \<Rightarrow> decode_client_mode y n b) = Some c"
    using decoded_fields [OF assms(1,2)] .
  show ?thesis
  proof (cases "cf_mode b")
    case Mode_Server
    then show ?thesis using decoded_server_mode [OF _ assms(2), of y n b c] b assms(4) by (auto simp: savable_def)
  next
    case Mode_Client
    then have "decode_client_mode y n b = Some c" using b by simp
    note c = decoded_client_mode [OF this b(3) Mode_Client]
    then obtain cl where cl: "cf_client c = Some cl" by auto
    have "validate_client ia cl = None"
      using assms(3) c cl by (simp add: validate_def validate_mode_def first_error_None del: first_error.simps)
    then have "cc_server_id cl \<noteq> []" by (simp add: validate_client_None)
    then show ?thesis using b c cl assms(4) by (auto simp: savable_def)
  qed
qed

theorem load_validate_save:
  assumes "yaml_library y" "decode_config y home n = Some c" "home = [] \<or> hd home \<noteq> CHR ''~''" "validate ia c = None"
    and "px_type (tx_proxy (cf_tox c)) = PX_None \<longrightarrow> tx_proxy (cf_tox c) = default_proxy"
  shows "decode_config y home (encode_config y c) = Some c"
  using yaml_library.config_back [OF assms(1) loaded_savable [OF assms(2-5)]] .

theorem config_save_load_witness:
  "decode_config node_lib ''/root'' (encode_config node_lib (default_server\<lparr>cf_inspect := False\<rparr>))
     = Some (default_server\<lparr>cf_inspect := False\<rparr>)
   \<and> decode_config node_lib ''/root'' (encode_config node_lib ex_client) = Some ex_client"
proof -
  have "savable ''/root'' (default_server\<lparr>cf_inspect := False\<rparr>)" by code_simp
  moreover have "savable ''/root'' ex_client" by code_simp
  ultimately show ?thesis
    using config_save_load [OF nodes.yaml_library_axioms] by blast
qed

end
