(* ===== verification/Known_Servers.thy ===== *)
theory Known_Servers
  imports Tox_Types Yaml_Nodes "HOL-Library.Multiset" "HOL-Library.List_Lexorder" "HOL-Library.Char_ord"
begin

text \<open>
  The registry of known servers (\<open>app/known_servers\<close>): the entries the client keeps about the servers it has
  seen, their lookup by Tox identifier and by alias, the operations that change them, and the file they are
  saved to and loaded from. A document is a node of the library of \<open>Yaml_Nodes\<close>. The time of day is an argument.
\<close>

section \<open>Entries\<close>

datatype KnownConnectionType = KC_None | KC_Tcp | KC_Udp

definition connection_type_to_string :: "KnownConnectionType \<Rightarrow> string" where
  "connection_type_to_string t = (case t of KC_None \<Rightarrow> ''none'' | KC_Tcp \<Rightarrow> ''tcp'' | KC_Udp \<Rightarrow> ''udp'')"

definition known_connection_type_from_string :: "string \<Rightarrow> KnownConnectionType option" where
  "known_connection_type_from_string s =
     (if s = ''none'' then Some KC_None else if s = ''tcp'' then Some KC_Tcp else if s = ''udp'' then Some KC_Udp else None)"

record KnownServerInfo =
  ki_hostname :: "string option"
  ki_os :: "string option"
  ki_os_version :: "string option"
  ki_arch :: "string option"
  ki_uptime_seconds :: "u64 option"
  ki_toxtunnel_version :: "string option"
  ki_reported_at :: "string option"

definition info_new :: KnownServerInfo where
  "info_new = \<lparr>ki_hostname = None, ki_os = None, ki_os_version = None, ki_arch = None, ki_uptime_seconds = None,
     ki_toxtunnel_version = None, ki_reported_at = None\<rparr>"

definition info_empty :: "KnownServerInfo \<Rightarrow> bool" where
  "info_empty i \<longleftrightarrow> ki_hostname i = None \<and> ki_os i = None \<and> ki_os_version i = None \<and> ki_arch i = None
     \<and> ki_uptime_seconds i = None \<and> ki_toxtunnel_version i = None \<and> ki_reported_at i = None"

record KnownServer =
  kn_tox_id :: string
  kn_alias :: "string option"
  kn_first_connected_at :: "string option"
  kn_last_connected_at :: "string option"
  kn_last_connection_type :: KnownConnectionType
  kn_info :: KnownServerInfo
  kn_notes :: string

definition known_server_new :: "string \<Rightarrow> KnownServer" where
  "known_server_new i = \<lparr>kn_tox_id = i, kn_alias = None, kn_first_connected_at = None, kn_last_connected_at = None,
     kn_last_connection_type = KC_None, kn_info = info_new, kn_notes = []\<rparr>"

definition is_hex_char :: "char \<Rightarrow> bool" where
  "is_hex_char c \<longleftrightarrow> (let n = of_char c :: nat in 48 \<le> n \<and> n \<le> 57 \<or> 97 \<le> n \<and> n \<le> 102 \<or> 65 \<le> n \<and> n \<le> 70)"

definition is_valid_tox_id :: "string \<Rightarrow> bool" where
  "is_valid_tox_id s \<longleftrightarrow> length s = 76 \<and> list_all is_hex_char s"

section \<open>The store\<close>

text \<open>Iterators of \<open>std::find_if\<close>: the first entry that satisfies a predicate is changed or erased.\<close>

fun update_first :: "('a \<Rightarrow> bool) \<Rightarrow> ('a \<Rightarrow> 'a) \<Rightarrow> 'a list \<Rightarrow> 'a list" where
  "update_first P f [] = []"
| "update_first P f (x # xs) = (if P x then f x # xs else x # update_first P f xs)"

fun erase_first :: "('a \<Rightarrow> bool) \<Rightarrow> 'a list \<Rightarrow> 'a list" where
  "erase_first P [] = []"
| "erase_first P (x # xs) = (if P x then xs else x # erase_first P xs)"

definition find_by_tox_id :: "string \<Rightarrow> KnownServer list \<Rightarrow> KnownServer option" where
  "find_by_tox_id i s = find (\<lambda>e. kn_tox_id e = str_upper i) s"

definition find_by_alias :: "string \<Rightarrow> KnownServer list \<Rightarrow> KnownServer option" where
  "find_by_alias a s = find (\<lambda>e. kn_alias e = Some a) s"

definition resolve_tox_id :: "string \<Rightarrow> KnownServer list \<Rightarrow> string" where
  "resolve_tox_id x s =
     (if is_valid_tox_id x then str_upper x
      else case find_by_alias x s of Some e \<Rightarrow> kn_tox_id e | None \<Rightarrow> x)"

definition put_entry :: "string \<Rightarrow> KnownServer \<Rightarrow> (KnownServer \<Rightarrow> KnownServer) \<Rightarrow> KnownServer list \<Rightarrow> KnownServer list" where
  "put_entry i fresh f s =
     (if find (\<lambda>e. kn_tox_id e = i) s = None then s @ [fresh] else update_first (\<lambda>e. kn_tox_id e = i) f s)"

definition ks_upsert :: "KnownServer \<Rightarrow> KnownServer list \<Rightarrow> bool \<times> KnownServer list" where
  "ks_upsert entry s =
     (if \<not> is_valid_tox_id (kn_tox_id entry) then (False, s)
      else let upper = str_upper (kn_tox_id entry); normalized = entry\<lparr>kn_tox_id := upper\<rparr>
           in if kn_alias entry \<noteq> None \<and> find (\<lambda>e. kn_alias e = kn_alias entry \<and> kn_tox_id e \<noteq> upper) s \<noteq> None
              then (False, s)
              else (True, put_entry upper normalized (\<lambda>_. normalized) s))"

definition touch_connection :: "string \<Rightarrow> KnownConnectionType \<Rightarrow> KnownServer \<Rightarrow> KnownServer" where
  "touch_connection now t e =
     e\<lparr>kn_first_connected_at := (case kn_first_connected_at e of None \<Rightarrow> Some now | Some f \<Rightarrow> Some f),
       kn_last_connected_at := Some now, kn_last_connection_type := t\<rparr>"

definition ks_record_connection :: "string \<Rightarrow> string \<Rightarrow> KnownConnectionType \<Rightarrow> KnownServer list \<Rightarrow> bool \<times> KnownServer list" where
  "ks_record_connection now i t s =
     (if \<not> is_valid_tox_id i then (False, s)
      else let upper = str_upper i
           in (True, put_entry upper ((known_server_new upper)\<lparr>kn_first_connected_at := Some now, kn_last_connected_at := Some now,
                                         kn_last_connection_type := t\<rparr>)
                       (touch_connection now t) s))"

definition put_info :: "string \<Rightarrow> KnownServerInfo \<Rightarrow> KnownServer \<Rightarrow> KnownServer" where
  "put_info now info e =
     e\<lparr>kn_info := info\<lparr>ki_reported_at := (case ki_reported_at info of None \<Rightarrow> Some now | Some r \<Rightarrow> Some r)\<rparr>\<rparr>"

definition ks_record_info :: "string \<Rightarrow> string \<Rightarrow> KnownServerInfo \<Rightarrow> KnownServer list \<Rightarrow> bool \<times> KnownServer list" where
  "ks_record_info now i info s =
     (if \<not> is_valid_tox_id i then (False, s)
      else let upper = str_upper i
           in (True, put_entry upper (put_info now info (known_server_new upper)) (put_info now info) s))"

definition ks_remove :: "string \<Rightarrow> KnownServer list \<Rightarrow> bool \<times> KnownServer list" where
  "ks_remove x s =
     (let target = resolve_tox_id x s
      in if find (\<lambda>e. kn_tox_id e = target) s = None then (False, s)
         else (True, erase_first (\<lambda>e. kn_tox_id e = target) s))"

text \<open>The order in which entries are shown: those with an alias first, by alias, the others by identifier.\<close>

definition entry_less :: "KnownServer \<Rightarrow> KnownServer \<Rightarrow> bool" where
  "entry_less a b =
     (case (kn_alias a, kn_alias b) of
        (Some x, Some y) \<Rightarrow> x < y
      | (Some _, None) \<Rightarrow> True
      | (None, Some _) \<Rightarrow> False
      | (None, None) \<Rightarrow> kn_tox_id a < kn_tox_id b)"

fun insert_entry :: "KnownServer \<Rightarrow> KnownServer list \<Rightarrow> KnownServer list" where
  "insert_entry e [] = [e]"
| "insert_entry e (x # xs) = (if entry_less e x then e # x # xs else x # insert_entry e xs)"

definition ks_entries :: "KnownServer list \<Rightarrow> KnownServer list" where
  "ks_entries s = fold insert_entry s []"

section \<open>The file\<close>

definition encode_info :: "'n yaml_lib \<Rightarrow> KnownServerInfo \<Rightarrow> 'n" where
  "encode_info y i =
     n_map y (yopt ''hostname'' (n_of_string y) (ki_hostname i) @ yopt ''os'' (n_of_string y) (ki_os i)
              @ yopt ''os_version'' (n_of_string y) (ki_os_version i) @ yopt ''arch'' (n_of_string y) (ki_arch i)
              @ yopt ''uptime_seconds'' (n_of_u64 y) (ki_uptime_seconds i)
              @ yopt ''toxtunnel_version'' (n_of_string y) (ki_toxtunnel_version i)
              @ yopt ''reported_at'' (n_of_string y) (ki_reported_at i))"

definition encode_entry :: "'n yaml_lib \<Rightarrow> KnownServer \<Rightarrow> 'n" where
  "encode_entry y e =
     n_map y ([(''tox_id'', n_of_string y (kn_tox_id e))] @ yopt ''alias'' (n_of_string y) (kn_alias e)
              @ yopt ''first_connected_at'' (n_of_string y) (kn_first_connected_at e)
              @ yopt ''last_connected_at'' (n_of_string y) (kn_last_connected_at e)
              @ [(''last_connection_type'', n_of_string y (connection_type_to_string (kn_last_connection_type e)))]
              @ ywhen (\<not> info_empty (kn_info e)) ''info'' (encode_info y (kn_info e))
              @ ywhen (kn_notes e \<noteq> []) ''notes'' (n_of_string y (kn_notes e)))"

definition save_document :: "'n yaml_lib \<Rightarrow> KnownServer list \<Rightarrow> 'n" where
  "save_document y s = n_map y [(''servers'', n_seq y (map (encode_entry y) s))]"

definition decode_info :: "'n yaml_lib \<Rightarrow> 'n \<Rightarrow> KnownServerInfo option" where
  "decode_info y n =
     (if \<not> n_is_map y n then Some info_new
      else do { h \<leftarrow> yoptional y (n_string y) n ''hostname'' None; os \<leftarrow> yoptional y (n_string y) n ''os'' None;
                v \<leftarrow> yoptional y (n_string y) n ''os_version'' None; a \<leftarrow> yoptional y (n_string y) n ''arch'' None;
                u \<leftarrow> yoptional y (n_u64 y) n ''uptime_seconds'' None;
                t \<leftarrow> yoptional y (n_string y) n ''toxtunnel_version'' None;
                r \<leftarrow> yoptional y (n_string y) n ''reported_at'' None;
                Some \<lparr>ki_hostname = h, ki_os = os, ki_os_version = v, ki_arch = a, ki_uptime_seconds = u,
                      ki_toxtunnel_version = t, ki_reported_at = r\<rparr> })"

text \<open>One element of the list of servers: \<open>Some None\<close> when it is skipped, \<open>None\<close> when a conversion throws.\<close>

definition decode_entry :: "'n yaml_lib \<Rightarrow> 'n \<Rightarrow> KnownServer option option" where
  "decode_entry y n =
     (if \<not> n_is_map y n then Some None
      else case n_get y n ''tox_id'' of
        None \<Rightarrow> Some None
      | Some m \<Rightarrow>
          do { raw \<leftarrow> n_string y m;
               let i = str_upper raw;
               if \<not> is_valid_tox_id i then Some None
               else do { al \<leftarrow> yoptional y (n_string y) n ''alias'' None;
                         fc \<leftarrow> yoptional y (n_string y) n ''first_connected_at'' None;
                         lc \<leftarrow> yoptional y (n_string y) n ''last_connected_at'' None;
                         ct \<leftarrow> yoptional y (n_string y) n ''last_connection_type'' None;
                         nt \<leftarrow> yfield y (n_string y) n ''notes'' [];
                         inf \<leftarrow> yfield y (decode_info y) n ''info'' info_new;
                         Some (Some \<lparr>kn_tox_id = i, kn_alias = al, kn_first_connected_at = fc, kn_last_connected_at = lc,
                                     kn_last_connection_type =
                                       (case Option.bind ct known_connection_type_from_string of Some t \<Rightarrow> t | None \<Rightarrow> KC_None),
                                     kn_info = inf, kn_notes = nt\<rparr>) } })"

text \<open>What is found at the path of the file, and the outcome of loading it. A conversion that throws escapes:
  only the parsing of the text is inside the \<open>try\<close> block. The entries before it stay in the store.\<close>

datatype 'n DiskFile = DF_Missing | DF_Not_Regular | DF_Unparsable string | DF_Unreadable string | DF_Document 'n

datatype LoadResult = LR_Ok | LR_Error string | LR_Throws

fun load_entries :: "'n yaml_lib \<Rightarrow> 'n list \<Rightarrow> LoadResult \<times> KnownServer list" where
  "load_entries y [] = (LR_Ok, [])"
| "load_entries y (n # ns) =
     (case decode_entry y n of
        None \<Rightarrow> (LR_Throws, [])
      | Some None \<Rightarrow> load_entries y ns
      | Some (Some e) \<Rightarrow> (let (r, es) = load_entries y ns in (r, e # es)))"

definition load_document :: "'n yaml_lib \<Rightarrow> 'n \<Rightarrow> LoadResult \<times> KnownServer list" where
  "load_document y root =
     (if \<not> n_is_map y root \<and> \<not> n_is_null y root then (LR_Error ''known_servers.yaml: top-level must be a map'', [])
      else case n_get y root ''servers'' of
        None \<Rightarrow> (LR_Ok, [])
      | Some l \<Rightarrow> if \<not> n_is_seq y l
                  then (LR_Error (''known_servers.yaml: '' @ (CHR 0x27 # ''servers'' @ [CHR 0x27]) @ '' must be a sequence''), [])
                  else load_entries y (n_elems y l))"

definition load_from_disk :: "'n yaml_lib \<Rightarrow> 'n DiskFile \<Rightarrow> LoadResult \<times> KnownServer list" where
  "load_from_disk y f =
     (case f of
        DF_Missing \<Rightarrow> (LR_Ok, [])
      | DF_Not_Regular \<Rightarrow> (LR_Ok, [])
      | DF_Unparsable e \<Rightarrow> (LR_Error (''Failed to parse known_servers.yaml: '' @ e), [])
      | DF_Unreadable e \<Rightarrow> (LR_Error (''Failed to read known_servers.yaml: '' @ e), [])
      | DF_Document root \<Rightarrow> load_document y root)"

record KnownServersStore =
  ks_servers :: "KnownServer list"
  ks_last_load_error :: "string option"

definition ks_reload :: "'n yaml_lib \<Rightarrow> 'n DiskFile \<Rightarrow> KnownServersStore \<Rightarrow> LoadResult \<times> KnownServersStore" where
  "ks_reload y f st =
     (let (r, s) = load_from_disk y f
      in (r, \<lparr>ks_servers = s, ks_last_load_error = (case r of LR_Error e \<Rightarrow> Some e | _ \<Rightarrow> None)\<rparr>))"

section \<open>The abstract registry\<close>

text \<open>A registry maps canonical identifiers to entries. An alias belongs to at most one entry.\<close>

type_synonym registry = "string \<rightharpoonup> KnownServer"

definition alias_taken :: "string option \<Rightarrow> string \<Rightarrow> registry \<Rightarrow> bool" where
  "alias_taken a i m \<longleftrightarrow> a \<noteq> None \<and> (\<exists>j e. j \<noteq> i \<and> m j = Some e \<and> kn_alias e = a)"

definition names :: "string \<Rightarrow> string \<Rightarrow> registry \<Rightarrow> bool" where
  "names x i m \<longleftrightarrow>
     (if is_valid_tox_id x then i = str_upper x
      else if \<exists>j e. m j = Some e \<and> kn_alias e = Some x then \<exists>e. m i = Some e \<and> kn_alias e = Some x
      else i = x)"

datatype KnownOp =
    KO_Upsert KnownServer
  | KO_Connection string string KnownConnectionType   \<comment> \<open>time, identifier, type\<close>
  | KO_Info string string KnownServerInfo
  | KO_Remove string

fun ks_op :: "KnownOp \<Rightarrow> KnownServer list \<Rightarrow> bool \<times> KnownServer list" where
  "ks_op (KO_Upsert e) s = ks_upsert e s"
| "ks_op (KO_Connection now i t) s = ks_record_connection now i t s"
| "ks_op (KO_Info now i info) s = ks_record_info now i info s"
| "ks_op (KO_Remove x) s = ks_remove x s"

text \<open>What each operation does to the registry, with its answer.\<close>

inductive registry_step :: "registry \<Rightarrow> KnownOp \<Rightarrow> bool \<Rightarrow> registry \<Rightarrow> bool" where
  rs_upsert: "is_valid_tox_id (kn_tox_id e) \<Longrightarrow> i = str_upper (kn_tox_id e) \<Longrightarrow> \<not> alias_taken (kn_alias e) i m \<Longrightarrow>
    registry_step m (KO_Upsert e) True (m(i \<mapsto> e\<lparr>kn_tox_id := i\<rparr>))"
| rs_rejected: "\<not> is_valid_tox_id (kn_tox_id e) \<or> alias_taken (kn_alias e) (str_upper (kn_tox_id e)) m \<Longrightarrow>
    registry_step m (KO_Upsert e) False m"
| rs_connection: "is_valid_tox_id x \<Longrightarrow> i = str_upper x \<Longrightarrow>
    e = (case m i of None \<Rightarrow> known_server_new i | Some e \<Rightarrow> e) \<Longrightarrow>
    registry_step m (KO_Connection now x t) True (m(i \<mapsto> touch_connection now t e))"
| rs_info: "is_valid_tox_id x \<Longrightarrow> i = str_upper x \<Longrightarrow> e = (case m i of None \<Rightarrow> known_server_new i | Some e \<Rightarrow> e) \<Longrightarrow>
    registry_step m (KO_Info now x info) True (m(i \<mapsto> put_info now info e))"
| rs_bad_connection: "\<not> is_valid_tox_id x \<Longrightarrow> registry_step m (KO_Connection now x t) False m"
| rs_bad_info: "\<not> is_valid_tox_id x \<Longrightarrow> registry_step m (KO_Info now x info) False m"
| rs_removed: "names x i m \<Longrightarrow> i \<in> dom m \<Longrightarrow> registry_step m (KO_Remove x) True (m(i := None))"
| rs_unknown: "names x i m \<Longrightarrow> i \<notin> dom m \<Longrightarrow> registry_step m (KO_Remove x) False m"

definition registry_of :: "KnownServer list \<Rightarrow> registry" where
  "registry_of s = map_of (map (\<lambda>e. (kn_tox_id e, e)) s)"

definition canonical_id :: "string \<Rightarrow> bool" where
  "canonical_id i \<longleftrightarrow> is_valid_tox_id i \<and> str_upper i = i"

definition alias_unique :: "registry \<Rightarrow> bool" where
  "alias_unique m \<longleftrightarrow>
     (\<forall>i j e f. m i = Some e \<longrightarrow> m j = Some f \<longrightarrow> kn_alias e \<noteq> None \<longrightarrow> kn_alias e = kn_alias f \<longrightarrow> i = j)"

definition ks_inv :: "KnownServer list \<Rightarrow> bool" where
  "ks_inv s \<longleftrightarrow> list_all canonical_id (map kn_tox_id s) \<and> distinct (map kn_tox_id s) \<and> alias_unique (registry_of s)"

lemma hex_upper: "is_hex_char c \<Longrightarrow> is_hex_char (toupper c)"
  by (auto simp: is_hex_char_def of_char_toupper Let_def)

lemma canonical_upper: "is_valid_tox_id i \<Longrightarrow> canonical_id (str_upper i)"
  by (auto simp: canonical_id_def is_valid_tox_id_def list_all_iff hex_upper)

lemma registry_of_simps [simp]: "registry_of [] = Map.empty" "registry_of (e # s) = (registry_of s)(kn_tox_id e \<mapsto> e)"
  by (simp_all add: registry_of_def)

lemma registry_of_append: "registry_of (s @ t) = registry_of t ++ registry_of s"
  by (simp add: registry_of_def)

lemma registry_Some: "distinct (map kn_tox_id s) \<Longrightarrow> registry_of s i = Some e \<longleftrightarrow> e \<in> set s \<and> kn_tox_id e = i"
  by (induction s) (auto simp: image_iff)

lemma registry_None: "registry_of s i = None \<longleftrightarrow> i \<notin> kn_tox_id ` set s"
  by (induction s) auto

lemma find_registry: "find (\<lambda>e. kn_tox_id e = i) s = registry_of s i"
  by (induction s) auto

lemma update_first_registry:
  assumes "\<And>e. kn_tox_id (f e) = kn_tox_id e \<or> kn_tox_id e \<noteq> i" "registry_of s i = Some e"
  shows "registry_of (update_first (\<lambda>e. kn_tox_id e = i) f s) = (registry_of s)(i \<mapsto> f e)"
  using assms(2)
proof (induction s)
  case (Cons x s)
  then show ?case using assms(1) [of x] by (cases "kn_tox_id x = i") (auto simp: fun_upd_twist)
qed simp

lemma erase_first_registry:
  "distinct (map kn_tox_id s) \<Longrightarrow> registry_of (erase_first (\<lambda>e. kn_tox_id e = i) s) = (registry_of s)(i := None)"
  by (induction s) (auto simp: registry_None fun_upd_idem_iff fun_upd_twist)

lemma put_entry_registry:
  assumes "kn_tox_id fresh = i" "\<And>e. kn_tox_id e = i \<Longrightarrow> kn_tox_id (f e) = i"
  shows "registry_of (put_entry i fresh f s) =
    (registry_of s)(i \<mapsto> (case registry_of s i of None \<Rightarrow> fresh | Some e \<Rightarrow> f e))"
proof (cases "registry_of s i")
  case None
  then show ?thesis
    using assms by (auto simp: put_entry_def find_registry registry_of_append map_add_def fun_eq_iff split: option.splits)
next
  case (Some e)
  then show ?thesis
    using update_first_registry [of f i s e] assms(2) by (auto simp: put_entry_def find_registry)
qed

lemma update_first_ids:
  "(\<And>e. P e \<Longrightarrow> kn_tox_id (f e) = kn_tox_id e) \<Longrightarrow> map kn_tox_id (update_first P f s) = map kn_tox_id s"
  by (induction s) auto

lemma erase_first_set: "set (erase_first P s) \<subseteq> set s"
  by (induction s) auto

lemma erase_first_ids:
  assumes "list_all Q (map kn_tox_id s)" "distinct (map kn_tox_id s)"
  shows "list_all Q (map kn_tox_id (erase_first P s)) \<and> distinct (map kn_tox_id (erase_first P s))"
proof
  show "list_all Q (map kn_tox_id (erase_first P s))"
    using assms(1) erase_first_set [of P s] by (auto simp: list_all_iff)
  show "distinct (map kn_tox_id (erase_first P s))"
    using assms(2)
  proof (induction s)
    case (Cons x s)
    then have "kn_tox_id x \<notin> kn_tox_id ` set s" by simp
    with image_mono [OF erase_first_set [of P s]] have "kn_tox_id x \<notin> kn_tox_id ` set (erase_first P s)"
      by (rule contra_subsetD)
    then show ?case using Cons by simp
  qed simp
qed

lemma put_entry_ids:
  assumes "list_all canonical_id (map kn_tox_id s)" "distinct (map kn_tox_id s)" "canonical_id i"
    and "kn_tox_id fresh = i" "\<And>e. kn_tox_id e = i \<Longrightarrow> kn_tox_id (f e) = i"
  shows "list_all canonical_id (map kn_tox_id (put_entry i fresh f s)) \<and> distinct (map kn_tox_id (put_entry i fresh f s))"
proof (cases "find (\<lambda>e. kn_tox_id e = i) s")
  case None
  then show ?thesis using assms by (auto simp: put_entry_def find_None_iff)
next
  case (Some e)
  then have "map kn_tox_id (put_entry i fresh f s) = map kn_tox_id s"
    using update_first_ids [of "\<lambda>e. kn_tox_id e = i" f s] assms(5) by (simp add: put_entry_def)
  then show ?thesis using assms(1,2) by simp
qed

lemma alias_unique_upd:
  "alias_unique m \<Longrightarrow> \<not> alias_taken (kn_alias e) i m \<Longrightarrow> alias_unique (m(i \<mapsto> e))"
  unfolding alias_unique_def alias_taken_def by (metis fun_upd_apply option.inject)

lemma alias_unique_same:
  "alias_unique m \<Longrightarrow> kn_alias e = None \<or> (\<exists>f. m i = Some f \<and> kn_alias f = kn_alias e) \<Longrightarrow> alias_unique (m(i \<mapsto> e))"
  by (rule alias_unique_upd) (auto simp: alias_unique_def alias_taken_def)

lemma alias_unique_del: "alias_unique m \<Longrightarrow> alias_unique (m(i := None))"
  unfolding alias_unique_def by (metis fun_upd_apply option.distinct(1))

lemma find_SomeD: "find P xs = Some x \<Longrightarrow> x \<in> set xs \<and> P x"
  by (induction xs) (auto split: if_splits)

lemma alias_uniqueD:
  "alias_unique m \<Longrightarrow> m i = Some e \<Longrightarrow> m j = Some f \<Longrightarrow> kn_alias e = Some a \<Longrightarrow> kn_alias f = Some a \<Longrightarrow> i = j"
  unfolding alias_unique_def by fastforce

lemma registry_member: "ks_inv s \<Longrightarrow> registry_of s i = Some e \<longleftrightarrow> e \<in> set s \<and> kn_tox_id e = i"
  by (rule registry_Some) (simp add: ks_inv_def)

lemma find_alias_None: "find_by_alias a s = None \<longleftrightarrow> (\<forall>e \<in> set s. kn_alias e \<noteq> Some a)"
  by (auto simp: find_by_alias_def find_None_iff)

lemma find_by_alias_iff:
  assumes "ks_inv s"
  shows "find_by_alias a s = Some e \<longleftrightarrow> registry_of s (kn_tox_id e) = Some e \<and> kn_alias e = Some a"
proof
  assume "find_by_alias a s = Some e"
  then have "e \<in> set s \<and> kn_alias e = Some a" unfolding find_by_alias_def by (rule find_SomeD)
  then show "registry_of s (kn_tox_id e) = Some e \<and> kn_alias e = Some a" by (simp add: registry_member [OF assms])
next
  assume e: "registry_of s (kn_tox_id e) = Some e \<and> kn_alias e = Some a"
  then have "e \<in> set s" by (simp add: registry_member [OF assms])
  moreover have "kn_alias e = Some a" using e by (rule conjunct2)
  ultimately have "find_by_alias a s \<noteq> None" unfolding find_alias_None by blast
  then obtain f where f: "find_by_alias a s = Some f" by blast
  then have g: "f \<in> set s \<and> kn_alias f = Some a" unfolding find_by_alias_def by (rule find_SomeD)
  then have r: "registry_of s (kn_tox_id f) = Some f" by (simp add: registry_member [OF assms])
  have "alias_unique (registry_of s)" using assms by (simp add: ks_inv_def)
  then have "kn_tox_id f = kn_tox_id e"
    by (rule alias_uniqueD [OF _ r conjunct1 [OF e] conjunct2 [OF g] conjunct2 [OF e]])
  with r conjunct1 [OF e] have "Some f = Some e" by (metis (no_types))
  with f show "find_by_alias a s = Some e" by (simp only:)
qed

lemma find_by_alias_None: "ks_inv s \<Longrightarrow> find_by_alias a s = None \<longleftrightarrow> (\<nexists>j e. registry_of s j = Some e \<and> kn_alias e = Some a)"
  by (auto simp: find_by_alias_def find_None_iff registry_Some ks_inv_def)

lemma resolve_names: "ks_inv s \<Longrightarrow> names x (resolve_tox_id x s) (registry_of s)"
  using find_by_alias_None [of s x] find_by_alias_iff [of s x]
  by (auto simp: names_def resolve_tox_id_def split: option.splits)

lemma alias_find:
  assumes "ks_inv s"
  shows "kn_alias e \<noteq> None \<and> find (\<lambda>x. kn_alias x = kn_alias e \<and> kn_tox_id x \<noteq> i) s \<noteq> None
    \<longleftrightarrow> alias_taken (kn_alias e) i (registry_of s)"
  using assms by (auto simp: alias_taken_def find_None_iff ks_inv_def registry_Some)

lemma put_entry_inv:
  assumes "ks_inv s" "canonical_id i" "kn_tox_id fresh = i" "\<And>e. kn_tox_id e = i \<Longrightarrow> kn_tox_id (f e) = i"
    and "alias_unique ((registry_of s)(i \<mapsto> (case registry_of s i of None \<Rightarrow> fresh | Some e \<Rightarrow> f e)))"
  shows "ks_inv (put_entry i fresh f s)"
  using assms put_entry_ids [of s i fresh f] by (simp add: ks_inv_def put_entry_registry)

lemma upsert_step:
  assumes "ks_inv s" "ks_upsert e s = (r, s')"
  shows "registry_step (registry_of s) (KO_Upsert e) r (registry_of s') \<and> ks_inv s'"
proof -
  let ?i = "str_upper (kn_tox_id e)"
  let ?n = "e\<lparr>kn_tox_id := ?i\<rparr>"
  consider "\<not> is_valid_tox_id (kn_tox_id e) \<or> alias_taken (kn_alias e) ?i (registry_of s)"
    | "is_valid_tox_id (kn_tox_id e)" "\<not> alias_taken (kn_alias e) ?i (registry_of s)" by blast
  then show ?thesis
  proof cases
    case 1
    then have "r = False" "s' = s"
      using assms(2) alias_find [OF assms(1), of e ?i] by (auto simp: ks_upsert_def Let_def split: if_splits)
    then show ?thesis using 1 assms(1) by (simp add: rs_rejected)
  next
    case 2
    then have s': "r = True" "s' = put_entry ?i ?n (\<lambda>_. ?n) s"
      using assms(2) alias_find [OF assms(1), of e ?i] by (auto simp: ks_upsert_def Let_def split: if_splits)
    have upd: "(registry_of s)(?i \<mapsto> (case registry_of s ?i of None \<Rightarrow> ?n | Some e \<Rightarrow> ?n)) = (registry_of s)(?i \<mapsto> ?n)"
      by (simp split: option.splits)
    have "registry_of s' = (registry_of s)(?i \<mapsto> ?n)"
      unfolding s'(2) upd [symmetric] by (rule put_entry_registry) simp_all
    moreover have "ks_inv s'"
      unfolding s'(2)
    proof (rule put_entry_inv [OF assms(1) canonical_upper [OF 2(1)]])
      show "alias_unique ((registry_of s)(?i \<mapsto> (case registry_of s ?i of None \<Rightarrow> ?n | Some e \<Rightarrow> ?n)))"
        unfolding upd using assms(1) 2(2) by (intro alias_unique_upd) (simp_all add: ks_inv_def)
    qed simp_all
    ultimately show ?thesis using 2 s'(1) rs_upsert [OF 2(1) refl] by simp
  qed
qed

lemma new_entry [simp]: "kn_tox_id (known_server_new i) = i" "kn_alias (known_server_new i) = None"
  by (simp_all add: known_server_new_def)

lemma touch_keeps [simp]:
  "kn_tox_id (touch_connection now t e) = kn_tox_id e" "kn_alias (touch_connection now t e) = kn_alias e"
  "kn_tox_id (put_info now info e) = kn_tox_id e" "kn_alias (put_info now info e) = kn_alias e"
  by (simp_all add: touch_connection_def put_info_def)

lemma put_step:
  assumes "ks_inv s" "is_valid_tox_id x"
    and "\<And>e. kn_tox_id (g e) = kn_tox_id e" "\<And>e. kn_alias (g e) = kn_alias e"
  shows "registry_of (put_entry (str_upper x) (g (known_server_new (str_upper x))) g s) =
      (registry_of s)(str_upper x \<mapsto> g (case registry_of s (str_upper x) of None \<Rightarrow> known_server_new (str_upper x) | Some e \<Rightarrow> e))
    \<and> ks_inv (put_entry (str_upper x) (g (known_server_new (str_upper x))) g s)"
proof
  let ?i = "str_upper x" and ?n = "known_server_new (str_upper x)"
  have upd: "(case registry_of s ?i of None \<Rightarrow> g ?n | Some e \<Rightarrow> g e) = g (case registry_of s ?i of None \<Rightarrow> ?n | Some e \<Rightarrow> e)"
    by (simp split: option.splits)
  have new: "kn_tox_id (g ?n) = ?i" by (simp add: assms(3))
  show "registry_of (put_entry ?i (g ?n) g s) =
      (registry_of s)(?i \<mapsto> g (case registry_of s ?i of None \<Rightarrow> ?n | Some e \<Rightarrow> e))"
    unfolding upd [symmetric] by (rule put_entry_registry) (simp_all add: assms(3))
  have "alias_unique ((registry_of s)(?i \<mapsto> (case registry_of s ?i of None \<Rightarrow> g ?n | Some e \<Rightarrow> g e)))"
    using assms(1,4) by (intro alias_unique_same) (auto simp: ks_inv_def split: option.splits)
  then show "ks_inv (put_entry ?i (g ?n) g s)"
    by (intro put_entry_inv [OF assms(1) canonical_upper [OF assms(2)] new]) (simp_all add: assms(3))
qed

lemma remove_step:
  assumes "ks_inv s" "ks_remove x s = (r, s')"
  shows "registry_step (registry_of s) (KO_Remove x) r (registry_of s') \<and> ks_inv s'"
proof -
  note names = resolve_names [OF assms(1), of x]
  show ?thesis
  proof (cases "registry_of s (resolve_tox_id x s)")
    case None
    then have "r = False" "s' = s" using assms(2) by (auto simp: ks_remove_def Let_def find_registry)
    then show ?thesis using rs_unknown [OF names] None assms(1) by auto
  next
    case (Some e)
    then have s': "r = True" "s' = erase_first (\<lambda>e. kn_tox_id e = resolve_tox_id x s) s"
      using assms(2) by (auto simp: ks_remove_def Let_def find_registry)
    have reg: "registry_of s' = (registry_of s)(resolve_tox_id x s := None)"
      unfolding s'(2) using assms(1) by (intro erase_first_registry) (simp add: ks_inv_def)
    moreover have "ks_inv s'"
      using erase_first_ids [of canonical_id s "\<lambda>e. kn_tox_id e = resolve_tox_id x s"] assms(1) alias_unique_del reg
      by (simp add: ks_inv_def s'(2))
    ultimately show ?thesis using rs_removed [OF names] Some s'(1) by auto
  qed
qed

lemma op_step:
  assumes "ks_inv s" "ks_op op s = (r, s')"
  shows "registry_step (registry_of s) op r (registry_of s') \<and> ks_inv s'"
proof (cases op)
  case (KO_Upsert e)
  then show ?thesis using upsert_step assms by simp
next
  case (KO_Connection now x t)
  have fresh: "(known_server_new i)\<lparr>kn_first_connected_at := Some now, kn_last_connected_at := Some now, kn_last_connection_type := t\<rparr>
      = touch_connection now t (known_server_new i)" for i
    by (simp add: known_server_new_def touch_connection_def)
  show ?thesis
  proof (cases "is_valid_tox_id x")
    case True
    then show ?thesis
      using put_step [OF assms(1) True, of "touch_connection now t"] rs_connection [OF True refl refl, of "registry_of s" now t]
        assms(2) KO_Connection by (auto simp: ks_record_connection_def Let_def fresh)
  next
    case False
    then show ?thesis using assms KO_Connection rs_bad_connection by (simp add: ks_record_connection_def)
  qed
next
  case (KO_Info now x info)
  show ?thesis
  proof (cases "is_valid_tox_id x")
    case True
    then show ?thesis
      using put_step [OF assms(1) True, of "put_info now info"] rs_info [OF True refl refl, of "registry_of s" now info]
        assms(2) KO_Info by (auto simp: ks_record_info_def Let_def)
  next
    case False
    then show ?thesis using assms KO_Info rs_bad_info by (simp add: ks_record_info_def)
  qed
next
  case (KO_Remove x)
  then show ?thesis using remove_step assms by simp
qed

text \<open>The registry leaves no choice: the operation and the registry determine the answer and the result.\<close>

inductive_cases registry_stepE:
  "registry_step m (KO_Upsert e) r m'" "registry_step m (KO_Connection now x t) r m'"
  "registry_step m (KO_Info now x info) r m'" "registry_step m (KO_Remove x) r m'"

lemma names_unique: "alias_unique m \<Longrightarrow> names x i m \<Longrightarrow> names x j m \<Longrightarrow> i = j"
  using alias_uniqueD by (fastforce simp: names_def split: if_splits)

lemma registry_step_unique:
  assumes "registry_step m op r m'" "registry_step m op q m''" "alias_unique m"
  shows "r = q \<and> m' = m''"
proof (cases op)
  case (KO_Remove x)
  then show ?thesis using assms names_unique [OF assms(3)] by (auto elim!: registry_stepE)
qed (use assms in \<open>auto elim!: registry_stepE\<close>)

fun ks_run :: "KnownOp list \<Rightarrow> KnownServer list \<Rightarrow> bool list \<times> KnownServer list" where
  "ks_run [] s = ([], s)"
| "ks_run (op # ops) s = (let (r, s1) = ks_op op s; (rs, s2) = ks_run ops s1 in (r # rs, s2))"

inductive registry_run :: "registry \<Rightarrow> (KnownOp \<times> bool) list \<Rightarrow> registry \<Rightarrow> bool" where
  rr_nil: "registry_run m [] m"
| rr_step: "registry_step m op r m1 \<Longrightarrow> registry_run m1 ops m2 \<Longrightarrow> registry_run m ((op, r) # ops) m2"

lemma run_refines:
  "ks_inv s \<Longrightarrow> ks_run ops s = (rs, s') \<Longrightarrow> registry_run (registry_of s) (zip ops rs) (registry_of s') \<and> ks_inv s'"
proof (induction ops arbitrary: s rs)
  case Nil
  then show ?case by (auto intro: rr_nil)
next
  case (Cons op ops)
  obtain r s1 where op: "ks_op op s = (r, s1)" by (cases "ks_op op s")
  obtain qs where run: "ks_run ops s1 = (qs, s')" "rs = r # qs" using Cons.prems(2) op by (auto split: prod.splits)
  then show ?case
    using op_step [OF Cons.prems(1) op] Cons.IH [of s1 qs] rr_step by fastforce
qed

lemma empty_inv [simp]: "ks_inv []"
  by (simp add: ks_inv_def alias_unique_def)

text \<open>Claim C29: the store is a map. Every sequence of operations from the empty store does to it what the same
  operations do to a map from canonical identifiers to entries, with the same answers; the
  identifiers stay valid, upper-case and distinct, an alias names one server, and both lookups answer from the map.\<close>

theorem known_servers_refine:
  "case ks_run ops [] of (rs, s) \<Rightarrow>
     registry_run Map.empty (zip ops rs) (registry_of s) \<and> ks_inv s
     \<and> (\<forall>i. find_by_tox_id i s = registry_of s (str_upper i))
     \<and> (\<forall>a e. find_by_alias a s = Some e \<longleftrightarrow> registry_of s (kn_tox_id e) = Some e \<and> kn_alias e = Some a)"
proof -
  obtain rs s where run: "ks_run ops [] = (rs, s)" by (cases "ks_run ops []")
  then have "registry_run Map.empty (zip ops rs) (registry_of s) \<and> ks_inv s" using run_refines [OF empty_inv run] by simp
  then show ?thesis using run find_by_alias_iff by (auto simp: find_by_tox_id_def find_registry)
qed

section \<open>Saving and loading\<close>

context yaml_library
begin

lemma info_back: "decode_info y (encode_info y i) = Some i"
proof -
  have "yoptional y (n_string y) (encode_info y i) ''hostname'' None = Some (ki_hostname i)"
    "yoptional y (n_string y) (encode_info y i) ''os'' None = Some (ki_os i)"
    "yoptional y (n_string y) (encode_info y i) ''os_version'' None = Some (ki_os_version i)"
    "yoptional y (n_string y) (encode_info y i) ''arch'' None = Some (ki_arch i)"
    "yoptional y (n_string y) (encode_info y i) ''toxtunnel_version'' None = Some (ki_toxtunnel_version i)"
    "yoptional y (n_string y) (encode_info y i) ''reported_at'' None = Some (ki_reported_at i)"
    unfolding encode_info_def
    by (-, (rule optional_back [where f = "n_of_string y"]; simp add: conversions del: map_of_append)+)
  moreover have "yoptional y (n_u64 y) (encode_info y i) ''uptime_seconds'' None = Some (ki_uptime_seconds i)"
    unfolding encode_info_def by (rule optional_back [where f = "n_of_u64 y"]; simp add: conversions del: map_of_append)
  ultimately show ?thesis by (simp add: decode_info_def) (simp add: encode_info_def map_kind)
qed

lemma entry_back:
  assumes "canonical_id (kn_tox_id e)"
  shows "decode_entry y (encode_entry y e) = Some (Some e)"
proof -
  have "yoptional y (n_string y) (encode_entry y e) ''alias'' None = Some (kn_alias e)"
    "yoptional y (n_string y) (encode_entry y e) ''first_connected_at'' None = Some (kn_first_connected_at e)"
    "yoptional y (n_string y) (encode_entry y e) ''last_connected_at'' None = Some (kn_last_connected_at e)"
    unfolding encode_entry_def
    by (-, (rule optional_back [where f = "n_of_string y"]; simp add: conversions del: map_of_append)+)
  moreover have "yoptional y (n_string y) (encode_entry y e) ''last_connection_type'' None
      = Some (Some (connection_type_to_string (kn_last_connection_type e)))"
    by (simp add: encode_entry_def yaml_simps del: map_of_append)
  moreover have "yfield y (n_string y) (encode_entry y e) ''notes'' [] = Some (kn_notes e)"
    by (simp add: encode_entry_def yaml_simps del: map_of_append)
  moreover have "info_empty (kn_info e) \<Longrightarrow> kn_info e = info_new"
    by (cases "kn_info e") (simp add: info_empty_def info_new_def)
  then have "yfield y (decode_info y) (encode_entry y e) ''info'' info_new = Some (kn_info e)"
    by (auto simp: encode_entry_def yaml_simps info_back simp del: map_of_append)
  moreover have "n_get y (encode_entry y e) ''tox_id'' = Some (n_of_string y (kn_tox_id e))" "n_is_map y (encode_entry y e)"
    by (simp_all add: encode_entry_def yaml_simps del: map_of_append)
  moreover have "known_connection_type_from_string (connection_type_to_string t) = Some t" for t
    by (cases t) (simp_all add: connection_type_to_string_def known_connection_type_from_string_def)
  ultimately show ?thesis using assms by (simp add: decode_entry_def conversions canonical_id_def)
qed

lemma entries_back: "list_all canonical_id (map kn_tox_id s) \<Longrightarrow> load_entries y (map (encode_entry y) s) = (LR_Ok, s)"
  by (induction s) (simp_all add: entry_back)

lemma document_back:
  "list_all canonical_id (map kn_tox_id s) \<Longrightarrow> load_from_disk y (DF_Document (save_document y s)) = (LR_Ok, s)"
  by (simp add: load_from_disk_def load_document_def save_document_def yaml_simps entries_back)

end

text \<open>What the store saves it loads. After any sequence of operations from the empty store, the
  document that is saved is loaded without an error and gives the same entries in the same order.\<close>

theorem known_servers_save_load:
  assumes "yaml_library y"
  shows "load_from_disk y (DF_Document (save_document y (snd (ks_run ops [])))) = (LR_Ok, snd (ks_run ops []))"
proof -
  obtain rs s where run: "ks_run ops [] = (rs, s)" by (cases "ks_run ops []")
  then have "ks_inv s" using run_refines [OF empty_inv run] by simp
  then show ?thesis using yaml_library.document_back [OF assms, of s] run by (simp add: ks_inv_def)
qed

theorem known_servers_save_load_witness:
  "load_from_disk node_lib (DF_Document (save_document node_lib
     (snd (ks_run [KO_Connection ''t'' (replicate 76 (CHR ''a'')) KC_Udp] []))))
   = (LR_Ok, [touch_connection ''t'' KC_Udp (known_server_new (replicate 76 (CHR ''A'')))])"
proof -
  have "snd (ks_run [KO_Connection ''t'' (replicate 76 (CHR ''a'')) KC_Udp] []) =
      [touch_connection ''t'' KC_Udp (known_server_new (replicate 76 (CHR ''A'')))]"
    by code_simp
  then show ?thesis
    using known_servers_save_load [OF nodes.yaml_library_axioms, of "[KO_Connection ''t'' (replicate 76 (CHR ''a'')) KC_Udp]"]
    by simp
qed

text \<open>A file that was edited by hand: entries before a value of the wrong kind are kept, the exception escapes.\<close>

lemma bad_value_escapes:
  assumes "yaml_library y" "list_all canonical_id (map kn_tox_id s)" "decode_entry y n = None"
  shows "load_entries y (map (encode_entry y) s @ n # ns) = (LR_Throws, s)"
  using assms(2) by (induction s) (simp_all add: assms(3) yaml_library.entry_back [OF assms(1)])

text \<open>Two entries with one identifier are both loaded, and removing the server leaves the second.\<close>

lemma duplicate_survives_remove:
  assumes "canonical_id i" "kn_tox_id e = i" "kn_tox_id f = i"
  shows "ks_remove i [e, f] = (True, [f])" "find_by_tox_id i [f] = Some f"
  using assms by (simp_all add: ks_remove_def resolve_tox_id_def canonical_id_def find_by_tox_id_def)

section \<open>The order of the entries\<close>

lemma entry_less_trans: "\<not> entry_less b a \<Longrightarrow> \<not> entry_less c b \<Longrightarrow> \<not> entry_less c a"
  by (auto simp: entry_less_def split: option.splits)

lemma entry_less_asym: "entry_less a b \<Longrightarrow> \<not> entry_less b a"
  by (auto simp: entry_less_def split: option.splits)

lemma insert_entry_mset [simp]: "mset (insert_entry e xs) = add_mset e (mset xs)"
  by (induction xs) auto

lemma insert_entry_sorted:
  assumes "sorted_wrt (\<lambda>a b. \<not> entry_less b a) xs"
  shows "sorted_wrt (\<lambda>a b. \<not> entry_less b a) (insert_entry e xs)"
  using assms
proof (induction xs)
  case (Cons x xs)
  have set: "set (insert_entry e xs) = insert e (set xs)" by (metis insert_entry_mset set_mset_add_mset_insert set_mset_mset)
  show ?case
  proof (cases "entry_less e x")
    case True
    have xe: "\<not> entry_less x e" using True by (rule entry_less_asym)
    moreover have "\<not> entry_less b e" if "b \<in> set xs" for b
      using Cons.prems that by (intro entry_less_trans [OF xe]) simp
    ultimately show ?thesis using Cons.prems True by simp
  next
    case False
    then show ?thesis using Cons by (simp add: set)
  qed
qed simp

lemma entries_sorted: "sorted_wrt (\<lambda>a b. \<not> entry_less b a) (ks_entries s)" "mset (ks_entries s) = mset s"
proof -
  have "sorted_wrt (\<lambda>a b. \<not> entry_less b a) xs \<Longrightarrow> sorted_wrt (\<lambda>a b. \<not> entry_less b a) (fold insert_entry s xs)" for xs
    by (induction s arbitrary: xs) (simp_all add: insert_entry_sorted)
  then show "sorted_wrt (\<lambda>a b. \<not> entry_less b a) (ks_entries s)" by (simp add: ks_entries_def)
  have "mset (fold insert_entry s xs) = mset s + mset xs" for xs
    by (induction s arbitrary: xs) simp_all
  then show "mset (ks_entries s) = mset s" by (simp add: ks_entries_def)
qed

end
