(* ===== verification/Spec2Isabelle.thy ===== *)
theory Spec2Isabelle
  imports Rules_Engine Circular_Buffer Tunnel_Id_Allocator Gate_Credit Tunnel_Progress Server_Publish Tox_Watchdog Config_Yaml Known_Servers
begin

text \<open>
  Verification of ToxTunnel, a program that carries TCP connections over the Tox network
  (C++, directories \<open>src\<close>, \<open>include\<close> and \<open>cli\<close> of the repository). A client listens on local TCP ports,
  opens one tunnel per connection to a server and moves the bytes as frames in Tox lossless packets;
  the server checks its rules, connects to the target and answers. Each tunnel runs an emission driver
  that turns the bytes of its TCP socket into DATA frames under a flow-control window, and all tunnels to
  one friend share a gate that limits what is queued inside toxcore.
\<close>

text \<open>
  \<^bold>\<open>The theories and the code.\<close>

  \<^item> \<open>Prelude\<close>: shared lemmas on lists, options and words, and the named collections of the
    development.

  \<^item> \<open>Protocol\<close> (\<open>tunnel/protocol\<close>, \<open>tunnel/owned_frame_buffer\<close>): the frame header, every payload
    codec and the zero-copy buffer. Round trips over the wire, exact decoding errors, canonical
    decoding.

  \<^item> \<open>Circular_Buffer\<close> (\<open>util/circular_buffer\<close>): the ring refines a bounded list that drops its oldest
    elements.

  \<^item> \<open>Tunnel_Id_Allocator\<close> (\<open>tunnel/tunnel_id_allocator\<close>): fresh ids, found exactly when one is free; the
    allocator refines an abstract pool (locale \<open>id_pool\<close>).

  \<^item> \<open>Bdp_Flow_Control\<close>, \<open>Write_Coalescer\<close> (\<open>tunnel/bdp_flow_control\<close>, \<open>tunnel/write_coalescer\<close>,
    \<open>tunnel/sendq_retry\<close>): the window stays in its bounds and its arithmetic in 64 bits, untrusted
    samples never enlarge it; the policy changes only after four equal candidates.

  \<^item> \<open>Friend_Send_Gate\<close>, \<open>Gate_Credit\<close> (\<open>tunnel/friend_send_gate\<close>): the gate itself, and its
    composition with an ordered stream and a peer that echoes fences. The credited bytes have really
    been received, admission respects the budget, and an echo of the newest fence settles everything.

  \<^item> \<open>Tunnel_State\<close>, \<open>Tunnel_Driver\<close>, \<open>Tunnel_Ops\<close> (\<open>tunnel/tunnel.cpp\<close>, \<open>tunnel/tunnel.hpp\<close>): one tunnel
    endpoint. Its state is a record of one record per mutex; each critical section is one definition;
    the emission driver and every member function are compositions of them.

  \<^item> \<open>Tunnel_Steps\<close>: the critical sections as a step relation, so that all interleavings of the
    threads that use a tunnel are covered, with the locale \<open>tunnel_invariant\<close> that turns a step-wise
    invariant into one of the reachable states, and the refinement of every public state-changing member
    function by a path (but \<open>reset_statistics\<close>, which nothing calls, and the hooks of the unit tests).

  \<^item> \<open>Tunnel_Stream\<close>, \<open>Tunnel_Control\<close>, \<open>Tunnel_Flow\<close>: three invariants as instances of that locale
    (the byte stream, the control frames, the flow counters). \<open>Tunnel_Safety\<close> states the properties of
    reachable tunnels; \<open>Tunnel_Progress\<close> that the driver returns and, with a willing transport, delivers
    everything it was asked to flush.

  \<^item> \<open>Manager_Outbound\<close>, \<open>Tunnel_Manager\<close> (\<open>tunnel/tunnel_manager\<close>, \<open>app/tunnel_senders\<close>): the retry queue
    of control frames and its barrier, where a send is the three sections of the code (test of the barrier,
    transport call, parking) and sends, drains and resets interleave; the registry of a friend's tunnels, identifiers, routing, keepalive
    and the idle reaper. Tunnels are objects on a heap. \<open>Manager_Leases\<close> is the transition system of the
    manager with its identifiers as leases; \<open>Manager_Safety\<close> shows that an identifier has one holder, that
    the registry is well formed, and that every public state-changing member function and timer tick of the
    manager is a path of the system, for callers that release and register only what they reserved.

  \<^item> \<open>Socks5\<close> (\<open>app/socks5_listener\<close>): the SOCKS5 and HTTP CONNECT parsers and the session that uses them;
    until it closes its connection, the session does not depend on how the bytes are cut into reads; after
    that, a segment still in flight is parsed again.

  \<^item> \<open>Inbound_Throttle\<close>, \<open>Open_Ack_Gate\<close>, \<open>Tunnel_Server\<close> (\<open>app/tunnel_server\<close>): the byte throttle of a
    friend, the gate that publishes a tunnel behind its OPEN_ACK, and the server with its live and held
    managers. \<open>Server_Safety\<close> runs the server's events: managers are accounted for and used only through
    their interface, connections go only to permitted targets, and resume restores and answers truthfully.
    \<open>Server_Publish\<close> follows one open from its resolver to its publication, with the wiring's look at the
    tunnel racing with the threads of the gate and the target's end: one outcome, and only a tunnel that its
    manager still holds is published.

  \<^item> \<open>Text_Util\<close>, \<open>Tox_Types\<close> (\<open>tox/types\<close>): Tox identifiers, public keys, their checksum and text forms.

  \<^item> \<open>Rate_Limiter\<close> (\<open>app/rate_limiter\<close>): token buckets per friend; the admitted bytes are bounded by
    burst and rate, and the reported wait is enough.

  \<^item> \<open>Tox_Watchdog\<close> (\<open>tox/tox_watchdog\<close>): the check of the Tox thread's heartbeat. A thread that makes
    progress is never aborted, a wedged one always is, and once.

  \<^item> \<open>Configuration\<close> (\<open>util/config\<close>, \<open>util/config_reload\<close>): the structures, defaults, validation, command-line
    overrides, and the gate and diff of a hot reload, both exact (paths are compared as paths). \<open>Yaml_Nodes\<close> states what the code uses of
    the YAML library (locale \<open>yaml_library\<close>), \<open>Config_Yaml\<close> the YAML form of the configuration over it;
    a savable configuration is loaded back as it was.

  \<^item> \<open>Known_Servers\<close> (\<open>app/known_servers\<close>): the client's registry of servers. The store refines a map from
    identifiers to entries, and its file is read back as it was written.

  \<^item> \<open>Rules_Engine\<close> (\<open>app/rules_engine\<close>): loading, matching and saving of access rules; the decision against
    a specification of the governing rule and of what a target covers: deny before allow before the default
    policy, independent of letter case.
\<close>

text \<open>
  \<^bold>\<open>Modelling conventions.\<close> Integers that travel on the wire are words of their width. Counters of
  bytes are natural numbers where the code cannot overflow them in practice, and integers with
  explicit bounds where the code clamps them. Errors are values of a sum or option type. Time is a
  parameter. Toxcore is the parameter \<open>te_tox\<close> of a tunnel (a verdict for every frame, any function of
  the history) and the ordered, lossless stream of one friend in \<open>Gate_Credit\<close>. A send is authorised
  by the gate it sees when it copies the callback; copying and calling are one section. YAML documents
  are a data type whose parsing is left to the library.

  \<^bold>\<open>Fuel.\<close> The driver loop and the functions that kick it take fuel and return \<open>None\<close> when it is used up.
  The safety properties hold of every reachable state and so of every prefix of a run, independent of
  fuel. \<open>Tunnel_Progress\<close> shows that a flush returns when the fuel exceeds the pending bytes by six: each
  pass of the loop sends a frame, retires an obligation or ends. The loops of \<open>Rate_Limiter\<close>,
  \<open>Tunnel_Id_Allocator\<close>, \<open>Inbound_Throttle\<close>, of the acknowledgements and of the manager are total
  functions with termination proofs.

  \<^bold>\<open>Not modelled.\<close> Exceptions thrown by callbacks and the unwinding that repairs them, destructors,
  the arming of physical timers (their handlers are modelled), logging and metrics. Sockets, files,
  processes, the command line and the toxcore bindings are input and output or calls into other
  libraries. Of the server, start-up and shutdown are left out; the client application is not
  part of the development. The text that the YAML library emits and parses is outside of it; the nodes are a
  parameter.
\<close>

end
